(* ===== verification/Prelude.thy ===== *)
theory Prelude
  imports Main "HOL-Library.Word"
begin

text \<open>
  Shared vocabulary of the development: the machine types of \<^verbatim>\<open>include/types.h\<close>, the theorem
  collections the component theories feed and use, and generic facts on bit flags, flat
  word memories and lists.

  The configuration is the one the repository ships in \<^verbatim>\<open>include/config.h\<close>: x86 (i686), one
  processor, no small address spaces, no \<^verbatim>\<open>CONFIG_DEBUG_SANITY\<close>, IO flexpages enabled.
\<close>

unbundle bit_operations_syntax

section \<open>Machine types\<close>

type_synonym byte_t = "8 word"
type_synonym word_t = "16 word"
type_synonym dword_t = "32 word"
type_synonym qword_t = "64 word"
type_synonym sdword_t = "32 word" \<comment> \<open>read with \<open>sint\<close>\<close>

text \<open>Addresses of 32-bit objects, and memory seen as 32-bit cells at byte addresses.
  Every access of the modelled code to such a memory is to an aligned 32-bit cell.\<close>

type_synonym ptr_t = dword_t
type_synonym wmem = "dword_t \<Rightarrow> dword_t"

abbreviation NULL :: dword_t where "NULL \<equiv> 0"

section \<open>Collections\<close>

named_theorems flag_simps \<open>testing, setting and clearing a flag of a bit mask\<close>
named_theorems link_simps \<open>reading a link field after an update of the state\<close>
named_theorems frame_simps \<open>what an operation leaves alone\<close>
named_theorems mem_simps \<open>reading a memory cell after a write\<close>

section \<open>Bit flags\<close>

lemma and_one_bit: "(w AND 1 = 0) \<longleftrightarrow> \<not> bit w 0" for w :: "'a::len word"
  using and_exp_eq_0_iff_not_bit [of w 0] by simp

lemma and_two_bit: "(w AND 2 = 0) \<longleftrightarrow> \<not> bit w 1" for w :: dword_t
  using and_exp_eq_0_iff_not_bit [of w 1] by simp

lemma and_four_bit: "(w AND 4 = 0) \<longleftrightarrow> \<not> bit w 2" for w :: dword_t
  using and_exp_eq_0_iff_not_bit [of w 2] by simp

lemma and_eight_bit: "(w AND 8 = 0) \<longleftrightarrow> \<not> bit w 3" for w :: dword_t
  using and_exp_eq_0_iff_not_bit [of w 3] by simp

lemma bit_one_iff_dword: "bit (1 :: dword_t) n \<longleftrightarrow> n = 0"
  by (simp add: bit_1_iff)

lemma bit_two_iff_dword: "bit (2 :: dword_t) n \<longleftrightarrow> n = 1"
  using bit_exp_iff [where 'a = "dword_t", of 1 n] by auto

lemma bit_four_iff_dword: "bit (4 :: dword_t) n \<longleftrightarrow> n = 2"
  using bit_exp_iff [where 'a = "dword_t", of 2 n] by auto

lemma bit_eight_iff_dword: "bit (8 :: dword_t) n \<longleftrightarrow> n = 3"
  using bit_exp_iff [where 'a = "dword_t", of 3 n] by auto

lemmas mask_bits =
  bit_one_iff_dword bit_two_iff_dword bit_four_iff_dword bit_eight_iff_dword

lemmas mask_tests = and_one_bit and_two_bit and_four_bit and_eight_bit

section \<open>Unsigned counters\<close>

lemma unat_inc: "i < n \<Longrightarrow> unat (i + 1) = unat i + 1" for i n :: "'a::len word"
proof -
  assume "i < n"
  then have "unat i + 1 \<le> unat n" by (simp add: word_less_nat_alt)
  also have "unat n < 2 ^ LENGTH('a)" by (rule unsigned_less)
  finally show ?thesis by (simp add: unat_word_ariths)
qed

lemma unat_inc_measure: "i < n \<Longrightarrow> unat n - unat (i + 1) < unat n - unat i"
  for i n :: "'a::len word"
  using unat_inc [of i n] by (simp add: word_less_nat_alt)

lemma unat_add_noflow:
  "unat a + unat b < 2 ^ LENGTH('a) \<Longrightarrow> unat (a + b) = unat a + unat b" for a b :: "'a::len word"
  by (simp add: unat_word_ariths)

lemma unat_of_nat_small: "n < 2 ^ LENGTH('a) \<Longrightarrow> unat (of_nat n :: 'a::len word) = n"
  by (simp add: unat_of_nat take_bit_nat_eq_self)

lemma unat_dword_less: "unat w < 2 ^ 32" for w :: dword_t
proof -
  have "unat w < 2 ^ LENGTH(32)" by (rule unsigned_less)
  then show ?thesis by simp
qed

lemma of_nat_dword_0: "n < 2 ^ 32 \<Longrightarrow> (of_nat n :: dword_t) = 0 \<longleftrightarrow> n = 0"
  using unat_of_nat_small [of n, where 'a = 32] by (auto simp: word_unat_eq_iff)

section \<open>Aligning addresses\<close>

lemma and_not_mask_diff: "w AND NOT (mask n) = w - take_bit n w" for w :: "'a::len word"
proof -
  have "w AND NOT (mask n) = push_bit n (drop_bit n w)"
    by (rule bit_word_eqI) (auto simp: bit_simps)
  with bits_ident [of n w] show ?thesis by (metis add_diff_cancel_right')
qed

lemma unat_and_not_mask: "unat (w AND NOT (mask n)) = unat w - unat w mod 2 ^ n"
  for w :: "'a::len word"
proof -
  have t: "unat (take_bit n w) = unat w mod 2 ^ n"
    by (simp only: unsigned_take_bit_eq) (simp add: take_bit_eq_mod)
  then have "take_bit n w \<le> w" by (simp add: word_le_nat_alt)
  then show ?thesis unfolding and_not_mask_diff by (simp add: unat_sub t)
qed

lemma unat_and_mask: "unat (w AND mask n) = unat w mod 2 ^ n" for w :: "'a::len word"
  by (simp only: take_bit_eq_mask [symmetric] unsigned_take_bit_eq) (simp add: take_bit_eq_mod)

section \<open>Sorted lists\<close>

lemma sorted_dropWhile_less:
  "sorted xs \<Longrightarrow> x \<in> set (dropWhile (\<lambda>x. x < a) xs) \<Longrightarrow> \<not> x < a"
  for a :: "'a::linorder"
  by (induction xs) (auto split: if_splits)

lemma sorted_wrt_less_append:
  "sorted_wrt (<) (xs @ ys) \<longleftrightarrow>
     sorted_wrt (<) xs \<and> sorted_wrt (<) ys \<and> (\<forall>x\<in>set xs. \<forall>y\<in>set ys. x < y)"
  for xs :: "'a::linorder list"
  by (auto simp: sorted_wrt_append)

end
