(* ===== verification/Kmem.thy ===== *)
theory Kmem
  imports Prelude "HOL-Library.Monad_Syntax"
begin

text \<open>
  The kernel memory allocator, \<^verbatim>\<open>src/kernel/src/kmemory.c\<close>. Free kernel memory is a singly
  linked list of 1 KB chunks, ordered by address, whose link is the first cell of each chunk.
  The state is the memory itself, the head \<open>kmem_free_list\<close> and the counter \<open>free_chunks\<close>.
  A C pointer \<open>prev\<close> that may hold \<^verbatim>\<open>&kmem_free_list\<close> is an option: \<open>None\<close> is the head variable.
  Loops that a corrupt list would send round for ever are \<open>partial_function (option)\<close>;
  the lemmas show that they return on a well-formed list.
\<close>

section \<open>State and operations\<close>

record kmem =
  mem :: wmem
  kmem_free_list :: ptr_t
  free_chunks :: dword_t

definition KMEM_CHUNKSIZE :: dword_t where
  "KMEM_CHUNKSIZE = 0x400"

text \<open>The loop that links the chunks of the freed block to each other.\<close>

partial_function (option) kmem_link_chunks ::
    "ptr_t \<Rightarrow> ptr_t \<Rightarrow> wmem \<Rightarrow> (ptr_t \<times> wmem) option" where
  "kmem_link_chunks p bound m =
     (if p < bound then
        let m' = m(p := p + KMEM_CHUNKSIZE) in kmem_link_chunks (m' p) bound m'
      else Some (p, m))"

text \<open>The loop that finds the place to insert.\<close>

partial_function (option) kmem_find_place ::
    "ptr_t \<Rightarrow> ptr_t option \<Rightarrow> ptr_t \<Rightarrow> wmem \<Rightarrow> (ptr_t option \<times> ptr_t) option" where
  "kmem_find_place address prev cur m =
     (if cur \<noteq> NULL \<and> address > cur
      then kmem_find_place address (Some cur) (m cur) m
      else Some (prev, cur))"

definition write_prev :: "ptr_t option \<Rightarrow> dword_t \<Rightarrow> 'a kmem_scheme \<Rightarrow> 'a kmem_scheme" where
  "write_prev prev v k =
     (case prev of
        None \<Rightarrow> k\<lparr>kmem_free_list := v\<rparr>
      | Some p \<Rightarrow> k\<lparr>mem := (mem k)(p := v)\<rparr>)"

definition kmem_free :: "ptr_t \<Rightarrow> dword_t \<Rightarrow> 'a kmem_scheme \<Rightarrow> 'a kmem_scheme option" where
  "kmem_free address sz k =
     do {
       (p, m) \<leftarrow> kmem_link_chunks address (address + sz - KMEM_CHUNKSIZE) (mem k);
       (prev, cur) \<leftarrow> kmem_find_place address None (kmem_free_list k) m;
       let k1 = write_prev prev address (k\<lparr>mem := m\<rparr>);
       let k2 = k1\<lparr>mem := (mem k1)(p := cur)\<rparr>;
       Some (k2\<lparr>free_chunks := free_chunks k2 + sz div KMEM_CHUNKSIZE\<rparr>)
     }"

text \<open>The inner loop of \<^verbatim>\<open>kmem_alloc\<close>: follow the list from \<open>tmp\<close> as long as the chunks are
  adjacent, for \<open>sz / KMEM_CHUNKSIZE\<close> chunks in all. The result is the chunk after the run,
  \<open>NULL\<close> when the run breaks or the list ends.\<close>

function kmem_run :: "wmem \<Rightarrow> ptr_t \<Rightarrow> dword_t \<Rightarrow> dword_t \<Rightarrow> ptr_t \<Rightarrow> ptr_t" where
  "kmem_run m cur n i tmp =
     (if tmp \<noteq> NULL \<and> i < n then
        if tmp \<noteq> cur + KMEM_CHUNKSIZE * i then NULL
        else kmem_run m cur n (i + 1) (m tmp)
      else tmp)"
  by pat_completeness auto
termination
  by (relation "measure (\<lambda>(m, cur, n, i, tmp). unat n - unat i)") (auto simp: unat_inc_measure)

declare kmem_run.simps [simp del]

text \<open>The loop that zeroes the block, cell by cell.\<close>

function zero_cells :: "ptr_t \<Rightarrow> dword_t \<Rightarrow> dword_t \<Rightarrow> wmem \<Rightarrow> wmem" where
  "zero_cells p n i m =
     (if i < n then zero_cells p n (i + 1) (m(p + 4 * i := 0)) else m)"
  by pat_completeness auto
termination
  by (relation "measure (\<lambda>(p, n, i, m). unat n - unat i)") (auto simp: unat_inc_measure)

declare zero_cells.simps [simp del]

text \<open>The outer loop of \<^verbatim>\<open>kmem_alloc\<close>: \<open>Some None\<close> when the list is exhausted.\<close>

partial_function (option) kmem_scan ::
    "dword_t \<Rightarrow> ptr_t option \<Rightarrow> ptr_t \<Rightarrow> wmem \<Rightarrow> (ptr_t option \<times> ptr_t \<times> ptr_t) option option" where
  "kmem_scan sz prev cur m =
     (if cur = NULL then Some None
      else if cur AND (sz - 1) = 0 \<and>
           kmem_run m cur (sz div KMEM_CHUNKSIZE) 1 (m cur) \<noteq> NULL
      then Some (Some (prev, cur, kmem_run m cur (sz div KMEM_CHUNKSIZE) 1 (m cur)))
      else kmem_scan sz (Some cur) (m cur) m)"

definition kmem_alloc :: "dword_t \<Rightarrow> 'a kmem_scheme \<Rightarrow> (ptr_t \<times> 'a kmem_scheme) option" where
  "kmem_alloc sz k =
     do {
       r \<leftarrow> kmem_scan sz None (kmem_free_list k) (mem k);
       case r of
         None \<Rightarrow> Some (NULL, k)
       | Some (prev, cur, tmp) \<Rightarrow>
           (let k1 = write_prev prev tmp k;
                k2 = k1\<lparr>mem := zero_cells cur (sz div 4) 0 (mem k1)\<rparr>;
                k3 = k2\<lparr>free_chunks := free_chunks k2 - sz div KMEM_CHUNKSIZE\<rparr>
            in Some (cur, k3))
     }"

text \<open>The part of the kernel info page that the modelled code reads or writes.\<close>

record kernel_info_page_t =
  main_mem_low :: dword_t
  main_mem_high :: dword_t
  reserved_mem0_low :: dword_t
  reserved_mem0_high :: dword_t
  reserved_mem1_low :: dword_t
  reserved_mem1_high :: dword_t

definition KERNEL_OFFSET :: dword_t where
  "KERNEL_OFFSET = 0xF0000000"

definition PAGE_SIZE :: dword_t where
  "PAGE_SIZE = 0x1000"

definition PAGE_MASK :: dword_t where
  "PAGE_MASK = NOT (PAGE_SIZE - 1)"

definition virt_to_phys :: "dword_t \<Rightarrow> dword_t" where
  "virt_to_phys x = x - KERNEL_OFFSET"

definition phys_to_virt :: "dword_t \<Rightarrow> dword_t" where
  "phys_to_virt x = x + KERNEL_OFFSET"

text \<open>The bounds of kernel memory, as the start-up code chooses them from the size of main
  memory: the last 8 MB, of at most 240 MB, rounded down to a megabyte.\<close>

definition init_kmem_bounds :: "dword_t \<Rightarrow> dword_t \<times> dword_t" where
  "init_kmem_bounds main_high =
     (let kmem_end = phys_to_virt main_high;
          kmem_end = (if virt_to_phys kmem_end > 240 * 1024 * 1024 - PAGE_SIZE
                      then phys_to_virt (240 * 1024 * 1024 - PAGE_SIZE) else kmem_end);
          kmem_start = kmem_end - 8 * 1024 * 1024;
          kmem_start = kmem_start + 64 * 1024;
          kmem_start = kmem_start AND NOT (1 * 1024 * 1024 - 1)
      in (kmem_start, kmem_end))"

text \<open>\<open>text_paddr\<close> and \<open>end_text_p\<close> are linker symbols.\<close>

definition kmem_init ::
    "dword_t \<Rightarrow> dword_t \<Rightarrow> dword_t \<Rightarrow> dword_t \<Rightarrow> 'a kmem_scheme \<Rightarrow> kernel_info_page_t \<Rightarrow>
     ('a kmem_scheme \<times> kernel_info_page_t) option" where
  "kmem_init text_paddr end_text_p kmem_start kmem_end k kip =
     do {
       k' \<leftarrow> kmem_free kmem_start (kmem_end - kmem_start) k;
       Some (k', kip\<lparr>reserved_mem0_low := text_paddr,
                      reserved_mem0_high := end_text_p,
                      reserved_mem1_low := virt_to_phys kmem_start,
                      reserved_mem1_high :=
                        (virt_to_phys kmem_end + (PAGE_SIZE - 1)) AND PAGE_MASK\<rparr>)
     }"

section \<open>Well-formed free lists\<close>

fun seg :: "wmem \<Rightarrow> ptr_t \<Rightarrow> ptr_t list \<Rightarrow> ptr_t \<Rightarrow> bool" where
  "seg m p [] q = (p = q)"
| "seg m p (x # xs) q = (p = x \<and> x \<noteq> NULL \<and> seg m (m x) xs q)"

lemma seg_append: "seg m p (xs @ ys) q \<longleftrightarrow> (\<exists>r. seg m p xs r \<and> seg m r ys q)"
  by (induction xs arbitrary: p) auto

lemma seg_cong:
  "(\<And>x. x \<in> set xs \<Longrightarrow> m x = m' x) \<Longrightarrow> seg m p xs q \<longleftrightarrow> seg m' p xs q"
  by (induction xs arbitrary: p) auto

lemma seg_frame:
  "seg m p xs q \<Longrightarrow> \<forall>x\<in>set xs. m' x = m x \<Longrightarrow> seg m' p xs q"
  using seg_cong [of xs m m'] by simp

lemma seg_upd [mem_simps]: "x \<notin> set xs \<Longrightarrow> seg (m(x := v)) p xs q \<longleftrightarrow> seg m p xs q"
  by (rule seg_cong) auto

lemma seg_last_upd:
  "seg m p (xs @ [x]) q \<Longrightarrow> x \<notin> set xs \<Longrightarrow> seg (m(x := v)) p (xs @ [x]) v"
  by (auto simp: seg_append seg_upd)

lemma seg_not_NULL: "seg m p xs q \<Longrightarrow> NULL \<notin> set xs"
  by (induction xs arbitrary: p) auto

lemma seg_start: "seg m p xs q \<Longrightarrow> p = (if xs = [] then q else hd xs)"
  by (cases xs) auto

definition chunk_aligned :: "ptr_t \<Rightarrow> bool" where
  "chunk_aligned x \<longleftrightarrow> 1024 dvd unat x"

definition chunks :: "ptr_t \<Rightarrow> nat \<Rightarrow> ptr_t list" where
  "chunks a n = map (\<lambda>i. a + of_nat (1024 * i)) [0..<n]"

definition kmem_inv :: "'a kmem_scheme \<Rightarrow> ptr_t list \<Rightarrow> bool" where
  "kmem_inv k xs \<longleftrightarrow>
     seg (mem k) (kmem_free_list k) xs NULL \<and> sorted_wrt (<) xs \<and>
     (\<forall>x\<in>set xs. chunk_aligned x) \<and> free_chunks k = of_nat (length xs)"

lemma chunks_0 [simp]: "chunks a 0 = []"
  by (simp add: chunks_def)

lemma length_chunks [simp]: "length (chunks a n) = n"
  by (simp add: chunks_def)

lemma chunks_Suc: "chunks a (Suc n) = a # chunks (a + 1024) n"
proof -
  have "[0..<Suc n] = 0 # map Suc [0..<n]" by (simp add: map_Suc_upt upt_conv_Cons del: upt_Suc)
  then show ?thesis unfolding chunks_def by (simp add: algebra_simps del: upt_Suc)
qed

lemma chunks_snoc: "chunks a (Suc n) = chunks a n @ [a + of_nat (1024 * n)]"
  by (simp add: chunks_def)

lemma unat_chunk:
  fixes a :: dword_t
  assumes "unat a + 1024 * n \<le> 2 ^ 32" and "i < n"
  shows "unat (a + of_nat (1024 * i)) = unat a + 1024 * i"
proof -
  have "unat (of_nat (1024 * i) :: dword_t) = 1024 * i"
    by (rule unat_of_nat_small) (use assms in simp)
  then show ?thesis using assms by (subst unat_add_noflow) (auto simp del: of_nat_mult)
qed

lemma chunks_sorted:
  "unat a + 1024 * n \<le> 2 ^ 32 \<Longrightarrow> sorted_wrt (<) (chunks a n)"
  unfolding sorted_wrt_iff_nth_less chunks_def
  by (auto simp: word_less_nat_alt unat_chunk simp del: of_nat_mult)

lemma in_chunks:
  assumes "unat a + 1024 * n \<le> 2 ^ 32"
  shows "x \<in> set (chunks a n) \<longleftrightarrow> (\<exists>i<n. unat x = unat a + 1024 * i)"
proof
  assume "x \<in> set (chunks a n)"
  then show "\<exists>i<n. unat x = unat a + 1024 * i"
    using unat_chunk [OF assms] by (auto simp: chunks_def simp del: of_nat_mult)
next
  assume "\<exists>i<n. unat x = unat a + 1024 * i"
  then obtain i where i: "i < n" "unat x = unat a + 1024 * i" by blast
  with unat_chunk [OF assms i(1)] have "x = a + of_nat (1024 * i)"
    by (metis word_unat_eq_iff)
  with i(1) show "x \<in> set (chunks a n)" by (auto simp: chunks_def)
qed

lemma chunks_aligned:
  assumes "unat a + 1024 * n \<le> 2 ^ 32" "chunk_aligned a" "x \<in> set (chunks a n)"
  shows "chunk_aligned x"
  using assms unfolding in_chunks [OF assms(1)] chunk_aligned_def by auto

lemma aligned_in_chunks:
  assumes "unat a + 1024 * n \<le> 2 ^ 32" "chunk_aligned a" "chunk_aligned x"
    and "unat a \<le> unat x" "unat x < unat a + 1024 * n"
  shows "x \<in> set (chunks a n)"
proof -
  from assms obtain j k where "unat a = 1024 * j" "unat x = 1024 * k"
    by (auto simp: chunk_aligned_def dvd_def)
  with assms(4,5) have "k - j < n" "unat x = unat a + 1024 * (k - j)" by auto
  with in_chunks [OF assms(1)] show ?thesis by blast
qed

section \<open>The loops on well-formed lists\<close>

lemma link_chunks:
  assumes "unat a + 1024 * Suc n \<le> 2 ^ 32" and "a \<noteq> NULL"
  shows "\<exists>m'. kmem_link_chunks a (a + of_nat (1024 * n)) m =
      Some (a + of_nat (1024 * n), m') \<and>
      seg m' a (chunks a n) (a + of_nat (1024 * n)) \<and>
      (\<forall>x. x \<notin> set (chunks a n) \<longrightarrow> m' x = m x)"
  using assms
proof (induction n arbitrary: a m)
  case 0
  then show ?case by (subst kmem_link_chunks.simps) simp
next
  case (Suc n)
  define b where "b = a + of_nat (1024 * Suc n)"
  let ?m = "m(a := a + 1024)"
  have ua: "unat (a + 1024) = unat a + 1024"
    using unat_chunk [of a 2 1] Suc.prems(1) by simp
  have ub: "unat b = unat a + 1024 * Suc n"
    unfolding b_def by (rule unat_chunk [of _ "Suc (Suc n)"]) (use Suc.prems in auto)
  have b: "b = (a + 1024) + of_nat (1024 * n)" by (simp add: b_def algebra_simps)
  have ne: "a + 1024 \<noteq> NULL" using ua by (metis add_is_0 unat_0 zero_neq_numeral)
  have le: "unat (a + 1024) + 1024 * Suc n \<le> 2 ^ 32" using Suc.prems ua by simp
  from Suc.IH [OF le ne, of ?m] obtain m' where
    m': "kmem_link_chunks (a + 1024) b ?m = Some (b, m')"
      "seg m' (a + 1024) (chunks (a + 1024) n) b"
      "\<forall>x. x \<notin> set (chunks (a + 1024) n) \<longrightarrow> m' x = ?m x"
    unfolding b [symmetric] by blast
  have "a < b" using ub by (simp add: word_less_nat_alt)
  then have eq: "kmem_link_chunks a b m = Some (b, m')"
    by (subst kmem_link_chunks.simps) (simp add: m' KMEM_CHUNKSIZE_def Let_def)
  have "a \<notin> set (chunks (a + 1024) n)"
    using in_chunks [of "a + 1024" n a] le ua by auto
  then have "m' a = a + 1024" using m'(3) by simp
  with eq m' Suc.prems(2) show ?case
    unfolding b_def [symmetric] by (intro exI [of _ m']) (auto simp: chunks_Suc)
qed

lemma find_place:
  assumes "seg m p (ls @ rs) NULL" and "\<forall>x\<in>set ls. x < a" and "rs = [] \<or> \<not> hd rs < a"
  shows "kmem_find_place a prev p m =
     Some (if ls = [] then prev else Some (last ls), if rs = [] then NULL else hd rs)"
  using assms
proof (induction ls arbitrary: p prev)
  case Nil
  then show ?case by (subst kmem_find_place.simps) (cases rs; auto)
next
  case (Cons x ls)
  then have "p = x" "x \<noteq> NULL" "x < a" "seg m (m x) (ls @ rs) NULL" by auto
  then show ?case
    using Cons.IH [of "m x" "Some x"] Cons.prems
    by (subst kmem_find_place.simps) auto
qed


section \<open>Freeing\<close>

lemma unat_block_size:
  assumes n: "1024 * n < 2 ^ 32"
  shows "unat (of_nat (1024 * n) :: dword_t) = 1024 * n" (is ?size)
    and "(of_nat (1024 * n) :: dword_t) div KMEM_CHUNKSIZE = of_nat n" (is ?div)
    and "unat ((of_nat (1024 * n) :: dword_t) div KMEM_CHUNKSIZE) = n" (is ?unat)
proof -
  show size: ?size by (rule unat_of_nat_small) (use n in simp)
  show u: ?unat unfolding unat_div size by (simp add: KMEM_CHUNKSIZE_def)
  have "unat (of_nat n :: dword_t) = n" by (rule unat_of_nat_small) (use n in simp)
  with u show ?div by (simp only: word_unat_eq_iff)
qed

lemma block_small: "unat a + 1024 * n \<le> 2 ^ 32 \<Longrightarrow> a \<noteq> NULL \<Longrightarrow> 1024 * n < 2 ^ 32"
  using unat_eq_0 [of a] by linarith

text \<open>Splicing a segment into a list, and cutting one out, as the last writes of
  \<^verbatim>\<open>kmem_free\<close> and \<^verbatim>\<open>kmem_alloc\<close> do.\<close>

definition relink :: "ptr_t list \<Rightarrow> ptr_t \<Rightarrow> wmem \<Rightarrow> wmem" where
  "relink ls v m = (if ls = [] then m else m(last ls := v))"

lemma write_prev_relink:
  "write_prev (if ls = [] then None else Some (last ls)) v k =
     k\<lparr>mem := relink ls v (mem k),
       kmem_free_list := (if ls = [] then v else kmem_free_list k)\<rparr>"
  by (simp add: write_prev_def relink_def)

lemma relink_other: "x \<notin> set ls \<Longrightarrow> relink ls v m x = m x"
  by (auto simp: relink_def)

lemma seg_relink:
  assumes "seg m p (ls @ rs) z" "distinct ls"
  shows "seg (relink ls v m) (if ls = [] then v else p) ls v"
proof (cases ls rule: rev_cases)
  case Nil
  then show ?thesis by (simp add: relink_def)
next
  case (snoc ys y)
  with assms obtain r where "seg m p (ys @ [y]) r" "y \<notin> set ys"
    by (auto simp: seg_append)
  with snoc show ?thesis using seg_last_upd [of m p ys y r v] by (simp add: relink_def)
qed

lemma seg_cut:
  assumes "seg m p (ls @ ms @ rs) z" "distinct (ls @ rs)"
    and "q = (if rs = [] then z else hd rs)"
  shows "seg (relink ls q m) (if ls = [] then q else p) (ls @ rs) z"
proof -
  have l: "seg (relink ls q m) (if ls = [] then q else p) ls q"
    using assms by (intro seg_relink) auto
  obtain r where r: "seg m r rs z" using assms(1) by (auto simp: seg_append)
  have "seg (relink ls q m) r rs z"
    by (rule seg_frame [OF r]) (use assms(2) in \<open>auto intro!: relink_other\<close>)
  moreover have "r = q" using seg_start [OF r] assms(3) by simp
  ultimately show ?thesis using l by (auto simp: seg_append)
qed

lemma seg_splice:
  assumes "seg m p (ls @ rs) z" "seg m a cs b" "b \<noteq> NULL"
    and "distinct (ls @ cs @ b # rs)" and "q = (if rs = [] then z else hd rs)"
  shows "seg ((relink ls a m)(b := q)) (if ls = [] then a else p) (ls @ cs @ b # rs) z"
proof -
  let ?m = "(relink ls a m)(b := q)"
  have l: "seg ?m (if ls = [] then a else p) ls a"
    using seg_relink [OF assms(1), of a] assms(4) by (simp add: seg_upd)
  have c: "seg ?m a cs b"
    by (rule seg_frame [OF assms(2)]) (use assms(4) in \<open>auto intro!: relink_other\<close>)
  obtain r where r: "seg m r rs z" using assms(1) by (auto simp: seg_append)
  have "seg ?m r rs z"
    by (rule seg_frame [OF r]) (use assms(4) in \<open>auto intro!: relink_other\<close>)
  moreover have "r = q" using seg_start [OF r] assms(5) by simp
  ultimately show ?thesis using l c assms(3) by (auto simp: seg_append)
qed

lemma kmem_inv_distinct: "kmem_inv k xs \<Longrightarrow> distinct xs"
  using strict_sorted_iff [of xs] by (simp add: kmem_inv_def)

lemma kmem_inv_not_NULL: "kmem_inv k xs \<Longrightarrow> NULL \<notin> set xs"
  by (auto simp: kmem_inv_def dest: seg_not_NULL)

lemma kmem_free_split:
  fixes k :: "'a kmem_scheme"
  assumes inv: "kmem_inv k (ls @ rs)"
    and ls: "\<forall>x\<in>set ls. x < a" and rs: "\<forall>x\<in>set rs. unat a + 1024 * Suc n \<le> unat x"
    and fit: "unat a + 1024 * Suc n \<le> 2 ^ 32" and a: "a \<noteq> NULL" "chunk_aligned a"
  shows "\<exists>k'. kmem_free a (of_nat (1024 * Suc n)) k = Some k' \<and>
      kmem_inv k' (ls @ chunks a (Suc n) @ rs) \<and> kmem.more k' = kmem.more k \<and>
      (\<forall>x. x \<notin> set ls \<union> set (chunks a (Suc n)) \<longrightarrow> mem k' x = mem k x)"
proof -
  define b where "b = a + of_nat (1024 * n)"
  let ?cs = "chunks a (Suc n)" and ?next = "if rs = [] then NULL else hd rs"
  have cs: "?cs = chunks a n @ [b]" by (simp add: b_def chunks_snoc)
  have cs_low: "a \<le> x \<and> unat x < unat a + 1024 * Suc n" if "x \<in> set ?cs" for x
    using that in_chunks [OF fit, of x] by (auto simp: word_le_nat_alt)
  have srt: "sorted_wrt (<) (ls @ ?cs @ rs)"
    using inv chunks_sorted [OF fit] ls rs cs_low
    by (fastforce simp: kmem_inv_def sorted_wrt_less_append word_less_nat_alt word_le_nat_alt)
  then have dist: "distinct (ls @ chunks a n @ b # rs)"
    using strict_sorted_iff [of "ls @ ?cs @ rs"] cs by simp
  obtain m where m: "kmem_link_chunks a b (mem k) = Some (b, m)" "seg m a (chunks a n) b"
      "\<forall>x. x \<notin> set (chunks a n) \<longrightarrow> m x = mem k x"
    using link_chunks [OF fit a(1), of "mem k"] unfolding b_def by blast
  have segm: "seg m (kmem_free_list k) (ls @ rs) NULL"
    by (rule seg_frame [of "mem k"]) (use inv m(3) dist in \<open>auto simp: kmem_inv_def\<close>)
  have "rs = [] \<or> \<not> hd rs < a" using rs by (cases rs) (auto simp: word_less_nat_alt)
  from find_place [OF segm ls this, of None]
  have fp: "kmem_find_place a None (kmem_free_list k) m =
      Some (if ls = [] then None else Some (last ls), ?next)" by simp
  have bound: "a + of_nat (1024 * Suc n) - KMEM_CHUNKSIZE = b"
    by (simp add: b_def KMEM_CHUNKSIZE_def algebra_simps)
  define k' where "k' = k\<lparr>mem := (relink ls a m)(b := ?next),
      kmem_free_list := (if ls = [] then a else kmem_free_list k),
      free_chunks := free_chunks k + of_nat (Suc n)\<rparr>"
  have eq: "kmem_free a (of_nat (1024 * Suc n)) k = Some k'"
    unfolding kmem_free_def bound m(1) bind.bind_lunit prod.case fp Let_def
      unat_block_size(2) [OF block_small [OF fit a(1)]] write_prev_relink k'_def by simp
  have "unat b = unat a + 1024 * n" unfolding b_def by (rule unat_chunk [OF fit]) simp
  then have "b \<noteq> NULL" using a(1) by (metis add_is_0 unat_0 unat_eq_0)
  from seg_splice [OF segm m(2) this dist refl]
  have "seg (mem k') (kmem_free_list k') (ls @ ?cs @ rs) NULL"
    unfolding cs by (simp add: k'_def)
  with srt have "kmem_inv k' (ls @ ?cs @ rs)"
    using inv chunks_aligned [OF fit a(2)] by (auto simp: kmem_inv_def k'_def)
  moreover have "\<forall>x. x \<notin> set ls \<union> set ?cs \<longrightarrow> mem k' x = mem k x"
    using m(3) cs by (simp add: k'_def relink_other)
  moreover have "kmem.more k' = kmem.more k" by (simp add: k'_def)
  ultimately show ?thesis using eq by blast
qed

section \<open>Allocating\<close>

text \<open>What the search looks for: the first suitably aligned run of \<open>n\<close> adjacent chunks that
  does not end the list.\<close>

fun alloc_split :: "dword_t \<Rightarrow> nat \<Rightarrow> ptr_t list \<Rightarrow> (ptr_t list \<times> ptr_t \<times> ptr_t list) option" where
  "alloc_split sz n [] = None"
| "alloc_split sz n (x # xs) =
     (if x AND (sz - 1) = 0 \<and> n < length (x # xs) \<and> take n (x # xs) = chunks x n
      then Some ([], x, drop n (x # xs))
      else map_option (\<lambda>(pre, c, rest). (x # pre, c, rest)) (alloc_split sz n xs))"

lemma alloc_split_Some:
  "alloc_split sz n xs = Some (pre, c, rest) \<Longrightarrow>
     xs = pre @ chunks c n @ rest \<and> rest \<noteq> [] \<and> c AND (sz - 1) = 0"
proof (induction xs arbitrary: pre)
  case Nil
  then show ?case by simp
next
  case (Cons x xs)
  show ?case
  proof (cases "x AND (sz - 1) = 0 \<and> n < length (x # xs) \<and> take n (x # xs) = chunks x n")
    case True
    then have "pre = []" "c = x" "rest = drop n (x # xs)" using Cons.prems by auto
    with True show ?thesis using append_take_drop_id [of n "x # xs"] by auto
  next
    case False
    then obtain pre' where "alloc_split sz n xs = Some (pre', c, rest)" "pre = x # pre'"
      using Cons.prems by auto
    with Cons.IH show ?thesis by simp
  qed
qed

lemma alloc_split_None:
  "alloc_split sz n xs = None \<Longrightarrow> xs = pre @ chunks c n @ rest \<Longrightarrow> 0 < n \<Longrightarrow> rest \<noteq> [] \<Longrightarrow>
     c AND (sz - 1) \<noteq> 0"
proof (induction xs arbitrary: pre)
  case Nil
  then show ?case by simp
next
  case (Cons x xs)
  show ?case
  proof (cases pre)
    case Nil
    with Cons.prems have xs: "x # xs = chunks c n @ rest" by simp
    then have "x = c" using Cons.prems(3) by (cases n) (simp_all add: chunks_Suc)
    moreover have "take n (x # xs) = chunks c n" "n < length (x # xs)"
      using Cons.prems(4) unfolding xs by simp_all
    ultimately show ?thesis using Cons.prems(1) by (auto split: if_splits)
  next
    case (Cons y ys)
    with Cons.prems Cons.IH [of ys] show ?thesis by (auto split: if_splits)
  qed
qed

lemma kmem_run_char:
  "seg m tmp ys NULL \<Longrightarrow> unat i + j = unat n \<Longrightarrow>
   kmem_run m c n i tmp =
     (if j < length ys \<and> take j ys = chunks (c + KMEM_CHUNKSIZE * i) j then hd (drop j ys) else NULL)"
proof (induction j arbitrary: i tmp ys)
  case 0
  then have "\<not> i < n" by (simp add: word_less_nat_alt)
  then show ?case using 0 seg_start [of m tmp ys NULL] by (subst kmem_run.simps) auto
next
  case (Suc j)
  then have i: "i < n" by (simp add: word_less_nat_alt)
  then have ui: "unat (i + 1) + j = unat n" using Suc.prems(2) unat_inc [of i n] by simp
  show ?case
  proof (cases ys)
    case Nil
    then show ?thesis using Suc.prems by (subst kmem_run.simps) simp
  next
    case (Cons y zs)
    then have "tmp = y" "y \<noteq> NULL" "seg m (m y) zs NULL" using Suc.prems(1) by auto
    moreover have "c + KMEM_CHUNKSIZE * (i + 1) = c + KMEM_CHUNKSIZE * i + 1024"
      by (simp add: KMEM_CHUNKSIZE_def algebra_simps)
    ultimately show ?thesis
      using i Suc.IH [of "m y" zs "i + 1"] ui Cons
      by (subst kmem_run.simps) (auto simp: chunks_Suc add.assoc)
  qed
qed

text \<open>Zeroing.\<close>

lemma zero_cells_char:
  fixes p n i :: dword_t
  shows "zero_cells p n i m x = (if \<exists>j. i \<le> j \<and> j < n \<and> x = p + 4 * j then 0 else m x)"
proof (induction p n i m rule: zero_cells.induct)
  case (1 p n i m)
  show ?case
  proof (cases "i < n")
    case True
    have ij: "i \<le> j \<longleftrightarrow> i = j \<or> i + 1 \<le> j" for j
      using unat_inc [OF True] by (auto simp: word_le_nat_alt word_unat_eq_iff)
    have step: "zero_cells p n i m x =
        (if \<exists>j. i + 1 \<le> j \<and> j < n \<and> x = p + 4 * j then 0 else (m(p + 4 * i := 0)) x)"
      unfolding zero_cells.simps [of p n i m] if_P [OF True] by (rule 1 [OF True])
    have "(\<exists>j. i \<le> j \<and> j < n \<and> x = p + 4 * j) \<longleftrightarrow>
        x = p + 4 * i \<or> (\<exists>j. i + 1 \<le> j \<and> j < n \<and> x = p + 4 * j)"
      by (subst ij) (use True in blast)
    then show ?thesis unfolding step by auto
  next
    case False
    then show ?thesis by (subst zero_cells.simps) auto
  qed
qed

lemma kmem_scan_char:
  assumes "unat (sz div KMEM_CHUNKSIZE) = Suc n"
  shows "seg m p xs NULL \<Longrightarrow>
   kmem_scan sz prev p m =
     Some (map_option (\<lambda>(pre, c, rest).
        (if pre = [] then prev else Some (last pre), c, hd rest)) (alloc_split sz (Suc n) xs))"
proof (induction xs arbitrary: p prev)
  case Nil
  then show ?case by (subst kmem_scan.simps) simp
next
  case (Cons x xs)
  let ?run = "kmem_run m x (sz div KMEM_CHUNKSIZE) 1 (m x)"
    and ?fit = "n < length xs \<and> take n xs = chunks (x + 1024) n"
  from Cons.prems have x: "p = x" "x \<noteq> NULL" and xs: "seg m (m x) xs NULL" by auto
  have run: "?run = (if ?fit then hd (drop n xs) else NULL)"
    using kmem_run_char [OF xs, of 1 n "sz div KMEM_CHUNKSIZE" x] assms
    by (simp add: KMEM_CHUNKSIZE_def)
  have "?fit \<Longrightarrow> hd (drop n xs) \<noteq> NULL"
    using seg_not_NULL [OF xs] by (metis hd_drop_conv_nth nth_mem)
  with run x Cons.IH [OF xs, of "Some x"] show ?case
    by (subst kmem_scan.simps) (auto simp: chunks_Suc option.map_comp comp_def split_beta
        intro!: option.map_cong)
qed


lemma zero_block:
  assumes fit: "unat c + 1024 * n \<le> 2 ^ 32" and c: "c \<noteq> NULL" "chunk_aligned c"
  shows "zero_cells c (of_nat (1024 * n) div 4) 0 m x =
    (if 4 dvd unat x \<and> unat c \<le> unat x \<and> unat x < unat c + 1024 * n then 0 else m x)"
proof -
  have sz: "unat ((of_nat (1024 * n) :: dword_t) div 4) = 256 * n"
    unfolding unat_div unat_block_size(1) [OF block_small [OF fit c(1)]] by simp
  have cell: "unat (c + 4 * j) = unat c + 4 * unat j" if "unat j < 256 * n" for j
  proof -
    have "4 * unat j < 2 ^ 32" using that fit by simp
    then have "unat (4 * j) = 4 * unat j" by (simp add: unat_word_ariths)
    then show ?thesis using that fit by (subst unat_add_noflow) auto
  qed
  have "(\<exists>j. 0 \<le> j \<and> j < of_nat (1024 * n) div 4 \<and> x = c + 4 * j) \<longleftrightarrow>
     4 dvd unat x \<and> unat c \<le> unat x \<and> unat x < unat c + 1024 * n" (is "?L \<longleftrightarrow> ?R")
  proof
    assume ?L
    then obtain j where "unat j < 256 * n" "x = c + 4 * j" unfolding word_less_nat_alt sz by auto
    moreover have "4 dvd unat c" using c(2) unfolding chunk_aligned_def by (rule dvd_trans [rotated]) simp
    ultimately show ?R using cell by simp
  next
    assume r: ?R
    moreover have "4 dvd unat c" using c(2) unfolding chunk_aligned_def by (rule dvd_trans [rotated]) simp
    ultimately obtain d where d: "unat x = unat c + 4 * d"
      by (metis dvd_diff_nat dvdE le_add_diff_inverse)
    then have d': "d < 256 * n" using r by simp
    then have ud: "unat (of_nat d :: dword_t) = d" by (intro unat_of_nat_small) (use fit in simp)
    have "x = c + 4 * of_nat d" using cell [of "of_nat d"] d d' ud by (simp add: word_unat_eq_iff)
    moreover have "(of_nat d :: dword_t) < of_nat (1024 * n) div 4"
      unfolding word_less_nat_alt sz ud by (rule d')
    ultimately show ?L by auto
  qed
  then show ?thesis unfolding zero_cells_char by simp
qed

lemma sorted_chunks_fit:
  assumes "chunk_aligned c"
  shows "sorted_wrt (<) (chunks c n) \<Longrightarrow> unat c + 1024 * n \<le> 2 ^ 32"
proof (induction n)
  case 0
  then show ?case using unat_dword_less [of c] by simp
next
  case (Suc n)
  then have fit: "unat c + 1024 * n \<le> 2 ^ 32"
    by (auto simp: chunks_snoc sorted_wrt_append simp del: of_nat_mult)
  obtain k where k: "unat c = 1024 * k" using assms by (auto simp: chunk_aligned_def dvd_def)
  show ?case
  proof (cases n)
    case 0
    then show ?thesis using k unat_dword_less [of c] by simp
  next
    case (Suc j)
    then have "c < c + of_nat (1024 * n)"
      using Suc.prems unfolding chunks_snoc [of c n] sorted_wrt_append
      by (auto simp: chunks_Suc simp del: of_nat_mult)
    moreover have "c + of_nat (1024 * n) = of_nat (unat c + 1024 * n)" by simp
    moreover have "(of_nat (2 ^ 32) :: dword_t) = 0" by simp
    ultimately have "unat c + 1024 * n \<noteq> 2 ^ 32" by (metis word_not_simps(1))
    with fit k have "k + n < 4194304" by simp
    with k show ?thesis by simp
  qed
qed


lemma kmem_inv_around:
  assumes inv: "kmem_inv k (pre @ chunks c (Suc n) @ rest)"
  shows "chunk_aligned c" and "c \<noteq> NULL" and "unat c + 1024 * Suc n \<le> 2 ^ 32"
    and "\<forall>x\<in>set pre. x < c" and "\<forall>x\<in>set rest. unat c + 1024 * Suc n \<le> unat x"
proof -
  have srt: "sorted_wrt (<) (pre @ chunks c (Suc n) @ rest)" using inv by (simp add: kmem_inv_def)
  show c: "chunk_aligned c" "c \<noteq> NULL"
    using inv kmem_inv_not_NULL [OF inv] by (auto simp: kmem_inv_def chunks_Suc)
  show fit: "unat c + 1024 * Suc n \<le> 2 ^ 32"
    by (rule sorted_chunks_fit [OF c(1)]) (use srt in \<open>simp add: sorted_wrt_append\<close>)
  show "\<forall>x\<in>set pre. x < c" using srt by (auto simp: sorted_wrt_append chunks_Suc)
  show "\<forall>x\<in>set rest. unat c + 1024 * Suc n \<le> unat x"
  proof
    fix x assume x: "x \<in> set rest"
    then have "c < x" "chunk_aligned x"
      using srt inv by (auto simp: sorted_wrt_append chunks_Suc kmem_inv_def)
    moreover have "x \<notin> set (chunks c (Suc n))" using x kmem_inv_distinct [OF inv] by auto
    ultimately show "unat c + 1024 * Suc n \<le> unat x"
      using aligned_in_chunks [OF fit c(1)] by (metis leI less_imp_le_nat word_less_nat_alt)
  qed
qed

text \<open>What one allocation does to a well-formed list.\<close>

lemma kmem_alloc_hit:
  fixes k :: "'a kmem_scheme"
  assumes inv: "kmem_inv k xs" and split: "alloc_split (of_nat (1024 * Suc n)) (Suc n) xs = Some (pre, c, rest)"
  shows "\<exists>k'. kmem_alloc (of_nat (1024 * Suc n)) k = Some (c, k') \<and>
      kmem_inv k' (pre @ rest) \<and> kmem.more k' = kmem.more k \<and>
      (\<forall>x. unat c \<le> unat x \<and> unat x < unat c + 1024 * Suc n \<and> 4 dvd unat x \<longrightarrow> mem k' x = 0) \<and>
      (\<forall>x. unat x < unat c \<or> unat c + 1024 * Suc n \<le> unat x \<longrightarrow> x \<notin> set pre \<longrightarrow>
         mem k' x = mem k x)"
proof -
  let ?sz = "of_nat (1024 * Suc n) :: dword_t" and ?cs = "chunks c (Suc n)"
  have xs: "xs = pre @ ?cs @ rest" and rest: "rest \<noteq> []"
    using alloc_split_Some [OF split] by auto
  have seg: "seg (mem k) (kmem_free_list k) (pre @ ?cs @ rest) NULL"
    and srt: "sorted_wrt (<) (pre @ ?cs @ rest)" and al: "\<forall>x\<in>set xs. chunk_aligned x"
    using inv xs by (auto simp: kmem_inv_def)
  note c = kmem_inv_around(1,2) [OF inv [unfolded xs]] and fit = kmem_inv_around(3) [OF inv [unfolded xs]]
  have dist: "distinct (pre @ ?cs @ rest)" using kmem_inv_distinct [OF inv] xs by simp
  note sz = unat_block_size [OF block_small [OF fit c(2)]]
  have scan: "kmem_scan ?sz None (kmem_free_list k) (mem k) =
      Some (Some (if pre = [] then None else Some (last pre), c, hd rest))"
    using kmem_scan_char [of ?sz n "mem k" "kmem_free_list k" xs None] sz(3) seg split xs
    by (simp del: of_nat_mult)
  define m1 where "m1 = relink pre (hd rest) (mem k)"
  define k' where "k' = k\<lparr>mem := zero_cells c (?sz div 4) 0 m1,
      kmem_free_list := (if pre = [] then hd rest else kmem_free_list k),
      free_chunks := free_chunks k - of_nat (Suc n)\<rparr>"
  have eq: "kmem_alloc ?sz k = Some (c, k')"
    unfolding kmem_alloc_def scan bind.bind_lunit option.case prod.case Let_def sz(2)
      write_prev_relink k'_def m1_def by simp
  have mk: "mem k' = zero_cells c (?sz div 4) 0 m1" by (simp add: k'_def del: of_nat_mult)
  note zb = mk zero_block [OF fit c(2,1)]
  have "distinct (pre @ rest)" using dist by auto
  from seg_cut [OF seg this refl] rest
  have s1: "seg m1 (kmem_free_list k') (pre @ rest) NULL"
    by (auto simp: m1_def k'_def split: if_splits)
  have "seg (mem k') (kmem_free_list k') (pre @ rest) NULL"
  proof (rule seg_frame [OF s1], intro ballI)
    fix x assume x: "x \<in> set (pre @ rest)"
    then have "x \<notin> set ?cs" "chunk_aligned x" using dist al xs by auto
    then have "\<not> (unat c \<le> unat x \<and> unat x < unat c + 1024 * Suc n)"
      using aligned_in_chunks [OF fit c(1)] by blast
    then show "mem k' x = m1 x" unfolding zb by auto
  qed
  moreover have "sorted_wrt (<) (pre @ rest)" using srt by (auto simp: sorted_wrt_append)
  ultimately have "kmem_inv k' (pre @ rest)"
    using inv xs by (auto simp: kmem_inv_def k'_def)
  moreover have "\<forall>x. unat c \<le> unat x \<and> unat x < unat c + 1024 * Suc n \<and> 4 dvd unat x \<longrightarrow> mem k' x = 0"
    unfolding zb by auto
  moreover have "\<forall>x. unat x < unat c \<or> unat c + 1024 * Suc n \<le> unat x \<longrightarrow> x \<notin> set pre \<longrightarrow>
         mem k' x = mem k x"
    unfolding zb by (auto simp: m1_def relink_other)
  moreover have "kmem.more k' = kmem.more k" by (simp add: k'_def)
  ultimately show ?thesis using eq by blast
qed

lemma kmem_alloc_miss:
  fixes k :: "'a kmem_scheme"
  assumes "kmem_inv k xs" and "alloc_split (of_nat (1024 * Suc n)) (Suc n) xs = None" "1024 * Suc n < 2 ^ 32"
  shows "kmem_alloc (of_nat (1024 * Suc n)) k = Some (NULL, k)"
  using assms kmem_scan_char [OF unat_block_size(3) [OF assms(3)], of "mem k" "kmem_free_list k" xs None]
  by (simp add: kmem_alloc_def kmem_inv_def del: of_nat_mult)


section \<open>Start-up bounds\<close>

lemma init_bounds:
  assumes "16 * 1024 * 1024 \<le> unat main_high" "unat main_high < 0x10000000" "0x1000 dvd unat main_high"
    and "init_kmem_bounds main_high = (s, e)"
  shows "unat e - unat s \<ge> 7 * 1024 * 1024" "unat s < unat e" "0xF0000000 \<le> unat s" "0x100000 dvd unat s" "0x1000 dvd unat e"
proof -
  define l where "l = (if unat main_high > 240 * 1024 * 1024 - 4096 then 240 * 1024 * 1024 - 4096 else unat main_high)"
  have l: "l \<le> 240 * 1024 * 1024 - 4096" "16 * 1024 * 1024 \<le> l" "0x1000 dvd l" using assms by (auto simp: l_def)
  have e: "unat e = 0xF0000000 + l" 
    using assms(1,2) assms(4) [unfolded init_kmem_bounds_def Let_def phys_to_virt_def virt_to_phys_def KERNEL_OFFSET_def PAGE_SIZE_def]
    by (auto simp: l_def word_less_nat_alt unat_word_ariths split: if_splits)
  have m: "NOT (1 * 1024 * 1024 - 1) = NOT (mask 20 :: dword_t)" by (simp add: mask_eq_exp_minus_1)
  define s0 where "s0 = e - 8 * 1024 * 1024 + 64 * 1024"
  have s: "s = s0 AND NOT (mask 20)"
    using assms(4) unfolding init_kmem_bounds_def Let_def m s0_def by auto
  have s0: "unat s0 = 0xF0000000 + l - 8 * 1024 * 1024 + 64 * 1024"
  proof -
    have "unat (e - 8 * 1024 * 1024) = unat e - 8 * 1024 * 1024"
      by (subst unat_sub) (use e l in \<open>auto simp: word_le_nat_alt\<close>)
    then show ?thesis unfolding s0_def using e l by (subst unat_add_noflow) auto
  qed
  have us: "unat s = unat s0 - unat s0 mod 2 ^ 20" unfolding s by (rule unat_and_not_mask)
  show "unat e - unat s \<ge> 7 * 1024 * 1024" "unat s < unat e" "0xF0000000 \<le> unat s" "0x100000 dvd unat s" "0x1000 dvd unat e"
    using us s0 e l by (auto intro!: dvd_add)
qed

text \<open>Rounding a page-aligned physical address up to a page changes nothing.\<close>

lemma page_round_up:
  assumes "0x1000 dvd unat e" "0xF0000000 \<le> unat e"
  shows "(e - KERNEL_OFFSET + (PAGE_SIZE - 1)) AND PAGE_MASK = e - KERNEL_OFFSET"
proof -
  define w where "w = e - KERNEL_OFFSET"
  obtain j where j: "unat e = 4096 * j" using assms(1) by (auto elim!: dvdE)
  have w: "unat w = 4096 * j - 0xF0000000"
    unfolding w_def KERNEL_OFFSET_def
    by (subst unat_sub) (use assms(2) j in \<open>auto simp: word_le_nat_alt\<close>)
  then have "unat w + 4095 < 2 ^ 32" using j unat_dword_less [of e] assms(2) by simp
  then have u: "unat (w + 4095) = unat w + 4095" by (subst unat_add_noflow) auto
  have m: "PAGE_MASK = NOT (mask 12)" by (simp add: PAGE_MASK_def PAGE_SIZE_def mask_eq_exp_minus_1)
  have "unat w = 4096 * (j - 983040)" using w by simp
  then have "unat ((w + 4095) AND PAGE_MASK) = unat w"
    unfolding m unat_and_not_mask u by simp
  then show ?thesis unfolding w_def [symmetric] PAGE_SIZE_def by (simp add: word_unat_eq_iff)
qed

section \<open>Cells around free chunks\<close>

text \<open>A cell that no free chunk contains.\<close>

definition outside :: "ptr_t list \<Rightarrow> ptr_t \<Rightarrow> bool" where
  "outside xs x \<longleftrightarrow> (\<forall>c\<in>set xs. unat x < unat c \<or> unat c + 1024 \<le> unat x)"

lemma outside_not_free: "outside xs x \<Longrightarrow> x \<notin> set xs"
  by (auto simp: outside_def)

lemma kmem_inv_mem:
  assumes "kmem_inv s xs" and "\<forall>x\<in>set xs. m x = mem s x"
  shows "kmem_inv (s\<lparr>mem := m\<rparr>) xs"
  using assms seg_frame [of "mem s" "kmem_free_list s" xs NULL m] by (auto simp: kmem_inv_def)

lemma outside_run:
  assumes "outside xs x" "xs = pre @ chunks c (Suc n) @ rest" "unat c + 1024 * Suc n \<le> 2 ^ 32"
  shows "unat x < unat c \<or> unat c + 1024 * Suc n \<le> unat x" "x \<notin> set pre"
proof -
  have "\<forall>k\<le>n. unat x < unat c + 1024 * k \<or> unat c + 1024 * k + 1024 \<le> unat x"
  proof (intro allI impI)
    fix k assume "k \<le> n"
    then have "c + of_nat (1024 * k) \<in> set (chunks c (Suc n))" unfolding chunks_def set_map by (intro image_eqI [of _ _ k]) auto
    then have "c + of_nat (1024 * k) \<in> set xs" using assms(2) by simp
    moreover have "unat (c + of_nat (1024 * k)) = unat c + 1024 * k" using assms(3) \<open>k \<le> n\<close> by (simp add: unat_word_ariths unat_of_nat)
    ultimately show "unat x < unat c + 1024 * k \<or> unat c + 1024 * k + 1024 \<le> unat x" using assms(1) unfolding outside_def by metis
  qed
  then have "\<forall>k\<le>Suc n. unat x < unat c \<or> unat c + 1024 * k \<le> unat x"
  proof (intro allI impI)
    fix k assume a: "\<forall>k\<le>n. unat x < unat c + 1024 * k \<or> unat c + 1024 * k + 1024 \<le> unat x" "k \<le> Suc n"
    from a(2) show "unat x < unat c \<or> unat c + 1024 * k \<le> unat x"
    proof (induction k)
      case (Suc k)
      then show ?case using a(1) [rule_format, of k] by auto
    qed linarith
  qed
  then show "unat x < unat c \<or> unat c + 1024 * Suc n \<le> unat x" by blast
  show "x \<notin> set pre" using assms(1,2) by (auto simp: outside_def)
qed

lemma page_aligned_unat: "p AND mask 12 = 0 \<longleftrightarrow> unat p mod 4096 = 0" for p :: dword_t
proof -
  have "unat (p AND mask 12) = unat p mod 2 ^ 12"
    unfolding take_bit_eq_mask [symmetric] unsigned_take_bit_eq unfolding take_bit_eq_mod ..
  then show ?thesis by (simp add: unat_eq_0 [symmetric])
qed

lemma phys_page: "p AND mask 12 = 0 \<Longrightarrow> virt_to_phys p AND mask 12 = 0"
proof -
  assume "p AND mask 12 = 0"
  moreover have "virt_to_phys p = p + 0x10000000" by (simp add: virt_to_phys_def KERNEL_OFFSET_def)
  moreover have "unat (p + 0x10000000) mod 4096 = (unat p + 0x10000000) mod 4096" by (simp add: unat_word_ariths mod_mod_cancel)
  moreover have "(n + 0x10000000) mod 4096 = n mod 4096" for n :: nat using mod_add_right_eq [of n "0x10000000" 4096] by simp
  ultimately show ?thesis by (simp only: page_aligned_unat)
qed

section \<open>Properties\<close>

text \<open>A free list of five adjacent chunks, on which the properties are exercised.\<close>

definition demo_kmem :: kmem where
  "demo_kmem = \<lparr>mem = (\<lambda>p. if p = 0xF0101000 then 0 else p + 1024),
     kmem_free_list = 0xF0100000, free_chunks = 5\<rparr>"

lemma demo_kmem_inv: "kmem_inv demo_kmem (chunks 0xF0100000 5)"
  by (simp add: demo_kmem_def kmem_inv_def chunks_def chunk_aligned_def upt_rec dvd_def)

definition empty_kmem :: kmem where
  "empty_kmem = \<lparr>mem = (\<lambda>_. 0), kmem_free_list = 0, free_chunks = 0\<rparr>"

lemma empty_kmem_inv: "kmem_inv empty_kmem []"
  by (simp add: empty_kmem_def kmem_inv_def)

lemma chunks_before_after:
  assumes inv: "kmem_inv k xs" and a: "chunk_aligned a" and fit: "unat a + 1024 * n \<le> 2 ^ 32"
    and new: "set (chunks a n) \<inter> set xs = {}"
  shows "\<forall>x\<in>set (takeWhile (\<lambda>x. x < a) xs). x < a"
    and "\<forall>x\<in>set (dropWhile (\<lambda>x. x < a) xs). unat a + 1024 * n \<le> unat x"
proof -
  show "\<forall>x\<in>set (takeWhile (\<lambda>x. x < a) xs). x < a" by (auto dest: set_takeWhileD)
  show "\<forall>x\<in>set (dropWhile (\<lambda>x. x < a) xs). unat a + 1024 * n \<le> unat x"
  proof
    fix x assume x: "x \<in> set (dropWhile (\<lambda>x. x < a) xs)"
    have "sorted xs" using inv strict_sorted_iff [of xs] by (simp add: kmem_inv_def)
    then have "\<not> x < a" using x by (rule sorted_dropWhile_less)
    moreover have "x \<notin> set (chunks a n)" "chunk_aligned x"
      using x new inv by (auto simp: kmem_inv_def dest: set_dropWhileD)
    ultimately show "unat a + 1024 * n \<le> unat x"
      using aligned_in_chunks [OF fit a] by (metis leI word_less_nat_alt)
  qed
qed

text \<open>Freeing an aligned block that is disjoint from the free list returns, and leaves
  the list sorted with exactly the chunks of the block inserted at their place, the counter
  exact, and no cell outside free chunks changed.\<close>

theorem kmem_free_correct:
  fixes k :: "'a kmem_scheme"
  assumes "kmem_inv k xs" and "a \<noteq> NULL" and "chunk_aligned a"
    and "unat a + 1024 * Suc n \<le> 2 ^ 32" and "set (chunks a (Suc n)) \<inter> set xs = {}"
  shows "\<exists>k'. kmem_free a (of_nat (1024 * Suc n)) k = Some k' \<and>
    kmem_inv k' (takeWhile (\<lambda>x. x < a) xs @ chunks a (Suc n) @ dropWhile (\<lambda>x. x < a) xs) \<and>
    kmem.more k' = kmem.more k \<and>
    (\<forall>x. x \<notin> set xs \<union> set (chunks a (Suc n)) \<longrightarrow> mem k' x = mem k x)"
proof -
  have "kmem_inv k (takeWhile (\<lambda>x. x < a) xs @ dropWhile (\<lambda>x. x < a) xs)" using assms(1) by simp
  from kmem_free_split [OF this chunks_before_after [OF assms(1,3,4,5)] assms(4,2,3)]
  show ?thesis by (auto dest: set_takeWhileD)
qed

theorem kmem_free_correct_witness:
  "\<exists>k'. kmem_free 0xF0200000 2048 demo_kmem = Some k' \<and>
     kmem_inv k' (chunks 0xF0100000 5 @ [0xF0200000, 0xF0200400])"
proof -
  have d: "set (chunks 0xF0200000 (Suc 1)) \<inter> set (chunks 0xF0100000 5) = {}"
    by (simp add: chunks_def upt_rec)
  show ?thesis
    using kmem_free_correct [OF demo_kmem_inv _ _ _ d]
    by (auto simp: chunk_aligned_def chunks_def upt_rec)
qed

text \<open>\<^bold>\<open>C7.\<close> On a well-formed free list the allocator returns. Either it gives \<open>NULL\<close>, changes nothing,
  and no suitably aligned run of adjacent free chunks that is followed by another free chunk
  exists; or it gives an aligned block that was a run of free chunks, takes exactly these
  chunks off the list, zeroes the block and changes no other cell but list links.\<close>

theorem kmem_alloc_correct:
  fixes k :: "'a kmem_scheme"
  assumes inv: "kmem_inv k xs" and small: "1024 * Suc n < 2 ^ 32"
  defines "sz \<equiv> of_nat (1024 * Suc n) :: dword_t"
  shows "\<exists>p k'. kmem_alloc sz k = Some (p, k') \<and>
    (if p = NULL then k' = k \<and>
       (\<forall>pre c rest. xs = pre @ chunks c (Suc n) @ rest \<and> rest \<noteq> [] \<longrightarrow> c AND (sz - 1) \<noteq> 0)
     else p AND (sz - 1) = 0 \<and> kmem.more k' = kmem.more k \<and>
       (\<exists>pre rest. xs = pre @ chunks p (Suc n) @ rest \<and> kmem_inv k' (pre @ rest) \<and>
          (\<forall>x. x \<notin> set pre \<longrightarrow> unat x < unat p \<or> unat p + 1024 * Suc n \<le> unat x \<longrightarrow>
             mem k' x = mem k x)) \<and>
       (\<forall>x. unat p \<le> unat x \<and> unat x < unat p + 1024 * Suc n \<and> 4 dvd unat x \<longrightarrow>
          mem k' x = 0))"
proof (cases "alloc_split sz (Suc n) xs")
  case None
  then show ?thesis
    using kmem_alloc_miss [OF inv _ small] alloc_split_None [OF None] unfolding sz_def by auto
next
  case (Some r)
  then obtain pre c rest where r: "alloc_split sz (Suc n) xs = Some (pre, c, rest)"
    by (cases r) auto
  note ex = alloc_split_Some [OF r]
  then have c: "c \<noteq> NULL" using kmem_inv_not_NULL [OF inv] by (auto simp: chunks_Suc)
  from kmem_alloc_hit [OF inv r [unfolded sz_def]] obtain k' where k':
    "kmem_alloc sz k = Some (c, k')" "kmem_inv k' (pre @ rest)" "kmem.more k' = kmem.more k"
    "\<forall>x. unat c \<le> unat x \<and> unat x < unat c + 1024 * Suc n \<and> 4 dvd unat x \<longrightarrow> mem k' x = 0"
    "\<forall>x. unat x < unat c \<or> unat c + 1024 * Suc n \<le> unat x \<longrightarrow> x \<notin> set pre \<longrightarrow>
       mem k' x = mem k x"
    unfolding sz_def by blast
  show ?thesis
    by (rule exI [of _ c], rule exI [of _ k'], unfold if_not_P [OF c])
      (use k' ex in blast)
qed

theorem kmem_alloc_correct_witness:
  "\<exists>p k'. kmem_alloc 4096 demo_kmem = Some (p, k') \<and> p \<noteq> NULL \<and> p AND 4095 = 0"
proof -
  have xs: "chunks 0xF0100000 5 = [] @ chunks 0xF0100000 (Suc 3) @ [0xF0101000]"
    by (simp add: chunks_def upt_rec)
  have sz: "(of_nat (1024 * Suc 3) :: dword_t) = 4096" by simp
  obtain p k' where al: "kmem_alloc 4096 demo_kmem = Some (p, k')"
    and p: "p = NULL \<longrightarrow> (\<forall>pre c rest. chunks 0xF0100000 5 = pre @ chunks c (Suc 3) @ rest \<and> rest \<noteq> [] \<longrightarrow>
        c AND (4096 - 1) \<noteq> 0)" "p \<noteq> NULL \<longrightarrow> p AND (4096 - 1) = 0"
    using kmem_alloc_correct [OF demo_kmem_inv, of 3, unfolded sz if_bool_eq_conj] by auto
  have "p \<noteq> NULL"
  proof
    assume "p = NULL"
    with p(1) xs have "(0xF0100000 :: dword_t) AND (4096 - 1) \<noteq> 0" by blast
    then show False by simp
  qed
  with al p(2) show ?thesis by auto
qed

text \<open>Freeing a block that was just allocated gives back the free list as it was.\<close>

lemma kmem_alloc_free_roundtrip:
  fixes k :: "'a kmem_scheme"
  assumes inv: "kmem_inv k xs" and small: "1024 * Suc n < 2 ^ 32"
    and al: "kmem_alloc (of_nat (1024 * Suc n)) k = Some (p, k')" and p: "p \<noteq> NULL"
  shows "\<exists>k''. kmem_free p (of_nat (1024 * Suc n)) k' = Some k'' \<and> kmem_inv k'' xs"
proof -
  obtain pre rest where xs: "xs = pre @ chunks p (Suc n) @ rest" and k': "kmem_inv k' (pre @ rest)"
  proof (cases "alloc_split (of_nat (1024 * Suc n)) (Suc n) xs")
    case None
    then show ?thesis using kmem_alloc_miss [OF inv None small] al p by simp
  next
    case (Some r)
    then obtain pre c rest where r: "alloc_split (of_nat (1024 * Suc n)) (Suc n) xs = Some (pre, c, rest)"
      by (cases r) auto
    from kmem_alloc_hit [OF inv r] al have "c = p" "kmem_inv k' (pre @ rest)" by auto
    with alloc_split_Some [OF r] that show ?thesis by blast
  qed
  note around = kmem_inv_around [OF inv [unfolded xs]]
  from kmem_free_split [OF k' around(4,5,3,2,1)] xs show ?thesis by blast
qed

lemma alloc_split_short: "length xs \<le> n \<Longrightarrow> alloc_split sz n xs = None"
  by (induction xs) auto

text \<open>A free list that is one aligned run of exactly the requested length does not
  satisfy the request: the test \<^verbatim>\<open>if (tmp)\<close> takes the chunk after the run, which is \<open>NULL\<close> at the
  end of the list, for a failed search. The last free chunks are never handed out.\<close>

lemma kmem_alloc_never_last:
  fixes k :: "'a kmem_scheme"
  assumes "kmem_inv k (chunks c (Suc n))" and "1024 * Suc n < 2 ^ 32"
  shows "kmem_alloc (of_nat (1024 * Suc n)) k = Some (NULL, k)"
  using assms by (intro kmem_alloc_miss alloc_split_short) auto

text \<open>With the bounds the start-up code derives from a main memory of 16 MB to 256 MB,
  initialisation of the empty allocator returns with every 1 KB chunk between the bounds on the
  free list, at least 7 MB of them, and reports the region as reserved in the kernel info page.\<close>

lemma kmem_init_correct:
  fixes k :: "'a kmem_scheme"
  assumes empty: "kmem_inv k []" and main: "16 * 1024 * 1024 \<le> unat main_high"
      "unat main_high < 0x10000000" "0x1000 dvd unat main_high"
    and bounds: "init_kmem_bounds main_high = (s, e)"
  shows "\<exists>k' kip'. kmem_init t et s e k kip = Some (k', kip') \<and>
    kmem_inv k' (chunks s ((unat e - unat s) div 1024)) \<and> 7168 \<le> (unat e - unat s) div 1024 \<and>
    reserved_mem1_low kip' = s - KERNEL_OFFSET \<and> reserved_mem1_high kip' = e - KERNEL_OFFSET"
proof -
  note b = init_bounds [OF main bounds]
  define n where "n = (unat e - unat s) div 1024"
  obtain i j where ij: "unat s = 0x100000 * i" "unat e = 0x1000 * j"
    using b(4,5) by (auto elim!: dvdE)
  have "unat e - unat s = 1024 * (4 * j - 1024 * i)" using ij by simp
  then have n: "1024 * n = unat e - unat s" unfolding n_def by simp
  obtain n' where n': "n = Suc n'" using n b(1) by (cases n) auto
  have "1024 * Suc n' < 2 ^ 32" using n n' unat_dword_less [of e] by simp
  from unat_block_size(1) [OF this] have "unat (e - s) = unat (of_nat (1024 * Suc n') :: dword_t)"
    using n n' b(2) by (simp only: unat_sub_if' word_le_nat_alt) simp
  then have sz: "e - s = of_nat (1024 * Suc n')" by (simp only: word_unat_eq_iff)
  have "chunk_aligned s" using ij by (simp add: chunk_aligned_def)
  moreover have "s \<noteq> NULL" using b(3) by auto
  moreover have "unat s + 1024 * Suc n' \<le> 2 ^ 32"
    using n n' b(2) unat_dword_less [of e] by simp
  ultimately obtain k' where k': "kmem_free s (e - s) k = Some k'" "kmem_inv k' (chunks s n)"
    using kmem_free_correct [OF empty, of s n'] n' unfolding sz by auto
  have "(virt_to_phys e + (PAGE_SIZE - 1)) AND PAGE_MASK = e - KERNEL_OFFSET"
    using page_round_up b by (simp add: virt_to_phys_def)
  then have init: "\<exists>kip'. kmem_init t et s e k kip = Some (k', kip') \<and>
      reserved_mem1_low kip' = s - KERNEL_OFFSET \<and> reserved_mem1_high kip' = e - KERNEL_OFFSET"
    by (simp add: kmem_init_def virt_to_phys_def k'(1))
  have "7168 \<le> n" using b(1) n by simp
  with init k'(2) show ?thesis unfolding n_def by blast
qed

end
