(* ===== verification/Mdb_Alloc.thy ===== *)
theory Mdb_Alloc
  imports Kmem
begin

text \<open>
  The buffer allocator of the mapping database, \<^verbatim>\<open>src/mapping_alloc.c\<close>, with the buffer sizes of
  \<^verbatim>\<open>src/x86/memory.c\<close>. Buffers of one size come from 4 KB pages. A page starts with a management
  structure (\<open>mdb_mng_t\<close>): the list of its free buffers, their number, the links of the list of pages
  with free buffers, and the buffer list it belongs to. The pointer to a buffer list is its index
  in the array here. Operations that do not return normally give an error: \<open>Panic\<close>, \<open>Null_deref\<close>
  where the code uses the null pointer of a failed allocation, \<open>Out_of_bounds\<close> where it would index beyond an array, or \<open>Page_fault\<close> where an access
  to user memory needs the page fault handler.
\<close>

section \<open>Results\<close>

datatype kerror = Panic | Null_deref | Out_of_bounds | Page_fault

type_synonym 'a kres = "(kerror + 'a) option"

definition res_bind :: "'a kres \<Rightarrow> ('a \<Rightarrow> 'b kres) \<Rightarrow> 'b kres" where
  "res_bind r f =
     (case r of None \<Rightarrow> None | Some (Inl e) \<Rightarrow> Some (Inl e) | Some (Inr x) \<Rightarrow> f x)"

abbreviation Ok :: "'a \<Rightarrow> 'a kres" where "Ok x \<equiv> Some (Inr x)"
abbreviation Err :: "kerror \<Rightarrow> 'a kres" where "Err e \<equiv> Some (Inl e)"

lemma res_bind_simps [simp]:
  "res_bind (Ok x) f = f x" "res_bind (Err e) f = Err e" "res_bind None f = None"
  by (simp_all add: res_bind_def)

lemma res_bind_bind:
  "res_bind r g = Option.bind r (\<lambda>x. case x of Inl e \<Rightarrow> Some (Inl e) | Inr y \<Rightarrow> g y)"
  by (cases r) (auto simp: res_bind_def split: sum.splits)

lemma res_bind_mono [partial_function_mono]:
  assumes A: "mono_option A" and B: "\<And>y. mono_option (B y)"
  shows "mono_option (\<lambda>f. res_bind (A f) (\<lambda>y. B y f))"
  unfolding res_bind_bind
proof (rule bind_mono [OF A])
  show "mono_option (\<lambda>f. case x of Inl e \<Rightarrow> Some (Inl e) | Inr y \<Rightarrow> B y f)" for x
    by (cases x) (auto intro: B option.const_mono)
qed

section \<open>State\<close>

record mdb_buflist_t =
  bl_size :: dword_t
  list_of_lists :: ptr_t
  max_free :: dword_t

record mdb_mem = kmem +
  mdb_buflists :: "mdb_buflist_t list"

definition MDB_ALLOC_CHUNKSZ :: dword_t where "MDB_ALLOC_CHUNKSZ = 4096"

text \<open>The configured array: mapping nodes, dual nodes, root arrays, IO mapping nodes, terminator.\<close>

definition mdb_buflists_conf :: "mdb_buflist_t list" where
  "mdb_buflists_conf =
     map (\<lambda>n. \<lparr>bl_size = n, list_of_lists = NULL, max_free = 0\<rparr>) [12, 8, 4096, 28, 0]"

text \<open>The cells of the management structure of a page.\<close>

definition mng_freelist :: "ptr_t \<Rightarrow> ptr_t" where "mng_freelist m = m"
definition mng_num_free :: "ptr_t \<Rightarrow> ptr_t" where "mng_num_free m = m + 4"
definition mng_next_freelist :: "ptr_t \<Rightarrow> ptr_t" where "mng_next_freelist m = m + 8"
definition mng_prev_freelist :: "ptr_t \<Rightarrow> ptr_t" where "mng_prev_freelist m = m + 12"
definition mng_bl :: "ptr_t \<Rightarrow> ptr_t" where "mng_bl m = m + 16"
definition sizeof_mdb_mng_t :: dword_t where "sizeof_mdb_mng_t = 20"

definition wr :: "ptr_t \<Rightarrow> dword_t \<Rightarrow> 'a kmem_scheme \<Rightarrow> 'a kmem_scheme" where
  "wr p v s = s\<lparr>mem := (mem s)(p := v)\<rparr>"

definition set_bl :: "nat \<Rightarrow> ptr_t \<Rightarrow> 'a mdb_mem_scheme \<Rightarrow> 'a mdb_mem_scheme" where
  "set_bl i v s =
     s\<lparr>mdb_buflists := (mdb_buflists s)[i := (mdb_buflists s ! i)\<lparr>list_of_lists := v\<rparr>]\<rparr>"

section \<open>Operations\<close>

text \<open>The loop that counts how many buffers fit. The counter is unsigned: stepping below zero would
  wrap around.\<close>

partial_function (option) buflist_count :: "dword_t \<Rightarrow> dword_t \<Rightarrow> dword_t \<Rightarrow> dword_t option" where
  "buflist_count sz i n =
     (if i \<ge> sizeof_mdb_mng_t then buflist_count sz (i - sz) (n + 1) else Some n)"

fun buflist_init_list :: "mdb_buflist_t list \<Rightarrow> mdb_buflist_t list option" where
  "buflist_init_list [] = Some []"
| "buflist_init_list (b # bs) =
     (if bl_size b = 0 then Some (b # bs)
      else do {
        let b = b\<lparr>list_of_lists := NULL\<rparr>;
        b \<leftarrow> (if bl_size b \<ge> MDB_ALLOC_CHUNKSZ then Some b
               else map_option (\<lambda>n. b\<lparr>max_free := n\<rparr>)
                 (buflist_count (bl_size b) (MDB_ALLOC_CHUNKSZ - bl_size b) 0));
        bs \<leftarrow> buflist_init_list bs;
        Some (b # bs)
      })"

definition mdb_buflist_init :: "'a mdb_mem_scheme \<Rightarrow> 'a mdb_mem_scheme option" where
  "mdb_buflist_init s =
     map_option (\<lambda>bs. s\<lparr>mdb_buflists := bs\<rparr>) (buflist_init_list (mdb_buflists s))"

text \<open>The search for the buffer list of a size; \<open>None\<close> is the panic at the terminator.\<close>

fun find_buflist :: "dword_t \<Rightarrow> mdb_buflist_t list \<Rightarrow> nat option" where
  "find_buflist sz [] = None"
| "find_buflist sz (b # bs) =
     (if bl_size b = sz then Some 0
      else if bl_size b = 0 then None
      else map_option Suc (find_buflist sz bs))"

partial_function (option) init_buffers :: "dword_t \<Rightarrow> ptr_t \<Rightarrow> ptr_t \<Rightarrow> wmem \<Rightarrow> (ptr_t \<times> wmem) option" where
  "init_buffers sz ed b m =
     (if b \<le> ed then let n = b + sz in init_buffers sz ed n (m(b := n)) else Some (b, m))"

text \<open>A fresh page for the buffer list \<open>i\<close>, hooked in as the first of its pages.\<close>

definition new_pool :: "nat \<Rightarrow> dword_t \<Rightarrow> 'a mdb_mem_scheme \<Rightarrow> (ptr_t \<times> 'a mdb_mem_scheme) kres" where
  "new_pool i sz s =
     (case kmem_alloc MDB_ALLOC_CHUNKSZ s of
        None \<Rightarrow> None
      | Some (mng, s) \<Rightarrow>
          if mng = NULL then Err Null_deref
          else
            let bl = mdb_buflists s ! i;
                s = wr (mng_freelist mng) (mng + MDB_ALLOC_CHUNKSZ - max_free bl * sz) s;
                s = wr (mng_num_free mng) (max_free bl) s;
                s = wr (mng_prev_freelist mng) NULL s;
                s = wr (mng_bl mng) (of_nat i) s;
                ed = mng + MDB_ALLOC_CHUNKSZ - sz
            in case init_buffers sz ed (mem s (mng_freelist mng)) (mem s) of
                 None \<Rightarrow> None
               | Some (b, m) \<Rightarrow>
                   let s = s\<lparr>mem := m\<rparr>;
                       s = wr (b - sz) NULL s;
                       s = wr (mng_next_freelist mng) (list_of_lists (mdb_buflists s ! i)) s;
                       s = set_bl i mng s;
                       nxt = mem s (mng_next_freelist mng);
                       s = (if nxt \<noteq> NULL then wr (mng_prev_freelist nxt) mng s else s)
                   in Ok (mng, s))"

text \<open>Taking the first free buffer of a page.\<close>

definition take_buffer :: "nat \<Rightarrow> ptr_t \<Rightarrow> 'a mdb_mem_scheme \<Rightarrow> ptr_t \<times> 'a mdb_mem_scheme" where
  "take_buffer i mng s =
     (let buf = mem s (mng_freelist mng);
          s = wr (mng_freelist mng) (mem s buf) s;
          s = wr (mng_num_free mng) (mem s (mng_num_free mng) - 1) s;
          s = (if mem s (mng_num_free mng) = 0 then
                 let s = set_bl i (mem s (mng_next_freelist mng)) s;
                     l = list_of_lists (mdb_buflists s ! i)
                 in if l \<noteq> NULL then wr (mng_prev_freelist l) NULL s else s
               else s)
      in (buf, s))"

definition mdb_alloc_buffer :: "dword_t \<Rightarrow> 'a mdb_mem_scheme \<Rightarrow> (ptr_t \<times> 'a mdb_mem_scheme) kres" where
  "mdb_alloc_buffer sz s =
     (case find_buflist sz (mdb_buflists s) of
        None \<Rightarrow> Err Panic
      | Some i \<Rightarrow>
          if sz \<ge> MDB_ALLOC_CHUNKSZ then map_option Inr (kmem_alloc sz s)
          else
            let mng = list_of_lists (mdb_buflists s ! i) in
            res_bind (if mng = NULL then new_pool i sz s else Ok (mng, s))
              (\<lambda>(mng, s). Ok (take_buffer i mng s)))"

text \<open>The steps of freeing: the buffer goes into the pool of its page; a page that was full enters the list
  of pages; a page all of whose buffers are free leaves it and is given back.\<close>

definition put_buffer :: "ptr_t \<Rightarrow> ptr_t \<Rightarrow> 'a mdb_mem_scheme \<Rightarrow> 'a mdb_mem_scheme" where
  "put_buffer mng buf s =
     (let s = wr buf (mem s (mng_freelist mng)) s;
          s = wr (mng_freelist mng) buf s
      in wr (mng_num_free mng) (mem s (mng_num_free mng) + 1) s)"

definition enlist_pool :: "nat \<Rightarrow> ptr_t \<Rightarrow> 'a mdb_mem_scheme \<Rightarrow> 'a mdb_mem_scheme" where
  "enlist_pool i mng s =
     (let l = list_of_lists (mdb_buflists s ! i);
          s = (if l \<noteq> NULL then wr (mng_prev_freelist l) mng s else s);
          s = wr (mng_next_freelist mng) l s;
          s = wr (mng_prev_freelist mng) NULL s
      in set_bl i mng s)"

definition delist_pool :: "nat \<Rightarrow> ptr_t \<Rightarrow> 'a mdb_mem_scheme \<Rightarrow> 'a mdb_mem_scheme" where
  "delist_pool i mng s =
     (let nxt = mem s (mng_next_freelist mng);
          s = (if nxt \<noteq> NULL then wr (mng_prev_freelist nxt) (mem s (mng_prev_freelist mng)) s else s)
      in if list_of_lists (mdb_buflists s ! i) = mng
         then set_bl i (mem s (mng_next_freelist mng)) s
         else if mem s (mng_prev_freelist mng) \<noteq> NULL
         then wr (mng_next_freelist (mem s (mng_prev_freelist mng))) (mem s (mng_next_freelist mng)) s
         else s)"

definition mdb_free_buffer :: "ptr_t \<Rightarrow> dword_t \<Rightarrow> 'a mdb_mem_scheme \<Rightarrow> 'a mdb_mem_scheme option" where
  "mdb_free_buffer addr sz s =
     (if sz \<ge> MDB_ALLOC_CHUNKSZ then kmem_free addr sz s
      else
        let mng = addr AND NOT (MDB_ALLOC_CHUNKSZ - 1);
            i = unat (mem s (mng_bl mng));
            s = put_buffer mng addr s
        in if mem s (mng_num_free mng) = 1 then Some (enlist_pool i mng s)
           else if mem s (mng_num_free mng) = max_free (mdb_buflists s ! i)
           then kmem_free mng MDB_ALLOC_CHUNKSZ (delist_pool i mng s)
           else Some s)"

end
