(* ===== verification/Kstate.thy ===== *)
theory Kstate
  imports Mdb_Alloc
begin

text \<open>
  The kernel state: thread control blocks (\<^verbatim>\<open>include/tcb.h\<close>, \<^verbatim>\<open>include/x86/tcb.h\<close>), thread
  identifiers (\<^verbatim>\<open>include/thread.h\<close>), the scheduler's variables (\<^verbatim>\<open>src/schedule.c\<close>), the registers
  that a thread switch touches, and the accessors of \<^verbatim>\<open>include/x86/thread.h\<close>.

  A thread control block is typed data at an address of type \<open>tptr\<close>; everything else in memory
  (kernel stacks, page directories, allocator chunks) is in the flat memory \<open>mem\<close> of the
  \<open>kmem\<close> part of the state. The idle thread's block is at the link-time address \<open>idle_tcb\<close>.
  The C code computes the current thread from the stack pointer; here it is the field \<open>current\<close>.
\<close>

section \<open>Thread identifiers\<close>

type_synonym tptr = dword_t
type_synonym l4_threadid_t = dword_t

text \<open>The bit fields of a thread identifier: version (10 bits), thread number in the task
  (6 bits), task (8 bits), chief (8 bits); \<open>id_thread\<close> spans thread number and task.\<close>

definition tid_version :: "l4_threadid_t \<Rightarrow> dword_t" where
  "tid_version tid = tid AND mask 10"

definition id_thread :: "l4_threadid_t \<Rightarrow> dword_t" where
  "id_thread tid = drop_bit 10 tid AND mask 14"

definition x0id_thread :: "l4_threadid_t \<Rightarrow> dword_t" where
  "x0id_thread tid = drop_bit 10 tid AND mask 6"

definition x0id_task :: "l4_threadid_t \<Rightarrow> dword_t" where
  "x0id_task tid = drop_bit 16 tid AND mask 8"

definition tid_chief :: "l4_threadid_t \<Rightarrow> dword_t" where
  "tid_chief tid = drop_bit 24 tid AND mask 8"

definition x0id :: "dword_t \<Rightarrow> dword_t \<Rightarrow> dword_t \<Rightarrow> dword_t \<Rightarrow> l4_threadid_t" where
  "x0id version thread task chief =
     (version AND mask 10) OR push_bit 10 (thread AND mask 6) OR
     push_bit 16 (task AND mask 8) OR push_bit 24 (chief AND mask 8)"

definition L4_KERNEL_ID :: l4_threadid_t where "L4_KERNEL_ID = x0id 0 1 0 0"
definition L4_SIGMA0_ID :: l4_threadid_t where "L4_SIGMA0_ID = x0id 1 0 2 4"
definition L4_ROOT_TASK_ID :: l4_threadid_t where "L4_ROOT_TASK_ID = x0id 1 0 4 4"
definition L4_NIL_ID :: l4_threadid_t where "L4_NIL_ID = 0"
definition L4_INVALID_ID :: l4_threadid_t where "L4_INVALID_ID = 0xffffffff"

definition l4_is_nil_id :: "l4_threadid_t \<Rightarrow> bool" where
  "l4_is_nil_id tid \<longleftrightarrow> tid = L4_NIL_ID"

definition l4_is_invalid_id :: "l4_threadid_t \<Rightarrow> bool" where
  "l4_is_invalid_id tid \<longleftrightarrow> tid = L4_INVALID_ID"

definition IS_KERNEL_ID :: "l4_threadid_t \<Rightarrow> bool" where
  "IS_KERNEL_ID tid \<longleftrightarrow> x0id_task tid = 0"

definition IS_INTERRUPT_ID :: "l4_threadid_t \<Rightarrow> bool" where
  "IS_INTERRUPT_ID tid \<longleftrightarrow> tid \<noteq> 0"

definition INTERRUPT_ID :: "l4_threadid_t \<Rightarrow> dword_t" where
  "INTERRUPT_ID tid = tid - 1"

definition L4_NUMBITS_TCBS :: nat where "L4_NUMBITS_TCBS = 10"
definition L4_TOTAL_TCB_SIZE :: dword_t where "L4_TOTAL_TCB_SIZE = push_bit L4_NUMBITS_TCBS 1"
definition L4_TCB_MASK :: dword_t where "L4_TCB_MASK = push_bit L4_NUMBITS_TCBS (NOT 0)"
definition TCB_AREA :: dword_t where "TCB_AREA = 0xE0000000"

definition tid_to_tcb :: "l4_threadid_t \<Rightarrow> tptr" where
  "tid_to_tcb tid = push_bit L4_NUMBITS_TCBS (id_thread tid) OR TCB_AREA"

definition ptr_to_tcb :: "ptr_t \<Rightarrow> tptr" where
  "ptr_to_tcb p = p AND L4_TCB_MASK"

definition threadnum :: "tptr \<Rightarrow> dword_t" where
  "threadnum t = drop_bit L4_NUMBITS_TCBS t AND (push_bit 6 1 - 1)"

definition tasknum :: "tptr \<Rightarrow> dword_t" where
  "tasknum t = drop_bit (L4_NUMBITS_TCBS + 6) t AND (push_bit 8 1 - 1)"

section \<open>Thread control blocks\<close>

record tcb_t =
  ipc_buffer :: "nat \<Rightarrow> dword_t"
  ipc_timeout :: dword_t
  msg_desc :: dword_t
  space :: ptr_t
  pagedir_cache :: ptr_t
  myself :: l4_threadid_t
  pager :: l4_threadid_t
  excpt :: dword_t
  stack :: ptr_t
  thread_state :: dword_t
  queue_state :: dword_t
  priority :: dword_t
  flags :: dword_t
  timeslice :: sdword_t
  current_timeslice :: sdword_t
  absolute_timeout :: qword_t
  present_prev :: tptr
  present_next :: tptr
  ready_prev :: tptr
  ready_next :: tptr
  wakeup_prev :: tptr
  wakeup_next :: tptr
  resources :: dword_t
  copy_area1 :: dword_t
  copy_area2 :: dword_t
  send_queue :: tptr
  send_prev :: tptr
  send_next :: tptr
  partner :: l4_threadid_t
  intr_pending :: dword_t
  unwind_ipc_sp :: ptr_t
  scratch :: dword_t
  magic :: dword_t
  fpu_ptr :: ptr_t
  dbg :: "nat \<Rightarrow> dword_t"

definition TCB_MAGIC :: dword_t where "TCB_MAGIC = 0x3F594857"

text \<open>Thread states are in negative logic: a cleared bit is a property that holds.\<close>

definition TSB_READY :: dword_t where "TSB_READY = 0x01"
definition TSB_POLLING :: dword_t where "TSB_POLLING = 0x02"
definition TSB_LOCKED :: dword_t where "TSB_LOCKED = 0x04"

definition TS_RUNNING :: dword_t where "TS_RUNNING = TSB_LOCKED OR TSB_POLLING"
definition TS_POLLING :: dword_t where "TS_POLLING = TSB_LOCKED OR TSB_READY"
definition TS_LOCKED_WAITING :: dword_t where "TS_LOCKED_WAITING = TSB_POLLING OR TSB_READY"
definition TS_LOCKED_RUNNING :: dword_t where "TS_LOCKED_RUNNING = TSB_POLLING"
definition TS_ABORTED :: dword_t where "TS_ABORTED = TSB_LOCKED OR TSB_POLLING OR TSB_READY"
definition TS_WAITING :: dword_t where "TS_WAITING = NOT 0"

definition IS_WAITING :: "tcb_t \<Rightarrow> bool" where
  "IS_WAITING c \<longleftrightarrow> NOT (thread_state c) = 0"

definition IS_POLLING :: "tcb_t \<Rightarrow> bool" where
  "IS_POLLING c \<longleftrightarrow> thread_state c AND NOT TS_POLLING = 0"

definition IS_RUNNING :: "tcb_t \<Rightarrow> bool" where
  "IS_RUNNING c \<longleftrightarrow> thread_state c AND NOT TS_RUNNING = 0"

definition TS_QUEUE_READY :: dword_t where "TS_QUEUE_READY = 0x01"
definition TS_QUEUE_PRESENT :: dword_t where "TS_QUEUE_PRESENT = 0x02"
definition TS_QUEUE_WAKEUP :: dword_t where "TS_QUEUE_WAKEUP = 0x04"
definition TS_QUEUE_SEND :: dword_t where "TS_QUEUE_SEND = 0x08"

definition TR_IPC_MEM1 :: dword_t where "TR_IPC_MEM1 = push_bit 0 1"
definition TR_IPC_MEM2 :: dword_t where "TR_IPC_MEM2 = push_bit 1 1"
definition TR_IPC_MEM :: dword_t where "TR_IPC_MEM = TR_IPC_MEM1 OR TR_IPC_MEM2"
definition TR_FPU :: dword_t where "TR_FPU = push_bit 2 1"
definition TR_LONG_IPC_PTAB :: dword_t where "TR_LONG_IPC_PTAB = push_bit 3 1"
definition TR_DEBUG_REGS :: dword_t where "TR_DEBUG_REGS = push_bit 4 1"
definition COPYAREA_INVALID :: dword_t where "COPYAREA_INVALID = NOT 0"
definition TF_SENDING_IPC :: dword_t where "TF_SENDING_IPC = 0x01"

section \<open>The kernel state\<close>

text \<open>\<open>prio_queue\<close> is an array of 256 pointers. \<open>esp\<close>, \<open>cr3\<close>, \<open>dr\<close> and \<open>fpu_on\<close> are the
  processor's; \<open>tss_esp0\<close> is the kernel stack of the task state segment. The masks are the kernel's copies of the
  interrupt controllers' mask registers; \<open>umem\<close> is the physical memory of user pages, by bytes.\<close>

record kstate = mdb_mem +
  tcbs :: "tptr \<Rightarrow> tcb_t"
  idle_tcb :: tptr
  sigma0 :: tptr
  current :: tptr
  prio_queue :: "int \<Rightarrow> tptr"
  current_max_prio :: int
  clock :: qword_t
  interrupt_owner :: "nat \<Rightarrow> tptr"
  fpu_owner :: tptr
  fpu_on :: bool
  dr :: "nat \<Rightarrow> dword_t"
  esp :: dword_t
  tss_esp0 :: dword_t
  cr3 :: dword_t
  pic1_mask :: byte_t
  pic2_mask :: byte_t
  umem :: "dword_t \<Rightarrow> byte_t"

definition upd_tcb :: "tptr \<Rightarrow> (tcb_t \<Rightarrow> tcb_t) \<Rightarrow> kstate \<Rightarrow> kstate" where
  "upd_tcb t f s = s\<lparr>tcbs := (tcbs s)(t := f (tcbs s t))\<rparr>"

lemma upd_tcb_sel [simp]:
  "tcbs (upd_tcb t f s) = (tcbs s)(t := f (tcbs s t))"
  "mem (upd_tcb t f s) = mem s"
  "kmem_free_list (upd_tcb t f s) = kmem_free_list s"
  "free_chunks (upd_tcb t f s) = free_chunks s" "mdb_buflists (upd_tcb t f s) = mdb_buflists s"
  "idle_tcb (upd_tcb t f s) = idle_tcb s"
  "sigma0 (upd_tcb t f s) = sigma0 s"
  "current (upd_tcb t f s) = current s"
  "prio_queue (upd_tcb t f s) = prio_queue s"
  "current_max_prio (upd_tcb t f s) = current_max_prio s"
  "clock (upd_tcb t f s) = clock s"
  "interrupt_owner (upd_tcb t f s) = interrupt_owner s"
  "fpu_owner (upd_tcb t f s) = fpu_owner s"
  "fpu_on (upd_tcb t f s) = fpu_on s"
  "dr (upd_tcb t f s) = dr s"
  "esp (upd_tcb t f s) = esp s"
  "tss_esp0 (upd_tcb t f s) = tss_esp0 s"
  "cr3 (upd_tcb t f s) = cr3 s"
  "pic1_mask (upd_tcb t f s) = pic1_mask s" "pic2_mask (upd_tcb t f s) = pic2_mask s" "umem (upd_tcb t f s) = umem s"
  by (simp_all add: upd_tcb_def)

definition pgdir_idx :: "dword_t \<Rightarrow> dword_t" where
  "pgdir_idx addr = drop_bit 22 addr"

definition get_idle_tcb :: "kstate \<Rightarrow> tptr" where
  "get_idle_tcb s = idle_tcb s"

definition get_current_tcb :: "kstate \<Rightarrow> tptr" where
  "get_current_tcb s = current s"

definition tcb_exist :: "tptr \<Rightarrow> kstate \<Rightarrow> bool" where
  "tcb_exist t s \<longleftrightarrow> myself (tcbs s t) \<noteq> 0"

definition same_address_space :: "tptr \<Rightarrow> tptr \<Rightarrow> kstate \<Rightarrow> bool" where
  "same_address_space t1 t2 s \<longleftrightarrow> space (tcbs s t1) = space (tcbs s t2)"

section \<open>Kernel stacks\<close>

definition get_tcb_stack_top :: "tptr \<Rightarrow> ptr_t" where
  "get_tcb_stack_top t = t + L4_TOTAL_TCB_SIZE - 4"

text \<open>A C index into a \<open>dword_t\<close> array moves by four bytes.\<close>

definition idx :: "ptr_t \<Rightarrow> int \<Rightarrow> ptr_t" where
  "idx p i = p + 4 * of_int i"

definition IPCSTK_RETADDR :: int where "IPCSTK_RETADDR = -9"

definition get_user_sp :: "tptr \<Rightarrow> kstate \<Rightarrow> dword_t" where
  "get_user_sp t s = mem s (idx (get_tcb_stack_top t) (-2))"

definition get_user_flags :: "tptr \<Rightarrow> kstate \<Rightarrow> dword_t" where
  "get_user_flags t s = mem s (idx (get_tcb_stack_top t) (-3))"

definition get_user_ip :: "tptr \<Rightarrow> kstate \<Rightarrow> dword_t" where
  "get_user_ip t s = mem s (idx (get_tcb_stack_top t) (-5))"

definition set_mem :: "ptr_t \<Rightarrow> dword_t \<Rightarrow> kstate \<Rightarrow> kstate" where
  "set_mem p v s = s\<lparr>mem := (mem s)(p := v)\<rparr>"

text \<open>The setters return the old value.\<close>

definition set_user_sp :: "tptr \<Rightarrow> dword_t \<Rightarrow> kstate \<Rightarrow> dword_t \<times> kstate" where
  "set_user_sp t v s = (get_user_sp t s, set_mem (idx (get_tcb_stack_top t) (-2)) v s)"

definition set_user_flags :: "tptr \<Rightarrow> dword_t \<Rightarrow> kstate \<Rightarrow> dword_t \<times> kstate" where
  "set_user_flags t v s = (get_user_flags t s, set_mem (idx (get_tcb_stack_top t) (-3)) v s)"

definition set_user_ip :: "tptr \<Rightarrow> dword_t \<Rightarrow> kstate \<Rightarrow> dword_t \<times> kstate" where
  "set_user_ip t v s = (get_user_ip t s, set_mem (idx (get_tcb_stack_top t) (-5)) v s)"

definition tcb_stack_push :: "tptr \<Rightarrow> dword_t \<Rightarrow> kstate \<Rightarrow> kstate" where
  "tcb_stack_push t v s =
     (let s = upd_tcb t (\<lambda>c. c\<lparr>stack := stack c - 4\<rparr>) s
      in set_mem (stack (tcbs s t)) v s)"

definition X86_UDS :: dword_t where "X86_UDS = 0x23"
definition X86_UCS :: dword_t where "X86_UCS = 0x1b"

definition X86_EFL_IF :: dword_t where "X86_EFL_IF = push_bit 9 1"
definition X86_EFL_IOPL :: "dword_t \<Rightarrow> dword_t" where "X86_EFL_IOPL x = push_bit 12 (x AND 3)"
definition X86_DEFAULT_IOPL :: dword_t where "X86_DEFAULT_IOPL = 0"
definition X86_USER_FLAGS :: dword_t where
  "X86_USER_FLAGS = X86_EFL_IOPL X86_DEFAULT_IOPL + X86_EFL_IF + 2"

definition create_user_stack_frame ::
    "tptr \<Rightarrow> dword_t \<Rightarrow> dword_t \<Rightarrow> dword_t \<Rightarrow> dword_t \<Rightarrow> kstate \<Rightarrow> kstate" where
  "create_user_stack_frame t usp uip entry param s =
     (let s = upd_tcb t (\<lambda>c. c\<lparr>stack := get_tcb_stack_top t\<rparr>) s;
          s = tcb_stack_push t X86_UDS s;
          s = tcb_stack_push t usp s;
          s = tcb_stack_push t X86_USER_FLAGS s;
          s = tcb_stack_push t X86_UCS s;
          s = tcb_stack_push t uip s;
          s = tcb_stack_push t param s
      in tcb_stack_push t entry s)"

text \<open>\<open>return_from_sys_ipc\<close> is the address of a label of the trap code.\<close>

definition is_ipc_sysenter :: "ptr_t \<Rightarrow> tptr \<Rightarrow> kstate \<Rightarrow> bool" where
  "is_ipc_sysenter return_from_sys_ipc t s =
     (let stkptr = idx (get_tcb_stack_top t) IPCSTK_RETADDR
      in stack (tcbs s t) < stkptr \<and> mem s stkptr = return_from_sys_ipc)"

section \<open>Initial state\<close>

text \<open>A block with every field zero, and the state in which the idle thread starts: no other thread is
  queued, the idle thread's links point to itself.\<close>

definition zero_tcb :: tcb_t where
  "zero_tcb = \<lparr>ipc_buffer = (\<lambda>_. 0), ipc_timeout = 0, msg_desc = 0, space = 0, pagedir_cache = 0,
     myself = 0, pager = 0, excpt = 0, stack = 0, thread_state = 0, queue_state = 0, priority = 0,
     flags = 0, timeslice = 0, current_timeslice = 0, absolute_timeout = 0,
     present_prev = 0, present_next = 0, ready_prev = 0, ready_next = 0, wakeup_prev = 0,
     wakeup_next = 0, resources = 0, copy_area1 = 0, copy_area2 = 0, send_queue = 0, send_prev = 0,
     send_next = 0, partner = 0, intr_pending = 0, unwind_ipc_sp = 0, scratch = 0, magic = 0,
     fpu_ptr = 0, dbg = (\<lambda>_. 0)\<rparr>"

definition boot_state :: "tptr \<Rightarrow> kstate" where
  "boot_state idle =
     \<lparr>mem = (\<lambda>_. 0), kmem_free_list = 0, free_chunks = 0, mdb_buflists = mdb_buflists_conf,
      tcbs = (\<lambda>_. zero_tcb)(idle := zero_tcb\<lparr>present_prev := idle, present_next := idle,
                wakeup_prev := idle, wakeup_next := idle, thread_state := TS_RUNNING,
                queue_state := TS_QUEUE_PRESENT OR TS_QUEUE_WAKEUP, timeslice := 10000, current_timeslice := 10000, magic := TCB_MAGIC\<rparr>),
      idle_tcb = idle, sigma0 = 0, current = idle, prio_queue = (\<lambda>_. 0), current_max_prio = -1,
      clock = 0, interrupt_owner = (\<lambda>_. 0), fpu_owner = 0, fpu_on = False, dr = (\<lambda>_. 0), esp = 0,
      tss_esp0 = 0, cr3 = 0, pic1_mask = 0xfb, pic2_mask = 0xfe, umem = (\<lambda>_. 0)\<rparr>"

section \<open>Properties\<close>

lemma x0id_fields:
  "tid_version (x0id v t k c) = v AND mask 10" "x0id_thread (x0id v t k c) = t AND mask 6"
  "x0id_task (x0id v t k c) = k AND mask 8" "tid_chief (x0id v t k c) = c AND mask 8"
  unfolding x0id_def tid_version_def x0id_thread_def x0id_task_def tid_chief_def
  by (auto intro!: bit_word_eqI simp: bit_simps)

text \<open>\<^bold>\<open>C40.\<close> The block of a thread identifier determines its task and thread number and lies in the
  block area at a multiple of the block size; every address inside the block leads back to it; and
  identifiers have the same block exactly when they agree in task and thread number.\<close>

theorem tid_to_tcb_correct:
  shows "threadnum (tid_to_tcb tid) = x0id_thread tid \<and> tasknum (tid_to_tcb tid) = x0id_task tid \<and>
    tid_to_tcb tid AND NOT (mask 24) = TCB_AREA \<and>
    ptr_to_tcb (tid_to_tcb tid OR (off AND mask 10)) = tid_to_tcb tid \<and>
    (tid_to_tcb tid = tid_to_tcb tid' \<longleftrightarrow>
       x0id_thread tid = x0id_thread tid' \<and> x0id_task tid = x0id_task tid')"
proof -
  have area: "bit TCB_AREA n \<longleftrightarrow> n \<in> {29, 30, 31}" for n
  proof -
    have t: "TCB_AREA = push_bit 29 (mask 3)" by (simp add: TCB_AREA_def mask_eq_exp_minus_1)
    show ?thesis unfolding t by (auto simp: bit_simps)
  qed
  note d = tid_to_tcb_def threadnum_def tasknum_def x0id_thread_def x0id_task_def ptr_to_tcb_def
    id_thread_def L4_NUMBITS_TCBS_def L4_TCB_MASK_def
  have m: "push_bit 6 1 - 1 = (mask 6 :: dword_t)" "push_bit 8 1 - 1 = (mask 8 :: dword_t)"
    by (simp_all add: mask_eq_exp_minus_1)
  have th: "threadnum (tid_to_tcb t) = x0id_thread t" for t
    unfolding d m by (rule bit_word_eqI) (auto simp: bit_simps area)
  have ta: "tasknum (tid_to_tcb t) = x0id_task t" for t
    unfolding d m by (rule bit_word_eqI) (auto simp: bit_simps area)
  have eq: "tid_to_tcb tid = tid_to_tcb tid'"
    if "x0id_thread tid = x0id_thread tid'" "x0id_task tid = x0id_task tid'"
  proof -
    have b: "bit tid (10 + n) = bit tid' (10 + n)" if "n < 6" for n
      using arg_cong [OF \<open>x0id_thread tid = x0id_thread tid'\<close>, of "\<lambda>w. bit w n"] that
      by (simp add: x0id_thread_def bit_simps)
    have c: "bit tid (16 + n) = bit tid' (16 + n)" if "n < 8" for n
      using arg_cong [OF \<open>x0id_task tid = x0id_task tid'\<close>, of "\<lambda>w. bit w n"] that
      by (simp add: x0id_task_def bit_simps)
    have "bit tid (10 + n) = bit tid' (10 + n)" if "n < 14" for n
      using that b [of n] c [of "n - 6"] by (cases "n < 6") auto
    then have "id_thread tid = id_thread tid'"
      unfolding id_thread_def by (intro bit_word_eqI) (auto simp: bit_simps)
    then show ?thesis by (simp add: tid_to_tcb_def)
  qed
  have "tid_to_tcb tid AND NOT (mask 24) = TCB_AREA"
    unfolding d by (rule bit_word_eqI) (auto simp: bit_simps area)
  moreover have "ptr_to_tcb (tid_to_tcb tid OR (off AND mask 10)) = tid_to_tcb tid"
    unfolding d by (rule bit_word_eqI) (auto simp: bit_simps area)
  ultimately show ?thesis using th ta eq by metis
qed

lemma push_sel:
  "stack (tcbs (tcb_stack_push t v s) t) = stack (tcbs s t) - 4"
  "mem (tcb_stack_push t v s) = (mem s)(stack (tcbs s t) - 4 := v)"
  by (simp_all add: tcb_stack_push_def set_mem_def Let_def)

text \<open>The frame built for a new user thread makes the kernel read back the given user stack
  pointer, instruction pointer and the default flags; the stack pointer is seven words below the
  top and points at the kernel entry, with the parameter above it.\<close>

lemma create_user_stack_frame_correct:
  "let s' = create_user_stack_frame t usp uip entry param s in
    get_user_sp t s' = usp \<and> get_user_ip t s' = uip \<and> get_user_flags t s' = X86_USER_FLAGS \<and>
    stack (tcbs s' t) = get_tcb_stack_top t - 28 \<and> mem s' (stack (tcbs s' t)) = entry \<and>
    mem s' (stack (tcbs s' t) + 4) = param"
  by (simp add: create_user_stack_frame_def Let_def push_sel get_user_sp_def get_user_ip_def
      get_user_flags_def idx_def)

end
