(* ===== verification/Ring_Lists.thy ===== *)
theory Ring_Lists
  imports Prelude
begin

text \<open>
  Circular doubly linked lists. Every thread queue of the kernel (ready, present, wakeup and
  send queues) is one: the pointer fields of the members form a ring. The predicate
  \<open>ring nx pv xs\<close> says that the fields \<open>nx\<close> and \<open>pv\<close> link exactly the members of \<open>xs\<close>,
  in this order and back to the first. The locale \<open>link_fields\<close> lifts insertion and removal
  to any state type with such a pair of fields; \<^verbatim>\<open>Queues.thy\<close> interprets it for the four pairs
  of link fields of a thread control block.
\<close>

definition ring :: "('p \<Rightarrow> 'p) \<Rightarrow> ('p \<Rightarrow> 'p) \<Rightarrow> 'p list \<Rightarrow> bool" where
  "ring nx pv xs \<longleftrightarrow>
     xs \<noteq> [] \<and> distinct xs \<and> map nx xs = rotate1 xs \<and> map pv (rotate1 xs) = xs"

lemma ring_distinct: "ring nx pv xs \<Longrightarrow> distinct xs"
  by (simp add: ring_def)

lemma ring_nonempty: "ring nx pv xs \<Longrightarrow> xs \<noteq> []"
  by (simp add: ring_def)

lemma ring_singleton [simp]: "ring nx pv [x] \<longleftrightarrow> nx x = x \<and> pv x = x"
  by (auto simp: ring_def)

lemma ring_Cons:
  "ring nx pv (x # xs) \<longleftrightarrow>
     distinct (x # xs) \<and> nx x # map nx xs = xs @ [x] \<and> map pv xs @ [pv x] = x # xs"
  by (auto simp: ring_def)

lemma ring_rotate1: "ring nx pv (x # xs) \<Longrightarrow> ring nx pv (xs @ [x])"
  by (cases xs) (auto simp: ring_def)

lemma ring_swap: "ring nx pv (xs @ ys) \<Longrightarrow> ring nx pv (ys @ xs)"
proof (induction xs arbitrary: ys)
  case Nil
  then show ?case by simp
next
  case (Cons x xs)
  from Cons.prems have "ring nx pv (xs @ (ys @ [x]))"
    using ring_rotate1 [of nx pv x "xs @ ys"] by simp
  from Cons.IH [OF this] show ?case by simp
qed

lemma ring_next_hd: "ring nx pv (x # y # ys) \<Longrightarrow> nx x = y"
  by (simp add: ring_Cons)

lemma ring_next_in: "ring nx pv xs \<Longrightarrow> x \<in> set xs \<Longrightarrow> nx x \<in> set xs"
proof -
  assume r: "ring nx pv xs" and x: "x \<in> set xs"
  from r have "set (map nx xs) = set xs" by (simp add: ring_def)
  with x show ?thesis by auto
qed

lemma ring_prev_in: "ring nx pv xs \<Longrightarrow> x \<in> set xs \<Longrightarrow> pv x \<in> set xs"
proof -
  assume r: "ring nx pv xs" and x: "x \<in> set xs"
  from r have "set (map pv (rotate1 xs)) = set xs" by (simp add: ring_def)
  with x show ?thesis by auto
qed

lemma ring_prev_hd: "ring nx pv (x # xs) \<Longrightarrow> pv x = last (x # xs)"
  unfolding ring_Cons by (metis last_snoc)

lemma ring_next_last: "ring nx pv xs \<Longrightarrow> nx (last xs) = hd xs"
proof -
  assume r: "ring nx pv xs"
  then have ne: "xs \<noteq> []" by (rule ring_nonempty)
  from r have "last (map nx xs) = last (rotate1 xs)" by (simp add: ring_def)
  with ne show ?thesis by (cases xs) (simp_all add: last_map split: if_splits)
qed

lemma ring_hd_unique:
  "ring nx pv (x # xs) \<Longrightarrow> nx x = x \<longleftrightarrow> xs = []"
  by (cases xs) (auto simp: ring_Cons)

text \<open>Two rings over the same fields that share a member are rotations of each other; here
  only the form needed: a ring and its first member determine the list.\<close>

lemma ring_unique:
  assumes "ring nx pv (x # xs)" "ring nx pv (x # ys)"
  shows "xs = ys"
proof -
  have gen: "\<And>zs ws a b. map nx (a # zs) = zs @ [b] \<Longrightarrow> map nx (a # ws) = ws @ [b] \<Longrightarrow>
      b \<notin> set zs \<Longrightarrow> b \<notin> set ws \<Longrightarrow> zs = ws"
  proof -
    fix zs ws a b
    assume "map nx (a # zs) = zs @ [b]" "map nx (a # ws) = ws @ [b]"
      "b \<notin> set zs" "b \<notin> set ws"
    then show "zs = ws"
    proof (induction zs arbitrary: a ws)
      case Nil
      then show ?case by (cases ws) auto
    next
      case (Cons z zs)
      then show ?case by (cases ws) auto
    qed
  qed
  show ?thesis by (rule gen [of x xs x ys]) (use assms in \<open>auto simp: ring_Cons\<close>)
qed

lemma ring_hd: "ring nx pv xs \<Longrightarrow> hd xs \<in> set xs"
  by (auto dest: ring_nonempty)

lemma ring_prev_self:
  assumes "ring nx pv xs" "x \<in> set xs"
  shows "pv x = x \<longleftrightarrow> nx x = x"
proof -
  obtain as bs where xs: "xs = as @ x # bs" using assms(2) by (meson split_list)
  have r: "ring nx pv (x # bs @ as)" using ring_swap [of nx pv as "x # bs"] assms(1) xs by simp
  from ring_prev_hd [OF r] ring_hd_unique [OF r] ring_distinct [OF r] show ?thesis
    by (cases "bs @ as" rule: rev_cases) auto
qed

lemma ring_self_singleton:
  assumes "ring nx pv xs" "x \<in> set xs" "nx x = x"
  shows "set xs = {x}"
proof -
  obtain as bs where xs: "xs = as @ x # bs" using assms(2) by (meson split_list)
  have "ring nx pv (x # bs @ as)" using ring_swap [of nx pv as "x # bs"] assms(1) xs by simp
  from ring_hd_unique [OF this] assms(3) xs show ?thesis by simp
qed

lemma ring_after:
  assumes "ring nx pv (as @ x # bs)"
  shows "nx x = (if bs = [] then hd (as @ [x]) else hd bs)"
proof -
  have "ring nx pv (x # bs @ as)" using ring_swap [of nx pv as "x # bs"] assms by simp
  then show ?thesis by (cases bs; cases as) (auto simp: ring_Cons)
qed

section \<open>Insertion and removal\<close>

lemma ring_insert_after:
  assumes "ring nx pv (a # ys)" and "x \<notin> set (a # ys)"
  shows "ring (nx(x := nx a, a := x)) (pv(nx a := x, x := a)) (a # x # ys)"
proof (cases ys)
  case Nil
  with assms show ?thesis by (auto simp: ring_Cons)
next
  case (Cons b zs)
  with assms have nb: "nx a = b" by (simp add: ring_Cons)
  from assms Cons have d: "distinct (a # b # zs)" and x: "x \<noteq> a" "x \<noteq> b" "x \<notin> set zs"
    by (auto simp: ring_Cons)
  from assms Cons have n: "nx b # map nx zs = zs @ [a]"
    and p: "map pv zs @ [pv a] = b # zs"
    by (auto simp: ring_Cons)
  have "map (nx(x := nx a, a := x)) (b # zs) = map nx (b # zs)"
    using d x by auto
  moreover have "map (pv(nx a := x, x := a)) zs = map pv zs"
    using d x nb by auto
  ultimately show ?thesis
    using Cons d x nb n p by (auto simp: ring_Cons)
qed

lemma ring_insert_last:
  assumes "ring nx pv xs" and "x \<notin> set xs"
  shows "ring (nx(x := hd xs, pv (hd xs) := x)) (pv(hd xs := x, x := pv (hd xs))) (xs @ [x])"
proof -
  from assms(1) have ne: "xs \<noteq> []" by (rule ring_nonempty)
  define a where "a = last xs"
  from ne have xs: "xs = butlast xs @ [a]" by (simp add: a_def)
  with assms(1) have r: "ring nx pv (a # butlast xs)"
    using ring_swap [of nx pv "butlast xs" "[a]"] by simp
  have xa: "x \<notin> set (a # butlast xs)"
    using assms(2) xs by (metis append.assoc append_Cons append_Nil rotate1.simps(2) set_rotate1)
  have na: "nx a = hd xs" and pa: "pv (hd xs) = a"
    using ring_next_last [OF assms(1)] ring_prev_hd [of nx pv "hd xs" "tl xs"] assms(1) ne
    by (simp_all add: a_def)
  from ring_insert_after [OF r xa]
  have "ring (nx(x := hd xs, a := x)) (pv(hd xs := x, x := a)) ([a, x] @ butlast xs)"
    by (simp add: na)
  from ring_swap [OF this] show ?thesis using xs pa
    by (metis append.assoc append_Cons append_Nil)
qed

lemma ring_remove_hd:
  assumes "ring nx pv (x # ys)" and "ys \<noteq> []"
  shows "ring (nx(pv x := nx x)) (pv(nx x := pv x)) ys"
proof -
  obtain b zs where ys: "ys = b # zs" using assms(2) by (cases ys) auto
  from assms(1) ys have nb: "nx x = b" and d: "distinct (x # b # zs)"
    and n: "nx b # map nx zs = zs @ [x]" and p: "map pv zs @ [pv x] = b # zs"
    by (auto simp: ring_Cons)
  show ?thesis
  proof (cases zs rule: rev_cases)
    case Nil
    with ys nb p show ?thesis by (simp add: ring_Cons)
  next
    case (snoc ws c)
    from p snoc have "map pv (ws @ [c]) @ [pv x] = (b # ws) @ [c]" by simp
    then have px: "pv x = c" and pz: "map pv (ws @ [c]) = b # ws"
      unfolding append1_eq_conv by simp_all
    have nbc: "nx b # map nx ws = ws @ [c]" and "nx c = x"
      using n snoc by (auto simp flip: append_assoc)
    moreover have "map (nx(c := b)) ws = map nx ws" "map (pv(b := c)) (ws @ [c]) = map pv (ws @ [c])"
      using d snoc by auto
    ultimately show ?thesis using ys nb px snoc d pz by (auto simp: ring_Cons)
  qed
qed

lemma ring_remove:
  assumes "ring nx pv xs" and "x \<in> set xs" and "nx x \<noteq> x"
  shows "ring (nx(pv x := nx x)) (pv(nx x := pv x)) (remove1 x xs)"
proof -
  obtain as bs where xs: "xs = as @ x # bs" and na: "x \<notin> set as"
    using assms(2) by (meson split_list_first)
  have r: "ring nx pv (x # bs @ as)"
    using ring_swap [of nx pv as "x # bs"] assms(1) xs by simp
  have "bs @ as \<noteq> []"
    using r assms(3) by (cases "bs @ as") auto
  from ring_remove_hd [OF r this]
  have "ring (nx(pv x := nx x)) (pv(nx x := pv x)) (as @ bs)"
    by (rule ring_swap)
  moreover have "remove1 x xs = as @ bs"
    using xs na by (simp add: remove1_append)
  ultimately show ?thesis by simp
qed

lemma ring_cong:
  assumes "\<And>x. x \<in> set xs \<Longrightarrow> nx x = nx' x" "\<And>x. x \<in> set xs \<Longrightarrow> pv x = pv' x"
  shows "ring nx pv xs \<longleftrightarrow> ring nx' pv' xs"
proof -
  have "map nx xs = map nx' xs" "map pv (rotate1 xs) = map pv' (rotate1 xs)"
    using assms by auto
  then show ?thesis unfolding ring_def by (simp only:)
qed

section \<open>Link fields of a state\<close>

text \<open>A pair of link fields of the objects of a state: reading the links after writing one.
  The lemmas follow the order in which the kernel's queue operations write the fields.\<close>

locale link_fields =
  fixes nx pv :: "'s \<Rightarrow> 'p \<Rightarrow> 'p"
    and set_nx set_pv :: "'p \<Rightarrow> 'p \<Rightarrow> 's \<Rightarrow> 's"
  assumes nx_set_nx: "nx (set_nx p v s) = (nx s)(p := v)"
    and nx_set_pv: "nx (set_pv p v s) = nx s"
    and pv_set_nx: "pv (set_nx p v s) = pv s"
    and pv_set_pv: "pv (set_pv p v s) = (pv s)(p := v)"
begin

lemmas links = nx_set_nx nx_set_pv pv_set_nx pv_set_pv

text \<open>Two orders of the four writes that append \<open>x\<close> before the head.\<close>

lemma append_next_first:
  assumes "ring (nx s) (pv s) xs" "x \<notin> set xs"
    and "s1 = set_nx x (hd xs) s" "s2 = set_pv x (pv s1 (hd xs)) s1"
    and "s3 = set_nx (pv s2 x) x s2" "s4 = set_pv (hd xs) x s3"
  shows "ring (nx s4) (pv s4) (xs @ [x])"
    and "y \<notin> set xs \<Longrightarrow> y \<noteq> x \<Longrightarrow> nx s4 y = nx s y \<and> pv s4 y = pv s y"
proof -
  have h: "hd xs \<in> set xs" and p: "pv s (hd xs) \<in> set xs"
    using assms(1) ring_nonempty ring_prev_in by fastforce+
  then have ne: "hd xs \<noteq> x" "pv s (hd xs) \<noteq> x" using assms(2) by auto
  have n: "nx s4 = (nx s)(x := hd xs, pv s (hd xs) := x)"
    and q: "pv s4 = (pv s)(hd xs := x, x := pv s (hd xs))"
    using ne unfolding assms(3-) links by (auto simp: fun_upd_twist)
  show "ring (nx s4) (pv s4) (xs @ [x])"
    unfolding n q by (rule ring_insert_last [OF assms(1,2)])
  show "y \<notin> set xs \<Longrightarrow> y \<noteq> x \<Longrightarrow> nx s4 y = nx s y \<and> pv s4 y = pv s y"
    using h p unfolding n q by auto
qed

lemma append_prev_first:
  assumes "ring (nx s) (pv s) xs" "x \<notin> set xs"
    and "s1 = set_pv x (pv s (hd xs)) s" "s2 = set_nx x (hd xs) s1"
    and "s3 = set_pv (hd xs) x s2" "s4 = set_nx (pv s3 x) x s3"
  shows "ring (nx s4) (pv s4) (xs @ [x])"
    and "y \<notin> set xs \<Longrightarrow> y \<noteq> x \<Longrightarrow> nx s4 y = nx s y \<and> pv s4 y = pv s y"
proof -
  have h: "hd xs \<in> set xs" and p: "pv s (hd xs) \<in> set xs"
    using assms(1) ring_nonempty ring_prev_in by fastforce+
  then have ne: "hd xs \<noteq> x" "pv s (hd xs) \<noteq> x" using assms(2) by auto
  have n: "nx s4 = (nx s)(x := hd xs, pv s (hd xs) := x)"
    and q: "pv s4 = (pv s)(hd xs := x, x := pv s (hd xs))"
    using ne unfolding assms(3-) links by (auto simp: fun_upd_twist)
  show "ring (nx s4) (pv s4) (xs @ [x])"
    unfolding n q by (rule ring_insert_last [OF assms(1,2)])
  show "y \<notin> set xs \<Longrightarrow> y \<noteq> x \<Longrightarrow> nx s4 y = nx s y \<and> pv s4 y = pv s y"
    using h p unfolding n q by auto
qed

text \<open>Two orders of the four writes that insert \<open>x\<close> right after a sentinel \<open>a\<close>.\<close>

lemma insert_next_first:
  assumes "ring (nx s) (pv s) (a # xs)" "x \<notin> set (a # xs)"
    and "s1 = set_nx x (nx s a) s" "s2 = set_nx a x s1"
    and "s3 = set_pv x a s2" "s4 = set_pv (nx s3 x) x s3"
  shows "ring (nx s4) (pv s4) (a # x # xs)"
proof -
  have "nx s a \<in> set (a # xs)" using ring_next_in [OF assms(1)] by simp
  then have ne: "nx s a \<noteq> x" "a \<noteq> x" using assms(2) by auto
  have n: "nx s4 = (nx s)(x := nx s a, a := x)"
    and q: "pv s4 = (pv s)(nx s a := x, x := a)"
    using ne unfolding assms(3-) links by (auto simp: fun_upd_twist)
  show ?thesis unfolding n q by (rule ring_insert_after [OF assms(1,2)])
qed

lemma insert_prev_first:
  assumes "ring (nx s) (pv s) (a # xs)" "x \<notin> set (a # xs)"
    and "s1 = set_pv x a s" "s2 = set_nx x (nx s1 a) s1"
    and "s3 = set_nx a x s2" "s4 = set_pv (nx s3 x) x s3"
  shows "ring (nx s4) (pv s4) (a # x # xs)"
proof -
  have "nx s a \<in> set (a # xs)" using ring_next_in [OF assms(1)] by simp
  then have ne: "nx s a \<noteq> x" "a \<noteq> x" using assms(2) by auto
  have n: "nx s4 = (nx s)(x := nx s a, a := x)"
    and q: "pv s4 = (pv s)(nx s a := x, x := a)"
    using ne unfolding assms(3-) links by (auto simp: fun_upd_twist)
  show ?thesis unfolding n q by (rule ring_insert_after [OF assms(1,2)])
qed

text \<open>Two orders of the two writes that take \<open>x\<close> out.\<close>

lemma unlink_next_first:
  assumes "ring (nx s) (pv s) xs" "x \<in> set xs" "nx s x \<noteq> x"
    and "s1 = set_nx (pv s x) (nx s x) s" "s2 = set_pv (nx s1 x) (pv s1 x) s1"
  shows "ring (nx s2) (pv s2) (remove1 x xs)"
    and "y \<notin> set xs \<Longrightarrow> nx s2 y = nx s y \<and> pv s2 y = pv s y"
proof -
  have px: "pv s x \<noteq> x"
  proof
    assume "pv s x = x"
    then have "ring (nx s) (pv s) xs \<Longrightarrow> nx s x = x"
      using ring_prev_self [OF assms(1,2)] by simp
    with assms(1,3) show False by simp
  qed
  then have n: "nx s2 = (nx s)(pv s x := nx s x)" and q: "pv s2 = (pv s)(nx s x := pv s x)"
    unfolding assms(4-) links by auto
  show "ring (nx s2) (pv s2) (remove1 x xs)"
    unfolding n q by (rule ring_remove [OF assms(1-3)])
  show "y \<notin> set xs \<Longrightarrow> nx s2 y = nx s y \<and> pv s2 y = pv s y"
    using ring_prev_in [OF assms(1,2)] ring_next_in [OF assms(1,2)] unfolding n q by auto
qed

lemma unlink_prev_first:
  assumes "ring (nx s) (pv s) xs" "x \<in> set xs" "nx s x \<noteq> x"
    and "s1 = set_pv (nx s x) (pv s x) s" "s2 = set_nx (pv s1 x) (nx s1 x) s1"
  shows "ring (nx s2) (pv s2) (remove1 x xs)"
    and "y \<notin> set xs \<Longrightarrow> nx s2 y = nx s y \<and> pv s2 y = pv s y"
proof -
  have n: "nx s2 = (nx s)(pv s x := nx s x)" and q: "pv s2 = (pv s)(nx s x := pv s x)"
    using assms(3) unfolding assms(4-) links by auto
  show "ring (nx s2) (pv s2) (remove1 x xs)"
    unfolding n q by (rule ring_remove [OF assms(1-3)])
  show "y \<notin> set xs \<Longrightarrow> nx s2 y = nx s y \<and> pv s2 y = pv s y"
    using ring_prev_in [OF assms(1,2)] ring_next_in [OF assms(1,2)] unfolding n q by auto
qed

end

section \<open>Queues with a sentinel\<close>

text \<open>A ring that starts at a sentinel object, with a membership test kept beside the links, which for the
  sentinel itself may say anything. The interface of such a queue: what inserting at the front and deleting do to the ring and to
  the membership.\<close>

definition sentinel_ring :: "('p \<Rightarrow> 'p) \<Rightarrow> ('p \<Rightarrow> 'p) \<Rightarrow> ('p \<Rightarrow> bool) \<Rightarrow> 'p \<Rightarrow> 'p list \<Rightarrow> bool" where
  "sentinel_ring nx pv member a xs \<longleftrightarrow> ring nx pv (a # xs) \<and> (\<forall>x. x \<noteq> a \<longrightarrow> (member x \<longleftrightarrow> x \<in> set xs))"

lemma sentinel_member:
  assumes "sentinel_ring nx pv member a xs"
  shows "x \<noteq> a \<Longrightarrow> member x \<longleftrightarrow> x \<in> set xs" and "a \<notin> set xs" and "distinct xs"
  using assms ring_distinct [of nx pv "a # xs"] by (auto simp: sentinel_ring_def)

locale sentinel_queue = link_fields +
  fixes sentinel :: "'a \<Rightarrow> 'b" and member :: "'a \<Rightarrow> 'b \<Rightarrow> bool"
    and enqueue dequeue :: "'b \<Rightarrow> 'a \<Rightarrow> 'a"
  assumes member_enqueue: "member (enqueue x s) y \<longleftrightarrow> y = x \<or> member s y"
    and member_dequeue: "member (dequeue x s) y \<longleftrightarrow> y \<noteq> x \<and> member s y"
    and sentinel_enqueue: "sentinel (enqueue x s) = sentinel s"
    and sentinel_dequeue: "sentinel (dequeue x s) = sentinel s"
    and enqueue_member: "member s x \<Longrightarrow> enqueue x s = s"
    and dequeue_other: "\<not> member s x \<Longrightarrow> dequeue x s = s"
    and enqueue_ring: "ring (nx s) (pv s) (sentinel s # xs) \<Longrightarrow> x \<notin> set (sentinel s # xs) \<Longrightarrow>
      \<not> member s x \<Longrightarrow> ring (nx (enqueue x s)) (pv (enqueue x s)) (sentinel s # x # xs)"
    and dequeue_ring: "ring (nx s) (pv s) ys \<Longrightarrow> x \<in> set ys \<Longrightarrow> nx s x \<noteq> x \<Longrightarrow>
      member s x \<Longrightarrow> ring (nx (dequeue x s)) (pv (dequeue x s)) (remove1 x ys)"
begin

lemma enqueue_list:
  assumes "sentinel_ring (nx s) (pv s) (member s) (sentinel s) xs" and "x \<noteq> sentinel s"
  shows "sentinel_ring (nx (enqueue x s)) (pv (enqueue x s)) (member (enqueue x s))
     (sentinel (enqueue x s)) (if x \<in> set xs then xs else x # xs)"
  using assms enqueue_member [of s x] enqueue_ring [of s xs x]
  by (auto simp: sentinel_ring_def sentinel_enqueue member_enqueue)

lemma dequeue_list:
  assumes "sentinel_ring (nx s) (pv s) (member s) (sentinel s) xs" and ns: "x \<noteq> sentinel s"
  shows "sentinel_ring (nx (dequeue x s)) (pv (dequeue x s)) (member (dequeue x s))
     (sentinel (dequeue x s)) (remove1 x xs)"
proof (cases "member s x")
  case True
  then have r: "ring (nx s) (pv s) (sentinel s # xs)" and x: "x \<in> set xs"
    using assms by (auto simp: sentinel_ring_def)
  have d: "distinct (sentinel s # xs)" using ring_distinct [OF r] .
  have nx: "nx s x \<noteq> x"
  proof
    assume "nx s x = x"
    then have "set (sentinel s # xs) = {x}" using ring_self_singleton [OF r, of x] x by auto
    with x d show False by auto
  qed
  have "ring (nx (dequeue x s)) (pv (dequeue x s)) (sentinel s # remove1 x xs)"
    using dequeue_ring [OF r _ nx True] x ns by auto
  then show ?thesis using assms d by (auto simp: sentinel_ring_def sentinel_dequeue member_dequeue)
next
  case False
  then have "x \<notin> set xs" using sentinel_member(1) [OF assms] by simp
  then show ?thesis using assms dequeue_other [OF False] by (simp add: remove1_idem)
qed

text \<open>Walking the queue from the sentinel.\<close>

lemma first:
  "sentinel_ring (nx s) (pv s) (member s) (sentinel s) xs \<Longrightarrow>
     nx s (sentinel s) = (if xs = [] then sentinel s else hd xs)"
  by (cases xs) (auto simp: sentinel_ring_def ring_Cons)

lemma after:
  "sentinel_ring (nx s) (pv s) (member s) (sentinel s) (ys @ x # zs) \<Longrightarrow>
     nx s x = (if zs = [] then sentinel s else hd zs)"
  using ring_after [of "nx s" "pv s" "sentinel s # ys" x zs]
  by (auto simp: sentinel_ring_def)

end

end
