(* ===== verification/Queues.thy ===== *)
theory Queues
  imports Kstate Ring_Lists
begin

text \<open>
  The thread queues: the ready queues, the wakeup queue and the send queues of
  \<^verbatim>\<open>include/schedule.h\<close> and the present list of \<^verbatim>\<open>include/tcb.h\<close>. Each operation is the sequence
  of field writes of the C code. The four pairs of link fields are instances of \<open>link_fields\<close>.
\<close>

section \<open>Link fields\<close>

abbreviation rnext :: "kstate \<Rightarrow> tptr \<Rightarrow> tptr" where "rnext s t \<equiv> ready_next (tcbs s t)"
abbreviation rprev :: "kstate \<Rightarrow> tptr \<Rightarrow> tptr" where "rprev s t \<equiv> ready_prev (tcbs s t)"
abbreviation wnext :: "kstate \<Rightarrow> tptr \<Rightarrow> tptr" where "wnext s t \<equiv> wakeup_next (tcbs s t)"
abbreviation wprev :: "kstate \<Rightarrow> tptr \<Rightarrow> tptr" where "wprev s t \<equiv> wakeup_prev (tcbs s t)"
abbreviation pnext :: "kstate \<Rightarrow> tptr \<Rightarrow> tptr" where "pnext s t \<equiv> present_next (tcbs s t)"
abbreviation pprev :: "kstate \<Rightarrow> tptr \<Rightarrow> tptr" where "pprev s t \<equiv> present_prev (tcbs s t)"
abbreviation snext :: "kstate \<Rightarrow> tptr \<Rightarrow> tptr" where "snext s t \<equiv> send_next (tcbs s t)"
abbreviation sprev :: "kstate \<Rightarrow> tptr \<Rightarrow> tptr" where "sprev s t \<equiv> send_prev (tcbs s t)"

abbreviation set_rnext :: "tptr \<Rightarrow> tptr \<Rightarrow> kstate \<Rightarrow> kstate" where
  "set_rnext t v \<equiv> upd_tcb t (\<lambda>c. c\<lparr>ready_next := v\<rparr>)"
abbreviation set_rprev :: "tptr \<Rightarrow> tptr \<Rightarrow> kstate \<Rightarrow> kstate" where
  "set_rprev t v \<equiv> upd_tcb t (\<lambda>c. c\<lparr>ready_prev := v\<rparr>)"
abbreviation set_wnext :: "tptr \<Rightarrow> tptr \<Rightarrow> kstate \<Rightarrow> kstate" where
  "set_wnext t v \<equiv> upd_tcb t (\<lambda>c. c\<lparr>wakeup_next := v\<rparr>)"
abbreviation set_wprev :: "tptr \<Rightarrow> tptr \<Rightarrow> kstate \<Rightarrow> kstate" where
  "set_wprev t v \<equiv> upd_tcb t (\<lambda>c. c\<lparr>wakeup_prev := v\<rparr>)"
abbreviation set_pnext :: "tptr \<Rightarrow> tptr \<Rightarrow> kstate \<Rightarrow> kstate" where
  "set_pnext t v \<equiv> upd_tcb t (\<lambda>c. c\<lparr>present_next := v\<rparr>)"
abbreviation set_pprev :: "tptr \<Rightarrow> tptr \<Rightarrow> kstate \<Rightarrow> kstate" where
  "set_pprev t v \<equiv> upd_tcb t (\<lambda>c. c\<lparr>present_prev := v\<rparr>)"
abbreviation set_snext :: "tptr \<Rightarrow> tptr \<Rightarrow> kstate \<Rightarrow> kstate" where
  "set_snext t v \<equiv> upd_tcb t (\<lambda>c. c\<lparr>send_next := v\<rparr>)"
abbreviation set_sprev :: "tptr \<Rightarrow> tptr \<Rightarrow> kstate \<Rightarrow> kstate" where
  "set_sprev t v \<equiv> upd_tcb t (\<lambda>c. c\<lparr>send_prev := v\<rparr>)"

abbreviation or_queue_state :: "tptr \<Rightarrow> dword_t \<Rightarrow> kstate \<Rightarrow> kstate" where
  "or_queue_state t b \<equiv> upd_tcb t (\<lambda>c. c\<lparr>queue_state := queue_state c OR b\<rparr>)"
abbreviation clear_queue_state :: "tptr \<Rightarrow> dword_t \<Rightarrow> kstate \<Rightarrow> kstate" where
  "clear_queue_state t b \<equiv> upd_tcb t (\<lambda>c. c\<lparr>queue_state := queue_state c AND NOT b\<rparr>)"

definition in_queue :: "dword_t \<Rightarrow> kstate \<Rightarrow> tptr \<Rightarrow> bool" where
  "in_queue b s t \<longleftrightarrow> queue_state (tcbs s t) AND b \<noteq> 0"

section \<open>Operations\<close>

definition MAX_PRIO :: int where "MAX_PRIO = 255"

definition thread_enqueue_ready :: "tptr \<Rightarrow> kstate \<Rightarrow> kstate" where
  "thread_enqueue_ready t s =
     (if \<not> in_queue TS_QUEUE_READY s t then
        let prio = sint (priority (tcbs s t));
            s = (if prio_queue s prio \<noteq> NULL then
                   let tmp = prio_queue s prio;
                       s = set_rnext t tmp s;
                       s = set_rprev t (rprev s tmp) s;
                       s = set_rnext (rprev s t) t s
                   in set_rprev tmp t s
                 else
                   let s = set_rprev t t s;
                       s = set_rnext t t s
                   in s\<lparr>prio_queue := (prio_queue s)(prio := t)\<rparr>);
            s = or_queue_state t TS_QUEUE_READY s
        in if current_max_prio s < prio then s\<lparr>current_max_prio := prio\<rparr> else s
      else s)"

definition thread_dequeue_ready :: "tptr \<Rightarrow> kstate \<Rightarrow> kstate" where
  "thread_dequeue_ready t s =
     (if in_queue TS_QUEUE_READY s t then
        let prio = uint (priority (tcbs s t));
            s = (if rnext s t = t then s\<lparr>prio_queue := (prio_queue s)(prio := NULL)\<rparr>
                 else
                   let s = (if prio_queue s prio = t
                            then s\<lparr>prio_queue := (prio_queue s)(prio := rnext s t)\<rparr> else s);
                       s = set_rnext (rprev s t) (rnext s t) s
                   in set_rprev (rnext s t) (rprev s t) s)
        in clear_queue_state t TS_QUEUE_READY s
      else s)"

definition thread_enqueue_wakeup :: "tptr \<Rightarrow> kstate \<Rightarrow> kstate" where
  "thread_enqueue_wakeup t s =
     (if \<not> in_queue TS_QUEUE_WAKEUP s t then
        let tmp = get_idle_tcb s;
            s = set_wnext t (wnext s tmp) s;
            s = set_wnext tmp t s;
            s = set_wprev t tmp s;
            s = set_wprev (wnext s t) t s
        in or_queue_state t TS_QUEUE_WAKEUP s
      else s)"

definition thread_dequeue_wakeup :: "tptr \<Rightarrow> kstate \<Rightarrow> kstate" where
  "thread_dequeue_wakeup t s =
     (if in_queue TS_QUEUE_WAKEUP s t then
        let s = set_wprev (wnext s t) (wprev s t) s;
            s = set_wnext (wprev s t) (wnext s t) s
        in clear_queue_state t TS_QUEUE_WAKEUP s
      else s)"

definition thread_enqueue_send :: "tptr \<Rightarrow> tptr \<Rightarrow> kstate \<Rightarrow> kstate" where
  "thread_enqueue_send dest from s =
     (if send_queue (tcbs s dest) = NULL then
        let s = upd_tcb dest (\<lambda>c. c\<lparr>send_queue := from\<rparr>) s;
            s = set_sprev from from s
        in set_snext from from s
      else
        let first = send_queue (tcbs s dest);
            s = set_sprev from (sprev s first) s;
            s = set_snext from first s;
            s = set_sprev first from s
        in set_snext (sprev s from) from s)"

definition thread_dequeue_send :: "tptr \<Rightarrow> tptr \<Rightarrow> kstate \<Rightarrow> tptr \<times> kstate" where
  "thread_dequeue_send dest t s =
     (t, if snext s t = t then upd_tcb dest (\<lambda>c. c\<lparr>send_queue := NULL\<rparr>) s
         else
           let s = (if send_queue (tcbs s dest) = t
                    then upd_tcb dest (\<lambda>c. c\<lparr>send_queue := snext s t\<rparr>) s else s);
               s = set_snext (sprev s t) (snext s t) s
           in set_sprev (snext s t) (sprev s t) s)"

definition thread_enqueue_present :: "tptr \<Rightarrow> kstate \<Rightarrow> kstate" where
  "thread_enqueue_present t s =
     (if \<not> in_queue TS_QUEUE_PRESENT s t then
        let idle = get_idle_tcb s;
            s = set_pprev t idle s;
            s = set_pnext t (pnext s idle) s;
            s = set_pnext idle t s;
            s = set_pprev (pnext s t) t s
        in or_queue_state t TS_QUEUE_PRESENT s
      else s)"

definition thread_dequeue_present :: "tptr \<Rightarrow> kstate \<Rightarrow> kstate" where
  "thread_dequeue_present t s =
     (if in_queue TS_QUEUE_PRESENT s t then
        let s = set_pnext (pprev s t) (pnext s t) s;
            s = set_pprev (pnext s t) (pprev s t) s
        in clear_queue_state t TS_QUEUE_PRESENT s
      else s)"

section \<open>The links as instances of the link-field interface\<close>

interpretation ready: link_fields rnext rprev set_rnext set_rprev
  by unfold_locales (auto simp: fun_eq_iff)

interpretation wakeup: link_fields wnext wprev set_wnext set_wprev
  by unfold_locales (auto simp: fun_eq_iff)

interpretation present: link_fields pnext pprev set_pnext set_pprev
  by unfold_locales (auto simp: fun_eq_iff)

interpretation send: link_fields snext sprev set_snext set_sprev
  by unfold_locales (auto simp: fun_eq_iff)

section \<open>Queue membership bits\<close>

lemma in_queue_simps [flag_simps]:
  "in_queue TS_QUEUE_READY s t \<longleftrightarrow> bit (queue_state (tcbs s t)) 0"
  "in_queue TS_QUEUE_PRESENT s t \<longleftrightarrow> bit (queue_state (tcbs s t)) 1"
  "in_queue TS_QUEUE_WAKEUP s t \<longleftrightarrow> bit (queue_state (tcbs s t)) 2"
  "in_queue TS_QUEUE_SEND s t \<longleftrightarrow> bit (queue_state (tcbs s t)) 3"
  by (simp_all add: in_queue_def TS_QUEUE_READY_def TS_QUEUE_PRESENT_def TS_QUEUE_WAKEUP_def
      TS_QUEUE_SEND_def mask_tests)

lemma queue_bits [flag_simps]:
  "bit TS_QUEUE_READY n \<longleftrightarrow> n = 0" "bit TS_QUEUE_PRESENT n \<longleftrightarrow> n = 1"
  "bit TS_QUEUE_WAKEUP n \<longleftrightarrow> n = 2" "bit TS_QUEUE_SEND n \<longleftrightarrow> n = 3"
  unfolding TS_QUEUE_READY_def TS_QUEUE_PRESENT_def TS_QUEUE_WAKEUP_def TS_QUEUE_SEND_def
  by (rule mask_bits)+

lemmas qbit = in_queue_simps queue_bits bit_or_iff bit_and_iff bit_not_iff

section \<open>What the operations leave alone\<close>

text \<open>Two blocks that agree but for the ready links and the ready bit, and likewise for the other
  queues; each operation changes no more than its part of any block.\<close>

definition but_ready :: "tcb_t \<Rightarrow> tcb_t" where
  "but_ready c = c\<lparr>ready_next := 0, ready_prev := 0, queue_state := queue_state c AND NOT TS_QUEUE_READY\<rparr>"

definition but_wakeup :: "tcb_t \<Rightarrow> tcb_t" where
  "but_wakeup c = c\<lparr>wakeup_next := 0, wakeup_prev := 0, queue_state := queue_state c AND NOT TS_QUEUE_WAKEUP\<rparr>"

definition but_present :: "tcb_t \<Rightarrow> tcb_t" where
  "but_present c = c\<lparr>present_next := 0, present_prev := 0, queue_state := queue_state c AND NOT TS_QUEUE_PRESENT\<rparr>"

definition but_send :: "tcb_t \<Rightarrow> tcb_t" where
  "but_send c = c\<lparr>send_queue := 0, send_next := 0, send_prev := 0\<rparr>"

text \<open>The state outside the blocks and the ready queues.\<close>

definition but_sched :: "kstate \<Rightarrow> kstate" where
  "but_sched s = s\<lparr>tcbs := (\<lambda>_. undefined), prio_queue := (\<lambda>_. 0), current_max_prio := 0\<rparr>"

lemma mask_idem [flag_simps]:
  "(q OR b) AND NOT b = q AND NOT b" "(q AND NOT b) AND NOT b = q AND NOT b" for q b :: dword_t
  by (auto intro!: bit_word_eqI simp: bit_and_iff bit_or_iff bit_not_iff)

lemma but_ready_simps [frame_simps]:
  "but_ready (c\<lparr>ready_next := v\<rparr>) = but_ready c"
  "but_ready (c\<lparr>ready_prev := v\<rparr>) = but_ready c"
  "but_ready (c\<lparr>queue_state := queue_state c OR TS_QUEUE_READY\<rparr>) = but_ready c"
  "but_ready (c\<lparr>queue_state := queue_state c AND NOT TS_QUEUE_READY\<rparr>) = but_ready c"
  by (simp_all add: but_ready_def mask_idem)

lemma but_wakeup_simps [frame_simps]:
  "but_wakeup (c\<lparr>wakeup_next := v\<rparr>) = but_wakeup c"
  "but_wakeup (c\<lparr>wakeup_prev := v\<rparr>) = but_wakeup c"
  "but_wakeup (c\<lparr>queue_state := queue_state c OR TS_QUEUE_WAKEUP\<rparr>) = but_wakeup c"
  "but_wakeup (c\<lparr>queue_state := queue_state c AND NOT TS_QUEUE_WAKEUP\<rparr>) = but_wakeup c"
  by (simp_all add: but_wakeup_def mask_idem)

lemma but_present_simps [frame_simps]:
  "but_present (c\<lparr>present_next := v\<rparr>) = but_present c"
  "but_present (c\<lparr>present_prev := v\<rparr>) = but_present c"
  "but_present (c\<lparr>queue_state := queue_state c OR TS_QUEUE_PRESENT\<rparr>) = but_present c"
  "but_present (c\<lparr>queue_state := queue_state c AND NOT TS_QUEUE_PRESENT\<rparr>) = but_present c"
  by (simp_all add: but_present_def mask_idem)

lemma but_send_simps [frame_simps]:
  "but_send (c\<lparr>send_next := v\<rparr>) = but_send c"
  "but_send (c\<lparr>send_prev := v\<rparr>) = but_send c"
  "but_send (c\<lparr>send_queue := v\<rparr>) = but_send c"
  by (simp_all add: but_send_def)

lemma but_sched_simps [frame_simps]:
  "but_sched (upd_tcb t f s) = but_sched s"
  "but_sched (s\<lparr>prio_queue := q\<rparr>) = but_sched s"
  "but_sched (s\<lparr>current_max_prio := m\<rparr>) = but_sched s"
  by (simp_all add: but_sched_def upd_tcb_def)

text \<open>The four blocks of a state that an operation leaves alone, seen through a projection.\<close>

definition keeps :: "(tcb_t \<Rightarrow> tcb_t) \<Rightarrow> kstate \<Rightarrow> kstate \<Rightarrow> bool" where
  "keeps f s s' \<longleftrightarrow> (\<forall>t. f (tcbs s' t) = f (tcbs s t)) \<and> but_sched s' = but_sched s"

lemma keeps_refl [simp]: "keeps f s s"
  by (simp add: keeps_def)

lemma keeps_trans: "keeps f s s' \<Longrightarrow> keeps f s' s'' \<Longrightarrow> keeps f s s''"
  by (simp add: keeps_def)

lemma keeps_upd [frame_simps]:
  "(\<And>c. f (g c) = f c) \<Longrightarrow> keeps f s (upd_tcb t g s') \<longleftrightarrow> keeps f s s'"
  by (auto simp: keeps_def frame_simps)

lemma keeps_sched [frame_simps]:
  "keeps f s (s'\<lparr>prio_queue := q\<rparr>) \<longleftrightarrow> keeps f s s'"
  "keeps f s (s'\<lparr>current_max_prio := m\<rparr>) \<longleftrightarrow> keeps f s s'"
  by (simp_all add: keeps_def frame_simps)

lemma enqueue_ready_keeps: "keeps but_ready s (thread_enqueue_ready t s)"
  by (simp add: thread_enqueue_ready_def Let_def frame_simps)

lemma dequeue_ready_keeps: "keeps but_ready s (thread_dequeue_ready t s)"
  by (simp add: thread_dequeue_ready_def Let_def frame_simps)

lemma enqueue_wakeup_keeps: "keeps but_wakeup s (thread_enqueue_wakeup t s)"
  by (simp add: thread_enqueue_wakeup_def Let_def frame_simps)

lemma dequeue_wakeup_keeps: "keeps but_wakeup s (thread_dequeue_wakeup t s)"
  by (simp add: thread_dequeue_wakeup_def Let_def frame_simps)

lemma enqueue_present_keeps: "keeps but_present s (thread_enqueue_present t s)"
  by (simp add: thread_enqueue_present_def Let_def frame_simps)

lemma dequeue_present_keeps: "keeps but_present s (thread_dequeue_present t s)"
  by (simp add: thread_dequeue_present_def Let_def frame_simps)

lemma enqueue_send_keeps: "keeps but_send s (thread_enqueue_send d t s)"
  by (simp add: thread_enqueue_send_def Let_def frame_simps)

lemma dequeue_send_keeps: "keeps but_send s (snd (thread_dequeue_send d t s))"
  by (simp add: thread_dequeue_send_def Let_def frame_simps)

section \<open>The ready queues as lists\<close>

definition prio_of :: "kstate \<Rightarrow> tptr \<Rightarrow> int" where
  "prio_of s t = uint (priority (tcbs s t))"

abbreviation in_ready :: "kstate \<Rightarrow> tptr \<Rightarrow> bool" where
  "in_ready s t \<equiv> in_queue TS_QUEUE_READY s t"

definition ready_queue :: "kstate \<Rightarrow> int \<Rightarrow> tptr list \<Rightarrow> bool" where
  "ready_queue s p xs \<longleftrightarrow>
     (if xs = [] then prio_queue s p = NULL
      else prio_queue s p = hd xs \<and> ring (rnext s) (rprev s) xs)"

definition ready_inv :: "kstate \<Rightarrow> (int \<Rightarrow> tptr list) \<Rightarrow> bool" where
  "ready_inv s Q \<longleftrightarrow>
     (\<forall>p. 0 \<le> p \<and> p \<le> MAX_PRIO \<longrightarrow> ready_queue s p (Q p)) \<and>
     (\<forall>p t. t \<in> set (Q p) \<longrightarrow> prio_of s t = p) \<and>
     (\<forall>t. in_ready s t \<longleftrightarrow> t \<in> set (Q (prio_of s t))) \<and>
     (\<forall>t. prio_of s t \<le> MAX_PRIO) \<and>
     \<not> in_ready s NULL \<and> \<not> in_ready s (idle_tcb s) \<and>
     (\<forall>p. Q p \<noteq> [] \<longrightarrow> p \<le> current_max_prio s) \<and>
     -1 \<le> current_max_prio s \<and> current_max_prio s \<le> MAX_PRIO"

lemma ready_invI:
  assumes "\<And>p. 0 \<le> p \<Longrightarrow> p \<le> MAX_PRIO \<Longrightarrow> ready_queue s p (Q p)"
    and "\<And>p t. t \<in> set (Q p) \<Longrightarrow> prio_of s t = p"
    and "\<And>t. in_ready s t \<longleftrightarrow> t \<in> set (Q (prio_of s t))" and "\<And>t. prio_of s t \<le> MAX_PRIO"
    and "\<not> in_ready s NULL" and "\<not> in_ready s (idle_tcb s)"
    and "\<And>p. Q p \<noteq> [] \<Longrightarrow> p \<le> current_max_prio s"
    and "-1 \<le> current_max_prio s" and "current_max_prio s \<le> MAX_PRIO"
  shows "ready_inv s Q"
  using assms by (simp add: ready_inv_def)

lemma ready_invD:
  assumes "ready_inv s Q"
  shows "0 \<le> p \<Longrightarrow> p \<le> MAX_PRIO \<Longrightarrow> ready_queue s p (Q p)"
    and "t \<in> set (Q p) \<Longrightarrow> prio_of s t = p"
    and "in_ready s t \<longleftrightarrow> t \<in> set (Q (prio_of s t))" and "prio_of s t \<le> MAX_PRIO"
    and "\<not> in_ready s NULL" and "\<not> in_ready s (idle_tcb s)"
    and "Q p \<noteq> [] \<Longrightarrow> p \<le> current_max_prio s"
    and "-1 \<le> current_max_prio s" and "current_max_prio s \<le> MAX_PRIO"
  using assms by (auto simp: ready_inv_def)

lemma but_ready_eqD:
  assumes "but_ready c = but_ready d"
  shows "priority c = priority d" "thread_state c = thread_state d" "timeslice c = timeslice d"
    "current_timeslice c = current_timeslice d" "absolute_timeout c = absolute_timeout d"
    "wakeup_next c = wakeup_next d" "wakeup_prev c = wakeup_prev d"
    "present_next c = present_next d" "present_prev c = present_prev d"
    "send_next c = send_next d" "send_prev c = send_prev d" "send_queue c = send_queue d"
    "myself c = myself d" "partner c = partner d" "pager c = pager d" "stack c = stack d"
    "resources c = resources d" "space c = space d" "pagedir_cache c = pagedir_cache d"
  using assms by (cases c; cases d; simp add: but_ready_def)+

lemma but_ready_bits:
  assumes "but_ready c = but_ready d" "n \<noteq> 0"
  shows "bit (queue_state c) n = bit (queue_state d) n"
proof -
  have "queue_state c AND NOT TS_QUEUE_READY = queue_state d AND NOT TS_QUEUE_READY"
    using assms(1) by (cases c; cases d; simp add: but_ready_def)
  then have "bit (queue_state c AND NOT TS_QUEUE_READY) n = bit (queue_state d AND NOT TS_QUEUE_READY) n"
    by simp
  with assms(2) show ?thesis by (cases "n < 32") (auto simp: qbit dest: bit_imp_le_length)
qed

lemma keeps_idle: "keeps f s s' \<Longrightarrow> idle_tcb s' = idle_tcb s"
  unfolding keeps_def but_sched_def by (cases s; cases s'; simp)

lemma keeps_ready_prio:
  "keeps but_ready s s' \<Longrightarrow> prio_of s' t = prio_of s t"
  by (simp add: keeps_def prio_of_def) (metis but_ready_eqD(1))

lemma prio_sint: "prio_of s t \<le> MAX_PRIO \<Longrightarrow> sint (priority (tcbs s t)) = prio_of s t"
  unfolding prio_of_def MAX_PRIO_def
  by (simp add: sint_uint signed_take_bit_int_eq_self_iff order_trans [OF _ uint_ge_0])

lemma prio_nonneg: "0 \<le> prio_of s t"
  by (simp add: prio_of_def)

text \<open>Enqueueing appends the thread to the queue of its priority.\<close>

definition enq :: "kstate \<Rightarrow> tptr \<Rightarrow> (int \<Rightarrow> tptr list) \<Rightarrow> int \<Rightarrow> tptr list" where
  "enq s t Q = (if in_ready s t then Q else Q(prio_of s t := Q (prio_of s t) @ [t]))"

definition deq :: "kstate \<Rightarrow> tptr \<Rightarrow> (int \<Rightarrow> tptr list) \<Rightarrow> int \<Rightarrow> tptr list" where
  "deq s t Q = (if in_ready s t then Q(prio_of s t := remove1 t (Q (prio_of s t))) else Q)"

lemma ready_inv_others:
  assumes inv: "ready_inv s Q" and p: "p \<noteq> q"
  shows "set (Q p) \<inter> set (Q q) = {}"
proof -
  have "\<And>t. t \<in> set (Q p) \<Longrightarrow> t \<in> set (Q q) \<Longrightarrow> False"
    using inv p unfolding ready_inv_def by metis
  then show ?thesis by blast
qed

lemma enqueue_ready_ready:
  assumes inv: "ready_inv s Q" and new: "\<not> in_ready s t"
  shows "ready_queue (thread_enqueue_ready t s) (prio_of s t) (Q (prio_of s t) @ [t]) \<and>
    (\<forall>y. y \<notin> set (Q (prio_of s t)) \<longrightarrow> y \<noteq> t \<longrightarrow>
       rnext (thread_enqueue_ready t s) y = rnext s y \<and> rprev (thread_enqueue_ready t s) y = rprev s y) \<and>
    (\<forall>p. p \<noteq> prio_of s t \<longrightarrow> prio_queue (thread_enqueue_ready t s) p = prio_queue s p)"
proof -
  let ?p = "prio_of s t" and ?s' = "thread_enqueue_ready t s"
  have p: "sint (priority (tcbs s t)) = ?p" "0 \<le> ?p" "?p \<le> MAX_PRIO"
    using inv prio_sint [of s t] prio_nonneg [of s t] by (auto simp: ready_inv_def)
  have q: "ready_queue s ?p (Q ?p)" and t: "t \<notin> set (Q ?p)"
    using inv new p by (auto simp: ready_inv_def)
  show ?thesis
  proof (cases "Q ?p = []")
    case True
    then have "prio_queue s ?p = NULL" using q by (simp add: ready_queue_def)
    then show ?thesis
      using True new p(1) by (simp add: thread_enqueue_ready_def ready_queue_def Let_def)
  next
    case False
    then have h: "prio_queue s ?p = hd (Q ?p)" and r: "ring (rnext s) (rprev s) (Q ?p)"
      using q by (auto simp: ready_queue_def)
    have nz: "hd (Q ?p) \<noteq> NULL" using inv False by (metis hd_in_set ready_inv_def)
    define s1 where "s1 = set_rnext t (hd (Q ?p)) s"
    define s2 where "s2 = set_rprev t (rprev s1 (hd (Q ?p))) s1"
    define s3 where "s3 = set_rnext (rprev s2 t) t s2"
    define s4 where "s4 = set_rprev (hd (Q ?p)) t s3"
    have s': "\<And>y. rnext ?s' y = rnext s4 y" "\<And>y. rprev ?s' y = rprev s4 y"
      "prio_queue ?s' = prio_queue s4"
      using new h nz p(1) unfolding thread_enqueue_ready_def Let_def s1_def s2_def s3_def s4_def
      by auto
    note ins = ready.append_next_first [OF r t s1_def s2_def s3_def s4_def]
    have "prio_queue s4 = prio_queue s" by (simp add: s1_def s2_def s3_def s4_def)
    then show ?thesis using ins False h unfolding ready_queue_def s' by auto
  qed
qed


lemma enqueue_ready_bit:
  "in_ready (thread_enqueue_ready t s) u \<longleftrightarrow> u = t \<or> in_ready s u"
  by (auto simp: thread_enqueue_ready_def Let_def qbit)

lemma dequeue_ready_bit:
  "in_ready (thread_dequeue_ready t s) u \<longleftrightarrow> u \<noteq> t \<and> in_ready s u"
  by (auto simp: thread_dequeue_ready_def Let_def qbit)

lemma enqueue_ready_max:
  "current_max_prio (thread_enqueue_ready t s) =
     (if in_ready s t then current_max_prio s
      else max (current_max_prio s) (sint (priority (tcbs s t))))"
  by (auto simp: thread_enqueue_ready_def Let_def)

lemma dequeue_ready_max: "current_max_prio (thread_dequeue_ready t s) = current_max_prio s"
  by (auto simp: thread_dequeue_ready_def Let_def)

lemma ready_queue_cong:
  assumes "prio_queue s' p = prio_queue s p" "\<forall>y\<in>set xs. rnext s' y = rnext s y \<and> rprev s' y = rprev s y"
  shows "ready_queue s' p xs \<longleftrightarrow> ready_queue s p xs"
  using assms ring_cong [of xs "rnext s'" "rnext s" "rprev s'" "rprev s"]
  by (simp add: ready_queue_def)

lemma enqueue_ready_inv:
  assumes inv: "ready_inv s Q" and t: "t \<noteq> NULL" "t \<noteq> idle_tcb s"
  shows "ready_inv (thread_enqueue_ready t s) (enq s t Q)"
proof (cases "in_ready s t")
  case True
  then show ?thesis using inv by (simp add: enq_def thread_enqueue_ready_def)
next
  case False
  let ?s' = "thread_enqueue_ready t s" and ?p = "prio_of s t"
  have k: "keeps but_ready s ?s'" by (rule enqueue_ready_keeps)
  note enq = enqueue_ready_ready [OF inv False]
  have pr: "prio_of ?s' u = prio_of s u" for u by (rule keeps_ready_prio [OF k])
  have Q': "enq s t Q = Q(?p := Q ?p @ [t])" using False by (simp add: enq_def)
  have mx: "current_max_prio ?s' = max (current_max_prio s) ?p"
    using False prio_sint [OF ready_invD(4) [OF inv], of t] by (simp add: enqueue_ready_max)
  show ?thesis
  proof (rule ready_invI)
    fix p assume p: "0 \<le> p" "p \<le> MAX_PRIO"
    show "ready_queue ?s' p ((enq s t Q) p)"
    proof (cases "p = ?p")
      case True
      then show ?thesis using enq Q' by simp
    next
      case ne: False
      have "t \<notin> set (Q p)" using ready_invD(2) [OF inv] ne by blast
      then have "\<forall>y\<in>set (Q p). rnext ?s' y = rnext s y \<and> rprev ?s' y = rprev s y"
        using enq ready_inv_others [OF inv ne] by blast
      then have "ready_queue ?s' p (Q p) \<longleftrightarrow> ready_queue s p (Q p)"
        using enq ne by (intro ready_queue_cong) auto
      then show ?thesis using ready_invD(1) [OF inv p] ne Q' by simp
    qed
  next
    show "u \<in> set ((enq s t Q) p) \<Longrightarrow> prio_of ?s' u = p" for u p
      unfolding Q' pr using ready_invD(2) [OF inv, of u] by (auto split: if_splits)
    show "in_ready ?s' u \<longleftrightarrow> u \<in> set ((enq s t Q) (prio_of ?s' u))" for u
      unfolding Q' pr enqueue_ready_bit using ready_invD(3) [OF inv, of u] by auto
    show "(enq s t Q) p \<noteq> [] \<Longrightarrow> p \<le> current_max_prio ?s'" for p
      unfolding Q' mx using ready_invD(7) [OF inv, of p] by (auto split: if_splits)
    show "\<not> in_ready ?s' NULL" "\<not> in_ready ?s' (idle_tcb ?s')"
      using t ready_invD(5,6) [OF inv] by (auto simp: enqueue_ready_bit keeps_idle [OF k])
  qed (use mx pr ready_invD(4,8,9) [OF inv] in auto)
qed

lemma dequeue_ready_ready:
  assumes inv: "ready_inv s Q" and old: "in_ready s t"
  shows "ready_queue (thread_dequeue_ready t s) (prio_of s t) (remove1 t (Q (prio_of s t))) \<and>
    (\<forall>y. y \<notin> set (Q (prio_of s t)) \<longrightarrow>
       rnext (thread_dequeue_ready t s) y = rnext s y \<and> rprev (thread_dequeue_ready t s) y = rprev s y) \<and>
    (\<forall>p. p \<noteq> prio_of s t \<longrightarrow> prio_queue (thread_dequeue_ready t s) p = prio_queue s p)"
proof -
  let ?p = "prio_of s t" and ?s' = "thread_dequeue_ready t s"
  have t: "t \<in> set (Q ?p)" using ready_invD(3) [OF inv] old by simp
  then have h: "prio_queue s ?p = hd (Q ?p)" and r: "ring (rnext s) (rprev s) (Q ?p)"
    using ready_invD(1) [OF inv prio_nonneg ready_invD(4) [OF inv], of t]
    by (auto simp: ready_queue_def split: if_splits)
  obtain as bs where q: "Q ?p = as @ t # bs" and na: "t \<notin> set as" using t by (meson split_list_first)
  have rt: "ring (rnext s) (rprev s) (t # bs @ as)"
    using ring_swap [of _ _ as "t # bs"] r q by simp
  show ?thesis
  proof (cases "rnext s t = t")
    case True
    then have "Q ?p = [t]" using ring_hd_unique [OF rt] q by simp
    then show ?thesis
      using True old by (simp add: thread_dequeue_ready_def ready_queue_def Let_def prio_of_def)
  next
    case False
    define s1 where "s1 = set_rnext (rprev s t) (rnext s t) s"
    define s2 where "s2 = set_rprev (rnext s1 t) (rprev s1 t) s1"
    have s': "\<And>y. rnext ?s' y = rnext s2 y" "\<And>y. rprev ?s' y = rprev s2 y"
      using old False unfolding thread_dequeue_ready_def Let_def s1_def s2_def by auto
    have pq: "prio_queue ?s' = (if prio_queue s ?p = t then (prio_queue s)(?p := rnext s t) else prio_queue s)"
      using old False unfolding thread_dequeue_ready_def Let_def prio_of_def by auto
    note del = ready.unlink_next_first [OF r t False s1_def s2_def]
    have ne: "bs @ as \<noteq> []" using ring_hd_unique [OF rt] False by simp
    have "prio_queue ?s' ?p = hd (remove1 t (Q ?p))"
    proof (cases as)
      case Nil
      then show ?thesis using h q pq ne ring_next_hd [of "rnext s" "rprev s" t "hd bs" "tl bs"] rt by simp
    next
      case (Cons a as')
      then show ?thesis using h q pq na by (auto simp: remove1_append)
    qed
    moreover have "remove1 t (Q ?p) \<noteq> []" using q na ne by (auto simp: remove1_append)
    ultimately show ?thesis using del pq unfolding ready_queue_def s' by auto
  qed
qed

lemma dequeue_ready_inv:
  assumes inv: "ready_inv s Q"
  shows "ready_inv (thread_dequeue_ready t s) (deq s t Q)"
proof (cases "in_ready s t")
  case False
  then show ?thesis using inv by (simp add: deq_def thread_dequeue_ready_def)
next
  case True
  let ?s' = "thread_dequeue_ready t s" and ?p = "prio_of s t"
  have k: "keeps but_ready s ?s'" by (rule dequeue_ready_keeps)
  note deq = dequeue_ready_ready [OF inv True]
  have pr: "prio_of ?s' u = prio_of s u" for u by (rule keeps_ready_prio [OF k])
  have Q': "deq s t Q = Q(?p := remove1 t (Q ?p))" using True by (simp add: deq_def)
  have ds: "distinct (Q ?p)"
    using ready_invD(1) [OF inv prio_nonneg ready_invD(4) [OF inv], of t]
    by (auto simp: ready_queue_def dest: ring_distinct split: if_splits)
  show ?thesis
  proof (rule ready_invI)
    fix p assume p: "0 \<le> p" "p \<le> MAX_PRIO"
    show "ready_queue ?s' p ((deq s t Q) p)"
    proof (cases "p = ?p")
      case True
      then show ?thesis using deq Q' by simp
    next
      case ne: False
      have "\<forall>y\<in>set (Q p). rnext ?s' y = rnext s y \<and> rprev ?s' y = rprev s y"
        using deq ready_inv_others [OF inv ne] by blast
      then have "ready_queue ?s' p (Q p) \<longleftrightarrow> ready_queue s p (Q p)"
        using deq ne by (intro ready_queue_cong) auto
      then show ?thesis using ready_invD(1) [OF inv p] ne Q' by simp
    qed
  next
    show "u \<in> set ((deq s t Q) p) \<Longrightarrow> prio_of ?s' u = p" for u p
      unfolding Q' pr using ready_invD(2) [OF inv, of u] ds by (auto split: if_splits)
    show "in_ready ?s' u \<longleftrightarrow> u \<in> set ((deq s t Q) (prio_of ?s' u))" for u
      unfolding Q' pr dequeue_ready_bit using ready_invD(3) [OF inv, of u] ds by auto
    show "(deq s t Q) p \<noteq> [] \<Longrightarrow> p \<le> current_max_prio ?s'" for p
      unfolding Q' dequeue_ready_max using ready_invD(7) [OF inv, of p]
      by (cases "Q ?p = []") (auto split: if_splits)
    show "\<not> in_ready ?s' NULL" "\<not> in_ready ?s' (idle_tcb ?s')"
      using ready_invD(5,6) [OF inv] by (auto simp: dequeue_ready_bit keeps_idle [OF k])
  qed (use dequeue_ready_max pr ready_invD(4,8,9) [OF inv] in auto)
qed

section \<open>The wakeup queue and the present list\<close>

interpretation wakeup_queue: sentinel_queue wnext wprev set_wnext set_wprev
    idle_tcb "in_queue TS_QUEUE_WAKEUP" thread_enqueue_wakeup thread_dequeue_wakeup
proof unfold_locales
  fix s :: kstate and x y :: tptr and xs
  show "in_queue TS_QUEUE_WAKEUP (thread_enqueue_wakeup x s) y \<longleftrightarrow> y = x \<or> in_queue TS_QUEUE_WAKEUP s y"
    by (auto simp: thread_enqueue_wakeup_def Let_def qbit)
  show "in_queue TS_QUEUE_WAKEUP (thread_dequeue_wakeup x s) y \<longleftrightarrow> y \<noteq> x \<and> in_queue TS_QUEUE_WAKEUP s y"
    by (auto simp: thread_dequeue_wakeup_def Let_def qbit)
  show "idle_tcb (thread_enqueue_wakeup x s) = idle_tcb s"
    by (rule keeps_idle [OF enqueue_wakeup_keeps])
  show "idle_tcb (thread_dequeue_wakeup x s) = idle_tcb s"
    by (rule keeps_idle [OF dequeue_wakeup_keeps])
  show "in_queue TS_QUEUE_WAKEUP s x \<Longrightarrow> thread_enqueue_wakeup x s = s"
    by (simp add: thread_enqueue_wakeup_def)
  show "\<not> in_queue TS_QUEUE_WAKEUP s x \<Longrightarrow> thread_dequeue_wakeup x s = s"
    by (simp add: thread_dequeue_wakeup_def)
  show "ring (wnext s) (wprev s) (idle_tcb s # xs) \<Longrightarrow> x \<notin> set (idle_tcb s # xs) \<Longrightarrow>
      \<not> in_queue TS_QUEUE_WAKEUP s x \<Longrightarrow>
      ring (wnext (thread_enqueue_wakeup x s)) (wprev (thread_enqueue_wakeup x s)) (idle_tcb s # x # xs)"
    using wakeup.insert_next_first [OF _ _ refl refl refl refl, of s "idle_tcb s" xs x]
    by (auto simp: thread_enqueue_wakeup_def Let_def get_idle_tcb_def elim!: ring_cong [THEN iffD1, rotated 2])
  show "ring (wnext s) (wprev s) xs \<Longrightarrow> x \<in> set xs \<Longrightarrow> wnext s x \<noteq> x \<Longrightarrow>
      in_queue TS_QUEUE_WAKEUP s x \<Longrightarrow>
      ring (wnext (thread_dequeue_wakeup x s)) (wprev (thread_dequeue_wakeup x s)) (remove1 x xs)"
    using wakeup.unlink_prev_first(1) [OF _ _ _ refl refl, of s xs x]
    by (auto simp: thread_dequeue_wakeup_def Let_def elim!: ring_cong [THEN iffD1, rotated 2])
qed

interpretation present_queue: sentinel_queue pnext pprev set_pnext set_pprev
    idle_tcb "in_queue TS_QUEUE_PRESENT" thread_enqueue_present thread_dequeue_present
proof unfold_locales
  fix s :: kstate and x y :: tptr and xs
  show "in_queue TS_QUEUE_PRESENT (thread_enqueue_present x s) y \<longleftrightarrow> y = x \<or> in_queue TS_QUEUE_PRESENT s y"
    by (auto simp: thread_enqueue_present_def Let_def qbit)
  show "in_queue TS_QUEUE_PRESENT (thread_dequeue_present x s) y \<longleftrightarrow> y \<noteq> x \<and> in_queue TS_QUEUE_PRESENT s y"
    by (auto simp: thread_dequeue_present_def Let_def qbit)
  show "idle_tcb (thread_enqueue_present x s) = idle_tcb s"
    by (rule keeps_idle [OF enqueue_present_keeps])
  show "idle_tcb (thread_dequeue_present x s) = idle_tcb s"
    by (rule keeps_idle [OF dequeue_present_keeps])
  show "in_queue TS_QUEUE_PRESENT s x \<Longrightarrow> thread_enqueue_present x s = s"
    by (simp add: thread_enqueue_present_def)
  show "\<not> in_queue TS_QUEUE_PRESENT s x \<Longrightarrow> thread_dequeue_present x s = s"
    by (simp add: thread_dequeue_present_def)
  show "ring (pnext s) (pprev s) (idle_tcb s # xs) \<Longrightarrow> x \<notin> set (idle_tcb s # xs) \<Longrightarrow>
      \<not> in_queue TS_QUEUE_PRESENT s x \<Longrightarrow>
      ring (pnext (thread_enqueue_present x s)) (pprev (thread_enqueue_present x s)) (idle_tcb s # x # xs)"
    using present.insert_prev_first [OF _ _ refl refl refl refl, of s "idle_tcb s" xs x]
    by (auto simp: thread_enqueue_present_def Let_def get_idle_tcb_def elim!: ring_cong [THEN iffD1, rotated 2])
  show "ring (pnext s) (pprev s) xs \<Longrightarrow> x \<in> set xs \<Longrightarrow> pnext s x \<noteq> x \<Longrightarrow>
      in_queue TS_QUEUE_PRESENT s x \<Longrightarrow>
      ring (pnext (thread_dequeue_present x s)) (pprev (thread_dequeue_present x s)) (remove1 x xs)"
    using present.unlink_next_first(1) [OF _ _ _ refl refl, of s xs x]
    by (auto simp: thread_dequeue_present_def Let_def elim!: ring_cong [THEN iffD1, rotated 2])
qed

section \<open>Send queues\<close>

definition send_list :: "kstate \<Rightarrow> tptr \<Rightarrow> tptr list \<Rightarrow> bool" where
  "send_list s d xs \<longleftrightarrow>
     (if xs = [] then send_queue (tcbs s d) = NULL
      else send_queue (tcbs s d) = hd xs \<and> NULL \<notin> set xs \<and> ring (snext s) (sprev s) xs)"

lemma send_list_cong:
  assumes "send_queue (tcbs s' d) = send_queue (tcbs s d)"
    and "\<forall>y\<in>set xs. snext s' y = snext s y \<and> sprev s' y = sprev s y"
  shows "send_list s' d xs \<longleftrightarrow> send_list s d xs"
  using assms ring_cong [of xs "snext s'" "snext s" "sprev s'" "sprev s"]
  by (simp add: send_list_def)

lemma enqueue_send_list:
  assumes q: "send_list s d xs" and t: "t \<notin> set xs" "t \<noteq> NULL"
  shows "send_list (thread_enqueue_send d t s) d (xs @ [t])"
    and "e \<noteq> d \<Longrightarrow> send_list s e ys \<Longrightarrow> set ys \<inter> set (t # xs) = {} \<Longrightarrow>
      send_list (thread_enqueue_send d t s) e ys"
proof -
  let ?s' = "thread_enqueue_send d t s"
  have "send_list ?s' d (xs @ [t]) \<and>
    (\<forall>y. y \<notin> set (t # xs) \<longrightarrow> snext ?s' y = snext s y \<and> sprev ?s' y = sprev s y) \<and>
    (\<forall>e. e \<noteq> d \<longrightarrow> send_queue (tcbs ?s' e) = send_queue (tcbs s e))"
  proof (cases "xs = []")
    case True
    then show ?thesis using q t(2) by (auto simp: send_list_def thread_enqueue_send_def Let_def)
  next
    case False
    then have h: "send_queue (tcbs s d) = hd xs" and z: "NULL \<notin> set xs"
      and r: "ring (snext s) (sprev s) xs" using q by (auto simp: send_list_def)
    have nz: "hd xs \<noteq> NULL" using False z by (metis hd_in_set)
    define s1 where "s1 = set_sprev t (sprev s (hd xs)) s"
    define s2 where "s2 = set_snext t (hd xs) s1"
    define s3 where "s3 = set_sprev (hd xs) t s2"
    define s4 where "s4 = set_snext (sprev s3 t) t s3"
    have s': "?s' = s4"
      using h nz unfolding thread_enqueue_send_def Let_def s1_def s2_def s3_def s4_def by simp
    have "\<And>e. send_queue (tcbs s4 e) = send_queue (tcbs s e)"
      by (simp add: s1_def s2_def s3_def s4_def)
    then show ?thesis
      using send.append_prev_first [OF r t(1) s1_def s2_def s3_def s4_def] False h z t(2)
      unfolding s' send_list_def by auto
  qed
  then show "send_list ?s' d (xs @ [t])"
    and "e \<noteq> d \<Longrightarrow> send_list s e ys \<Longrightarrow> set ys \<inter> set (t # xs) = {} \<Longrightarrow> send_list ?s' e ys"
    by (blast intro: send_list_cong [THEN iffD2])+
qed

lemma dequeue_send_list:
  assumes q: "send_list s d xs" and t: "t \<in> set xs"
  shows "send_list (snd (thread_dequeue_send d t s)) d (remove1 t xs)"
    and "e \<noteq> d \<Longrightarrow> send_list s e ys \<Longrightarrow> set ys \<inter> set xs = {} \<Longrightarrow>
      send_list (snd (thread_dequeue_send d t s)) e ys"
proof -
  let ?s' = "snd (thread_dequeue_send d t s)"
  have h: "send_queue (tcbs s d) = hd xs" and z: "NULL \<notin> set xs"
    and r: "ring (snext s) (sprev s) xs" using q t by (auto simp: send_list_def split: if_splits)
  obtain as bs where xs: "xs = as @ t # bs" and na: "t \<notin> set as" using t by (meson split_list_first)
  have rt: "ring (snext s) (sprev s) (t # bs @ as)"
    using ring_swap [of _ _ as "t # bs"] r xs by simp
  have "send_list ?s' d (remove1 t xs) \<and>
    (\<forall>y. y \<notin> set xs \<longrightarrow> snext ?s' y = snext s y \<and> sprev ?s' y = sprev s y) \<and>
    (\<forall>e. e \<noteq> d \<longrightarrow> send_queue (tcbs ?s' e) = send_queue (tcbs s e))"
  proof (cases "snext s t = t")
    case True
    then have "xs = [t]" using ring_hd_unique [OF rt] xs by simp
    then show ?thesis using True by (simp add: thread_dequeue_send_def send_list_def)
  next
    case False
    define s1 where "s1 = set_snext (sprev s t) (snext s t) s"
    define s2 where "s2 = set_sprev (snext s1 t) (sprev s1 t) s1"
    have s': "\<And>y. snext ?s' y = snext s2 y" "\<And>y. sprev ?s' y = sprev s2 y"
      using False unfolding thread_dequeue_send_def Let_def s1_def s2_def by auto
    have sq: "\<And>e. send_queue (tcbs ?s' e) =
        (if e = d \<and> hd xs = t then snext s t else send_queue (tcbs s e))"
      using False h unfolding thread_dequeue_send_def Let_def by auto
    have ne: "bs @ as \<noteq> []" using ring_hd_unique [OF rt] False by simp
    have "send_queue (tcbs ?s' d) = hd (remove1 t xs)"
    proof (cases as)
      case Nil
      then show ?thesis
        using xs sq ne ring_next_hd [of "snext s" "sprev s" t "hd bs" "tl bs"] rt by simp
    next
      case (Cons a as')
      then show ?thesis using h xs sq na by (auto simp: remove1_append)
    qed
    moreover have "remove1 t xs \<noteq> []" using xs na ne by (auto simp: remove1_append)
    moreover have "NULL \<notin> set (remove1 t xs)" using z by (meson notin_set_remove1)
    ultimately show ?thesis
      using send.unlink_next_first [OF r t False s1_def s2_def] sq unfolding send_list_def s' by auto
  qed
  then show "send_list ?s' d (remove1 t xs)"
    and "e \<noteq> d \<Longrightarrow> send_list s e ys \<Longrightarrow> set ys \<inter> set xs = {} \<Longrightarrow> send_list ?s' e ys"
    by (blast intro: send_list_cong [THEN iffD2])+
qed

section \<open>What the invariants depend on\<close>

lemma ready_inv_cong:
  assumes "ready_inv s Q"
    and "\<And>t. rnext s' t = rnext s t" "\<And>t. rprev s' t = rprev s t"
    and "\<And>t. priority (tcbs s' t) = priority (tcbs s t)" "\<And>t. in_ready s' t = in_ready s t"
    and "prio_queue s' = prio_queue s" "current_max_prio s' = current_max_prio s"
    and "idle_tcb s' = idle_tcb s"
  shows "ready_inv s' Q"
proof -
  have p: "prio_of s' t = prio_of s t" for t using assms(4) by (simp add: prio_of_def)
  have r: "ready_queue s' p (Q p) = ready_queue s p (Q p)" for p
    using assms(2,3,6) by (intro ready_queue_cong) auto
  show ?thesis
    unfolding ready_inv_def assms(5-) p r by (rule assms(1) [unfolded ready_inv_def])
qed

lemma but_wakeup_eqD:
  assumes "but_wakeup c = but_wakeup d"
  shows "priority c = priority d" "thread_state c = thread_state d" "timeslice c = timeslice d"
    "current_timeslice c = current_timeslice d" "absolute_timeout c = absolute_timeout d"
    "ready_next c = ready_next d" "ready_prev c = ready_prev d"
    "present_next c = present_next d" "present_prev c = present_prev d"
    "send_next c = send_next d" "send_prev c = send_prev d" "send_queue c = send_queue d"
    "myself c = myself d" "partner c = partner d" "stack c = stack d" "resources c = resources d"
  using assms by (cases c; cases d; simp add: but_wakeup_def)+

lemma but_wakeup_bits:
  assumes "but_wakeup c = but_wakeup d" "n \<noteq> 2"
  shows "bit (queue_state c) n = bit (queue_state d) n"
proof -
  have "queue_state c AND NOT TS_QUEUE_WAKEUP = queue_state d AND NOT TS_QUEUE_WAKEUP"
    using assms(1) by (cases c; cases d; simp add: but_wakeup_def)
  then have "bit (queue_state c AND NOT TS_QUEUE_WAKEUP) n = bit (queue_state d AND NOT TS_QUEUE_WAKEUP) n"
    by simp
  with assms(2) show ?thesis by (cases "n < 32") (auto simp: qbit dest: bit_imp_le_length)
qed

lemma keeps_tcb: "keeps f s s' \<Longrightarrow> f (tcbs s' t) = f (tcbs s t)"
  by (simp add: keeps_def)

lemma wakeup_keeps_prio_queue:
  "prio_queue (thread_enqueue_wakeup t s) = prio_queue s"
  "prio_queue (thread_dequeue_wakeup t s) = prio_queue s"
  "current_max_prio (thread_enqueue_wakeup t s) = current_max_prio s"
  "current_max_prio (thread_dequeue_wakeup t s) = current_max_prio s"
  by (auto simp: thread_enqueue_wakeup_def thread_dequeue_wakeup_def Let_def)

lemma wakeup_op_ready_inv:
  assumes k: "keeps but_wakeup s s'" and q: "prio_queue s' = prio_queue s"
    "current_max_prio s' = current_max_prio s" and inv: "ready_inv s Q"
  shows "ready_inv s' Q"
proof (rule ready_inv_cong [OF inv])
  fix t
  note c = keeps_tcb [OF k, of t]
  show "rnext s' t = rnext s t" "rprev s' t = rprev s t" "priority (tcbs s' t) = priority (tcbs s t)"
    using but_wakeup_eqD [OF c] by simp_all
  show "in_ready s' t = in_ready s t" using but_wakeup_bits [OF c, of 0] by (simp add: qbit)
qed (use q keeps_idle [OF k] in simp_all)

text \<open>The wakeup queue and the present list as lists, most recently enqueued thread first.\<close>

definition wakeup_inv :: "kstate \<Rightarrow> tptr list \<Rightarrow> bool" where
  "wakeup_inv s ws \<longleftrightarrow>
     sentinel_ring (wnext s) (wprev s) (in_queue TS_QUEUE_WAKEUP s) (idle_tcb s) ws \<and> NULL \<notin> set ws"

definition present_inv :: "kstate \<Rightarrow> tptr list \<Rightarrow> bool" where
  "present_inv s ps \<longleftrightarrow>
     sentinel_ring (pnext s) (pprev s) (in_queue TS_QUEUE_PRESENT s) (idle_tcb s) ps"

lemma wakeup_inv_cong:
  assumes "wakeup_inv s ws" "\<And>t. wnext s' t = wnext s t" "\<And>t. wprev s' t = wprev s t"
    and "\<And>t. in_queue TS_QUEUE_WAKEUP s' t = in_queue TS_QUEUE_WAKEUP s t" "idle_tcb s' = idle_tcb s"
  shows "wakeup_inv s' ws"
  using assms by (simp add: wakeup_inv_def sentinel_ring_def)

lemma ready_op_wakeup_inv:
  assumes k: "keeps but_ready s s'" and inv: "wakeup_inv s ws"
  shows "wakeup_inv s' ws"
proof (rule wakeup_inv_cong [OF inv])
  fix t
  note c = keeps_tcb [OF k, of t]
  show "wnext s' t = wnext s t" "wprev s' t = wprev s t" using but_ready_eqD [OF c] by simp_all
  show "in_queue TS_QUEUE_WAKEUP s' t = in_queue TS_QUEUE_WAKEUP s t"
    using but_ready_bits [OF c, of 2] by (simp add: qbit)
qed (rule keeps_idle [OF k])

lemma dequeue_wakeup_inv:
  "wakeup_inv s ws \<Longrightarrow> t \<noteq> idle_tcb s \<Longrightarrow> wakeup_inv (thread_dequeue_wakeup t s) (remove1 t ws)"
  using wakeup_queue.dequeue_list [of s ws t] by (auto simp: wakeup_inv_def dest: notin_set_remove1)

lemma enqueue_wakeup_inv:
  "wakeup_inv s ws \<Longrightarrow> t \<noteq> idle_tcb s \<Longrightarrow> t \<noteq> NULL \<Longrightarrow>
     wakeup_inv (thread_enqueue_wakeup t s) (if t \<in> set ws then ws else t # ws)"
  using wakeup_queue.enqueue_list [of s ws t] by (auto simp: wakeup_inv_def split: if_splits)

section \<open>Properties\<close>

lemma boot_facts:
  "prio_of (boot_state idle) t = 0" "t \<noteq> idle \<Longrightarrow> \<not> in_queue b (boot_state idle) t"
  "\<not> in_queue TS_QUEUE_READY (boot_state idle) t"
  "idle_tcb (boot_state idle) = idle"
  by (auto simp: boot_state_def prio_of_def zero_tcb_def in_queue_def TS_QUEUE_READY_def TS_QUEUE_PRESENT_def TS_QUEUE_WAKEUP_def)

lemma boot_ready_inv: "idle \<noteq> NULL \<Longrightarrow> ready_inv (boot_state idle) (\<lambda>_. [])"
  by (auto simp: ready_inv_def boot_state_def ready_queue_def in_queue_def prio_of_def MAX_PRIO_def
      zero_tcb_def TS_QUEUE_READY_def TS_QUEUE_PRESENT_def TS_QUEUE_WAKEUP_def)

lemma boot_sentinels:
  "idle \<noteq> NULL \<Longrightarrow> wakeup_inv (boot_state idle) []" "present_inv (boot_state idle) []"
  by (auto simp: wakeup_inv_def present_inv_def sentinel_ring_def boot_state_def in_queue_def zero_tcb_def)

text \<open>Enqueueing appends the thread to the ready queue of its priority, unless it is in a
  ready queue already; the queues stay well-formed and nothing of any block but ready links and
  ready bits changes.\<close>

lemma enqueue_ready_correct:
  assumes "ready_inv s Q" and "t \<noteq> NULL" and "t \<noteq> idle_tcb s"
  shows "let s' = thread_enqueue_ready t s; p = prio_of s t in
    ready_inv s' (Q(p := if in_ready s t then Q p else Q p @ [t])) \<and> keeps but_ready s s' \<and>
    (\<forall>u. in_ready s' u \<longleftrightarrow> u = t \<or> in_ready s u)"
  using enqueue_ready_inv [OF assms] enqueue_ready_keeps [of s t] enqueue_ready_bit [of t s]
  by (auto simp: enq_def Let_def)

text \<open>\<^bold>\<open>C8.\<close> Dequeueing takes the thread, wherever it stands, out of the ready queue of its priority
  and keeps the order of the others; the queues stay well-formed and nothing else changes.\<close>

theorem dequeue_ready_correct:
  assumes "ready_inv s Q"
  shows "let s' = thread_dequeue_ready t s; p = prio_of s t in
    ready_inv s' (Q(p := remove1 t (Q p))) \<and> keeps but_ready s s' \<and>
    (\<forall>u. in_ready s' u \<longleftrightarrow> u \<noteq> t \<and> in_ready s u)"
proof -
  have "\<not> in_ready s t \<Longrightarrow> Q(prio_of s t := remove1 t (Q (prio_of s t))) = Q"
    using ready_invD(3) [OF assms, of t] by (auto simp: remove1_idem fun_eq_iff)
  with dequeue_ready_inv [OF assms, of t] dequeue_ready_keeps [of s t] dequeue_ready_bit [of t s]
  show ?thesis by (auto simp: deq_def Let_def split: if_splits)
qed

theorem dequeue_ready_correct_witness:
  "ready_inv (thread_dequeue_ready 0xE0020000 (thread_enqueue_ready 0xE0020000 (boot_state 0xF0110000)))
     (\<lambda>_. [])"
proof -
  let ?s = "thread_enqueue_ready 0xE0020000 (boot_state 0xF0110000)"
  have "ready_inv ?s (enq (boot_state 0xF0110000) 0xE0020000 (\<lambda>_. []))"
    by (rule enqueue_ready_inv [OF boot_ready_inv]) (simp_all add: boot_facts)
  then have i: "ready_inv ?s ((\<lambda>_. [])(0 := [0xE0020000]))" by (simp add: enq_def boot_facts)
  have "prio_of ?s t = 0" for t
    using keeps_ready_prio [OF enqueue_ready_keeps] by (simp add: boot_facts)
  moreover have "(\<lambda>_. [])(0 := []) = (\<lambda>_ :: int. [] :: tptr list)" by auto
  ultimately show ?thesis using dequeue_ready_correct [OF i, of "0xE0020000"] by (simp add: Let_def)
qed

text \<open>Send queues are first-in first-out: after a sender is enqueued and the first one is
  dequeued, the queue is the rest of the old queue followed by the new sender. The send queue of
  another destination that shares no thread with it is left alone, and so is everything of the
  blocks but the send links.\<close>

lemma send_queue_fifo:
  assumes q: "send_list s d (x # xs)" and t: "t \<notin> set (x # xs)" "t \<noteq> NULL"
    and e: "e \<noteq> d" "send_list s e ys" "set ys \<inter> set (t # x # xs) = {}"
  shows "let s' = snd (thread_dequeue_send d x (thread_enqueue_send d t s)) in
    send_list s' d (xs @ [t]) \<and> send_list s' e ys \<and> keeps but_send s s'"
proof -
  let ?s1 = "thread_enqueue_send d t s"
  have 1: "send_list ?s1 d (x # xs @ [t])" "send_list ?s1 e ys"
    using enqueue_send_list [OF q t] e by auto
  have "send_list (snd (thread_dequeue_send d x ?s1)) d (xs @ [t])"
    using dequeue_send_list(1) [OF 1(1), of x] by simp
  moreover have "send_list (snd (thread_dequeue_send d x ?s1)) e ys"
    using dequeue_send_list(2) [OF 1(1), of x e ys] e 1(2) by auto
  moreover have "keeps but_send s (snd (thread_dequeue_send d x ?s1))"
    using keeps_trans [OF enqueue_send_keeps dequeue_send_keeps] by blast
  ultimately show ?thesis by (simp add: Let_def)
qed

text \<open>The wakeup queue and the present list are rings through the idle thread with membership
  bits: enqueueing puts a new thread first, dequeueing removes exactly the thread, either is
  without effect on a member and on a non-member respectively, and both keep the ready queues.\<close>

theorem wakeup_present_correct:
  assumes "wakeup_inv s ws" and "present_inv s ps" and "ready_inv s Q"
    and "t \<noteq> idle_tcb s" and "t \<noteq> NULL"
  shows "wakeup_inv (thread_enqueue_wakeup t s) (if t \<in> set ws then ws else t # ws) \<and>
    wakeup_inv (thread_dequeue_wakeup t s) (remove1 t ws) \<and>
    present_inv (thread_enqueue_present t s) (if t \<in> set ps then ps else t # ps) \<and>
    present_inv (thread_dequeue_present t s) (remove1 t ps) \<and>
    ready_inv (thread_enqueue_wakeup t s) Q \<and> ready_inv (thread_dequeue_wakeup t s) Q"
proof -
  have "ready_inv (thread_enqueue_wakeup t s) Q" "ready_inv (thread_dequeue_wakeup t s) Q"
    by (rule wakeup_op_ready_inv [OF _ _ _ assms(3)];
        simp add: enqueue_wakeup_keeps dequeue_wakeup_keeps wakeup_keeps_prio_queue)+
  then show ?thesis
    using assms enqueue_wakeup_inv [OF assms(1,4,5)] dequeue_wakeup_inv [OF assms(1,4)]
      present_queue.enqueue_list [of s ps t] present_queue.dequeue_list [of s ps t]
    by (simp add: present_inv_def)
qed

theorem wakeup_present_correct_witness:
  "wakeup_inv (thread_enqueue_wakeup 0xE0020000 (boot_state 0xF0110000)) [0xE0020000] \<and>
   present_inv (thread_enqueue_present 0xE0020000 (boot_state 0xF0110000)) [0xE0020000]"
proof -
  have i: "idle_tcb (boot_state 0xF0110000) = 0xF0110000" by (simp add: boot_state_def)
  from wakeup_present_correct [OF boot_sentinels(1) boot_sentinels(2) boot_ready_inv,
      of "0xF0110000" "0xE0020000"] i show ?thesis by simp
qed

end
