(* ===== verification/Schedule.thy ===== *)
theory Schedule
  imports Queues "HOL-Library.Monad_Syntax"
begin

text \<open>
  The scheduler, \<^verbatim>\<open>src/schedule.c\<close>, with the thread switch of \<^verbatim>\<open>include/x86/thread.h\<close> and the
  thread resources of \<^verbatim>\<open>src/x86/resources.c\<close>. The loops that follow queue links are
  \<open>partial_function (option)\<close>: a corrupt queue could send them round for ever; on well-formed
  queues they are proved to return. A thread switch ends the modelled function at the point
  where the processor goes on with the other thread; what the old thread does when it is
  switched to again is \<open>switch_resume\<close>.
\<close>

section \<open>Thread resources\<close>

definition MEM_COPYAREA1 :: dword_t where "MEM_COPYAREA1 = 0xE2000000"
definition MEM_COPYAREA2 :: dword_t where "MEM_COPYAREA2 = MEM_COPYAREA1 + push_bit 22 1 * 2"

definition pagedir :: "ptr_t \<Rightarrow> ptr_t" where
  "pagedir sp = phys_to_virt sp"

definition save_debug_regs :: "tptr \<Rightarrow> kstate \<Rightarrow> kstate" where
  "save_debug_regs t s =
     upd_tcb t (\<lambda>c. c\<lparr>dbg := (dbg c)(0 := dr s 0, 1 := dr s 1, 2 := dr s 2, 3 := dr s 3,
                                        6 := dr s 6, 7 := dr s 7)\<rparr>) s"

definition load_debug_regs :: "tptr \<Rightarrow> kstate \<Rightarrow> kstate" where
  "load_debug_regs t s =
     (let d = dbg (tcbs s t)
      in s\<lparr>dr := (dr s)(0 := d 0, 1 := d 1, 2 := d 2, 3 := d 3, 6 := d 6, 7 := d 7)\<rparr>)"

text \<open>Flushing the TLB has no effect on the modelled state.\<close>

definition save_resources :: "tptr \<Rightarrow> tptr \<Rightarrow> kstate \<Rightarrow> kstate" where
  "save_resources cur dest s =
     (let s = (if resources (tcbs s cur) AND TR_DEBUG_REGS \<noteq> 0 then
                 let s = save_debug_regs cur s in s\<lparr>dr := (dr s)(7 := 0)\<rparr>
               else s);
          s = (if resources (tcbs s cur) AND TR_FPU \<noteq> 0 then
                 upd_tcb cur (\<lambda>c. c\<lparr>resources := resources c AND NOT TR_FPU\<rparr>) (s\<lparr>fpu_on := False\<rparr>)
               else s)
      in if resources (tcbs s cur) AND TR_IPC_MEM \<noteq> 0 then
           let pgdir = pagedir (space (tcbs s cur));
               s = set_mem (pgdir + 4 * pgdir_idx MEM_COPYAREA1) 0 s;
               s = set_mem (pgdir + 4 * (pgdir_idx MEM_COPYAREA1 + 1)) 0 s;
               s = set_mem (pgdir + 4 * pgdir_idx MEM_COPYAREA2) 0 s;
               s = set_mem (pgdir + 4 * (pgdir_idx MEM_COPYAREA2 + 1)) 0 s
           in upd_tcb cur (\<lambda>c. c\<lparr>resources := resources c AND NOT TR_IPC_MEM\<rparr>) s
         else s)"

definition load_resources :: "tptr \<Rightarrow> kstate \<Rightarrow> kstate" where
  "load_resources cur s =
     (if resources (tcbs s cur) AND TR_DEBUG_REGS \<noteq> 0 then load_debug_regs cur s else s)"

text \<open>The state of the floating point unit itself is not modelled: \<^verbatim>\<open>save_fpu_state\<close> only stores
  it in the buffer the thread owns.\<close>

definition purge_resources :: "tptr \<Rightarrow> kstate \<Rightarrow> kstate" where
  "purge_resources t s = (if fpu_owner s = t then s\<lparr>fpu_owner := NULL\<rparr> else s)"

definition init_resources :: "tptr \<Rightarrow> kstate \<Rightarrow> kstate" where
  "init_resources t s = upd_tcb t (\<lambda>c. c\<lparr>fpu_ptr := NULL\<rparr>) s"

definition X86_FLOATING_POINT_ALLOC_SIZE :: dword_t where
  "X86_FLOATING_POINT_ALLOC_SIZE = 0x400"

definition free_resources :: "tptr \<Rightarrow> kstate \<Rightarrow> kstate option" where
  "free_resources t s =
     do {
       s \<leftarrow> (if fpu_ptr (tcbs s t) \<noteq> NULL then
               map_option (upd_tcb t (\<lambda>c. c\<lparr>fpu_ptr := NULL\<rparr>))
                 (kmem_free (fpu_ptr (tcbs s t)) X86_FLOATING_POINT_ALLOC_SIZE s)
             else Some s);
       Some (if fpu_owner s = t then s\<lparr>fpu_owner := NULL\<rparr> else s)
     }"

section \<open>Switching threads\<close>

text \<open>The switch pushes the frame pointer and the resume address, stores the stack pointer in
  the old block, and takes stack pointer and page directory from the new one, popping the address
  where the new thread goes on. (Reloading an unchanged page directory register is skipped by the
  code and makes no difference here.)\<close>

definition switch_to_thread :: "tptr \<Rightarrow> tptr \<Rightarrow> kstate \<Rightarrow> kstate" where
  "switch_to_thread t cur s =
     (let s = (if resources (tcbs s cur) \<noteq> 0 then save_resources cur t s else s);
          s = s\<lparr>tss_esp0 := get_tcb_stack_top t\<rparr>;
          s = upd_tcb cur (\<lambda>c. c\<lparr>stack := esp s - 8\<rparr>) s
      in s\<lparr>esp := stack (tcbs s t) + 4, cr3 := pagedir_cache (tcbs s t), current := t\<rparr>)"

definition switch_resume :: "tptr \<Rightarrow> kstate \<Rightarrow> kstate" where
  "switch_resume cur s =
     (if resources (tcbs s cur) \<noteq> 0 then load_resources cur s else s)"

definition switch_to_idle :: "tptr \<Rightarrow> kstate \<Rightarrow> kstate" where
  "switch_to_idle cur s =
     (let idle = get_idle_tcb s;
          s = (if resources (tcbs s cur) \<noteq> 0 then save_resources cur idle s else s);
          s = upd_tcb idle (\<lambda>c. c\<lparr>pagedir_cache := pagedir_cache (tcbs s cur)\<rparr>) s;
          s = upd_tcb cur (\<lambda>c. c\<lparr>stack := esp s - 8\<rparr>) s
      in s\<lparr>esp := stack (tcbs s idle) + 4, current := idle\<rparr>)"

definition dispatch_thread :: "tptr \<Rightarrow> kstate \<Rightarrow> kstate" where
  "dispatch_thread t s =
     (let cur = get_current_tcb s in
      if t = cur then s
      else if t = get_idle_tcb s then switch_to_idle cur s
      else
        let s = (if in_queue TS_QUEUE_READY s t
                 then s\<lparr>prio_queue := (prio_queue s)(uint (priority (tcbs s t)) := t)\<rparr> else s)
        in switch_to_thread t cur s)"

section \<open>Choosing the next thread\<close>

definition runnable :: "kstate \<Rightarrow> tptr \<Rightarrow> bool" where
  "runnable s t \<longleftrightarrow> IS_RUNNING (tcbs s t) \<and> 0 <s timeslice (tcbs s t)"

partial_function (option) find_in_queue :: "int \<Rightarrow> tptr \<Rightarrow> kstate \<Rightarrow> (tptr option \<times> kstate) option" where
  "find_in_queue i t s =
     (if t \<noteq> NULL then
        let t = rnext s t in
        if runnable s t
        then Some (Some t, s\<lparr>prio_queue := (prio_queue s)(i := t), current_max_prio := i\<rparr>)
        else let s = thread_dequeue_ready t s in find_in_queue i (prio_queue s i) s
      else Some (None, s))"

function find_from :: "int \<Rightarrow> kstate \<Rightarrow> (tptr \<times> kstate) option" where
  "find_from i s =
     (if i \<ge> 0 then
        case find_in_queue i (prio_queue s i) s of
          None \<Rightarrow> None
        | Some (Some t, s) \<Rightarrow> Some (t, s)
        | Some (None, s) \<Rightarrow> find_from (i - 1) s
      else Some (get_idle_tcb s, s\<lparr>current_max_prio := -1\<rparr>))"
  by pat_completeness auto
termination
  by (relation "measure (\<lambda>(i, s). nat (i + 1))") auto

declare find_from.simps [simp del]

definition find_next_thread :: "kstate \<Rightarrow> (tptr \<times> kstate) option" where
  "find_next_thread s = find_from (current_max_prio s) s"

section \<open>Timeouts and the timer\<close>

definition TIME_QUANTUM :: dword_t where "TIME_QUANTUM = 1953"

partial_function (option) parse_wakeup_loop ::
    "qword_t \<Rightarrow> dword_t \<Rightarrow> tptr \<Rightarrow> tptr \<Rightarrow> kstate \<Rightarrow> (tptr \<times> kstate) option" where
  "parse_wakeup_loop current_time current_prio highest_wakeup t s =
     (if t \<noteq> get_idle_tcb s then
        if absolute_timeout (tcbs s t) \<le> current_time then
          let (current_prio, highest_wakeup) =
                (if priority (tcbs s t) > current_prio then (priority (tcbs s t), t)
                 else (current_prio, highest_wakeup));
              tmp = wnext s t;
              s = thread_dequeue_wakeup t s;
              s = upd_tcb t (\<lambda>c. c\<lparr>thread_state := TS_RUNNING\<rparr>) s;
              s = thread_enqueue_ready t s
          in parse_wakeup_loop current_time current_prio highest_wakeup tmp s
        else parse_wakeup_loop current_time current_prio highest_wakeup (wnext s t) s
      else Some (highest_wakeup, s))"

definition parse_wakeup_queue :: "dword_t \<Rightarrow> qword_t \<Rightarrow> kstate \<Rightarrow> (tptr \<times> kstate) option" where
  "parse_wakeup_queue current_prio current_time s =
     parse_wakeup_loop current_time current_prio NULL (wnext s (get_idle_tcb s)) s"

definition handle_timer_interrupt :: "kstate \<Rightarrow> kstate option" where
  "handle_timer_interrupt s =
     (let s = s\<lparr>clock := clock s + ucast TIME_QUANTUM\<rparr>;
          cur = get_current_tcb s in
      do {
        (wakeup, s) \<leftarrow> parse_wakeup_queue (priority (tcbs s cur)) (clock s) s;
        let s = upd_tcb cur (\<lambda>c. c\<lparr>current_timeslice := current_timeslice c - TIME_QUANTUM\<rparr>) s;
        let s = (if cur \<noteq> get_idle_tcb s then thread_enqueue_ready cur s else s);
        if wakeup \<noteq> NULL then Some (dispatch_thread wakeup s)
        else if current_timeslice (tcbs s cur) \<le>s 0 then
          do {
            let s = upd_tcb cur (\<lambda>c. c\<lparr>current_timeslice := timeslice c\<rparr>) s;
            (t, s) \<leftarrow> find_next_thread s;
            Some (dispatch_thread t s)
          }
        else Some s
      })"

section \<open>System calls\<close>

definition sys_thread_switch :: "l4_threadid_t \<Rightarrow> kstate \<Rightarrow> kstate option" where
  "sys_thread_switch tid s =
     (let s = thread_enqueue_ready (get_current_tcb s) s;
          t = tid_to_tcb tid in
      do {
        (t, s) \<leftarrow> (if \<not> (\<not> l4_is_nil_id tid \<and> myself (tcbs s t) = tid \<and> IS_RUNNING (tcbs s t))
                   then find_next_thread s else Some (t, s));
        Some (if t \<noteq> get_current_tcb s then dispatch_thread t s else s)
      })"

text \<open>The parameter word of \<^verbatim>\<open>sys_schedule\<close>: the priority is its low byte. Of the returned old
  parameters the code sets only the priority; the other bits are those of an uninitialised
  variable, here the argument \<open>junk\<close>.\<close>

definition param_prio :: "dword_t \<Rightarrow> dword_t" where
  "param_prio p = p AND mask 8"

definition set_param_prio :: "dword_t \<Rightarrow> dword_t \<Rightarrow> dword_t" where
  "set_param_prio p v = (p AND NOT (mask 8)) OR (v AND mask 8)"

definition INVALID_SCHED_PARAM :: dword_t where "INVALID_SCHED_PARAM = 0xffffffff"

definition sys_schedule :: "dword_t \<Rightarrow> dword_t \<Rightarrow> l4_threadid_t \<Rightarrow> kstate \<Rightarrow> dword_t \<times> kstate" where
  "sys_schedule junk param tid s =
     (let t = tid_to_tcb tid in
      if myself (tcbs s t) \<noteq> tid then (INVALID_SCHED_PARAM, s)
      else
        let oldparam = set_param_prio junk (priority (tcbs s t));
            s = (if param = NOT 0 then s
                 else if param_prio param \<noteq> priority (tcbs s t) then
                   if in_queue TS_QUEUE_READY s t then
                     let s = thread_dequeue_ready t s;
                         s = upd_tcb t (\<lambda>c. c\<lparr>priority := param_prio param\<rparr>) s
                     in thread_enqueue_ready t s
                   else upd_tcb t (\<lambda>c. c\<lparr>priority := param_prio param\<rparr>) s
                 else s)
        in (oldparam, s))"

text \<open>The idle thread clears the ready queues and then loops; \<open>idle_step\<close> is one turn of its loop.\<close>

definition init_prio_queues :: "kstate \<Rightarrow> kstate" where
  "init_prio_queues s =
     s\<lparr>prio_queue := (\<lambda>i. if 0 \<le> i \<and> i < MAX_PRIO then NULL else prio_queue s i),
       current_max_prio := -1\<rparr>"

definition idle_step :: "kstate \<Rightarrow> kstate option" where
  "idle_step s =
     do {
       (next, s) \<leftarrow> find_next_thread s;
       Some (if next \<noteq> get_idle_tcb s then dispatch_thread next s else s)
     }"

section \<open>The search for the next thread\<close>

lemma keeps_runnable: "keeps but_ready s s' \<Longrightarrow> runnable s' = runnable s"
  using but_ready_eqD(2,3) [OF keeps_tcb [of but_ready s s']]
  by (simp add: fun_eq_iff runnable_def IS_RUNNING_def)

lemma ready_inv_rotate:
  assumes inv: "ready_inv s Q" and q: "Q i = as @ y # bs" and i: "0 \<le> i" "i \<le> MAX_PRIO"
  shows "ready_inv (s\<lparr>prio_queue := (prio_queue s)(i := y)\<rparr>) (Q(i := y # bs @ as))"
proof (rule ready_invI)
  let ?s = "s\<lparr>prio_queue := (prio_queue s)(i := y)\<rparr>" and ?Q = "Q(i := y # bs @ as)"
  have same: "set (?Q p) = set (Q p)" "?Q p = [] \<longleftrightarrow> Q p = []" for p using q by auto
  have pr: "prio_of ?s t = prio_of s t" "in_ready ?s t = in_ready s t" for t
    by (simp_all add: prio_of_def in_queue_def)
  show "ready_queue ?s p (?Q p)" if "0 \<le> p" "p \<le> MAX_PRIO" for p
  proof (cases "p = i")
    case True
    then show ?thesis
      using ready_invD(1) [OF inv i] q ring_swap [of "rnext s" "rprev s" as "y # bs"]
      by (simp add: ready_queue_def)
  next
    case False
    then show ?thesis using ready_invD(1) [OF inv that] by (simp add: ready_queue_def)
  qed
  show "t \<in> set (?Q p) \<Longrightarrow> prio_of ?s t = p" for p t
    unfolding same pr by (rule ready_invD(2) [OF inv])
  show "in_ready ?s t \<longleftrightarrow> t \<in> set (?Q (prio_of ?s t))" for t
    unfolding same pr by (rule ready_invD(3) [OF inv])
  show "?Q p \<noteq> [] \<Longrightarrow> p \<le> current_max_prio ?s" for p
    unfolding same using ready_invD(7) [OF inv, of p] by simp
qed (use ready_invD(4-6,8,9) [OF inv] in \<open>auto simp: prio_of_def in_queue_def\<close>)

lemma find_in_queue_spec:
  assumes "ready_inv s Q" and i: "0 \<le> i" "i \<le> MAX_PRIO"
  defines "ys \<equiv> dropWhile (\<lambda>t. \<not> runnable s t) (rotate1 (Q i))"
  shows "\<exists>s'. keeps but_ready s s' \<and> ready_inv s' (Q(i := ys)) \<and>
     current_max_prio s' = current_max_prio s \<and>
     find_in_queue i (prio_queue s i) s =
       Some (if ys = [] then (None, s') else (Some (hd ys), s'\<lparr>current_max_prio := i\<rparr>))"
  using assms(1) unfolding ys_def
proof (induction "length (Q i)" arbitrary: s Q rule: less_induct)
  case less
  note inv = less.prems
  note rq = ready_invD(1) [OF inv i]
  show ?case
  proof (cases "Q i")
    case Nil
    then have "prio_queue s i = NULL" using rq by (simp add: ready_queue_def)
    moreover have "Q(i := []) = Q" using Nil by auto
    ultimately show ?thesis
      using inv Nil by (intro exI [of _ s]) (subst find_in_queue.simps, simp)
  next
    case (Cons x xs)
    then have h: "prio_queue s i = x" and r: "ring (rnext s) (rprev s) (x # xs)"
      using rq by (auto simp: ready_queue_def)
    have nz: "x \<noteq> NULL"
      using ready_invD(2,3,5) [OF inv] Cons by (metis list.set_intros(1))
    define y where "y = rnext s x"
    obtain as bs where q: "Q i = as @ y # bs" and rot: "rotate1 (Q i) = y # bs @ as"
      and as: "as = (if xs = [] then [] else [x])" and bs: "bs = tl xs"
      using Cons r by (cases xs) (auto simp: y_def ring_Cons)
    show ?thesis
    proof (cases "runnable s y")
      case True
      define s' where "s' = s\<lparr>prio_queue := (prio_queue s)(i := y)\<rparr>"
      have "ready_inv s' (Q(i := y # bs @ as))" unfolding s'_def by (rule ready_inv_rotate [OF inv q i])
      then show ?thesis
        using True rot h nz
        by (intro exI [of _ s']) (subst find_in_queue.simps, simp add: Let_def y_def s'_def frame_simps)
    next
      case False
      let ?s = "thread_dequeue_ready y s"
      have y: "y \<in> set (Q i)" using q by simp
      then have py: "prio_of s y = i" using ready_invD(2) [OF inv] by blast
      then have ry: "in_ready s y" using ready_invD(3) [OF inv] y by simp
      have k: "keeps but_ready s ?s" by (rule dequeue_ready_keeps)
      have inv': "ready_inv ?s (Q(i := remove1 y (Q i)))"
        using dequeue_ready_inv [OF inv, of y] ry py by (simp add: deq_def)
      have "distinct (Q i)" using r Cons ring_distinct by metis
      then have rm: "rotate1 (remove1 y (Q i)) = bs @ as"
        using q as bs Cons by (cases xs) (auto simp: remove1_append)
      have "length (remove1 y (Q i)) < length (Q i)" using y length_pos_if_in_set [OF y] by (simp add: length_remove1)
      from less.hyps [OF _ inv'] this k rm obtain s' where s':
        "keeps but_ready ?s s'" "ready_inv s' (Q(i := dropWhile (\<lambda>t. \<not> runnable s t) (bs @ as)))"
        "current_max_prio s' = current_max_prio ?s"
        "find_in_queue i (prio_queue ?s i) ?s =
          Some (if dropWhile (\<lambda>t. \<not> runnable s t) (bs @ as) = [] then (None, s')
            else (Some (hd (dropWhile (\<lambda>t. \<not> runnable s t) (bs @ as))), s'\<lparr>current_max_prio := i\<rparr>))"
        by (auto simp: keeps_runnable [OF k])
      then show ?thesis
        using False rot h nz k
        by (intro exI [of _ s']) (subst find_in_queue.simps,
            simp add: Let_def y_def dequeue_ready_max keeps_trans [OF k])
    qed
  qed
qed


text \<open>The queue that holds the next thread, and the ready queues after the search.\<close>

definition has_runnable :: "kstate \<Rightarrow> tptr list \<Rightarrow> bool" where
  "has_runnable s xs \<longleftrightarrow> (\<exists>t\<in>set xs. runnable s t)"

definition searched :: "kstate \<Rightarrow> int \<Rightarrow> (int \<Rightarrow> tptr list) \<Rightarrow> int \<Rightarrow> tptr list" where
  "searched s p Q = (\<lambda>q. if q > p then []
     else if q = p then dropWhile (\<lambda>t. \<not> runnable s t) (rotate1 (Q p)) else Q q)"

lemma dropWhile_has_runnable:
  "dropWhile (\<lambda>t. \<not> runnable s t) (rotate1 xs) = [] \<longleftrightarrow> \<not> has_runnable s xs"
  by (auto simp: dropWhile_eq_Nil_conv has_runnable_def)

lemma ready_inv_max:
  assumes "ready_inv s Q" "\<And>p. i < p \<Longrightarrow> Q p = []" "-1 \<le> i" "i \<le> MAX_PRIO"
  shows "ready_inv (s\<lparr>current_max_prio := i\<rparr>) Q"
proof (rule ready_invI)
  let ?s = "s\<lparr>current_max_prio := i\<rparr>"
  have same: "prio_of ?s t = prio_of s t" "in_ready ?s t = in_ready s t"
    "ready_queue ?s p xs = ready_queue s p xs" for t p xs
    by (simp_all add: prio_of_def in_queue_def ready_queue_def)
  show "in_ready ?s t \<longleftrightarrow> t \<in> set (Q (prio_of ?s t))" for t
    unfolding same by (rule ready_invD(3) [OF assms(1)])
  show "\<not> in_ready ?s NULL" "\<not> in_ready ?s (idle_tcb ?s)"
    unfolding same using ready_invD(5,6) [OF assms(1)] by simp_all
  show "p \<le> current_max_prio ?s" if "Q p \<noteq> []" for p
    using that assms(2) [of p] by (cases "i < p") auto
qed (use assms(3,4) ready_invD(1,2,4) [OF assms(1)] in
    \<open>auto simp: prio_of_def in_queue_def ready_queue_def\<close>)

text \<open>What a finished search has established: the result is the first runnable thread after the
  head of the highest queue with a runnable thread, or the idle thread when there is none.\<close>

definition next_found :: "kstate \<Rightarrow> (int \<Rightarrow> tptr list) \<Rightarrow> tptr \<Rightarrow> kstate \<Rightarrow> bool" where
  "next_found s Q t s' \<longleftrightarrow> keeps but_ready s s' \<and>
    (if t = idle_tcb s then (\<forall>p. \<not> has_runnable s (Q p)) \<and> ready_inv s' (\<lambda>_. [])
     else \<exists>p. 0 \<le> p \<and> (\<forall>q>p. \<not> has_runnable s (Q q)) \<and> has_runnable s (Q p) \<and>
       t = hd (dropWhile (\<lambda>t. \<not> runnable s t) (rotate1 (Q p))) \<and> ready_inv s' (searched s p Q) \<and>
       current_max_prio s' = p)"

lemma next_found_here:
  assumes inv: "ready_inv s Q" "ready_inv s1 (Q(i := ys))" and k: "keeps but_ready s s1"
    and above: "\<And>p. i < p \<Longrightarrow> Q p = []" and i: "0 \<le> i" "i \<le> MAX_PRIO"
    and ys: "ys = dropWhile (\<lambda>t. \<not> runnable s t) (rotate1 (Q i))" "ys \<noteq> []"
  shows "next_found s Q (hd ys) (s1\<lparr>current_max_prio := i\<rparr>)"
proof -
  have Q': "Q(i := ys) = searched s i Q" using above ys(1) by (auto simp: searched_def fun_eq_iff)
  have "ready_inv (s1\<lparr>current_max_prio := i\<rparr>) (searched s i Q)"
    using ready_inv_max [OF inv(2)] i above unfolding Q' by (auto simp: searched_def)
  moreover have "hd ys \<noteq> idle_tcb s"
  proof
    have "hd ys \<in> set (Q i)" using ys by (metis hd_in_set set_dropWhileD set_rotate1)
    moreover assume "hd ys = idle_tcb s"
    ultimately show False using ready_invD(2,3,6) [OF inv(1)] by metis
  qed
  moreover have "has_runnable s (Q i)" using ys dropWhile_has_runnable by blast
  moreover have "\<forall>q>i. \<not> has_runnable s (Q q)" using above by (simp add: has_runnable_def)
  ultimately show ?thesis
    using k i ys(1) unfolding next_found_def
    by (auto simp: frame_simps intro!: exI [of _ i])
qed

lemma next_found_below:
  assumes k: "keeps but_ready s s1" and above: "\<And>p. i < p \<Longrightarrow> Q p = []"
    and none: "\<not> has_runnable s (Q i)" and found: "next_found s1 (Q(i := [])) t s'"
  shows "next_found s Q t s'"
proof -
  have hr: "has_runnable s1 = has_runnable s"
    using keeps_runnable [OF k] by (simp add: has_runnable_def fun_eq_iff)
  have nil: "\<not> has_runnable s []" by (simp add: has_runnable_def)
  have k': "keeps but_ready s s'"
    using found keeps_trans [OF k] unfolding next_found_def by blast
  show ?thesis
  proof (cases "t = idle_tcb s")
    case True
    then have "\<forall>p. \<not> has_runnable s (Q p)" "ready_inv s' (\<lambda>_. [])"
      using found none keeps_idle [OF k] unfolding next_found_def by (auto simp: hr split: if_splits)
    with True k' show ?thesis by (simp add: next_found_def)
  next
    case False
    then obtain p where p: "0 \<le> p" "\<forall>q>p. \<not> has_runnable s ((Q(i := [])) q)"
      "has_runnable s ((Q(i := [])) p)" "t = hd (dropWhile (\<lambda>t. \<not> runnable s t) (rotate1 ((Q(i := [])) p)))"
      "ready_inv s' (searched s1 p (Q(i := [])))" "current_max_prio s' = p"
      using found keeps_idle [OF k] keeps_runnable [OF k] by (auto simp: hr next_found_def)
    have "p \<noteq> i" using p(3) nil by auto
    moreover have "\<not> i < p" using p(3) above nil by fastforce
    ultimately have pi: "p < i" by simp
    then have "searched s1 p (Q(i := [])) = searched s p Q"
      using keeps_runnable [OF k] by (auto simp: searched_def fun_eq_iff)
    moreover have "\<forall>q>p. \<not> has_runnable s (Q q)" using p(2) none by (metis fun_upd_other)
    ultimately show ?thesis using False p pi k' unfolding next_found_def by auto
  qed
qed

lemma find_from_spec:
  assumes "ready_inv s Q" "\<And>p. i < p \<Longrightarrow> Q p = []" "i \<le> MAX_PRIO" "-1 \<le> i"
  shows "\<exists>t s'. find_from i s = Some (t, s') \<and> next_found s Q t s'"
  using assms
proof (induction i s arbitrary: Q rule: find_from.induct)
  case (1 i s)
  note inv = "1.prems"(1) and above = "1.prems"(2)
  show ?case
  proof (cases "i \<ge> 0")
    case False
    then have all: "Q p = []" for p
      using above ready_invD(2) [OF inv] prio_nonneg [of s]
      by (cases "Q p") (auto, metis leI list.set_intros(1) list.distinct(1) order_less_le_trans)
    then have "Q = (\<lambda>_. [])" by auto
    then have "ready_inv (s\<lparr>current_max_prio := -1\<rparr>) (\<lambda>_. [])"
      using ready_inv_max [OF inv, of "-1"] by (simp add: MAX_PRIO_def)
    then show ?thesis
      using False all by (subst find_from.simps)
        (auto simp: get_idle_tcb_def has_runnable_def next_found_def frame_simps)
  next
    case True
    let ?ys = "dropWhile (\<lambda>t. \<not> runnable s t) (rotate1 (Q i))"
    obtain s1 where s1: "keeps but_ready s s1" "ready_inv s1 (Q(i := ?ys))"
      "find_in_queue i (prio_queue s i) s =
         Some (if ?ys = [] then (None, s1) else (Some (hd ?ys), s1\<lparr>current_max_prio := i\<rparr>))"
      using find_in_queue_spec [OF inv True "1.prems"(3)] by blast
    show ?thesis
    proof (cases "?ys = []")
      case False
      then show ?thesis
        using True s1 next_found_here [OF inv s1(2,1) above True "1.prems"(3) refl False]
        by (subst find_from.simps) auto
    next
      case none: True
      then have fq: "find_in_queue i (prio_queue s i) s = Some (None, s1)" using s1(3) by simp
      have ab: "\<And>p. i - 1 < p \<Longrightarrow> (Q(i := [])) p = []" and i1: "i - 1 \<le> MAX_PRIO" "-1 \<le> i - 1"
        using above "1.prems"(3) True by auto
      obtain t s' where ih: "find_from (i - 1) s1 = Some (t, s')" "next_found s1 (Q(i := [])) t s'"
        using "1.IH" [OF True fq refl refl s1(2) [unfolded none] ab i1] by blast
      moreover have "next_found s Q t s'"
        using next_found_below [OF s1(1) above _ ih(2)] none dropWhile_has_runnable by blast
      ultimately show ?thesis using True fq by (subst find_from.simps) simp
    qed
  qed
qed

lemma find_next_thread_spec:
  "ready_inv s Q \<Longrightarrow> \<exists>t s'. find_next_thread s = Some (t, s') \<and> next_found s Q t s'"
  unfolding find_next_thread_def
  using ready_invD(7-9) [of s Q] by (intro find_from_spec) fastforce+


lemma dropWhile_keeps: "x \<in> set xs \<Longrightarrow> P x \<Longrightarrow> x \<in> set (dropWhile (\<lambda>x. \<not> P x) xs)"
  by (induction xs) auto

lemma hd_dropWhile_filter: "hd (dropWhile (\<lambda>x. \<not> P x) xs) = hd (filter P xs)"
  by (induction xs) auto

lemma next_found_idle:
  assumes inv: "ready_inv s Q" and n: "next_found s Q t s'" and t: "t = idle_tcb s"
  shows "in_ready s u \<Longrightarrow> \<not> runnable s u" and "ready_inv s' (\<lambda>_. [])" and "\<not> in_ready s' u"
proof -
  have e: "ready_inv s' (\<lambda>_. [])" using n t by (simp add: next_found_def)
  then show "ready_inv s' (\<lambda>_. [])" "\<not> in_ready s' u" using ready_invD(3) [OF e] by auto
  show "in_ready s u \<Longrightarrow> \<not> runnable s u"
    using n t ready_invD(3) [OF inv] by (auto simp: next_found_def has_runnable_def)
qed

lemma next_found_thread:
  assumes inv: "ready_inv s Q" and n: "next_found s Q t s'" and t: "t \<noteq> idle_tcb s"
  shows "ready_inv s' (searched s (prio_of s t) Q)" and "in_ready s t" and "runnable s t"
    and "in_ready s u \<Longrightarrow> runnable s u \<Longrightarrow> prio_of s u \<le> prio_of s t \<and> in_ready s' u"
    and "t = hd (filter (runnable s) (rotate1 (Q (prio_of s t))))"
    and "prio_queue s' (prio_of s t) = t" and "in_ready s' t" and "current_max_prio s' = prio_of s t"
proof -
  obtain p where p: "0 \<le> p" "\<forall>q>p. \<not> has_runnable s (Q q)" "has_runnable s (Q p)"
    "t = hd (dropWhile (\<lambda>t. \<not> runnable s t) (rotate1 (Q p)))" "ready_inv s' (searched s p Q)"
    "current_max_prio s' = p" and k: "keeps but_ready s s'"
    using n t by (auto simp: next_found_def)
  let ?ys = "dropWhile (\<lambda>t. \<not> runnable s t) (rotate1 (Q p))"
  have ne: "?ys \<noteq> []" using p(3) dropWhile_has_runnable by blast
  then have tq: "t \<in> set (Q p)" "t \<in> set ?ys" using p(4) by (metis hd_in_set set_dropWhileD set_rotate1)+
  then have tp: "prio_of s t = p" using ready_invD(2) [OF inv] by blast
  show "in_ready s t" using ready_invD(3) [OF inv] tq tp by simp
  show "runnable s t" using hd_dropWhile [OF ne] p(4) by simp
  show r: "ready_inv s' (searched s (prio_of s t) Q)" "current_max_prio s' = prio_of s t" using p tp by simp_all
  show "t = hd (filter (runnable s) (rotate1 (Q (prio_of s t))))"
    using p(4) unfolding tp hd_dropWhile_filter .
  have rd: "in_ready s' u \<longleftrightarrow> u \<in> set (searched s p Q (prio_of s u))" for u
    using ready_invD(3) [OF p(5)] keeps_ready_prio [OF k] by simp
  show "in_ready s' t" using rd [of t] tp tq(2) by (simp add: searched_def)
  have "ready_queue s' p ?ys"
    using ready_invD(1) [OF p(5,1)] ready_invD(4) [OF inv, of t] tp by (simp add: searched_def)
  then show "prio_queue s' (prio_of s t) = t" using ne p(4) tp by (simp add: ready_queue_def)
  assume u: "in_ready s u" "runnable s u"
  then have uq: "u \<in> set (Q (prio_of s u))" using ready_invD(3) [OF inv] by simp
  then have "\<not> p < prio_of s u" using p(2) u(2) by (auto simp: has_runnable_def)
  moreover have "u \<in> set ?ys" if "prio_of s u = p"
    using uq that u(2) by (simp add: dropWhile_keeps)
  ultimately show "prio_of s u \<le> prio_of s t \<and> in_ready s' u"
    using uq rd [of u] tp by (auto simp: searched_def)
qed

section \<open>Waking up threads\<close>

definition but_queues :: "tcb_t \<Rightarrow> tcb_t" where
  "but_queues c = but_wakeup (but_ready c)"

lemma but_queues_commute: "but_wakeup (but_ready c) = but_ready (but_wakeup c)"
  by (simp add: but_wakeup_def but_ready_def and.assoc and.commute [of "NOT TS_QUEUE_READY"])

lemma but_queues_simps [frame_simps]:
  "but_queues (c\<lparr>thread_state := v\<rparr>) = (but_queues c)\<lparr>thread_state := v\<rparr>"
  by (simp add: but_queues_def but_ready_def but_wakeup_def)

lemma but_queues_keeps:
  "keeps but_ready s s' \<Longrightarrow> but_queues (tcbs s' t) = but_queues (tcbs s t)"
  "keeps but_wakeup s s' \<Longrightarrow> but_queues (tcbs s' t) = but_queues (tcbs s t)"
  by (simp add: but_queues_def keeps_tcb) (simp add: but_queues_def but_queues_commute keeps_tcb)

text \<open>The threads of \<open>W\<close> have been set running; no other field outside the queues has changed.\<close>

definition woken :: "tptr set \<Rightarrow> kstate \<Rightarrow> kstate \<Rightarrow> bool" where
  "woken W s s' \<longleftrightarrow>
     (\<forall>t. but_queues (tcbs s' t) =
        (if t \<in> W then (but_queues (tcbs s t))\<lparr>thread_state := TS_RUNNING\<rparr> else but_queues (tcbs s t))) \<and>
     but_sched s' = but_sched s"

lemma woken_refl [simp]: "woken {} s s"
  by (simp add: woken_def)

lemma woken_trans:
  assumes "woken V s s'" "woken W s' s''"
  shows "woken (V \<union> W) s s''"
  using assms by (auto simp: woken_def)

lemma but_queues_sel:
  assumes "but_queues c = (if b then (but_queues d)\<lparr>thread_state := TS_RUNNING\<rparr> else but_queues d)"
  shows "absolute_timeout c = absolute_timeout d" "priority c = priority d" "timeslice c = timeslice d"
    "thread_state c = (if b then TS_RUNNING else thread_state d)"
    "current_timeslice c = current_timeslice d" "myself c = myself d" "resources c = resources d"
    "stack c = stack d" "space c = space d" "pagedir_cache c = pagedir_cache d"
  using assms
  by (cases c; cases d; cases b; simp add: but_queues_def but_ready_def but_wakeup_def)+

lemma wokenD:
  assumes "woken W s s'"
  shows "absolute_timeout (tcbs s' t) = absolute_timeout (tcbs s t)"
    "priority (tcbs s' t) = priority (tcbs s t)" "timeslice (tcbs s' t) = timeslice (tcbs s t)"
    "thread_state (tcbs s' t) = (if t \<in> W then TS_RUNNING else thread_state (tcbs s t))"
    "current_timeslice (tcbs s' t) = current_timeslice (tcbs s t)" "idle_tcb s' = idle_tcb s"
    "current s' = current s"
proof -
  have "but_queues (tcbs s' t) = (if t \<in> W then (but_queues (tcbs s t))\<lparr>thread_state := TS_RUNNING\<rparr>
      else but_queues (tcbs s t))" and b: "but_sched s' = but_sched s"
    using assms by (simp_all add: woken_def)
  from but_queues_sel [OF this(1)]
  show "absolute_timeout (tcbs s' t) = absolute_timeout (tcbs s t)"
    "priority (tcbs s' t) = priority (tcbs s t)" "timeslice (tcbs s' t) = timeslice (tcbs s t)"
    "thread_state (tcbs s' t) = (if t \<in> W then TS_RUNNING else thread_state (tcbs s t))"
    "current_timeslice (tcbs s' t) = current_timeslice (tcbs s t)" by auto
  show "idle_tcb s' = idle_tcb s" "current s' = current s"
    using b by (cases s; cases s'; simp add: but_sched_def)+
qed

definition wake_one :: "tptr \<Rightarrow> kstate \<Rightarrow> kstate" where
  "wake_one t s = thread_enqueue_ready t
     (upd_tcb t (\<lambda>c. c\<lparr>thread_state := TS_RUNNING\<rparr>) (thread_dequeue_wakeup t s))"

lemma wake_one_spec:
  assumes w: "wakeup_inv s (ys @ x # xs)" and inv: "ready_inv s Q"
  shows "wakeup_inv (wake_one x s) (ys @ xs)"
    and "ready_inv (wake_one x s) (enq s x Q)"
    and "woken {x} s (wake_one x s)"
    and "in_ready (wake_one x s) t \<longleftrightarrow> t = x \<or> in_ready s t"
proof -
  define s1 where "s1 = thread_dequeue_wakeup x s"
  define s2 where "s2 = upd_tcb x (\<lambda>c. c\<lparr>thread_state := TS_RUNNING\<rparr>) s1"
  have s3: "wake_one x s = thread_enqueue_ready x s2" by (simp add: wake_one_def s1_def s2_def)
  have r: "ring (wnext s) (wprev s) (idle_tcb s # ys @ x # xs)" and "x \<noteq> NULL"
    using w by (auto simp: wakeup_inv_def sentinel_ring_def)
  note d = ring_distinct [OF r]
  then have x: "x \<noteq> NULL" "x \<noteq> idle_tcb s" using \<open>x \<noteq> NULL\<close> by auto
  have k1: "keeps but_wakeup s s1" unfolding s1_def by (rule dequeue_wakeup_keeps)
  have "wakeup_inv s1 (ys @ xs)"
    using dequeue_wakeup_inv [OF w x(2)] d by (simp add: s1_def remove1_append)
  then have w2: "wakeup_inv s2 (ys @ xs)"
    by (rule wakeup_inv_cong) (auto simp: s2_def in_queue_def)
  have r1: "ready_inv s1 Q" 
    using wakeup_op_ready_inv [OF k1 _ _ inv] by (simp add: s1_def wakeup_keeps_prio_queue)
  then have r2: "ready_inv s2 Q"
    by (rule ready_inv_cong) (auto simp: s2_def in_queue_def)
  have i2: "idle_tcb s2 = idle_tcb s" using keeps_idle [OF k1] by (simp add: s2_def)
  have in2: "in_ready s2 t = in_ready s t" for t
    using but_wakeup_bits [OF keeps_tcb [OF k1, of t], of 0] by (auto simp: s2_def qbit)
  have p2: "prio_of s2 t = prio_of s t" for t
    using but_wakeup_eqD(1) [OF keeps_tcb [OF k1, of t]] by (auto simp: s2_def prio_of_def)
  show "wakeup_inv (wake_one x s) (ys @ xs)"
    unfolding s3 by (rule ready_op_wakeup_inv [OF enqueue_ready_keeps w2])
  have "enq s2 x Q = enq s x Q" by (simp add: enq_def in2 p2)
  then show "ready_inv (wake_one x s) (enq s x Q)"
    using enqueue_ready_inv [OF r2 x(1)] x(2) i2 by (simp add: s3)
  show "in_ready (wake_one x s) t \<longleftrightarrow> t = x \<or> in_ready s t"
    by (simp add: s3 enqueue_ready_bit in2)
  show "woken {x} s (wake_one x s)"
    using k1 enqueue_ready_keeps [of s2 x] unfolding s3 woken_def
    by (auto simp: but_queues_keeps(1) [OF enqueue_ready_keeps] but_queues_keeps(2) [OF k1] s2_def
        keeps_def frame_simps)
qed

definition better :: "kstate \<Rightarrow> dword_t \<times> tptr \<Rightarrow> tptr \<Rightarrow> dword_t \<times> tptr" where
  "better s b t = (if priority (tcbs s t) > fst b then (priority (tcbs s t), t) else b)"

definition enqs :: "kstate \<Rightarrow> tptr list \<Rightarrow> (int \<Rightarrow> tptr list) \<Rightarrow> int \<Rightarrow> tptr list" where
  "enqs s ts Q = (\<lambda>p. Q p @ filter (\<lambda>t. \<not> in_ready s t \<and> prio_of s t = p) ts)"

abbreviation expired :: "kstate \<Rightarrow> qword_t \<Rightarrow> tptr \<Rightarrow> bool" where
  "expired s now t \<equiv> absolute_timeout (tcbs s t) \<le> now"

lemma enqs_step:
  assumes "woken {x} s s'" "\<And>t. in_ready s' t \<longleftrightarrow> t = x \<or> in_ready s t" "x \<notin> set ts"
  shows "enqs s' ts (enq s x Q) = enqs s (x # ts) Q"
proof (rule ext)
  fix p
  have "prio_of s' t = prio_of s t" for t using wokenD(2) [OF assms(1)] by (simp add: prio_of_def)
  moreover have "filter (\<lambda>t. \<not> (t = x \<or> in_ready s t) \<and> prio_of s t = p) ts =
      filter (\<lambda>t. \<not> in_ready s t \<and> prio_of s t = p) ts"
    using assms(3) by (auto intro!: filter_cong)
  ultimately show "enqs s' ts (enq s x Q) p = enqs s (x # ts) Q p"
    by (auto simp: enqs_def enq_def assms(2))
qed

lemma parse_wakeup_loop_spec:
  assumes "wakeup_inv s (ys @ xs)" "ready_inv s Q"
  shows "\<exists>s'. parse_wakeup_loop now cp hw (if xs = [] then idle_tcb s else hd xs) s =
       Some (snd (foldl (better s) (cp, hw) (filter (expired s now) xs)), s') \<and>
     wakeup_inv s' (ys @ filter (\<lambda>t. \<not> expired s now t) xs) \<and>
     ready_inv s' (enqs s (filter (expired s now) xs) Q) \<and>
     woken (set (filter (expired s now) xs)) s s'"
  using assms
proof (induction xs arbitrary: s ys Q cp hw)
  case Nil
  then show ?case by (subst parse_wakeup_loop.simps) (simp add: get_idle_tcb_def enqs_def)
next
  case (Cons x xs)
  note w = Cons.prems(1)
  have r: "ring (wnext s) (wprev s) (idle_tcb s # ys @ x # xs)"
    using w by (simp add: wakeup_inv_def sentinel_ring_def)
  have x: "x \<noteq> idle_tcb s" "x \<notin> set xs" using ring_distinct [OF r] by auto
  have nx: "wnext s x = (if xs = [] then idle_tcb s else hd xs)"
    using w wakeup_queue.after [of s ys x xs] by (simp add: wakeup_inv_def)
  show ?case
  proof (cases "expired s now x")
    case False
    from Cons.IH [of s "ys @ [x]" Q cp hw] Cons.prems
    show ?thesis using False x nx by (subst parse_wakeup_loop.simps) (simp add: get_idle_tcb_def)
  next
    case True
    let ?s = "wake_one x s"
    note wo = wake_one_spec [OF w Cons.prems(2)]
    have same: "expired ?s now = expired s now" "better ?s = better s" "idle_tcb ?s = idle_tcb s"
      using wokenD [OF wo(3)] by (auto simp: fun_eq_iff better_def)
    let ?b = "better s (cp, hw) x"
    have step: "parse_wakeup_loop now cp hw x s =
        parse_wakeup_loop now (fst ?b) (snd ?b) (if xs = [] then idle_tcb ?s else hd xs) ?s"
      using True x nx same
      by (subst parse_wakeup_loop.simps) (auto simp: get_idle_tcb_def better_def wake_one_def Let_def)
    from Cons.IH [OF wo(1,2), of "fst ?b" "snd ?b"] obtain s' where s':
      "parse_wakeup_loop now (fst ?b) (snd ?b) (if xs = [] then idle_tcb ?s else hd xs) ?s =
         Some (snd (foldl (better s) ?b (filter (expired s now) xs)), s')"
      "wakeup_inv s' (ys @ filter (\<lambda>t. \<not> expired s now t) xs)"
      "ready_inv s' (enqs ?s (filter (expired s now) xs) (enq s x Q))"
      "woken (set (filter (expired s now) xs)) ?s s'"
      unfolding same by (auto simp: wokenD(1) [OF wo(3)])
    have "enqs ?s (filter (expired s now) xs) (enq s x Q) = enqs s (filter (expired s now) (x # xs)) Q"
      using enqs_step [OF wo(3,4), of "filter (expired s now) xs" Q] x True by simp
    then show ?thesis
      using s' True step woken_trans [OF wo(3) s'(4)] by (intro exI [of _ s']) simp
  qed
qed

lemma better_spec:
  assumes "NULL \<notin> set ts"
  shows "let b = foldl (better s) (cp, hw) ts in
     (if \<exists>t\<in>set ts. cp < priority (tcbs s t)
      then snd b \<in> set ts \<and> fst b = priority (tcbs s (snd b)) \<and> cp < fst b \<and>
        (\<forall>t\<in>set ts. priority (tcbs s t) \<le> fst b)
      else b = (cp, hw))"
  using assms
proof (induction ts arbitrary: cp hw)
  case Nil
  then show ?case by simp
next
  case (Cons x ts)
  show ?case
  proof (cases "cp < priority (tcbs s x)")
    case True
    then show ?thesis
      using Cons.IH [of "priority (tcbs s x)" x] Cons.prems
      by (auto simp: better_def Let_def split: if_splits)
  next
    case False
    then show ?thesis
      using Cons.IH [of cp hw] Cons.prems
      by (auto simp: better_def Let_def split: if_splits)
  qed
qed

section \<open>Switching\<close>

lemma running_state: "TS_RUNNING AND NOT TS_RUNNING = 0"
  by (rule bit_word_eqI) (simp add: bit_and_iff bit_not_iff)

lemma save_resources_tcb:
  assumes "\<And>c v. f (c\<lparr>resources := v\<rparr>) = f c" "\<And>c v. f (c\<lparr>dbg := v\<rparr>) = f c"
  shows "f (tcbs (save_resources c d s) t) = f (tcbs s t)"
  using assms by (simp add: save_resources_def save_debug_regs_def set_mem_def Let_def)

lemma save_resources_sel [simp]:
  "prio_queue (save_resources c d s) = prio_queue s"
  "current_max_prio (save_resources c d s) = current_max_prio s"
  "idle_tcb (save_resources c d s) = idle_tcb s"
  "current (save_resources c d s) = current s"
  "clock (save_resources c d s) = clock s"
  "esp (save_resources c d s) = esp s"
  by (simp_all add: save_resources_def save_debug_regs_def set_mem_def Let_def)

lemma switch_to_thread_tcb:
  assumes "\<And>c v. f (c\<lparr>resources := v\<rparr>) = f c" "\<And>c v. f (c\<lparr>dbg := v\<rparr>) = f c"
    and "\<And>c v. f (c\<lparr>stack := v\<rparr>) = f c"
  shows "f (tcbs (switch_to_thread t c s) u) = f (tcbs s u)"
  using assms by (simp add: switch_to_thread_def Let_def save_resources_tcb [of f])

lemma switch_to_idle_tcb:
  assumes "\<And>c v. f (c\<lparr>resources := v\<rparr>) = f c" "\<And>c v. f (c\<lparr>dbg := v\<rparr>) = f c"
    and "\<And>c v. f (c\<lparr>stack := v\<rparr>) = f c" "\<And>c v. f (c\<lparr>pagedir_cache := v\<rparr>) = f c"
  shows "f (tcbs (switch_to_idle c s) u) = f (tcbs s u)"
  using assms by (simp add: switch_to_idle_def Let_def save_resources_tcb [of f])

lemma switch_sel [simp]:
  "prio_queue (switch_to_thread t c s) = prio_queue s"
  "current_max_prio (switch_to_thread t c s) = current_max_prio s"
  "idle_tcb (switch_to_thread t c s) = idle_tcb s" "clock (switch_to_thread t c s) = clock s"
  "current (switch_to_thread t c s) = t"
  "prio_queue (switch_to_idle c s) = prio_queue s"
  "current_max_prio (switch_to_idle c s) = current_max_prio s"
  "idle_tcb (switch_to_idle c s) = idle_tcb s" "clock (switch_to_idle c s) = clock s"
  "current (switch_to_idle c s) = idle_tcb s"
  by (simp_all add: switch_to_thread_def switch_to_idle_def Let_def get_idle_tcb_def)

text \<open>What a dispatch keeps of the blocks.\<close>

lemma dispatch_tcb:
  assumes "\<And>c v. f (c\<lparr>resources := v\<rparr>) = f c" "\<And>c v. f (c\<lparr>dbg := v\<rparr>) = f c"
    and "\<And>c v. f (c\<lparr>stack := v\<rparr>) = f c" "\<And>c v. f (c\<lparr>pagedir_cache := v\<rparr>) = f c"
  shows "f (tcbs (dispatch_thread t s) u) = f (tcbs s u)"
  using assms
  by (simp add: dispatch_thread_def Let_def switch_to_thread_tcb [of f] switch_to_idle_tcb [of f])

lemma dispatch_sel:
  "current (dispatch_thread t s) = t" "clock (dispatch_thread t s) = clock s"
  "idle_tcb (dispatch_thread t s) = idle_tcb s"
  "current_max_prio (dispatch_thread t s) = current_max_prio s"
  by (simp_all add: dispatch_thread_def Let_def get_current_tcb_def get_idle_tcb_def)

lemma dispatch_bits: "in_queue b (dispatch_thread t s) u = in_queue b s u"
  unfolding in_queue_def by (simp add: dispatch_tcb [of queue_state])

lemma dispatch_ready_inv:
  assumes inv: "ready_inv s Q"
  shows "\<exists>Q'. ready_inv (dispatch_thread t s) Q' \<and> (\<forall>p. set (Q' p) = set (Q p))"
proof -
  let ?s1 = "s\<lparr>prio_queue := (prio_queue s)(uint (priority (tcbs s t)) := t)\<rparr>"
  have cong: "ready_inv (dispatch_thread t s) Q'"
    if "ready_inv s1 Q'" "prio_queue (dispatch_thread t s) = prio_queue s1"
      "tcbs s1 = tcbs s" "current_max_prio s1 = current_max_prio s" "idle_tcb s1 = idle_tcb s" for s1 Q'
    using that(1)
    by (rule ready_inv_cong)
      (simp_all add: that dispatch_tcb [of ready_next] dispatch_tcb [of ready_prev]
        dispatch_tcb [of priority] dispatch_tcb [of queue_state] dispatch_sel in_queue_def)
  show ?thesis
  proof (cases "t \<noteq> current s \<and> in_ready s t")
    case False
    then have "prio_queue (dispatch_thread t s) = prio_queue s"
      by (auto simp: dispatch_thread_def Let_def get_current_tcb_def)
    from cong [OF inv this] show ?thesis by auto
  next
    case True
    then obtain as bs where q: "Q (prio_of s t) = as @ t # bs"
      using ready_invD(3) [OF inv, of t] by (auto dest: split_list)
    have "ready_inv ?s1 (Q(prio_of s t := t # bs @ as))"
      using ready_inv_rotate [OF inv q prio_nonneg ready_invD(4) [OF inv]] by (simp add: prio_of_def)
    moreover have "prio_queue (dispatch_thread t s) = prio_queue ?s1"
      using True ready_invD(6) [OF inv]
      by (auto simp: dispatch_thread_def Let_def get_current_tcb_def get_idle_tcb_def)
    ultimately have "ready_inv (dispatch_thread t s) (Q(prio_of s t := t # bs @ as))"
      by (rule cong) simp_all
    then show ?thesis using q by (intro exI [of _ "Q(prio_of s t := t # bs @ as)"]) auto
  qed
qed

lemma dispatch_wakeup_inv: "wakeup_inv s ws \<Longrightarrow> wakeup_inv (dispatch_thread t s) ws"
  by (erule wakeup_inv_cong)
    (simp_all add: dispatch_tcb [of wakeup_next] dispatch_tcb [of wakeup_prev] dispatch_bits dispatch_sel)

section \<open>The scheduler's invariant\<close>

definition sched_inv :: "kstate \<Rightarrow> (int \<Rightarrow> tptr list) \<Rightarrow> tptr list \<Rightarrow> bool" where
  "sched_inv s Q ws \<longleftrightarrow> ready_inv s Q \<and> wakeup_inv s ws \<and> current s \<noteq> NULL"

lemma ready_inv_upd:
  assumes "ready_inv s Q" "\<And>c. ready_next (f c) = ready_next c" "\<And>c. ready_prev (f c) = ready_prev c"
    "\<And>c. priority (f c) = priority c" "\<And>c. queue_state (f c) = queue_state c"
  shows "ready_inv (upd_tcb t f s) Q"
  using assms(1) by (rule ready_inv_cong) (simp_all add: assms(2-) in_queue_def)

lemma wakeup_inv_upd:
  assumes "wakeup_inv s ws" "\<And>c. wakeup_next (f c) = wakeup_next c"
    "\<And>c. wakeup_prev (f c) = wakeup_prev c" "\<And>c. queue_state (f c) = queue_state c"
  shows "wakeup_inv (upd_tcb t f s) ws"
  using assms(1) by (rule wakeup_inv_cong) (simp_all add: assms(2-) in_queue_def)

definition best_woken :: "(tptr \<Rightarrow> tcb_t) \<Rightarrow> dword_t \<Rightarrow> tptr list \<Rightarrow> tptr \<Rightarrow> bool" where
  "best_woken c cp ts hw \<longleftrightarrow>
     (if \<exists>t\<in>set ts. cp < priority (c t)
      then hw \<in> set ts \<and> cp < priority (c hw) \<and> (\<forall>t\<in>set ts. priority (c t) \<le> priority (c hw))
      else hw = NULL)"

lemma parse_wakeup_spec:
  assumes w: "wakeup_inv s ws" and r: "ready_inv s Q"
  shows "\<exists>hw s'. parse_wakeup_queue cp now s = Some (hw, s') \<and>
     wakeup_inv s' (filter (\<lambda>t. \<not> expired s now t) ws) \<and>
     ready_inv s' (enqs s (filter (expired s now) ws) Q) \<and>
     woken {t \<in> set ws. expired s now t} s s' \<and>
     best_woken (tcbs s) cp (filter (expired s now) ws) hw"
proof -
  let ?ts = "filter (expired s now) ws"
  have nz: "NULL \<notin> set ?ts" using w by (simp add: wakeup_inv_def)
  have "wnext s (idle_tcb s) = (if ws = [] then idle_tcb s else hd ws)"
    using w wakeup_queue.first [of s ws] by (simp add: wakeup_inv_def)
  with parse_wakeup_loop_spec [of s "[]" ws Q now cp NULL] w r obtain s' where
    "parse_wakeup_queue cp now s = Some (snd (foldl (better s) (cp, NULL) ?ts), s')"
    "wakeup_inv s' (filter (\<lambda>t. \<not> expired s now t) ws)" "ready_inv s' (enqs s ?ts Q)"
    "woken (set ?ts) s s'"
    by (auto simp: parse_wakeup_queue_def get_idle_tcb_def)
  then show ?thesis
    using better_spec [OF nz, of s cp NULL]
    by (intro exI [of _ "snd (foldl (better s) (cp, NULL) ?ts)"] exI [of _ s'])
      (auto simp: best_woken_def Let_def split: if_splits)
qed

lemma clock_upd_inv:
  "ready_inv (s\<lparr>clock := n\<rparr>) Q \<longleftrightarrow> ready_inv s Q" "wakeup_inv (s\<lparr>clock := n\<rparr>) ws \<longleftrightarrow> wakeup_inv s ws"
proof -
  have "ready_inv s Q \<Longrightarrow> ready_inv (s\<lparr>clock := n\<rparr>) Q" for s n
    by (erule ready_inv_cong) (simp_all add: in_queue_def)
  from this [of s] this [of "s\<lparr>clock := n\<rparr>" "clock s"]
  show "ready_inv (s\<lparr>clock := n\<rparr>) Q \<longleftrightarrow> ready_inv s Q" by auto
  have "wakeup_inv s ws \<Longrightarrow> wakeup_inv (s\<lparr>clock := n\<rparr>) ws" for s n
    by (erule wakeup_inv_cong) (simp_all add: in_queue_def)
  from this [of s] this [of "s\<lparr>clock := n\<rparr>" "clock s"]
  show "wakeup_inv (s\<lparr>clock := n\<rparr>) ws \<longleftrightarrow> wakeup_inv s ws" by auto
qed

lemma keeps_clock: "keeps f s s' \<Longrightarrow> clock s' = clock s" "keeps f s s' \<Longrightarrow> current s' = current s"
  unfolding keeps_def but_sched_def by (cases s; cases s'; simp)+

lemma woken_clock: "woken W s s' \<Longrightarrow> clock s' = clock s"
  unfolding woken_def but_sched_def by (cases s; cases s'; simp)

definition timer_now :: "kstate \<Rightarrow> qword_t" where
  "timer_now s = clock s + 1953"

text \<open>Charging the time slice and making sure the current thread is in its ready queue.\<close>

definition charge_slice :: "tptr \<Rightarrow> kstate \<Rightarrow> kstate" where
  "charge_slice cur s =
     (let s = upd_tcb cur (\<lambda>c. c\<lparr>current_timeslice := current_timeslice c - TIME_QUANTUM\<rparr>) s
      in if cur \<noteq> idle_tcb s then thread_enqueue_ready cur s else s)"

lemma charge_slice_spec:
  assumes r: "ready_inv s Q" and w: "wakeup_inv s ws" and c: "c \<noteq> NULL"
  shows "\<exists>Q'. ready_inv (charge_slice c s) Q'" and "wakeup_inv (charge_slice c s) ws"
    and "current_timeslice (tcbs (charge_slice c s) c) = current_timeslice (tcbs s c) - 1953"
    and "thread_state (tcbs (charge_slice c s) t) = thread_state (tcbs s t)"
    and "priority (tcbs (charge_slice c s) t) = priority (tcbs s t)"
    and "timeslice (tcbs (charge_slice c s) t) = timeslice (tcbs s t)"
    and "in_ready (charge_slice c s) t \<longleftrightarrow> in_ready s t \<or> t = c \<and> c \<noteq> idle_tcb s"
    and "clock (charge_slice c s) = clock s" "current (charge_slice c s) = current s"
    and "idle_tcb (charge_slice c s) = idle_tcb s"
proof -
  define s2 where "s2 = upd_tcb c (\<lambda>c. c\<lparr>current_timeslice := current_timeslice c - TIME_QUANTUM\<rparr>) s"
  have s3: "charge_slice c s = (if c \<noteq> idle_tcb s2 then thread_enqueue_ready c s2 else s2)"
    by (simp add: charge_slice_def s2_def Let_def)
  have k3: "keeps but_ready s2 (charge_slice c s)" by (simp add: s3 enqueue_ready_keeps)
  have r2: "ready_inv s2 Q" unfolding s2_def by (rule ready_inv_upd [OF r]) simp_all
  have w2: "wakeup_inv s2 ws" unfolding s2_def by (rule wakeup_inv_upd [OF w]) simp_all
  show "\<exists>Q'. ready_inv (charge_slice c s) Q'" using enqueue_ready_inv [OF r2 c] r2 by (auto simp: s3)
  show "wakeup_inv (charge_slice c s) ws" by (rule ready_op_wakeup_inv [OF k3 w2])
  note f = but_ready_eqD [OF keeps_tcb [OF k3]]
  show "current_timeslice (tcbs (charge_slice c s) c) = current_timeslice (tcbs s c) - 1953"
    "thread_state (tcbs (charge_slice c s) t) = thread_state (tcbs s t)"
    "priority (tcbs (charge_slice c s) t) = priority (tcbs s t)"
    "timeslice (tcbs (charge_slice c s) t) = timeslice (tcbs s t)"
    by (auto simp: f s2_def TIME_QUANTUM_def)
  have "in_ready s2 t = in_ready s t" by (auto simp: s2_def in_queue_def)
  then show "in_ready (charge_slice c s) t \<longleftrightarrow> in_ready s t \<or> t = c \<and> c \<noteq> idle_tcb s"
    by (auto simp: s3 enqueue_ready_bit s2_def)
  show "clock (charge_slice c s) = clock s" "current (charge_slice c s) = current s"
    "idle_tcb (charge_slice c s) = idle_tcb s"
    using keeps_clock [OF k3] keeps_idle [OF k3] by (simp_all add: s2_def)
qed

lemma timer_cases:
  assumes "parse_wakeup_queue (priority (tcbs s (current s))) (timer_now s) (s\<lparr>clock := timer_now s\<rparr>) =
      Some (hw, s1)" "idle_tcb s1 = idle_tcb s"
  shows "handle_timer_interrupt s =
     (let s3 = charge_slice (current s) s1 in
      if hw \<noteq> NULL then Some (dispatch_thread hw s3)
      else if current_timeslice (tcbs s3 (current s)) \<le>s 0 then
        map_option (\<lambda>(t, s'). dispatch_thread t s')
          (find_next_thread (upd_tcb (current s) (\<lambda>c. c\<lparr>current_timeslice := timeslice c\<rparr>) s3))
      else Some s3)"
  using assms unfolding handle_timer_interrupt_def timer_now_def
  by (auto simp: Let_def TIME_QUANTUM_def get_current_tcb_def get_idle_tcb_def charge_slice_def
      map_option_case split: option.splits)

lemma dispatch_sched_inv:
  assumes "ready_inv s Q" "wakeup_inv s ws" "t \<noteq> NULL"
  shows "\<exists>Q'. sched_inv (dispatch_thread t s) Q' ws"
  using dispatch_ready_inv [OF assms(1), of t] dispatch_wakeup_inv [OF assms(2), of t] assms(3)
  by (auto simp: sched_inv_def dispatch_sel)

lemma next_found_inv:
  assumes "ready_inv s Q" "next_found s Q t s'" "wakeup_inv s ws" "idle_tcb s \<noteq> NULL"
  shows "\<exists>Q'. ready_inv s' Q'" and "wakeup_inv s' ws" and "t \<noteq> NULL"
proof -
  have k: "keeps but_ready s s'" using assms(2) by (simp add: next_found_def)
  show "wakeup_inv s' ws" by (rule ready_op_wakeup_inv [OF k assms(3)])
  show "\<exists>Q'. ready_inv s' Q'"
    using next_found_idle(2) [OF assms(1,2)] next_found_thread(1) [OF assms(1,2)] by blast
  show "t \<noteq> NULL"
    using next_found_thread(2) [OF assms(1,2)] ready_invD(5) [OF assms(1)] assms(4) by auto
qed

lemma find_and_dispatch:
  assumes r: "ready_inv s Q" and w: "wakeup_inv s ws" and idle: "idle_tcb s \<noteq> NULL"
  shows "\<exists>t s1 Q'. find_next_thread s = Some (t, s1) \<and> next_found s Q t s1 \<and>
     sched_inv (dispatch_thread t s1) Q' ws \<and> clock s1 = clock s \<and> idle_tcb s1 = idle_tcb s \<and>
     (\<forall>u. thread_state (tcbs s1 u) = thread_state (tcbs s u)) \<and>
     (\<forall>u. current_timeslice (tcbs s1 u) = current_timeslice (tcbs s u)) \<and>
     (t = idle_tcb s \<or> in_ready s t \<and> runnable s t) \<and>
     (\<forall>u. in_ready s u \<and> runnable s u \<longrightarrow> t \<noteq> idle_tcb s \<and> prio_of s u \<le> prio_of s t)"
proof -
  obtain t s1 where f: "find_next_thread s = Some (t, s1)" "next_found s Q t s1"
    using find_next_thread_spec [OF r] by blast
  then have k: "keeps but_ready s s1" by (simp add: next_found_def)
  note n = next_found_inv [OF r f(2) w idle]
  obtain Q' where "sched_inv (dispatch_thread t s1) Q' ws"
    using n dispatch_sched_inv by blast
  moreover have "\<forall>u. in_ready s u \<and> runnable s u \<longrightarrow> t \<noteq> idle_tcb s \<and> prio_of s u \<le> prio_of s t"
    using next_found_idle(1) [OF r f(2)] next_found_thread(4) [OF r f(2)] by blast
  moreover have "\<forall>u. thread_state (tcbs s1 u) = thread_state (tcbs s u)" "\<forall>u. current_timeslice (tcbs s1 u) = current_timeslice (tcbs s u)"
    using but_ready_eqD(2,4) [OF keeps_tcb [OF k]] by blast+
  moreover have "t = idle_tcb s \<or> in_ready s t \<and> runnable s t" using next_found_thread(2,3) [OF r f(2)] by blast
  ultimately show ?thesis using f keeps_clock(1) [OF k] keeps_idle [OF k] by blast
qed

text \<open>The threads among which a tick chooses when the time slice is used up: those that have just woken up, the running ones
  in the ready queues and the running current thread, if they have a time slice.\<close>

definition tick_candidate :: "kstate \<Rightarrow> tptr list \<Rightarrow> tptr \<Rightarrow> bool" where
  "tick_candidate s E t \<longleftrightarrow> 0 <s timeslice (tcbs s t) \<and>
     (t \<in> set E \<or> (in_ready s t \<or> t = current s \<and> t \<noteq> idle_tcb s) \<and> IS_RUNNING (tcbs s t))"

text \<open>What a timer tick does, by cases on the outcome.\<close>

definition tick_outcome :: "kstate \<Rightarrow> tptr list \<Rightarrow> kstate \<Rightarrow> bool" where
  "tick_outcome s ws s' \<longleftrightarrow>
    (let now = timer_now s; cur = current s; E = filter (expired s now) ws in
     wakeup_inv s' (filter (\<lambda>t. \<not> expired s now t) ws) \<and> clock s' = now \<and>
     idle_tcb s' = idle_tcb s \<and>
     (\<forall>t. thread_state (tcbs s' t) = (if t \<in> set E then TS_RUNNING else thread_state (tcbs s t))) \<and>
     (if \<exists>t\<in>set E. priority (tcbs s cur) < priority (tcbs s t)
      then current s' \<in> set E \<and> (\<forall>t\<in>set E. priority (tcbs s t) \<le> priority (tcbs s (current s'))) \<and>
        current_timeslice (tcbs s' cur) = current_timeslice (tcbs s cur) - 1953
      else if 0 <s current_timeslice (tcbs s cur) - 1953
      then current s' = cur \<and> current_timeslice (tcbs s' cur) = current_timeslice (tcbs s cur) - 1953
      else current_timeslice (tcbs s' cur) = timeslice (tcbs s cur) \<and>
        (current s' = idle_tcb s \<or> tick_candidate s E (current s')) \<and>
        (\<forall>t. tick_candidate s E t \<longrightarrow> current s' \<noteq> idle_tcb s \<and> prio_of s t \<le> prio_of s (current s'))))"

text \<open>The state after the first half of the interrupt handler, and the thread it found.\<close>

definition charged :: "kstate \<Rightarrow> tptr list \<Rightarrow> kstate \<Rightarrow> bool" where
  "charged s ws s3 \<longleftrightarrow>
    (let now = timer_now s; cur = current s; E = filter (expired s now) ws in
     (\<exists>Q3. ready_inv s3 Q3) \<and> wakeup_inv s3 (filter (\<lambda>t. \<not> expired s now t) ws) \<and> clock s3 = now \<and>
     current s3 = cur \<and> idle_tcb s3 = idle_tcb s \<and>
     current_timeslice (tcbs s3 cur) = current_timeslice (tcbs s cur) - 1953 \<and>
     (\<forall>t. thread_state (tcbs s3 t) = (if t \<in> set E then TS_RUNNING else thread_state (tcbs s t)) \<and>
        priority (tcbs s3 t) = priority (tcbs s t) \<and> timeslice (tcbs s3 t) = timeslice (tcbs s t) \<and>
        (in_ready s3 t \<longleftrightarrow> in_ready s t \<or> t \<in> set E \<or> t = cur \<and> cur \<noteq> idle_tcb s)))"

definition woken_best :: "kstate \<Rightarrow> tptr list \<Rightarrow> tptr \<Rightarrow> bool" where
  "woken_best s ws hw \<longleftrightarrow>
     best_woken (tcbs s) (priority (tcbs s (current s))) (filter (expired s (timer_now s)) ws) hw"

lemma timer_charged:
  assumes inv: "sched_inv s Q ws"
  shows "\<exists>hw s3. charged s ws s3 \<and> woken_best s ws hw \<and>
    handle_timer_interrupt s = (if hw \<noteq> NULL then Some (dispatch_thread hw s3)
      else if current_timeslice (tcbs s3 (current s)) \<le>s 0 then
        map_option (\<lambda>(t, s'). dispatch_thread t s')
          (find_next_thread (upd_tcb (current s) (\<lambda>c. c\<lparr>current_timeslice := timeslice c\<rparr>) s3))
      else Some s3)"
proof -
  define now cur where "now = timer_now s" and "cur = current s"
  let ?s0 = "s\<lparr>clock := now\<rparr>" and ?ws = "filter (\<lambda>t. \<not> expired s now t) ws"
  have i0: "ready_inv ?s0 Q" "wakeup_inv ?s0 ws" and cz: "cur \<noteq> NULL"
    using inv by (simp_all add: sched_inv_def clock_upd_inv cur_def)
  have e: "tcbs ?s0 = tcbs s" by simp
  obtain hw s1 where p: "parse_wakeup_queue (priority (tcbs s cur)) now ?s0 = Some (hw, s1)"
    and w1: "wakeup_inv s1 ?ws" and r1: "ready_inv s1 (enqs ?s0 (filter (expired s now) ws) Q)"
    and wk: "woken {t \<in> set ws. expired s now t} ?s0 s1" and best: "woken_best s ws hw"
    using parse_wakeup_spec [OF i0(2,1), of "priority (tcbs s cur)" now]
    unfolding e unfolding woken_best_def now_def cur_def by blast
  note wkD = wokenD [OF wk, unfolded e]
  let ?s3 = "charge_slice cur s1"
  note c = charge_slice_spec [OF r1 w1 cz]
  have rd: "in_ready s1 t \<longleftrightarrow> in_ready s t \<or> t \<in> set (filter (expired s now) ws)" for t
    using ready_invD(3) [OF r1, of t] ready_invD(3) [OF i0(1), of t] wkD(2)
    by (auto simp: enqs_def in_queue_def prio_of_def)
  have "charged s ws ?s3"
    using c wkD woken_clock [OF wk] rd
    by (simp add: charged_def Let_def now_def cur_def)
  moreover have "handle_timer_interrupt s = (if hw \<noteq> NULL then Some (dispatch_thread hw ?s3)
      else if current_timeslice (tcbs ?s3 cur) \<le>s 0 then
        map_option (\<lambda>(t, s'). dispatch_thread t s')
          (find_next_thread (upd_tcb cur (\<lambda>c. c\<lparr>current_timeslice := timeslice c\<rparr>) ?s3))
      else Some ?s3)"
    using timer_cases [of s hw s1] p wkD(6) by (simp add: now_def cur_def Let_def)
  ultimately show ?thesis using best by (auto simp: cur_def)
qed

lemma tick_wakeup:
  assumes "charged s ws s3" "woken_best s ws hw" "hw \<noteq> NULL"
  shows "\<exists>Q' ws'. sched_inv (dispatch_thread hw s3) Q' ws'" and "tick_outcome s ws (dispatch_thread hw s3)"
proof -
  obtain Q3 where r: "ready_inv s3 Q3" and w: "wakeup_inv s3 (filter (\<lambda>t. \<not> expired s (timer_now s) t) ws)"
    using assms(1) by (auto simp: charged_def Let_def)
  show "\<exists>Q' ws'. sched_inv (dispatch_thread hw s3) Q' ws'"
    using dispatch_sched_inv [OF r w assms(3)] by blast
  show "tick_outcome s ws (dispatch_thread hw s3)"
    using assms dispatch_wakeup_inv [OF w]
    by (auto simp: tick_outcome_def charged_def woken_best_def best_woken_def Let_def dispatch_sel
        dispatch_tcb [of thread_state] dispatch_tcb [of current_timeslice] split: if_splits)
qed

lemma tick_stay:
  assumes "charged s ws s3" "woken_best s ws NULL" "\<not> current_timeslice (tcbs s3 (current s)) \<le>s 0"
    and "sched_inv s Q ws"
  shows "\<exists>Q' ws'. sched_inv s3 Q' ws'" and "tick_outcome s ws s3"
proof -
  show "\<exists>Q' ws'. sched_inv s3 Q' ws'"
    using assms(1,4) by (auto simp: charged_def Let_def sched_inv_def)
  have "NULL \<notin> set ws" using assms(4) by (simp add: sched_inv_def wakeup_inv_def)
  then show "tick_outcome s ws s3"
    using assms(1-3) by (auto simp: tick_outcome_def charged_def woken_best_def best_woken_def Let_def signed.not_le
        split: if_splits)
qed

lemma tick_next:
  assumes ch: "charged s ws s3" and best: "woken_best s ws NULL"
    and ts: "current_timeslice (tcbs s3 (current s)) \<le>s 0"
    and inv: "sched_inv s Q ws" and idle: "idle_tcb s \<noteq> NULL"
  shows "\<exists>t s5 Q' ws'. find_next_thread
        (upd_tcb (current s) (\<lambda>c. c\<lparr>current_timeslice := timeslice c\<rparr>) s3) = Some (t, s5) \<and>
      sched_inv (dispatch_thread t s5) Q' ws' \<and> tick_outcome s ws (dispatch_thread t s5)"
proof -
  let ?s4 = "upd_tcb (current s) (\<lambda>c. c\<lparr>current_timeslice := timeslice c\<rparr>) s3"
    and ?E = "\<lambda>t. t \<in> set ws \<and> expired s (timer_now s) t"
    and ?ws = "filter (\<lambda>t. \<not> expired s (timer_now s) t) ws"
  obtain Q3 where r3: "ready_inv s3 Q3" and w3: "wakeup_inv s3 ?ws"
    using ch by (auto simp: charged_def Let_def)
  have r4: "ready_inv ?s4 Q3" by (rule ready_inv_upd [OF r3]) simp_all
  have w4: "wakeup_inv ?s4 ?ws" by (rule wakeup_inv_upd [OF w3]) simp_all
  have i4: "idle_tcb ?s4 = idle_tcb s" and c4: "clock ?s4 = timer_now s"
    using ch by (simp_all add: charged_def Let_def)
  obtain t s5 Q5 where f: "find_next_thread ?s4 = Some (t, s5)"
    "sched_inv (dispatch_thread t s5) Q5 ?ws" "clock s5 = clock ?s4 \<and> idle_tcb s5 = idle_tcb ?s4"
    "\<forall>u. thread_state (tcbs s5 u) = thread_state (tcbs ?s4 u)" "\<forall>u. current_timeslice (tcbs s5 u) = current_timeslice (tcbs ?s4 u)"
    "t = idle_tcb s \<or> in_ready ?s4 t \<and> runnable ?s4 t"
    "\<forall>u. in_ready ?s4 u \<and> runnable ?s4 u \<longrightarrow> t \<noteq> idle_tcb s \<and> prio_of ?s4 u \<le> prio_of ?s4 t"
    using find_and_dispatch [OF r4 w4] idle i4 by auto
  have tcb4: "thread_state (tcbs ?s4 u) = (if ?E u then TS_RUNNING else thread_state (tcbs s u))"
    "priority (tcbs ?s4 u) = priority (tcbs s u)" "timeslice (tcbs ?s4 u) = timeslice (tcbs s u)"
    "in_ready ?s4 u \<longleftrightarrow> in_ready s u \<or> ?E u \<or> u = current s \<and> current s \<noteq> idle_tcb s" for u
    using ch by (auto simp: charged_def Let_def in_queue_def)
  have run4: "runnable ?s4 u \<longleftrightarrow> (?E u \<or> IS_RUNNING (tcbs s u)) \<and> 0 <s timeslice (tcbs s u)" for u
    unfolding runnable_def IS_RUNNING_def tcb4 by (auto simp: running_state)
  have cand: "tick_candidate s (filter (expired s (timer_now s)) ws) u \<longleftrightarrow> in_ready ?s4 u \<and> runnable ?s4 u" for u
    unfolding tick_candidate_def run4 tcb4(4) by auto
  have low: "\<not> (\<exists>t\<in>set (filter (expired s (timer_now s)) ws).
        priority (tcbs s (current s)) < priority (tcbs s t))"
    using best inv by (auto simp: woken_best_def best_woken_def sched_inv_def wakeup_inv_def split: if_splits)
  have over: "\<not> 0 <s current_timeslice (tcbs s (current s)) - 1953"
    using ts ch by (simp add: signed.not_less charged_def Let_def)
  have "tick_outcome s ws (dispatch_thread t s5)"
    unfolding tick_outcome_def Let_def if_not_P [OF low] if_not_P [OF over]
  proof (intro conjI allI impI)
    show "wakeup_inv (dispatch_thread t s5) ?ws" using f(2) by (simp add: sched_inv_def)
    show "clock (dispatch_thread t s5) = timer_now s" "idle_tcb (dispatch_thread t s5) = idle_tcb s"
      using f(3) c4 i4 by (simp_all add: dispatch_sel)
    show "thread_state (tcbs (dispatch_thread t s5) u) =
        (if u \<in> set (filter (expired s (timer_now s)) ws) then TS_RUNNING else thread_state (tcbs s u))" for u
      using f(4) tcb4(1) by (auto simp: dispatch_tcb [of thread_state])
    show "current_timeslice (tcbs (dispatch_thread t s5) (current s)) = timeslice (tcbs s (current s))"
      using f(5) tcb4(3) [of "current s"] by (simp add: dispatch_tcb [of current_timeslice])
    show "current (dispatch_thread t s5) = idle_tcb s \<or>
        tick_candidate s (filter (expired s (timer_now s)) ws) (current (dispatch_thread t s5))"
      unfolding cand using f(6) by (simp add: dispatch_sel)
    fix u assume "tick_candidate s (filter (expired s (timer_now s)) ws) u"
    then show "current (dispatch_thread t s5) \<noteq> idle_tcb s"
      "prio_of s u \<le> prio_of s (current (dispatch_thread t s5))"
      unfolding cand using f(7) tcb4(2) by (auto simp: dispatch_sel prio_of_def)
  qed
  with f show ?thesis by blast
qed

lemma timer_tick:
  assumes inv: "sched_inv s Q ws" and idle: "idle_tcb s \<noteq> NULL"
  shows "\<exists>s' Q' ws'. handle_timer_interrupt s = Some s' \<and> sched_inv s' Q' ws' \<and> tick_outcome s ws s'"
proof -
  obtain hw s3 where c: "charged s ws s3" "woken_best s ws hw"
    and h: "handle_timer_interrupt s = (if hw \<noteq> NULL then Some (dispatch_thread hw s3)
      else if current_timeslice (tcbs s3 (current s)) \<le>s 0 then
        map_option (\<lambda>(t, s'). dispatch_thread t s')
          (find_next_thread (upd_tcb (current s) (\<lambda>c. c\<lparr>current_timeslice := timeslice c\<rparr>) s3))
      else Some s3)"
    using timer_charged [OF inv] by blast
  show ?thesis
  proof (cases "hw = NULL")
    case False
    then show ?thesis using tick_wakeup [OF c False] h by auto
  next
    case True
    show ?thesis
      using tick_next [OF c(1) _ _ inv idle] tick_stay [OF c(1) _ _ inv] c(2) h True by fastforce
  qed
qed

section \<open>System calls and the idle loop\<close>

lemma tid_to_tcb_area: "tid_to_tcb tid AND NOT (mask 28) = TCB_AREA"
proof -
  have "push_bit 10 (id_thread tid) AND NOT (mask 28) = 0"
    by (rule bit_word_eqI) (auto simp: id_thread_def bit_simps)
  then show ?thesis
    unfolding tid_to_tcb_def bit.conj_disj_distrib2 L4_NUMBITS_TCBS_def
    by (simp add: TCB_AREA_def mask_eq_exp_minus_1)
qed

lemma tid_to_tcb_not_NULL: "tid_to_tcb tid \<noteq> NULL"
  using tid_to_tcb_area [of tid] by (auto simp: TCB_AREA_def)

lemma ready_inv_set_prio:
  assumes inv: "ready_inv s Q" and t: "\<not> in_ready s t" and v: "uint v \<le> MAX_PRIO"
  shows "ready_inv (upd_tcb t (\<lambda>c. c\<lparr>priority := v\<rparr>) s) Q"
proof (rule ready_invI)
  let ?s = "upd_tcb t (\<lambda>c. c\<lparr>priority := v\<rparr>) s"
  have nq: "t \<notin> set (Q p)" for p using ready_invD(2,3) [OF inv, of t] t by blast
  have pr: "prio_of ?s u = (if u = t then uint v else prio_of s u)" for u by (simp add: prio_of_def)
  have b: "in_ready ?s u = in_ready s u" for u by (simp add: in_queue_def)
  show "ready_queue ?s p (Q p)" if "0 \<le> p" "p \<le> MAX_PRIO" for p
    using ready_queue_cong [of ?s p s "Q p"] ready_invD(1) [OF inv that] by auto
  show "u \<in> set (Q p) \<Longrightarrow> prio_of ?s u = p" for u p using ready_invD(2) [OF inv] nq pr by auto
  show "in_ready ?s u \<longleftrightarrow> u \<in> set (Q (prio_of ?s u))" for u
    unfolding b pr using ready_invD(3) [OF inv, of u] nq t by auto
  show "prio_of ?s u \<le> MAX_PRIO" for u unfolding pr using v ready_invD(4) [OF inv] by simp
  show "\<not> in_ready ?s NULL" "\<not> in_ready ?s (idle_tcb ?s)" unfolding b using ready_invD(5,6) [OF inv] by simp_all
  show "Q p \<noteq> [] \<Longrightarrow> p \<le> current_max_prio ?s" for p using ready_invD(7) [OF inv] by simp
qed (use ready_invD(8,9) [OF inv] in simp_all)

lemma param_prio_bound: "uint (param_prio p) \<le> MAX_PRIO"
proof -
  have "unat (param_prio p) < 2 ^ 8" unfolding param_prio_def unat_and_mask by simp
  then have "int (unat (param_prio p)) \<le> int 255" by (intro zle_int [THEN iffD2]) simp
  then show ?thesis by (simp add: MAX_PRIO_def)
qed

lemma wakeup_inv_ready_ops:
  "wakeup_inv s ws \<Longrightarrow> wakeup_inv (thread_enqueue_ready t s) ws"
  "wakeup_inv s ws \<Longrightarrow> wakeup_inv (thread_dequeue_ready t s) ws"
  by (rule ready_op_wakeup_inv [OF enqueue_ready_keeps], assumption)
    (rule ready_op_wakeup_inv [OF dequeue_ready_keeps], assumption)

text \<open>Changing the priority of a thread, as \<^verbatim>\<open>sys_schedule\<close> does for a queued and for an unqueued
  thread.\<close>

lemma change_prio_spec:
  fixes t u :: tptr
  assumes inv: "ready_inv s Q" and w: "wakeup_inv s ws" and v: "uint v \<le> MAX_PRIO"
  defines "s' \<equiv> (if in_ready s t
      then thread_enqueue_ready t (upd_tcb t (\<lambda>c. c\<lparr>priority := v\<rparr>) (thread_dequeue_ready t s))
      else upd_tcb t (\<lambda>c. c\<lparr>priority := v\<rparr>) s)"
  shows "\<exists>Q'. ready_inv s' Q'" and "wakeup_inv s' ws" and "in_ready s' u = in_ready s u"
    and "priority (tcbs s' u) = (if u = t then v else priority (tcbs s u))"
    and "current s' = current s" "idle_tcb s' = idle_tcb s"
proof -
  let ?s1 = "thread_dequeue_ready t s"
  let ?s2 = "upd_tcb t (\<lambda>c. c\<lparr>priority := v\<rparr>) ?s1"
  have k1: "keeps but_ready s ?s1" and k3: "keeps but_ready ?s2 (thread_enqueue_ready t ?s2)"
    by (rule dequeue_ready_keeps enqueue_ready_keeps)+
  have r1: "ready_inv ?s1 (deq s t Q)" by (rule dequeue_ready_inv [OF inv])
  have r2: "ready_inv ?s2 (deq s t Q)"
    by (rule ready_inv_set_prio [OF r1 _ v]) (simp add: dequeue_ready_bit)
  have i2: "idle_tcb ?s2 = idle_tcb s" using keeps_idle [OF k1] by simp
  have w2: "wakeup_inv ?s2 ws"
    by (rule wakeup_inv_upd [OF wakeup_inv_ready_ops(2) [OF w]]) simp_all
  have b2: "in_ready ?s2 u \<longleftrightarrow> u \<noteq> t \<and> in_ready s u" for u
    using dequeue_ready_bit [of t s u] by (auto simp: in_queue_def)
  show "\<exists>Q'. ready_inv s' Q'"
    using enqueue_ready_inv [OF r2, of t] ready_inv_set_prio [OF inv _ v, of t]
      ready_invD(5,6) [OF inv] i2 by (auto simp: s'_def)
  show "wakeup_inv s' ws"
    using wakeup_inv_ready_ops(1) [OF w2] wakeup_inv_upd [OF w] by (auto simp: s'_def)
  show "in_ready s' u = in_ready s u"
  proof (cases "in_ready s t")
    case True
    then show ?thesis by (auto simp: s'_def enqueue_ready_bit b2)
  next
    case False
    then show ?thesis by (simp add: s'_def) (simp add: in_queue_def)
  qed
  show "priority (tcbs s' u) = (if u = t then v else priority (tcbs s u))"
    using but_ready_eqD(1) [OF keeps_tcb [OF k1]] but_ready_eqD(1) [OF keeps_tcb [OF k3]]
    by (auto simp: s'_def)
  show "current s' = current s" "idle_tcb s' = idle_tcb s"
    using keeps_clock(2) [OF k1] keeps_clock(2) [OF k3] keeps_idle [OF k3] i2 by (auto simp: s'_def)
qed

lemma sys_schedule_cases:
  assumes "myself (tcbs s (tid_to_tcb tid)) = tid"
  shows "snd (sys_schedule junk param tid s) =
    (let t = tid_to_tcb tid; v = param_prio param in
     if param = NOT 0 \<or> v = priority (tcbs s t) then s
     else if in_ready s t
     then thread_enqueue_ready t (upd_tcb t (\<lambda>c. c\<lparr>priority := v\<rparr>) (thread_dequeue_ready t s))
     else upd_tcb t (\<lambda>c. c\<lparr>priority := v\<rparr>) s)"
  using assms by (simp add: sys_schedule_def Let_def)

lemma sys_schedule_spec:
  fixes tid junk param u :: dword_t
  assumes inv: "sched_inv s Q ws" and id: "myself (tcbs s (tid_to_tcb tid)) = tid"
  defines "s' \<equiv> snd (sys_schedule junk param tid s)"
  shows "\<exists>Q'. sched_inv s' Q' ws" and "in_ready s' u = in_ready s u"
    and "priority (tcbs s' u) =
       (if u = tid_to_tcb tid \<and> param \<noteq> NOT 0 then param_prio param else priority (tcbs s u))"
    and "current s' = current s" "idle_tcb s' = idle_tcb s"
proof -
  have r: "ready_inv s Q" and w: "wakeup_inv s ws" using inv by (simp_all add: sched_inv_def)
  note c = change_prio_spec [OF r w param_prio_bound [of param], of "tid_to_tcb tid"]
  show "\<exists>Q'. sched_inv s' Q' ws" "in_ready s' u = in_ready s u" "priority (tcbs s' u) =
       (if u = tid_to_tcb tid \<and> param \<noteq> NOT 0 then param_prio param else priority (tcbs s u))"
    "current s' = current s" "idle_tcb s' = idle_tcb s"
    unfolding s'_def sys_schedule_cases [OF id] Let_def
    using c inv by (auto simp: sched_inv_def)
qed

lemma set_param_prio: "param_prio (set_param_prio p v) = v AND mask 8"
  unfolding param_prio_def set_param_prio_def by (rule bit_word_eqI) (auto simp: bit_simps)


definition valid_target :: "l4_threadid_t \<Rightarrow> kstate \<Rightarrow> bool" where
  "valid_target tid s \<longleftrightarrow> \<not> l4_is_nil_id tid \<and> myself (tcbs s (tid_to_tcb tid)) = tid \<and>
     IS_RUNNING (tcbs s (tid_to_tcb tid))"

lemma sys_thread_switch_spec:
  assumes inv: "sched_inv s Q ws" and cur: "current s \<noteq> idle_tcb s" and idle: "idle_tcb s \<noteq> NULL"
  shows "\<exists>s' Q'. sys_thread_switch tid s = Some s' \<and> sched_inv s' Q' ws \<and> idle_tcb s' = idle_tcb s \<and>
     (if valid_target tid s then current s' = tid_to_tcb tid
      else \<forall>u. (in_ready s u \<or> u = current s) \<and> runnable s u \<longrightarrow>
        current s' \<noteq> idle_tcb s \<and> prio_of s u \<le> prio_of s (current s'))"
proof -
  let ?s1 = "thread_enqueue_ready (current s) s"
  have r: "ready_inv s Q" and w: "wakeup_inv s ws" and cz: "current s \<noteq> NULL"
    using inv by (simp_all add: sched_inv_def)
  have k: "keeps but_ready s ?s1" by (rule enqueue_ready_keeps)
  have r1: "ready_inv ?s1 (enq s (current s) Q)" by (rule enqueue_ready_inv [OF r cz cur])
  have w1: "wakeup_inv ?s1 ws" by (rule wakeup_inv_ready_ops(1) [OF w])
  have i1: "idle_tcb ?s1 = idle_tcb s" and c1: "current ?s1 = current s"
    by (rule keeps_idle [OF k], rule keeps_clock(2) [OF k])
  have v: "valid_target tid ?s1 = valid_target tid s"
    using but_ready_eqD(2,13) [OF keeps_tcb [OF k]] by (simp add: valid_target_def IS_RUNNING_def)
  show ?thesis
  proof (cases "valid_target tid s")
    case True
    then have "sys_thread_switch tid s = Some (if tid_to_tcb tid \<noteq> current s
        then dispatch_thread (tid_to_tcb tid) ?s1 else ?s1)"
      using v c1 by (auto simp: sys_thread_switch_def Let_def get_current_tcb_def valid_target_def)
    moreover have "dispatch_thread (current s) ?s1 = ?s1"
      using c1 by (simp add: dispatch_thread_def Let_def get_current_tcb_def)
    ultimately show ?thesis
      using True dispatch_sched_inv [OF r1 w1 tid_to_tcb_not_NULL, of tid] i1 c1
      by (auto simp: dispatch_sel)
  next
    case False
    obtain t s2 Q' where f: "find_next_thread ?s1 = Some (t, s2)" "next_found ?s1 (enq s (current s) Q) t s2"
      "sched_inv (dispatch_thread t s2) Q' ws"
      "\<forall>u. in_ready ?s1 u \<and> runnable ?s1 u \<longrightarrow> t \<noteq> idle_tcb ?s1 \<and> prio_of ?s1 u \<le> prio_of ?s1 t"
      using find_and_dispatch [OF r1 w1] idle i1 by auto
    have k2: "keeps but_ready ?s1 s2" using f(2) by (simp add: next_found_def)
    have same: "dispatch_thread (current s2) s2 = s2"
      by (simp add: dispatch_thread_def Let_def get_current_tcb_def)
    have "sys_thread_switch tid s = Some (dispatch_thread t s2)"
      using False v f(1) same unfolding sys_thread_switch_def
      by (auto simp: Let_def get_current_tcb_def valid_target_def)
    then show ?thesis
      using False f(3,4) i1 keeps_idle [OF k2] keeps_runnable [OF k] keeps_ready_prio [OF k]
      by (auto simp: dispatch_sel enqueue_ready_bit)
  qed
qed

lemma idle_step_spec:
  assumes inv: "sched_inv s Q ws" and cur: "current s = idle_tcb s" and idle: "idle_tcb s \<noteq> NULL"
  shows "\<exists>s' Q'. idle_step s = Some s' \<and> sched_inv s' Q' ws \<and> idle_tcb s' = idle_tcb s \<and>
     (\<forall>u. in_ready s u \<and> runnable s u \<longrightarrow> current s' \<noteq> idle_tcb s \<and> prio_of s u \<le> prio_of s (current s'))"
proof -
  have r: "ready_inv s Q" and w: "wakeup_inv s ws" using inv by (simp_all add: sched_inv_def)
  obtain t s2 Q' where f: "find_next_thread s = Some (t, s2)" "next_found s Q t s2"
    "sched_inv (dispatch_thread t s2) Q' ws"
    "\<forall>u. in_ready s u \<and> runnable s u \<longrightarrow> t \<noteq> idle_tcb s \<and> prio_of s u \<le> prio_of s t"
    using find_and_dispatch [OF r w idle] by auto
  have k: "keeps but_ready s s2" using f(2) by (simp add: next_found_def)
  have i2: "idle_tcb s2 = idle_tcb s" "current s2 = idle_tcb s"
    using keeps_idle [OF k] keeps_clock(2) [OF k] cur by simp_all
  have "dispatch_thread (idle_tcb s) s2 = s2"
    using i2 by (simp add: dispatch_thread_def Let_def get_current_tcb_def)
  then have "idle_step s = Some (dispatch_thread t s2)"
    using f(1) i2 by (auto simp: idle_step_def get_idle_tcb_def)
  then show ?thesis using f(3,4) i2 by (auto simp: dispatch_sel)
qed

section \<open>Runs of the scheduler\<close>

text \<open>One scheduling event: a timer tick, a system call of the running thread, or a turn of the
  idle loop.\<close>

inductive sched_step :: "kstate \<Rightarrow> kstate \<Rightarrow> bool" where
  tick: "handle_timer_interrupt s = Some s' \<Longrightarrow> sched_step s s'"
| thread_switch: "current s \<noteq> idle_tcb s \<Longrightarrow> sys_thread_switch tid s = Some s' \<Longrightarrow> sched_step s s'"
| schedule: "current s \<noteq> idle_tcb s \<Longrightarrow> s' = snd (sys_schedule junk param tid s) \<Longrightarrow> sched_step s s'"
| idle: "current s = idle_tcb s \<Longrightarrow> idle_step s = Some s' \<Longrightarrow> sched_step s s'"

inductive_cases sched_stepE: "sched_step s s'"

inductive sched_run :: "kstate \<Rightarrow> kstate \<Rightarrow> bool" where
  start: "sched_run s s"
| more: "sched_run s s' \<Longrightarrow> sched_step s' s'' \<Longrightarrow> sched_run s s''"

lemma boot_inv: "idle \<noteq> NULL \<Longrightarrow> sched_inv (boot_state idle) (\<lambda>_. []) []"
  by (auto simp: sched_inv_def ready_inv_def wakeup_inv_def sentinel_ring_def boot_state_def
      ready_queue_def in_queue_def prio_of_def MAX_PRIO_def zero_tcb_def TS_QUEUE_READY_def TS_QUEUE_PRESENT_def TS_QUEUE_WAKEUP_def)

lemma schedule_step_inv:
  assumes "sched_inv s Q ws"
  shows "\<exists>Q'. sched_inv (snd (sys_schedule junk param tid s)) Q' ws \<and>
     idle_tcb (snd (sys_schedule junk param tid s)) = idle_tcb s"
proof (cases "myself (tcbs s (tid_to_tcb tid)) = tid")
  case True
  then show ?thesis using sys_schedule_spec(1,5) [OF assms True] by blast
next
  case False
  then show ?thesis using assms by (auto simp: sys_schedule_def Let_def)
qed

lemma sched_step_inv:
  assumes "sched_step s s'" "sched_inv s Q ws" "idle_tcb s \<noteq> NULL"
  shows "\<exists>Q' ws'. sched_inv s' Q' ws' \<and> idle_tcb s' = idle_tcb s"
  using assms(1)
proof cases
  case tick
  then show ?thesis using timer_tick [OF assms(2,3)] by (auto simp: tick_outcome_def Let_def)
next
  case (thread_switch tid)
  then show ?thesis using sys_thread_switch_spec [OF assms(2) _ assms(3), of tid] by auto
next
  case (schedule junk param tid)
  then show ?thesis using schedule_step_inv [OF assms(2), of junk param tid] by auto
next
  case idle
  then show ?thesis using idle_step_spec [OF assms(2) _ assms(3)] by auto
qed

lemma sched_run_inv:
  "sched_run s s' \<Longrightarrow> sched_inv s Q ws \<Longrightarrow> idle_tcb s \<noteq> NULL \<Longrightarrow>
     \<exists>Q' ws'. sched_inv s' Q' ws' \<and> idle_tcb s' = idle_tcb s"
proof (induction rule: sched_run.induct)
  case (start s)
  then show ?case by blast
next
  case (more s s' s'')
  then obtain Q' ws' where "sched_inv s' Q' ws'" "idle_tcb s' = idle_tcb s" by blast
  then show ?case using sched_step_inv [OF more.hyps(2)] more.prems(2) by metis
qed

section \<open>Properties\<close>

text \<open>Three threads beside the idle thread: the current one of priority 5, one of priority 7 in the
  ready queue, and one of priority 9 that waits for a timeout at time 1000.\<close>

definition demo_sched :: kstate where
  "demo_sched =
     (let s = (boot_state 0xF0110000)\<lparr>current := 0xE0020000\<rparr>;
          s = s\<lparr>tcbs := (tcbs s)
            (0xE0020000 := zero_tcb\<lparr>priority := 5, thread_state := TS_RUNNING, timeslice := 10000,
               current_timeslice := 5000, myself := 0x04020001\<rparr>,
             0xE0030000 := zero_tcb\<lparr>priority := 7, thread_state := TS_RUNNING, timeslice := 10000\<rparr>,
             0xE0040000 := zero_tcb\<lparr>priority := 9, thread_state := TS_WAITING, timeslice := 10000,
               absolute_timeout := 1000\<rparr>)\<rparr>
      in thread_enqueue_wakeup 0xE0040000 (thread_enqueue_ready 0xE0030000 s))"

lemma demo_base_inv:
  "sched_inv ((boot_state 0xF0110000)\<lparr>current := c, tcbs := (tcbs (boot_state 0xF0110000))
     (0xE0020000 := a, 0xE0030000 := b, 0xE0040000 := d)\<rparr>) (\<lambda>_. []) []"
  if "c \<noteq> NULL" "queue_state a = 0" "queue_state b = 0" "queue_state d = 0"
    "priority a \<le> 255" "priority b \<le> 255" "priority d \<le> 255"
  using that
  by (auto simp: sched_inv_def ready_inv_def wakeup_inv_def sentinel_ring_def boot_state_def
      ready_queue_def in_queue_def prio_of_def MAX_PRIO_def zero_tcb_def word_le_def TS_QUEUE_READY_def
      TS_QUEUE_PRESENT_def TS_QUEUE_WAKEUP_def)

lemma demo_sched_inv:
  shows "\<exists>Q. sched_inv demo_sched Q [0xE0040000]"
    and "idle_tcb demo_sched = 0xF0110000" and "current demo_sched = 0xE0020000"
    and "in_ready demo_sched u \<longleftrightarrow> u = 0xE0030000" and "clock demo_sched = 0"
    and "but_queues (tcbs demo_sched u) = but_queues (
        if u = 0xE0020000 then zero_tcb\<lparr>priority := 5, thread_state := TS_RUNNING, timeslice := 10000,
          current_timeslice := 5000, myself := 0x04020001\<rparr>
        else if u = 0xE0030000 then zero_tcb\<lparr>priority := 7, thread_state := TS_RUNNING, timeslice := 10000\<rparr>
        else if u = 0xE0040000 then zero_tcb\<lparr>priority := 9, thread_state := TS_WAITING,
          timeslice := 10000, absolute_timeout := 1000\<rparr>
        else tcbs (boot_state 0xF0110000) u)"
proof -
  define s0 where "s0 = (boot_state 0xF0110000)\<lparr>current := 0xE0020000,
    tcbs := (tcbs (boot_state 0xF0110000))
      (0xE0020000 := zero_tcb\<lparr>priority := 5, thread_state := TS_RUNNING, timeslice := 10000,
         current_timeslice := 5000, myself := 0x04020001\<rparr>,
       0xE0030000 := zero_tcb\<lparr>priority := 7, thread_state := TS_RUNNING, timeslice := 10000\<rparr>,
       0xE0040000 := zero_tcb\<lparr>priority := 9, thread_state := TS_WAITING, timeslice := 10000,
         absolute_timeout := 1000\<rparr>)\<rparr>"
  let ?s1 = "thread_enqueue_ready 0xE0030000 s0"
  have d: "demo_sched = thread_enqueue_wakeup 0xE0040000 ?s1" by (simp add: demo_sched_def s0_def Let_def)
  have i0: "sched_inv s0 (\<lambda>_. []) []" unfolding s0_def by (rule demo_base_inv) (simp_all add: zero_tcb_def)
  have id0: "idle_tcb s0 = 0xF0110000" "current s0 = 0xE0020000" "clock s0 = 0"
    by (simp_all add: s0_def boot_state_def)
  have q0: "\<not> in_ready s0 u" for u
    using ready_invD(3) [of s0 "\<lambda>_. []" u] i0 by (simp add: sched_inv_def)
  have k1: "keeps but_ready s0 ?s1" and k2: "keeps but_wakeup ?s1 demo_sched"
    unfolding d by (rule enqueue_ready_keeps enqueue_wakeup_keeps)+
  have r1: "ready_inv ?s1 (enq s0 0xE0030000 (\<lambda>_. []))"
    by (rule enqueue_ready_inv) (use i0 id0 in \<open>simp_all add: sched_inv_def\<close>)
  have w1: "wakeup_inv ?s1 []" by (rule ready_op_wakeup_inv [OF k1]) (use i0 in \<open>simp add: sched_inv_def\<close>)
  show id: "idle_tcb demo_sched = 0xF0110000" "current demo_sched = 0xE0020000" "clock demo_sched = 0"
    using keeps_idle [OF k1] keeps_idle [OF k2] keeps_clock [OF k1] keeps_clock [OF k2] id0 by simp_all
  have "wakeup_inv demo_sched [0xE0040000]"
    using enqueue_wakeup_inv [OF w1, of "0xE0040000"] keeps_idle [OF k1] id0 by (simp add: d)
  moreover have "ready_inv demo_sched (enq s0 0xE0030000 (\<lambda>_. []))"
    by (rule wakeup_op_ready_inv [OF k2 _ _ r1]) (simp_all add: d wakeup_keeps_prio_queue)
  ultimately show "\<exists>Q. sched_inv demo_sched Q [0xE0040000]" using id by (auto simp: sched_inv_def)
  show "in_ready demo_sched u \<longleftrightarrow> u = 0xE0030000"
    using but_wakeup_bits [OF keeps_tcb [OF k2], of 0 u] enqueue_ready_bit [of "0xE0030000" s0 u] q0
    by (simp add: qbit)
  show "but_queues (tcbs demo_sched u) = but_queues (
        if u = 0xE0020000 then zero_tcb\<lparr>priority := 5, thread_state := TS_RUNNING, timeslice := 10000,
          current_timeslice := 5000, myself := 0x04020001\<rparr>
        else if u = 0xE0030000 then zero_tcb\<lparr>priority := 7, thread_state := TS_RUNNING, timeslice := 10000\<rparr>
        else if u = 0xE0040000 then zero_tcb\<lparr>priority := 9, thread_state := TS_WAITING,
          timeslice := 10000, absolute_timeout := 1000\<rparr>
        else tcbs (boot_state 0xF0110000) u)"
    using but_queues_keeps(1) [OF k1, of u] but_queues_keeps(2) [OF k2, of u] by (auto simp: s0_def)
qed

lemmas demo_tcb = but_queues_sel [where b = False, simplified, OF demo_sched_inv(6)]

text \<open>\<^bold>\<open>C6.\<close> On well-formed ready queues \<^verbatim>\<open>find_next_thread\<close> returns. If it returns a thread other than
  idle, that thread is queued, running and has time left, no queued runnable thread has a higher
  priority, it is the first runnable one after the head of its queue, it becomes the head of that
  queue, and no runnable thread leaves the queues. If it returns the idle thread, no queued thread
  is runnable and all queues are empty afterwards. Apart from ready links and bits nothing of any
  thread changes.\<close>

theorem find_next_thread_correct:
  assumes inv: "ready_inv s Q"
  shows "\<exists>t s' Q'. find_next_thread s = Some (t, s') \<and> ready_inv s' Q' \<and> keeps but_ready s s' \<and>
    (if t = idle_tcb s then (\<forall>u. \<not> (in_ready s u \<and> runnable s u)) \<and> Q' = (\<lambda>_. [])
     else in_ready s t \<and> runnable s t \<and> t = hd (filter (runnable s) (rotate1 (Q (prio_of s t)))) \<and>
       (\<forall>u. in_ready s u \<and> runnable s u \<longrightarrow> prio_of s u \<le> prio_of s t \<and> in_ready s' u) \<and>
       prio_queue s' (prio_of s t) = t)"
proof -
  obtain t s' where f: "find_next_thread s = Some (t, s')" "next_found s Q t s'"
    using find_next_thread_spec [OF inv] by blast
  then have k: "keeps but_ready s s'" by (simp add: next_found_def)
  show ?thesis
  proof (cases "t = idle_tcb s")
    case True
    then show ?thesis using f k next_found_idle [OF inv f(2) True] by auto
  next
    case False
    then show ?thesis using f k next_found_thread [OF inv f(2) False] by auto
  qed
qed

theorem find_next_thread_correct_witness:
  "\<exists>s'. find_next_thread demo_sched = Some (0xE0030000, s')"
proof -
  obtain Q where inv: "ready_inv demo_sched Q" using demo_sched_inv(1) by (auto simp: sched_inv_def)
  have run: "runnable demo_sched 0xE0030000"
    by (simp add: runnable_def IS_RUNNING_def demo_tcb running_state word_sless_alt)
  from find_next_thread_correct [OF inv] run demo_sched_inv(4)
  show ?thesis by (auto split: if_splits)
qed

text \<open>\<^bold>\<open>C14.\<close> A timer tick on well-formed queues returns with well-formed queues, advances the clock by
  the time quantum, takes exactly the expired threads off the wakeup queue and sets exactly these running: every other
  thread keeps its state. The current thread is charged for one quantum. If an expired thread has a
  higher priority than the current one, the processor goes to an expired thread of the highest priority; otherwise, while
  the time slice lasts, the current thread keeps it. When the slice is used up, it is refilled, and the processor
  goes to a running thread with a time slice that was queued, has just woken up or was the current one, of the highest
  priority among these; it goes to the idle thread only if there is no such thread.\<close>

theorem timer_interrupt_correct:
  assumes "sched_inv s Q ws" and "idle_tcb s \<noteq> NULL"
  shows "\<exists>s'. handle_timer_interrupt s = Some s' \<and> (\<exists>Q' ws'. sched_inv s' Q' ws') \<and> tick_outcome s ws s'"
  using timer_tick [OF assms] by blast

theorem timer_interrupt_correct_witness:
  "\<exists>s'. handle_timer_interrupt demo_sched = Some s' \<and> current s' = 0xE0040000 \<and> clock s' = 1953"
proof -
  obtain Q where inv: "sched_inv demo_sched Q [0xE0040000]" using demo_sched_inv(1) by blast
  from timer_interrupt_correct [OF inv] obtain s' where
    s': "handle_timer_interrupt demo_sched = Some s'" "tick_outcome demo_sched [0xE0040000] s'"
    using demo_sched_inv(2) by auto
  then show ?thesis
    by (auto simp: tick_outcome_def timer_now_def Let_def demo_tcb demo_sched_inv split: if_splits)
qed

text \<open>\<^verbatim>\<open>sys_thread_switch\<close> returns with well-formed queues. A valid, running target gets the
  processor. Otherwise it goes to a thread whose priority is at least that of every runnable
  thread that was queued and of the caller, so a runnable caller never switches to idle.\<close>

theorem thread_switch_correct:
  assumes "sched_inv s Q ws" and "current s \<noteq> idle_tcb s" and "idle_tcb s \<noteq> NULL"
  shows "\<exists>s'. sys_thread_switch tid s = Some s' \<and> (\<exists>Q'. sched_inv s' Q' ws) \<and>
    (if \<not> l4_is_nil_id tid \<and> myself (tcbs s (tid_to_tcb tid)) = tid \<and> IS_RUNNING (tcbs s (tid_to_tcb tid))
     then current s' = tid_to_tcb tid
     else \<forall>u. (in_ready s u \<or> u = current s) \<and> runnable s u \<longrightarrow>
       current s' \<noteq> idle_tcb s \<and> prio_of s u \<le> prio_of s (current s'))"
  using sys_thread_switch_spec [OF assms, of tid] unfolding valid_target_def by blast

theorem thread_switch_correct_witness:
  "\<exists>s'. sys_thread_switch L4_NIL_ID demo_sched = Some s' \<and> current s' \<noteq> 0xF0110000 \<and>
     7 \<le> prio_of demo_sched (current s')"
proof -
  obtain Q where inv: "sched_inv demo_sched Q [0xE0040000]" using demo_sched_inv(1) by blast
  have run: "runnable demo_sched 0xE0030000" "in_ready demo_sched 0xE0030000"
    by (simp_all add: runnable_def IS_RUNNING_def demo_tcb running_state word_sless_alt demo_sched_inv)
  have p: "prio_of demo_sched 0xE0030000 = 7" by (simp add: prio_of_def demo_tcb)
  from thread_switch_correct [OF inv, of L4_NIL_ID] run p show ?thesis
    by (auto simp: demo_sched_inv l4_is_nil_id_def)
qed

text \<open>\<^verbatim>\<open>sys_schedule\<close> on a valid thread identifier returns the old priority in the low byte,
  sets the priority to the low byte of the parameter unless the parameter is all ones, and keeps
  the queues well-formed and every thread's membership as it was, so that a queued thread is in
  the queue of its new priority. On an invalid identifier it returns all ones and changes nothing.\<close>

theorem sys_schedule_correct:
  assumes inv: "sched_inv s Q ws"
  shows "if myself (tcbs s (tid_to_tcb tid)) = tid then
      (case sys_schedule junk param tid s of (old, s') \<Rightarrow>
         old AND mask 8 = priority (tcbs s (tid_to_tcb tid)) \<and>
         (\<exists>Q'. sched_inv s' Q' ws) \<and> (\<forall>u. in_ready s' u = in_ready s u) \<and>
         (\<forall>u. priority (tcbs s' u) = (if u = tid_to_tcb tid \<and> param \<noteq> 0xffffffff
            then param AND mask 8 else priority (tcbs s u))))
    else sys_schedule junk param tid s = (0xffffffff, s)"
proof (cases "myself (tcbs s (tid_to_tcb tid)) = tid")
  case True
  have p: "priority (tcbs s (tid_to_tcb tid)) AND mask 8 = priority (tcbs s (tid_to_tcb tid))"
    (is "?w AND _ = _")
  proof -
    have "?w \<le> 255" using ready_invD(4) [of s Q "tid_to_tcb tid"] inv
      by (simp add: sched_inv_def prio_of_def MAX_PRIO_def word_le_def)
    then have "unat ?w \<le> 255" by (simp add: word_le_nat_alt)
    then show ?thesis by (simp add: word_unat_eq_iff unat_and_mask)
  qed
  have "fst (sys_schedule junk param tid s) AND mask 8 = priority (tcbs s (tid_to_tcb tid))"
    using set_param_prio [of junk "priority (tcbs s (tid_to_tcb tid))"] p True
    by (simp add: sys_schedule_def Let_def param_prio_def)
  with sys_schedule_spec [OF inv True, of junk param] True show ?thesis
    by (auto simp: param_prio_def split: prod.split)
next
  case False
  then show ?thesis by (simp add: sys_schedule_def Let_def INVALID_SCHED_PARAM_def)
qed

theorem sys_schedule_correct_witness:
  "\<exists>old s'. sys_schedule 0 9 0x04020001 demo_sched = (old, s') \<and> old AND mask 8 = 5 \<and>
     priority (tcbs s' 0xE0020000) = 9"
proof -
  obtain Q where inv: "sched_inv demo_sched Q [0xE0040000]" using demo_sched_inv(1) by blast
  have t: "tid_to_tcb 0x04020001 = 0xE0020000"
    by (simp add: tid_to_tcb_def id_thread_def L4_NUMBITS_TCBS_def TCB_AREA_def mask_eq_exp_minus_1)
  from sys_schedule_correct [OF inv, of "0x04020001" 9 0] show ?thesis
    by (auto simp: t demo_tcb mask_eq_exp_minus_1 split: prod.splits)
qed

text \<open>\<^bold>\<open>C13.\<close> From a state with well-formed queues, every sequence of timer ticks, thread switches,
  priority changes and turns of the idle loop leads to a state with well-formed queues, and there
  every one of these events returns: no scheduler loop runs for ever.\<close>

theorem sched_run_safe:
  assumes run: "sched_run s s'" and inv: "sched_inv s Q ws" and idle: "idle_tcb s \<noteq> NULL"
  shows "(\<exists>Q' ws'. sched_inv s' Q' ws') \<and> handle_timer_interrupt s' \<noteq> None \<and>
    (if current s' = idle_tcb s' then idle_step s' \<noteq> None else sys_thread_switch tid s' \<noteq> None)"
proof -
  obtain Q' ws' where i: "sched_inv s' Q' ws'" "idle_tcb s' \<noteq> NULL"
    using sched_run_inv [OF run inv idle] idle by auto
  from timer_tick [OF i] sys_thread_switch_spec [OF i(1) _ i(2), of tid] idle_step_spec [OF i(1) _ i(2)]
  have "handle_timer_interrupt s' \<noteq> None"
    "current s' = idle_tcb s' \<Longrightarrow> idle_step s' \<noteq> None"
    "current s' \<noteq> idle_tcb s' \<Longrightarrow> sys_thread_switch tid s' \<noteq> None" by auto
  with i show ?thesis by auto
qed

theorem sched_run_safe_witness:
  "\<exists>s'. sched_run demo_sched s' \<and> current s' = 0xE0040000 \<and> handle_timer_interrupt s' \<noteq> None"
proof -
  obtain Q where inv: "sched_inv demo_sched Q [0xE0040000]" using demo_sched_inv(1) by blast
  obtain s' where s': "handle_timer_interrupt demo_sched = Some s'" "tick_outcome demo_sched [0xE0040000] s'"
    using timer_tick [OF inv] demo_sched_inv(2) by auto
  have c: "current s' = 0xE0040000"
    using s'(2) by (auto simp: tick_outcome_def timer_now_def Let_def demo_tcb demo_sched_inv split: if_splits)
  have "sched_run demo_sched s'" using s'(1) by (blast intro: sched_run.intros sched_step.intros)
  with c sched_run_safe [OF this inv] show ?thesis by (auto simp: demo_sched_inv)
qed

end
