(* ===== verification/Mapnodes.thy ===== *)
theory Mapnodes
  imports Mdb_Alloc
begin

text \<open>
  Mapping nodes, root nodes and dual nodes (\<^verbatim>\<open>include/x86/mapping.h\<close>, \<^verbatim>\<open>include/mapping.h\<close>) and x86 page
  table entries (\<^verbatim>\<open>include/x86/memory.h\<close>) in the flat memory. A node is its address; its words are at
  offsets 0, 4 and 8. The C++ methods overloaded on the type of the other node carry a suffix here: \<open>_m\<close>
  for mapping nodes, \<open>_r\<close> for root nodes. The lock methods are empty on one processor and have no counterpart,
  except \<open>clear_locks\<close>, which changes the word.
\<close>

section \<open>Mapping nodes\<close>

definition MDB_NEXT_ROOT :: dword_t where "MDB_NEXT_ROOT = 1"
definition MDB_PREV_ROOT :: dword_t where "MDB_PREV_ROOT = 1"
definition MDB_SPACE_MASK :: dword_t where "MDB_SPACE_MASK = 0xfffff000"
definition MDB_DEPTH_MASK :: dword_t where "MDB_DEPTH_MASK = 0xff"
definition MDB_UPLOCK :: dword_t where "MDB_UPLOCK = 0x100"
definition MDB_DOWNLOCK :: dword_t where "MDB_DOWNLOCK = 0x200"

definition mn_w1 :: "ptr_t \<Rightarrow> 'a kmem_scheme \<Rightarrow> dword_t" where "mn_w1 n s = mem s n"
definition mn_w2 :: "ptr_t \<Rightarrow> 'a kmem_scheme \<Rightarrow> dword_t" where "mn_w2 n s = mem s (n + 4)"
definition mn_w3 :: "ptr_t \<Rightarrow> 'a kmem_scheme \<Rightarrow> dword_t" where "mn_w3 n s = mem s (n + 8)"
definition sizeof_mnode_t :: dword_t where "sizeof_mnode_t = 12"

definition clear_locks :: "ptr_t \<Rightarrow> 'a kmem_scheme \<Rightarrow> 'a kmem_scheme" where
  "clear_locks n s = wr (n + 4) (mn_w2 n s AND NOT (MDB_UPLOCK OR MDB_DOWNLOCK)) s"

definition get_pgent_m :: "ptr_t \<Rightarrow> ptr_t \<Rightarrow> 'a kmem_scheme \<Rightarrow> ptr_t" where
  "get_pgent_m n prev s = mn_w1 n s XOR prev"

definition get_pgent_r :: "ptr_t \<Rightarrow> ptr_t \<Rightarrow> 'a kmem_scheme \<Rightarrow> ptr_t" where
  "get_pgent_r n prev s = (mn_w1 n s XOR prev) AND NOT MDB_PREV_ROOT"

definition get_prevm :: "ptr_t \<Rightarrow> ptr_t \<Rightarrow> 'a kmem_scheme \<Rightarrow> ptr_t" where
  "get_prevm n pg s = (mn_w1 n s XOR pg) AND NOT MDB_PREV_ROOT"

definition get_prevr :: "ptr_t \<Rightarrow> ptr_t \<Rightarrow> 'a kmem_scheme \<Rightarrow> ptr_t" where
  "get_prevr n pg s = (mn_w1 n s XOR pg) AND NOT MDB_PREV_ROOT"

definition set_backlink_m :: "ptr_t \<Rightarrow> ptr_t \<Rightarrow> ptr_t \<Rightarrow> 'a kmem_scheme \<Rightarrow> 'a kmem_scheme" where
  "set_backlink_m n prev pg s = wr n (prev XOR pg) s"

definition set_backlink_r :: "ptr_t \<Rightarrow> ptr_t \<Rightarrow> ptr_t \<Rightarrow> 'a kmem_scheme \<Rightarrow> 'a kmem_scheme" where
  "set_backlink_r n prev pg s = wr n ((prev XOR pg) OR MDB_PREV_ROOT) s"

definition is_prev_root :: "ptr_t \<Rightarrow> 'a kmem_scheme \<Rightarrow> bool" where
  "is_prev_root n s \<longleftrightarrow> mn_w1 n s AND MDB_PREV_ROOT \<noteq> 0"

definition get_nextm :: "ptr_t \<Rightarrow> 'a kmem_scheme \<Rightarrow> ptr_t" where
  "get_nextm n s = mn_w3 n s AND NOT MDB_NEXT_ROOT"

definition get_nextr :: "ptr_t \<Rightarrow> 'a kmem_scheme \<Rightarrow> ptr_t" where
  "get_nextr n s = mn_w3 n s AND NOT MDB_NEXT_ROOT"

definition set_next_m :: "ptr_t \<Rightarrow> ptr_t \<Rightarrow> 'a kmem_scheme \<Rightarrow> 'a kmem_scheme" where
  "set_next_m n m s = wr (n + 8) m s"

definition set_next_r :: "ptr_t \<Rightarrow> ptr_t \<Rightarrow> 'a kmem_scheme \<Rightarrow> 'a kmem_scheme" where
  "set_next_r n r s = wr (n + 8) (r OR MDB_NEXT_ROOT) s"

definition is_next_root :: "ptr_t \<Rightarrow> 'a kmem_scheme \<Rightarrow> bool" where
  "is_next_root n s \<longleftrightarrow> mn_w3 n s AND MDB_NEXT_ROOT \<noteq> 0"

definition get_space :: "ptr_t \<Rightarrow> 'a kmem_scheme \<Rightarrow> ptr_t" where
  "get_space n s = mn_w2 n s AND MDB_SPACE_MASK"

definition set_space :: "ptr_t \<Rightarrow> ptr_t \<Rightarrow> 'a kmem_scheme \<Rightarrow> 'a kmem_scheme" where
  "set_space n sp s = wr (n + 4) ((mn_w2 n s AND NOT MDB_SPACE_MASK) OR (sp AND MDB_SPACE_MASK)) s"

definition get_depth :: "ptr_t \<Rightarrow> 'a kmem_scheme \<Rightarrow> dword_t" where
  "get_depth n s = mn_w2 n s AND MDB_DEPTH_MASK"

definition set_depth :: "ptr_t \<Rightarrow> dword_t \<Rightarrow> 'a kmem_scheme \<Rightarrow> 'a kmem_scheme" where
  "set_depth n d s = wr (n + 4) ((mn_w2 n s AND NOT MDB_DEPTH_MASK) OR (d AND MDB_DEPTH_MASK)) s"

section \<open>Root nodes and dual nodes\<close>

definition MDB_RNEXT_ROOT :: dword_t where "MDB_RNEXT_ROOT = 1"
definition MDB_RDOWNLOCK :: dword_t where "MDB_RDOWNLOCK = 2"
definition MDB_RPTR_MASK :: dword_t where "MDB_RPTR_MASK = 0xfffffffc"

definition rn_clear_locks :: "ptr_t \<Rightarrow> 'a kmem_scheme \<Rightarrow> 'a kmem_scheme" where
  "rn_clear_locks r s = wr r (mem s r AND NOT MDB_RDOWNLOCK) s"

definition rn_get_map :: "ptr_t \<Rightarrow> 'a kmem_scheme \<Rightarrow> ptr_t" where
  "rn_get_map r s = mem s r AND MDB_RPTR_MASK"

definition set_ptr_m :: "ptr_t \<Rightarrow> ptr_t \<Rightarrow> 'a kmem_scheme \<Rightarrow> 'a kmem_scheme" where
  "set_ptr_m r m s = wr r (m OR MDB_RDOWNLOCK) s"

definition set_ptr_r :: "ptr_t \<Rightarrow> ptr_t \<Rightarrow> 'a kmem_scheme \<Rightarrow> 'a kmem_scheme" where
  "set_ptr_r r d s = wr r (d OR MDB_RNEXT_ROOT OR MDB_RDOWNLOCK) s"

definition rn_is_next_root :: "ptr_t \<Rightarrow> 'a kmem_scheme \<Rightarrow> bool" where
  "rn_is_next_root r s \<longleftrightarrow> mem s r AND MDB_RNEXT_ROOT \<noteq> 0"

definition dual_map :: "ptr_t \<Rightarrow> ptr_t" where "dual_map d = d"
definition dual_root :: "ptr_t \<Rightarrow> ptr_t" where "dual_root d = d + 4"
definition sizeof_dualnode_t :: dword_t where "sizeof_dualnode_t = 8"
definition sizeof_rnode_t :: dword_t where "sizeof_rnode_t = 4"

section \<open>Page table entries\<close>

definition PAGE_VALID :: dword_t where "PAGE_VALID = 0x1"
definition PAGE_WRITABLE :: dword_t where "PAGE_WRITABLE = 0x2"
definition PAGE_USER :: dword_t where "PAGE_USER = 0x4"
definition PAGE_CACHE_DISABLE :: dword_t where "PAGE_CACHE_DISABLE = 0x10"
definition PAGE_SUPER :: dword_t where "PAGE_SUPER = 0x80"
definition PAGE_FLAGS_MASK :: dword_t where "PAGE_FLAGS_MASK = 0x17f"
definition PAGE_USER_BITS :: dword_t where "PAGE_USER_BITS = PAGE_VALID OR PAGE_USER"
definition PAGE_USER_TBITS :: dword_t where "PAGE_USER_TBITS = PAGE_VALID OR PAGE_USER OR PAGE_WRITABLE"

definition is_valid :: "ptr_t \<Rightarrow> 'a kmem_scheme \<Rightarrow> bool" where
  "is_valid pg s \<longleftrightarrow> mem s pg AND PAGE_VALID \<noteq> 0"

definition is_writable :: "ptr_t \<Rightarrow> 'a kmem_scheme \<Rightarrow> bool" where
  "is_writable pg s \<longleftrightarrow> mem s pg AND PAGE_WRITABLE \<noteq> 0"

definition is_subtree :: "ptr_t \<Rightarrow> nat \<Rightarrow> 'a kmem_scheme \<Rightarrow> bool" where
  "is_subtree pg pgsize s \<longleftrightarrow> pgsize = 1 \<and> mem s pg AND PAGE_SUPER = 0"

definition pg_address :: "ptr_t \<Rightarrow> 'a kmem_scheme \<Rightarrow> dword_t" where
  "pg_address pg s = mem s pg AND PAGE_MASK"

definition subtree :: "ptr_t \<Rightarrow> 'a kmem_scheme \<Rightarrow> ptr_t" where
  "subtree pg s = phys_to_virt (mem s pg AND PAGE_MASK)"

definition GET_MAPNODE :: "ptr_t \<Rightarrow> 'a kmem_scheme \<Rightarrow> dword_t" where
  "GET_MAPNODE pg s = mem s (pg + PAGE_SIZE)"

definition SET_MAPNODE :: "ptr_t \<Rightarrow> dword_t \<Rightarrow> 'a kmem_scheme \<Rightarrow> 'a kmem_scheme" where
  "SET_MAPNODE pg x s = wr (pg + PAGE_SIZE) x s"

definition mapnode :: "ptr_t \<Rightarrow> dword_t \<Rightarrow> 'a kmem_scheme \<Rightarrow> ptr_t" where
  "mapnode pg va s = GET_MAPNODE pg s XOR va"

definition pg_vaddr :: "ptr_t \<Rightarrow> ptr_t \<Rightarrow> 'a kmem_scheme \<Rightarrow> dword_t" where
  "pg_vaddr pg m s = GET_MAPNODE pg s XOR m"

definition pg_clear :: "ptr_t \<Rightarrow> 'a kmem_scheme \<Rightarrow> 'a kmem_scheme" where
  "pg_clear pg s = SET_MAPNODE pg 0 (wr pg 0 s)"

text \<open>A new second-level table is two pages: the entries and, behind them, their mapping nodes. The code does
  not check the allocation: for the null pointer it stores the translation of address 0.\<close>

definition make_subtree :: "ptr_t \<Rightarrow> 'a kmem_scheme \<Rightarrow> 'a kmem_scheme option" where
  "make_subtree pg s =
     map_option (\<lambda>(p, s). wr pg (virt_to_phys p OR PAGE_USER_TBITS) s) (kmem_alloc (PAGE_SIZE * 2) s)"

definition remove_subtree :: "ptr_t \<Rightarrow> 'a kmem_scheme \<Rightarrow> 'a kmem_scheme option" where
  "remove_subtree pg s =
     map_option (\<lambda>s. wr pg 0 s) (kmem_free (phys_to_virt (mem s pg AND PAGE_MASK)) (PAGE_SIZE * 2) s)"

definition set_entry :: "ptr_t \<Rightarrow> dword_t \<Rightarrow> bool \<Rightarrow> nat \<Rightarrow> 'a kmem_scheme \<Rightarrow> 'a kmem_scheme" where
  "set_entry pg addr writable pgsize s =
     wr pg ((addr AND PAGE_MASK) OR PAGE_USER_BITS OR (if writable then PAGE_WRITABLE else 0) OR
            (if pgsize = 1 then PAGE_SUPER else 0)) s"

definition set_writable :: "ptr_t \<Rightarrow> 'a kmem_scheme \<Rightarrow> 'a kmem_scheme" where
  "set_writable pg s = wr pg (mem s pg OR PAGE_WRITABLE) s"

definition set_readonly :: "ptr_t \<Rightarrow> 'a kmem_scheme \<Rightarrow> 'a kmem_scheme" where
  "set_readonly pg s = wr pg (mem s pg AND NOT PAGE_WRITABLE) s"

definition set_uncacheable :: "ptr_t \<Rightarrow> 'a kmem_scheme \<Rightarrow> 'a kmem_scheme" where
  "set_uncacheable pg s = wr pg (mem s pg OR PAGE_CACHE_DISABLE) s"

definition set_mapnode :: "ptr_t \<Rightarrow> ptr_t \<Rightarrow> dword_t \<Rightarrow> 'a kmem_scheme \<Rightarrow> 'a kmem_scheme" where
  "set_mapnode pg m va s = SET_MAPNODE pg (m XOR va) s"

definition pg_next :: "ptr_t \<Rightarrow> dword_t \<Rightarrow> ptr_t" where
  "pg_next pg num = pg + 4 * num"

definition pg_copy :: "ptr_t \<Rightarrow> ptr_t \<Rightarrow> 'a kmem_scheme \<Rightarrow> 'a kmem_scheme" where
  "pg_copy pg from s = wr pg (mem s from) s"

definition set_address :: "ptr_t \<Rightarrow> nat \<Rightarrow> dword_t \<Rightarrow> 'a kmem_scheme \<Rightarrow> 'a kmem_scheme" where
  "set_address pg pgsize addr s =
     wr pg ((mem s pg AND NOT PAGE_MASK) OR (addr AND PAGE_MASK) OR (if pgsize = 1 then PAGE_SUPER else 0)) s"

definition set_flags :: "ptr_t \<Rightarrow> dword_t \<Rightarrow> 'a kmem_scheme \<Rightarrow> 'a kmem_scheme" where
  "set_flags pg flags s = wr pg ((mem s pg AND NOT PAGE_FLAGS_MASK) OR flags) s"

section \<open>Reading back\<close>

lemma mem_wr [simp]: "mem (wr p v s) = (mem s)(p := v)"
  by (simp add: wr_def)

lemma wr_other [simp]:
  "kmem_free_list (wr p v s) = kmem_free_list s" "free_chunks (wr p v s) = free_chunks s"
  "mdb_buflists (wr p v t) = mdb_buflists t" "mdb_mem.more (wr p v t) = mdb_mem.more t"
  "kmem.more (wr p v s) = kmem.more s"
  by (simp_all add: wr_def)

text \<open>A pointer to words has its two lowest bits clear.\<close>

definition word_aligned :: "ptr_t \<Rightarrow> bool" where
  "word_aligned p \<longleftrightarrow> p AND 3 = 0"

lemma word_aligned_bits: "word_aligned p \<longleftrightarrow> \<not> bit p 0 \<and> \<not> bit p 1"
proof -
  have "p AND 3 = take_bit 2 p" by (simp add: take_bit_eq_mask mask_eq_exp_minus_1)
  moreover have "take_bit 2 p = 0 \<longleftrightarrow> (\<forall>n<2. \<not> bit p n)"
    by (auto simp: bit_eq_iff bit_simps)
  ultimately show ?thesis unfolding word_aligned_def by (auto simp: less_2_cases_iff)
qed

lemma word_aligned_0 [simp]: "word_aligned 0"
  by (simp add: word_aligned_def)

lemma bit_minus_2 [simp]: "bit (- 2 :: dword_t) n \<longleftrightarrow> n \<noteq> 0 \<and> n < 32"
proof -
  have "(- 2 :: dword_t) = NOT 1" by simp
  then show ?thesis by (simp only: bit_not_iff) (auto simp: bit_simps)
qed

lemma clear_bit0 [simp]:
  assumes "word_aligned p" shows "p AND - 2 = p" "(p OR 1) AND - 2 = p"
proof -
  have p: "\<not> bit p 0" using assms by (simp add: word_aligned_bits)
  show "p AND - 2 = p" "(p OR 1) AND - 2 = p" by (rule bit_word_eqI; use p in \<open>auto simp: bit_simps intro!: gr0I\<close>)+
qed

lemma bit0_test: "p AND 1 \<noteq> 0 \<longleftrightarrow> bit p 0" for p :: dword_t
  by (simp add: and_one_eq odd_iff_mod_2_eq_one bit_0 flip: odd_iff_mod_2_eq_one)

lemma xor_cancel [simp]: "(a XOR b) XOR b = a" "(a XOR b) XOR a = b" for a b :: dword_t
  by (simp_all add: xor.assoc xor.commute [of a b])

lemma word_aligned_xor: "word_aligned a \<Longrightarrow> word_aligned b \<Longrightarrow> word_aligned (a XOR b)"
  by (simp add: word_aligned_bits bit_simps)

lemma root_bit_xor [simp]:
  assumes "word_aligned a" "word_aligned b"
  shows "(((a XOR b) OR 1) XOR b) AND - 2 = a" "(((a XOR b) OR 1) XOR a) AND - 2 = b"
proof -
  have ab: "\<not> bit a 0" "\<not> bit b 0" using assms by (simp_all add: word_aligned_bits)
  show "(((a XOR b) OR 1) XOR b) AND - 2 = a" "(((a XOR b) OR 1) XOR a) AND - 2 = b"
    by (rule bit_word_eqI; use ab in \<open>auto simp: bit_simps intro!: gr0I\<close>)+
qed

lemmas mnode_defs = mn_w1_def mn_w2_def mn_w3_def get_pgent_m_def get_pgent_r_def get_prevm_def get_prevr_def
  set_backlink_m_def set_backlink_r_def is_prev_root_def get_nextm_def get_nextr_def set_next_m_def set_next_r_def
  is_next_root_def MDB_NEXT_ROOT_def MDB_PREV_ROOT_def

lemma backlink_m:
  "get_pgent_m n prev (set_backlink_m n prev pg s) = pg"
  "word_aligned prev \<Longrightarrow> get_prevm n pg (set_backlink_m n prev pg s) = prev"
  "word_aligned prev \<Longrightarrow> word_aligned pg \<Longrightarrow> \<not> is_prev_root n (set_backlink_m n prev pg s)"
  using word_aligned_xor [of prev pg] by (simp_all add: mnode_defs bit0_test) (simp add: word_aligned_bits)

lemma backlink_r:
  assumes "word_aligned prev" "word_aligned pg"
  shows "get_pgent_r n prev (set_backlink_r n prev pg s) = pg" "get_prevr n pg (set_backlink_r n prev pg s) = prev"
    "is_prev_root n (set_backlink_r n prev pg s)"
  using assms by (simp_all add: mnode_defs bit0_test root_bit_xor bit_simps)


lemma next_links:
  "word_aligned m \<Longrightarrow> get_nextm n (set_next_m n m s) = m" "word_aligned m \<Longrightarrow> \<not> is_next_root n (set_next_m n m s)"
  "word_aligned m \<Longrightarrow> get_nextr n (set_next_r n m s) = m" "is_next_root n (set_next_r n m s)"
  by (simp_all add: mnode_defs bit0_test bit_simps word_aligned_bits)

lemma mask_bits [simp]:
  "bit MDB_SPACE_MASK n \<longleftrightarrow> 12 \<le> n \<and> n < 32" "bit MDB_DEPTH_MASK n \<longleftrightarrow> n < 8"
  "bit MDB_UPLOCK n \<longleftrightarrow> n = 8" "bit MDB_DOWNLOCK n \<longleftrightarrow> n = 9"
  "bit PAGE_MASK n \<longleftrightarrow> 12 \<le> n \<and> n < 32"
proof -
  have "MDB_SPACE_MASK = NOT (mask 12)" "MDB_DEPTH_MASK = mask 8" "MDB_UPLOCK = push_bit 8 1" "MDB_DOWNLOCK = push_bit 9 1"
    "PAGE_MASK = NOT (mask 12)"
    by (simp_all add: MDB_SPACE_MASK_def MDB_DEPTH_MASK_def MDB_UPLOCK_def MDB_DOWNLOCK_def PAGE_MASK_def PAGE_SIZE_def
        mask_eq_exp_minus_1)
  note e = this
  show "bit MDB_SPACE_MASK n \<longleftrightarrow> 12 \<le> n \<and> n < 32" "bit PAGE_MASK n \<longleftrightarrow> 12 \<le> n \<and> n < 32" "bit MDB_DEPTH_MASK n \<longleftrightarrow> n < 8"
    unfolding e by (auto simp: bit_simps)
  show "bit MDB_UPLOCK n \<longleftrightarrow> n = 8" "bit MDB_DOWNLOCK n \<longleftrightarrow> n = 9"
    unfolding e(3,4) by (simp_all only: bit_push_bit_iff bit_1_iff possible_bit_word) auto
qed

lemmas w2_defs = mn_w2_def get_space_def set_space_def get_depth_def set_depth_def clear_locks_def

lemma space_depth:
  "get_space n (set_space n sp s) = sp AND MDB_SPACE_MASK" "get_depth n (set_space n sp s) = get_depth n s"
  "get_depth n (set_depth n d s) = d AND MDB_DEPTH_MASK" "get_space n (set_depth n d s) = get_space n s"
  "get_depth n (clear_locks n s) = get_depth n s" "get_space n (clear_locks n s) = get_space n s"
  by (simp add: w2_defs; rule bit_word_eqI; auto simp: bit_simps)+


lemma masked_id: "p AND 0xFFF = 0 \<Longrightarrow> p AND MDB_SPACE_MASK = p" "p AND 0xFFF = 0 \<Longrightarrow> p AND PAGE_MASK = p"
  for p :: dword_t
proof -
  assume p: "p AND 0xFFF = 0"
  have "\<not> bit p n" if "n < 12" for n
  proof -
    have "bit (p AND mask 12) n = bit p n" using that by (simp add: bit_simps)
    moreover have "p AND mask 12 = 0" using p by (simp add: mask_eq_exp_minus_1)
    ultimately show ?thesis by simp
  qed
  then show "p AND MDB_SPACE_MASK = p" "p AND PAGE_MASK = p"
    by (intro bit_word_eqI; auto simp: bit_simps not_le [symmetric] intro!: leI)+
qed

lemma depth_id: "d < 256 \<Longrightarrow> d AND MDB_DEPTH_MASK = d"
  by (simp add: word_unat_eq_iff word_less_nat_alt MDB_DEPTH_MASK_def unat_and_mask [of d 8, simplified mask_eq_exp_minus_1, simplified])

text \<open>The fields packed into a mapping node are independent and read back what was stored: the
  previous node is recovered with the page table entry and the page table entry with the previous node, the
  tag bits tell the two kinds of neighbours apart, and space, depth and locks do not disturb each other.\<close>

lemma mnode_fields_roundtrip:
  assumes "word_aligned prev" and "word_aligned pg" and "word_aligned m" and "sp AND 0xFFF = 0" and "d < 256"
  shows "get_pgent_m n prev (set_backlink_m n prev pg s) = pg \<and> get_prevm n pg (set_backlink_m n prev pg s) = prev \<and>
    \<not> is_prev_root n (set_backlink_m n prev pg s) \<and>
    get_pgent_r n prev (set_backlink_r n prev pg s) = pg \<and> get_prevr n pg (set_backlink_r n prev pg s) = prev \<and>
    is_prev_root n (set_backlink_r n prev pg s) \<and>
    get_nextm n (set_next_m n m s) = m \<and> \<not> is_next_root n (set_next_m n m s) \<and>
    get_nextr n (set_next_r n m s) = m \<and> is_next_root n (set_next_r n m s) \<and>
    get_space n (clear_locks n (set_depth n d (set_space n sp s))) = sp \<and>
    get_depth n (clear_locks n (set_depth n d (set_space n sp s))) = d"
proof -
  have "d AND MDB_DEPTH_MASK = d" using assms(5) by (rule depth_id)
  then show ?thesis using assms by (simp add: backlink_m backlink_r next_links masked_id space_depth)
qed

lemma page_bits [simp]:
  "bit PAGE_VALID n \<longleftrightarrow> n = 0" "bit PAGE_WRITABLE n \<longleftrightarrow> n = 1" "bit PAGE_USER n \<longleftrightarrow> n = 2" "bit PAGE_SUPER n \<longleftrightarrow> n = 7"
proof -
  have e: "PAGE_VALID = push_bit 0 1" "PAGE_WRITABLE = push_bit 1 1" "PAGE_USER = push_bit 2 1" "PAGE_SUPER = push_bit 7 1"
    by (simp_all add: PAGE_VALID_def PAGE_WRITABLE_def PAGE_USER_def PAGE_SUPER_def)
  show "bit PAGE_VALID n \<longleftrightarrow> n = 0" "bit PAGE_WRITABLE n \<longleftrightarrow> n = 1" "bit PAGE_USER n \<longleftrightarrow> n = 2" "bit PAGE_SUPER n \<longleftrightarrow> n = 7"
    unfolding e by (simp_all only: bit_push_bit_iff bit_1_iff possible_bit_word) auto
qed

lemma single_bit_test:
  fixes f w :: dword_t
  assumes "\<And>n. bit f n \<longleftrightarrow> n = k"
  shows "w AND f \<noteq> 0 \<longleftrightarrow> bit w k" "w AND f = 0 \<longleftrightarrow> \<not> bit w k"
proof -
  have "w AND f = 0 \<longleftrightarrow> (\<forall>n. \<not> (bit w n \<and> bit f n))" 
    using bit_imp_le_length [of w] by (auto simp: bit_eq_iff [of "w AND f"] bit_and_iff)
  then show "w AND f = 0 \<longleftrightarrow> \<not> bit w k" unfolding assms by auto
  then show "w AND f \<noteq> 0 \<longleftrightarrow> bit w k" by simp
qed

lemmas flag_tests = single_bit_test [OF page_bits(1)] single_bit_test [OF page_bits(2)] single_bit_test [OF page_bits(4)]

lemmas pgent_defs = is_valid_def is_writable_def is_subtree_def pg_address_def GET_MAPNODE_def SET_MAPNODE_def
  mapnode_def pg_vaddr_def pg_clear_def set_entry_def set_writable_def set_readonly_def set_mapnode_def PAGE_USER_BITS_def

text \<open>A page table entry that was set reads back: it is valid and a leaf, has the frame address and the
  access right it was given, and leads from the virtual address to the mapping node and from the node to the
  virtual address. Extending and withdrawing the write right changes only that right; clearing invalidates the
  entry and forgets its node.\<close>

lemma pgent_roundtrip:
  "let s' = set_mapnode pg m va (set_entry pg addr w sz s) in
    is_valid pg s' \<and> is_writable pg s' = w \<and> \<not> is_subtree pg sz s' \<and> pg_address pg s' = addr AND PAGE_MASK \<and>
    mapnode pg va s' = m \<and> pg_vaddr pg m s' = va \<and>
    is_writable pg (set_writable pg s') \<and> \<not> is_writable pg (set_readonly pg s') \<and>
    set_readonly pg (set_writable pg s') = set_readonly pg s' \<and>
    pg_address pg (set_readonly pg s') = pg_address pg s' \<and> is_valid pg (set_readonly pg s') \<and>
    \<not> is_valid pg (pg_clear pg s') \<and> GET_MAPNODE pg (pg_clear pg s') = 0"
proof -
  have ne: "pg + PAGE_SIZE \<noteq> pg" by (simp add: PAGE_SIZE_def)
  define e where "e = (addr AND PAGE_MASK) OR PAGE_USER_BITS OR (if w then PAGE_WRITABLE else 0) OR (if sz = 1 then PAGE_SUPER else 0)"
  have b: "bit e 0" "bit e 1 = w" "sz = 1 \<Longrightarrow> bit e 7" by (auto simp: e_def PAGE_USER_BITS_def bit_simps)
  have a: "e AND PAGE_MASK = addr AND PAGE_MASK" "(e AND NOT PAGE_WRITABLE) AND PAGE_MASK = addr AND PAGE_MASK"
    "(e OR PAGE_WRITABLE) AND NOT PAGE_WRITABLE = e AND NOT PAGE_WRITABLE"
    by (rule bit_word_eqI; auto simp: e_def PAGE_USER_BITS_def bit_simps)+
  show ?thesis using ne b a unfolding Let_def pgent_defs(1-13) e_def [symmetric]
    by (simp add: flag_tests bit_simps e_def [symmetric] pgent_defs) (simp add: PAGE_WRITABLE_def)
qed

end
