(* ===== verification/Mdb_Pools.thy ===== *)
theory Mdb_Pools
  imports Mdb_Alloc
begin

text \<open>
  Correctness of the buffer allocator of the mapping database. Pages and the cells of their management
  structures come first, then the invariant: for every buffer list the pages with free buffers in list
  order, the full pages, and the free buffers of every page. The locale \<open>page_source\<close> is what the pools
  need from the allocator of 4 KB pages; it is interpreted on \<open>kmem_alloc\<close> and \<open>kmem_free\<close>. Each step
  of the operations keeps the invariant, and the operations implement an abstract allocator that only
  knows which buffers are in use.
\<close>

section \<open>Pages\<close>

definition page_aligned :: "ptr_t \<Rightarrow> bool" where
  "page_aligned f \<longleftrightarrow> 4096 dvd unat f \<and> f \<noteq> NULL \<and> unat f + 4096 < 2 ^ 32"

definition in_page :: "ptr_t \<Rightarrow> ptr_t \<Rightarrow> bool" where
  "in_page f a \<longleftrightarrow> unat f \<le> unat a \<and> unat a < unat f + 4096"

definition same_page :: "ptr_t \<Rightarrow> wmem \<Rightarrow> wmem \<Rightarrow> bool" where
  "same_page f m m' \<longleftrightarrow> (\<forall>a. in_page f a \<longrightarrow> m' a = m a)"

lemma in_page_unique: "page_aligned f \<Longrightarrow> page_aligned g \<Longrightarrow> in_page f a \<Longrightarrow> in_page g a \<Longrightarrow> f = g"
proof -
  assume f: "page_aligned f" and g: "page_aligned g" and a: "in_page f a" "in_page g a"
  from f g obtain i j where ij: "unat f = 4096 * i" "unat g = 4096 * j"
    by (auto simp: page_aligned_def elim!: dvdE)
  with a have "i = j" by (auto simp: in_page_def)
  with ij show ?thesis by (simp add: word_unat_eq_iff)
qed

lemma unat_page_offset: "page_aligned f \<Longrightarrow> unat c < 4096 \<Longrightarrow> unat (f + c) = unat f + unat c"
  by (rule unat_add_noflow) (simp add: page_aligned_def)

lemma in_page_offset: "page_aligned f \<Longrightarrow> unat c < 4096 \<Longrightarrow> in_page f (f + c)"
  by (simp add: in_page_def unat_page_offset)

lemma in_page_self [simp]: "in_page f f"
  by (simp add: in_page_def)

lemma page_and: "page_aligned f \<Longrightarrow> in_page f a \<Longrightarrow> a AND NOT (MDB_ALLOC_CHUNKSZ - 1) = f"
proof -
  assume f: "page_aligned f" and a: "in_page f a"
  have m: "NOT (MDB_ALLOC_CHUNKSZ - 1) = NOT (mask 12)"
    by (simp add: MDB_ALLOC_CHUNKSZ_def mask_eq_exp_minus_1)
  obtain i where i: "unat f = 4096 * i" using f by (auto simp: page_aligned_def elim!: dvdE)
  define d where "d = unat a - unat f"
  have d: "unat a = 4096 * i + d" "d < 4096" using a i by (auto simp: d_def in_page_def)
  have "unat (a AND NOT (mask 12)) = unat f"
    unfolding unat_and_not_mask using d i by simp
  then show ?thesis unfolding m by (simp add: word_unat_eq_iff)
qed

section \<open>Well-formed pools\<close>

text \<open>Size and number of the buffers of a page: they fit behind the management structure.\<close>

definition fits :: "dword_t \<Rightarrow> dword_t \<Rightarrow> bool" where
  "fits sz mx \<longleftrightarrow> 4 \<le> unat sz \<and> 1 < unat mx \<and> 20 + unat mx * unat sz \<le> 4096"

definition slot :: "ptr_t \<Rightarrow> dword_t \<Rightarrow> dword_t \<Rightarrow> nat \<Rightarrow> ptr_t" where
  "slot f sz mx k = of_nat (unat f + 4096 - unat mx * unat sz + k * unat sz)"

definition slots :: "ptr_t \<Rightarrow> dword_t \<Rightarrow> dword_t \<Rightarrow> ptr_t list" where
  "slots f sz mx = map (slot f sz mx) [0..<unat mx]"

definition pool_page :: "wmem \<Rightarrow> nat \<Rightarrow> dword_t \<Rightarrow> dword_t \<Rightarrow> ptr_t \<Rightarrow> ptr_t list \<Rightarrow> bool" where
  "pool_page m i sz mx f bs \<longleftrightarrow>
     page_aligned f \<and> seg m (m f) bs NULL \<and> distinct bs \<and> set bs \<subseteq> set (slots f sz mx) \<and>
     m (f + 4) = of_nat (length bs) \<and> m (f + 16) = of_nat i"

text \<open>The list of pages with free buffers.\<close>

fun dll :: "wmem \<Rightarrow> ptr_t \<Rightarrow> ptr_t \<Rightarrow> ptr_t list \<Rightarrow> bool" where
  "dll m prv p [] \<longleftrightarrow> p = NULL"
| "dll m prv p (x # xs) \<longleftrightarrow> p = x \<and> x \<noteq> NULL \<and> m (x + 12) = prv \<and> dll m x (m (x + 8)) xs"

lemma unat_slot:
  assumes "page_aligned f" "fits sz mx" "k < unat mx"
  shows "unat (slot f sz mx k) = unat f + 4096 - unat mx * unat sz + k * unat sz"
    and "unat f + 20 \<le> unat (slot f sz mx k)" and "unat (slot f sz mx k) + unat sz \<le> unat f + 4096"
proof -
  have le: "k * unat sz + unat sz \<le> unat mx * unat sz"
    using mult_le_mono1 [of "Suc k" "unat mx" "unat sz"] assms(3) by simp
  moreover have "unat mx * unat sz + 20 \<le> 4096" using assms(2) by (simp add: fits_def)
  ultimately show u: "unat (slot f sz mx k) = unat f + 4096 - unat mx * unat sz + k * unat sz"
    unfolding slot_def using assms(1) by (intro unat_of_nat_small) (auto simp: page_aligned_def)
  show "unat f + 20 \<le> unat (slot f sz mx k)" "unat (slot f sz mx k) + unat sz \<le> unat f + 4096"
    unfolding u using le \<open>unat mx * unat sz + 20 \<le> 4096\<close> by linarith+
qed

lemma slot_in_page:
  assumes "page_aligned f" "fits sz mx" "b \<in> set (slots f sz mx)"
  shows "in_page f b" and "unat c < 20 \<Longrightarrow> b \<noteq> f + c" and "b \<noteq> f" and "b \<noteq> NULL"
proof -
  obtain k where k: "k < unat mx" "b = slot f sz mx k" using assms(3) by (auto simp: slots_def)
  note u = unat_slot [OF assms(1,2) k(1)]
  show "in_page f b" using u assms(2) k(2) by (auto simp: in_page_def fits_def)
  show "unat c < 20 \<Longrightarrow> b \<noteq> f + c" using u(2) k(2) unat_page_offset [OF assms(1), of c] by auto
  show "b \<noteq> f" "b \<noteq> NULL" using u(2) k(2) by auto
qed

lemma slots_distinct:
  assumes "page_aligned f" "fits sz mx"
  shows "distinct (slots f sz mx)" and "b \<in> set (slots f sz mx) \<Longrightarrow> c \<in> set (slots f sz mx) \<Longrightarrow>
     b \<noteq> c \<Longrightarrow> unat b + unat sz \<le> unat c \<or> unat c + unat sz \<le> unat b"
proof -
  have sz: "0 < unat sz" using assms(2) by (simp add: fits_def)
  have inj: "j = k" if "slot f sz mx j = slot f sz mx k" "j < unat mx" "k < unat mx" for j k
  proof -
    have "unat f + 4096 - unat mx * unat sz + j * unat sz = unat f + 4096 - unat mx * unat sz + k * unat sz"
      using unat_slot(1) [OF assms that(2)] unat_slot(1) [OF assms that(3)] that(1) by (simp only:)
    then show ?thesis using sz by simp
  qed
  then show "distinct (slots f sz mx)"
    unfolding slots_def distinct_map by (auto simp: inj_on_def)
  assume "b \<in> set (slots f sz mx)" "c \<in> set (slots f sz mx)" "b \<noteq> c"
  then obtain j k where jk: "j < unat mx" "k < unat mx" "b = slot f sz mx j" "c = slot f sz mx k" "j \<noteq> k"
    unfolding slots_def by fastforce
  have "j * unat sz + unat sz \<le> k * unat sz \<or> k * unat sz + unat sz \<le> j * unat sz"
    using jk(5) mult_le_mono1 [of "Suc j" k "unat sz"] mult_le_mono1 [of "Suc k" j "unat sz"]
    by (cases "j < k") simp_all
  then show "unat b + unat sz \<le> unat c \<or> unat c + unat sz \<le> unat b"
    using unat_slot(1) [OF assms, of j] unat_slot(1) [OF assms, of k] jk by auto
qed

text \<open>The cells of a page that its pool depends on: all but the links of the page list.\<close>

definition same_pool :: "ptr_t \<Rightarrow> wmem \<Rightarrow> wmem \<Rightarrow> bool" where
  "same_pool f m m' \<longleftrightarrow> (\<forall>a. in_page f a \<longrightarrow> a \<noteq> f + 8 \<longrightarrow> a \<noteq> f + 12 \<longrightarrow> m' a = m a)"

lemma same_page_pool: "same_page f m m' \<Longrightarrow> same_pool f m m'"
  by (simp add: same_page_def same_pool_def)

lemma pool_page_frame:
  "pool_page m i sz mx f bs \<Longrightarrow> fits sz mx \<Longrightarrow> same_pool f m m' \<Longrightarrow> pool_page m' i sz mx f bs"
proof -
  assume p: "pool_page m i sz mx f bs" and fit: "fits sz mx" and s: "same_pool f m m'"
  then have f: "page_aligned f" by (simp add: pool_page_def)
  have "m' f = m f" "m' (f + 4) = m (f + 4)" "m' (f + 16) = m (f + 16)"
    using s in_page_offset [OF f, of 4] in_page_offset [OF f, of 16] by (auto simp: same_pool_def)
  moreover have "\<forall>b\<in>set bs. m' b = m b"
    using p s slot_in_page(1,2) [OF f fit] by (auto simp: pool_page_def same_pool_def)
  ultimately show ?thesis using p seg_frame [of m "m f" bs NULL m'] by (auto simp: pool_page_def)
qed

lemma dll_frame:
  "dll m q p xs \<Longrightarrow> \<forall>x\<in>set xs. m' (x + 8) = m (x + 8) \<and> m' (x + 12) = m (x + 12) \<Longrightarrow> dll m' q p xs"
  by (induction xs arbitrary: q p) auto

lemma dll_start: "dll m q p xs \<Longrightarrow> p = (if xs = [] then NULL else hd xs)"
  by (cases xs) auto

lemma dll_head_change:
  assumes "dll m q p xs" "distinct xs" and "\<forall>y\<in>set xs. m' (y + 8) = m (y + 8)"
    and "\<forall>y\<in>set (tl xs). m' (y + 12) = m (y + 12)" and "xs \<noteq> [] \<Longrightarrow> m' (hd xs + 12) = q'"
  shows "dll m' q' p xs"
proof (cases xs)
  case (Cons y ys)
  have "dll m y (m (y + 8)) ys" using assms(1) Cons by simp
  then have "dll m' y (m (y + 8)) ys" by (rule dll_frame) (use assms Cons in simp)
  then show ?thesis using assms Cons by simp
qed (use assms(1) in simp)

lemma dll_insert_head:
  assumes "dll m q p xs" "distinct xs" "x \<noteq> NULL" "m' (x + 8) = p" "m' (x + 12) = NULL"
    and "\<forall>y\<in>set xs. m' (y + 8) = m (y + 8)" "\<forall>y\<in>set (tl xs). m' (y + 12) = m (y + 12)"
    and "xs \<noteq> [] \<Longrightarrow> m' (hd xs + 12) = x"
  shows "dll m' NULL x (x # xs)"
  using assms dll_head_change [of m q p xs m' x] by simp

lemma dll_remove:
  assumes "dll m q p (ys @ x # zs)" "distinct (ys @ x # zs)"
    and "\<forall>y\<in>set ys \<union> set zs. y \<noteq> last ys \<or> ys = [] \<longrightarrow> m' (y + 8) = m (y + 8)"
    and "\<forall>y\<in>set ys \<union> set zs. y \<noteq> hd zs \<or> zs = [] \<longrightarrow> m' (y + 12) = m (y + 12)"
    and "ys \<noteq> [] \<Longrightarrow> m' (last ys + 8) = m (x + 8)" and "zs \<noteq> [] \<Longrightarrow> m' (hd zs + 12) = m (x + 12)"
  shows "dll m' q (if ys = [] then m (x + 8) else p) (ys @ zs)"
  using assms
proof (induction ys arbitrary: q p)
  case Nil
  have zs: "dll m x (m (x + 8)) zs" "m (x + 12) = q" using Nil(1) by simp_all
  have "dll m' q (m (x + 8)) zs"
    by (rule dll_head_change [OF zs(1)]) (use Nil zs in \<open>cases zs; auto\<close>)+
  then show ?case by simp
next
  case (Cons y ys)
  have y: "p = y" "y \<noteq> NULL" "m (y + 12) = q" "dll m y (m (y + 8)) (ys @ x # zs)" using Cons.prems(1) by auto
  have zs: "y \<noteq> hd zs \<or> zs = []" using Cons.prems(2) by (cases zs) auto
  have IH: "dll m' y (if ys = [] then m (x + 8) else m (y + 8)) (ys @ zs)"
  proof (rule Cons.IH [OF y(4)])
    show "distinct (ys @ x # zs)" using Cons.prems(2) by simp
    show "\<forall>u\<in>set ys \<union> set zs. u \<noteq> last ys \<or> ys = [] \<longrightarrow> m' (u + 8) = m (u + 8)"
      using Cons.prems(2,3) by (auto split: if_splits)
    show "\<forall>u\<in>set ys \<union> set zs. u \<noteq> hd zs \<or> zs = [] \<longrightarrow> m' (u + 12) = m (u + 12)"
      using Cons.prems(4) by simp
    show "ys \<noteq> [] \<Longrightarrow> m' (last ys + 8) = m (x + 8)" using Cons.prems(5) by simp
    show "zs \<noteq> [] \<Longrightarrow> m' (hd zs + 12) = m (x + 12)" using Cons.prems(6) by simp
  qed
  have "m' (y + 12) = m (y + 12)" using Cons.prems(4) zs by simp
  moreover have "m' (y + 8) = (if ys = [] then m (x + 8) else m (y + 8))"
    using Cons.prems(2,3,5) by (auto split: if_splits)
  ultimately show ?case using IH y by simp
qed

section \<open>The invariant\<close>

text \<open>The sizes of the buffer lists never change.\<close>

definition same_lists :: "'a mdb_mem_scheme \<Rightarrow> 'a mdb_mem_scheme \<Rightarrow> bool" where
  "same_lists s s' \<longleftrightarrow> length (mdb_buflists s') = length (mdb_buflists s) \<and>
     (\<forall>i<length (mdb_buflists s). bl_size (mdb_buflists s' ! i) = bl_size (mdb_buflists s ! i) \<and>
        max_free (mdb_buflists s' ! i) = max_free (mdb_buflists s ! i))"

lemma relist_sizes [simp]:
  assumes "j < length xs"
  shows "bl_size (xs[i := (xs ! i)\<lparr>list_of_lists := l\<rparr>] ! j) = bl_size (xs ! j)"
    and "max_free (xs[i := (xs ! i)\<lparr>list_of_lists := l\<rparr>] ! j) = max_free (xs ! j)"
  using assms by (cases "i = j"; simp)+

lemma same_listsI:
  "mdb_buflists s' = (mdb_buflists s)[i := (mdb_buflists s ! i)\<lparr>list_of_lists := l\<rparr>] \<Longrightarrow> same_lists s s'"
  by (auto simp: same_lists_def)

lemma same_lists_set_bl [simp]: "same_lists s (set_bl i l s') \<longleftrightarrow> same_lists s s'"
  by (simp add: same_lists_def set_bl_def cong: conj_cong)

lemma same_lists_wr [simp]: "same_lists s (wr p v s') \<longleftrightarrow> same_lists s s'"
  "same_lists s (s'\<lparr>mem := m\<rparr>) \<longleftrightarrow> same_lists s s'" "same_lists s s"
  by (auto simp: same_lists_def wr_def)


definition small_bl :: "'a mdb_mem_scheme \<Rightarrow> nat \<Rightarrow> bool" where
  "small_bl s i \<longleftrightarrow> i < length (mdb_buflists s) \<and> bl_size (mdb_buflists s ! i) \<noteq> 0 \<and>
     bl_size (mdb_buflists s ! i) < MDB_ALLOC_CHUNKSZ"

text \<open>\<open>P i\<close> are the pages of buffer list \<open>i\<close> that have free buffers, in list order, \<open>F i\<close> the full ones,
  and \<open>fl f\<close> the free buffers of page \<open>f\<close>.\<close>

definition pools_ok :: "'a mdb_mem_scheme \<Rightarrow> nat \<Rightarrow> ptr_t list \<Rightarrow> ptr_t list \<Rightarrow> (ptr_t \<Rightarrow> ptr_t list) \<Rightarrow> bool" where
  "pools_ok s i Pi Fi fl \<longleftrightarrow>
     (let sz = bl_size (mdb_buflists s ! i); mx = max_free (mdb_buflists s ! i) in
      fits sz mx \<and> dll (mem s) NULL (list_of_lists (mdb_buflists s ! i)) Pi \<and> distinct (Pi @ Fi) \<and>
      (\<forall>f\<in>set Pi. fl f \<noteq> [] \<and> pool_page (mem s) i sz mx f (fl f)) \<and>
      (\<forall>f\<in>set Fi. fl f = [] \<and> pool_page (mem s) i sz mx f (fl f)))"

definition mdb_inv ::
    "'a mdb_mem_scheme \<Rightarrow> ptr_t list \<Rightarrow> (nat \<Rightarrow> ptr_t list) \<Rightarrow> (nat \<Rightarrow> ptr_t list) \<Rightarrow> (ptr_t \<Rightarrow> ptr_t list) \<Rightarrow> bool" where
  "mdb_inv s xs P F fl \<longleftrightarrow>
     kmem_inv s xs \<and> length (mdb_buflists s) < 2 ^ 32 \<and>
     (\<forall>i. small_bl s i \<longrightarrow> pools_ok s i (P i) (F i) fl) \<and>
     (\<forall>i. \<not> small_bl s i \<longrightarrow> P i = [] \<and> F i = []) \<and>
     (\<forall>i j. i \<noteq> j \<longrightarrow> set (P i @ F i) \<inter> set (P j @ F j) = {}) \<and>
     (\<forall>i. \<forall>f\<in>set (P i @ F i). \<forall>x\<in>set xs. \<not> in_page f x)"

lemma mdb_inv_update:
  fixes s s' :: "'a mdb_mem_scheme"
  assumes inv: "mdb_inv s xs P F fl" and small: "small_bl s i"
    and bls: "mdb_buflists s' = (mdb_buflists s)[i := (mdb_buflists s ! i)\<lparr>list_of_lists := l\<rparr>]"
    and k: "kmem_inv s' xs'" and new: "pools_ok s' i Pi Fi fl'"
    and own: "\<And>j f. j \<noteq> i \<Longrightarrow> f \<in> set (P j @ F j) \<Longrightarrow>
       f \<notin> set (Pi @ Fi) \<and> fl' f = fl f \<and> same_page f (mem s) (mem s') \<and> (\<forall>x\<in>set xs'. \<not> in_page f x)"
    and chunks: "\<And>f x. f \<in> set (Pi @ Fi) \<Longrightarrow> x \<in> set xs' \<Longrightarrow> \<not> in_page f x"
  shows "mdb_inv s' xs' (P(i := Pi)) (F(i := Fi)) fl'"
proof -
  have sm: "small_bl s' j = small_bl s j" for j
    using bls small by (cases "j = i") (auto simp: small_bl_def)
  have other: "pools_ok s' j (P j) (F j) fl'" if j: "small_bl s j" "j \<noteq> i" for j
  proof -
    have b: "mdb_buflists s' ! j = mdb_buflists s ! j" using bls j by simp
    have o: "pools_ok s j (P j) (F j) fl" using inv j(1) by (simp add: mdb_inv_def)
    then have fit: "fits (bl_size (mdb_buflists s ! j)) (max_free (mdb_buflists s ! j))"
      by (simp add: pools_ok_def Let_def)
    have al: "page_aligned f" if "f \<in> set (P j @ F j)" for f
      using o that by (auto simp: pools_ok_def pool_page_def Let_def)
    have lk: "mem s' (f + 8) = mem s (f + 8) \<and> mem s' (f + 12) = mem s (f + 12)"
      if "f \<in> set (P j @ F j)" for f
      using own [OF j(2) that] in_page_offset [OF al [OF that], of 8] in_page_offset [OF al [OF that], of 12]
      by (auto simp: same_page_def)
    show ?thesis
      using o own [OF j(2)] pool_page_frame [OF _ fit same_page_pool] dll_frame [of "mem s"] lk
      unfolding pools_ok_def Let_def b by auto
  qed
  show ?thesis
    unfolding mdb_inv_def sm
  proof (intro conjI allI impI ballI)
    show "kmem_inv s' xs'" by (rule k)
    show "length (mdb_buflists s') < 2 ^ 32" using inv bls by (simp add: mdb_inv_def)
    show "pools_ok s' j ((P(i := Pi)) j) ((F(i := Fi)) j) fl'" if "small_bl s j" for j
      using new other [OF that] by simp
    show "(P(i := Pi)) j = []" "(F(i := Fi)) j = []" if "\<not> small_bl s j" for j
      using inv that small by (auto simp: mdb_inv_def)
    show "\<not> in_page f x" if "f \<in> set ((P(i := Pi)) j @ (F(i := Fi)) j)" "x \<in> set xs'" for j f x
      using chunks own that by (cases "j = i") auto
    show "set ((P(i := Pi)) j @ (F(i := Fi)) j) \<inter> set ((P(i := Pi)) k @ (F(i := Fi)) k) = {}"
      if "j \<noteq> k" for j k
    proof -
      have "set (P j @ F j) \<inter> set (P k @ F k) = {}" using inv that by (simp add: mdb_inv_def)
      then show ?thesis using own [of j] own [of k] that by (cases "j = i"; cases "k = i") auto
    qed
  qed
qed


lemma page_cell_eq:
  assumes "page_aligned f" "page_aligned g" "unat c < 4096" "unat d < 4096"
  shows "f + c = g + d \<longleftrightarrow> f = g \<and> c = d"
proof
  assume e: "f + c = g + d"
  have "f = g"
    by (rule in_page_unique [OF assms(1,2), of "f + c"])
      (use in_page_offset [OF assms(1,3)] in_page_offset [OF assms(2,4)] e in auto)
  then show "f = g \<and> c = d" using e by simp
qed simp

lemma page_cell_eq0:
  assumes "page_aligned f" "page_aligned g" "unat c < 4096"
  shows "f + c = g \<longleftrightarrow> f = g \<and> c = 0" and "g = f + c \<longleftrightarrow> f = g \<and> c = 0"
  using page_cell_eq [OF assms, of 0] by auto

lemma in_page_cell:
  assumes "page_aligned f" "page_aligned g" "unat c < 4096"
  shows "in_page g (f + c) \<longleftrightarrow> f = g"
  using in_page_unique [OF assms(1,2)] in_page_offset [OF assms(1,3)] by auto

lemma in_page_base:
  assumes "page_aligned f" "page_aligned g"
  shows "in_page g f \<longleftrightarrow> f = g"
  using in_page_unique [OF assms in_page_self] by auto

lemmas page_cells = page_cell_eq page_cell_eq0 in_page_cell in_page_base

lemma same_page_upd:
  "page_aligned f \<Longrightarrow> page_aligned g \<Longrightarrow> f \<noteq> g \<Longrightarrow> in_page f a \<Longrightarrow> same_page g m m' \<Longrightarrow>
   same_page g m (m'(a := v))"
  by (auto simp: same_page_def dest: in_page_unique)

lemma same_page_refl [simp]: "same_page f m m"
  by (simp add: same_page_def)

lemma kmem_inv_frame:
  fixes s s' :: "'a mdb_mem_scheme"
  shows "kmem_inv s xs \<Longrightarrow> kmem_free_list s' = kmem_free_list s \<Longrightarrow> free_chunks s' = free_chunks s \<Longrightarrow>
    \<forall>x\<in>set xs. mem s' x = mem s x \<Longrightarrow> kmem_inv s' xs"
  using seg_frame [of "mem s" "kmem_free_list s" xs NULL "mem s'"] by (auto simp: kmem_inv_def)

lemma pool_page_length:
  assumes "pool_page m i sz mx f bs" "fits sz mx"
  shows "length bs \<le> unat mx" "length bs < 2 ^ 32" "unat (m (f + 4)) = length bs"
proof -
  have f: "page_aligned f" and b: "distinct bs" "set bs \<subseteq> set (slots f sz mx)" "m (f + 4) = of_nat (length bs)"
    using assms(1) by (auto simp: pool_page_def)
  have "length bs = card (set bs)" using b(1) by (simp add: distinct_card)
  also have "\<dots> \<le> card (set (slots f sz mx))" using b(2) by (simp add: card_mono)
  also have "\<dots> \<le> unat mx" using card_length [of "slots f sz mx"] by (simp add: slots_def)
  finally show l: "length bs \<le> unat mx" .
  also have "unat mx < 2 ^ 32" by (rule unat_dword_less)
  finally show "length bs < 2 ^ 32" .
  then show "unat (m (f + 4)) = length bs" unfolding b(3) by (simp add: unat_of_nat_small)
qed

lemma pools_okD:
  assumes "pools_ok s i Pi Fi fl"
  shows "fits (bl_size (mdb_buflists s ! i)) (max_free (mdb_buflists s ! i))"
    and "dll (mem s) NULL (list_of_lists (mdb_buflists s ! i)) Pi" and "distinct (Pi @ Fi)"
    and "f \<in> set Pi \<Longrightarrow> fl f \<noteq> []" and "f \<in> set Fi \<Longrightarrow> fl f = []"
    and "f \<in> set (Pi @ Fi) \<Longrightarrow>
      pool_page (mem s) i (bl_size (mdb_buflists s ! i)) (max_free (mdb_buflists s ! i)) f (fl f)"
    and "f \<in> set (Pi @ Fi) \<Longrightarrow> page_aligned f"
  using assms by (auto simp: pools_ok_def pool_page_def Let_def)

lemma pools_okI:
  assumes "fits (bl_size (mdb_buflists s ! i)) (max_free (mdb_buflists s ! i))"
    and "dll (mem s) NULL (list_of_lists (mdb_buflists s ! i)) Pi" and "distinct (Pi @ Fi)"
    and "\<And>f. f \<in> set Pi \<Longrightarrow> fl f \<noteq> []" and "\<And>f. f \<in> set Fi \<Longrightarrow> fl f = []"
    and "\<And>f. f \<in> set (Pi @ Fi) \<Longrightarrow>
      pool_page (mem s) i (bl_size (mdb_buflists s ! i)) (max_free (mdb_buflists s ! i)) f (fl f)"
  shows "pools_ok s i Pi Fi fl"
  unfolding pools_ok_def Let_def using assms(1-3)
  by (intro conjI ballI assms(4-6)) simp_all

lemma mdb_invD:
  assumes "mdb_inv s xs P F fl"
  shows "kmem_inv s xs" and "small_bl s i \<Longrightarrow> pools_ok s i (P i) (F i) fl"
    and "\<not> small_bl s i \<Longrightarrow> P i = [] \<and> F i = []"
    and "f \<in> set (P i @ F i) \<Longrightarrow> page_aligned f"
    and "f \<in> set (P i @ F i) \<Longrightarrow> f \<in> set (P j @ F j) \<Longrightarrow> i = j"
    and "f \<in> set (P i @ F i) \<Longrightarrow> x \<in> set xs \<Longrightarrow> \<not> in_page f x"
proof -
  show "kmem_inv s xs" using assms by (simp add: mdb_inv_def)
  show "small_bl s i \<Longrightarrow> pools_ok s i (P i) (F i) fl" for i using assms by (simp add: mdb_inv_def)
  moreover show "\<not> small_bl s i \<Longrightarrow> P i = [] \<and> F i = []" for i using assms by (simp add: mdb_inv_def)
  ultimately show "f \<in> set (P i @ F i) \<Longrightarrow> page_aligned f"
    using pools_okD(7) [of s i "P i" "F i" fl f] by (cases "small_bl s i") auto
  show "f \<in> set (P i @ F i) \<Longrightarrow> f \<in> set (P j @ F j) \<Longrightarrow> i = j"
    using assms unfolding mdb_inv_def by blast
  show "f \<in> set (P i @ F i) \<Longrightarrow> x \<in> set xs \<Longrightarrow> \<not> in_page f x"
    using assms by (simp add: mdb_inv_def)
qed

text \<open>A step that writes only into pages \<open>T\<close> of one buffer list and leaves the page allocator alone.\<close>

lemma mdb_inv_local:
  fixes s s' :: "'a mdb_mem_scheme"
  assumes inv: "mdb_inv s xs P F fl" and small: "small_bl s i"
    and bls: "mdb_buflists s' = (mdb_buflists s)[i := (mdb_buflists s ! i)\<lparr>list_of_lists := l\<rparr>]"
    and km: "kmem_free_list s' = kmem_free_list s" "free_chunks s' = free_chunks s"
    and wr: "\<And>a. mem s' a \<noteq> mem s a \<Longrightarrow> \<exists>f\<in>set (P i @ F i). in_page f a"
    and same: "set (Pi @ Fi) = set (P i @ F i)" and fl: "\<And>f. f \<notin> set (P i @ F i) \<Longrightarrow> fl' f = fl f"
    and new: "pools_ok s' i Pi Fi fl'"
  shows "mdb_inv s' xs (P(i := Pi)) (F(i := Fi)) fl'"
proof (rule mdb_inv_update [OF inv small bls])
  show "kmem_inv s' xs"
    by (rule kmem_inv_frame [OF mdb_invD(1) [OF inv] km]) (use wr mdb_invD(6) [OF inv] in blast)
  show "pools_ok s' i Pi Fi fl'" by (rule new)
  show "\<not> in_page f x" if "f \<in> set (Pi @ Fi)" "x \<in> set xs" for f x
    using mdb_invD(6) [OF inv, of f i x] that same by blast
  fix j f assume j: "j \<noteq> i" "f \<in> set (P j @ F j)"
  then have ni: "f \<notin> set (P i @ F i)" using mdb_invD(5) [OF inv] by blast
  have "same_page f (mem s) (mem s')"
    unfolding same_page_def using wr ni mdb_invD(4) [OF inv] j(2) in_page_unique by metis
  then show "f \<notin> set (Pi @ Fi) \<and> fl' f = fl f \<and> same_page f (mem s) (mem s') \<and> (\<forall>x\<in>set xs. \<not> in_page f x)"
    using ni same fl mdb_invD(6) [OF inv j(2)] by auto
qed

lemma pools_ok_change:
  fixes s s' :: "'a mdb_mem_scheme"
  assumes ok: "pools_ok s i Pi Fi fl" and i: "i < length (mdb_buflists s)"
    and bls: "mdb_buflists s' = (mdb_buflists s)[i := (mdb_buflists s ! i)\<lparr>list_of_lists := l\<rparr>]"
    and d: "dll (mem s') NULL l Pi'" and dist: "distinct (Pi' @ Fi')"
    and sets: "set Pi' \<subseteq> insert f (set Pi)" "set Fi' \<subseteq> insert f (set Fi)"
    and f: "f \<in> set Pi' \<Longrightarrow> bs \<noteq> []" "f \<in> set Fi' \<Longrightarrow> bs = []"
    and pf: "f \<in> set (Pi' @ Fi') \<Longrightarrow>
      pool_page (mem s') i (bl_size (mdb_buflists s ! i)) (max_free (mdb_buflists s ! i)) f bs"
    and same: "\<And>g. g \<in> set (Pi @ Fi) \<Longrightarrow> g \<noteq> f \<Longrightarrow> same_pool g (mem s) (mem s')"
  shows "pools_ok s' i Pi' Fi' (fl(f := bs))"
proof (rule pools_okI)
  have b: "mdb_buflists s' ! i = (mdb_buflists s ! i)\<lparr>list_of_lists := l\<rparr>" using bls i by simp
  show "fits (bl_size (mdb_buflists s' ! i)) (max_free (mdb_buflists s' ! i))"
    using pools_okD(1) [OF ok] b by simp
  show "dll (mem s') NULL (list_of_lists (mdb_buflists s' ! i)) Pi'" using d b by simp
  show "distinct (Pi' @ Fi')" by (rule dist)
  show "(fl(f := bs)) g \<noteq> []" if "g \<in> set Pi'" for g
    using f(1) that pools_okD(4) [OF ok, of g] sets(1) by auto
  show "(fl(f := bs)) g = []" if "g \<in> set Fi'" for g
    using f(2) that pools_okD(5) [OF ok, of g] sets(2) by auto
  show "pool_page (mem s') i (bl_size (mdb_buflists s' ! i)) (max_free (mdb_buflists s' ! i)) g ((fl(f := bs)) g)"
    if g: "g \<in> set (Pi' @ Fi')" for g
  proof (cases "g = f")
    case True
    then show ?thesis using pf g b by simp
  next
    case False
    then have "g \<in> set (Pi @ Fi)" using g sets by auto
    then show ?thesis
      using pool_page_frame [OF pools_okD(6) [OF ok] pools_okD(1) [OF ok] same] False b by simp
  qed
qed

section \<open>Taking a buffer\<close>

lemma pool_page_take:
  assumes p: "pool_page m i sz mx f (b # bs)" and fit: "fits sz mx"
    and m': "m' f = m b" "m' (f + 4) = m (f + 4) - 1" "\<And>a. in_page f a \<Longrightarrow> a \<noteq> f \<Longrightarrow> a \<noteq> f + 4 \<Longrightarrow> m' a = m a"
  shows "pool_page m' i sz mx f bs"
proof -
  have f: "page_aligned f" using p by (simp add: pool_page_def)
  have "m' (f + 16) = m (f + 16)" using m'(3) in_page_offset [OF f, of 16] by simp
  moreover have "m' c = m c" if "c \<in> set bs" for c
    using m'(3) [of c] slot_in_page [OF f fit, of c] p that by (auto simp: pool_page_def)
  ultimately show ?thesis
    using p m'(1,2) seg_frame [of m "m b" bs NULL m'] by (auto simp: pool_page_def)
qed

lemma take_buffer_step:
  fixes s :: "'a mdb_mem_scheme"
  assumes inv: "mdb_inv s xs P F fl" and small: "small_bl s i" and P: "P i = f # ps" and fl: "fl f = b # bs"
    and t: "take_buffer i f s = (p, s')"
  shows "p = b \<and> mdb_inv s' xs (P(i := if bs = [] then ps else f # ps))
    (F(i := if bs = [] then f # F i else F i)) (fl(f := bs))"
proof -
  let ?m = "mem s" and ?bl = "mdb_buflists s ! i"
  note ok = mdb_invD(2) [OF inv small, unfolded P]
  note pp = pools_okD(6) [OF ok, of f, simplified, unfolded fl]
  note fit = pools_okD(1) [OF ok] and d = pools_okD(2) [OF ok] and dist = pools_okD(3) [OF ok]
  have f: "page_aligned f" using pools_okD(7) [OF ok, of f] by simp
  have start: "?m f = b" using pp by (simp add: pool_page_def)
  have n0: "?m (f + 4) - 1 = 0 \<longleftrightarrow> bs = []"
  proof -
    have "?m (f + 4) - 1 = of_nat (length bs)" using pp by (simp add: pool_page_def)
    moreover have "length bs < 2 ^ 32" using pool_page_length(2) [OF pp fit] by simp
    ultimately show ?thesis using of_nat_dword_0 [of "length bs"] by simp
  qed
  define m1 where "m1 = ?m(f := ?m b, f + 4 := ?m (f + 4) - 1)"
  define m2 where "m2 = (if bs = [] \<and> ps \<noteq> [] then m1(hd ps + 12 := NULL) else m1)"
  have hd: "?m (f + 8) = (if ps = [] then NULL else hd ps)" using dll_start [of ?m f "?m (f + 8)" ps] d by simp
  have nn: "ps \<noteq> [] \<Longrightarrow> hd ps \<noteq> NULL" using pools_okD(7) [OF ok, of "hd ps"] by (auto simp: page_aligned_def)
  have ilt: "i < length (mdb_buflists s)" using small by (simp add: small_bl_def)
  have s': "p = b" "mem s' = m2" "kmem_free_list s' = kmem_free_list s" "free_chunks s' = free_chunks s"
    "mdb_buflists s' = (mdb_buflists s)[i := ?bl\<lparr>list_of_lists := if bs = [] then ?m (f + 8) else list_of_lists ?bl\<rparr>]"
    using t n0 start hd nn ilt
    by (auto simp: take_buffer_def Let_def wr_def set_bl_def mng_freelist_def mng_num_free_def
        mng_next_freelist_def mng_prev_freelist_def m2_def m1_def)
  have al: "page_aligned g \<and> g \<noteq> f" if "g \<in> set (ps @ F i)" for g
    using pools_okD(7) [OF ok, of g] dist that by auto
  have aux: "same_pool g ?m m2" "m2 (g + 8) = ?m (g + 8)" if "g \<in> set (ps @ F i)" for g
    using al [OF that] al [of "hd ps"] f
    by (auto simp: m2_def m1_def same_pool_def page_cells)
  have m1: "m1 (g + c) = ?m (g + c)" if "g \<in> set (ps @ F i)" "unat c < 4096" for g c
    using al [OF that(1)] f that(2) by (auto simp: m1_def page_cells)
  have aux12: "m2 (g + 12) = ?m (g + 12)" if "g \<in> set ps" "bs = [] \<longrightarrow> g \<in> set (tl ps)" for g
    using m1 [of g 12] dist that by (cases ps) (auto simp: m2_def)
  have new: "pools_ok s' i (if bs = [] then ps else f # ps) (if bs = [] then f # F i else F i) (fl(f := bs))"
  proof (rule pools_ok_change [OF ok ilt s'(5)])
    show "pool_page (mem s') i (bl_size ?bl) (max_free ?bl) f bs"
      by (rule pool_page_take [OF pp fit]) 
        (use s'(2) al [of "hd ps"] f in \<open>auto simp: m2_def m1_def page_cells\<close>)
    show "dll (mem s') NULL (if bs = [] then ?m (f + 8) else list_of_lists ?bl) (if bs = [] then ps else f # ps)"
    proof (cases "bs = []")
      case True
      have "dll m2 NULL (?m (f + 8)) ps"
      proof (rule dll_head_change [of ?m f])
        show "ps \<noteq> [] \<Longrightarrow> m2 (hd ps + 12) = NULL" using True by (simp add: m2_def)
        show "\<forall>y\<in>set (tl ps). m2 (y + 12) = ?m (y + 12)" using aux12 by (cases ps) auto
      qed (use d dist aux(2) in auto)
      then show ?thesis using True s'(2) by simp
    next
      case False
      have "dll m2 NULL (list_of_lists ?bl) (f # ps)"
      proof (rule dll_frame [OF d], intro ballI)
        fix g assume "g \<in> set (f # ps)"
        then show "m2 (g + 8) = ?m (g + 8) \<and> m2 (g + 12) = ?m (g + 12)"
          using aux(2) [of g] aux12 [of g] False by (cases "g = f") (auto simp: m2_def m1_def)
      qed
      then show ?thesis using False s'(2) by simp
    qed
  qed (use dist aux(1) s'(2) in auto)
  have "mdb_inv s' xs (P(i := if bs = [] then ps else f # ps))
    (F(i := if bs = [] then f # F i else F i)) (fl(f := bs))"
  proof (rule mdb_inv_local [OF inv small s'(5,3,4) _ _ _ new])
    show "set ((if bs = [] then ps else f # ps) @ (if bs = [] then f # F i else F i)) = set (P i @ F i)"
      using P by auto
    show "(fl(f := bs)) g = fl g" if "g \<notin> set (P i @ F i)" for g using that P by auto
    show "\<exists>g\<in>set (P i @ F i). in_page g a" if "mem s' a \<noteq> mem s a" for a
    proof -
      have "a = f \<or> a = f + 4 \<or> (ps \<noteq> [] \<and> a = hd ps + 12)"
        using that s'(2) by (auto simp: m2_def m1_def split: if_splits)
      moreover have "ps \<noteq> [] \<Longrightarrow> in_page (hd ps) (hd ps + 12) \<and> hd ps \<in> set ps"
        using pools_okD(7) [OF ok, of "hd ps"] by (auto intro: in_page_offset)
      ultimately show ?thesis using in_page_offset [OF f, of 4] P by auto
    qed
  qed
  then show ?thesis using s'(1) by simp
qed

section \<open>Pages from the kernel memory allocator\<close>

locale page_source =
  fixes inv :: "'s \<Rightarrow> ptr_t list \<Rightarrow> bool" and memory :: "'s \<Rightarrow> wmem" and other :: "'s \<Rightarrow> 'r"
    and alloc_page :: "'s \<Rightarrow> (ptr_t \<times> 's) option" and free_page :: "ptr_t \<Rightarrow> 's \<Rightarrow> 's option"
  assumes alloc_page: "inv s xs \<Longrightarrow> \<exists>p s'. alloc_page s = Some (p, s') \<and> (p = NULL \<and> s' = s \<or>
      (\<exists>xs'. page_aligned p \<and> inv s' xs' \<and> set xs = set xs' \<union> set (chunks p 4) \<and>
        (\<forall>x\<in>set xs'. \<not> in_page p x) \<and> other s' = other s \<and>
        (\<forall>a. a \<notin> set xs \<longrightarrow> \<not> in_page p a \<longrightarrow> memory s' a = memory s a)))"
    and free_page: "inv s xs \<Longrightarrow> page_aligned p \<Longrightarrow> \<forall>x\<in>set xs. \<not> in_page p x \<Longrightarrow>
      \<exists>s' xs'. free_page p s = Some s' \<and> inv s' xs' \<and> set xs' = set xs \<union> set (chunks p 4) \<and>
        other s' = other s \<and> (\<forall>a. a \<notin> set xs \<longrightarrow> \<not> in_page p a \<longrightarrow> memory s' a = memory s a)"
begin

lemma page_roundtrip:
  assumes "inv s xs" "alloc_page s = Some (p, s')" "p \<noteq> NULL"
  shows "\<exists>s'' xs''. free_page p s' = Some s'' \<and> inv s'' xs'' \<and> set xs'' = set xs \<and> other s'' = other s"
proof -
  obtain xs' where "page_aligned p" "inv s' xs'" and xs: "set xs = set xs' \<union> set (chunks p 4)"
    and "\<forall>x\<in>set xs'. \<not> in_page p x" and o: "other s' = other s"
    using alloc_page [OF assms(1)] assms(2,3) by auto
  from free_page [OF this(2,1,4)] xs o show ?thesis by auto
qed

end

lemma chunks_in_page:
  assumes "page_aligned p" "x \<in> set (chunks p 4)" shows "in_page p x"
proof -
  have "unat p + 1024 * 4 \<le> 2 ^ 32" using assms(1) by (simp add: page_aligned_def)
  from in_chunks [OF this] assms(2) show ?thesis by (auto simp: in_page_def)
qed

lemma page_chunk_aligned: "page_aligned p \<Longrightarrow> chunk_aligned p"
  by (auto simp: page_aligned_def chunk_aligned_def intro: dvd_trans [of _ 4096])

interpretation kmem_pages: page_source "kmem_inv :: 'a kmem_scheme \<Rightarrow> _" mem kmem.more
  "kmem_alloc MDB_ALLOC_CHUNKSZ" "\<lambda>p. kmem_free p MDB_ALLOC_CHUNKSZ"
proof
  fix s :: "'a kmem_scheme" and xs p
  have sz: "MDB_ALLOC_CHUNKSZ = of_nat (1024 * Suc 3)" by (simp add: MDB_ALLOC_CHUNKSZ_def)
  assume inv: "kmem_inv s xs"
  show "\<exists>p s'. kmem_alloc MDB_ALLOC_CHUNKSZ s = Some (p, s') \<and> (p = NULL \<and> s' = s \<or>
      (\<exists>xs'. page_aligned p \<and> kmem_inv s' xs' \<and> set xs = set xs' \<union> set (chunks p 4) \<and>
        (\<forall>x\<in>set xs'. \<not> in_page p x) \<and> kmem.more s' = kmem.more s \<and>
        (\<forall>a. a \<notin> set xs \<longrightarrow> \<not> in_page p a \<longrightarrow> mem s' a = mem s a)))"
  proof (cases "alloc_split MDB_ALLOC_CHUNKSZ (Suc 3) xs")
    case None
    then show ?thesis using kmem_alloc_miss [OF inv, of 3] unfolding sz by simp
  next
    case (Some r)
    then obtain pre c rest where sp: "alloc_split MDB_ALLOC_CHUNKSZ (Suc 3) xs = Some (pre, c, rest)"
      by (cases r) auto
    have xs: "xs = pre @ chunks c (Suc 3) @ rest" "rest \<noteq> []" "c AND (MDB_ALLOC_CHUNKSZ - 1) = 0"
      using alloc_split_Some [OF sp] by auto
    note ar = kmem_inv_around [OF inv [unfolded xs(1)]]
    from kmem_alloc_hit [OF inv sp [unfolded sz]] obtain s' where
      s': "kmem_alloc MDB_ALLOC_CHUNKSZ s = Some (c, s')" "kmem_inv s' (pre @ rest)"
        "kmem.more s' = kmem.more s"
        "\<forall>x. unat x < unat c \<or> unat c + 1024 * Suc 3 \<le> unat x \<longrightarrow> x \<notin> set pre \<longrightarrow> mem s' x = mem s x"
      unfolding sz by blast
    have "unat c mod 4096 = 0"
      using xs(3) unat_and_mask [of c 12] by (simp add: MDB_ALLOC_CHUNKSZ_def mask_eq_exp_minus_1)
    moreover have "unat c + 4096 < 2 ^ 32"
      using ar(5) xs(2) unat_dword_less [of "hd rest"] by (cases rest) auto
    ultimately have "page_aligned c" using ar(2) by (auto simp: page_aligned_def)
    moreover have "\<forall>x\<in>set (pre @ rest). \<not> in_page c x"
      using ar(4,5) by (auto simp: in_page_def word_less_nat_alt)
    ultimately show ?thesis using s' xs(1)
      by (intro exI [of _ c] exI [of _ s'] conjI disjI2 exI [of _ "pre @ rest"]) (auto simp: in_page_def)
  qed
  assume p: "page_aligned p" and n: "\<forall>x\<in>set xs. \<not> in_page p x"
  let ?ls = "takeWhile (\<lambda>x. x < p) xs" and ?rs = "dropWhile (\<lambda>x. x < p) xs"
  have rs: "\<forall>x\<in>set ?rs. unat p + 1024 * Suc 3 \<le> unat x"
  proof
    fix x assume x: "x \<in> set ?rs"
    have "sorted xs" using inv by (auto simp: kmem_inv_def strict_sorted_iff)
    then have "\<not> x < p" using x by (rule sorted_dropWhile_less)
    moreover have "\<not> in_page p x" using n x by (auto dest: set_dropWhileD)
    ultimately show "unat p + 1024 * Suc 3 \<le> unat x" by (auto simp: in_page_def word_less_nat_alt)
  qed
  have "\<exists>k'. kmem_free p MDB_ALLOC_CHUNKSZ s = Some k' \<and>
      kmem_inv k' (?ls @ chunks p (Suc 3) @ ?rs) \<and> kmem.more k' = kmem.more s \<and>
      (\<forall>x. x \<notin> set ?ls \<union> set (chunks p (Suc 3)) \<longrightarrow> mem k' x = mem s x)"
    unfolding sz
    by (rule kmem_free_split) (use inv p rs in \<open>auto simp: page_aligned_def page_chunk_aligned dest: set_takeWhileD\<close>)
  then obtain k' where k': "kmem_free p MDB_ALLOC_CHUNKSZ s = Some k'"
      "kmem_inv k' (?ls @ chunks p (Suc 3) @ ?rs)" "kmem.more k' = kmem.more s"
      "\<forall>x. x \<notin> set ?ls \<union> set (chunks p (Suc 3)) \<longrightarrow> mem k' x = mem s x" by blast
  have "set xs = set ?ls \<union> set ?rs" by (metis set_append takeWhile_dropWhile_id)
  then show "\<exists>s' xs'. kmem_free p MDB_ALLOC_CHUNKSZ s = Some s' \<and> kmem_inv s' xs' \<and>
        set xs' = set xs \<union> set (chunks p 4) \<and> kmem.more s' = kmem.more s \<and>
        (\<forall>a. a \<notin> set xs \<longrightarrow> \<not> in_page p a \<longrightarrow> mem s' a = mem s a)"
    using k' chunks_in_page [OF p]
    by (intro exI [of _ k'] exI [of _ "?ls @ chunks p (Suc 3) @ ?rs"]) (auto simp: eval_nat_numeral)
qed

section \<open>A fresh pool\<close>

lemma slot_Suc: "slot f sz mx (Suc k) = slot f sz mx k + sz"
  by (simp add: slot_def algebra_simps)

lemma slot_end:
  assumes "page_aligned f" "fits sz mx"
  shows "slot f sz mx (unat mx) = f + 4096" and "slot f sz mx 0 = f + MDB_ALLOC_CHUNKSZ - mx * sz"
    and "k < unat mx \<Longrightarrow> slot f sz mx k \<le> f + MDB_ALLOC_CHUNKSZ - sz" and "\<not> f + 4096 \<le> f + MDB_ALLOC_CHUNKSZ - sz"
proof -
  have le: "unat mx * unat sz + 20 \<le> 4096" using assms(2) by (simp add: fits_def)
  show "slot f sz mx (unat mx) = f + 4096" using le by (simp add: slot_def of_nat_diff)
  have "unat f + 4096 - unat mx * unat sz + 0 * unat sz = unat f + (4096 - unat mx * unat sz)" using le by simp
  then show "slot f sz mx 0 = f + MDB_ALLOC_CHUNKSZ - mx * sz"
    using le by (simp add: slot_def of_nat_diff MDB_ALLOC_CHUNKSZ_def)
  have "unat sz \<le> 4096"
    using le assms(2) by (cases "unat mx") (auto simp: fits_def)
  then have "f + MDB_ALLOC_CHUNKSZ - sz = of_nat (unat f + 4096 - unat sz)"
    by (simp add: MDB_ALLOC_CHUNKSZ_def of_nat_diff)
  then have ed: "unat (f + MDB_ALLOC_CHUNKSZ - sz) = unat f + 4096 - unat sz"
  proof -
    have "unat f + 4096 - unat sz < 2 ^ 32" using assms(1) by (auto simp: page_aligned_def)
    with \<open>f + MDB_ALLOC_CHUNKSZ - sz = _\<close> show ?thesis by (simp add: unat_of_nat_small)
  qed
  show "k < unat mx \<Longrightarrow> slot f sz mx k \<le> f + MDB_ALLOC_CHUNKSZ - sz"
    using unat_slot(3) [OF assms, of k] ed by (simp add: word_le_nat_alt)
  have "unat (f + 4096) = unat f + 4096"
    using assms(1) unat_add_noflow [of f 4096] by (simp add: page_aligned_def)
  then show "\<not> f + 4096 \<le> f + MDB_ALLOC_CHUNKSZ - sz"
    using ed assms(2) by (auto simp: word_le_nat_alt fits_def)
qed

lemma init_buffers_char:
  assumes "page_aligned f" "fits sz mx" "k \<le> unat mx"
  shows "init_buffers sz (f + MDB_ALLOC_CHUNKSZ - sz) (slot f sz mx k) m =
    Some (f + 4096, fold (\<lambda>j m. m(slot f sz mx j := slot f sz mx (Suc j))) [k..<unat mx] m)"
  using assms(3)
proof (induction "unat mx - k" arbitrary: k m)
  case 0
  then show ?case using slot_end(1,4) [OF assms(1,2)] by (subst init_buffers.simps) simp
next
  case (Suc d)
  then have k: "k < unat mx" by simp
  have "d = unat mx - Suc k" "Suc k \<le> unat mx" using Suc by simp_all
  from Suc(1) [OF this] k slot_end(3) [OF assms(1,2) k] show ?case
    by (subst init_buffers.simps) (simp add: Let_def slot_Suc [symmetric] upt_conv_Cons)
qed

lemma fold_upd_other:
  "x \<notin> g ` set js \<Longrightarrow> fold (\<lambda>j m. m(g j := h j)) js m x = m x"
  by (induction js arbitrary: m) auto

lemma fold_upd_seg:
  assumes "inj_on g {k..<n}" "\<forall>j\<in>{k..<n}. g j \<noteq> NULL" "k \<le> n"
  shows "seg (fold (\<lambda>j m. m(g j := g (Suc j))) [k..<n] m) (g k) (map g [k..<n]) (g n)"
  using assms
proof (induction "n - k" arbitrary: k m)
  case 0
  then show ?case by simp
next
  case (Suc d)
  then have k: "k < n" "Suc k \<le> n" "d = n - Suc k" by auto
  have i: "inj_on g {Suc k..<n}" "\<forall>j\<in>{Suc k..<n}. g j \<noteq> NULL"
    using Suc.prems(1,2) by (auto intro: inj_on_subset)
  let ?m = "m(g k := g (Suc k))" and ?F = "fold (\<lambda>j m. m(g j := g (Suc j)))"
  have "g k \<notin> g ` set [Suc k..<n]"
  proof
    assume "g k \<in> g ` set [Suc k..<n]"
    then obtain j where "g k = g j" "Suc k \<le> j" "j < n" by auto
    with inj_onD [OF Suc.prems(1), of k j] show False by simp
  qed
  then have "?F [Suc k..<n] ?m (g k) = g (Suc k)" by (simp add: fold_upd_other)
  then show ?case using Suc(1) [OF k(3) i k(2), of ?m] Suc.prems k by (simp add: upt_conv_Cons)
qed


text \<open>The cells of a fresh pool: the management structure and the chain through the buffers.\<close>

definition pool_cells :: "nat \<Rightarrow> dword_t \<Rightarrow> dword_t \<Rightarrow> ptr_t \<Rightarrow> wmem \<Rightarrow> wmem" where
  "pool_cells i sz mx f m =
     (fold (\<lambda>j m. m(slot f sz mx j := slot f sz mx (Suc j))) [0..<unat mx]
        (m(f := slot f sz mx 0, f + 4 := mx, f + 12 := NULL, f + 16 := of_nat i)))
     (slot f sz mx (unat mx - 1) := NULL, f + 8 := NULL)"

lemma pool_cells_page:
  assumes f: "page_aligned f" and fit: "fits sz mx"
  shows "pool_page (pool_cells i sz mx f m) i sz mx f (slots f sz mx)"
    and "pool_cells i sz mx f m (f + 8) = NULL" and "pool_cells i sz mx f m (f + 12) = NULL"
    and "\<not> in_page f a \<Longrightarrow> pool_cells i sz mx f m a = m a"
proof -
  let ?g = "slot f sz mx" and ?n = "unat mx"
  define m0 where "m0 = m(f := ?g 0, f + 4 := mx, f + 12 := NULL, f + 16 := of_nat i)"
  define m1 where "m1 = fold (\<lambda>j m. m(?g j := ?g (Suc j))) [0..<?n] m0"
  have n: "1 < ?n" using fit by (simp add: fits_def)
  have sl: "?g j \<in> set (slots f sz mx)" if "j < ?n" for j using that by (simp add: slots_def)
  note pg = slot_in_page [OF f fit sl]
  have m: "pool_cells i sz mx f m = m1(?g (?n - 1) := NULL, f + 8 := NULL)"
    by (simp add: pool_cells_def m1_def m0_def)
  have m1: "m1 a = m0 a" if "a \<notin> set (slots f sz mx)" for a
    unfolding m1_def by (rule fold_upd_other) (use that in \<open>simp add: slots_def\<close>)
  have hdr: "f + c \<notin> set (slots f sz mx)" "f \<notin> set (slots f sz mx)" if "unat c < 20" for c
    using slot_in_page(2,3) [OF f fit] that by blast+
  have inj: "inj_on ?g {0..<?n}" using slots_distinct(1) [OF f fit] by (simp add: slots_def distinct_map)
  have "seg m1 (?g 0) (slots f sz mx) (?g ?n)"
    unfolding m1_def slots_def by (rule fold_upd_seg [OF inj]) (use pg(4) in auto)
  moreover have spl: "slots f sz mx = map ?g [0..<?n - 1] @ [?g (?n - 1)]"
    using n unfolding slots_def by (cases ?n) simp_all
  ultimately have "seg (m1(?g (?n - 1) := NULL)) (?g 0) (slots f sz mx) NULL"
    using slots_distinct(1) [OF f fit] seg_last_upd [of m1 "?g 0" "map ?g [0..<?n - 1]" "?g (?n - 1)"] by simp
  then have sg: "seg (pool_cells i sz mx f m) (?g 0) (slots f sz mx) NULL"
    unfolding m using seg_upd [of "f + 8" "slots f sz mx"] hdr(1) [of 8] by simp
  have c: "pool_cells i sz mx f m (f + c) = m0 (f + c)" "pool_cells i sz mx f m f = m0 f"
    if "unat c < 20" "c \<noteq> 8" for c
    unfolding m using hdr [OF that(1)] m1 [of "f + c"] m1 [of f] sl [of "?n - 1"] n that(2) by auto
  show "pool_page (pool_cells i sz mx f m) i sz mx f (slots f sz mx)"
    unfolding pool_page_def using f slots_distinct(1) [OF f fit] sg c(1) [of 4] c(1) [of 16] c(2) [of 4]
    by (simp add: m0_def slots_def)
  show "pool_cells i sz mx f m (f + 12) = NULL" using c(1) [of 12] by (simp add: m0_def)
  show "pool_cells i sz mx f m (f + 8) = NULL" by (simp add: m)
  assume na: "\<not> in_page f a"
  have "a \<notin> set (slots f sz mx)" "a \<noteq> f" using na slot_in_page(1) [OF f fit] by auto
  moreover have "a \<noteq> f + 4" "a \<noteq> f + 8" "a \<noteq> f + 12" "a \<noteq> f + 16"
    using na in_page_offset [OF f] by auto
  ultimately show "pool_cells i sz mx f m a = m a"
    unfolding m using m1 [of a] sl [of "?n - 1"] n by (auto simp: m0_def)
qed

lemma new_pool_eq:
  fixes s :: "'a mdb_mem_scheme"
  assumes "kmem_alloc MDB_ALLOC_CHUNKSZ s = Some (f, s1)" "page_aligned f" "mdb_buflists s1 ! i = bl"
    "fits sz (max_free bl)" "list_of_lists bl = NULL"
  shows "new_pool i sz s = Ok (f, set_bl i f (s1\<lparr>mem := pool_cells i sz (max_free bl) f (mem s1)\<rparr>))"
proof -
  have "f \<noteq> NULL" using assms(2) by (simp add: page_aligned_def)
  moreover have "f + 4096 - sz = slot f sz (max_free bl) (unat (max_free bl) - 1)"
    using slot_end(1) [OF assms(2,4)] slot_Suc [of f sz "max_free bl" "unat (max_free bl) - 1"] assms(4)
    by (simp add: fits_def algebra_simps)
  ultimately show ?thesis
    using assms init_buffers_char [OF assms(2,4), of 0] slot_end(2) [OF assms(2,4)]
    by (simp add: new_pool_def Let_def wr_def mng_freelist_def mng_num_free_def mng_next_freelist_def
        mng_prev_freelist_def mng_bl_def set_bl_def pool_cells_def)
qed

lemma new_pool_step:
  fixes s :: "'a mdb_mem_scheme"
  assumes inv: "mdb_inv s xs P F fl" and small: "small_bl s i" and P: "P i = []"
    and sz: "sz = bl_size (mdb_buflists s ! i)"
  shows "(\<exists>s'. kmem_alloc MDB_ALLOC_CHUNKSZ s = Some (NULL, s') \<and> new_pool i sz s = Err Null_deref) \<or>
    (\<exists>f s' xs'. new_pool i sz s = Ok (f, s') \<and> set xs = set xs' \<union> set (chunks f 4) \<and>
       (\<forall>j. f \<notin> set (P j @ F j)) \<and> small_bl s' i \<and> same_lists s s' \<and> mdb_mem.more s' = mdb_mem.more s \<and>
       page_aligned f \<and> (\<forall>a. mem s' a \<noteq> mem s a \<longrightarrow> in_page f a \<or> a \<in> set xs) \<and>
       mdb_inv s' xs' (P(i := [f])) F (fl(f := slots f sz (max_free (mdb_buflists s ! i)))))"
proof -
  let ?bl = "mdb_buflists s ! i"
  define mx where "mx = max_free ?bl"
  note ok = mdb_invD(2) [OF inv small, unfolded P]
  have fit: "fits sz mx" and l0: "list_of_lists ?bl = NULL" and ilt: "i < length (mdb_buflists s)"
    using pools_okD(1,2) [OF ok] small by (auto simp: sz mx_def small_bl_def)
  obtain f s1 where a: "kmem_alloc MDB_ALLOC_CHUNKSZ s = Some (f, s1)" and
    "f = NULL \<and> s1 = s \<or> (\<exists>xs'. page_aligned f \<and> kmem_inv s1 xs' \<and> set xs = set xs' \<union> set (chunks f 4) \<and>
        (\<forall>x\<in>set xs'. \<not> in_page f x) \<and> kmem.more s1 = kmem.more s \<and>
        (\<forall>a. a \<notin> set xs \<longrightarrow> \<not> in_page f a \<longrightarrow> mem s1 a = mem s a))"
    using kmem_pages.alloc_page [OF mdb_invD(1) [OF inv]] by auto
  then consider "f = NULL" | xs' where "page_aligned f" "kmem_inv s1 xs'" "set xs = set xs' \<union> set (chunks f 4)"
      "\<forall>x\<in>set xs'. \<not> in_page f x" "kmem.more s1 = kmem.more s"
      "\<forall>a. a \<notin> set xs \<longrightarrow> \<not> in_page f a \<longrightarrow> mem s1 a = mem s a" by auto
  then show ?thesis
  proof cases
    case 1
    then show ?thesis using a by (simp add: new_pool_def)
  next
    case (2 xs')
    define s' where "s' = set_bl i f (s1\<lparr>mem := pool_cells i sz mx f (mem s1)\<rparr>)"
    note pc = pool_cells_page [OF 2(1) fit, where i = i and m = "mem s1"]
    have bl1: "mdb_buflists s1 = mdb_buflists s" using 2(5) by (cases s; cases s1) simp
    have np: "new_pool i sz s = Ok (f, s')"
      unfolding s'_def mx_def using new_pool_eq [OF a 2(1), of i ?bl] bl1 fit l0 by (simp add: mx_def)
    have ms: "mem s' = pool_cells i sz mx f (mem s1)" "kmem_free_list s' = kmem_free_list s1"
      "free_chunks s' = free_chunks s1" "mdb_buflists s' = (mdb_buflists s)[i := ?bl\<lparr>list_of_lists := f\<rparr>]"
      by (simp_all add: s'_def set_bl_def bl1)
    have "f \<in> set (chunks f 4)" by (simp add: eval_nat_numeral chunks_Suc)
    then have fresh: "f \<notin> set (P j @ F j)" for j
      using mdb_invD(6) [OF inv, of f j f] 2(3) in_page_self by blast
    have same: "same_page g (mem s) (mem s')" if "g \<in> set (P j @ F j)" for j g
      unfolding same_page_def ms(1)
      using pc(4) 2(1,6) mdb_invD(4,6) [OF inv that] in_page_unique [of f g] fresh [of j] that by metis
    have new: "pools_ok s' i [f] (F i) (fl(f := slots f sz mx))"
    proof (rule pools_ok_change [OF ok ilt ms(4)])
      show "pool_page (mem s') i (bl_size ?bl) (max_free ?bl) f (slots f sz mx)"
        using pc(1) by (simp add: ms(1) sz mx_def)
      show "dll (mem s') NULL f [f]" using pc(2,3) 2(1) by (simp add: ms(1) page_aligned_def)
      show "slots f sz mx \<noteq> []" using fit by (simp add: slots_def fits_def)
    qed (use pools_okD(3) [OF ok] fresh [of i] same [of _ i] same_page_pool in auto)
    have "mdb_inv s' xs' (P(i := [f])) (F(i := F i)) (fl(f := slots f sz mx))"
    proof (rule mdb_inv_update [OF inv small ms(4) _ new])
      show "kmem_inv s' xs'"
        using kmem_inv_frame [OF 2(2) ms(2,3)] pc(4) 2(4) ms(1) by simp
      show "\<not> in_page g x" if "g \<in> set ([f] @ F i)" "x \<in> set xs'" for g x
        using that 2(3,4) mdb_invD(6) [OF inv, of g i x] by auto
      show "g \<notin> set ([f] @ F i) \<and> (fl(f := slots f sz mx)) g = fl g \<and> same_page g (mem s) (mem s') \<and>
          (\<forall>x\<in>set xs'. \<not> in_page g x)" if "j \<noteq> i" "g \<in> set (P j @ F j)" for j g
      proof -
        have "g \<noteq> f" "g \<notin> set (F i)" using that fresh [of j] mdb_invD(5) [OF inv that(2), of i] by auto
        moreover have "\<forall>x\<in>set xs'. \<not> in_page g x" using mdb_invD(6) [OF inv that(2)] 2(3) by blast
        ultimately show ?thesis using same [OF that(2)] by simp
      qed
    qed
    moreover have "\<forall>a. mem s' a \<noteq> mem s a \<longrightarrow> in_page f a \<or> a \<in> set xs" using pc(4) 2(6) ms(1) by metis
    moreover have "mdb_mem.more s' = mdb_mem.more s" using 2(5) by (cases s; cases s1) (simp add: s'_def set_bl_def)
    ultimately show ?thesis using np 2(1,3) fresh small ms(4) same_listsI [OF ms(4)]
      by (intro disjI2 exI [of _ f] exI [of _ s'] exI [of _ xs']) (auto simp: mx_def small_bl_def)
  qed
qed


section \<open>Returning a buffer\<close>

definition put_cells :: "ptr_t \<Rightarrow> ptr_t \<Rightarrow> wmem \<Rightarrow> wmem" where
  "put_cells f b m = m(b := m f, f := b, f + 4 := m (f + 4) + 1)"

lemma put_cells_page:
  assumes p: "pool_page m i sz mx f bs" and fit: "fits sz mx" and b: "b \<in> set (slots f sz mx)" "b \<notin> set bs"
  shows "pool_page (put_cells f b m) i sz mx f (b # bs)"
    and "\<not> in_page f a \<Longrightarrow> put_cells f b m a = m a"
    and "unat c < 20 \<Longrightarrow> c \<noteq> 0 \<Longrightarrow> c \<noteq> 4 \<Longrightarrow> put_cells f b m (f + c) = m (f + c)"
    and "put_cells f b m (f + 4) = of_nat (Suc (length bs))"
proof -
  have f: "page_aligned f" using p by (simp add: pool_page_def)
  note pg = slot_in_page [OF f fit b(1)]
  have ne: "b \<noteq> f + c" "b \<noteq> f" "b \<noteq> NULL" if "unat c < 20" for c using pg that by auto
  show c: "unat c < 20 \<Longrightarrow> c \<noteq> 0 \<Longrightarrow> c \<noteq> 4 \<Longrightarrow> put_cells f b m (f + c) = m (f + c)" for c
    using ne [of c] by (auto simp: put_cells_def)
  show n: "put_cells f b m (f + 4) = of_nat (Suc (length bs))"
    using p by (simp add: put_cells_def pool_page_def)
  show "\<not> in_page f a \<Longrightarrow> put_cells f b m a = m a"
    using pg(1) in_page_offset [OF f, of 4] by (auto simp: put_cells_def)
  have bs: "put_cells f b m x = m x" if "x \<in> set bs" for x
  proof -
    have "x \<in> set (slots f sz mx)" using p that by (auto simp: pool_page_def)
    then have "x \<noteq> f" "x \<noteq> f + 4" using slot_in_page(2,3) [OF f fit] by auto
    then show ?thesis using that b(2) by (auto simp: put_cells_def)
  qed
  have hd: "put_cells f b m f = b" "put_cells f b m b = m f"
    using ne [of 4] by (auto simp: put_cells_def)
  show "pool_page (put_cells f b m) i sz mx f (b # bs)"
    using p b ne(3) [of 0] n hd bs c [of 16] seg_frame [of m "m f" bs NULL "put_cells f b m"]
    by (auto simp: pool_page_def)
qed

lemma put_buffer_eq:
  "b \<noteq> f + 4 \<Longrightarrow> put_buffer f b s = s\<lparr>mem := put_cells f b (mem s)\<rparr>"
  by (simp add: put_buffer_def put_cells_def wr_def mng_freelist_def mng_num_free_def)

lemma mdb_free_buffer_eq:
  fixes s :: "'a mdb_mem_scheme"
  assumes inv: "mdb_inv s xs P F fl" and small: "small_bl s i" and f: "f \<in> set (P i @ F i)"
    and sz: "sz = bl_size (mdb_buflists s ! i)" and mx: "mx = max_free (mdb_buflists s ! i)"
    and b: "b \<in> set (slots f sz mx)" "b \<notin> set (fl f)"
  defines "s1 \<equiv> s\<lparr>mem := put_cells f b (mem s)\<rparr>"
  shows "mdb_free_buffer b sz s =
    (if fl f = [] then Some (enlist_pool i f s1)
     else if Suc (length (fl f)) = unat mx then kmem_free f MDB_ALLOC_CHUNKSZ (delist_pool i f s1)
     else Some s1)"
proof -
  note ok = mdb_invD(2) [OF inv small]
  note pp = pools_okD(6) [OF ok f, folded sz mx] and al = pools_okD(7) [OF ok f]
    and fit = pools_okD(1) [OF ok, folded sz mx]
  note pg = slot_in_page [OF al fit b(1)]
  have "i < 2 ^ 32" using inv small by (simp add: mdb_inv_def small_bl_def)
  then have i: "unat (mem s (f + 16)) = i"
    using pp by (simp add: pool_page_def unat_of_nat_small)
  have "length (b # fl f) < 2 ^ 32" by (rule pool_page_length(2) [OF put_cells_page(1) [OF pp fit b] fit])
  then have n: "unat (mem s1 (f + 4)) = Suc (length (fl f))"
    unfolding s1_def using put_cells_page(4) [OF pp fit b] unat_of_nat_small [of "Suc (length (fl f))", where 'a = 32]
    by (simp del: of_nat_Suc)
  have "\<not> MDB_ALLOC_CHUNKSZ \<le> sz" using small by (simp add: small_bl_def sz not_le)
  moreover have "b AND NOT (MDB_ALLOC_CHUNKSZ - 1) = f" by (rule page_and [OF al pg(1)])
  moreover have "put_buffer f b s = s1" unfolding s1_def using pg(2) [of 4] by (simp add: put_buffer_eq)
  moreover have "mdb_buflists s1 ! i = mdb_buflists s ! i" by (simp add: s1_def)
  moreover have "mem s1 (f + 4) = 1 \<longleftrightarrow> fl f = []" "mem s1 (f + 4) = mx \<longleftrightarrow> Suc (length (fl f)) = unat mx"
    using n by (auto simp: word_unat_eq_iff [of "mem s1 (f + 4)"])
  ultimately show ?thesis
    unfolding mdb_free_buffer_def Let_def mng_bl_def mng_num_free_def by (simp add: i mx)
qed

lemma dll_links:
  assumes "dll m q p (ys @ x # zs)"
  shows "m (x + 8) = (if zs = [] then NULL else hd zs)" and "m (x + 12) = (if ys = [] then q else last ys)"
    and "p = hd (ys @ [x])"
  using assms
proof (induction ys arbitrary: q p)
  case Nil
  { case 1 then show ?case using dll_start [of m x "m (x + 8)" zs] by simp }
  { case 2 then show ?case by simp }
  { case 3 then show ?case by simp }
next
  case (Cons y ys)
  { case 1 then show ?case using Cons(1) [of y "m (y + 8)"] by auto }
  { case 2 then show ?case using Cons(2) [of y "m (y + 8)"] by auto }
  { case 3 then show ?case by simp }
qed

lemma free_keep_step:
  fixes s :: "'a mdb_mem_scheme"
  assumes inv: "mdb_inv s xs P F fl" and small: "small_bl s i" and f: "f \<in> set (P i)"
    and b: "b \<in> set (slots f (bl_size (mdb_buflists s ! i)) (max_free (mdb_buflists s ! i)))" "b \<notin> set (fl f)"
  shows "mdb_inv (s\<lparr>mem := put_cells f b (mem s)\<rparr>) xs P F (fl(f := b # fl f))"
proof -
  let ?s = "s\<lparr>mem := put_cells f b (mem s)\<rparr>" and ?bl = "mdb_buflists s ! i"
  note ok = mdb_invD(2) [OF inv small]
  have fi: "f \<in> set (P i @ F i)" using f by simp
  note put = put_cells_page [OF pools_okD(6) [OF ok fi] pools_okD(1) [OF ok] b]
  have ilt: "i < length (mdb_buflists s)" using small by (simp add: small_bl_def)
  then have bls: "mdb_buflists ?s = (mdb_buflists s)[i := ?bl\<lparr>list_of_lists := list_of_lists ?bl\<rparr>]" by simp
  have al: "page_aligned g" if "g \<in> set (P i @ F i)" for g using pools_okD(7) [OF ok that] .
  have oth: "put_cells f b (mem s) a = mem s a" if "g \<in> set (P i @ F i)" "g \<noteq> f" "in_page g a" for g a
    using put(2) [of a] in_page_unique [OF al al, of g f a] that fi by blast
  have lk: "put_cells f b (mem s) (g + 8) = mem s (g + 8) \<and> put_cells f b (mem s) (g + 12) = mem s (g + 12)"
    if "g \<in> set (P i)" for g
    using put(3) [of 8] put(3) [of 12] oth [of g "g + 8"] oth [of g "g + 12"] that
      in_page_offset [OF al, of g 8] in_page_offset [OF al, of g 12] by (cases "g = f") auto
  have d: "dll (mem ?s) NULL (list_of_lists ?bl) (P i)"
    using dll_frame [OF pools_okD(2) [OF ok], of "mem ?s"] lk by simp
  have new: "pools_ok ?s i (P i) (F i) (fl(f := b # fl f))"
  proof (rule pools_ok_change [OF ok ilt bls d])
    show "pool_page (mem ?s) i (bl_size ?bl) (max_free ?bl) f (b # fl f)" using put(1) by simp
    show "f \<in> set (F i) \<Longrightarrow> b # fl f = []" using pools_okD(3) [OF ok] f by auto
  qed (use pools_okD(3) [OF ok] oth in \<open>auto simp: same_pool_def\<close>)
  have "mdb_inv ?s xs (P(i := P i)) (F(i := F i)) (fl(f := b # fl f))"
    by (rule mdb_inv_local [OF inv small bls _ _ _ _ _ new]) (use put(2) fi in auto)
  then show ?thesis by simp
qed

lemma free_enlist_step:
  fixes s :: "'a mdb_mem_scheme"
  assumes inv: "mdb_inv s xs P F fl" and small: "small_bl s i" and f: "f \<in> set (F i)"
    and b: "b \<in> set (slots f (bl_size (mdb_buflists s ! i)) (max_free (mdb_buflists s ! i)))"
  shows "mdb_inv (enlist_pool i f (s\<lparr>mem := put_cells f b (mem s)\<rparr>)) xs (P(i := f # P i))
    (F(i := remove1 f (F i))) (fl(f := [b]))"
proof -
  let ?bl = "mdb_buflists s ! i" and ?l = "list_of_lists (mdb_buflists s ! i)"
  define s' where "s' = enlist_pool i f (s\<lparr>mem := put_cells f b (mem s)\<rparr>)"
  define m1 where "m1 = put_cells f b (mem s)"
  note ok = mdb_invD(2) [OF inv small]
  have fi: "f \<in> set (P i @ F i)" and fl: "fl f = []" using f pools_okD(5) [OF ok] by auto
  note fit = pools_okD(1) [OF ok] and d = pools_okD(2) [OF ok] and dist = pools_okD(3) [OF ok]
  note put = put_cells_page [OF pools_okD(6) [OF ok fi] fit b, unfolded fl, simplified]
  have ilt: "i < length (mdb_buflists s)" using small by (simp add: small_bl_def)
  have al: "page_aligned g" if "g \<in> set (P i @ F i)" for g using pools_okD(7) [OF ok that] .
  have l: "?l = (if P i = [] then NULL else hd (P i))" by (rule dll_start [OF d])
  have nn: "P i \<noteq> [] \<Longrightarrow> hd (P i) \<noteq> NULL" using al [of "hd (P i)"] by (auto simp: page_aligned_def)
  have s': "mem s' = (if P i = [] then m1 else m1(hd (P i) + 12 := f))(f + 8 := ?l, f + 12 := NULL)"
    "kmem_free_list s' = kmem_free_list s" "free_chunks s' = free_chunks s"
    "mdb_buflists s' = (mdb_buflists s)[i := ?bl\<lparr>list_of_lists := f\<rparr>]"
    using l nn by (simp_all add: s'_def m1_def enlist_pool_def Let_def wr_def set_bl_def mng_prev_freelist_def
        mng_next_freelist_def)
  have ne: "hd (P i) \<noteq> f" if "P i \<noteq> []" using dist f that by (cases "P i") auto
  have out: "mem s' a = mem s a" if "\<not> in_page f a" "P i = [] \<or> a \<noteq> hd (P i) + 12" for a
  proof -
    have "a \<noteq> f + 8" "a \<noteq> f + 12" using that(1) in_page_offset [OF al [OF fi]] by auto
    then show ?thesis unfolding s'(1) using put(2) [OF that(1)] that(2) by (cases "P i") (simp_all add: m1_def)
  qed
  have inp: "mem s' a = m1 a" if "in_page f a" "a \<noteq> f + 8" "a \<noteq> f + 12" for a
  proof -
    have "P i = [] \<or> a \<noteq> hd (P i) + 12"
      using that(1) in_page_cell [OF al al, of "hd (P i)" f 12] ne fi by (cases "P i = []") auto
    then show ?thesis unfolding s'(1) using that by auto
  qed
  have pf: "pool_page (mem s') i (bl_size ?bl) (max_free ?bl) f [b]"
    by (rule pool_page_frame [OF put(1) fit]) (use inp in \<open>simp add: same_pool_def m1_def\<close>)
  have same: "same_pool g (mem s) (mem s')" "mem s' (g + 8) = mem s (g + 8)"
    if "g \<in> set (P i @ F i)" "g \<noteq> f" for g
  proof -
    have o: "mem s' a = mem s a" if "in_page g a" "a \<noteq> g + 12" for a
    proof (rule out)
      show "\<not> in_page f a" using in_page_unique [OF al al, of f g a] that(1) fi \<open>g \<noteq> f\<close> \<open>g \<in> _\<close> by blast
      show "P i = [] \<or> a \<noteq> hd (P i) + 12"
        using in_page_unique [OF al al, of "hd (P i)" g a] in_page_offset [OF al, of "hd (P i)" 12] that \<open>g \<in> _\<close>
        by fastforce
    qed
    show "same_pool g (mem s) (mem s')" unfolding same_pool_def using o by blast
    show "mem s' (g + 8) = mem s (g + 8)" using o in_page_offset [OF al [OF that(1)], of 8] by simp
  qed
  have d': "dll (mem s') NULL f (f # P i)"
  proof (rule dll_insert_head [OF d])
    show "distinct (P i)" using dist by simp
    show "f \<noteq> NULL" "mem s' (f + 8) = ?l" "mem s' (f + 12) = NULL"
      using al [OF fi] s'(1) by (auto simp: page_aligned_def)
    show "\<forall>y\<in>set (P i). mem s' (y + 8) = mem s (y + 8)" using same(2) dist f by auto
    show "mem s' (hd (P i) + 12) = f" if "P i \<noteq> []"
      unfolding s'(1) using that ne [OF that] page_cell_eq [OF al al, of "hd (P i)" f 12 8] fi
        page_cell_eq [OF al al, of "hd (P i)" f 12 12] by simp
    show "\<forall>y\<in>set (tl (P i)). mem s' (y + 12) = mem s (y + 12)"
    proof
      fix y assume y: "y \<in> set (tl (P i))"
      then have yi: "y \<in> set (P i)" "y \<noteq> hd (P i)" "y \<noteq> f" using dist f by (cases "P i"; auto)+
      show "mem s' (y + 12) = mem s (y + 12)"
        by (rule out) (use yi al [of y] al [of "hd (P i)"] al [of f] fi in \<open>auto simp: in_page_cell\<close>)
    qed
  qed
  have new: "pools_ok s' i (f # P i) (remove1 f (F i)) (fl(f := [b]))"
    by (rule pools_ok_change [OF ok ilt s'(4) d'])
      (use dist f pf same(1) in \<open>auto dest: notin_set_remove1 simp: distinct_remove1 set_remove1_eq\<close>)
  have "mdb_inv s' xs (P(i := f # P i)) (F(i := remove1 f (F i))) (fl(f := [b]))"
  proof (rule mdb_inv_local [OF inv small s'(4,2,3) _ _ _ new])
    show "set ((f # P i) @ remove1 f (F i)) = set (P i @ F i)" using dist f by (auto simp: set_remove1_eq)
    show "(fl(f := [b])) g = fl g" if "g \<notin> set (P i @ F i)" for g using that fi by auto
    show "\<exists>g\<in>set (P i @ F i). in_page g a" if "mem s' a \<noteq> mem s a" for a
    proof -
      have "in_page f a \<or> (P i \<noteq> [] \<and> a = hd (P i) + 12)" using out [of a] that by blast
      moreover have "P i \<noteq> [] \<Longrightarrow> in_page (hd (P i)) (hd (P i) + 12)" using in_page_offset [OF al, of "hd (P i)" 12] by simp
      ultimately show ?thesis using fi by (metis UnCI hd_in_set set_append)
    qed
  qed
  then show ?thesis by (simp add: s'_def)
qed

lemma delist_pool_cells:
  fixes s :: "'a mdb_mem_scheme"
  assumes d: "dll (mem s) NULL (list_of_lists (mdb_buflists s ! i)) (ys @ f # zs)"
    and dist: "distinct (ys @ f # zs)" and al': "\<forall>g\<in>set (ys @ f # zs). page_aligned g"
  defines "s' \<equiv> delist_pool i f s" and "l \<equiv> list_of_lists (mdb_buflists s ! i)"
  shows "mem s' = (let nxt = (if zs = [] then NULL else hd zs);
      m1 = (if zs = [] then mem s else (mem s)(hd zs + 12 := if ys = [] then NULL else last ys))
      in if ys = [] then m1 else m1(last ys + 8 := nxt))"
    and "mdb_buflists s' = (mdb_buflists s)[i := (mdb_buflists s ! i)\<lparr>list_of_lists := if ys = [] then mem s (f + 8) else l\<rparr>]"
    and "kmem_free_list s' = kmem_free_list s" and "free_chunks s' = free_chunks s"
    and "mdb_mem.more s' = mdb_mem.more s"
    and "i < length (mdb_buflists s) \<Longrightarrow> dll (mem s') NULL (list_of_lists (mdb_buflists s' ! i)) (ys @ zs)"
proof -
  let ?nxt = "if zs = [] then NULL else hd zs" and ?prv = "if ys = [] then NULL else last ys"
  define m1 where "m1 = (if zs = [] then mem s else (mem s)(hd zs + 12 := ?prv))"
  note lk = dll_links [OF d]
  have al: "page_aligned g" if "g \<in> set (ys @ f # zs)" for g using al' that by blast
  have nn: "g \<noteq> NULL" if "g \<in> set (ys @ f # zs)" for g using al [OF that] by (simp add: page_aligned_def)
  have z: "zs \<noteq> [] \<Longrightarrow> hd zs \<noteq> f \<and> hd zs \<noteq> NULL \<and> page_aligned (hd zs)"
    using dist nn [of "hd zs"] al [of "hd zs"] by (cases zs) auto
  have y: "ys \<noteq> [] \<Longrightarrow> last ys \<noteq> f \<and> last ys \<noteq> NULL \<and> page_aligned (last ys) \<and> hd ys \<noteq> f"
    using dist nn [of "last ys"] al [of "last ys"] by (cases ys) auto
  have f8: "m1 (f + 8) = ?nxt" "m1 (f + 12) = ?prv"
    using lk z al [of f] by (auto simp: m1_def page_cell_eq)
  have l: "l = f \<longleftrightarrow> ys = []" using lk(3) y by (cases ys) (auto simp: l_def)
  have st: "(if mem s (f + 8) \<noteq> NULL then wr (mem s (f + 8) + 12) (mem s (f + 12)) s else s) = s\<lparr>mem := m1\<rparr>"
    using lk z by (auto simp: m1_def wr_def)
  have s': "s' = (if ys = [] then set_bl i ?nxt (s\<lparr>mem := m1\<rparr>) else s\<lparr>mem := m1(last ys + 8 := ?nxt)\<rparr>)"
    using l y f8 st unfolding s'_def delist_pool_def Let_def mng_next_freelist_def mng_prev_freelist_def st l_def
    by (simp add: wr_def)
  show m: "mem s' = (let nxt = ?nxt; m1 = (if zs = [] then mem s else (mem s)(hd zs + 12 := ?prv))
      in if ys = [] then m1 else m1(last ys + 8 := nxt))"
    unfolding s' m1_def by (simp add: set_bl_def)
  show bl: "mdb_buflists s' = (mdb_buflists s)[i := (mdb_buflists s ! i)\<lparr>list_of_lists := if ys = [] then mem s (f + 8) else l\<rparr>]"
    using lk(1) unfolding s' by (simp add: set_bl_def l_def)
  show "kmem_free_list s' = kmem_free_list s" "free_chunks s' = free_chunks s" "mdb_mem.more s' = mdb_mem.more s"
    unfolding s' by (simp_all add: set_bl_def)
  have "dll (mem s') NULL (if ys = [] then mem s (f + 8) else l) (ys @ zs)"
    unfolding l_def
  proof (rule dll_remove [OF d dist])
    show "\<forall>g\<in>set ys \<union> set zs. g \<noteq> last ys \<or> ys = [] \<longrightarrow> mem s' (g + 8) = mem s (g + 8)"
      unfolding m Let_def using al y z by (auto simp: page_cell_eq)
    show "\<forall>g\<in>set ys \<union> set zs. g \<noteq> hd zs \<or> zs = [] \<longrightarrow> mem s' (g + 12) = mem s (g + 12)"
      unfolding m Let_def using al y z by (auto simp: page_cell_eq)
    show "ys \<noteq> [] \<Longrightarrow> mem s' (last ys + 8) = mem s (f + 8)" unfolding m Let_def lk by simp
    show "zs \<noteq> [] \<Longrightarrow> mem s' (hd zs + 12) = mem s (f + 12)"
      unfolding m Let_def lk using y z by (auto simp: page_cell_eq)
  qed
  then show "i < length (mdb_buflists s) \<Longrightarrow> dll (mem s') NULL (list_of_lists (mdb_buflists s' ! i)) (ys @ zs)"
    unfolding bl by simp
qed

lemma release_step:
  fixes s :: "'a mdb_mem_scheme"
  assumes inv: "mdb_inv s xs P F fl" and small: "small_bl s i" and f: "f \<in> set (P i)"
  shows "\<exists>s' xs'. kmem_free f MDB_ALLOC_CHUNKSZ (delist_pool i f s) = Some s' \<and>
    mdb_inv s' xs' (P(i := removeAll f (P i))) F (fl(f := [])) \<and> same_lists s s' \<and>
    set xs' = set xs \<union> set (chunks f 4) \<and> mdb_mem.more s' = mdb_mem.more s \<and>
    (\<forall>a. mem s' a \<noteq> mem s a \<longrightarrow> in_page f a \<or> a \<in> set xs \<or> (\<exists>g\<in>set (P i). a = g + 8 \<or> a = g + 12))"
proof -
  let ?bl = "mdb_buflists s ! i"
  define s1 where "s1 = delist_pool i f s"
  obtain ys zs where P: "P i = ys @ f # zs" using split_list [OF f] by auto
  note ok = mdb_invD(2) [OF inv small] 
  note ok' = ok [unfolded P]
  have al: "page_aligned g" if "g \<in> set (P i @ F i)" for g using pools_okD(7) [OF ok that] .
  have dist: "distinct (ys @ f # zs)" "f \<notin> set (F i)" and fi: "f \<in> set (P i @ F i)"
    using pools_okD(3) [OF ok'] f by auto
  have al': "\<forall>g\<in>set (ys @ f # zs). page_aligned g" using al P by auto
  note dl = delist_pool_cells [OF pools_okD(2) [OF ok'] dist(1) al', folded s1_def]
  have ilt: "i < length (mdb_buflists s)" using small by (simp add: small_bl_def)
  have out1: "mem s1 a = mem s a" if "\<And>g. g \<in> set (P i) \<Longrightarrow> a \<noteq> g + 8 \<and> a \<noteq> g + 12" for a
    using that [of "hd zs"] that [of "last ys"] dl(1) P by (auto simp: Let_def)
  have cell: "\<exists>g\<in>set (P i). in_page g a" if ne: "mem s1 a \<noteq> mem s a" for a
  proof -
    obtain g where "g \<in> set (P i)" "a = g + 8 \<or> a = g + 12" using out1 [of a] ne by blast
    then show ?thesis using in_page_offset [OF al, of g 8] in_page_offset [OF al, of g 12] by auto
  qed
  have k1: "kmem_inv s1 xs"
  proof (rule kmem_inv_frame [OF mdb_invD(1) [OF inv] dl(3,4)])
    show "\<forall>x\<in>set xs. mem s1 x = mem s x"
    proof (intro ballI, rule ccontr)
      fix x assume x: "x \<in> set xs" "mem s1 x \<noteq> mem s x"
      with cell [OF x(2)] mdb_invD(6) [OF inv _ x(1), of _ i] show False by auto
    qed
  qed
  have nf: "\<forall>x\<in>set xs. \<not> in_page f x" using mdb_invD(6) [OF inv fi] by blast
  obtain s' xs' where k: "kmem_free f MDB_ALLOC_CHUNKSZ s1 = Some s'" "kmem_inv s' xs'"
      "set xs' = set xs \<union> set (chunks f 4)" "kmem.more s' = kmem.more s1"
      "\<forall>a. a \<notin> set xs \<longrightarrow> \<not> in_page f a \<longrightarrow> mem s' a = mem s1 a"
    using kmem_pages.free_page [OF k1 al [OF fi] nf] by blast
  have bl: "mdb_buflists s' = mdb_buflists s1" using k(4) by (cases s'; cases s1) simp
  have pg: "mem s' a = mem s1 a" if "g \<in> set (P j @ F j)" "g \<noteq> f" "in_page g a" for g j a
    using k(5) mdb_invD(6) [OF inv that(1)] in_page_unique [OF mdb_invD(4) [OF inv that(1)] al [OF fi]] that by blast
  have one: "mem s1 a = mem s a" if "g \<in> set (P j @ F j)" "in_page g a" "j \<noteq> i \<or> (a \<noteq> g + 8 \<and> a \<noteq> g + 12)" for g j a
  proof (rule out1)
    fix h assume h: "h \<in> set (P i)"
    then have hi: "h \<in> set (P i @ F i)" by simp
    show "a \<noteq> h + 8 \<and> a \<noteq> h + 12"
      using that in_page_cell [OF al [OF hi] mdb_invD(4) [OF inv that(1)]] mdb_invD(5) [OF inv that(1), of i] hi by auto
  qed
  have d: "dll (mem s') NULL (list_of_lists (mdb_buflists s1 ! i)) (ys @ zs)"
  proof (rule dll_frame [OF dl(6) [OF ilt]], intro ballI)
    fix g assume g: "g \<in> set (ys @ zs)"
    then have "g \<in> set (P i @ F i)" "g \<noteq> f" using P dist by auto
    then show "mem s' (g + 8) = mem s1 (g + 8) \<and> mem s' (g + 12) = mem s1 (g + 12)"
      using pg [of g i] in_page_offset [OF al, of g] by simp
  qed
  have bls: "mdb_buflists s' = (mdb_buflists s)[i := ?bl\<lparr>list_of_lists := list_of_lists (mdb_buflists s1 ! i)\<rparr>]"
    unfolding bl using dl(2) ilt by simp
  have rm: "removeAll f (P i) = ys @ zs" using P dist(1) by (simp add: removeAll_id)
  have new: "pools_ok s' i (ys @ zs) (F i) (fl(f := []))"
  proof (rule pools_ok_change [OF ok ilt bls d])
    show "same_pool g (mem s) (mem s')" if "g \<in> set (P i @ F i)" "g \<noteq> f" for g
      unfolding same_pool_def using pg [OF that] one [OF that(1)] by auto
  qed (use pools_okD(3) [OF ok'] P dist in auto)
  have "mdb_inv s' xs' (P(i := ys @ zs)) (F(i := F i)) (fl(f := []))"
  proof (rule mdb_inv_update [OF inv small bls k(2) new])
    have nx: "\<not> in_page g x" if "g \<in> set (P j @ F j)" "g \<noteq> f" "x \<in> set xs'" for g j x
      using that(3) k(3) mdb_invD(6) [OF inv that(1)] chunks_in_page [OF al [OF fi]] that(2)
        in_page_unique [OF mdb_invD(4) [OF inv that(1)] al [OF fi]] by blast
    show "\<not> in_page g x" if "g \<in> set ((ys @ zs) @ F i)" "x \<in> set xs'" for g x
      by (rule nx [of _ i]) (use that P dist in auto)
    fix j g assume j: "j \<noteq> i" "g \<in> set (P j @ F j)"
    have ni: "g \<notin> set (P i @ F i)" using mdb_invD(5) [OF inv j(2), of i] j(1) by auto
    then have "g \<noteq> f" using fi by auto
    then show "g \<notin> set ((ys @ zs) @ F i) \<and> (fl(f := [])) g = fl g \<and> same_page g (mem s) (mem s') \<and> (\<forall>x\<in>set xs'. \<not> in_page g x)"
      using ni P pg [OF j(2)] one [OF j(2)] j(1) nx [OF j(2)] by (auto simp: same_page_def)
  qed
  moreover have "same_lists s s'" by (rule same_listsI [OF bls])
  moreover have "\<forall>a. mem s' a \<noteq> mem s a \<longrightarrow> in_page f a \<or> a \<in> set xs \<or> (\<exists>g\<in>set (P i). a = g + 8 \<or> a = g + 12)"
    using k(5) out1 by metis
  moreover have "mdb_mem.more s' = mdb_mem.more s" using dl(5) k(4) by (cases s'; cases s1) simp
  ultimately show ?thesis using k(1,3) rm unfolding s1_def by auto
qed

end
