(* ===== verification/Mdb_Heap.thy ===== *)
theory Mdb_Heap
  imports Mdb_Pools
begin

text \<open>
  The buffer allocator of the mapping database against an abstract allocator: \<open>mdb_ok s U H\<close> says that
  the state implements a heap with area \<open>H\<close> in which exactly the buffers \<open>U i\<close> of every list \<open>i\<close> are in
  use, and \<open>mdb_frame\<close> that a step touches nothing else. Allocation, freeing and start-up are proved
  against it.
\<close>

section \<open>The abstract allocator\<close>

text \<open>What a client sees: the area \<open>H\<close> of memory that kernel memory and the pools manage together, and for
  every buffer list the set of buffers handed out.\<close>

definition in_use ::
    "'a mdb_mem_scheme \<Rightarrow> (nat \<Rightarrow> ptr_t list) \<Rightarrow> (nat \<Rightarrow> ptr_t list) \<Rightarrow> (ptr_t \<Rightarrow> ptr_t list) \<Rightarrow> nat \<Rightarrow> ptr_t set" where
  "in_use s P F fl i = {b. \<exists>f\<in>set (P i @ F i).
     b \<in> set (slots f (bl_size (mdb_buflists s ! i)) (max_free (mdb_buflists s ! i))) - set (fl f)}"

definition block :: "ptr_t \<Rightarrow> nat \<Rightarrow> ptr_t set" where
  "block p n = {a. unat p \<le> unat a \<and> unat a < unat p + n}"

definition heap_area :: "ptr_t list \<Rightarrow> (nat \<Rightarrow> ptr_t list) \<Rightarrow> (nat \<Rightarrow> ptr_t list) \<Rightarrow> ptr_t set" where
  "heap_area xs P F = (\<Union>x\<in>set xs. block x 1024) \<union> (\<Union>i. \<Union>f\<in>set (P i @ F i). block f 4096)"

definition used_area :: "'a mdb_mem_scheme \<Rightarrow> (nat \<Rightarrow> ptr_t set) \<Rightarrow> ptr_t set" where
  "used_area s U = (\<Union>i\<in>{..<length (mdb_buflists s)}. \<Union>b\<in>U i. block b (unat (bl_size (mdb_buflists s ! i))))"

definition mdb_ok :: "'a mdb_mem_scheme \<Rightarrow> (nat \<Rightarrow> ptr_t set) \<Rightarrow> ptr_t set \<Rightarrow> bool" where
  "mdb_ok s U H \<longleftrightarrow> (\<exists>xs P F fl. mdb_inv s xs P F fl \<and> U = in_use s P F fl \<and> H = heap_area xs P F)"

text \<open>A step of the allocator leaves alone the buffers in use and everything it does not manage.\<close>

definition mdb_frame :: "'a mdb_mem_scheme \<Rightarrow> 'a mdb_mem_scheme \<Rightarrow> (nat \<Rightarrow> ptr_t set) \<Rightarrow> ptr_t set \<Rightarrow> bool" where
  "mdb_frame s s' U H \<longleftrightarrow> same_lists s s' \<and> mdb_mem.more s' = mdb_mem.more s \<and>
     (\<forall>a. a \<notin> H \<or> a \<in> used_area s U \<longrightarrow> mem s' a = mem s a)"

lemma in_page_block: "in_page f a \<longleftrightarrow> a \<in> block f 4096"
  by (simp add: in_page_def block_def)

lemma page_chunks_area: "page_aligned f \<Longrightarrow> (\<Union>x\<in>set (chunks f 4). block x 1024) = block f 4096"
proof -
  assume f: "page_aligned f"
  have c: "unat (f + 1024) = unat f + 1024" "unat (f + 2048) = unat f + 2048" "unat (f + 3072) = unat f + 3072"
    using unat_page_offset [OF f, of 1024] unat_page_offset [OF f, of 2048] unat_page_offset [OF f, of 3072] by simp_all
  have "chunks f 4 = [f, f + 1024, f + 2048, f + 3072]" by (simp add: eval_nat_numeral chunks_Suc)
  then show ?thesis using c by (auto simp: block_def)
qed

lemma take_buffer_lists:
  "same_lists s (snd (take_buffer i f s))" "mdb_mem.more (snd (take_buffer i f s)) = mdb_mem.more s"
  "i < length (mdb_buflists s) \<Longrightarrow> mem (snd (take_buffer i f s)) a \<noteq> mem s a \<Longrightarrow>
     a = f \<or> a = f + 4 \<or> (mem s (f + 8) \<noteq> NULL \<and> a = mem s (f + 8) + 12)"
proof -
  show "same_lists s (snd (take_buffer i f s))" by (simp add: take_buffer_def Let_def)
  show "mdb_mem.more (snd (take_buffer i f s)) = mdb_mem.more s"
    by (simp add: take_buffer_def Let_def wr_def set_bl_def)
  show "mem (snd (take_buffer i f s)) a \<noteq> mem s a \<Longrightarrow>
      a = f \<or> a = f + 4 \<or> (mem s (f + 8) \<noteq> NULL \<and> a = mem s (f + 8) + 12)" if "i < length (mdb_buflists s)"
    using that by (auto simp: take_buffer_def Let_def wr_def set_bl_def mng_freelist_def mng_num_free_def
        mng_next_freelist_def mng_prev_freelist_def split: if_splits)
qed

lemma enlist_pool_lists:
  "same_lists s (enlist_pool i f s') \<longleftrightarrow> same_lists s s'" "mdb_mem.more (enlist_pool i f s') = mdb_mem.more s'"
  "mem (enlist_pool i f s') a \<noteq> mem s' a \<Longrightarrow> a = f + 8 \<or> a = f + 12 \<or>
     (list_of_lists (mdb_buflists s' ! i) \<noteq> NULL \<and> a = list_of_lists (mdb_buflists s' ! i) + 12)"
  by (auto simp: enlist_pool_def Let_def wr_def set_bl_def mng_prev_freelist_def mng_next_freelist_def
      same_lists_def split: if_splits)

lemma same_lists_small: "same_lists s s' \<Longrightarrow> small_bl s' i \<longleftrightarrow> small_bl s i"
  by (auto simp: same_lists_def small_bl_def)

lemma mdb_okI:
  assumes "mdb_inv s' xs' P' F' fl'" "same_lists s s'" "in_use s P' F' fl' = U" "heap_area xs' P' F' = H"
  shows "mdb_ok s' U H"
proof -
  have "in_use s' P' F' fl' i = in_use s P' F' fl' i" for i
  proof (cases "small_bl s' i")
    case True
    then show ?thesis using assms(2) by (simp add: in_use_def small_bl_def same_lists_def)
  next
    case False
    then show ?thesis using mdb_invD(3) [OF assms(1)] by (simp add: in_use_def)
  qed
  with assms show ?thesis unfolding mdb_ok_def by blast
qed

lemma in_use_upd:
  assumes "\<And>j. j \<noteq> i \<Longrightarrow> P' j = P j \<and> F' j = F j \<and> (\<forall>f\<in>set (P j @ F j). fl' f = fl f)"
    and "in_use s P' F' fl' i = V"
  shows "in_use s P' F' fl' = (in_use s P F fl)(i := V)"
proof
  show "in_use s P' F' fl' j = ((in_use s P F fl)(i := V)) j" for j
    using assms by (cases "j = i") (auto simp: in_use_def)
qed

lemma heap_area_upd:
  assumes "set (Pi @ Fi) = set (P i @ F i)"
  shows "heap_area xs (P(i := Pi)) (F(i := Fi)) = heap_area xs P F"
proof -
  have "(\<Union>f\<in>set ((P(i := Pi)) j @ (F(i := Fi)) j). block f 4096) = (\<Union>f\<in>set (P j @ F j). block f 4096)" for j
    using assms by (cases "j = i") simp_all
  then show ?thesis by (simp only: heap_area_def)
qed

text \<open>Where the cells the allocator writes lie.\<close>

lemma header_not_used:
  assumes inv: "mdb_inv s xs P F fl" and f: "f \<in> set (P i @ F i)" and c: "unat c < 20"
  shows "f + c \<in> heap_area xs P F" and "f + c \<notin> used_area s (in_use s P F fl)"
proof -
  have al: "page_aligned f" by (rule mdb_invD(4) [OF inv f])
  have "f + c \<in> block f 4096" using in_page_offset [OF al] c by (simp add: in_page_block)
  then show "f + c \<in> heap_area xs P F" using f unfolding heap_area_def by blast
  show "f + c \<notin> used_area s (in_use s P F fl)"
  proof
    assume "f + c \<in> used_area s (in_use s P F fl)"
    then obtain j b where b: "b \<in> in_use s P F fl j" "f + c \<in> block b (unat (bl_size (mdb_buflists s ! j)))"
      by (auto simp: used_area_def)
    obtain g where g: "g \<in> set (P j @ F j)" "b \<in> set (slots g (bl_size (mdb_buflists s ! j)) (max_free (mdb_buflists s ! j)))"
      using b(1) by (auto simp: in_use_def)
    have "small_bl s j" using g(1) mdb_invD(3) [OF inv, of j] by (cases "small_bl s j") auto
    note ok = mdb_invD(2) [OF inv this]
    obtain k where k: "k < unat (max_free (mdb_buflists s ! j))"
      "b = slot g (bl_size (mdb_buflists s ! j)) (max_free (mdb_buflists s ! j)) k" using g(2) by (auto simp: slots_def)
    note u = unat_slot [OF pools_okD(7) [OF ok g(1)] pools_okD(1) [OF ok] k(1)]
    have "in_page g (f + c)" using b(2) u k(2) by (auto simp: block_def in_page_def)
    then have "g = f" using in_page_cell [OF al pools_okD(7) [OF ok g(1)], of c] c by auto
    then show False using b(2) u(2) k(2) unat_page_offset [OF al, of c] c by (auto simp: block_def)
  qed
qed

lemma used_in_pages:
  assumes inv: "mdb_inv s xs P F fl" and b: "b \<in> in_use s P F fl i" and a: "a \<in> block b (unat (bl_size (mdb_buflists s ! i)))"
  obtains f where "f \<in> set (P i @ F i)" "in_page f a"
proof -
  obtain f where f: "f \<in> set (P i @ F i)" "b \<in> set (slots f (bl_size (mdb_buflists s ! i)) (max_free (mdb_buflists s ! i)))"
    using b by (auto simp: in_use_def)
  have "small_bl s i" using f(1) mdb_invD(3) [OF inv, of i] by (cases "small_bl s i") auto
  note ok = mdb_invD(2) [OF inv this]
  obtain k where k: "k < unat (max_free (mdb_buflists s ! i))"
    "b = slot f (bl_size (mdb_buflists s ! i)) (max_free (mdb_buflists s ! i)) k" using f(2) by (auto simp: slots_def)
  have "in_page f a"
    using a unat_slot [OF pools_okD(7) [OF ok f(1)] pools_okD(1) [OF ok] k(1)] k(2) by (auto simp: block_def in_page_def)
  with f(1) that show ?thesis by blast
qed

lemma chunk_not_used:
  assumes inv: "mdb_inv s xs P F fl" and x: "x \<in> set xs"
  shows "x \<in> heap_area xs P F" and "x \<notin> used_area s (in_use s P F fl)"
proof -
  have "x \<in> block x 1024" by (simp add: block_def)
  then show "x \<in> heap_area xs P F" using x unfolding heap_area_def by blast
  show "x \<notin> used_area s (in_use s P F fl)"
  proof
    assume "x \<in> used_area s (in_use s P F fl)"
    then obtain i b where "b \<in> in_use s P F fl i" "x \<in> block b (unat (bl_size (mdb_buflists s ! i)))"
      by (auto simp: used_area_def)
    then obtain f where "f \<in> set (P i @ F i)" "in_page f x" by (rule used_in_pages [OF inv])
    then show False using mdb_invD(6) [OF inv _ x] by blast
  qed
qed


lemma used_area_same: "same_lists s s' \<Longrightarrow> used_area s' U = used_area s U"
  by (simp add: used_area_def same_lists_def)

lemma mdb_frame_refl: "mdb_frame s s U H"
  by (simp add: mdb_frame_def)

lemma mdb_frame_trans:
  "mdb_frame s s1 U H \<Longrightarrow> mdb_frame s1 s2 U H \<Longrightarrow> mdb_frame s s2 U H"
  using used_area_same [of s s1 U] by (auto simp: mdb_frame_def same_lists_def)

lemma find_buflist_Some:
  "find_buflist sz bs = Some i \<Longrightarrow> i < length bs \<and> bl_size (bs ! i) = sz"
  by (induction bs arbitrary: i) (auto split: if_splits)

text \<open>The page of a buffer handed out.\<close>

lemma in_use_page:
  assumes inv: "mdb_inv s xs P F fl" and b: "b \<in> in_use s P F fl i"
  obtains f where "f \<in> set (P i @ F i)" "b \<notin> set (fl f)" "small_bl s i"
    "b \<in> set (slots f (bl_size (mdb_buflists s ! i)) (max_free (mdb_buflists s ! i)))"
    "\<And>g. g \<in> set (P i @ F i) \<Longrightarrow>
       b \<in> set (slots g (bl_size (mdb_buflists s ! i)) (max_free (mdb_buflists s ! i))) \<Longrightarrow> g = f"
proof -
  obtain f where f: "f \<in> set (P i @ F i)" "b \<notin> set (fl f)"
    "b \<in> set (slots f (bl_size (mdb_buflists s ! i)) (max_free (mdb_buflists s ! i)))"
    using b by (auto simp: in_use_def)
  have small: "small_bl s i" using f(1) mdb_invD(3) [OF inv, of i] by (cases "small_bl s i") auto
  note ok = mdb_invD(2) [OF inv small]
  have "g = f" if "g \<in> set (P i @ F i)"
    "b \<in> set (slots g (bl_size (mdb_buflists s ! i)) (max_free (mdb_buflists s ! i)))" for g
    using slot_in_page(1) [OF pools_okD(7) [OF ok] pools_okD(1) [OF ok]] that f
      in_page_unique [OF pools_okD(7) [OF ok] pools_okD(7) [OF ok]] by blast
  with f small that show ?thesis by blast
qed

lemma take_buffer_ok:
  fixes s :: "'a mdb_mem_scheme"
  assumes inv: "mdb_inv s xs P F fl" and small: "small_bl s i" and P: "P i \<noteq> []"
    and t: "take_buffer i (list_of_lists (mdb_buflists s ! i)) s = (b, s')"
  defines "U \<equiv> in_use s P F fl" and "H \<equiv> heap_area xs P F"
  shows "b \<notin> U i \<and> mdb_ok s' (U(i := insert b (U i))) H \<and> mdb_frame s s' U H"
proof -
  note ok = mdb_invD(2) [OF inv small]
  obtain f ps where Pi: "P i = f # ps" using P by (cases "P i") auto
  have l: "list_of_lists (mdb_buflists s ! i) = f" using pools_okD(2) [OF ok] Pi by simp
  obtain c bs where fl: "fl f = c # bs" using pools_okD(4) [OF ok, of f] Pi by (cases "fl f") auto
  let ?P = "P(i := if bs = [] then ps else f # ps)" and ?F = "F(i := if bs = [] then f # F i else F i)"
  have st: "b = c" "mdb_inv s' xs ?P ?F (fl(f := bs))"
    using take_buffer_step [OF inv small Pi fl] t l by auto
  have ilt: "i < length (mdb_buflists s)" using small by (simp add: small_bl_def)
  note tl = take_buffer_lists [where s = s and i = i and f = f, unfolded t [unfolded l], simplified]
  have fi: "f \<in> set (P i @ F i)" using Pi by simp
  have pp: "distinct (c # bs)" "c \<in> set (slots f (bl_size (mdb_buflists s ! i)) (max_free (mdb_buflists s ! i)))"
    using pools_okD(6) [OF ok fi] fl by (auto simp: pool_page_def)
  have "in_use s ?P ?F (fl(f := bs)) = U(i := insert c (U i))"
    unfolding U_def
  proof (rule in_use_upd)
    show "?P j = P j \<and> ?F j = F j \<and> (\<forall>g\<in>set (P j @ F j). (fl(f := bs)) g = fl g)" if "j \<noteq> i" for j
      using that mdb_invD(5) [OF inv fi, of j] by auto
    show "in_use s ?P ?F (fl(f := bs)) i = insert c (in_use s P F fl i)"
      using pp fl Pi pools_okD(3) [OF ok] by (auto simp: in_use_def)
  qed
  moreover have "heap_area xs ?P ?F = H" unfolding H_def by (rule heap_area_upd) (use Pi in auto)
  moreover have "c \<notin> U i"
  proof
    assume "c \<in> U i"
    then obtain g where "g \<in> set (P i @ F i)" "c \<notin> set (fl g)" "f = g"
      using in_use_page [OF inv] pp(2) fi unfolding U_def by metis
    then show False using fl by simp
  qed
  moreover have "mdb_frame s s' U H"
    unfolding mdb_frame_def
  proof (intro conjI allI impI)
    fix a assume a: "a \<notin> H \<or> a \<in> used_area s U"
    have "mem s (f + 8) = (if ps = [] then NULL else hd ps)"
      using dll_start [of "mem s" f "mem s (f + 8)" ps] pools_okD(2) [OF ok] Pi by simp
    then have h: "mem s (f + 8) \<noteq> NULL \<Longrightarrow> mem s (f + 8) \<in> set (P i @ F i)" using Pi by (cases ps) auto
    have "a \<noteq> f" "a \<noteq> f + 4" using header_not_used [OF inv fi, of 0] header_not_used [OF inv fi, of 4] a
      unfolding U_def H_def by auto
    moreover have "mem s (f + 8) \<noteq> NULL \<Longrightarrow> a \<noteq> mem s (f + 8) + 12"
      using header_not_used [OF inv h, of 12] a unfolding U_def H_def by auto
    ultimately show "mem s' a = mem s a" using tl(3) [OF ilt, of a] by blast
  qed (use tl in auto)
  ultimately show ?thesis using mdb_okI [OF st(2) tl(1)] st(1) by simp
qed


lemma new_pool_frame:
  fixes s s' :: "'a mdb_mem_scheme"
  assumes inv: "mdb_inv s xs P F fl" and Pi: "P i = []" and fresh: "\<forall>j. f \<notin> set (P j @ F j)" and f: "page_aligned f"
    and xs: "set xs = set xs' \<union> set (chunks f 4)" and same: "same_lists s s'" "mdb_mem.more s' = mdb_mem.more s"
    and wr: "\<forall>a. mem s' a \<noteq> mem s a \<longrightarrow> in_page f a \<or> a \<in> set xs"
  shows "heap_area xs' (P(i := [f])) F = heap_area xs P F"
    and "mdb_frame s s' (in_use s P F fl) (heap_area xs P F)"
proof -
  have pages: "(\<Union>j. set ((P(i := [f])) j @ F j)) = insert f (\<Union>j. set (P j @ F j))"
    using Pi by (auto split: if_splits) (metis empty_iff list.set(1))
  have "(\<Union>j. \<Union>g\<in>set ((P(i := [f])) j @ F j). block g 4096) = (\<Union>g\<in>(\<Union>j. set ((P(i := [f])) j @ F j)). block g 4096)"
    by blast
  also have "\<dots> = block f 4096 \<union> (\<Union>j. \<Union>g\<in>set (P j @ F j). block g 4096)"
    unfolding pages by blast
  finally have "(\<Union>j. \<Union>g\<in>set ((P(i := [f])) j @ F j). block g 4096) =
    block f 4096 \<union> (\<Union>j. \<Union>g\<in>set (P j @ F j). block g 4096)" .
  then show "heap_area xs' (P(i := [f])) F = heap_area xs P F"
    unfolding heap_area_def xs UN_Un page_chunks_area [OF f] by (simp only: Un_assoc)
  have pg: "a \<in> heap_area xs P F \<and> a \<notin> used_area s (in_use s P F fl)" if a: "in_page f a" for a
  proof
    have "a \<in> (\<Union>x\<in>set (chunks f 4). block x 1024)" using a unfolding page_chunks_area [OF f] by (simp add: in_page_block)
    then show "a \<in> heap_area xs P F" unfolding heap_area_def xs by blast
    show "a \<notin> used_area s (in_use s P F fl)"
    proof
      assume "a \<in> used_area s (in_use s P F fl)"
      then obtain j b where "b \<in> in_use s P F fl j" "a \<in> block b (unat (bl_size (mdb_buflists s ! j)))"
        by (auto simp: used_area_def)
      then obtain g where g: "g \<in> set (P j @ F j)" "in_page g a" by (rule used_in_pages [OF inv])
      then show False using in_page_unique [OF f mdb_invD(4) [OF inv g(1)] a g(2)] fresh by blast
    qed
  qed
  show "mdb_frame s s' (in_use s P F fl) (heap_area xs P F)"
    unfolding mdb_frame_def
  proof (intro conjI allI impI)
    fix a assume "a \<notin> heap_area xs P F \<or> a \<in> used_area s (in_use s P F fl)"
    then have "\<not> in_page f a" "a \<notin> set xs" using pg chunk_not_used [OF inv] by blast+
    then show "mem s' a = mem s a" using wr by blast
  qed (use same in auto)
qed

lemma mdb_alloc_step:
  fixes s :: "'a mdb_mem_scheme"
  assumes ok: "mdb_ok s U H" and find: "find_buflist sz (mdb_buflists s) = Some i"
    and sz: "sz \<noteq> 0" "sz < MDB_ALLOC_CHUNKSZ"
  shows "(\<exists>b s'. mdb_alloc_buffer sz s = Ok (b, s') \<and> b \<notin> U i \<and> mdb_ok s' (U(i := insert b (U i))) H \<and> mdb_frame s s' U H) \<or>
    (mdb_alloc_buffer sz s = Err Null_deref \<and> list_of_lists (mdb_buflists s ! i) = NULL \<and>
       (\<exists>s'. kmem_alloc MDB_ALLOC_CHUNKSZ s = Some (NULL, s')))"
proof -
  obtain xs P F fl where inv: "mdb_inv s xs P F fl" and U: "U = in_use s P F fl" and H: "H = heap_area xs P F"
    using ok by (auto simp: mdb_ok_def)
  have small: "small_bl s i" and szi: "sz = bl_size (mdb_buflists s ! i)"
    using find_buflist_Some [OF find] sz by (auto simp: small_bl_def)
  let ?l = "list_of_lists (mdb_buflists s ! i)"
  have d: "dll (mem s) NULL ?l (P i)" by (rule pools_okD(2) [OF mdb_invD(2) [OF inv small]])
  have al: "mdb_alloc_buffer sz s =
      res_bind (if ?l = NULL then new_pool i sz s else Ok (?l, s)) (\<lambda>(mng, s). Ok (take_buffer i mng s))"
    using find sz(2) by (simp add: mdb_alloc_buffer_def Let_def linorder_not_le [symmetric])
  show ?thesis
  proof (cases "P i = []")
    case False
    then have "?l \<noteq> NULL" using d by (cases "P i") auto
    moreover obtain b s' where "take_buffer i ?l s = (b, s')" by fastforce
    ultimately show ?thesis using take_buffer_ok [OF inv small False] U H al by simp
  next
    case True
    then have l: "?l = NULL" using d by simp
    let ?mx = "max_free (mdb_buflists s ! i)"
    from new_pool_step [OF inv small True szi] show ?thesis
    proof (elim disjE exE conjE)
      fix f s1 xs1
      assume n: "new_pool i sz s = Ok (f, s1)" "set xs = set xs1 \<union> set (chunks f 4)" and fresh: "\<forall>j. f \<notin> set (P j @ F j)"
        and sm: "small_bl s1 i" and sl: "same_lists s s1" "mdb_mem.more s1 = mdb_mem.more s" "page_aligned f"
        and wr: "\<forall>a. mem s1 a \<noteq> mem s a \<longrightarrow> in_page f a \<or> a \<in> set xs"
        and inv1: "mdb_inv s1 xs1 (P(i := [f])) F (fl(f := slots f sz ?mx))"
      note nf = new_pool_frame [OF inv True fresh sl(3) n(2) sl(1,2) wr, folded U H]
      have "list_of_lists (mdb_buflists s1 ! i) = f"
        using pools_okD(2) [OF mdb_invD(2) [OF inv1 sm]] by simp
      moreover obtain b s' where t: "take_buffer i f s1 = (b, s')" by fastforce
      moreover have "in_use s1 (P(i := [f])) F (fl(f := slots f sz ?mx)) j = U j" for j
      proof (cases "small_bl s j")
        case True
        with sl(1) fresh szi show ?thesis unfolding U same_lists_def small_bl_def in_use_def by (auto simp: \<open>P i = []\<close>)
      next
        case False
        then show ?thesis using mdb_invD(3) [OF inv False] small by (auto simp: U in_use_def)
      qed
      ultimately have "b \<notin> U i" "mdb_ok s' (U(i := insert b (U i))) H" "mdb_frame s1 s' U H"
        using take_buffer_ok [OF inv1 sm, of b s'] nf(1) ext [of "in_use s1 (P(i := [f])) F (fl(f := slots f sz ?mx))" U] by auto
      then show ?thesis using n(1) l t al mdb_frame_trans [OF nf(2)] by simp
    qed (use al l in simp)
  qed
qed

lemma used_disjoint:
  fixes s :: "'a mdb_mem_scheme"
  assumes "mdb_ok s U H" and "b \<in> U i" and "c \<in> U j" and "b \<noteq> c"
  shows "unat b + unat (bl_size (mdb_buflists s ! i)) \<le> unat c \<or> unat c + unat (bl_size (mdb_buflists s ! j)) \<le> unat b"
proof -
  obtain xs P F fl where inv: "mdb_inv s xs P F fl" and U: "U = in_use s P F fl" using assms(1) by (auto simp: mdb_ok_def)
  obtain f where f: "f \<in> set (P i @ F i)" "small_bl s i" "b \<in> set (slots f (bl_size (mdb_buflists s ! i)) (max_free (mdb_buflists s ! i)))"
    using in_use_page [OF inv] assms(2) U by blast
  obtain g where g: "g \<in> set (P j @ F j)" "small_bl s j" "c \<in> set (slots g (bl_size (mdb_buflists s ! j)) (max_free (mdb_buflists s ! j)))"
    using in_use_page [OF inv] assms(3) U by blast
  note fo = pools_okD(7,1) [OF mdb_invD(2) [OF inv f(2)]] and go = pools_okD(7,1) [OF mdb_invD(2) [OF inv g(2)]]
  show ?thesis
  proof (cases "f = g")
    case True
    then have "i = j" using mdb_invD(5) [OF inv f(1), of j] g(1) by simp
    then show ?thesis using slots_distinct(2) [OF fo(1) [OF f(1)] fo(2) f(3), of c] g(3) True assms(4) by simp
  next
    case False
    obtain k l where k: "k < unat (max_free (mdb_buflists s ! i))" "b = slot f (bl_size (mdb_buflists s ! i)) (max_free (mdb_buflists s ! i)) k"
      and l: "l < unat (max_free (mdb_buflists s ! j))" "c = slot g (bl_size (mdb_buflists s ! j)) (max_free (mdb_buflists s ! j)) l"
      using f(3) g(3) by (auto simp: slots_def)
    have "unat f + 4096 \<le> unat g \<or> unat g + 4096 \<le> unat f"
      using in_page_base [OF go(1) [OF g(1)] fo(1) [OF f(1)]] in_page_base [OF fo(1) [OF f(1)] go(1) [OF g(1)]] False
      by (auto simp: in_page_def)
    then show ?thesis
      using unat_slot [OF fo(1) [OF f(1)] fo(2) k(1)] unat_slot [OF go(1) [OF g(1)] go(2) l(1)] unfolding k(2) l(2) by linarith
  qed
qed

lemma in_use_split:
  "in_use s P F fl i =
     (\<Union>g\<in>set (P i @ F i) - {f}. set (slots g (bl_size (mdb_buflists s ! i)) (max_free (mdb_buflists s ! i))) - set (fl g))
     \<union> (if f \<in> set (P i @ F i)
         then set (slots f (bl_size (mdb_buflists s ! i)) (max_free (mdb_buflists s ! i))) - set (fl f) else {})"
  by (auto simp: in_use_def)

lemma in_use_put:
  fixes s :: "'a mdb_mem_scheme" and i :: nat
  defines "pool \<equiv> \<lambda>g. set (slots g (bl_size (mdb_buflists s ! i)) (max_free (mdb_buflists s ! i)))"
  assumes inv: "mdb_inv s xs P F fl" and f: "f \<in> set (P i @ F i)"
    and uniq: "\<And>g. g \<in> set (P i @ F i) \<Longrightarrow> b \<in> pool g \<Longrightarrow> g = f"
    and same: "\<And>j. j \<noteq> i \<Longrightarrow> P' j = P j \<and> F' j = F j" "\<And>g. g \<noteq> f \<Longrightarrow> fl' g = fl g"
    and sets: "set (P' i @ F' i) - {f} = set (P i @ F i) - {f}"
    and pf: "(if f \<in> set (P' i @ F' i) then pool f - set (fl' f) else {}) = pool f - set (b # fl f)"
  shows "in_use s P' F' fl' = (in_use s P F fl)(i := in_use s P F fl i - {b})"
proof (rule in_use_upd)
  show "P' j = P j \<and> F' j = F j \<and> (\<forall>g\<in>set (P j @ F j). fl' g = fl g)" if "j \<noteq> i" for j
    using same mdb_invD(5) [OF inv f, of j] that by metis
  have "(\<Union>g\<in>set (P i @ F i) - {f}. pool g - set (fl' g)) = (\<Union>g\<in>set (P i @ F i) - {f}. pool g - set (fl g)) - {b}"
    using same(2) uniq by auto
  then show "in_use s P' F' fl' i = in_use s P F fl i - {b}"
    unfolding in_use_split [of s P' F' fl' i f] in_use_split [of s P F fl i f] sets using f pf
    by (auto simp: pool_def)
qed

lemma pool_full:
  assumes "pool_page m i sz mx f bs" "fits sz mx" "b \<in> set (slots f sz mx)" "b \<notin> set bs" "Suc (length bs) = unat mx"
  shows "set (slots f sz mx) = set (b # bs)"
proof -
  have "set (b # bs) \<subseteq> set (slots f sz mx)" "distinct (b # bs)" using assms by (auto simp: pool_page_def)
  moreover have "card (set (slots f sz mx)) \<le> unat mx" using card_length [of "slots f sz mx"] by (simp add: slots_def)
  moreover have "card (set (b # bs)) = unat mx" using assms(5) distinct_card [OF calculation(2)] by simp
  ultimately show ?thesis using card_seteq [of "set (slots f sz mx)" "set (b # bs)"] by simp
qed


lemma used_area_mono: "(\<And>i. V i \<subseteq> U i) \<Longrightarrow> used_area s V \<subseteq> used_area s U"
  unfolding used_area_def by blast

lemma used_in_heap:
  assumes inv: "mdb_inv s xs P F fl" and b: "b \<in> in_use s P F fl i"
  shows "block b (unat (bl_size (mdb_buflists s ! i))) \<subseteq> heap_area xs P F" and "b \<in> heap_area xs P F"
    and "4 \<le> unat (bl_size (mdb_buflists s ! i))" and "i < length (mdb_buflists s)"
proof -
  show sub: "block b (unat (bl_size (mdb_buflists s ! i))) \<subseteq> heap_area xs P F"
  proof
    fix a assume "a \<in> block b (unat (bl_size (mdb_buflists s ! i)))"
    then obtain f where "f \<in> set (P i @ F i)" "in_page f a" by (rule used_in_pages [OF inv b])
    then show "a \<in> heap_area xs P F" unfolding heap_area_def in_page_block by blast
  qed
  obtain f where "small_bl s i" using in_use_page [OF inv b] by blast
  then show "4 \<le> unat (bl_size (mdb_buflists s ! i))" "i < length (mdb_buflists s)"
    using pools_okD(1) [OF mdb_invD(2) [OF inv]] by (auto simp: fits_def small_bl_def)
  then show "b \<in> heap_area xs P F" using sub by (auto simp: block_def)
qed

lemma in_use_list:
  assumes inv: "mdb_inv s xs P F fl" and b: "b \<in> in_use s P F fl i" "b \<in> in_use s P F fl j"
  shows "i = j"
proof -
  have "b \<in> block b (unat (bl_size (mdb_buflists s ! i)))" "b \<in> block b (unat (bl_size (mdb_buflists s ! j)))"
    using used_in_heap(3) [OF inv] b by (fastforce simp: block_def)+
  then obtain f g where fg: "f \<in> set (P i @ F i)" "in_page f b" "g \<in> set (P j @ F j)" "in_page g b"
    using used_in_pages [OF inv] b by metis
  then have "f = g" using in_page_unique [OF mdb_invD(4) [OF inv] mdb_invD(4) [OF inv]] by blast
  then show ?thesis using mdb_invD(5) [OF inv fg(1)] fg(3) by blast
qed

lemma freed_not_used:
  assumes ok: "mdb_ok s U H" and b: "b \<in> U i"
  shows "b \<in> H" and "b \<notin> used_area s (U(i := U i - {b}))"
proof -
  obtain xs P F fl where inv: "mdb_inv s xs P F fl" and U: "U = in_use s P F fl" and H: "H = heap_area xs P F"
    using ok by (auto simp: mdb_ok_def)
  note ub = used_in_heap [OF inv b [unfolded U]]
  show "b \<in> H" using ub(2) H by simp
  show "b \<notin> used_area s (U(i := U i - {b}))"
  proof
    assume "b \<in> used_area s (U(i := U i - {b}))"
    then obtain j c where c: "c \<in> U j" "b \<in> block c (unat (bl_size (mdb_buflists s ! j)))" "j = i \<longrightarrow> c \<noteq> b"
      by (auto simp: used_area_def split: if_splits)
    have "c \<noteq> b"
    proof
      assume "c = b"
      then have "j = i" using c(1) b in_use_list [OF inv] unfolding U by blast
      with c(3) \<open>c = b\<close> show False by simp
    qed
    then show False using used_disjoint [OF ok b c(1)] c(2) ub(3) by (auto simp: block_def)
  qed
qed


lemma put_frame:
  fixes s s' :: "'a mdb_mem_scheme"
  assumes inv: "mdb_inv s xs P F fl" and b: "b \<in> in_use s P F fl i" and f: "f \<in> set (P i @ F i)"
    and wr: "\<And>a. mem s' a \<noteq> mem s a \<Longrightarrow> a = b \<or> a \<in> set xs \<or> (\<exists>g\<in>set (P i @ F i). \<exists>c. unat c < 20 \<and> a = g + c)"
    and same: "same_lists s s'" "mdb_mem.more s' = mdb_mem.more s"
  shows "mdb_frame s s' ((in_use s P F fl)(i := in_use s P F fl i - {b})) (heap_area xs P F)"
proof -
  let ?U = "in_use s P F fl"
  have ok: "mdb_ok s ?U (heap_area xs P F)" using inv unfolding mdb_ok_def by blast
  have mono: "used_area s (?U(i := ?U i - {b})) \<subseteq> used_area s ?U" by (rule used_area_mono) auto
  show ?thesis
    unfolding mdb_frame_def
  proof (intro conjI allI impI)
    fix a assume a: "a \<notin> heap_area xs P F \<or> a \<in> used_area s (?U(i := ?U i - {b}))"
    have "a \<noteq> b" using freed_not_used [OF ok b] a by blast
    moreover have "a \<notin> set xs" using chunk_not_used [OF inv] a mono by blast
    moreover have "a \<noteq> g + c" if "g \<in> set (P i @ F i)" "unat c < 20" for g c
      using header_not_used [OF inv that] a mono by blast
    ultimately show "mem s' a = mem s a" using wr by blast
  qed (use same in auto)
qed

lemma header_cell:
  "a = g \<or> a = g + 4 \<or> a = g + 8 \<or> a = g + 12 \<Longrightarrow> \<exists>c :: dword_t. unat c < 20 \<and> a = g + c" for g :: ptr_t
  by (elim disjE; intro exI [of _ "a - g"]) simp_all

lemma release_area:
  fixes s :: "'a mdb_mem_scheme"
  assumes inv: "mdb_inv s xs P F fl" and f: "f \<in> set (P i)" and xs: "set xs' = set xs \<union> set (chunks f 4)"
  shows "heap_area xs' (P(i := removeAll f (P i))) F = heap_area xs P F"
proof -
  have al: "page_aligned f" using mdb_invD(4) [OF inv, of f i] f by simp
  have p: "(\<Union>j. set (P j @ F j)) = {f} \<union> (\<Union>j. set ((P(i := removeAll f (P i))) j @ F j))"
    using f by (auto split: if_splits)
  have h: "heap_area xs Q F = (\<Union>x\<in>set xs. block x 1024) \<union> (\<Union>g\<in>(\<Union>j. set (Q j @ F j)). block g 4096)" for xs Q
    unfolding heap_area_def by simp
  show ?thesis unfolding h xs p UN_Un page_chunks_area [OF al] by (simp add: Un_assoc)
qed

lemma release_frame:
  fixes s s' :: "'a mdb_mem_scheme"
  assumes ok: "mdb_ok s U H" and b: "b \<in> U i" 
    and inv: "mdb_inv s xs P F fl" and U: "U = in_use s P F fl" and H: "H = heap_area xs P F"
    and inv': "mdb_inv s' xs' P' F fl'" and U': "in_use s P' F fl' = U(i := U i - {b})" and f: "f \<in> set (P i)"
    and fP: "\<And>j. f \<notin> set (P' j @ F j)" and same: "same_lists s s'" "mdb_mem.more s' = mdb_mem.more s"
    and wr: "\<And>a. mem s' a \<noteq> mem s a \<Longrightarrow>
      a \<in> set xs \<or> in_page f a \<or> (\<exists>g\<in>set (P i @ F i). \<exists>c. unat c < 20 \<and> a = g + c)"
  shows "mdb_frame s s' (U(i := U i - {b})) H"
  unfolding mdb_frame_def
proof (intro conjI allI impI)
  have al: "page_aligned f" using mdb_invD(4) [OF inv, of f i] f by simp
  have mono: "used_area s (U(i := U i - {b})) \<subseteq> used_area s (in_use s P F fl)" unfolding U by (rule used_area_mono) auto
  fix a assume a: "a \<notin> H \<or> a \<in> used_area s (U(i := U i - {b}))"
  have "a \<notin> set xs" using chunk_not_used [OF inv] a mono H by blast
  moreover have "a \<noteq> g + c" if "g \<in> set (P i @ F i)" "unat c < 20" for g c
    using header_not_used [OF inv that] a mono H by blast
  moreover have "\<not> in_page f a"
  proof
    assume p: "in_page f a"
    have "block f 4096 \<subseteq> H" unfolding H heap_area_def using f by force
    then have "a \<in> used_area s (U(i := U i - {b}))" using a p in_page_block by blast
    then obtain j c where c: "c \<in> in_use s P' F fl' j" "a \<in> block c (unat (bl_size (mdb_buflists s ! j)))" "j < length (mdb_buflists s)"
      unfolding U' [symmetric] used_area_def by auto
    have "in_use s P' F fl' j = in_use s' P' F fl' j" "bl_size (mdb_buflists s' ! j) = bl_size (mdb_buflists s ! j)"
      using same(1) c(3) by (simp_all add: same_lists_def in_use_def)
    with c obtain g where g: "g \<in> set (P' j @ F j)" "in_page g a" using used_in_pages [OF inv', of c j a] by metis
    have "g = f" by (rule in_page_unique [OF mdb_invD(4) [OF inv' g(1)] al g(2) p])
    with g(1) fP show False by blast
  qed
  ultimately show "mem s' a = mem s a" using wr by blast
qed (use same in auto)

lemma mdb_free_step:
  fixes s :: "'a mdb_mem_scheme"
  assumes ok: "mdb_ok s U H" and b: "b \<in> U i"
  shows "\<exists>s'. mdb_free_buffer b (bl_size (mdb_buflists s ! i)) s = Some s' \<and>
    mdb_ok s' (U(i := U i - {b})) H \<and> mdb_frame s s' (U(i := U i - {b})) H"
proof -
  let ?bl = "mdb_buflists s ! i" and ?s = "\<lambda>f. s\<lparr>mem := put_cells f b (mem s)\<rparr>" and ?V = "U(i := U i - {b})"
  obtain xs P F fl where inv: "mdb_inv s xs P F fl" and U: "U = in_use s P F fl" and H: "H = heap_area xs P F"
    using ok by (auto simp: mdb_ok_def)
  obtain f where f: "f \<in> set (P i @ F i)" "b \<notin> set (fl f)" "small_bl s i"
      "b \<in> set (slots f (bl_size ?bl) (max_free ?bl))"
    and uniq: "\<And>g. g \<in> set (P i @ F i) \<Longrightarrow> b \<in> set (slots g (bl_size ?bl) (max_free ?bl)) \<Longrightarrow> g = f"
    using in_use_page [OF inv] b U by blast
  note pk = mdb_invD(2) [OF inv f(3)] and eq = mdb_free_buffer_eq [OF inv f(3,1) refl refl f(4,2)]
    and del = in_use_put [OF inv f(1) uniq, folded U] and frame = put_frame [OF inv b [unfolded U] f(1), folded U H]
  have put: "a = b \<or> a = f \<or> a = f + 4" if "put_cells f b (mem s) a \<noteq> mem s a" for a
    using that by (auto simp: put_cells_def split: if_splits)
  have hd: "\<exists>g\<in>set (P i @ F i). \<exists>c. unat c < 20 \<and> a = g + c"
    if "a = g \<or> a = g + 4 \<or> a = g + 8 \<or> a = g + 12" "g \<in> set (P i @ F i)" for a g
    using header_cell [OF that(1)] that(2) by blast
  have l: "list_of_lists ?bl \<noteq> NULL \<Longrightarrow> list_of_lists ?bl \<in> set (P i @ F i)"
    using dll_start [OF pools_okD(2) [OF pk]] by (auto split: if_splits)
  have P: "f \<in> set (P i) \<longleftrightarrow> fl f \<noteq> []" using f(1) pools_okD(4,5) [OF pk, of f] by auto
  then consider "fl f = []" "f \<in> set (F i)" | "f \<in> set (P i)" "fl f \<noteq> []" "Suc (length (fl f)) = unat (max_free ?bl)"
    | "f \<in> set (P i)" "fl f \<noteq> []" "Suc (length (fl f)) \<noteq> unat (max_free ?bl)" using f(1) by auto
  then show ?thesis
  proof cases
    case 1
    have u: "in_use s (P(i := f # P i)) (F(i := remove1 f (F i))) (fl(f := [b])) = ?V"
      by (rule del) (use 1 pools_okD(3) [OF pk] in \<open>auto simp: set_remove1_eq\<close>)
    have h: "heap_area xs (P(i := f # P i)) (F(i := remove1 f (F i))) = H"
      unfolding H by (rule heap_area_upd) (use 1 pools_okD(3) [OF pk] in \<open>auto simp: set_remove1_eq\<close>)
    have "mdb_ok (enlist_pool i f (?s f)) ?V H"
      by (rule mdb_okI [OF free_enlist_step [OF inv f(3) 1(2) f(4)] _ u h]) (simp add: enlist_pool_lists)
    moreover have "mdb_frame s (enlist_pool i f (?s f)) ?V H"
    proof (rule frame)
      fix a assume ne: "mem (enlist_pool i f (?s f)) a \<noteq> mem s a"
      show "a = b \<or> a \<in> set xs \<or> (\<exists>g\<in>set (P i @ F i). \<exists>c. unat c < 20 \<and> a = g + c)"
      proof (cases "mem (enlist_pool i f (?s f)) a = put_cells f b (mem s) a")
        case True
        then show ?thesis using put [of a] ne hd [of a f] f(1) by auto
      next
        case False
        then have "a = f + 8 \<or> a = f + 12 \<or> (list_of_lists ?bl \<noteq> NULL \<and> a = list_of_lists ?bl + 12)"
          using enlist_pool_lists(3) [of i f "?s f" a] by simp
        then show ?thesis using hd [of a f] hd [of a "list_of_lists ?bl"] f(1) l by blast
      qed
    qed (simp_all add: enlist_pool_lists)
    ultimately show ?thesis using eq 1 by simp
  next
    case 2
    note k = free_keep_step [OF inv f(3) 2(1) f(4,2)]
    have sm: "small_bl (?s f) i" using f(3) by (simp add: small_bl_def)
    obtain s' xs' where s': "kmem_free f MDB_ALLOC_CHUNKSZ (delist_pool i f (?s f)) = Some s'"
      "mdb_inv s' xs' (P(i := removeAll f (P i))) F (fl(f := b # fl f, f := []))" "same_lists (?s f) s'"
      "set xs' = set xs \<union> set (chunks f 4)" "mdb_mem.more s' = mdb_mem.more s"
      "\<forall>a. mem s' a \<noteq> put_cells f b (mem s) a \<longrightarrow> in_page f a \<or> a \<in> set xs \<or> (\<exists>g\<in>set (P i). a = g + 8 \<or> a = g + 12)"
      using release_step [OF k sm 2(1)] by auto
    have sl: "same_lists s s'" using s'(3) by (simp add: same_lists_def)
    have u: "in_use s (P(i := removeAll f (P i))) F (fl(f := b # fl f, f := [])) = ?V"
      by (rule del) (use pool_full [OF pools_okD(6) [OF pk f(1)] pools_okD(1) [OF pk] f(4,2) 2(3)]
          pools_okD(3) [OF pk] 2(1) in auto)
    have "mdb_ok s' ?V H"
      by (rule mdb_okI [OF s'(2) sl u]) (use release_area [OF inv 2(1) s'(4)] H in simp)
    moreover have "mdb_frame s s' ?V H"
    proof (rule release_frame [OF ok b inv U H s'(2) u 2(1) _ sl s'(5)])
      show "f \<notin> set ((P(i := removeAll f (P i))) j @ F j)" for j
        using mdb_invD(5) [OF inv f(1), of j] 2(1) pools_okD(3) [OF pk] by (cases "j = i") auto
      fix a assume ne: "mem s' a \<noteq> mem s a"
      then have "in_page f a \<or> a \<in> set xs \<or> (\<exists>g\<in>set (P i). a = g + 8 \<or> a = g + 12) \<or> a = b \<or> a = f \<or> a = f + 4"
        using s'(6) put [of a] by metis
      moreover have "in_page f b" by (rule slot_in_page(1) [OF pools_okD(7) [OF pk f(1)] pools_okD(1) [OF pk] f(4)])
      ultimately show "a \<in> set xs \<or> in_page f a \<or> (\<exists>g\<in>set (P i @ F i). \<exists>c. unat c < 20 \<and> a = g + c)"
        using hd [of a] f(1) by (metis UnCI set_append)
    qed
    ultimately show ?thesis using eq 2 s'(1) by simp
  next
    case 3
    have u: "in_use s P F (fl(f := b # fl f)) = ?V" by (rule del) (use f(1) in auto)
    have "mdb_ok (?s f) ?V H"
      by (rule mdb_okI [OF free_keep_step [OF inv f(3) 3(1) f(4,2)] _ u]) (simp_all add: H)
    moreover have "mdb_frame s (?s f) ?V H" by (rule frame) (use put hd f(1) in \<open>simp; blast | simp\<close>)+
    ultimately show ?thesis using eq 3 by simp
  qed
qed

section \<open>Clients' writes\<close>

text \<open>The allocator depends only on cells of the heap that belong to no buffer in use: a client may write its
  buffers and everything outside the heap.\<close>

lemma free_not_used:
  assumes inv: "mdb_inv s xs P F fl" and f: "f \<in> set (P i @ F i)" and b: "b \<in> set (fl f)"
  shows "b \<in> heap_area xs P F" and "b \<notin> used_area s (in_use s P F fl)"
proof -
  have small: "small_bl s i" using f mdb_invD(3) [OF inv, of i] by (cases "small_bl s i") auto
  note ok = mdb_invD(2) [OF inv small]
  note al = pools_okD(7) [OF ok f] and fit = pools_okD(1) [OF ok]
  have sl: "b \<in> set (slots f (bl_size (mdb_buflists s ! i)) (max_free (mdb_buflists s ! i)))"
    using pools_okD(6) [OF ok f] b by (auto simp: pool_page_def)
  note pb = slot_in_page(1) [OF al fit sl]
  show "b \<in> heap_area xs P F" using pb f unfolding heap_area_def in_page_block by blast
  show "b \<notin> used_area s (in_use s P F fl)"
  proof
    assume "b \<in> used_area s (in_use s P F fl)"
    then obtain j c where c: "c \<in> in_use s P F fl j" "b \<in> block c (unat (bl_size (mdb_buflists s ! j)))"
      by (auto simp: used_area_def)
    obtain g where g: "g \<in> set (P j @ F j)" "c \<notin> set (fl g)" "c \<in> set (slots g (bl_size (mdb_buflists s ! j)) (max_free (mdb_buflists s ! j)))"
      using c(1) by (auto simp: in_use_def)
    obtain k where k: "k < unat (max_free (mdb_buflists s ! j))"
      "c = slot g (bl_size (mdb_buflists s ! j)) (max_free (mdb_buflists s ! j)) k" using g(3) by (auto simp: slots_def)
    have "small_bl s j" using g(1) mdb_invD(3) [OF inv, of j] by (cases "small_bl s j") auto
    note okj = mdb_invD(2) [OF inv this]
    have "in_page g b"
      using unat_slot [OF pools_okD(7) [OF okj g(1)] pools_okD(1) [OF okj] k(1)] k(2) c(2) by (auto simp: block_def in_page_def)
    then have gf: "g = f" by (rule in_page_unique [OF mdb_invD(4) [OF inv g(1)] al _ pb])
    then have ji: "j = i" using mdb_invD(5) [OF inv g(1), of i] f by simp
    have "b \<noteq> c" using g(2) b gf by auto
    then show False using slots_distinct(2) [OF al fit sl, of c] g(3) gf ji c(2) pb by (auto simp: block_def)
  qed
qed


lemma mdb_inv_write:
  fixes s s' :: "'a mdb_mem_scheme"
  assumes inv: "mdb_inv s xs P F fl"
    and km: "kmem_free_list s' = kmem_free_list s" "free_chunks s' = free_chunks s" "mdb_buflists s' = mdb_buflists s"
    and same: "\<And>a. a \<in> heap_area xs P F \<Longrightarrow> a \<notin> used_area s (in_use s P F fl) \<Longrightarrow> mem s' a = mem s a"
  shows "mdb_inv s' xs P F fl"
proof -
  have hd: "mem s' (f + c) = mem s (f + c)" if "f \<in> set (P i @ F i)" "unat c < 20" for f i c
    using same header_not_used [OF inv that] by blast
  have fr: "\<forall>b\<in>set (fl f). mem s' b = mem s b" if "f \<in> set (P i @ F i)" for f i
    using same free_not_used [OF inv that] by blast
  have pool: "pools_ok s' i (P i) (F i) fl" if i: "small_bl s i" for i
  proof (rule pools_okI)
    note ok = mdb_invD(2) [OF inv i]
    show "dll (mem s') NULL (list_of_lists (mdb_buflists s' ! i)) (P i)"
      unfolding km(3) by (rule dll_frame [OF pools_okD(2) [OF ok]]) (use hd [of _ i 8] hd [of _ i 12] in auto)
    show "pool_page (mem s') i (bl_size (mdb_buflists s' ! i)) (max_free (mdb_buflists s' ! i)) f (fl f)"
      if f: "f \<in> set (P i @ F i)" for f
      unfolding km(3) using pools_okD(6) [OF ok f] hd [OF f, of 0] hd [OF f, of 4] hd [OF f, of 16]
        seg_frame [OF _ fr [OF f], of "mem s f" NULL] by (simp add: pool_page_def)
  qed (use pools_okD(1,3,4,5) [OF mdb_invD(2) [OF inv i]] km(3) in auto)
  have "kmem_inv s' xs"
    by (rule kmem_inv_frame [OF mdb_invD(1) [OF inv] km(1,2)]) (use same chunk_not_used [OF inv] in blast)
  then show ?thesis using inv pool unfolding mdb_inv_def small_bl_def km(3) by blast
qed

lemma mdb_ok_write:
  fixes s :: "'a mdb_mem_scheme"
  assumes ok: "mdb_ok s U H" and a: "a \<notin> H \<or> a \<in> used_area s U"
  shows "mdb_ok (wr a v s) U H"
proof -
  obtain xs P F fl where inv: "mdb_inv s xs P F fl" and U: "U = in_use s P F fl" and H: "H = heap_area xs P F"
    using ok by (auto simp: mdb_ok_def)
  have "mdb_inv (wr a v s) xs P F fl"
    by (rule mdb_inv_write [OF inv]) (use a U H in \<open>auto simp: wr_def\<close>)
  moreover have "in_use (wr a v s) P F fl = U" unfolding U in_use_def wr_def by simp
  ultimately show ?thesis using H unfolding mdb_ok_def by metis
qed

section \<open>Allocation and freeing\<close>

text \<open>\<^bold>\<open>C19.\<close> Allocating a buffer of a configured small size hands out a buffer that was not in
  use and adds it to the buffers in use; the contents of the buffers in use and of all memory outside the
  heap stay as they are. The only failure is the use of the null page when the list has no page with a free
  buffer and kernel memory has none either.\<close>

theorem mdb_alloc_buffer_correct:
  fixes s :: "'a mdb_mem_scheme"
  assumes "mdb_ok s U H" and "find_buflist sz (mdb_buflists s) = Some i" and "sz \<noteq> 0" and "sz < MDB_ALLOC_CHUNKSZ"
  shows "(\<exists>b s'. mdb_alloc_buffer sz s = Ok (b, s') \<and> b \<notin> U i \<and> mdb_ok s' (U(i := insert b (U i))) H \<and> mdb_frame s s' U H) \<or>
    (mdb_alloc_buffer sz s = Err Null_deref \<and> list_of_lists (mdb_buflists s ! i) = NULL \<and>
       (\<exists>s'. kmem_alloc MDB_ALLOC_CHUNKSZ s = Some (NULL, s')))"
  using assms by (rule mdb_alloc_step)

text \<open>\<^bold>\<open>C20.\<close> Freeing a buffer in use returns and takes exactly that buffer out of the buffers in
  use, whether its page becomes available again, stays available or goes back to kernel memory; the other
  buffers in use and all memory outside the heap keep their contents.\<close>

theorem mdb_free_buffer_correct:
  fixes s :: "'a mdb_mem_scheme"
  assumes "mdb_ok s U H" and "b \<in> U i"
  shows "\<exists>s'. mdb_free_buffer b (bl_size (mdb_buflists s ! i)) s = Some s' \<and>
    mdb_ok s' (U(i := U i - {b})) H \<and> mdb_frame s s' (U(i := U i - {b})) H"
  using assms by (rule mdb_free_step)

text \<open>Two buffers in use, of the same or of different buffer lists, never overlap, and every
  buffer in use lies in the heap.\<close>

lemma mdb_buffers_disjoint:
  fixes s :: "'a mdb_mem_scheme"
  assumes ok: "mdb_ok s U H" and b: "b \<in> U i" and c: "c \<in> U j" and ne: "b \<noteq> c"
  shows "block b (unat (bl_size (mdb_buflists s ! i))) \<inter> block c (unat (bl_size (mdb_buflists s ! j))) = {} \<and>
    block b (unat (bl_size (mdb_buflists s ! i))) \<subseteq> H"
proof
  show "block b (unat (bl_size (mdb_buflists s ! i))) \<inter> block c (unat (bl_size (mdb_buflists s ! j))) = {}"
    using used_disjoint [OF ok b c ne] by (auto simp: block_def)
  show "block b (unat (bl_size (mdb_buflists s ! i))) \<subseteq> H"
    using ok b used_in_heap(1) unfolding mdb_ok_def by blast
qed

section \<open>Initialisation\<close>

lemma buflist_count_char:
  assumes "0 < unat sz" "unat i mod unat sz < 20"
  shows "buflist_count sz i n = Some (n + of_nat (if unat i < 20 then 0 else (unat i - 20) div unat sz + 1))"
  using assms(2)
proof (induction "unat i" arbitrary: i n rule: less_induct)
  case less
  show ?case
  proof (cases "unat i < 20")
    case True
    then show ?thesis by (subst buflist_count.simps) (simp add: sizeof_mdb_mng_t_def word_le_nat_alt)
  next
    case False
    have le: "unat sz \<le> unat i" using less.prems False by (metis leI mod_less order.strict_trans2)
    then have u: "unat (i - sz) = unat i - unat sz" by (simp add: unat_sub word_le_nat_alt)
    have m: "unat (i - sz) mod unat sz < 20" using less.prems le u by (simp add: le_mod_geq)
    have d: "(unat i - 20) div unat sz + 1 = (if unat (i - sz) < 20 then 0 else (unat (i - sz) - 20) div unat sz + 1) + 1"
    proof (cases "unat i - unat sz < 20")
      case True
      then have "unat i - 20 < unat sz" using le False by linarith
      then show ?thesis using True u by simp
    next
      case False
      then have e: "unat i - 20 = (unat (i - sz) - 20) + unat sz" using le u by linarith
      have "(unat i - 20) div unat sz = (unat (i - sz) - 20) div unat sz + 1"
        unfolding e using assms(1) by (metis div_add_self2 less_not_refl)
      then show ?thesis using False u by simp
    qed
    have "buflist_count sz i n = buflist_count sz (i - sz) (n + 1)"
      using False by (subst buflist_count.simps) (simp add: sizeof_mdb_mng_t_def word_le_nat_alt)
    also have "\<dots> = Some (n + 1 + of_nat (if unat (i - sz) < 20 then 0 else (unat (i - sz) - 20) div unat sz + 1))"
      by (rule less.hyps) (use m u le assms(1) in linarith)+
    finally show ?thesis using False d by simp
  qed
qed

text \<open>The sizes the count is right for: the last step must not go below zero.\<close>

definition good_size :: "dword_t \<Rightarrow> bool" where
  "good_size sz \<longleftrightarrow> 4 \<le> unat sz \<and> 2 * unat sz + 20 \<le> 4096 \<and> 4096 mod unat sz < 20"

lemma buflist_count_fits:
  assumes "good_size sz"
  shows "\<exists>mx. buflist_count sz (MDB_ALLOC_CHUNKSZ - sz) 0 = Some mx \<and> fits sz mx \<and>
    4096 < 20 + (unat mx + 1) * unat sz"
proof -
  let ?n = "(4096 - unat sz - 20) div unat sz + 1"
  have sz: "0 < unat sz" "unat sz + 20 \<le> 4096" using assms by (auto simp: good_size_def)
  have i: "unat (MDB_ALLOC_CHUNKSZ - sz) = 4096 - unat sz"
    using sz by (simp add: MDB_ALLOC_CHUNKSZ_def unat_sub word_le_nat_alt)
  have "unat (MDB_ALLOC_CHUNKSZ - sz) mod unat sz < 20"
    using assms sz unfolding i by (simp add: good_size_def le_mod_geq [symmetric])
  from buflist_count_char [OF sz(1) this, of 0] have
    c: "buflist_count sz (MDB_ALLOC_CHUNKSZ - sz) 0 = Some (of_nat ?n)" using sz unfolding i by simp
  have q: "?n = (4096 - 20) div unat sz"
  proof -
    have "(4096 - 20 :: nat) = (4096 - unat sz - 20) + unat sz" using sz by simp
    then show ?thesis using sz(1) by (metis div_add_self2 less_not_refl Suc_eq_plus1)
  qed
  have "(4096 - 20) div unat sz \<le> 4096 - 20" by (rule div_le_dividend)
  then have "?n < 2 ^ 32" unfolding q by (rule order.strict_trans1) simp
  then have u: "unat (of_nat ?n :: dword_t) = (4096 - 20) div unat sz" unfolding q by (simp add: unat_of_nat_small)
  have "2 \<le> (4096 - 20) div unat sz" using assms sz by (simp add: good_size_def less_eq_div_iff_mult_less_eq)
  moreover have "(4096 - 20) div unat sz * unat sz \<le> 4096 - 20" by (rule div_times_less_eq_dividend)
  moreover have "4096 - 20 < ((4096 - 20) div unat sz + 1) * unat sz"
    using dividend_less_div_times [OF sz(1), of "4096 - 20"] by simp
  ultimately show ?thesis using c u assms by (auto simp: fits_def good_size_def)
qed

lemma buflist_init_list_ok:
  assumes "\<forall>b\<in>set bs. bl_size b \<noteq> 0 \<and> (bl_size b < MDB_ALLOC_CHUNKSZ \<longrightarrow> good_size (bl_size b))" "bl_size t = 0"
  shows "\<exists>bs'. buflist_init_list (bs @ [t]) = Some (bs' @ [t]) \<and> map bl_size bs' = map bl_size bs \<and>
    (\<forall>b\<in>set bs'. list_of_lists b = NULL \<and> (bl_size b < MDB_ALLOC_CHUNKSZ \<longrightarrow>
       fits (bl_size b) (max_free b) \<and> 4096 < 20 + (unat (max_free b) + 1) * unat (bl_size b)))"
  using assms(1)
proof (induction bs)
  case Nil
  then show ?case using assms(2) by simp
next
  case (Cons b bs)
  then obtain bs' where bs': "buflist_init_list (bs @ [t]) = Some (bs' @ [t])" "map bl_size bs' = map bl_size bs"
    "\<forall>b\<in>set bs'. list_of_lists b = NULL \<and> (bl_size b < MDB_ALLOC_CHUNKSZ \<longrightarrow>
       fits (bl_size b) (max_free b) \<and> 4096 < 20 + (unat (max_free b) + 1) * unat (bl_size b))" by auto
  show ?case
  proof (cases "bl_size b < MDB_ALLOC_CHUNKSZ")
    case True
    then obtain mx where "buflist_count (bl_size b) (MDB_ALLOC_CHUNKSZ - bl_size b) 0 = Some mx"
      "fits (bl_size b) mx" "4096 < 20 + (unat mx + 1) * unat (bl_size b)"
      using Cons.prems buflist_count_fits [of "bl_size b"] by auto
    then show ?thesis using True bs' Cons.prems
      by (intro exI [of _ "b\<lparr>list_of_lists := NULL, max_free := mx\<rparr> # bs'"]) (simp add: linorder_not_le [symmetric])
  next
    case False
    then show ?thesis using bs' Cons.prems
      by (intro exI [of _ "b\<lparr>list_of_lists := NULL\<rparr> # bs'"]) (simp add: linorder_not_le [symmetric])
  qed
qed

lemma mdb_inv_empty:
  assumes "kmem_inv s xs" "length (mdb_buflists s) < 2 ^ 32"
    and "\<forall>i. small_bl s i \<longrightarrow> list_of_lists (mdb_buflists s ! i) = NULL \<and>
      fits (bl_size (mdb_buflists s ! i)) (max_free (mdb_buflists s ! i))"
  shows "mdb_ok s (\<lambda>_. {}) (\<Union>x\<in>set xs. block x 1024)"
proof -
  have "mdb_inv s xs (\<lambda>_. []) (\<lambda>_. []) (\<lambda>_. [])" using assms by (simp add: mdb_inv_def pools_ok_def Let_def)
  moreover have "in_use s (\<lambda>_. []) (\<lambda>_. []) (\<lambda>_. []) = (\<lambda>_. {})" by (auto simp: in_use_def)
  moreover have "heap_area xs (\<lambda>_. []) (\<lambda>_. []) = (\<Union>x\<in>set xs. block x 1024)" by (simp add: heap_area_def)
  ultimately show ?thesis unfolding mdb_ok_def by metis
qed

text \<open>Start-up computes for every small buffer size the largest number of buffers that fits
  behind the management structure of a page, ends, and establishes the invariant with no buffer in use.\<close>

lemma mdb_buflist_init_correct:
  fixes s :: "'a mdb_mem_scheme"
  assumes k: "kmem_inv s xs" and bls: "mdb_buflists s = bs @ [t]" and t: "bl_size t = 0" and n: "length bs < 2 ^ 31"
    and sizes: "\<forall>b\<in>set bs. bl_size b \<noteq> 0 \<and> (bl_size b < MDB_ALLOC_CHUNKSZ \<longrightarrow> good_size (bl_size b))"
  shows "\<exists>s'. mdb_buflist_init s = Some s' \<and> mdb_ok s' (\<lambda>_. {}) (\<Union>x\<in>set xs. block x 1024) \<and>
    map bl_size (mdb_buflists s') = map bl_size (mdb_buflists s) \<and>
    (\<forall>b\<in>set (mdb_buflists s'). bl_size b \<noteq> 0 \<and> bl_size b < MDB_ALLOC_CHUNKSZ \<longrightarrow>
       20 + unat (max_free b) * unat (bl_size b) \<le> 4096 \<and> 4096 < 20 + (unat (max_free b) + 1) * unat (bl_size b))"
proof -
  obtain bs' where bs': "buflist_init_list (bs @ [t]) = Some (bs' @ [t])" "map bl_size bs' = map bl_size bs"
    "\<forall>b\<in>set bs'. list_of_lists b = NULL \<and> (bl_size b < MDB_ALLOC_CHUNKSZ \<longrightarrow>
       fits (bl_size b) (max_free b) \<and> 4096 < 20 + (unat (max_free b) + 1) * unat (bl_size b))"
    using buflist_init_list_ok [OF sizes t] by blast
  let ?s = "s\<lparr>mdb_buflists := bs' @ [t]\<rparr>"
  have len: "length bs' = length bs" using bs'(2) by (metis length_map)
  have "mdb_ok ?s (\<lambda>_. {}) (\<Union>x\<in>set xs. block x 1024)"
  proof (rule mdb_inv_empty)
    show "kmem_inv ?s xs" using k by (simp add: kmem_inv_def)
    show "length (mdb_buflists ?s) < 2 ^ 32" using n len by simp
    show "\<forall>i. small_bl ?s i \<longrightarrow> list_of_lists (mdb_buflists ?s ! i) = NULL \<and>
      fits (bl_size (mdb_buflists ?s ! i)) (max_free (mdb_buflists ?s ! i))"
      using bs'(3) t by (auto simp: small_bl_def nth_append less_Suc_eq)
  qed
  then show ?thesis using bs' bls t by (auto simp: mdb_buflist_init_def fits_def)
qed


text \<open>The configured buffer lists over a small free memory.\<close>

definition demo_mdb :: mdb_mem where
  "demo_mdb = \<lparr>mem = mem demo_kmem, kmem_free_list = kmem_free_list demo_kmem, free_chunks = free_chunks demo_kmem,
     mdb_buflists = mdb_buflists_conf\<rparr>"

lemma demo_mdb_kmem: "kmem_inv demo_mdb (chunks 0xF0100000 5)"
  using demo_kmem_inv by (simp add: kmem_inv_def demo_mdb_def)

definition demo_mdb_ready :: mdb_mem where
  "demo_mdb_ready = demo_mdb\<lparr>mdb_buflists :=
     map (\<lambda>(n, mx). \<lparr>bl_size = n, list_of_lists = NULL, max_free = mx\<rparr>) [(12, 339), (8, 509), (4096, 0), (28, 145), (0, 0)]\<rparr>"

lemma demo_mdb_ready_ok: "mdb_ok demo_mdb_ready (\<lambda>_. {}) (\<Union>x\<in>set (chunks 0xF0100000 5). block x 1024)"
  "find_buflist 8 (mdb_buflists demo_mdb_ready) = Some 1"
  "\<exists>s'. kmem_alloc MDB_ALLOC_CHUNKSZ demo_mdb_ready = Some (0xF0100000, s')"
proof -
  have k: "kmem_inv demo_mdb_ready (chunks 0xF0100000 5)"
    using demo_mdb_kmem by (simp add: kmem_inv_def demo_mdb_ready_def)
  show "mdb_ok demo_mdb_ready (\<lambda>_. {}) (\<Union>x\<in>set (chunks 0xF0100000 5). block x 1024)"
    by (rule mdb_inv_empty [OF k])
      (auto simp: demo_mdb_ready_def small_bl_def fits_def MDB_ALLOC_CHUNKSZ_def less_Suc_eq nth_Cons')
  show "find_buflist 8 (mdb_buflists demo_mdb_ready) = Some 1" by (simp add: demo_mdb_ready_def)
  have "alloc_split (of_nat (1024 * Suc 3)) (Suc 3) (chunks 0xF0100000 5) = Some ([], 0xF0100000, [0xF0101000])"
    by code_simp
  from kmem_alloc_hit [OF k this] show "\<exists>s'. kmem_alloc MDB_ALLOC_CHUNKSZ demo_mdb_ready = Some (0xF0100000, s')"
    by (auto simp: MDB_ALLOC_CHUNKSZ_def)
qed

theorem mdb_alloc_buffer_correct_witness:
  "\<exists>b s'. mdb_alloc_buffer 8 demo_mdb_ready = Ok (b, s') \<and> mdb_ok s' ((\<lambda>_. {})(1 := {b})) (\<Union>x\<in>set (chunks 0xF0100000 5). block x 1024)"
  using mdb_alloc_buffer_correct [OF demo_mdb_ready_ok(1,2)] demo_mdb_ready_ok(3)
  by (auto simp: MDB_ALLOC_CHUNKSZ_def)

text \<open>A page of buffers all of which are in use.\<close>

definition demo_mdb_full :: mdb_mem where
  "demo_mdb_full = demo_mdb_ready\<lparr>mem := (\<lambda>_. 0)(0xF0100010 := 1), kmem_free_list := NULL, free_chunks := 0\<rparr>"

lemma demo_mdb_full_ok:
  "mdb_ok demo_mdb_full ((\<lambda>_. {})(1 := set (slots 0xF0100000 8 509))) (block 0xF0100000 4096)" (is "mdb_ok _ ?U ?H")
  "slot 0xF0100000 8 509 0 = 0xF0100018" "slot 0xF0100000 8 509 1 = 0xF0100020"
proof -
  let ?F = "\<lambda>i. if i = (1 :: nat) then [0xF0100000 :: ptr_t] else []"
  have "mdb_inv demo_mdb_full [] (\<lambda>_. []) ?F (\<lambda>_. [])"
    unfolding mdb_inv_def
  proof (intro conjI allI impI)
    show "pools_ok demo_mdb_full i [] (?F i) (\<lambda>_. [])" if "small_bl demo_mdb_full i" for i
      using that by (auto simp: demo_mdb_full_def demo_mdb_ready_def small_bl_def pools_ok_def fits_def pool_page_def
          page_aligned_def MDB_ALLOC_CHUNKSZ_def less_Suc_eq nth_Cons')
    show "?F i = []" if "\<not> small_bl demo_mdb_full i" for i
      using that by (auto simp: demo_mdb_full_def demo_mdb_ready_def small_bl_def MDB_ALLOC_CHUNKSZ_def)
  qed (auto simp: kmem_inv_def demo_mdb_full_def demo_mdb_ready_def)
  moreover have "in_use demo_mdb_full (\<lambda>_. []) ?F (\<lambda>_. []) = ?U"
    by (rule ext) (auto simp: in_use_def demo_mdb_full_def demo_mdb_ready_def)
  moreover have "heap_area [] (\<lambda>_. []) ?F = ?H" by (auto simp: heap_area_def)
  ultimately show "mdb_ok demo_mdb_full ?U ?H" unfolding mdb_ok_def by metis
  show "slot 0xF0100000 8 509 0 = 0xF0100018" "slot 0xF0100000 8 509 1 = 0xF0100020" by (simp_all add: slot_def)
qed

theorem mdb_free_buffer_correct_witness:
  "\<exists>s'. mdb_free_buffer 0xF0100018 8 demo_mdb_full = Some s' \<and>
     mdb_ok s' ((\<lambda>_. {})(1 := set (slots 0xF0100000 8 509) - {0xF0100018})) (block 0xF0100000 4096)"
proof -
  have "0xF0100018 \<in> set (slots 0xF0100000 8 509)"
    using demo_mdb_full_ok(2) unfolding slots_def by force
  then show ?thesis
    using mdb_free_buffer_correct [OF demo_mdb_full_ok(1), of "0xF0100018" 1]
    by (auto simp: demo_mdb_full_def demo_mdb_ready_def)
qed

end
