(* ===== verification/Mapping.thy ===== *)
theory Mapping
  imports Mapnodes Mdb_Heap
begin

text \<open>
  The mapping database, \<^verbatim>\<open>src/mapping.c\<close>: who has which page frame mapped where. The mappings of a frame form a
  tree, kept as a list in depth-first order: every mapping node stores its depth, its successor and, exclusive-or'ed,
  its predecessor and the page table entry it stands for. A node that is mapped in smaller pieces has a dual
  node behind it with an array of root nodes, one list for every piece.

  Pointers are addresses, page sizes are indices into the tables of \<^verbatim>\<open>src/x86/memory.c\<close>. Waiting for locks has no
  counterpart: \<open>up_trylock\<close> is constantly true. The loops are partial functions (\<open>None\<close>: no result); the use of
  a null pointer after a failed allocation is the error \<open>Null_deref\<close>.
\<close>

section \<open>Page sizes\<close>

definition hw_pgshifts :: "nat list" where "hw_pgshifts = [12, 22, 32]"
definition mdb_pgshifts :: "nat list" where "mdb_pgshifts = [12, 22, 32]"
definition HW_NUM_PGSIZES :: nat where "HW_NUM_PGSIZES = 2"
definition NUM_PAGESIZES :: nat where "NUM_PAGESIZES = 2"

definition MDB_ALL_SPACES :: dword_t where "MDB_ALL_SPACES = 0x80000000"
definition MDB_FLUSH :: dword_t where "MDB_FLUSH = 2"

definition mdb_arraysize :: "nat \<Rightarrow> dword_t" where
  "mdb_arraysize pgsize = push_bit (mdb_pgshifts ! (pgsize + 1) - mdb_pgshifts ! pgsize) 1"

definition mdb_get_index :: "nat \<Rightarrow> dword_t \<Rightarrow> dword_t" where
  "mdb_get_index sz addr = drop_bit (mdb_pgshifts ! sz) addr AND (mdb_arraysize sz - 1)"

definition mdb_index_root :: "nat \<Rightarrow> ptr_t \<Rightarrow> dword_t \<Rightarrow> ptr_t" where
  "mdb_index_root sz r addr = r + sizeof_rnode_t * mdb_get_index sz addr"

text \<open>The two searches for the index with the same shift.\<close>

definition mdb_pgsize :: "nat \<Rightarrow> nat" where
  "mdb_pgsize h = length (takeWhile (\<lambda>b. b < hw_pgshifts ! h) mdb_pgshifts)"

definition hw_pgsize :: "nat \<Rightarrow> nat" where
  "hw_pgsize m = length (takeWhile (\<lambda>b. b < mdb_pgshifts ! m) hw_pgshifts)"

section \<open>Inserting\<close>

text \<open>The dual node (or null) and the next mapping node behind a mapping node and behind a root node.\<close>

definition map_next :: "ptr_t \<Rightarrow> 'a kmem_scheme \<Rightarrow> ptr_t \<times> ptr_t" where
  "map_next n s =
     (if is_next_root n s then (get_nextr n s, mem s (dual_map (get_nextr n s))) else (NULL, get_nextm n s))"

definition root_next :: "ptr_t \<Rightarrow> 'a kmem_scheme \<Rightarrow> ptr_t \<times> ptr_t" where
  "root_next r s =
     (if rn_is_next_root r s then (rn_get_map r s, mem s (dual_map (rn_get_map r s))) else (NULL, rn_get_map r s))"

text \<open>Clearing the nodes of a fresh array.\<close>

fun init_roots :: "nat \<Rightarrow> ptr_t \<Rightarrow> 'a kmem_scheme \<Rightarrow> 'a kmem_scheme" where
  "init_roots 0 n s = s"
| "init_roots (Suc k) n s = init_roots k (n + sizeof_rnode_t) (rn_clear_locks n (set_ptr_m n NULL s))"

definition mdb_create_roots :: "nat \<Rightarrow> 'a mdb_mem_scheme \<Rightarrow> (ptr_t \<times> 'a mdb_mem_scheme) kres" where
  "mdb_create_roots pgsize s =
     (let sz = mdb_arraysize pgsize in
      res_bind (mdb_alloc_buffer (sizeof_rnode_t * sz) s) (\<lambda>(newnodes, s).
        if newnodes = NULL then Err Null_deref
        else
          let s = init_roots (unat sz) newnodes s in
          res_bind (mdb_alloc_buffer sizeof_dualnode_t s) (\<lambda>(n, s).
            let s = wr (dual_map n) NULL s;
                s = wr (dual_root n) newnodes s
            in Ok (n, s))))"

text \<open>The grant operation: the node moves to the new page table entry and space.\<close>

definition mdb_grant :: "ptr_t \<Rightarrow> ptr_t \<Rightarrow> ptr_t \<Rightarrow> ptr_t \<Rightarrow> 'a kmem_scheme \<Rightarrow> 'a kmem_scheme" where
  "mdb_grant f_map f_pg t_pg t_space s =
     (let s = (if is_prev_root f_map s
               then set_backlink_r f_map (get_prevr f_map f_pg s) t_pg s
               else set_backlink_m f_map (get_prevm f_map f_pg s) t_pg s)
      in set_space f_map t_space s)"

text \<open>Mapping with the same page size: the new node goes directly below \<open>f_map\<close>.\<close>

definition mdb_map_same ::
    "ptr_t \<Rightarrow> ptr_t \<Rightarrow> ptr_t \<Rightarrow> ptr_t \<Rightarrow> ptr_t \<Rightarrow> ptr_t \<Rightarrow> 'a kmem_scheme \<Rightarrow> 'a kmem_scheme" where
  "mdb_map_same f_map t_pg t_space dual nmap newm s =
     (let s = set_backlink_m newm f_map t_pg s;
          s = set_space newm t_space s;
          s = set_depth newm (get_depth f_map s + 1) s;
          s = clear_locks newm s;
          s = set_next_m newm nmap s;
          s = (if dual \<noteq> NULL then wr (dual_map dual) newm s else set_next_m f_map newm s)
      in if nmap \<noteq> NULL then set_backlink_m nmap newm (get_pgent_m nmap f_map s) s else s)"

text \<open>Traversing into the root array below a mapping node; the array is created when there is none.\<close>

definition mdb_enter_array ::
    "ptr_t \<Rightarrow> nat \<Rightarrow> dword_t \<Rightarrow> ptr_t \<Rightarrow> ptr_t \<Rightarrow> 'a mdb_mem_scheme \<Rightarrow> (ptr_t \<times> ptr_t \<times> ptr_t \<times> 'a mdb_mem_scheme) kres" where
  "mdb_enter_array f_map f_pgsize f_addr dual nmap s =
     (if dual = NULL then
        res_bind (mdb_create_roots f_pgsize s) (\<lambda>(dual, s).
          let s = wr (dual_map dual) nmap s;
              root = mdb_index_root f_pgsize (mem s (dual_root dual)) f_addr;
              s = set_next_r f_map dual s
          in Ok (root, NULL, NULL, s))
      else
        let root = mdb_index_root f_pgsize (mem s (dual_root dual)) f_addr;
            (dual, nmap) = root_next root s
        in Ok (root, dual, nmap, s))"

text \<open>Traversing into the root arrays below root arrays, down to the target size.\<close>

fun mdb_descend ::
    "nat \<Rightarrow> nat \<Rightarrow> dword_t \<Rightarrow> ptr_t \<Rightarrow> ptr_t \<Rightarrow> ptr_t \<Rightarrow> 'a mdb_mem_scheme \<Rightarrow> (ptr_t \<times> ptr_t \<times> ptr_t \<times> 'a mdb_mem_scheme) kres" where
  "mdb_descend 0 t_pgsize f_addr root dual nmap s = Ok (root, dual, nmap, s)"
| "mdb_descend (Suc f_pgsize) t_pgsize f_addr root dual nmap s =
     (if Suc f_pgsize > t_pgsize then
        res_bind
          (if dual = NULL then
             res_bind (mdb_create_roots f_pgsize s) (\<lambda>(dual, s).
               let s = wr (dual_map dual) (rn_get_map root s) s;
                   s = set_ptr_r root dual s
               in Ok (dual, s))
           else Ok (dual, s))
          (\<lambda>(dual, s).
             let root = mdb_index_root f_pgsize (mem s (dual_root dual)) f_addr;
                 (dual, nmap) = root_next root s
             in mdb_descend f_pgsize t_pgsize f_addr root dual nmap s)
      else Ok (root, dual, nmap, s))"

text \<open>Hooking the new node below a root node.\<close>

definition mdb_map_root ::
    "ptr_t \<Rightarrow> ptr_t \<Rightarrow> ptr_t \<Rightarrow> dword_t \<Rightarrow> ptr_t \<Rightarrow> ptr_t \<Rightarrow> ptr_t \<Rightarrow> 'a kmem_scheme \<Rightarrow> 'a kmem_scheme" where
  "mdb_map_root root t_pg t_space newdepth dual nmap newm s =
     (let s = set_backlink_r newm root t_pg s;
          s = set_space newm t_space s;
          s = set_depth newm newdepth s;
          s = set_next_m newm nmap s;
          s = (if dual \<noteq> NULL then wr (dual_map dual) newm s else set_ptr_m root newm s)
      in if nmap \<noteq> NULL then set_backlink_m nmap newm (get_pgent_r nmap root s) s else s)"

definition mdb_map ::
    "ptr_t \<Rightarrow> ptr_t \<Rightarrow> nat \<Rightarrow> dword_t \<Rightarrow> ptr_t \<Rightarrow> nat \<Rightarrow> ptr_t \<Rightarrow> 'a mdb_mem_scheme \<Rightarrow> (ptr_t \<times> 'a mdb_mem_scheme) kres" where
  "mdb_map f_map f_pg f_pgsize f_addr t_pg t_pgsize t_space s =
     (let newdepth = get_depth f_map s + 1 in
      if f_addr AND 1 \<noteq> 0 then Ok (f_map, mdb_grant f_map f_pg t_pg t_space s)
      else
        let f_pgsize = mdb_pgsize f_pgsize;
            t_pgsize = mdb_pgsize t_pgsize;
            (dual, nmap) = map_next f_map s
        in res_bind (mdb_alloc_buffer sizeof_mnode_t s) (\<lambda>(newm, s).
             if f_pgsize = t_pgsize then Ok (newm, mdb_map_same f_map t_pg t_space dual nmap newm s)
             else if f_pgsize > t_pgsize then
               res_bind (mdb_enter_array f_map (f_pgsize - 1) f_addr dual nmap s) (\<lambda>(root, dual, nmap, s).
               res_bind (mdb_descend (f_pgsize - 1) t_pgsize f_addr root dual nmap s) (\<lambda>(root, dual, nmap, s).
                 Ok (newm, mdb_map_root root t_pg t_space newdepth dual nmap newm s)))
             else Ok (newm, s)))"


section \<open>Flushing\<close>

text \<open>The local variables of \<open>mdb_flush\<close>. The arrays \<open>r_prev\<close>, \<open>r_nmap\<close>, \<open>r_root\<close>, \<open>r_rcnt\<close> hold what to go on with
  after a subarray; in \<open>r_prev\<close> bit 0 tells a mapping node from a root node.\<close>

record flush_t =
  fl_map :: ptr_t
  fl_pg :: ptr_t
  fl_pgsize :: nat
  fl_pmap :: ptr_t
  fl_proot :: ptr_t
  fl_nmap :: ptr_t
  fl_dual :: ptr_t
  fl_root :: ptr_t
  fl_rcnt :: dword_t
  fl_mode :: dword_t
  fl_rnmap :: "nat \<Rightarrow> ptr_t"
  fl_rroot :: "nat \<Rightarrow> ptr_t"
  fl_rrcnt :: "nat \<Rightarrow> dword_t"
  fl_rprev :: "nat \<Rightarrow> ptr_t"

text \<open>The neighbours of the current node.\<close>

definition flush_neighbours :: "flush_t \<Rightarrow> 'a kmem_scheme \<Rightarrow> flush_t" where
  "flush_neighbours v s =
     (let (dual, nmap) = map_next (fl_map v) s;
          v = v\<lparr>fl_dual := dual, fl_nmap := nmap\<rparr>
      in if is_prev_root (fl_map v) s
         then v\<lparr>fl_pmap := NULL, fl_proot := get_prevr (fl_map v) (fl_pg v) s\<rparr>
         else v\<lparr>fl_proot := NULL, fl_pmap := get_prevm (fl_map v) (fl_pg v) s\<rparr>)"

text \<open>Taking the current node out of its list.\<close>

definition flush_unlink :: "flush_t \<Rightarrow> 'a kmem_scheme \<Rightarrow> 'a kmem_scheme" where
  "flush_unlink v s =
     (if fl_pmap v \<noteq> NULL then
        let s = set_next_m (fl_pmap v) (fl_nmap v) s
        in if fl_nmap v \<noteq> NULL
           then set_backlink_m (fl_nmap v) (fl_pmap v) (get_pgent_m (fl_nmap v) (fl_map v) s) s else s
      else
        let s = set_ptr_m (fl_proot v) (fl_nmap v) s
        in if fl_nmap v \<noteq> NULL
           then set_backlink_r (fl_nmap v) (fl_proot v) (get_pgent_m (fl_nmap v) (fl_map v) s) s else s)"

text \<open>Removing the current node, making it read-only, or passing it by. \<open>None\<close> inside the result is the return
  with -1. The flush of the TLB entry has no counterpart.\<close>

definition flush_node :: "nat \<Rightarrow> flush_t \<Rightarrow> 'a mdb_mem_scheme \<Rightarrow> (flush_t \<times> 'a mdb_mem_scheme) option kres" where
  "flush_node t_pgsize v s =
     (if fl_mode v AND MDB_ALL_SPACES \<noteq> 0 then
        if fl_pgsize v > t_pgsize \<and> fl_nmap v \<noteq> NULL then Ok None
        else if fl_mode v AND MDB_FLUSH \<noteq> 0 then
          (case mdb_free_buffer (fl_map v) sizeof_mnode_t (flush_unlink v s) of
             None \<Rightarrow> None
           | Some s \<Rightarrow> Ok (Some (v, pg_clear (fl_pg v) s)))
        else Ok (Some (v\<lparr>fl_pmap := fl_map v, fl_proot := NULL\<rparr>, set_readonly (fl_pg v) s))
      else Ok (Some (v\<lparr>fl_pmap := fl_map v, fl_proot := NULL\<rparr>, s)))"

text \<open>Remembering where to go on after a subarray, and starting with the subarray.\<close>

definition save_pos :: "ptr_t \<Rightarrow> ptr_t \<Rightarrow> flush_t \<Rightarrow> flush_t kres" where
  "save_pos prv nmap v =
     (if fl_pgsize v < NUM_PAGESIZES - 1 then
        let i = fl_pgsize v in
        Ok (v\<lparr>fl_rprev := (fl_rprev v)(i := prv), fl_rnmap := (fl_rnmap v)(i := nmap),
              fl_rroot := (fl_rroot v)(i := fl_root v), fl_rrcnt := (fl_rrcnt v)(i := fl_rcnt v)\<rparr>)
      else Err Out_of_bounds)"

definition free_if :: "bool \<Rightarrow> ptr_t \<Rightarrow> dword_t \<Rightarrow> 'a mdb_mem_scheme \<Rightarrow> 'a mdb_mem_scheme kres" where
  "free_if c p sz s = (if c then map_option Inr (mdb_free_buffer p sz s) else Ok s)"

text \<open>A dual node behind the current node: into its array, all of it or the one entry of the address.\<close>

definition flush_into ::
    "nat \<Rightarrow> dword_t \<Rightarrow> flush_t \<Rightarrow> 'a mdb_mem_scheme \<Rightarrow> (flush_t \<times> 'a mdb_mem_scheme) kres" where
  "flush_into t_pgsize f_addr v s =
     (if fl_pgsize v = 0 then Err Out_of_bounds
      else
        let v = v\<lparr>fl_pgsize := fl_pgsize v - 1\<rparr>;
            array = mem s (dual_root (fl_dual v))
        in if fl_pgsize v < t_pgsize then
             res_bind (save_pos (if fl_pmap v \<noteq> NULL then fl_pmap v OR 1 else fl_proot v) (fl_nmap v) v) (\<lambda>v.
             res_bind (free_if ((fl_mode v AND MDB_FLUSH) AND (fl_mode v AND MDB_ALL_SPACES) \<noteq> 0)
                         (fl_dual v) sizeof_dualnode_t s) (\<lambda>s.
               Ok (v\<lparr>fl_root := array - sizeof_rnode_t, fl_rcnt := mdb_arraysize (fl_pgsize v)\<rparr>, s)))
           else Ok (v\<lparr>fl_root := mdb_index_root (fl_pgsize v) array f_addr - sizeof_rnode_t, fl_rcnt := 1\<rparr>, s))"

text \<open>Back from a subarray, which is freed, to the remembered position.\<close>

definition flush_back :: "flush_t \<Rightarrow> 'a mdb_mem_scheme \<Rightarrow> (flush_t \<times> 'a mdb_mem_scheme) kres" where
  "flush_back v s =
     (if fl_pgsize v < NUM_PAGESIZES - 1 then
        let i = fl_pgsize v;
            n = mdb_arraysize i
        in res_bind (free_if (fl_mode v AND MDB_FLUSH \<noteq> 0) (fl_root v - sizeof_rnode_t * (n - 1)) (n * sizeof_rnode_t) s)
             (\<lambda>s.
                let m = fl_rnmap v i;
                    p = fl_rprev v i;
                    v = v\<lparr>fl_map := m, fl_root := fl_rroot v i, fl_rcnt := fl_rrcnt v i\<rparr>;
                    v = (if p AND 1 \<noteq> 0
                         then v\<lparr>fl_proot := NULL, fl_pmap := p AND NOT 1,
                                fl_pg := (if m \<noteq> NULL then get_pgent_m m (p AND NOT 1) s else fl_pg v)\<rparr>
                         else v\<lparr>fl_proot := p, fl_pmap := NULL,
                                fl_pg := (if m \<noteq> NULL then get_pgent_r m p s else fl_pg v)\<rparr>)
                in Ok (v\<lparr>fl_pgsize := i + 1\<rparr>, s))
      else Err Out_of_bounds)"

definition flush_advance ::
    "nat \<Rightarrow> dword_t \<Rightarrow> flush_t \<Rightarrow> 'a mdb_mem_scheme \<Rightarrow> (flush_t \<times> 'a mdb_mem_scheme) kres" where
  "flush_advance t_pgsize f_addr v s =
     (let v = v\<lparr>fl_map := NULL\<rparr> in
      if fl_dual v \<noteq> NULL then flush_into t_pgsize f_addr v s
      else if fl_nmap v \<noteq> NULL then
        Ok (v\<lparr>fl_pg := (if fl_pmap v \<noteq> NULL then get_pgent_m (fl_nmap v) (fl_pmap v) s
                        else get_pgent_r (fl_nmap v) (fl_proot v) s),
              fl_map := fl_nmap v\<rparr>, s)
      else if fl_pgsize v < t_pgsize \<and> fl_root v \<noteq> NULL then flush_back v s
      else Ok (v, s))"

text \<open>Stepping through the root nodes of an array to the next mapping node.\<close>

partial_function (option) flush_roots :: "flush_t \<Rightarrow> 'a mdb_mem_scheme \<Rightarrow> (flush_t \<times> 'a mdb_mem_scheme) kres" where
  "flush_roots v s =
     (if fl_map v = NULL \<and> fl_rcnt v > 0 then
        let v = v\<lparr>fl_rcnt := fl_rcnt v - 1, fl_root := fl_root v + sizeof_rnode_t\<rparr>;
            (dual, m) = root_next (fl_root v) s;
            v = v\<lparr>fl_dual := dual, fl_map := m\<rparr>
        in if dual \<noteq> NULL then
             if fl_pgsize v = 0 then Err Out_of_bounds
             else
               let v = v\<lparr>fl_pgsize := fl_pgsize v - 1\<rparr>;
                   s = (if fl_mode v AND MDB_FLUSH \<noteq> 0 then set_ptr_m (fl_root v) m s else s)
               in res_bind (save_pos (fl_root v) m v) (\<lambda>v.
                    let v = v\<lparr>fl_map := NULL, fl_root := mem s (dual_root dual) - sizeof_rnode_t,
                              fl_rcnt := mdb_arraysize (fl_pgsize v)\<rparr>
                    in res_bind (free_if (fl_mode v AND MDB_FLUSH \<noteq> 0) dual sizeof_dualnode_t s) (\<lambda>s.
                         flush_roots v s))
           else if m \<noteq> NULL then
             flush_roots (v\<lparr>fl_pg := get_pgent_r m (fl_root v) s, fl_pmap := NULL, fl_proot := fl_root v\<rparr>) s
           else flush_roots v s
      else Ok (v, s))"

partial_function (option) flush_loop ::
    "dword_t \<Rightarrow> nat \<Rightarrow> dword_t \<Rightarrow> flush_t \<Rightarrow> 'a mdb_mem_scheme \<Rightarrow> (int \<times> 'a mdb_mem_scheme) kres" where
  "flush_loop startdepth t_pgsize f_addr v s =
     res_bind (flush_node t_pgsize (flush_neighbours v s) s) (\<lambda>r.
       case r of
         None \<Rightarrow> Ok (-1, s)
       | Some vs \<Rightarrow>
           res_bind (flush_advance t_pgsize f_addr (fst vs) (snd vs)) (\<lambda>vs.
           res_bind (flush_roots (fst vs) (snd vs)) (\<lambda>vs.
             let v = (if fl_pgsize (fst vs) \<le> t_pgsize
                      then (fst vs)\<lparr>fl_mode := fl_mode (fst vs) OR MDB_ALL_SPACES\<rparr> else fst vs)
             in if fl_map v \<noteq> NULL \<and> get_depth (fl_map v) (snd vs) > startdepth
                then flush_loop startdepth t_pgsize f_addr v (snd vs)
                else Ok (0, snd vs))))"

definition mdb_flush ::
    "ptr_t \<Rightarrow> ptr_t \<Rightarrow> nat \<Rightarrow> dword_t \<Rightarrow> nat \<Rightarrow> dword_t \<Rightarrow> 'a mdb_mem_scheme \<Rightarrow> (int \<times> 'a mdb_mem_scheme) kres" where
  "mdb_flush f_map f_pg f_pgsize f_addr t_pgsize mode s =
     flush_loop (get_depth f_map s) (mdb_pgsize t_pgsize) f_addr
       \<lparr>fl_map = f_map, fl_pg = f_pg, fl_pgsize = mdb_pgsize f_pgsize, fl_pmap = NULL, fl_proot = NULL,
        fl_nmap = NULL, fl_dual = NULL, fl_root = NULL, fl_rcnt = 0, fl_mode = mode,
        fl_rnmap = (\<lambda>_. 0), fl_rroot = (\<lambda>_. 0), fl_rrcnt = (\<lambda>_. 0), fl_rprev = (\<lambda>_. 0)\<rparr> s"

section \<open>Start-up\<close>

text \<open>The node of sigma0, a static variable at address \<open>sigma0_node\<close>, owns the whole address space. The check that every
  valid hardware page size is a page size of the mapping database is the panic.\<close>

definition SIGMA0_PGDIR_ID :: dword_t where "SIGMA0_PGDIR_ID = 0"
definition HW_VALID_PGSIZES :: dword_t where "HW_VALID_PGSIZES = push_bit 22 1 + push_bit 12 1"

definition is_pgsize_valid :: "nat \<Rightarrow> bool" where
  "is_pgsize_valid i \<longleftrightarrow> push_bit (hw_pgshifts ! i) (1 :: dword_t) AND HW_VALID_PGSIZES \<noteq> 0"

definition pgsizes_ok :: bool where
  "pgsizes_ok \<longleftrightarrow> (\<forall>i\<in>set [0..<HW_NUM_PGSIZES]. is_pgsize_valid i \<longrightarrow>
     hw_pgshifts ! i \<in> set (take NUM_PAGESIZES mdb_pgshifts))"

definition mdb_init :: "ptr_t \<Rightarrow> 'a mdb_mem_scheme \<Rightarrow> 'a mdb_mem_scheme kres" where
  "mdb_init sigma0_node s =
     (case mdb_buflist_init s of
        None \<Rightarrow> None
      | Some s \<Rightarrow>
          res_bind (mdb_create_roots (NUM_PAGESIZES - 1) s) (\<lambda>(dual, s).
            let s = set_backlink_m sigma0_node NULL NULL s;
                s = set_space sigma0_node SIGMA0_PGDIR_ID s;
                s = set_depth sigma0_node 0 s;
                s = clear_locks sigma0_node s;
                s = set_next_r sigma0_node dual s
            in if pgsizes_ok then Ok s else Err Panic))"

end
