(* ===== verification/Mapping_Tree.thy ===== *)
theory Mapping_Tree
  imports Mapping
begin

text \<open>
  Correctness of the mapping database on the list of the mapping nodes of a frame: inserting puts the new node
  directly below its parent, flushing removes exactly a subtree, that is a node and the nodes behind it that are
  deeper, clears their page table entries and frees their buffers.
\<close>

section \<open>Lists of mapping nodes\<close>

text \<open>What is in front of a mapping node: a mapping node or a root node.\<close>

datatype npred = PM ptr_t | PR ptr_t

fun link_cell :: "npred \<Rightarrow> ptr_t" where
  "link_cell (PM p) = p + 8"
| "link_cell (PR r) = r"

fun backlink :: "npred \<Rightarrow> ptr_t \<Rightarrow> dword_t" where
  "backlink (PM p) g = p XOR g"
| "backlink (PR r) g = (r XOR g) OR MDB_PREV_ROOT"

fun points :: "wmem \<Rightarrow> npred \<Rightarrow> ptr_t \<Rightarrow> bool" where
  "points m (PM p) q \<longleftrightarrow> m (p + 8) = q"
| "points m (PR r) q \<longleftrightarrow> m r AND MDB_RPTR_MASK = q \<and> m r AND MDB_RNEXT_ROOT = 0"

fun mlist :: "wmem \<Rightarrow> (ptr_t \<Rightarrow> ptr_t) \<Rightarrow> npred \<Rightarrow> ptr_t list \<Rightarrow> bool" where
  "mlist m pg pr [] \<longleftrightarrow> points m pr NULL"
| "mlist m pg pr (n # ns) \<longleftrightarrow> points m pr n \<and> m n = backlink pr (pg n) \<and> mlist m pg (PM n) ns"

fun pred_ok :: "(nat \<Rightarrow> ptr_t set) \<Rightarrow> ptr_t set \<Rightarrow> npred \<Rightarrow> ptr_t list \<Rightarrow> bool" where
  "pred_ok U H (PM p) ns \<longleftrightarrow> p \<noteq> NULL \<and> word_aligned p \<and> p \<notin> set ns \<and> (p \<in> U 0 \<or> p + 8 \<notin> H)"
| "pred_ok U H (PR r) ns \<longleftrightarrow> r \<noteq> NULL \<and> word_aligned r \<and> r \<notin> H"

definition pg_cells :: "(ptr_t \<Rightarrow> ptr_t) \<Rightarrow> ptr_t list \<Rightarrow> ptr_t set" where
  "pg_cells pg ns = pg ` set ns \<union> (\<lambda>n. pg n + PAGE_SIZE) ` set ns"

definition nodes_ok :: "'a mdb_mem_scheme \<Rightarrow> (nat \<Rightarrow> ptr_t set) \<Rightarrow> ptr_t set \<Rightarrow> (ptr_t \<Rightarrow> ptr_t) \<Rightarrow> npred \<Rightarrow> ptr_t list \<Rightarrow> bool" where
  "nodes_ok s U H pg pr ns \<longleftrightarrow>
     distinct ns \<and> mdb_buflists s \<noteq> [] \<and> bl_size (mdb_buflists s ! 0) = sizeof_mnode_t \<and> pred_ok U H pr ns \<and>
     (\<forall>n\<in>set ns. n \<in> U 0 \<and> n \<noteq> NULL \<and> word_aligned n \<and> word_aligned (pg n)) \<and>
     pg_cells pg ns \<inter> insert (link_cell pr) H = {}"

section \<open>The cells of nodes\<close>

lemma used_cell:
  assumes ok: "mdb_ok s U H" and b: "b \<in> U i" and c: "unat c < unat (bl_size (mdb_buflists s ! i))"
  shows "b + c \<in> block b (unat (bl_size (mdb_buflists s ! i)))" and "b + c \<in> used_area s U" and "b + c \<in> H"
proof -
  obtain xs P F fl where inv: "mdb_inv s xs P F fl" and U: "U = in_use s P F fl" and H: "H = heap_area xs P F"
    using ok by (auto simp: mdb_ok_def)
  obtain f where f: "f \<in> set (P i @ F i)" "small_bl s i"
      "b \<in> set (slots f (bl_size (mdb_buflists s ! i)) (max_free (mdb_buflists s ! i)))"
    using in_use_page [OF inv] b U by blast
  note pk = mdb_invD(2) [OF inv f(2)]
  obtain k where k: "k < unat (max_free (mdb_buflists s ! i))"
    "b = slot f (bl_size (mdb_buflists s ! i)) (max_free (mdb_buflists s ! i)) k" using f(3) by (auto simp: slots_def)
  have "unat b + unat (bl_size (mdb_buflists s ! i)) \<le> unat f + 4096"
    using unat_slot(3) [OF pools_okD(7) [OF pk f(1)] pools_okD(1) [OF pk] k(1)] k(2) by simp
  moreover have "unat f + 4096 < 2 ^ 32" using pools_okD(7) [OF pk f(1)] by (simp add: page_aligned_def)
  ultimately have "unat (b + c) = unat b + unat c" using c by (intro unat_add_noflow) simp
  then show bl: "b + c \<in> block b (unat (bl_size (mdb_buflists s ! i)))" using c by (simp add: block_def)
  have "i < length (mdb_buflists s)" using f(2) by (simp add: small_bl_def)
  then show "b + c \<in> used_area s U" using bl b unfolding used_area_def by blast
  show "b + c \<in> H" using used_in_heap(1) [OF inv] b bl unfolding U H by blast
qed

lemma used_cells_eq:
  assumes ok: "mdb_ok s U H" and b: "b \<in> U i" "b' \<in> U j"
    and c: "unat c < unat (bl_size (mdb_buflists s ! i))" "unat c' < unat (bl_size (mdb_buflists s ! j))"
  shows "b + c = b' + c' \<longleftrightarrow> b = b' \<and> c = c'"
proof
  assume e: "b + c = b' + c'"
  have "b = b'"
  proof (rule ccontr)
    assume "b \<noteq> b'"
    then show False
      using used_disjoint [OF ok b] used_cell(1) [OF ok b(1) c(1)] used_cell(1) [OF ok b(2) c(2)] e
      by (auto simp: block_def)
  qed
  with e show "b = b' \<and> c = c'" by simp
qed simp


lemma nodes_okD:
  assumes "nodes_ok s U H pg pr ns"
  shows "distinct ns" and "bl_size (mdb_buflists s ! 0) = sizeof_mnode_t" and "pred_ok U H pr ns" and "mdb_buflists s \<noteq> []"
    and "n \<in> set ns \<Longrightarrow> n \<in> U 0 \<and> n \<noteq> NULL \<and> word_aligned n \<and> word_aligned (pg n)"
    and "n \<in> set ns \<Longrightarrow> pg n \<notin> H \<and> pg n + PAGE_SIZE \<notin> H \<and> pg n \<noteq> link_cell pr \<and> pg n + PAGE_SIZE \<noteq> link_cell pr"
proof -
  show "distinct ns" "bl_size (mdb_buflists s ! 0) = sizeof_mnode_t" "pred_ok U H pr ns" "mdb_buflists s \<noteq> []"
    "n \<in> set ns \<Longrightarrow> n \<in> U 0 \<and> n \<noteq> NULL \<and> word_aligned n \<and> word_aligned (pg n)"
    using assms by (simp_all add: nodes_ok_def)
  assume "n \<in> set ns"
  then have "pg n \<in> pg_cells pg ns" "pg n + PAGE_SIZE \<in> pg_cells pg ns" by (auto simp: pg_cells_def)
  moreover have "pg_cells pg ns \<inter> insert (link_cell pr) H = {}" using assms by (simp add: nodes_ok_def)
  ultimately show "pg n \<notin> H \<and> pg n + PAGE_SIZE \<notin> H \<and> pg n \<noteq> link_cell pr \<and> pg n + PAGE_SIZE \<noteq> link_cell pr" by blast
qed

lemma node_cell:
  assumes ok: "mdb_ok s U H" and sz: "bl_size (mdb_buflists s ! 0) = sizeof_mnode_t" and n: "n \<in> U 0" and c: "unat c < 12"
  shows "n + c \<in> used_area s U" and "n + c \<in> H"
  using used_cell(2,3) [OF ok n, of c] sz c by (simp_all add: sizeof_mnode_t_def)

lemma node_cells_eq:
  assumes ok: "mdb_ok s U H" and sz: "bl_size (mdb_buflists s ! 0) = sizeof_mnode_t"
    and "n \<in> U 0" "n' \<in> U 0" "unat c < 12" "unat c' < 12"
  shows "n + c = n' + c' \<longleftrightarrow> n = n' \<and> c = c'"
  using used_cells_eq [OF ok assms(3,4), of c c'] assms(2,5,6) by (simp add: sizeof_mnode_t_def)

text \<open>The cell that points to the first node is none of the nodes' cells.\<close>

lemma link_cell_ne:
  assumes ok: "mdb_ok s U H" and nd: "nodes_ok s U H pg pr ns" and n: "n \<in> set ns" and c: "unat c < 12"
  shows "link_cell pr \<noteq> n + c"
proof (cases pr)
  case (PM p)
  have p: "p \<noteq> n" "p \<in> U 0 \<or> p + 8 \<notin> H" using nodes_okD(3) [OF nd] PM n by auto
  have nU: "n \<in> U 0" using nodes_okD(5) [OF nd n] by simp
  show ?thesis
    using p node_cells_eq [OF ok nodes_okD(2) [OF nd] _ nU, of p 8 c] node_cell(2) [OF ok nodes_okD(2) [OF nd] nU c] c PM
    by auto
next
  case (PR r)
  then show ?thesis
    using nodes_okD(3) [OF nd] node_cell(2) [OF ok nodes_okD(2) [OF nd] _ c, of n] nodes_okD(5) [OF nd n] by auto
qed

lemma mlist_frame:
  "mlist m pg pr ns \<Longrightarrow> m' (link_cell pr) = m (link_cell pr) \<Longrightarrow> \<forall>n\<in>set ns. m' n = m n \<and> m' (n + 8) = m (n + 8) \<Longrightarrow>
   mlist m' pg pr ns"
proof (induction ns arbitrary: pr)
  case Nil
  then show ?case by (cases pr) auto
next
  case (Cons n ns)
  then show ?case by (cases pr) auto
qed

lemma mlist_points: "mlist m pg pr ns \<Longrightarrow> points m pr (if ns = [] then NULL else hd ns)"
  by (cases ns) auto

section \<open>Removing one node\<close>

fun link_word :: "npred \<Rightarrow> ptr_t \<Rightarrow> dword_t" where
  "link_word (PM p) q = q"
| "link_word (PR r) q = q OR MDB_RDOWNLOCK"

definition unlink_cells :: "npred \<Rightarrow> (ptr_t \<Rightarrow> ptr_t) \<Rightarrow> ptr_t list \<Rightarrow> wmem \<Rightarrow> wmem" where
  "unlink_cells pr pg ns m =
     (if ns = [] then m(link_cell pr := link_word pr NULL)
      else m(link_cell pr := link_word pr (hd ns), hd ns := backlink pr (pg (hd ns))))"

lemma points_link_word: "word_aligned q \<Longrightarrow> m (link_cell pr) = link_word pr q \<Longrightarrow> points m pr q"
proof (cases pr)
  case (PR r)
  assume q: "word_aligned q" and m: "m (link_cell pr) = link_word pr q"
  have q': "\<not> bit q 0" "\<not> bit q 1" using q by (simp_all add: word_aligned_bits)
  have p: "bit MDB_RPTR_MASK k \<longleftrightarrow> 2 \<le> k \<and> k < 32" for k
  proof -
    have e: "MDB_RPTR_MASK = NOT (mask 2)" by (simp add: MDB_RPTR_MASK_def mask_eq_exp_minus_1)
    show ?thesis unfolding e by (auto simp: bit_simps)
  qed
  have d: "bit MDB_RDOWNLOCK k \<longleftrightarrow> k = 1" for k
  proof -
    have e: "MDB_RDOWNLOCK = push_bit 1 1" by (simp add: MDB_RDOWNLOCK_def)
    show ?thesis unfolding e by (simp only: bit_push_bit_iff bit_1_iff possible_bit_word) auto
  qed
  have "2 \<le> k" if "bit q k" for k
  proof -
    have "k \<noteq> 0" "k \<noteq> 1" using q' that by metis+
    then show ?thesis by simp
  qed
  then have "(q OR MDB_RDOWNLOCK) AND MDB_RPTR_MASK = q"
    by (intro bit_word_eqI) (auto simp: bit_simps p d)
  moreover have "(q OR MDB_RDOWNLOCK) AND MDB_RNEXT_ROOT = 0"
    unfolding MDB_RNEXT_ROOT_def using bit0_test [of "q OR MDB_RDOWNLOCK"] q' d [of 0] by (simp add: bit_simps)
  ultimately show ?thesis using m PR by simp
qed simp

lemma mlist_unlink:
  assumes ok: "mdb_ok s U H" and nd: "nodes_ok s U H pg pr (n # ns)" and ml: "mlist (mem s) pg pr (n # ns)"
  shows "mlist (unlink_cells pr pg ns (mem s)) pg pr ns"
proof (cases ns)
  case Nil
  then show ?thesis by (simp add: unlink_cells_def points_link_word)
next
  case (Cons x xs)
  let ?m = "unlink_cells pr pg ns (mem s)"
  have x: "x \<in> U 0" "word_aligned x" using nodes_okD(5) [OF nd, of x] Cons by auto
  have xs: "mlist (mem s) pg (PM x) xs" using ml Cons by simp
  have lc: "link_cell pr \<noteq> y + c" if "y \<in> set ns" "unat c < 12" for y c
    using link_cell_ne [OF ok nd _ that(2)] that(1) by simp
  have c: "x \<noteq> y + 8" "y \<in> set xs \<Longrightarrow> x \<noteq> y" if "y \<in> set ns" for y
    using node_cells_eq [OF ok nodes_okD(2) [OF nd] x(1), of y 0 8] nodes_okD(5) [OF nd, of y] nodes_okD(1) [OF nd] that Cons by auto
  have "mlist ?m pg (PM x) xs"
  proof (rule mlist_frame [OF xs])
    show "?m (link_cell (PM x)) = mem s (link_cell (PM x))"
      using lc [of x 8] Cons by (auto simp: unlink_cells_def)
    show "\<forall>y\<in>set xs. ?m y = mem s y \<and> ?m (y + 8) = mem s (y + 8)"
    proof
      fix y assume "y \<in> set xs"
      then show "?m y = mem s y \<and> ?m (y + 8) = mem s (y + 8)"
        using lc [of y 0] lc [of y 8] c [of y] Cons by (auto simp: unlink_cells_def)
    qed
  qed
  moreover have "points ?m pr x"
    by (rule points_link_word [OF x(2)]) (use lc [of x 0] Cons in \<open>auto simp: unlink_cells_def\<close>)
  ultimately show ?thesis using Cons by (simp add: unlink_cells_def)
qed


fun pred_map :: "npred \<Rightarrow> ptr_t" where
  "pred_map (PM p) = p"
| "pred_map (PR r) = NULL"

fun pred_root :: "npred \<Rightarrow> ptr_t" where
  "pred_root (PM p) = NULL"
| "pred_root (PR r) = r"

definition next_node :: "ptr_t list \<Rightarrow> ptr_t" where
  "next_node ns = (if ns = [] then NULL else hd ns)"

lemma pred_aligned: "pred_ok U H pr ns \<Longrightarrow> word_aligned (pred_map pr) \<and> word_aligned (pred_root pr)"
  by (cases pr) auto

lemma next_aligned: "nodes_ok s U H pg pr (n # ns) \<Longrightarrow> word_aligned (next_node ns)"
  using nodes_okD(5) [of s U H pg pr "n # ns" "hd ns"] by (cases ns) (auto simp: next_node_def)

lemma neighbours:
  assumes nd: "nodes_ok s U H pg pr (n # ns)" and ml: "mlist (mem s) pg pr (n # ns)"
    and v: "fl_map v = n" "fl_pg v = pg n"
  shows "flush_neighbours v s =
    v\<lparr>fl_dual := NULL, fl_nmap := next_node ns, fl_pmap := pred_map pr, fl_proot := pred_root pr\<rparr>"
proof -
  have nx: "mem s (n + 8) = next_node ns" using ml mlist_points [of "mem s" pg "PM n" ns] by (simp add: next_node_def)
  then have mn: "map_next n s = (NULL, next_node ns)"
    using next_aligned [OF nd] bit0_test [of "next_node ns"]
    by (simp add: map_next_def mnode_defs word_aligned_bits)
  have g: "word_aligned (pg n)" using nodes_okD(5) [OF nd, of n] by simp
  have w1: "mem s n = backlink pr (pg n)" using ml by simp
  show ?thesis
  proof (cases pr)
    case (PM p)
    then have p: "word_aligned p" using nodes_okD(3) [OF nd] by simp
    have "\<not> bit (p XOR pg n) 0" using word_aligned_xor [OF p g] by (simp add: word_aligned_bits)
    then have "\<not> is_prev_root n s" "get_prevm n (pg n) s = p"
      using w1 PM p bit0_test [of "p XOR pg n"] by (simp_all add: mnode_defs)
    then show ?thesis using PM v mn by (simp add: flush_neighbours_def)
  next
    case (PR r)
    then have r: "word_aligned r" using nodes_okD(3) [OF nd] by simp
    have "is_prev_root n s" "get_prevr n (pg n) s = r"
      using w1 PR r g bit0_test [of "(r XOR pg n) OR 1"] by (simp_all add: mnode_defs bit_simps)
    then show ?thesis using PR v mn by (simp add: flush_neighbours_def)
  qed
qed

lemma unlink_mem:
  assumes ok: "mdb_ok s U H" and nd: "nodes_ok s U H pg pr (n # ns)" and ml: "mlist (mem s) pg pr (n # ns)"
    and v: "fl_map v = n" "fl_nmap v = next_node ns" "fl_pmap v = pred_map pr" "fl_proot v = pred_root pr"
  shows "flush_unlink v s = s\<lparr>mem := unlink_cells pr pg ns (mem s)\<rparr>"
proof -
  have nx: "(if next_node ns \<noteq> NULL then f else g) = (if ns = [] then g else f)" for f g :: "'a mdb_mem_scheme"
    using nodes_okD(5) [OF nd, of "hd ns"] by (cases ns) (auto simp: next_node_def)
  have pgx: "ns \<noteq> [] \<Longrightarrow> mem s (hd ns) XOR n = pg (hd ns) \<and> link_cell pr \<noteq> hd ns"
    using ml link_cell_ne [OF ok nd, of "hd ns" 0] by (cases ns) auto
  show ?thesis
  proof (cases pr)
    case (PM p)
    then have "p \<noteq> NULL" using nodes_okD(3) [OF nd] by simp
    then show ?thesis using PM v pgx
      unfolding flush_unlink_def Let_def v nx
      by (cases ns) (auto simp: unlink_cells_def mnode_defs wr_def next_node_def)
  next
    case (PR r)
    then show ?thesis using v pgx unfolding flush_unlink_def Let_def v nx
      by (cases ns) (auto simp: unlink_cells_def mnode_defs wr_def next_node_def set_ptr_m_def)
  qed
qed


text \<open>What a flush of the nodes \<open>vs\<close> leaves alone: everything outside the heap and all buffers in use, up to the
  link to the first remaining node, the back links of the remaining nodes \<open>ns\<close> and the page table entries of \<open>vs\<close>.\<close>

definition flush_frame ::
    "(ptr_t \<Rightarrow> ptr_t) \<Rightarrow> npred \<Rightarrow> ptr_t list \<Rightarrow> ptr_t list \<Rightarrow> (nat \<Rightarrow> ptr_t set) \<Rightarrow> ptr_t set \<Rightarrow>
     'a mdb_mem_scheme \<Rightarrow> 'a mdb_mem_scheme \<Rightarrow> bool" where
  "flush_frame pg pr ns vs U H s s' \<longleftrightarrow> same_lists s s' \<and> mdb_mem.more s' = mdb_mem.more s \<and>
     (\<forall>a. a \<notin> H \<or> a \<in> used_area s U \<longrightarrow> a \<noteq> link_cell pr \<longrightarrow> a \<notin> set ns \<longrightarrow> a \<notin> pg_cells pg vs \<longrightarrow>
        mem s' a = mem s a)"

lemma mdb_ok_writes:
  fixes s :: "'a mdb_mem_scheme"
  assumes ok: "mdb_ok s U H" and m: "\<And>a. m a \<noteq> mem s a \<Longrightarrow> a \<notin> H \<or> a \<in> used_area s U"
  shows "mdb_ok (s\<lparr>mem := m\<rparr>) U H"
proof -
  obtain xs P F fl where inv: "mdb_inv s xs P F fl" and U: "U = in_use s P F fl" and H: "H = heap_area xs P F"
    using ok by (auto simp: mdb_ok_def)
  have "mdb_inv (s\<lparr>mem := m\<rparr>) xs P F fl"
    by (rule mdb_inv_write [OF inv]) (use m U H in auto)
  moreover have "in_use (s\<lparr>mem := m\<rparr>) P F fl = U" unfolding U in_use_def by simp
  ultimately show ?thesis using H unfolding mdb_ok_def by metis
qed

lemma link_cell_kept:
  assumes ok: "mdb_ok s U H" and nd: "nodes_ok s U H pg pr (n # ns)"
  shows "link_cell pr \<notin> H \<or> link_cell pr \<in> used_area s (U(0 := U 0 - {n}))"
proof (cases pr)
  case (PM p)
  have p: "p \<noteq> n" "p \<in> U 0 \<or> p + 8 \<notin> H" using nodes_okD(3) [OF nd] PM by auto
  have "p + 8 \<in> used_area s (U(0 := U 0 - {n}))" if "p \<in> U 0"
  proof -
    have "p + 8 \<in> block p (unat (bl_size (mdb_buflists s ! 0)))"
      using used_cell(1) [OF ok that, of 8] nodes_okD(2) [OF nd] by (simp add: sizeof_mnode_t_def)
    then show ?thesis using that p(1) nodes_okD(4) [OF nd] unfolding used_area_def
      by (auto intro!: bexI [of _ 0] bexI [of _ p])
  qed
  then show ?thesis using p PM by auto
next
  case (PR r)
  then show ?thesis using nodes_okD(3) [OF nd] by simp
qed

lemma node_cell_kept:
  assumes ok: "mdb_ok s U H" and nd: "nodes_ok s U H pg pr (n # ns)" and x: "x \<in> U 0" "x \<noteq> n" and c: "unat c < 12"
  shows "x + c \<in> used_area s (U(0 := U 0 - {n}))"
proof -
  have "x + c \<in> block x (unat (bl_size (mdb_buflists s ! 0)))"
    using used_cell(1) [OF ok x(1), of c] nodes_okD(2) [OF nd] c by (simp add: sizeof_mnode_t_def)
  then show ?thesis using x nodes_okD(4) [OF nd] unfolding used_area_def
    by (auto intro!: bexI [of _ 0] bexI [of _ x])
qed

lemma remove_node:
  fixes s :: "'a mdb_mem_scheme"
  assumes ok: "mdb_ok s U H" and nd: "nodes_ok s U H pg pr (n # ns)" and ml: "mlist (mem s) pg pr (n # ns)"
  defines "V \<equiv> U(0 := U 0 - {n})"
  shows "\<exists>s1. mdb_free_buffer n sizeof_mnode_t (s\<lparr>mem := unlink_cells pr pg ns (mem s)\<rparr>) = Some s1 \<and>
    mdb_ok (pg_clear (pg n) s1) V H \<and> nodes_ok (pg_clear (pg n) s1) V H pg pr ns \<and>
    mlist (mem (pg_clear (pg n) s1)) pg pr ns \<and> flush_frame pg pr ns [n] V H s (pg_clear (pg n) s1) \<and>
    mem (pg_clear (pg n) s1) (pg n) = 0 \<and> mem (pg_clear (pg n) s1) (pg n + PAGE_SIZE) = 0"
proof -
  let ?u = "s\<lparr>mem := unlink_cells pr pg ns (mem s)\<rparr>"
  note sz = nodes_okD(2) [OF nd]
  have nU: "n \<in> U 0" using nodes_okD(5) [OF nd, of n] by simp
  have nsU: "x \<in> U 0 \<and> x \<noteq> n" if "x \<in> set ns" for x using nodes_okD(1,5) [OF nd] that by auto
  have ch: "a = link_cell pr \<or> a \<in> set ns" if "unlink_cells pr pg ns (mem s) a \<noteq> mem s a" for a
    using that by (cases ns) (auto simp: unlink_cells_def split: if_splits)
  have mono: "used_area s V \<subseteq> used_area s U" unfolding V_def by (rule used_area_mono) auto
  have lk: "link_cell pr \<notin> H \<or> link_cell pr \<in> used_area s V" unfolding V_def by (rule link_cell_kept [OF ok nd])
  have nc: "x + c \<in> used_area s V" if "x \<in> set ns" "unat c < 12" for x c
    unfolding V_def using node_cell_kept [OF ok nd _ _ that(2)] nsU [OF that(1)] by blast
  have ok1: "mdb_ok ?u U H"
    by (rule mdb_ok_writes [OF ok]) (use ch lk mono nc [of _ 0] in fastforce)
  have bl: "bl_size (mdb_buflists ?u ! 0) = sizeof_mnode_t" using sz by simp
  obtain s1 where s1: "mdb_free_buffer n sizeof_mnode_t ?u = Some s1" "mdb_ok s1 V H" "mdb_frame ?u s1 V H"
    using mdb_free_step [OF ok1 nU] unfolding bl V_def by blast
  define s2 where "s2 = pg_clear (pg n) s1"
  have pn: "pg n \<notin> H" "pg n + PAGE_SIZE \<notin> H" "pg n \<noteq> link_cell pr" "pg n + PAGE_SIZE \<noteq> link_cell pr"
    using nodes_okD(6) [OF nd, of n] by auto
  have ua: "used_area ?u V = used_area s V" by (simp add: used_area_def)
  have ok2: "mdb_ok s2 V H"
    unfolding s2_def pg_clear_def SET_MAPNODE_def using pn by (intro mdb_ok_write s1(2)) auto
  have m2: "mem s2 a = unlink_cells pr pg ns (mem s) a"
    if "a \<notin> H \<or> a \<in> used_area s V" "a \<noteq> pg n" "a \<noteq> pg n + PAGE_SIZE" for a
    using s1(3) that unfolding mdb_frame_def ua by (simp add: s2_def pg_clear_def SET_MAPNODE_def)
  have sl: "same_lists s s2" "mdb_mem.more s2 = mdb_mem.more s"
    using s1(3) by (simp_all add: mdb_frame_def s2_def pg_clear_def SET_MAPNODE_def same_lists_def)
  have inH: "x + c \<in> H" if "x \<in> set ns" "unat c < 12" for x c using node_cell(2) [OF ok sz _ that(2)] nsU [OF that(1)] by blast
  have "mlist (mem s2) pg pr ns"
  proof (rule mlist_frame [OF mlist_unlink [OF ok nd ml]])
    show "mem s2 (link_cell pr) = unlink_cells pr pg ns (mem s) (link_cell pr)" using m2 [OF lk] pn by auto
    have cell: "mem s2 (x + c) = unlink_cells pr pg ns (mem s) (x + c)" if "x \<in> set ns" "unat c < 12" for x c
      by (rule m2) (use nc [OF that] inH [OF that] pn in auto)
    show "\<forall>x\<in>set ns. mem s2 x = unlink_cells pr pg ns (mem s) x \<and> mem s2 (x + 8) = unlink_cells pr pg ns (mem s) (x + 8)"
      using cell [of _ 0] cell [of _ 8] by simp
  qed
  moreover have "flush_frame pg pr ns [n] V H s s2"
    unfolding flush_frame_def using sl m2 ch by (auto simp: pg_cells_def)
  moreover have "nodes_ok s2 V H pg pr ns"
    using nd sl(1) unfolding nodes_ok_def V_def
    by (cases pr) (auto simp: pg_cells_def same_lists_def)
  moreover have "mem s2 (pg n) = 0" "mem s2 (pg n + PAGE_SIZE) = 0"
    by (simp_all add: s2_def pg_clear_def SET_MAPNODE_def)
  ultimately show ?thesis using s1(1) ok2 unfolding s2_def by blast
qed


section \<open>Flushing a list\<close>

text \<open>The nodes behind \<open>n\<close> that belong to its subtree when \<open>n\<close> has depth \<open>sd\<close>, and the remaining ones.\<close>

definition deeper :: "dword_t \<Rightarrow> 'a kmem_scheme \<Rightarrow> ptr_t list \<Rightarrow> ptr_t list" where
  "deeper sd s ns = takeWhile (\<lambda>x. sd < get_depth x s) ns"

definition beyond :: "dword_t \<Rightarrow> 'a kmem_scheme \<Rightarrow> ptr_t list \<Rightarrow> ptr_t list" where
  "beyond sd s ns = dropWhile (\<lambda>x. sd < get_depth x s) ns"

lemma deeper_cong:
  assumes "\<forall>x\<in>set ns. get_depth x s' = get_depth x s"
  shows "deeper sd s' ns = deeper sd s ns" and "beyond sd s' ns = beyond sd s ns"
  using assms unfolding deeper_def beyond_def by (auto intro: takeWhile_cong dropWhile_cong)

lemma frame_cell4:
  assumes ok: "mdb_ok s U H" and nd: "nodes_ok s U H pg pr (n # ns)" and fr: "flush_frame pg pr ns [n] (U(0 := U 0 - {n})) H s s'"
    and x: "x \<in> set ns"
  shows "mem s' (x + 4) = mem s (x + 4)"
proof -
  have xU: "x \<in> U 0" "x \<noteq> n" using nodes_okD(5) [OF nd, of x] nodes_okD(1) [OF nd] x by auto
  note sz = nodes_okD(2) [OF nd]
  have inH: "x + 4 \<in> H" by (rule node_cell(2) [OF ok sz xU(1)]) simp
  have "x + 4 \<in> used_area s (U(0 := U 0 - {n}))" by (rule node_cell_kept [OF ok nd xU]) simp
  moreover have "x + 4 \<noteq> link_cell pr" using link_cell_ne [OF ok nd, of x 4] x by auto
  moreover have "x + 4 \<notin> set ns"
  proof
    assume y: "x + 4 \<in> set ns"
    then have "x + 4 \<in> U 0" using nodes_okD(5) [OF nd, of "x + 4"] by simp
    then show False using node_cells_eq [OF ok sz xU(1), of "x + 4" 4 0] by simp
  qed
  moreover have "x + 4 \<notin> pg_cells pg [n]"
    using nodes_okD(6) [OF nd, of n] inH by (auto simp: pg_cells_def)
  ultimately show ?thesis using fr unfolding flush_frame_def by blast
qed

text \<open>What the loop expects of its variables at the node \<open>n\<close> of a list without subarrays.\<close>

definition at_node :: "nat \<Rightarrow> (ptr_t \<Rightarrow> ptr_t) \<Rightarrow> ptr_t \<Rightarrow> flush_t \<Rightarrow> bool" where
  "at_node t pg n v \<longleftrightarrow> fl_map v = n \<and> fl_pg v = pg n \<and> fl_rcnt v = 0 \<and> fl_root v = NULL \<and> fl_pgsize v \<le> t"

definition removing :: "flush_t \<Rightarrow> bool" where
  "removing v \<longleftrightarrow> fl_mode v AND MDB_ALL_SPACES \<noteq> 0 \<and> fl_mode v AND MDB_FLUSH \<noteq> 0"

lemma or_keeps: "(x OR m) AND m = m" for x m :: dword_t
  by (intro bit_word_eqI) (auto simp: bit_simps)

lemma all_mode: "(m OR MDB_ALL_SPACES) AND MDB_ALL_SPACES \<noteq> 0" "(m OR MDB_ALL_SPACES) AND MDB_FLUSH = m AND MDB_FLUSH"
  using or_keeps [of m MDB_ALL_SPACES] by (simp_all add: MDB_ALL_SPACES_def MDB_FLUSH_def bit.conj_disj_distrib2)

text \<open>The page table entry of the next node, computed from its back link.\<close>

lemma next_pgent:
  assumes ml: "mlist (mem s) pg pr ns" and ne: "ns \<noteq> []" and al: "pred_ok U H pr ns" "word_aligned (pg (hd ns))"
  shows "(if pred_map pr \<noteq> NULL then get_pgent_m (hd ns) (pred_map pr) s else get_pgent_r (hd ns) (pred_root pr) s) = pg (hd ns)"
proof (cases pr)
  case (PM p)
  then show ?thesis using ml ne al by (cases ns) (auto simp: mnode_defs)
next
  case (PR r)
  have "((r XOR pg (hd ns)) OR 1) XOR r = pg (hd ns) OR 1"
    using al PR by (intro bit_word_eqI) (auto simp: bit_simps word_aligned_bits)
  then show ?thesis using ml ne al PR by (cases ns) (auto simp: mnode_defs)
qed

lemma flush_one:
  fixes s :: "'a mdb_mem_scheme"
  assumes ok: "mdb_ok s U H" and nd: "nodes_ok s U H pg pr (n # ns)" and ml: "mlist (mem s) pg pr (n # ns)"
    and at: "at_node t pg n v" and rm: "removing v"
  defines "V \<equiv> U(0 := U 0 - {n})"
  shows "\<exists>s' v'. flush_loop sd t fa v s =
      (if ns \<noteq> [] \<and> sd < get_depth (hd ns) s then flush_loop sd t fa v' s' else Ok (0, s')) \<and>
    (ns \<noteq> [] \<longrightarrow> at_node t pg (hd ns) v') \<and> removing v' \<and>
    mdb_ok s' V H \<and> nodes_ok s' V H pg pr ns \<and> mlist (mem s') pg pr ns \<and> flush_frame pg pr ns [n] V H s s' \<and>
    mem s' (pg n) = 0 \<and> mem s' (pg n + PAGE_SIZE) = 0"
proof -
  obtain s1 where s1: "mdb_free_buffer n sizeof_mnode_t (s\<lparr>mem := unlink_cells pr pg ns (mem s)\<rparr>) = Some s1"
    and g: "mdb_ok (pg_clear (pg n) s1) V H" "nodes_ok (pg_clear (pg n) s1) V H pg pr ns"
      "mlist (mem (pg_clear (pg n) s1)) pg pr ns" "flush_frame pg pr ns [n] V H s (pg_clear (pg n) s1)"
      "mem (pg_clear (pg n) s1) (pg n) = 0" "mem (pg_clear (pg n) s1) (pg n + PAGE_SIZE) = 0"
    using remove_node [OF ok nd ml] unfolding V_def by blast
  define s' where "s' = pg_clear (pg n) s1"
  note g = g [folded s'_def]
  define v1 where "v1 = v\<lparr>fl_dual := NULL, fl_nmap := next_node ns, fl_pmap := pred_map pr, fl_proot := pred_root pr\<rparr>"
  have v: "fl_map v = n" "fl_pg v = pg n" "fl_rcnt v = 0" "fl_root v = NULL" "fl_pgsize v \<le> t"
    using at by (simp_all add: at_node_def)
  have nb: "flush_neighbours v s = v1" unfolding v1_def by (rule neighbours [OF nd ml v(1,2)])
  have un: "flush_unlink v1 s = s\<lparr>mem := unlink_cells pr pg ns (mem s)\<rparr>"
    by (rule unlink_mem [OF ok nd ml]) (simp_all add: v1_def v)
  have fn: "flush_node t v1 s = Ok (Some (v1, s'))"
    unfolding flush_node_def using rm un s1 v by (simp add: v1_def removing_def s'_def)
  define v2 where "v2 = v1\<lparr>fl_pg := (if ns = [] then fl_pg v else pg (hd ns)), fl_map := next_node ns\<rparr>"
  have hn: "next_node ns \<noteq> NULL \<longleftrightarrow> ns \<noteq> []"
    using nodes_okD(5) [OF nd, of "hd ns"] by (cases ns) (auto simp: next_node_def)
  have pgh: "(if pred_map pr \<noteq> NULL then get_pgent_m (hd ns) (pred_map pr) s' else get_pgent_r (hd ns) (pred_root pr) s') = pg (hd ns)"
    if ne: "ns \<noteq> []"
    by (rule next_pgent [OF g(3) ne nodes_okD(3) [OF g(2)]]) (use nodes_okD(5) [OF g(2), of "hd ns"] ne in simp)
  have fa: "flush_advance t fa v1 s' = Ok (v2, s')"
  proof (cases "ns = []")
    case True
    then show ?thesis using v by (simp add: flush_advance_def v1_def v2_def next_node_def)
  next
    case False
    then show ?thesis using pgh [OF False] hn
      by (simp add: flush_advance_def Let_def v1_def v2_def next_node_def split: if_split_asm)
  qed
  have fr: "flush_roots v2 s' = Ok (v2, s')" using v by (subst flush_roots.simps) (simp add: v1_def v2_def)
  define v3 where "v3 = v2\<lparr>fl_mode := fl_mode v2 OR MDB_ALL_SPACES\<rparr>"
  have d: "get_depth (hd ns) s' = get_depth (hd ns) s" if "ns \<noteq> []"
    using frame_cell4 [OF ok nd g(4) [unfolded V_def], of "hd ns"] that by (simp add: get_depth_def mn_w2_def)
  have "flush_loop sd t fa v s = (if ns \<noteq> [] \<and> sd < get_depth (hd ns) s then flush_loop sd t fa v3 s' else Ok (0, s'))"
  proof -
    have v2: "fl_pgsize v2 \<le> t" "fl_map v2 = next_node ns" using v by (simp_all add: v2_def v1_def)
    have "flush_loop sd t fa v s =
        (if next_node ns \<noteq> NULL \<and> sd < get_depth (next_node ns) s' then flush_loop sd t fa v3 s' else Ok (0, s'))"
      by (subst flush_loop.simps) (simp add: nb fn fa fr v2 v3_def Let_def)
    then show ?thesis using hn d by (cases "ns = []") (simp_all add: next_node_def)
  qed
  moreover have "ns \<noteq> [] \<longrightarrow> at_node t pg (hd ns) v3"
    using v by (auto simp: at_node_def v3_def v2_def v1_def next_node_def)
  moreover have "removing v3"
    using rm all_mode [of "fl_mode v"] by (simp add: removing_def v3_def v2_def v1_def)
  ultimately show ?thesis using g by blast
qed


lemma pg_cells_Cons: "pg_cells pg (n # ns) = {pg n, pg n + PAGE_SIZE} \<union> pg_cells pg ns"
  by (auto simp: pg_cells_def)

lemma flush_frame_trans:
  assumes a: "flush_frame pg pr (n # ns) [n] (U(0 := U 0 - {n})) H s s1"
    and b: "flush_frame pg pr (n # ns) vs (U(0 := U 0 - set (n # vs))) H s1 s2"
  shows "flush_frame pg pr (n # ns) (n # vs) (U(0 := U 0 - set (n # vs))) H s s2"
  unfolding flush_frame_def
proof (intro conjI allI impI)
  show "same_lists s s2" using a b by (auto simp: flush_frame_def same_lists_def)
  show "mdb_mem.more s2 = mdb_mem.more s" using a b by (simp add: flush_frame_def)
  fix c assume c: "c \<notin> H \<or> c \<in> used_area s (U(0 := U 0 - set (n # vs)))" "c \<noteq> link_cell pr" "c \<notin> set (n # ns)" "c \<notin> pg_cells pg (n # vs)"
  have m: "used_area s (U(0 := U 0 - set (n # vs))) \<subseteq> used_area s (U(0 := U 0 - {n}))" by (rule used_area_mono) auto
  have "used_area s1 (U(0 := U 0 - set (n # vs))) = used_area s (U(0 := U 0 - set (n # vs)))"
    using a unfolding flush_frame_def by (auto simp: used_area_def same_lists_def)
  then have "mem s2 c = mem s1 c" using b c unfolding flush_frame_def pg_cells_Cons by blast
  also have "\<dots> = mem s c" using a c m unfolding flush_frame_def pg_cells_Cons by (auto simp: pg_cells_def)
  finally show "mem s2 c = mem s c" .
qed

lemma flush_frame_weaken:
  "flush_frame pg pr ns vs U H s s' \<Longrightarrow> set ns \<subseteq> set ms \<Longrightarrow> flush_frame pg pr ms vs U H s s'"
  unfolding flush_frame_def by blast

lemma flush_list:
  fixes s :: "'a mdb_mem_scheme"
  assumes "mdb_ok s U H" and "nodes_ok s U H pg pr (n # ns)" and "mlist (mem s) pg pr (n # ns)"
    and "at_node t pg n v" and "removing v"
  shows "\<exists>s'. flush_loop sd t fa v s = Ok (0, s') \<and> mdb_ok s' (U(0 := U 0 - set (n # deeper sd s ns))) H \<and>
    nodes_ok s' (U(0 := U 0 - set (n # deeper sd s ns))) H pg pr (beyond sd s ns) \<and> mlist (mem s') pg pr (beyond sd s ns) \<and>
    (\<forall>a\<in>pg_cells pg (n # deeper sd s ns). mem s' a = 0) \<and>
    flush_frame pg pr (n # ns) (n # deeper sd s ns) (U(0 := U 0 - set (n # deeper sd s ns))) H s s'"
  using assms
proof (induction ns arbitrary: n v s U)
  case Nil
  obtain s' where s': "flush_loop sd t fa v s = Ok (0, s')" "mdb_ok s' (U(0 := U 0 - {n})) H"
    "nodes_ok s' (U(0 := U 0 - {n})) H pg pr []" "mlist (mem s') pg pr []"
    "flush_frame pg pr [] [n] (U(0 := U 0 - {n})) H s s'" "mem s' (pg n) = 0" "mem s' (pg n + PAGE_SIZE) = 0"
    using flush_one [OF Nil.prems, of sd fa] by auto
  have "flush_frame pg pr [n] [n] (U(0 := U 0 - {n})) H s s'" by (rule flush_frame_weaken [OF s'(5)]) simp
  moreover have "deeper sd s [] = []" "beyond sd s [] = []" "set [n] = {n}" "pg_cells pg [n] = {pg n, pg n + PAGE_SIZE}"
    by (auto simp: deeper_def beyond_def pg_cells_def)
  ultimately show ?case using s' by (intro exI [of _ s']) (metis insertE singletonD)
next
  case (Cons x ns)
  let ?V = "U(0 := U 0 - {n})"
  obtain s1 v1 where e: "flush_loop sd t fa v s = (if sd < get_depth x s then flush_loop sd t fa v1 s1 else Ok (0, s1))"
    and at: "at_node t pg x v1" "removing v1"
    and s1: "mdb_ok s1 ?V H" "nodes_ok s1 ?V H pg pr (x # ns)" "mlist (mem s1) pg pr (x # ns)"
      "flush_frame pg pr (x # ns) [n] ?V H s s1" "mem s1 (pg n) = 0" "mem s1 (pg n + PAGE_SIZE) = 0"
    using flush_one [OF Cons.prems, of sd fa] by auto
  have fr1: "flush_frame pg pr (n # x # ns) [n] ?V H s s1" by (rule flush_frame_weaken [OF s1(4)]) auto
  show ?case
  proof (cases "sd < get_depth x s")
    case False
    then have "deeper sd s (x # ns) = []" "beyond sd s (x # ns) = x # ns" "set [n] = {n}" "pg_cells pg [n] = {pg n, pg n + PAGE_SIZE}"
      by (auto simp: deeper_def beyond_def pg_cells_def)
    then show ?thesis using False e s1 fr1 by (intro exI [of _ s1]) (metis insertE singletonD)
  next
    case True
    have "\<forall>y\<in>set (x # ns). get_depth y s1 = get_depth y s"
      using frame_cell4 [OF Cons.prems(1,2) s1(4)] by (simp add: get_depth_def mn_w2_def)
    then have dp: "deeper sd s1 ns = deeper sd s ns" "beyond sd s1 ns = beyond sd s ns"
      using deeper_cong [of ns s1 s sd] by simp_all
    let ?vs = "x # deeper sd s ns" and ?rs = "beyond sd s ns"
    have vs: "deeper sd s (x # ns) = ?vs" "beyond sd s (x # ns) = ?rs" using True by (simp_all add: deeper_def beyond_def)
    have W: "?V(0 := ?V 0 - set ?vs) = U(0 := U 0 - set (n # ?vs))" by (auto simp: fun_eq_iff)
    obtain s' where s': "flush_loop sd t fa v1 s1 = Ok (0, s')" "mdb_ok s' (U(0 := U 0 - set (n # ?vs))) H"
      "nodes_ok s' (U(0 := U 0 - set (n # ?vs))) H pg pr ?rs" "mlist (mem s') pg pr ?rs"
      "\<forall>a\<in>pg_cells pg ?vs. mem s' a = 0" "flush_frame pg pr (x # ns) ?vs (U(0 := U 0 - set (n # ?vs))) H s1 s'"
      using Cons.IH [OF s1(1-3) at] unfolding dp W by blast
    have fr2: "flush_frame pg pr (n # x # ns) ?vs (U(0 := U 0 - set (n # ?vs))) H s1 s'"
      by (rule flush_frame_weaken [OF s'(6)]) auto
    have kept: "mem s' a = 0" if a: "a \<in> {pg n, pg n + PAGE_SIZE}" for a
    proof (cases "a \<in> pg_cells pg ?vs")
      case True
      then show ?thesis using s'(5) by blast
    next
      case False
      have "a \<notin> H" "a \<noteq> link_cell pr" using nodes_okD(6) [OF Cons.prems(2), of n] a by auto
      moreover have "a \<notin> set (x # ns)"
      proof
        assume "a \<in> set (x # ns)"
        then have "a \<in> U 0" using nodes_okD(5) [OF Cons.prems(2), of a] by auto
        then show False using node_cell(2) [OF Cons.prems(1) nodes_okD(2) [OF Cons.prems(2)], of a 0] \<open>a \<notin> H\<close> by simp
      qed
      ultimately have "mem s' a = mem s1 a" using s'(6) False unfolding flush_frame_def by blast
      then show ?thesis using s1(5,6) a by auto
    qed
    show ?thesis using e True s' kept flush_frame_trans [OF fr1 fr2]
      unfolding vs pg_cells_Cons [of pg n] by (intro exI [of _ s']) (simp only: if_True Un_iff ball_Un, blast)
  qed
qed


section \<open>Passing nodes by\<close>

lemma nodes_ok_tl:
  assumes ok: "mdb_ok s U H" and nd: "nodes_ok s U H pg pr (n # ns)"
  shows "nodes_ok s U H pg (PM n) ns"
proof -
  have n: "n \<in> U 0" "n \<noteq> NULL" "word_aligned n" using nodes_okD(5) [OF nd, of n] by auto
  have "n + 8 \<in> H" using node_cell(2) [OF ok nodes_okD(2) [OF nd] n(1), of 8] by simp
  then have "insert (link_cell (PM n)) H = H" by auto
  moreover have "pg_cells pg ns \<inter> H = {}" using nd unfolding nodes_ok_def pg_cells_Cons by blast
  ultimately show ?thesis using nd n unfolding nodes_ok_def by auto
qed

lemma set_readonly_mem: "set_readonly g s = s\<lparr>mem := (mem s)(g := mem s g AND NOT PAGE_WRITABLE)\<rparr>"
  by (simp add: set_readonly_def wr_def)

text \<open>Write-protecting page table entries leaves the database as it is.\<close>

lemma readonly_node:
  assumes ok: "mdb_ok s U H" and nd: "nodes_ok s U H pg pr (n # ns)" and ml: "mlist (mem s) pg pr (n # ns)"
  shows "mdb_ok (set_readonly (pg n) s) U H" and "nodes_ok (set_readonly (pg n) s) U H pg pr (n # ns)"
    and "mlist (mem (set_readonly (pg n) s)) pg pr (n # ns)"
proof -
  have g: "pg n \<notin> H" "pg n \<noteq> link_cell pr" using nodes_okD(6) [OF nd, of n] by auto
  show "mdb_ok (set_readonly (pg n) s) U H"
    unfolding set_readonly_def using g by (intro mdb_ok_write ok) auto
  show "nodes_ok (set_readonly (pg n) s) U H pg pr (n # ns)" using nd by (simp add: nodes_ok_def set_readonly_def)
  show "mlist (mem (set_readonly (pg n) s)) pg pr (n # ns)"
  proof (rule mlist_frame [OF ml])
    show "mem (set_readonly (pg n) s) (link_cell pr) = mem s (link_cell pr)" using g by (simp add: set_readonly_def)
    have "x + c \<noteq> pg n" if "x \<in> set (n # ns)" "unat c < 12" for x c
      using node_cell(2) [OF ok nodes_okD(2) [OF nd] _ that(2), of x] nodes_okD(5) [OF nd that(1)] g by auto
    from this [of _ 0] this [of _ 8] show "\<forall>x\<in>set (n # ns). mem (set_readonly (pg n) s) x = mem s x \<and>
        mem (set_readonly (pg n) s) (x + 8) = mem s (x + 8)"
      by (simp add: set_readonly_def)
  qed
qed

definition passed :: "flush_t \<Rightarrow> ptr_t \<Rightarrow> 'a kmem_scheme \<Rightarrow> 'a kmem_scheme" where
  "passed v g s = (if fl_mode v AND MDB_ALL_SPACES \<noteq> 0 then set_readonly g s else s)"

lemma pass_one:
  fixes s :: "'a mdb_mem_scheme"
  assumes ok: "mdb_ok s U H" and nd: "nodes_ok s U H pg pr (n # ns)" and ml: "mlist (mem s) pg pr (n # ns)"
    and at: "at_node t pg n v" and rm: "\<not> removing v"
  shows "\<exists>v'. flush_loop sd t fa v s =
      (if ns \<noteq> [] \<and> sd < get_depth (hd ns) s then flush_loop sd t fa v' (passed v (pg n) s) else Ok (0, passed v (pg n) s)) \<and>
    (ns \<noteq> [] \<longrightarrow> at_node t pg (hd ns) v') \<and> fl_mode v' = fl_mode v OR MDB_ALL_SPACES"
proof -
  let ?s = "passed v (pg n) s"
  define v1 where "v1 = v\<lparr>fl_dual := NULL, fl_nmap := next_node ns, fl_pmap := pred_map pr, fl_proot := pred_root pr\<rparr>"
  have v: "fl_map v = n" "fl_pg v = pg n" "fl_rcnt v = 0" "fl_root v = NULL" "fl_pgsize v \<le> t"
    using at by (simp_all add: at_node_def)
  have nb: "flush_neighbours v s = v1" unfolding v1_def by (rule neighbours [OF nd ml v(1,2)])
  define v2 where "v2 = v1\<lparr>fl_pmap := n, fl_proot := NULL\<rparr>"
  have fn: "flush_node t v1 s = Ok (Some (v2, ?s))"
    using rm v by (auto simp: flush_node_def passed_def removing_def v1_def v2_def)
  define v3 where "v3 = v2\<lparr>fl_pg := (if ns = [] then fl_pg v else pg (hd ns)), fl_map := next_node ns\<rparr>"
  have hn: "next_node ns \<noteq> NULL \<longleftrightarrow> ns \<noteq> []" "n \<noteq> NULL"
    using nodes_okD(5) [OF nd, of "hd ns"] nodes_okD(5) [OF nd, of n] by (cases ns; auto simp: next_node_def)+
  have ml': "mlist (mem ?s) pg (PM n) ns"
    using ml readonly_node(3) [OF ok nd ml] by (auto simp: passed_def)
  have pgh: "get_pgent_m (hd ns) n ?s = pg (hd ns)" if ne: "ns \<noteq> []"
    using next_pgent [OF ml' ne, of U H] nodes_okD(3) [OF nodes_ok_tl [OF ok nd]] nodes_okD(5) [OF nd, of "hd ns"] ne hn by simp
  have fa: "flush_advance t fa v2 ?s = Ok (v3, ?s)"
    using v hn pgh by (cases "ns = []") (simp_all add: flush_advance_def Let_def v1_def v2_def v3_def next_node_def)
  have fr: "flush_roots v3 ?s = Ok (v3, ?s)" using v by (subst flush_roots.simps) (simp add: v1_def v2_def v3_def)
  define v4 where "v4 = v3\<lparr>fl_mode := fl_mode v3 OR MDB_ALL_SPACES\<rparr>"
  have d: "get_depth (hd ns) ?s = get_depth (hd ns) s" if ne: "ns \<noteq> []"
  proof -
    have "hd ns + 4 \<in> H" using node_cell(2) [OF ok nodes_okD(2) [OF nd], of "hd ns" 4] nodes_okD(5) [OF nd, of "hd ns"] ne by simp
    then have "hd ns + 4 \<noteq> pg n" using nodes_okD(6) [OF nd, of n] by auto
    then show ?thesis by (simp add: passed_def get_depth_def mn_w2_def set_readonly_def)
  qed
  have v3: "fl_pgsize v3 \<le> t" "fl_map v3 = next_node ns" using v by (simp_all add: v3_def v2_def v1_def)
  have "flush_loop sd t fa v s =
      (if next_node ns \<noteq> NULL \<and> sd < get_depth (next_node ns) ?s then flush_loop sd t fa v4 ?s else Ok (0, ?s))"
    by (subst flush_loop.simps) (simp add: nb fn fa fr v3 v4_def Let_def)
  then have "flush_loop sd t fa v s = (if ns \<noteq> [] \<and> sd < get_depth (hd ns) s then flush_loop sd t fa v4 ?s else Ok (0, ?s))"
    using hn(1) d by (cases "ns = []") (simp_all add: next_node_def)
  moreover have "ns \<noteq> [] \<longrightarrow> at_node t pg (hd ns) v4"
    using v by (auto simp: at_node_def v4_def v3_def v2_def v1_def next_node_def)
  moreover have "fl_mode v4 = fl_mode v OR MDB_ALL_SPACES" by (simp add: v4_def v3_def v2_def v1_def)
  ultimately show ?thesis by blast
qed

text \<open>Write-protecting a list of page table entries.\<close>

definition protect :: "ptr_t set \<Rightarrow> wmem \<Rightarrow> wmem" where
  "protect A m = (\<lambda>a. if a \<in> A then m a AND NOT PAGE_WRITABLE else m a)"

lemma protect_singleton: "protect {g} m = m(g := m g AND NOT PAGE_WRITABLE)"
  by (auto simp: protect_def)

lemma protect_list:
  fixes s :: "'a mdb_mem_scheme"
  assumes "mdb_ok s U H" and "nodes_ok s U H pg pr (n # ns)" and "mlist (mem s) pg pr (n # ns)"
    and "at_node t pg n v" and "fl_mode v AND MDB_ALL_SPACES \<noteq> 0" and "fl_mode v AND MDB_FLUSH = 0"
  shows "flush_loop sd t fa v s = Ok (0, s\<lparr>mem := protect (pg ` set (n # deeper sd s ns)) (mem s)\<rparr>)"
  using assms
proof (induction ns arbitrary: n v s pr)
  case Nil
  have "flush_loop sd t fa v s = Ok (0, set_readonly (pg n) s)"
    using pass_one [OF Nil.prems(1-4), of sd fa] Nil.prems(5,6) by (auto simp: removing_def passed_def)
  moreover have "pg ` set (n # deeper sd s []) = {pg n}" by (simp add: deeper_def)
  ultimately show ?case by (simp only: set_readonly_mem protect_singleton)
next
  case (Cons x ns)
  let ?s = "set_readonly (pg n) s"
  obtain v' where e: "flush_loop sd t fa v s = (if sd < get_depth x s then flush_loop sd t fa v' ?s else Ok (0, ?s))"
    and at: "at_node t pg x v'" and md: "fl_mode v' = fl_mode v OR MDB_ALL_SPACES"
  proof -
    have p: "passed v (pg n) s = ?s" "\<not> removing v" using Cons.prems(5,6) by (simp_all add: passed_def removing_def)
    show thesis using that pass_one [OF Cons.prems(1-4) p(2), of sd fa] unfolding p(1) by auto
  qed
  note r = readonly_node [OF Cons.prems(1-3)]
  have ml: "mlist (mem ?s) pg (PM n) (x # ns)" using r(3) by simp
  have md': "fl_mode v' AND MDB_ALL_SPACES \<noteq> 0" "fl_mode v' AND MDB_FLUSH = 0"
    using Cons.prems(6) all_mode [of "fl_mode v"] unfolding md by simp_all
  have cell: "y + 4 \<noteq> pg n" if "y \<in> set (x # ns)" for y
    using node_cell(2) [OF Cons.prems(1) nodes_okD(2) [OF Cons.prems(2)], of y 4] nodes_okD(5) [OF Cons.prems(2), of y]
      nodes_okD(6) [OF Cons.prems(2), of n] that by auto
  have dp: "deeper sd ?s ns = deeper sd s ns"
    by (rule deeper_cong(1)) (use cell in \<open>simp add: get_depth_def mn_w2_def set_readonly_def\<close>)
  show ?case
  proof (cases "sd < get_depth x s")
    case False
    then have "pg ` set (n # deeper sd s (x # ns)) = {pg n}" by (simp add: deeper_def)
    then show ?thesis using e False by (simp only: set_readonly_mem protect_singleton if_False)
  next
    case True
    have "flush_loop sd t fa v' ?s = Ok (0, ?s\<lparr>mem := protect (pg ` set (x # deeper sd ?s ns)) (mem ?s)\<rparr>)"
      by (rule Cons.IH [OF r(1) nodes_ok_tl [OF r(1,2)] ml at md'])
    moreover have "protect (pg ` set (x # deeper sd s ns)) (mem ?s) = protect (pg ` set (n # x # deeper sd s ns)) (mem s)"
      by (auto simp: protect_def set_readonly_def fun_eq_iff and.assoc)
    ultimately show ?thesis using e True dp by (simp add: deeper_def set_readonly_mem)
  qed
qed


section \<open>Flushing\<close>

text \<open>The nodes that a flush of \<open>f\<close> in the given mode is about: \<open>f\<close> itself only in the mode for all spaces.\<close>

definition victims :: "dword_t \<Rightarrow> ptr_t \<Rightarrow> ptr_t list \<Rightarrow> 'a kmem_scheme \<Rightarrow> ptr_t list" where
  "victims mode f ns s =
     (if mode AND MDB_ALL_SPACES \<noteq> 0 then [f] else []) @ deeper (get_depth f s) s ns"

definition survivors :: "dword_t \<Rightarrow> ptr_t \<Rightarrow> ptr_t list \<Rightarrow> 'a kmem_scheme \<Rightarrow> ptr_t list" where
  "survivors mode f ns s =
     (if mode AND MDB_ALL_SPACES \<noteq> 0 then [] else [f]) @ beyond (get_depth f s) s ns"

lemma deeper_beyond: "deeper sd s ns @ beyond sd s ns = ns"
  by (simp add: deeper_def beyond_def)

lemma flush_frame_cell4:
  assumes ok: "mdb_ok s U H" and nd: "nodes_ok s U H pg pr ns" and fr: "flush_frame pg pr ns vs (U(0 := U 0 - set vs)) H s s'"
    and vs: "set vs \<subseteq> set ns" and x: "x \<in> set ns - set vs"
  shows "mem s' (x + 4) = mem s (x + 4)"
proof -
  have xU: "x \<in> U 0" using nodes_okD(5) [OF nd, of x] x by auto
  note sz = nodes_okD(2) [OF nd]
  have inH: "x + 4 \<in> H" by (rule node_cell(2) [OF ok sz xU]) simp
  have "x + 4 \<in> block x (unat (bl_size (mdb_buflists s ! 0)))"
    using used_cell(1) [OF ok xU, of 4] sz by (simp add: sizeof_mnode_t_def)
  then have "x + 4 \<in> used_area s (U(0 := U 0 - set vs))"
    using xU x nodes_okD(4) [OF nd] unfolding used_area_def by (auto intro!: bexI [of _ 0] bexI [of _ x])
  moreover have "x + 4 \<noteq> link_cell pr" using link_cell_ne [OF ok nd, of x 4] x by auto
  moreover have "x + 4 \<notin> set ns"
  proof
    assume "x + 4 \<in> set ns"
    then have "x + 4 \<in> U 0" using nodes_okD(5) [OF nd, of "x + 4"] by simp
    then show False using node_cells_eq [OF ok sz xU, of "x + 4" 4 0] by simp
  qed
  moreover have "x + 4 \<notin> pg_cells pg vs"
    using nodes_okD(6) [OF nd] vs inH by (auto simp: pg_cells_def)
  ultimately show ?thesis using fr unfolding flush_frame_def by blast
qed

definition flush_start :: "ptr_t \<Rightarrow> ptr_t \<Rightarrow> nat \<Rightarrow> dword_t \<Rightarrow> flush_t" where
  "flush_start f g sz mode =
     \<lparr>fl_map = f, fl_pg = g, fl_pgsize = mdb_pgsize sz, fl_pmap = NULL, fl_proot = NULL,
      fl_nmap = NULL, fl_dual = NULL, fl_root = NULL, fl_rcnt = 0, fl_mode = mode,
      fl_rnmap = (\<lambda>_. 0), fl_rroot = (\<lambda>_. 0), fl_rrcnt = (\<lambda>_. 0), fl_rprev = (\<lambda>_. 0)\<rparr>"

lemma mdb_flush_start:
  "mdb_flush f g fsz fa tsz mode s = flush_loop (get_depth f s) (mdb_pgsize tsz) fa (flush_start f g fsz mode) s"
  by (simp add: mdb_flush_def flush_start_def)

lemma at_start: "mdb_pgsize fsz \<le> mdb_pgsize tsz \<Longrightarrow> at_node (mdb_pgsize tsz) pg f (flush_start f (pg f) fsz mode)"
  by (simp add: at_node_def flush_start_def)

lemma pass_start:
  fixes s :: "'a mdb_mem_scheme"
  assumes "mdb_ok s U H" and "nodes_ok s U H pg pr (f # ns)" and "mlist (mem s) pg pr (f # ns)"
    and sz: "mdb_pgsize fsz \<le> mdb_pgsize tsz" and md: "\<not> mode AND MDB_ALL_SPACES \<noteq> 0"
  shows "\<exists>v'. flush_loop sd (mdb_pgsize tsz) fa (flush_start f (pg f) fsz mode) s =
      (if ns \<noteq> [] \<and> sd < get_depth (hd ns) s then flush_loop sd (mdb_pgsize tsz) fa v' s else Ok (0, s)) \<and>
    (ns \<noteq> [] \<longrightarrow> at_node (mdb_pgsize tsz) pg (hd ns) v') \<and> fl_mode v' = mode OR MDB_ALL_SPACES"
proof -
  have p: "passed (flush_start f (pg f) fsz mode) (pg f) s = s" "\<not> removing (flush_start f (pg f) fsz mode)"
    "fl_mode (flush_start f (pg f) fsz mode) = mode"
    using md by (simp_all add: passed_def removing_def flush_start_def)
  show ?thesis using pass_one [OF assms(1-3) at_start [OF sz] p(2), of sd fa] unfolding p by blast
qed

text \<open>Without the flush bit \<open>mdb_flush\<close> ends and write-protects exactly the page table
  entries of the mappings derived from \<open>f\<close>, and in the mode for all spaces that of \<open>f\<close> too; nothing else in memory
  changes.\<close>

theorem mdb_flush_protects:
  fixes s :: "'a mdb_mem_scheme"
  assumes ok: "mdb_ok s U H" and nd: "nodes_ok s U H pg pr (f # ns)" and ml: "mlist (mem s) pg pr (f # ns)"
    and sz: "mdb_pgsize fsz \<le> mdb_pgsize tsz" and md: "mode AND MDB_FLUSH = 0"
  shows "mdb_flush f (pg f) fsz fa tsz mode s =
    Ok (0, s\<lparr>mem := protect (pg ` set (victims mode f ns s)) (mem s)\<rparr>)"
proof (cases "mode AND MDB_ALL_SPACES \<noteq> 0")
  case True
  then show ?thesis
    unfolding mdb_flush_start using protect_list [OF ok nd ml at_start [OF sz], of mode "get_depth f s" fa] md
    by (simp add: victims_def flush_start_def)
next
  case False
  let ?d = "get_depth f s" and ?t = "mdb_pgsize tsz" and ?v = "flush_start f (pg f) fsz mode"
  obtain v' where e: "flush_loop ?d ?t fa ?v s =
      (if ns \<noteq> [] \<and> ?d < get_depth (hd ns) s then flush_loop ?d ?t fa v' s else Ok (0, s))"
    and v': "ns \<noteq> [] \<longrightarrow> at_node ?t pg (hd ns) v'" "fl_mode v' = mode OR MDB_ALL_SPACES"
    using pass_start [OF ok nd ml sz] False by blast
  show ?thesis
  proof (cases "ns \<noteq> [] \<and> ?d < get_depth (hd ns) s")
    case True
    then obtain x xs where ns: "ns = x # xs" "?d < get_depth x s" by (cases ns) auto
    have md': "fl_mode v' AND MDB_ALL_SPACES \<noteq> 0" "fl_mode v' AND MDB_FLUSH = 0"
      using md all_mode [of mode] unfolding v'(2) by simp_all
    have "flush_loop ?d ?t fa v' s = Ok (0, s\<lparr>mem := protect (pg ` set (x # deeper ?d s xs)) (mem s)\<rparr>)"
      by (rule protect_list [OF ok]) (use nodes_ok_tl [OF ok nd] ml v' md' ns in auto)
    then show ?thesis using e True False ns unfolding mdb_flush_start by (simp add: victims_def deeper_def)
  next
    case none: False
    then have "deeper ?d s ns = []" by (cases ns) (auto simp: deeper_def)
    then show ?thesis using e none False unfolding mdb_flush_start by (simp add: victims_def protect_def)
  qed
qed


text \<open>A flush of the nodes behind \<open>f\<close> leaves the link to \<open>f\<close> and its first word alone.\<close>

lemma keep_front:
  assumes ok: "mdb_ok s U H" and nd: "nodes_ok s U H pg pr (f # ns)" and ml: "mlist (mem s) pg pr (f # ns)"
    and vs: "set vs \<subseteq> set ns" and fr: "flush_frame pg (PM f) ns vs (U(0 := U 0 - set vs)) H s s'"
    and rest: "mlist (mem s') pg (PM f) rs"
  shows "mlist (mem s') pg pr (f # rs)" and "mem s' (f + 4) = mem s (f + 4)"
    and "\<forall>a. a \<notin> H \<longrightarrow> a \<notin> pg_cells pg vs \<longrightarrow> mem s' a = mem s a"
proof -
  note sz = nodes_okD(2) [OF nd]
  have f: "f \<in> U 0" "f \<notin> set vs" using nodes_okD(1) [OF nd] nodes_okD(5) [OF nd, of f] vs by auto
  have nU: "x \<in> U 0" if "x \<in> set ns" for x using nodes_okD(5) [OF nd, of x] that by simp
  have pgv: "a \<notin> H \<and> a \<noteq> link_cell pr" if "a \<in> pg_cells pg vs" for a
    using nodes_okD(6) [OF nd] vs that by (auto simp: pg_cells_def)
  have ns: "a \<in> H" if "a \<in> set ns" for a using node_cell(2) [OF ok sz nU [OF that], of 0] by simp
  have f8: "f + 8 \<in> H" using node_cell(2) [OF ok sz f(1), of 8] by simp
  have same: "mem s' a = mem s a"
    if "a \<notin> H \<or> a \<in> used_area s (U(0 := U 0 - set vs))" "a \<noteq> f + 8" "a \<notin> set ns" "a \<notin> pg_cells pg vs" for a
    using fr that unfolding flush_frame_def by auto
  show "\<forall>a. a \<notin> H \<longrightarrow> a \<notin> pg_cells pg vs \<longrightarrow> mem s' a = mem s a"
    using same ns f8 by blast
  have cell: "mem s' (f + c) = mem s (f + c)" if c: "unat c < 12" "c \<noteq> 8" for c
  proof (rule same)
    have "f + c \<in> block f (unat (bl_size (mdb_buflists s ! 0)))"
      using used_cell(1) [OF ok f(1), of c] c sz by (simp add: sizeof_mnode_t_def)
    then show "f + c \<notin> H \<or> f + c \<in> used_area s (U(0 := U 0 - set vs))"
      using f nodes_okD(4) [OF nd] unfolding used_area_def by (auto intro!: bexI [of _ 0] bexI [of _ f])
    show "f + c \<noteq> f + 8" using c by simp
    show "f + c \<notin> set ns"
    proof
      assume x: "f + c \<in> set ns"
      show False using node_cells_eq [OF ok sz f(1) nU [OF x], of c 0] c x nodes_okD(1) [OF nd] by auto
    qed
    show "f + c \<notin> pg_cells pg vs" using pgv node_cell(2) [OF ok sz f(1) c(1)] by blast
  qed
  show "mem s' (f + 4) = mem s (f + 4)" by (rule cell) simp_all
  have "mem s' (link_cell pr) = mem s (link_cell pr)"
  proof (rule same)
    have "link_cell pr \<in> used_area s (U(0 := U 0 - set vs))" if "link_cell pr \<in> H"
    proof (cases pr)
      case (PM p)
      then have p: "p \<in> U 0" "p \<notin> set vs" using nodes_okD(3) [OF nd] vs that by auto
      have "p + 8 \<in> block p (unat (bl_size (mdb_buflists s ! 0)))"
        using used_cell(1) [OF ok p(1), of 8] sz by (simp add: sizeof_mnode_t_def)
      then show ?thesis using p PM nodes_okD(4) [OF nd] unfolding used_area_def
        by (auto intro!: bexI [of _ 0] bexI [of _ p])
    next
      case (PR r)
      then show ?thesis using nodes_okD(3) [OF nd] that by simp
    qed
    then show "link_cell pr \<notin> H \<or> link_cell pr \<in> used_area s (U(0 := U 0 - set vs))" by blast
    show "link_cell pr \<noteq> f + 8" using link_cell_ne [OF ok nd, of f 8] by simp
    show "link_cell pr \<notin> set ns" using link_cell_ne [OF ok nd, of _ 0] by auto
    show "link_cell pr \<notin> pg_cells pg vs" using pgv by blast
  qed
  then show "mlist (mem s') pg pr (f # rs)" using ml rest cell [of 0] by (cases pr) auto
qed

lemma mdb_flush_step:
  fixes s :: "'a mdb_mem_scheme"
  assumes ok: "mdb_ok s U H" and nd: "nodes_ok s U H pg pr (f # ns)" and ml: "mlist (mem s) pg pr (f # ns)"
    and sz: "mdb_pgsize fsz \<le> mdb_pgsize tsz" and md: "mode AND MDB_FLUSH \<noteq> 0"
  shows "\<exists>s'. mdb_flush f (pg f) fsz fa tsz mode s = Ok (0, s') \<and>
    mdb_ok s' (U(0 := U 0 - set (victims mode f ns s))) H \<and> mlist (mem s') pg pr (survivors mode f ns s) \<and>
    (\<forall>x\<in>set (victims mode f ns s). mem s' (pg x) = 0 \<and> GET_MAPNODE (pg x) s' = 0) \<and>
    (\<forall>x\<in>set (survivors mode f ns s). mem s' (x + 4) = mem s (x + 4)) \<and>
    (\<forall>a. a \<notin> H \<longrightarrow> a \<noteq> link_cell pr \<longrightarrow> a \<notin> pg_cells pg (victims mode f ns s) \<longrightarrow> mem s' a = mem s a)"
proof -
  let ?d = "get_depth f s" and ?t = "mdb_pgsize tsz" and ?v = "flush_start f (pg f) fsz mode"
  have cells: "mem s' (pg x) = 0 \<and> GET_MAPNODE (pg x) s' = 0" if "\<forall>a\<in>pg_cells pg vs. mem s' a = 0" "x \<in> set vs"
    for vs x and s' :: "'a mdb_mem_scheme" using that by (auto simp: pg_cells_def GET_MAPNODE_def)
  have split: "set ns = set (deeper ?d s ns) \<union> set (beyond ?d s ns)" "set (deeper ?d s ns) \<inter> set (beyond ?d s ns) = {}"
    using nodes_okD(1) [OF nd] deeper_beyond [of ?d s ns] by (metis set_append, metis distinct.simps(2) distinct_append)
  show ?thesis
  proof (cases "mode AND MDB_ALL_SPACES \<noteq> 0")
    case True
    let ?vs = "f # deeper ?d s ns"
    have rm: "removing ?v" using True md by (simp add: removing_def flush_start_def)
    obtain s' where s': "flush_loop ?d ?t fa ?v s = Ok (0, s')" "mdb_ok s' (U(0 := U 0 - set ?vs)) H"
      "mlist (mem s') pg pr (beyond ?d s ns)" "\<forall>a\<in>pg_cells pg ?vs. mem s' a = 0"
      "flush_frame pg pr (f # ns) ?vs (U(0 := U 0 - set ?vs)) H s s'"
      using flush_list [OF ok nd ml at_start [OF sz] rm] by blast
    have vs: "victims mode f ns s = ?vs" "survivors mode f ns s = beyond ?d s ns"
      using True by (simp_all add: victims_def survivors_def)
    have "f \<notin> set ns" using nodes_okD(1) [OF nd] by simp
    then have keep: "\<forall>x\<in>set (beyond ?d s ns). mem s' (x + 4) = mem s (x + 4)"
      using flush_frame_cell4 [OF ok nd s'(5)] split by auto
    have nsH: "a \<in> H" if "a \<in> set (f # ns)" for a
      using node_cell(2) [OF ok nodes_okD(2) [OF nd], of a 0] nodes_okD(5) [OF nd that] by simp
    have out: "\<forall>a. a \<notin> H \<longrightarrow> a \<noteq> link_cell pr \<longrightarrow> a \<notin> pg_cells pg ?vs \<longrightarrow> mem s' a = mem s a"
      using s'(5) nsH unfolding flush_frame_def by blast
    show ?thesis unfolding vs mdb_flush_start
      by (rule exI [of _ s'], intro conjI ballI s'(1-3) cells [OF s'(4)] out) (use keep in blast)+
  next
    case False
    have vs: "victims mode f ns s = deeper ?d s ns" "survivors mode f ns s = f # beyond ?d s ns"
      using False by (simp_all add: victims_def survivors_def)
    obtain v' where e: "flush_loop ?d ?t fa ?v s =
        (if ns \<noteq> [] \<and> ?d < get_depth (hd ns) s then flush_loop ?d ?t fa v' s else Ok (0, s))"
      and v': "ns \<noteq> [] \<longrightarrow> at_node ?t pg (hd ns) v'" "fl_mode v' = mode OR MDB_ALL_SPACES"
      using pass_start [OF ok nd ml sz] False by blast
    show ?thesis
    proof (cases "ns \<noteq> [] \<and> ?d < get_depth (hd ns) s")
      case True
      then obtain x xs where ns: "ns = x # xs" "?d < get_depth x s" by (cases ns) auto
      let ?vs = "x # deeper ?d s xs"
      have dn: "deeper ?d s ns = ?vs" "beyond ?d s ns = beyond ?d s xs" using ns by (simp_all add: deeper_def beyond_def)
      have nd': "nodes_ok s U H pg (PM f) ns" by (rule nodes_ok_tl [OF ok nd])
      have rm: "removing v'" using md all_mode [of mode] unfolding removing_def v'(2) by simp
      obtain s' where s': "flush_loop ?d ?t fa v' s = Ok (0, s')" "mdb_ok s' (U(0 := U 0 - set ?vs)) H"
        "mlist (mem s') pg (PM f) (beyond ?d s xs)" "\<forall>a\<in>pg_cells pg ?vs. mem s' a = 0"
        "flush_frame pg (PM f) ns ?vs (U(0 := U 0 - set ?vs)) H s s'"
        using flush_list [OF ok nd' [unfolded ns(1)] _ _ rm, of ?t ?d fa] ml v'(1) unfolding ns(1) by auto
      note s'' = s' [folded dn]
      have sub: "set (deeper ?d s ns) \<subseteq> set ns" using split(1) by blast
      note kf = keep_front [OF ok nd ml sub s''(5,3)]
      have keep: "mem s' (y + 4) = mem s (y + 4)" if "y \<in> set (f # beyond ?d s ns)" for y
        using flush_frame_cell4 [OF ok nd' s''(5) sub, of y] kf(2) split that by auto
      show ?thesis unfolding vs mdb_flush_start
        by (rule exI [of _ s'], intro conjI ballI kf(1) cells [OF s''(4)] s''(2))
          (use e True s'(1) keep kf(3) in auto)
    next
      case none: False
      then have dn: "deeper ?d s ns = []" "beyond ?d s ns = ns" by (cases ns; auto simp: deeper_def beyond_def)+
      have "U(0 := U 0 - set []) = U" by auto
      then show ?thesis unfolding vs dn mdb_flush_start using e none ok ml by (intro exI [of _ s]) (simp only:, simp)
    qed
  qed
qed


text \<open>\<^bold>\<open>C4.\<close> With the flush bit \<open>mdb_flush\<close> ends and removes exactly the mappings derived from \<open>f\<close>,
  and in the mode for all spaces \<open>f\<close> too: their page table entries and the words for their nodes are cleared, their
  nodes are freed, and the list of the remaining nodes is well-formed. The depths and spaces of the remaining nodes and all
  memory outside the heap, up to the link in front, are unchanged.\<close>

theorem mdb_flush_removes:
  fixes s :: "'a mdb_mem_scheme"
  assumes ok: "mdb_ok s U H" and nd: "nodes_ok s U H pg pr (f # ns)" and ml: "mlist (mem s) pg pr (f # ns)"
    and sz: "mdb_pgsize fsz \<le> mdb_pgsize tsz" and md: "mode AND MDB_FLUSH \<noteq> 0"
  shows "\<exists>s'. mdb_flush f (pg f) fsz fa tsz mode s = Ok (0, s') \<and>
    mdb_ok s' (U(0 := U 0 - set (victims mode f ns s))) H \<and> mlist (mem s') pg pr (survivors mode f ns s) \<and>
    (\<forall>x\<in>set (victims mode f ns s). mem s' (pg x) = 0 \<and> GET_MAPNODE (pg x) s' = 0) \<and>
    (\<forall>x\<in>set (survivors mode f ns s). mem s' (x + 4) = mem s (x + 4)) \<and>
    (\<forall>a. a \<notin> H \<longrightarrow> a \<noteq> link_cell pr \<longrightarrow> a \<notin> pg_cells pg (victims mode f ns s) \<longrightarrow> mem s' a = mem s a)"
  using mdb_flush_step [OF assms] by blast

section \<open>An example\<close>

text \<open>A page of mapping nodes of which all but the last are in use. The list below the root node at \<open>0x00200000\<close> has a node of depth 1,
  a mapping derived from it, and another node of depth 1.\<close>

definition demo_tree :: mdb_mem where
  "demo_tree = demo_mdb_ready\<lparr>mem := (\<lambda>_. 0)(0xF0100000 := 0xF0100FF4, 0xF0100004 := 1,
       0x00200000 := 0xF010001C,
       0xF010001C := (0x00200000 XOR 0x00300000) OR 1, 0xF0100020 := 0x00400001, 0xF0100024 := 0xF0100028,
       0xF0100028 := 0xF010001C XOR 0x00300004, 0xF010002C := 0x00500002, 0xF0100030 := 0xF0100034,
       0xF0100034 := 0xF0100028 XOR 0x00300008, 0xF0100038 := 0x00600001,
       0x00300000 := 0x00700007, 0x00300004 := 0x00700007, 0x00300008 := 0x00700007),
     kmem_free_list := NULL, free_chunks := 0,
     mdb_buflists := (mdb_buflists demo_mdb_ready)[0 := \<lparr>bl_size = 12, list_of_lists = 0xF0100000, max_free = 339\<rparr>]\<rparr>"

definition demo_pg :: "ptr_t \<Rightarrow> ptr_t" where
  "demo_pg n = (if n = 0xF010001C then 0x00300000 else if n = 0xF0100028 then 0x00300004 else 0x00300008)"

definition demo_used :: "nat \<Rightarrow> ptr_t set" where
  "demo_used = (\<lambda>_. {})(0 := set (slots 0xF0100000 12 339) - {0xF0100FF4})"

lemma demo_slots:
  "slot 0xF0100000 12 339 0 = 0xF010001C" "slot 0xF0100000 12 339 1 = 0xF0100028" "slot 0xF0100000 12 339 2 = 0xF0100034"
  "slot 0xF0100000 12 339 338 = 0xF0100FF4"
  by (simp_all add: slot_def)

lemma demo_used_nodes: "0xF010001C \<in> demo_used 0" "0xF0100028 \<in> demo_used 0" "0xF0100034 \<in> demo_used 0"
  "0xF0100FF4 \<in> set (slots 0xF0100000 12 339)"
proof -
  have "slot 0xF0100000 12 339 k \<in> set (slots 0xF0100000 12 339)" if "k < 339" for k
    using that by (simp add: slots_def)
  from this [of 0] this [of 1] this [of 2] this [of 338]
  show "0xF010001C \<in> demo_used 0" "0xF0100028 \<in> demo_used 0" "0xF0100034 \<in> demo_used 0"
    "0xF0100FF4 \<in> set (slots 0xF0100000 12 339)"
    unfolding demo_slots demo_used_def by simp_all
qed

lemma demo_tree_ok: "mdb_ok demo_tree demo_used (block 0xF0100000 4096)"
proof -
  let ?P = "\<lambda>i. if i = (0 :: nat) then [0xF0100000 :: ptr_t] else []" and ?fl = "\<lambda>_ :: ptr_t. [0xF0100FF4 :: ptr_t]"
  have "mdb_inv demo_tree [] ?P (\<lambda>_. []) ?fl"
    unfolding mdb_inv_def
  proof (intro conjI allI impI)
    show "pools_ok demo_tree i (?P i) [] ?fl" if "small_bl demo_tree i" for i
      using that demo_used_nodes(4) by (auto simp: demo_tree_def demo_mdb_ready_def small_bl_def pools_ok_def fits_def pool_page_def
          page_aligned_def MDB_ALLOC_CHUNKSZ_def less_Suc_eq nth_Cons')
    show "?P i = []" if "\<not> small_bl demo_tree i" for i
      using that by (cases i) (auto simp: demo_tree_def demo_mdb_ready_def small_bl_def MDB_ALLOC_CHUNKSZ_def)
  qed (auto simp: kmem_inv_def demo_tree_def demo_mdb_ready_def)
  moreover have "in_use demo_tree ?P (\<lambda>_. []) ?fl = demo_used"
    by (rule ext) (auto simp: in_use_def demo_tree_def demo_mdb_ready_def demo_used_def)
  moreover have "heap_area [] ?P (\<lambda>_. []) = block 0xF0100000 4096" by (auto simp: heap_area_def)
  ultimately show ?thesis unfolding mdb_ok_def by metis
qed

lemma demo_tree_nodes:
  "nodes_ok demo_tree demo_used (block 0xF0100000 4096) demo_pg (PR 0x00200000) [0xF010001C, 0xF0100028, 0xF0100034]"
  "mlist (mem demo_tree) demo_pg (PR 0x00200000) [0xF010001C, 0xF0100028, 0xF0100034]"
proof -
  show "nodes_ok demo_tree demo_used (block 0xF0100000 4096) demo_pg (PR 0x00200000) [0xF010001C, 0xF0100028, 0xF0100034]"
    unfolding nodes_ok_def using demo_used_nodes
    by (auto simp: demo_tree_def demo_mdb_ready_def sizeof_mnode_t_def word_aligned_def block_def pg_cells_def demo_pg_def PAGE_SIZE_def)
  show "mlist (mem demo_tree) demo_pg (PR 0x00200000) [0xF010001C, 0xF0100028, 0xF0100034]"
    by (simp add: demo_tree_def demo_pg_def MDB_RPTR_MASK_def MDB_RNEXT_ROOT_def MDB_PREV_ROOT_def)
qed

lemma demo_victims:
  "victims 0x80000002 0xF010001C [0xF0100028, 0xF0100034] demo_tree = [0xF010001C, 0xF0100028]"
  "survivors 0x80000002 0xF010001C [0xF0100028, 0xF0100034] demo_tree = [0xF0100034]"
  "victims 0 0xF010001C [0xF0100028, 0xF0100034] demo_tree = [0xF0100028]"
  by (simp_all add: victims_def survivors_def deeper_def beyond_def demo_tree_def get_depth_def mn_w2_def MDB_DEPTH_MASK_def
      MDB_ALL_SPACES_def)

theorem mdb_flush_removes_witness:
  "\<exists>s'. mdb_flush 0xF010001C 0x00300000 0 0 0 0x80000002 demo_tree = Ok (0, s') \<and>
     mlist (mem s') demo_pg (PR 0x00200000) [0xF0100034] \<and> mem s' 0x00300000 = 0 \<and> mem s' 0x00300004 = 0"
proof -
  have "\<exists>s'. mdb_flush 0xF010001C (demo_pg 0xF010001C) 0 0 0 0x80000002 demo_tree = Ok (0, s') \<and>
     mlist (mem s') demo_pg (PR 0x00200000) [0xF0100034] \<and> (\<forall>x\<in>set [0xF010001C, 0xF0100028]. mem s' (demo_pg x) = 0)"
    using mdb_flush_removes [OF demo_tree_ok demo_tree_nodes, of 0 0 "0x80000002" 0, unfolded demo_victims]
    unfolding MDB_FLUSH_def by auto
  then show ?thesis by (simp add: demo_pg_def)
qed

theorem mdb_flush_protects_witness:
  "mdb_flush 0xF010001C 0x00300000 0 0 0 0 demo_tree =
     Ok (0, demo_tree\<lparr>mem := (mem demo_tree)(0x00300004 := 0x00700005)\<rparr>)"
proof -
  have p: "demo_pg 0xF010001C = 0x00300000" "demo_pg 0xF0100028 = 0x00300004" by (simp_all add: demo_pg_def)
  have m: "mem demo_tree 0x00300004 AND NOT PAGE_WRITABLE = 0x00700005" by (simp add: demo_tree_def PAGE_WRITABLE_def)
  have "mdb_flush 0xF010001C (demo_pg 0xF010001C) 0 0 0 0 demo_tree =
      Ok (0, demo_tree\<lparr>mem := protect (demo_pg ` {0xF0100028}) (mem demo_tree)\<rparr>)"
    using mdb_flush_protects [OF demo_tree_ok demo_tree_nodes, of 0 0 0 0, unfolded demo_victims] by simp
  then show ?thesis unfolding image_insert image_empty p protect_singleton m .
qed

end
