(* ===== verification/Mapping_Insert.thy ===== *)
theory Mapping_Insert
  imports Mapping_Tree
begin

text \<open>
  Inserting into the mapping database: a mapping of the same page size puts the new node directly behind its parent,
  one level deeper; a grant hands the parent's node over to the receiver.
\<close>

section \<open>Fresh nodes\<close>

lemma used_aligned:
  assumes ok: "mdb_ok s U H" and b: "b \<in> U i" and sz: "4 dvd unat (bl_size (mdb_buflists s ! i))"
  shows "word_aligned b" and "b \<noteq> NULL"
proof -
  obtain xs P F fl where inv: "mdb_inv s xs P F fl" and U: "U = in_use s P F fl"
    using ok by (auto simp: mdb_ok_def)
  let ?sz = "bl_size (mdb_buflists s ! i)" and ?mx = "max_free (mdb_buflists s ! i)"
  obtain f where f: "f \<in> set (P i @ F i)" "small_bl s i" "b \<in> set (slots f ?sz ?mx)"
    using in_use_page [OF inv] b U by blast
  note pk = mdb_invD(2) [OF inv f(2)]
  obtain k where k: "k < unat ?mx" "b = slot f ?sz ?mx k" using f(3) by (auto simp: slots_def)
  note u = unat_slot [OF pools_okD(7) [OF pk f(1)] pools_okD(1) [OF pk] k(1)]
  show "b \<noteq> NULL" using u(2) k(2) by auto
  have "4096 dvd unat f" using pools_okD(7) [OF pk f(1)] by (simp add: page_aligned_def)
  then have "4 dvd unat f" by (rule dvd_trans [rotated]) simp
  then have "4 dvd unat f + 4096 - unat ?mx * unat ?sz + k * unat ?sz"
    using sz by (intro dvd_add dvd_diff_nat dvd_mult) simp_all
  then have "unat b mod 4 = 0" using u(1) k(2) by simp
  moreover have "b AND 3 = b mod 4"
  proof -
    have "b AND mask 2 = take_bit 2 b" by (simp only: take_bit_eq_mask)
    then show ?thesis by (simp add: mask_eq_exp_minus_1 take_bit_eq_mod)
  qed
  ultimately show "word_aligned b" by (simp add: word_aligned_def word_unat_eq_iff unat_mod)
qed


lemma mlist_pg_cong: "mlist m pg pr ns \<Longrightarrow> \<forall>x\<in>set ns. pg' x = pg x \<Longrightarrow> mlist m pg' pr ns"
proof (induction ns arbitrary: pr)
  case (Cons n ns)
  then show ?case by (cases pr) auto
qed simp

section \<open>The same page size\<close>

definition new_w2 :: "ptr_t \<Rightarrow> ptr_t \<Rightarrow> ptr_t \<Rightarrow> 'a kmem_scheme \<Rightarrow> dword_t" where
  "new_w2 f m sp s = mn_w2 m (clear_locks m (set_depth m (get_depth f s + 1) (set_space m sp s)))"

lemma new_w2_fields:
  "new_w2 f m sp s AND MDB_DEPTH_MASK = (get_depth f s + 1) AND MDB_DEPTH_MASK" "new_w2 f m sp s AND MDB_SPACE_MASK = sp AND MDB_SPACE_MASK"
proof -
  let ?s = "clear_locks m (set_depth m (get_depth f s + 1) (set_space m sp s))"
  have "new_w2 f m sp s AND MDB_DEPTH_MASK = get_depth m ?s" "new_w2 f m sp s AND MDB_SPACE_MASK = get_space m ?s"
    unfolding new_w2_def get_depth_def [of m ?s] get_space_def [of m ?s] by (rule refl)+
  then show "new_w2 f m sp s AND MDB_DEPTH_MASK = (get_depth f s + 1) AND MDB_DEPTH_MASK" "new_w2 f m sp s AND MDB_SPACE_MASK = sp AND MDB_SPACE_MASK"
    by (simp_all only: space_depth)
qed

definition insert_cells ::
    "ptr_t \<Rightarrow> (ptr_t \<Rightarrow> ptr_t) \<Rightarrow> ptr_t \<Rightarrow> ptr_t \<Rightarrow> ptr_t list \<Rightarrow> dword_t \<Rightarrow> wmem \<Rightarrow> wmem" where
  "insert_cells f pg t_pg m ns w mm =
     (let mm = mm(m := f XOR t_pg, m + 4 := w, m + 8 := next_node ns, f + 8 := m)
      in if ns = [] then mm else mm(hd ns := m XOR pg (hd ns)))"

lemma map_same_mem:
  assumes ok: "mdb_ok s U H" and nd: "nodes_ok s U H pg pr (f # m # ns)" and hd: "ns \<noteq> [] \<longrightarrow> mem s (hd ns) = f XOR pg (hd ns)"
  shows "mdb_map_same f t_pg sp NULL (next_node ns) m s = s\<lparr>mem := insert_cells f pg t_pg m ns (new_w2 f m sp s) (mem s)\<rparr>"
proof -
  note sz = nodes_okD(2) [OF nd]
  have U: "x \<in> U 0" if "x \<in> set (f # m # ns)" for x using nodes_okD(5) [OF nd that] by simp
  have ne: "x + c = y + c' \<longleftrightarrow> x = y \<and> c = c'" if "x \<in> set (f # m # ns)" "y \<in> set (f # m # ns)" "unat c < 12" "unat c' < 12" for x y c c'
    by (rule node_cells_eq [OF ok sz U [OF that(1)] U [OF that(2)] that(3,4)])
  have d: "f \<noteq> m" "ns \<noteq> [] \<Longrightarrow> f \<noteq> hd ns \<and> m \<noteq> hd ns" using nodes_okD(1) [OF nd] by (cases ns; auto)+
  have c: "f + 4 \<noteq> m" "f + 4 \<noteq> m + 4" "m \<noteq> f + 8" "m + 4 \<noteq> f + 8" "m + 8 \<noteq> f + 8" "f + 8 \<noteq> m" "f + 8 \<noteq> m + 4" "f + 8 \<noteq> m + 8"
    using ne [of f m 4 0] ne [of f m 4 4] ne [of m f 0 8] ne [of m f 4 8] ne [of m f 8 8] d by auto
  have h: "hd ns \<noteq> m" "hd ns \<noteq> m + 4" "hd ns \<noteq> m + 8" "hd ns \<noteq> f + 8" if "ns \<noteq> []"
    using ne [of "hd ns" m 0 4] ne [of "hd ns" m 0 8] ne [of "hd ns" f 0 8] d(2) that by auto
  have n0: "ns \<noteq> [] \<Longrightarrow> hd ns \<noteq> NULL" using nodes_okD(5) [OF nd, of "hd ns"] by simp
  define s1 where "s1 = wr m (f XOR t_pg) s"
  have dp: "get_depth f (set_space m sp s1) = get_depth f s"
    using c by (simp add: get_depth_def set_space_def mn_w2_def s1_def)
  have w: "clear_locks m (set_depth m (get_depth f s + 1) (set_space m sp s1)) = wr (m + 4) (new_w2 f m sp s) s1"
    by (simp add: new_w2_def clear_locks_def set_depth_def set_space_def mn_w2_def s1_def wr_def)
  have e: "mdb_map_same f t_pg sp NULL (next_node ns) m s =
      (let s2 = set_next_m f m (set_next_m m (next_node ns) (wr (m + 4) (new_w2 f m sp s) s1)) in
       if next_node ns \<noteq> NULL then set_backlink_m (next_node ns) m (get_pgent_m (next_node ns) f s2) s2 else s2)"
    unfolding mdb_map_same_def Let_def set_backlink_m_def [of m f] s1_def [symmetric] dp w by simp
  show ?thesis
  proof (cases "ns = []")
    case True
    then show ?thesis unfolding e by (simp add: next_node_def insert_cells_def Let_def set_next_m_def s1_def wr_def)
  next
    case False
    then show ?thesis using h hd n0 unfolding e
      by (simp add: next_node_def insert_cells_def Let_def set_next_m_def set_backlink_m_def get_pgent_m_def mn_w1_def s1_def wr_def)
  qed
qed

lemma mlist_insert:
  assumes ok: "mdb_ok s U H" and nd: "nodes_ok s U H pg pr (f # m # ns)" and ml: "mlist (mem s) pg pr (f # ns)"
  shows "mlist (insert_cells f pg (pg m) m ns w (mem s)) pg pr (f # m # ns)"
    and "insert_cells f pg (pg m) m ns w (mem s) (m + 4) = w"
    and "\<forall>x\<in>set (f # ns). insert_cells f pg (pg m) m ns w (mem s) (x + 4) = mem s (x + 4)"
proof -
  let ?m = "insert_cells f pg (pg m) m ns w (mem s)"
  note sz = nodes_okD(2) [OF nd]
  have U: "x \<in> U 0" if "x \<in> set (f # m # ns)" for x using nodes_okD(5) [OF nd that] by simp
  have ne: "x + c = y + c' \<longleftrightarrow> x = y \<and> c = c'" if "x \<in> set (f # m # ns)" "y \<in> set (f # m # ns)" "unat c < 12" "unat c' < 12" for x y c c'
    by (rule node_cells_eq [OF ok sz U [OF that(1)] U [OF that(2)] that(3,4)])
  have d: "f \<noteq> m" "f \<notin> set ns" "m \<notin> set ns" "distinct ns" using nodes_okD(1) [OF nd] by auto
  have lc: "link_cell pr \<noteq> x + c" if "x \<in> set (f # m # ns)" "unat c < 12" for x c
    by (rule link_cell_ne [OF ok nd that])
  have m: "?m f = mem s f" "?m (f + 8) = m" "?m m = f XOR pg m" "?m (m + 8) = next_node ns"
    "ns \<noteq> [] \<Longrightarrow> ?m (hd ns) = m XOR pg (hd ns)"
    using d ne [of f m 0 4] ne [of f m 0 8] ne [of f f 0 8] ne [of m f 0 8] ne [of m m 0 4] ne [of m m 0 8] ne [of m f 8 8]
      ne [of "f" "hd ns" 8 0] ne [of m "hd ns" 8 0]
    by (cases ns; auto simp: insert_cells_def Let_def)+
  have l: "?m (link_cell pr) = mem s (link_cell pr)"
    using lc [of m 0] lc [of m 4] lc [of m 8] lc [of f 8] lc [of "hd ns" 0] by (cases ns) (auto simp: insert_cells_def Let_def)
  have rest: "?m (x + c) = mem s (x + c)" if x: "x \<in> set ns" "unat c < 12" "c = 0 \<longrightarrow> x \<noteq> hd ns" for x c
  proof -
    have "x + c \<noteq> m" "x + c \<noteq> m + 4" "x + c \<noteq> m + 8" "x + c \<noteq> f + 8" "x + c \<noteq> hd ns"
      using d x ne [of x m c 0] ne [of x m c 4] ne [of x m c 8] ne [of x f c 8] ne [of x "hd ns" c 0] by (cases ns; auto)+
    then show ?thesis by (simp add: insert_cells_def Let_def)
  qed
  have tl: "mlist ?m pg (PM m) ns"
  proof (cases ns)
    case Nil
    then show ?thesis using m(4) by (simp add: next_node_def)
  next
    case (Cons x xs)
    have "mlist ?m pg (PM x) xs"
    proof (rule mlist_frame [of "mem s"])
      show "mlist (mem s) pg (PM x) xs" using ml Cons by simp
      show "?m (link_cell (PM x)) = mem s (link_cell (PM x))" using rest [of x 8] Cons by simp
      show "\<forall>y\<in>set xs. ?m y = mem s y \<and> ?m (y + 8) = mem s (y + 8)"
        using rest [of _ 0] rest [of _ 8] Cons d(4) by auto
    qed
    then show ?thesis using m(4,5) Cons by (simp add: next_node_def)
  qed
  then show "mlist ?m pg pr (f # m # ns)" using ml m(1-3) l by (cases pr) auto
  show "?m (m + 4) = w"
    using d(1,3) ne [of m m 4 8] ne [of m f 4 8] ne [of m "hd ns" 4 0] by (cases ns) (auto simp: insert_cells_def Let_def)
  have "?m (f + 4) = mem s (f + 4)"
    using d(1,2) ne [of f m 4 0] ne [of f m 4 4] ne [of f m 4 8] ne [of f f 4 8] ne [of f "hd ns" 4 0]
    by (cases ns) (auto simp: insert_cells_def Let_def)
  then show "\<forall>x\<in>set (f # ns). ?m (x + 4) = mem s (x + 4)" using rest [of _ 4] by simp
qed


lemma link_cell_frame:
  assumes ok: "mdb_ok s U H" and nd: "nodes_ok s U H pg pr ns"
  shows "link_cell pr \<notin> H \<or> link_cell pr \<in> used_area s U"
proof (cases pr)
  case (PM p)
  have "p + 8 \<in> used_area s U" if "p \<in> U 0" by (rule node_cell(1) [OF ok nodes_okD(2) [OF nd] that]) simp
  then show ?thesis using nodes_okD(3) [OF nd] PM by auto
qed (use nodes_okD(3) [OF nd] in simp)

lemma fresh_node:
  fixes s :: "'a mdb_mem_scheme"
  assumes ok: "mdb_ok s U H" and nd: "nodes_ok s U H pg pr (f # ns)" and ml: "mlist (mem s) pg pr (f # ns)"
    and b: "b \<notin> U 0" and ok1: "mdb_ok s1 (U(0 := insert b (U 0))) H" and fr: "mdb_frame s s1 U H"
    and g: "word_aligned g" "g \<notin> H" "g + PAGE_SIZE \<notin> H" "g \<noteq> link_cell pr" "g + PAGE_SIZE \<noteq> link_cell pr"
  shows "nodes_ok s1 (U(0 := insert b (U 0))) H (pg(b := g)) pr (f # b # ns)"
    and "mlist (mem s1) (pg(b := g)) pr (f # ns)" and "\<forall>x\<in>set (f # ns). mem s1 (x + 4) = mem s (x + 4)"
proof -
  note sz = nodes_okD(2) [OF nd]
  have ne: "mdb_buflists s \<noteq> []" by (rule nodes_okD(4) [OF nd])
  have sl: "same_lists s s1" using fr by (simp add: mdb_frame_def)
  have s1: "mdb_buflists s1 \<noteq> []" "bl_size (mdb_buflists s1 ! 0) = sizeof_mnode_t"
    using sl ne sz by (auto simp: same_lists_def)
  have bU: "b \<in> (U(0 := insert b (U 0))) 0" by simp
  have al: "word_aligned b" "b \<noteq> NULL" using used_aligned [OF ok1 bU] s1(2) by (simp_all add: sizeof_mnode_t_def)
  have b8: "b + 8 \<in> H" using node_cell(2) [OF ok1 s1(2) bU, of 8] by simp
  have bn: "b \<notin> set (f # ns)" using nodes_okD(5) [OF nd, of b] b by blast
  have pr: "pred_ok (U(0 := insert b (U 0))) H pr (f # b # ns)"
    using nodes_okD(3) [OF nd] b b8 by (cases pr) auto
  have cells: "pg_cells (pg(b := g)) (f # b # ns) = {g, g + PAGE_SIZE} \<union> pg_cells pg (f # ns)"
    using bn by (auto simp: pg_cells_def)
  have "pg_cells pg (f # ns) \<inter> insert (link_cell pr) H = {}" using nd by (simp add: nodes_ok_def)
  then have c: "pg_cells (pg(b := g)) (f # b # ns) \<inter> insert (link_cell pr) H = {}"
    unfolding cells using g by blast
  show "nodes_ok s1 (U(0 := insert b (U 0))) H (pg(b := g)) pr (f # b # ns)"
    unfolding nodes_ok_def using s1 pr c al g(1) nodes_okD(5) [OF nd] nodes_okD(1) [OF nd] bn by auto
  have cell: "mem s1 (x + c) = mem s (x + c)" if "x \<in> set (f # ns)" "unat c < 12" for x c
    using fr node_cell(1) [OF ok sz _ that(2), of x] nodes_okD(5) [OF nd that(1)] by (auto simp: mdb_frame_def)
  show "\<forall>x\<in>set (f # ns). mem s1 (x + 4) = mem s (x + 4)" using cell [of _ 4] by simp
  have "mlist (mem s1) pg pr (f # ns)"
  proof (rule mlist_frame [OF ml])
    show "mem s1 (link_cell pr) = mem s (link_cell pr)"
      using fr link_cell_frame [OF ok nd] by (auto simp: mdb_frame_def)
    show "\<forall>x\<in>set (f # ns). mem s1 x = mem s x \<and> mem s1 (x + 8) = mem s (x + 8)"
      using cell [of _ 0] cell [of _ 8] by simp
  qed
  then show "mlist (mem s1) (pg(b := g)) pr (f # ns)" by (rule mlist_pg_cong) (use bn in auto)
qed

text \<open>The cells an insertion writes are cells of nodes.\<close>

lemma insert_cells_change:
  "insert_cells f pg g m ns w mm a \<noteq> mm a \<Longrightarrow> (\<exists>c. a = m + c \<and> unat c < 12) \<or> a = f + 8 \<or> a \<in> set ns"
proof -
  have "a = m + 0 \<or> a = m + 4 \<or> a = m + 8 \<or> a = f + 8 \<or> a \<in> set ns" if "insert_cells f pg g m ns w mm a \<noteq> mm a"
    using that by (cases ns) (auto simp: insert_cells_def Let_def split: if_splits)
  moreover have "unat (0 :: dword_t) < 12" "unat (4 :: dword_t) < 12" "unat (8 :: dword_t) < 12" by simp_all
  ultimately show "insert_cells f pg g m ns w mm a \<noteq> mm a \<Longrightarrow> ?thesis" by blast
qed

lemma mdb_map_step:
  fixes s :: "'a mdb_mem_scheme"
  assumes ok: "mdb_ok s U H" and nd: "nodes_ok s U H pg pr (f # ns)" and ml: "mlist (mem s) pg pr (f # ns)"
    and g: "word_aligned t_pg" "{t_pg, t_pg + PAGE_SIZE} \<inter> insert (link_cell pr) H = {}"
    and sz: "mdb_pgsize fsz = mdb_pgsize tsz" and map: "fa AND 1 = 0"
  shows "(\<exists>m s'. mdb_map f (pg f) fsz fa t_pg tsz t_space s = Ok (m, s') \<and> m \<notin> U 0 \<and>
      mdb_ok s' (U(0 := insert m (U 0))) H \<and> mlist (mem s') (pg(m := t_pg)) pr (f # m # ns) \<and> nodes_ok s' (U(0 := insert m (U 0))) H (pg(m := t_pg)) pr (f # m # ns) \<and>
      get_depth m s' = (get_depth f s + 1) AND MDB_DEPTH_MASK \<and> get_space m s' = t_space AND MDB_SPACE_MASK \<and>
      (\<forall>x\<in>set (f # ns). mem s' (x + 4) = mem s (x + 4)) \<and> (\<forall>a. a \<notin> H \<longrightarrow> mem s' a = mem s a)) \<or>
    (mdb_map f (pg f) fsz fa t_pg tsz t_space s = Err Null_deref \<and> list_of_lists (mdb_buflists s ! 0) = NULL \<and>
      (\<exists>s'. kmem_alloc MDB_ALLOC_CHUNKSZ s = Some (NULL, s')))"
proof -
  obtain bs where bs: "mdb_buflists s = bs" "bs \<noteq> []" "bl_size (bs ! 0) = sizeof_mnode_t"
    using nodes_okD(2,4) [OF nd] by simp
  have find: "find_buflist sizeof_mnode_t (mdb_buflists s) = Some 0"
    using bs by (cases bs) (auto simp: sizeof_mnode_t_def)
  have mn: "map_next f s = (NULL, next_node ns)"
    using ml mlist_points [of "mem s" pg "PM f" ns] next_aligned [OF nd] bit0_test [of "next_node ns"]
    by (simp add: map_next_def mnode_defs word_aligned_bits next_node_def)
  have e: "mdb_map f (pg f) fsz fa t_pg tsz t_space s = res_bind (mdb_alloc_buffer sizeof_mnode_t s)
      (\<lambda>(m, s). Ok (m, mdb_map_same f t_pg t_space NULL (next_node ns) m s))"
    using map sz by (simp add: mdb_map_def mn Let_def)
  from mdb_alloc_step [OF ok find] consider
      (ok) m s1 where "mdb_alloc_buffer sizeof_mnode_t s = Ok (m, s1)" "m \<notin> U 0" "mdb_ok s1 (U(0 := insert m (U 0))) H" "mdb_frame s s1 U H"
    | (no) "mdb_alloc_buffer sizeof_mnode_t s = Err Null_deref" "list_of_lists (mdb_buflists s ! 0) = NULL" "\<exists>s'. kmem_alloc MDB_ALLOC_CHUNKSZ s = Some (NULL, s')"
    by (auto simp: sizeof_mnode_t_def MDB_ALLOC_CHUNKSZ_def)
  then show ?thesis
  proof cases
    case no
    then show ?thesis unfolding e by simp
  next
    case (ok m s1)
    define V where "V = U(0 := insert m (U 0))"
    define pg' where "pg' = pg(m := t_pg)"
    note ok1 = ok(3) [folded V_def]
    have gs: "t_pg \<notin> H" "t_pg + PAGE_SIZE \<notin> H" "t_pg \<noteq> link_cell pr" "t_pg + PAGE_SIZE \<noteq> link_cell pr" and pm: "pg' m = t_pg"
      using g(2) by (auto simp: pg'_def)
    note fn = fresh_node [OF assms(1) nd ml ok(2-4) g(1) gs, folded pg'_def V_def]
    have U: "x \<in> V 0" if "x \<in> set (f # m # ns)" for x using nodes_okD(5) [OF fn(1) that] by simp
    note szm = nodes_okD(2) [OF fn(1)]
    define w where "w = new_w2 f m t_space s1"
    define s' where "s' = s1\<lparr>mem := insert_cells f pg' t_pg m ns w (mem s1)\<rparr>"
    note ins = mlist_insert [OF ok1 fn(1,2), of w, unfolded pm]
    have hd: "ns \<noteq> [] \<longrightarrow> mem s1 (hd ns) = f XOR pg' (hd ns)" using fn(2) by (cases ns) auto
    have r: "mdb_map f (pg f) fsz fa t_pg tsz t_space s = Ok (m, s')"
      unfolding e s'_def w_def using ok(1) map_same_mem [OF ok1 fn(1) hd] by simp
    have ch: "a \<in> used_area s1 V \<and> a \<in> H" if "insert_cells f pg' t_pg m ns w (mem s1) a \<noteq> mem s1 a" for a
      using insert_cells_change [OF that] node_cell [OF ok1 szm U, of m] node_cell [OF ok1 szm U, of f 8]
        node_cell [OF ok1 szm U, of a 0] by auto
    have d: "get_depth f s1 = get_depth f s" using fn(3) by (simp add: get_depth_def mn_w2_def)
    have w2: "mem s' (m + 4) = w" "\<forall>x\<in>set (f # ns). mem s' (x + 4) = mem s (x + 4)" using ins(2,3) fn(3) by (simp_all add: s'_def)
    have "get_depth m s' = (get_depth f s + 1) AND MDB_DEPTH_MASK" "get_space m s' = t_space AND MDB_SPACE_MASK"
      using new_w2_fields [of f m t_space s1] d w2(1) by (simp_all add: get_depth_def get_space_def mn_w2_def w_def)
    moreover have "mdb_ok s' V H" unfolding s'_def by (rule mdb_ok_writes [OF ok1]) (use ch in blast)
    moreover have "mlist (mem s') pg' pr (f # m # ns)" using ins(1) by (simp add: s'_def)
    moreover have "nodes_ok s' V H pg' pr (f # m # ns)" using fn(1) by (simp add: s'_def nodes_ok_def)
    moreover have "mem s' a = mem s a" if "a \<notin> H" for a
      using ch [of a] that ok(4) by (auto simp: s'_def mdb_frame_def)
    ultimately show ?thesis using r ok(2) w2(2) unfolding pg'_def V_def by blast
  qed
qed

text \<open>\<^bold>\<open>C5.\<close> Mapping a page with the same page size puts a new node directly behind the node of the mapper,
  one level deeper, for the receiver's space and page table entry, and adds exactly its buffer to the buffers in use;
  the other nodes keep their order, depths and spaces, and no memory outside the heap changes. It fails
  only when no buffer can be allocated.\<close>

theorem mdb_map_inserts:
  fixes s :: "'a mdb_mem_scheme"
  assumes ok: "mdb_ok s U H" and nd: "nodes_ok s U H pg pr (f # ns)" and ml: "mlist (mem s) pg pr (f # ns)"
    and g: "word_aligned t_pg" "{t_pg, t_pg + PAGE_SIZE} \<inter> insert (link_cell pr) H = {}"
    and sz: "mdb_pgsize fsz = mdb_pgsize tsz" and map: "fa AND 1 = 0"
  shows "(\<exists>m s'. mdb_map f (pg f) fsz fa t_pg tsz t_space s = Ok (m, s') \<and> m \<notin> U 0 \<and>
      mdb_ok s' (U(0 := insert m (U 0))) H \<and> mlist (mem s') (pg(m := t_pg)) pr (f # m # ns) \<and>
      get_depth m s' = (get_depth f s + 1) AND MDB_DEPTH_MASK \<and> get_space m s' = t_space AND MDB_SPACE_MASK \<and>
      (\<forall>x\<in>set (f # ns). mem s' (x + 4) = mem s (x + 4)) \<and> (\<forall>a. a \<notin> H \<longrightarrow> mem s' a = mem s a)) \<or>
    (mdb_map f (pg f) fsz fa t_pg tsz t_space s = Err Null_deref \<and> list_of_lists (mdb_buflists s ! 0) = NULL \<and>
      (\<exists>s'. kmem_alloc MDB_ALLOC_CHUNKSZ s = Some (NULL, s')))"
  using mdb_map_step [OF assms] by blast

section \<open>Granting\<close>

text \<open>A grant changes no links between nodes: the node of the granter stands for the receiver's
  page table entry and space afterwards and keeps its place and depth, all other nodes and all other memory are
  unchanged, and no buffer is allocated.\<close>

theorem mdb_map_grants:
  fixes s :: "'a mdb_mem_scheme"
  assumes ok: "mdb_ok s U H" and nd: "nodes_ok s U H pg pr (f # ns)" and ml: "mlist (mem s) pg pr (f # ns)"
    and g: "word_aligned t_pg" and grant: "fa AND 1 \<noteq> 0"
  shows "\<exists>s'. mdb_map f (pg f) fsz fa t_pg tsz t_space s = Ok (f, s') \<and> mdb_ok s' U H \<and>
    mlist (mem s') (pg(f := t_pg)) pr (f # ns) \<and>
    get_space f s' = t_space AND MDB_SPACE_MASK \<and> get_depth f s' = get_depth f s \<and>
    (\<forall>a. a \<noteq> f \<longrightarrow> a \<noteq> f + 4 \<longrightarrow> mem s' a = mem s a)"
proof -
  note sz = nodes_okD(2) [OF nd]
  have U: "x \<in> U 0" if "x \<in> set (f # ns)" for x using nodes_okD(5) [OF nd that] by simp
  define s1 where "s1 = wr f (backlink pr t_pg) s"
  define s' where "s' = set_space f t_space s1"
  have w1: "mem s f = backlink pr (pg f)" "word_aligned (pg f)" using ml nodes_okD(5) [OF nd, of f] by auto
  have e: "mdb_map f (pg f) fsz fa t_pg tsz t_space s = Ok (f, s')"
  proof (cases pr)
    case (PM p)
    then have p: "word_aligned p" using nodes_okD(3) [OF nd] by simp
    have "\<not> is_prev_root f s" "get_prevm f (pg f) s = p"
      using w1 PM p bit0_test [of "p XOR pg f"] word_aligned_xor [OF p w1(2)] by (simp_all add: mnode_defs word_aligned_bits)
    then show ?thesis using grant PM by (simp add: mdb_map_def mdb_grant_def s'_def s1_def set_backlink_m_def)
  next
    case (PR r)
    then have r: "word_aligned r" using nodes_okD(3) [OF nd] by simp
    have "is_prev_root f s" "get_prevr f (pg f) s = r"
      using w1 PR r root_bit_xor [OF r w1(2)] bit0_test [of "(r XOR pg f) OR 1"] by (simp_all add: mnode_defs bit_simps)
    then show ?thesis using grant PR by (simp add: mdb_map_def mdb_grant_def s'_def s1_def set_backlink_r_def)
  qed
  have ok': "mdb_ok s' U H"
    unfolding s'_def s1_def set_space_def
    by (intro mdb_ok_write ok) (use node_cell(1) [OF ok sz U [of f], of 0] node_cell(1) [OF ok sz U [of f], of 4] in \<open>auto simp: used_area_def\<close>)
  have ne: "x + c = y + c' \<longleftrightarrow> x = y \<and> c = c'" if "x \<in> set (f # ns)" "y \<in> set (f # ns)" "unat c < 12" "unat c' < 12" for x y c c'
    by (rule node_cells_eq [OF ok sz U [OF that(1)] U [OF that(2)] that(3,4)])
  have m: "mem s' a = mem s a" if "a \<noteq> f" "a \<noteq> f + 4" for a using that by (simp add: s'_def s1_def set_space_def)
  have f: "mem s' f = backlink pr t_pg" "f \<notin> set ns" using ne [of f f 0 4] nodes_okD(1) [OF nd] by (simp_all add: s'_def s1_def set_space_def)
  have "mlist (mem s') pg (PM f) ns"
  proof (rule mlist_frame [of "mem s"])
    show "mlist (mem s) pg (PM f) ns" using ml by simp
    show "mem s' (link_cell (PM f)) = mem s (link_cell (PM f))" by (rule m) simp_all
    show "\<forall>x\<in>set ns. mem s' x = mem s x \<and> mem s' (x + 8) = mem s (x + 8)"
    proof
      fix x assume "x \<in> set ns"
      then show "mem s' x = mem s x \<and> mem s' (x + 8) = mem s (x + 8)"
        using m [of x] m [of "x + 8"] ne [of x f 0 4] ne [of x f 8 0] ne [of x f 8 4] f(2) by auto
    qed
  qed
  then have "mlist (mem s') (pg(f := t_pg)) (PM f) ns" by (rule mlist_pg_cong) (use f(2) in auto)
  moreover have "points (mem s') pr f"
    using m [of "link_cell pr"] link_cell_ne [OF ok nd, of f 0] link_cell_ne [OF ok nd, of f 4] ml by (cases pr) auto
  ultimately have "mlist (mem s') (pg(f := t_pg)) pr (f # ns)" using f(1) by simp
  moreover have "get_space f s' = t_space AND MDB_SPACE_MASK" "get_depth f s' = get_depth f s"
    by (simp_all add: s'_def space_depth) (simp add: s1_def get_depth_def mn_w2_def)
  ultimately show ?thesis using e ok' m by blast
qed


section \<open>Examples\<close>

theorem mdb_map_inserts_witness:
  "\<exists>m s'. mdb_map 0xF010001C 0x00300000 0 0 0x0030000C 0 0x00800000 demo_tree = Ok (m, s') \<and>
     mlist (mem s') (demo_pg(m := 0x0030000C)) (PR 0x00200000) [0xF010001C, m, 0xF0100028, 0xF0100034] \<and>
     get_depth m s' = 2 \<and> get_space m s' = 0x00800000"
proof -
  have p: "demo_pg 0xF010001C = 0x00300000" by (simp add: demo_pg_def)
  have d: "(get_depth 0xF010001C demo_tree + 1) AND MDB_DEPTH_MASK = 2" "(0x00800000 :: dword_t) AND MDB_SPACE_MASK = 0x00800000"
    by (simp_all add: demo_tree_def get_depth_def mn_w2_def MDB_DEPTH_MASK_def MDB_SPACE_MASK_def)
  have g: "word_aligned 0x0030000C"
    "{0x0030000C, 0x0030000C + PAGE_SIZE} \<inter> insert (link_cell (PR 0x00200000)) (block 0xF0100000 4096) = {}"
    by (simp_all add: word_aligned_def block_def PAGE_SIZE_def)
  have "list_of_lists (mdb_buflists demo_tree ! 0) \<noteq> NULL" by (simp add: demo_tree_def demo_mdb_ready_def)
  then show ?thesis
    using mdb_map_inserts [OF demo_tree_ok demo_tree_nodes g, of 0 0 0 "0x00800000", unfolded p d] by auto
qed

theorem mdb_map_grants_witness:
  "\<exists>s'. mdb_map 0xF0100028 0x00300004 0 1 0x0030000C 0 0x00800000 demo_tree = Ok (0xF0100028, s') \<and>
     mlist (mem s') (demo_pg(0xF0100028 := 0x0030000C)) (PM 0xF010001C) [0xF0100028, 0xF0100034] \<and>
     get_space 0xF0100028 s' = 0x00800000"
proof -
  have p: "demo_pg 0xF0100028 = 0x00300004" "(0x00800000 :: dword_t) AND MDB_SPACE_MASK = 0x00800000"
    by (simp_all add: demo_pg_def MDB_SPACE_MASK_def)
  have ml: "mlist (mem demo_tree) demo_pg (PM 0xF010001C) [0xF0100028, 0xF0100034]" using demo_tree_nodes(2) by simp
  have al: "word_aligned 0x0030000C" "(1 :: dword_t) AND 1 \<noteq> 0" by (simp_all add: word_aligned_def)
  show ?thesis
    using mdb_map_grants [OF demo_tree_ok nodes_ok_tl [OF demo_tree_ok demo_tree_nodes(1)] ml al, of 0 0 "0x00800000", unfolded p]
    by auto
qed

end
