(* ===== verification/Mapping_Pieces.thy ===== *)
theory Mapping_Pieces
  imports Mapping_Tree
begin

text \<open>
  Withdrawing access rights from a page that is mapped on in smaller pieces. The pieces are in an array of root nodes behind the dual node of the
  page; \<open>mdb_flush\<close> is to visit the list of every entry. It goes back to the page's own list as soon as the list of
  one entry ends.
\<close>

lemma mdb_arraysize_0: "mdb_arraysize 0 = 1024"
  by (simp add: mdb_arraysize_def mdb_pgshifts_def)

lemma mdb_pgsize_1: "mdb_pgsize 1 = 1" "mdb_pgsize (Suc 0) = Suc 0"
  by (simp_all add: mdb_pgsize_def hw_pgshifts_def mdb_pgshifts_def)

lemma flush_loop_step:
  assumes "flush_node t (flush_neighbours v s) s = Ok (Some (v1, s1))" "flush_advance t fa v1 s1 = Ok (v2, s2)"
    "flush_roots v2 s2 = Ok (v3, s3)"
  shows "flush_loop sd t fa v s =
    (let v = (if fl_pgsize v3 \<le> t then v3\<lparr>fl_mode := fl_mode v3 OR MDB_ALL_SPACES\<rparr> else v3)
     in if fl_map v \<noteq> NULL \<and> get_depth (fl_map v) s3 > sd then flush_loop sd t fa v s3 else Ok (0, s3))"
  by (subst flush_loop.simps) (simp add: assms)

text \<open>The search in an array for the first entry, with number \<open>k\<close>, that has a mapping.\<close>

lemma flush_roots_first:
  assumes "fl_map v = NULL" and "\<forall>i<k. root_next (fl_root v + 4 * of_nat (Suc i)) s = (NULL, NULL)"
    and "root_next (fl_root v + 4 * of_nat (Suc k)) s = (NULL, a)" and "a \<noteq> NULL" and "k < unat (fl_rcnt v)"
  shows "flush_roots v s = Ok (v\<lparr>fl_rcnt := fl_rcnt v - of_nat (Suc k), fl_root := fl_root v + 4 * of_nat (Suc k), fl_dual := NULL, fl_map := a,
    fl_pg := get_pgent_r a (fl_root v + 4 * of_nat (Suc k)) s, fl_pmap := NULL, fl_proot := fl_root v + 4 * of_nat (Suc k)\<rparr>, s)"
  using assms
proof (induction k arbitrary: v)
  case 0
  then have "fl_rcnt v > 0" by (auto simp: word_less_nat_alt)
  then show ?case using 0 by (subst flush_roots.simps, simp add: sizeof_rnode_t_def, subst flush_roots.simps) simp
next
  case (Suc k)
  let ?v = "v\<lparr>fl_rcnt := fl_rcnt v - 1, fl_root := fl_root v + 4, fl_dual := NULL, fl_map := NULL\<rparr>"
  have "fl_rcnt v \<noteq> 0" using Suc.prems(5) by auto
  then have r: "fl_rcnt v > 0" "k < unat (fl_rcnt v - 1)" using Suc.prems(5) by (auto simp: word_less_nat_alt unat_minus_one)
  have "root_next (fl_root v + 4) s = (NULL, NULL)" using Suc.prems(2) by (auto dest: spec [of _ 0])
  then have "flush_roots v s = flush_roots ?v s" using r Suc.prems(1) by (subst flush_roots.simps) (simp add: sizeof_rnode_t_def)
  also have "\<dots> = Ok (?v\<lparr>fl_rcnt := fl_rcnt ?v - of_nat (Suc k), fl_root := fl_root ?v + 4 * of_nat (Suc k), fl_dual := NULL, fl_map := a,
      fl_pg := get_pgent_r a (fl_root ?v + 4 * of_nat (Suc k)) s, fl_pmap := NULL, fl_proot := fl_root ?v + 4 * of_nat (Suc k)\<rparr>, s)"
  proof (rule Suc.IH)
    show "\<forall>i<k. root_next (fl_root ?v + 4 * of_nat (Suc i)) s = (NULL, NULL)"
      using Suc.prems(2) by (auto simp: algebra_simps dest: spec [of _ "Suc _"])
  qed (use Suc.prems(3,4) r in \<open>simp_all add: algebra_simps\<close>)
  finally show ?case by (simp add: algebra_simps)
qed

text \<open>A page \<open>f\<close> with page table entry \<open>g\<close> that is mapped on in pieces: \<open>d\<close> is its dual node, \<open>array\<close> the array of its pieces,
  \<open>k\<close> the number of the first piece that is mapped, and \<open>a\<close>, with page table entry \<open>h\<close>, the only node for this piece. The
  page itself has no other mapping of its own size.\<close>

definition first_piece ::
    "'a kmem_scheme \<Rightarrow> ptr_t \<Rightarrow> ptr_t \<Rightarrow> ptr_t \<Rightarrow> ptr_t \<Rightarrow> ptr_t \<Rightarrow> nat \<Rightarrow> ptr_t \<Rightarrow> ptr_t \<Rightarrow> bool" where
  "first_piece s r f g d array k a h \<longleftrightarrow>
     word_aligned r \<and> word_aligned f \<and> word_aligned g \<and> word_aligned d \<and> word_aligned (array + 4 * of_nat k) \<and> word_aligned a \<and> word_aligned h \<and>
     f \<noteq> NULL \<and> d \<noteq> NULL \<and> array + 4 * of_nat k \<noteq> NULL \<and> a \<noteq> NULL \<and> k < 1024 \<and>
     mem s f = (r XOR g) OR MDB_PREV_ROOT \<and> mem s (f + 8) = d OR MDB_NEXT_ROOT \<and>
     mem s d = NULL \<and> mem s (d + 4) = array \<and>
     (\<forall>i<k. mem s (array + 4 * of_nat i) AND MDB_RPTR_MASK = NULL \<and> mem s (array + 4 * of_nat i) AND MDB_RNEXT_ROOT = 0) \<and>
     mem s (array + 4 * of_nat k) AND MDB_RPTR_MASK = a \<and> mem s (array + 4 * of_nat k) AND MDB_RNEXT_ROOT = 0 \<and>
     mem s a = ((array + 4 * of_nat k) XOR h) OR MDB_PREV_ROOT \<and> mem s (a + 8) = NULL \<and> get_depth f s < get_depth a s \<and>
     g \<notin> {d, d + 4, a, a + 4, a + 8} \<and> (\<forall>i\<le>k. g \<noteq> array + 4 * of_nat i)"

lemma first_piece_neighbours:
  assumes fp: "first_piece s r f g d array k a h" and v: "fl_map v = f" "fl_pg v = g"
  shows "flush_neighbours v s = v\<lparr>fl_dual := d, fl_nmap := NULL, fl_pmap := NULL, fl_proot := r\<rparr>"
proof -
  have al: "word_aligned r" "word_aligned g" "word_aligned d" and m: "mem s f = (r XOR g) OR 1" "mem s (f + 8) = d OR 1" "mem s d = NULL"
    using fp by (simp_all add: first_piece_def MDB_PREV_ROOT_def MDB_NEXT_ROOT_def)
  have "map_next f s = (d, NULL)"
    using m al bit0_test [of "d OR 1"] by (simp add: map_next_def mnode_defs dual_map_def bit_simps)
  moreover have "is_prev_root f s" "get_prevr f g s = r"
    using m al bit0_test [of "(r XOR g) OR 1"] root_bit_xor [of r g] by (simp_all add: mnode_defs bit_simps)
  ultimately show ?thesis using v by (simp add: flush_neighbours_def)
qed

text \<open>The only node \<open>a\<close> of a piece, in the list of the root node \<open>q\<close>, when the page itself has no other mapping: the loop
  ends with it, whatever the number of root nodes that are left.\<close>

lemma piece_done:
  assumes v: "fl_map v = a" "fl_pg v = h" "fl_pgsize v = 0" "fl_mode v AND MDB_ALL_SPACES \<noteq> 0" "fl_mode v AND MDB_FLUSH = 0"
    and r: "fl_root v = q" "q \<noteq> NULL" "fl_rnmap v 0 = NULL" "fl_rrcnt v 0 = 0"
    and a: "mem s a = (q XOR h) OR 1" "mem s (a + 8) = NULL" "word_aligned q" "word_aligned h"
  shows "flush_loop sd 1 fa v s = Ok (0, set_readonly h s)"
proof -
  have pa: "is_prev_root a s" "get_prevr a h s = q"
    using a root_bit_xor [of q h] bit0_test [of "(q XOR h) OR 1"] by (simp_all add: mnode_defs bit_simps)
  define v1 where "v1 = v\<lparr>fl_dual := NULL, fl_nmap := NULL, fl_pmap := a, fl_proot := NULL\<rparr>"
  have "map_next a s = (NULL, NULL)" using a(2) by (simp add: map_next_def mnode_defs)
  then have "flush_neighbours v s = v\<lparr>fl_dual := NULL, fl_nmap := NULL, fl_pmap := NULL, fl_proot := q\<rparr>"
    using v pa by (simp add: flush_neighbours_def)
  then have n: "flush_node 1 (flush_neighbours v s) s = Ok (Some (v1, set_readonly h s))" using v by (simp add: flush_node_def v1_def)
  obtain v2 where adv: "flush_advance 1 fa v1 (set_readonly h s) = Ok (v2, set_readonly h s)" and v2: "fl_map v2 = NULL" "fl_rcnt v2 = 0"
    using v r by (simp add: v1_def flush_advance_def flush_back_def free_if_def Let_def NUM_PAGESIZES_def)
  have "flush_roots v2 (set_readonly h s) = Ok (v2, set_readonly h s)" using v2 by (subst flush_roots.simps) simp
  from flush_loop_step [OF n adv this] show ?thesis using v2 by (simp add: Let_def)
qed

text \<open>\<^bold>\<open>C30.\<close> Withdrawing write access (\<open>mdb_flush\<close> without the flush bit) from a 4 MB page that is mapped on in 4 KB pieces
  ends after the first piece that is mapped, when this piece is mapped once: whatever the later entries of the array hold, exactly
  the page table entry of that piece is write-protected, and that of the page itself in the mode for all spaces, so that
  every mapping of another piece keeps its access right.\<close>

theorem mdb_flush_misses_pieces:
  fixes s :: "'a mdb_mem_scheme"
  assumes fp: "first_piece s r f g d array k a h" and md: "mode AND MDB_FLUSH = 0"
  shows "mdb_flush f g 1 fa 1 mode s = Ok (0, set_readonly h (if mode AND MDB_ALL_SPACES \<noteq> 0 then set_readonly g s else s))"
proof -
  let ?d = "get_depth f s"
  define q where "q = array + 4 * of_nat k"
  define v where "v = flush_start f g 1 mode"
  have v: "fl_map v = f" "fl_pg v = g" "fl_pgsize v = 1" "fl_root v = NULL" "fl_rcnt v = 0" "fl_mode v = mode"
    by (simp_all add: v_def flush_start_def mdb_pgsize_1)
  define v1 where "v1 = v\<lparr>fl_dual := d, fl_nmap := NULL, fl_pmap := f, fl_proot := NULL\<rparr>"
  define s1 where "s1 = (if mode AND MDB_ALL_SPACES \<noteq> 0 then set_readonly g s else s)"
  have n1: "flush_node 1 (flush_neighbours v s) s = Ok (Some (v1, s1))"
    unfolding first_piece_neighbours [OF fp v(1,2)] using v md by (simp add: flush_node_def v1_def s1_def)
  define v2 where "v2 = v1\<lparr>fl_map := NULL, fl_pgsize := 0, fl_rprev := (fl_rprev v)(0 := f OR 1), fl_rnmap := (fl_rnmap v)(0 := NULL),
    fl_rroot := (fl_rroot v)(0 := NULL), fl_rrcnt := (fl_rrcnt v)(0 := 0), fl_root := array - 4, fl_rcnt := 1024\<rparr>"
  have s1: "mem s1 x = mem s x" if "x \<noteq> g" for x using that by (simp add: s1_def set_readonly_def)
  have nn: "f \<noteq> NULL" "d \<noteq> NULL" "q \<noteq> NULL" "a \<noteq> NULL" "k < 1024" "mem s1 (d + 4) = array"
    and ent: "\<And>i. i \<le> k \<Longrightarrow> mem s1 (array + 4 * of_nat i) = mem s (array + 4 * of_nat i)"
    using fp by (auto simp: first_piece_def q_def intro!: s1)
  have nfree: "(mode AND MDB_FLUSH) AND (mode AND MDB_ALL_SPACES) = 0" using md by simp
  have a1: "flush_advance 1 fa v1 s1 = Ok (v2, s1)"
    using nn v nfree by (simp add: flush_advance_def flush_into_def save_pos_def free_if_def Let_def v1_def v2_def NUM_PAGESIZES_def
        dual_root_def sizeof_rnode_t_def mdb_arraysize_0)
  define v3 where "v3 = v2\<lparr>fl_rcnt := 1024 - of_nat (Suc k), fl_root := q, fl_dual := NULL, fl_map := a, fl_pg := h, fl_pmap := NULL, fl_proot := q\<rparr>"
  have am: "mem s1 a = (q XOR h) OR 1" "mem s1 (a + 8) = NULL" "mem s1 (a + 4) = mem s (a + 4)"
    and al: "word_aligned q" "word_aligned h" "word_aligned a" and dep: "?d < get_depth a s"
    using fp by (auto simp: first_piece_def q_def s1 MDB_PREV_ROOT_def)
  have pa: "get_pgent_r a q s1 = h" using am al root_bit_xor [of q h] by (simp add: mnode_defs bit_simps)
  have at: "fl_root v2 + 4 * of_nat (Suc i) = array + 4 * of_nat i" for i by (simp add: v2_def algebra_simps)
  have r1: "flush_roots v2 s1 = Ok (v3, s1)"
  proof -
    have "\<forall>i<k. root_next (fl_root v2 + 4 * of_nat (Suc i)) s1 = (NULL, NULL)"
      unfolding at using fp ent by (auto simp: root_next_def rn_is_next_root_def rn_get_map_def first_piece_def)
    moreover have "root_next (fl_root v2 + 4 * of_nat (Suc k)) s1 = (NULL, a)"
      unfolding at using fp ent [of k] by (simp add: root_next_def rn_is_next_root_def rn_get_map_def first_piece_def)
    ultimately have "flush_roots v2 s1 = Ok (v2\<lparr>fl_rcnt := fl_rcnt v2 - of_nat (Suc k), fl_root := array + 4 * of_nat k, fl_dual := NULL, fl_map := a,
        fl_pg := get_pgent_r a (array + 4 * of_nat k) s1, fl_pmap := NULL, fl_proot := array + 4 * of_nat k\<rparr>, s1)"
      using flush_roots_first [of v2 k s1 a] nn(4,5) unfolding at by (simp add: v2_def)
    then show ?thesis using pa by (simp add: v3_def v2_def q_def)
  qed
  have d1: "get_depth a s1 = get_depth a s" using am(3) by (simp add: get_depth_def mn_w2_def)
  define v4 where "v4 = v3\<lparr>fl_mode := mode OR MDB_ALL_SPACES\<rparr>"
  have l1: "flush_loop ?d 1 fa v s = flush_loop ?d 1 fa v4 s1"
    unfolding flush_loop_step [OF n1 a1 r1] using dep d1 nn(4) v(6) by (simp add: v3_def v2_def v1_def v4_def Let_def)
  have "flush_loop ?d 1 fa v4 s1 = Ok (0, set_readonly h s1)"
    by (rule piece_done [OF _ _ _ _ _ _ nn(3) _ _ am(1,2) al(1,2)])
      (use all_mode [of mode] md in \<open>simp_all add: v4_def v3_def v2_def\<close>)
  then show ?thesis using l1 mdb_flush_start [of f g 1 fa 1 mode s] by (simp add: v_def mdb_pgsize_1 s1_def)
qed

text \<open>A 4 MB page with two pieces mapped on, the second and the third, both writable.\<close>

definition demo_pieces :: mdb_mem where
  "demo_pieces = demo_mdb_ready\<lparr>mem := (\<lambda>_. 0)(
       0xF010001C := (0x00200000 XOR 0x00300000) OR 1, 0xF0100020 := 0x00400001, 0xF0100024 := 0xF0200018 OR 1,
       0xF020001C := 0xF0300000, 0xF0300004 := 0xF0100028, 0xF0300008 := 0xF0100034,
       0xF0100028 := (0xF0300004 XOR 0x00500004) OR 1, 0xF010002C := 0x00500002,
       0xF0100034 := (0xF0300008 XOR 0x00600008) OR 1, 0xF0100038 := 0x00600002,
       0x00300000 := 0x00800087, 0x00500004 := 0x00800007, 0x00600008 := 0x00801007)\<rparr>"

theorem mdb_flush_misses_pieces_witness:
  "\<exists>s'. mdb_flush 0xF010001C 0x00300000 1 0 1 0x80000000 demo_pieces = Ok (0, s') \<and>
     \<not> is_writable 0x00300000 s' \<and> \<not> is_writable 0x00500004 s' \<and> is_writable 0x00600008 s'"
proof -
  have "first_piece demo_pieces 0x00200000 0xF010001C 0x00300000 0xF0200018 0xF0300000 1 0xF0100028 0x00500004"
    by (simp add: first_piece_def demo_pieces_def word_aligned_def MDB_PREV_ROOT_def MDB_NEXT_ROOT_def MDB_RPTR_MASK_def
        MDB_RNEXT_ROOT_def get_depth_def mn_w2_def MDB_DEPTH_MASK_def le_Suc_eq)
  from mdb_flush_misses_pieces [OF this, of "0x80000000" 0] show ?thesis
    by (simp add: MDB_ALL_SPACES_def MDB_FLUSH_def is_writable_def set_readonly_def demo_pieces_def PAGE_WRITABLE_def)
qed

end
