(* ===== verification/Fpage.thy ===== *)
theory Fpage
  imports Mapping Kstate
begin

text \<open>
  Flexpages: mapping, granting and unmapping parts of address spaces, \<^verbatim>\<open>src/memory.c\<close>, and creating and deleting address
  spaces, \<^verbatim>\<open>src/x86/memory.c\<close>. An address space is the physical address of its page directory; a second page behind every
  table holds the words for the mapping nodes. The loops keep their local variables in records; a \<open>goto\<close> is a value
  of type \<open>fgoto\<close>. The loops are partial functions (\<open>None\<close>: no result). The lock of the mapping database is empty on one
  processor, and the TLB is not modelled. The functions for I/O flexpages of \<^verbatim>\<open>src/x86/io_mapping.c\<close> are
  arguments here; the theory \<open>Io_Mapping\<close> supplies them.
\<close>

section \<open>Flexpages\<close>

type_synonym fpage_t = dword_t

definition fp_grant :: "fpage_t \<Rightarrow> bool" where "fp_grant fp \<longleftrightarrow> bit fp 0"
definition fp_write :: "fpage_t \<Rightarrow> bool" where "fp_write fp \<longleftrightarrow> bit fp 1"
definition fp_size :: "fpage_t \<Rightarrow> dword_t" where "fp_size fp = drop_bit 2 fp AND mask 6"

definition FPAGE_WHOLE_SPACE :: fpage_t where "FPAGE_WHOLE_SPACE = push_bit 2 32"
definition FPAGE_OWN_SPACE :: dword_t where "FPAGE_OWN_SPACE = push_bit 31 1"
definition FPAGE_FLUSH :: dword_t where "FPAGE_FLUSH = push_bit 1 1"

definition IOFP_LO_BOUND :: dword_t where "IOFP_LO_BOUND = 0xF0000000"
definition IOFP_HI_BOUND :: dword_t where "IOFP_HI_BOUND = 0xFFFFF043"
definition USER_LIMIT :: dword_t where "USER_LIMIT = TCB_AREA"

text \<open>The processor takes shift counts modulo 32.\<close>

definition shr :: "dword_t \<Rightarrow> dword_t \<Rightarrow> dword_t" where "shr a n = drop_bit (unat n mod 32) a"
definition shl :: "dword_t \<Rightarrow> dword_t \<Rightarrow> dword_t" where "shl a n = push_bit (unat n mod 32) a"

definition base_mask :: "fpage_t \<Rightarrow> dword_t \<Rightarrow> dword_t" where
  "base_mask fp num = shr (NOT 0) (32 - fp_size fp) AND NOT (shr (NOT 0) (32 - num))"

definition fp_address :: "fpage_t \<Rightarrow> dword_t \<Rightarrow> dword_t" where
  "fp_address fp num = fp AND NOT (shr (NOT 0) (32 - num))"

definition page_size :: "nat \<Rightarrow> dword_t" where "page_size pgsize = push_bit (hw_pgshifts ! pgsize) 1"
definition page_mask :: "nat \<Rightarrow> dword_t" where "page_mask pgsize = drop_bit (32 - hw_pgshifts ! pgsize) (NOT 0)"

definition table_size :: "nat \<Rightarrow> dword_t" where
  "table_size pgsize = push_bit (hw_pgshifts ! (pgsize + 1) - hw_pgshifts ! pgsize) 1"

definition table_index :: "dword_t \<Rightarrow> nat \<Rightarrow> dword_t" where
  "table_index addr pgsize = drop_bit (hw_pgshifts ! pgsize) addr AND (table_size pgsize - 1)"

definition pgent :: "ptr_t \<Rightarrow> dword_t \<Rightarrow> ptr_t" where
  "pgent sp n = phys_to_virt (sp + 4 * n)"

text \<open>The search for the page size to use, from the largest one down. It ends at the smallest one because
  flexpages below it are rejected before.\<close>

fun find_pgsize :: "nat \<Rightarrow> dword_t \<Rightarrow> nat" where
  "find_pgsize 0 num = 0"
| "find_pgsize (Suc k) num =
     (if of_nat (hw_pgshifts ! Suc k) > num \<or> \<not> is_pgsize_valid (Suc k) then find_pgsize k num else Suc k)"

datatype fgoto = Continue | Next_receiver_entry | Next_sender_entry | Proceed

section \<open>Mapping\<close>

record mf_t =
  mf_faddr :: dword_t
  mf_taddr :: dword_t
  mf_fnum :: dword_t
  mf_tnum :: dword_t
  mf_fsize :: nat
  mf_tsize :: nat
  mf_fpg :: ptr_t
  mf_tpg :: ptr_t
  mf_rfpg :: "nat \<Rightarrow> ptr_t"
  mf_rtpg :: "nat \<Rightarrow> ptr_t"
  mf_rfnum :: "nat \<Rightarrow> dword_t"
  mf_rtnum :: "nat \<Rightarrow> dword_t"

text \<open>Recursing up in the receiver's tables, \<open>n\<close> levels.\<close>

fun mf_recurse_up :: "nat \<Rightarrow> mf_t \<Rightarrow> mf_t" where
  "mf_recurse_up 0 v = v"
| "mf_recurse_up (Suc n) v =
     mf_recurse_up n (v\<lparr>mf_tpg := mf_rtpg v (mf_tsize v), mf_tnum := mf_rtnum v (mf_tsize v), mf_tsize := mf_tsize v + 1\<rparr>)"

text \<open>The sender's side: finding the entry to map from. \<open>sig\<close> says whether the sender is sigma0, which has no page
  table of its own.\<close>

definition mf_sender :: "bool \<Rightarrow> nat \<Rightarrow> mf_t \<Rightarrow> 'a kmem_scheme \<Rightarrow> fgoto \<times> mf_t" where
  "mf_sender sig pgsize v s =
     (if sig then (Proceed, v\<lparr>mf_fsize := pgsize\<rparr>)
      else if \<not> is_valid (mf_fpg v) s then
        let v = mf_recurse_up (mf_fsize v - mf_tsize v) v
        in if mf_tsize v = mf_fsize v then (Next_receiver_entry, v) else (Next_sender_entry, v)
      else if mf_fsize v > pgsize \<and> is_subtree (mf_fpg v) (mf_fsize v) s then
        let v = v\<lparr>mf_fsize := mf_fsize v - 1\<rparr>
        in (Continue, v\<lparr>mf_fpg := pg_next (subtree (mf_fpg v) s) (table_index (mf_faddr v) (mf_fsize v))\<rparr>)
      else if is_subtree (mf_fpg v) (mf_fsize v) s then
        let v = v\<lparr>mf_fsize := mf_fsize v - 1\<rparr>;
            v = v\<lparr>mf_rfpg := (mf_rfpg v)(mf_fsize v := pg_next (mf_fpg v) 1),
                  mf_rfnum := (mf_rfnum v)(mf_fsize v := mf_fnum v - 1)\<rparr>
        in (Continue, v\<lparr>mf_fpg := subtree (mf_fpg v) s, mf_fnum := table_size (mf_fsize v)\<rparr>)
      else if mf_fsize v > pgsize then (Proceed, v\<lparr>mf_fnum := 1\<rparr>)
      else (Proceed, v))"

text \<open>Descending in the receiver's tables, with the position to go on with saved.\<close>

definition mf_save_down :: "mf_t \<Rightarrow> mf_t" where
  "mf_save_down v =
     (let v = v\<lparr>mf_tsize := mf_tsize v - 1\<rparr>
      in v\<lparr>mf_rtpg := (mf_rtpg v)(mf_tsize v := pg_next (mf_tpg v) 1),
           mf_rtnum := (mf_rtnum v)(mf_tsize v := mf_tnum v - 1)\<rparr>)"

text \<open>A larger receive page than the send page: the second-level table is created when there is none.\<close>

definition mf_descend :: "nat \<Rightarrow> mf_t \<Rightarrow> 'a kmem_scheme \<Rightarrow> (fgoto \<times> mf_t \<times> 'a kmem_scheme) option" where
  "mf_descend pgsize v s =
     (let v = mf_save_down v in
      if is_valid (mf_tpg v) s \<and> \<not> is_subtree (mf_tpg v) (mf_tsize v + 1) s then Some (Next_receiver_entry, v, s)
      else
        map_option (\<lambda>s.
          let sub = subtree (mf_tpg v) s in
          if mf_tsize v \<ge> pgsize then (Continue, v\<lparr>mf_tpg := pg_next sub (table_index (mf_taddr v) (mf_tsize v))\<rparr>, s)
          else
            let v = v\<lparr>mf_tpg := sub, mf_tnum := table_size (mf_tsize v)\<rparr>;
                i = table_index (mf_faddr v) (mf_tsize v)
            in (Continue, v\<lparr>mf_tpg := pg_next (mf_tpg v) i, mf_tnum := mf_tnum v - i,
                            mf_taddr := mf_taddr v + push_bit (hw_pgshifts ! mf_tsize v) i\<rparr>, s))
          (if \<not> is_valid (mf_tpg v) s then make_subtree (mf_tpg v) s else Some s))"

definition mf_receiver :: "nat \<Rightarrow> mf_t \<Rightarrow> 'a kmem_scheme \<Rightarrow> (fgoto \<times> mf_t \<times> 'a kmem_scheme) option" where
  "mf_receiver pgsize v s =
     (if mf_tsize v > mf_fsize v \<or> (mf_tsize v > pgsize \<and> mf_fsize v > pgsize) then mf_descend pgsize v s
      else if is_valid (mf_tpg v) s \<and> is_subtree (mf_tpg v) (mf_tsize v) s then
        let v = mf_save_down v
        in Some (Proceed, v\<lparr>mf_tpg := subtree (mf_tpg v) s, mf_tnum := table_size (mf_tsize v)\<rparr>, s)
      else if \<not> is_pgsize_valid (mf_tsize v) then
        let v = mf_save_down v
        in map_option (\<lambda>s. (Continue, v\<lparr>mf_tpg := subtree (mf_tpg v) s, mf_tnum := table_size (mf_tsize v)\<rparr>, s))
             (make_subtree (mf_tpg v) s)
      else Some (Proceed, v, s))"

text \<open>Changing the receiver's entry: extending the access right of an existing mapping, or entering a new one.
  \<open>sigma0_node\<close> is the address of sigma0's mapping node.\<close>

definition mf_enter ::
    "bool \<Rightarrow> ptr_t \<Rightarrow> fpage_t \<Rightarrow> ptr_t \<Rightarrow> mf_t \<Rightarrow> 'a mdb_mem_scheme \<Rightarrow> 'a mdb_mem_scheme kres" where
  "mf_enter sig sigma0_node snd_fp t_space v s =
     (let f_addr = mf_faddr v; fpg = mf_fpg v; tpg = mf_tpg v; f_size = mf_fsize v; t_size = mf_tsize v;
          offset = (f_addr AND page_mask f_size) AND NOT (page_mask t_size)
      in if is_valid tpg s then
           if (if sig then pg_address tpg s \<noteq> f_addr else pg_address tpg s \<noteq> pg_address fpg s + offset) then Ok s
           else if (is_writable fpg s \<or> sig) \<and> fp_write snd_fp then Ok (set_writable tpg s)
           else Ok s
         else if sig then
           res_bind (mdb_map sigma0_node fpg HW_NUM_PGSIZES (f_addr + offset) tpg t_size t_space s) (\<lambda>(newmap, s).
             let s = set_entry tpg f_addr (fp_write snd_fp) t_size s
             in Ok (set_mapnode tpg newmap (mf_taddr v) s))
         else
           let node = mapnode fpg (f_addr AND NOT (page_mask f_size)) s
           in res_bind (mdb_map node fpg f_size f_addr tpg t_size t_space s) (\<lambda>(newmap, s).
                let s = set_entry tpg (pg_address fpg s + offset) (is_writable fpg s \<and> fp_write snd_fp) t_size s;
                    s = set_mapnode tpg newmap (mf_taddr v) s
                in Ok (if f_addr AND 1 \<noteq> 0 then pg_clear fpg s else s)))"

definition mf_next_receiver :: "nat \<Rightarrow> mf_t \<Rightarrow> fgoto \<times> mf_t" where
  "mf_next_receiver pgsize v =
     (let v = v\<lparr>mf_taddr := mf_taddr v + page_size (mf_tsize v), mf_tnum := mf_tnum v - 1\<rparr>
      in if mf_tnum v > 0 then
           let v = v\<lparr>mf_tpg := pg_next (mf_tpg v) 1\<rparr>
           in (if mf_tsize v < mf_fsize v then Continue else Next_sender_entry, v)
         else if mf_tsize v < mf_fsize v \<and> mf_fsize v < pgsize then
           (Continue, v\<lparr>mf_tpg := mf_rtpg v (mf_tsize v), mf_tnum := mf_rtnum v (mf_tsize v), mf_tsize := mf_tsize v + 1\<rparr>)
         else if mf_tsize v > mf_fsize v then
           (Next_sender_entry, v\<lparr>mf_faddr := mf_faddr v + page_size (mf_tsize v) - page_size (mf_fsize v), mf_fnum := 1\<rparr>)
         else (Next_sender_entry, v))"

definition mf_next_sender :: "bool \<Rightarrow> nat \<Rightarrow> mf_t \<Rightarrow> mf_t" where
  "mf_next_sender sig pgsize v =
     (let v = v\<lparr>mf_faddr := mf_faddr v + page_size (mf_fsize v), mf_fnum := mf_fnum v - 1\<rparr>
      in if mf_fnum v > 0 then (if \<not> sig then v\<lparr>mf_fpg := pg_next (mf_fpg v) 1\<rparr> else v)
         else if mf_fsize v < pgsize then
           v\<lparr>mf_fpg := mf_rfpg v (mf_fsize v), mf_fnum := mf_rfnum v (mf_fsize v), mf_fsize := mf_fsize v + 1\<rparr>
         else v\<lparr>mf_tnum := 0\<rparr>)"

text \<open>What follows the labels.\<close>

fun mf_finish :: "bool \<Rightarrow> nat \<Rightarrow> fgoto \<Rightarrow> mf_t \<Rightarrow> mf_t" where
  "mf_finish sig pgsize Next_receiver_entry v =
     (case mf_next_receiver pgsize v of (Continue, v) \<Rightarrow> v | (_, v) \<Rightarrow> mf_next_sender sig pgsize v)"
| "mf_finish sig pgsize Next_sender_entry v = mf_next_sender sig pgsize v"
| "mf_finish sig pgsize _ v = v"

definition mf_step ::
    "bool \<Rightarrow> ptr_t \<Rightarrow> nat \<Rightarrow> fpage_t \<Rightarrow> ptr_t \<Rightarrow> mf_t \<Rightarrow> 'a mdb_mem_scheme \<Rightarrow> (mf_t \<times> 'a mdb_mem_scheme) kres" where
  "mf_step sig sigma0_node pgsize snd_fp t_space v s =
     (case mf_sender sig pgsize v s of
        (Proceed, v) \<Rightarrow>
          (case mf_receiver pgsize v s of
             None \<Rightarrow> None
           | Some (Proceed, v, s) \<Rightarrow>
               res_bind (mf_enter sig sigma0_node snd_fp t_space v s) (\<lambda>s. Ok (mf_finish sig pgsize Next_receiver_entry v, s))
           | Some (g, v, s) \<Rightarrow> Ok (mf_finish sig pgsize g v, s))
      | (g, v) \<Rightarrow> Ok (mf_finish sig pgsize g v, s))"

partial_function (option) mf_loop ::
    "bool \<Rightarrow> ptr_t \<Rightarrow> nat \<Rightarrow> fpage_t \<Rightarrow> ptr_t \<Rightarrow> mf_t \<Rightarrow> 'a mdb_mem_scheme \<Rightarrow> 'a mdb_mem_scheme kres" where
  "mf_loop sig sigma0_node pgsize snd_fp t_space v s =
     (if mf_fnum v > 0 \<or> mf_tnum v > 0 then
        if (mf_faddr v \<ge> USER_LIMIT \<and> \<not> sig) \<or> mf_taddr v \<ge> USER_LIMIT then Ok s
        else res_bind (mf_step sig sigma0_node pgsize snd_fp t_space v s) (\<lambda>(v, s).
               mf_loop sig sigma0_node pgsize snd_fp t_space v s)
      else Ok s)"

text \<open>The addresses, the page size and the number of pages of a transfer; \<open>None\<close> for a send window that is larger than the
  receive window or smaller than a page.\<close>

definition mf_start :: "dword_t \<Rightarrow> fpage_t \<Rightarrow> fpage_t \<Rightarrow> ptr_t \<Rightarrow> ptr_t \<Rightarrow> (nat \<times> mf_t) option" where
  "mf_start base snd_fp rcv_fp f_space t_space =
     (if fp_size snd_fp \<le> fp_size rcv_fp \<and> fp_size snd_fp \<ge> of_nat (hw_pgshifts ! 0) then
        let f_num = fp_size snd_fp;
            base = base AND base_mask rcv_fp f_num;
            f_addr = fp_address snd_fp f_num;
            t_addr = (fp_address rcv_fp f_num AND NOT (base_mask rcv_fp f_num)) + base;
            f_addr = (if fp_grant snd_fp then f_addr OR 1 else f_addr);
            pgsize = find_pgsize (HW_NUM_PGSIZES - 1) f_num;
            num = shl 1 (f_num - of_nat (hw_pgshifts ! pgsize));
            size = HW_NUM_PGSIZES - 1
        in Some (pgsize,
             \<lparr>mf_faddr = f_addr, mf_taddr = t_addr, mf_fnum = num, mf_tnum = num, mf_fsize = size, mf_tsize = size,
              mf_fpg = pgent f_space (table_index f_addr size), mf_tpg = pgent t_space (table_index t_addr size),
              mf_rfpg = (\<lambda>_. 0), mf_rtpg = (\<lambda>_. 0), mf_rfnum = (\<lambda>_. 0), mf_rtnum = (\<lambda>_. 0)\<rparr>)
      else None)"

definition map_fpage ::
    "(tptr \<Rightarrow> tptr \<Rightarrow> fpage_t \<Rightarrow> kstate \<Rightarrow> (int \<times> kstate) kres) \<Rightarrow> ptr_t \<Rightarrow> tptr \<Rightarrow> tptr \<Rightarrow> dword_t \<Rightarrow> fpage_t \<Rightarrow> fpage_t \<Rightarrow>
     kstate \<Rightarrow> (int \<times> kstate) kres" where
  "map_fpage map_io_fpage sigma0_node from to base snd_fp rcv_fp s =
     (if IOFP_LO_BOUND \<le> snd_fp \<and> snd_fp \<le> IOFP_HI_BOUND then map_io_fpage from to snd_fp s
      else
        case mf_start base snd_fp rcv_fp (space (tcbs s from)) (space (tcbs s to)) of
          None \<Rightarrow> Ok (0, s)
        | Some (pgsize, v) \<Rightarrow>
            res_bind (mf_loop (from = sigma0 s) sigma0_node pgsize snd_fp (space (tcbs s to)) v s) (\<lambda>s. Ok (1, s)))"

section \<open>Unmapping\<close>

record um_t =
  um_vaddr :: dword_t
  um_num :: dword_t
  um_size :: nat
  um_pg :: ptr_t
  um_rpg :: "nat \<Rightarrow> ptr_t"
  um_rnum :: "nat \<Rightarrow> dword_t"

definition um_next :: "nat \<Rightarrow> dword_t \<Rightarrow> um_t \<Rightarrow> 'a mdb_mem_scheme \<Rightarrow> (um_t \<times> 'a mdb_mem_scheme) kres" where
  "um_next pgsize mapmask v s =
     (let v = v\<lparr>um_pg := pg_next (um_pg v) 1, um_vaddr := um_vaddr v + page_size (um_size v), um_num := um_num v - 1\<rparr>
      in if um_num v = 0 \<and> um_size v < pgsize then
           let v = v\<lparr>um_pg := um_rpg v (um_size v), um_num := um_rnum v (um_size v), um_size := um_size v + 1\<rparr>
           in map_option (\<lambda>s. Inr (v\<lparr>um_pg := pg_next (um_pg v) 1\<rparr>, s))
                (if mapmask AND MDB_ALL_SPACES \<noteq> 0 \<and> mapmask AND MDB_FLUSH \<noteq> 0 then remove_subtree (um_pg v) s else Some s)
         else Ok (v, s))"

text \<open>One round of the loop; \<open>None\<close> inside the result is the \<open>break\<close>.\<close>

definition um_step :: "nat \<Rightarrow> dword_t \<Rightarrow> um_t \<Rightarrow> 'a mdb_mem_scheme \<Rightarrow> (um_t \<times> 'a mdb_mem_scheme) option kres" where
  "um_step pgsize mapmask v s =
     (let pg = um_pg v; size = um_size v in
      if size > pgsize \<and> \<not> is_valid pg s then Ok None
      else if size > pgsize \<and> is_subtree pg size s then
        Ok (Some (v\<lparr>um_size := size - 1, um_pg := pg_next (subtree pg s) (table_index (um_vaddr v) (size - 1))\<rparr>, s))
      else if size > pgsize \<and> mapmask AND MDB_ALL_SPACES \<noteq> 0 then Ok None
      else if \<not> is_valid pg s then res_bind (um_next pgsize mapmask v s) (\<lambda>r. Ok (Some r))
      else if is_subtree pg size s then
        Ok (Some (v\<lparr>um_size := size - 1, um_rpg := (um_rpg v)(size - 1 := pg), um_rnum := (um_rnum v)(size - 1 := um_num v - 1),
                    um_pg := subtree pg s, um_num := table_size (size - 1)\<rparr>, s))
      else
        res_bind (mdb_flush (mapnode pg (um_vaddr v AND NOT (page_mask size)) s) pg size (um_vaddr v) pgsize mapmask s)
          (\<lambda>(r, s). res_bind (um_next pgsize mapmask v s) (\<lambda>r. Ok (Some r))))"

partial_function (option) um_loop :: "nat \<Rightarrow> dword_t \<Rightarrow> um_t \<Rightarrow> 'a mdb_mem_scheme \<Rightarrow> 'a mdb_mem_scheme kres" where
  "um_loop pgsize mapmask v s =
     (if um_num v \<noteq> 0 then
        if um_vaddr v \<ge> USER_LIMIT then Ok s
        else res_bind (um_step pgsize mapmask v s) (\<lambda>r.
               case r of None \<Rightarrow> Ok s | Some vs \<Rightarrow> um_loop pgsize mapmask (fst vs) (snd vs))
      else Ok s)"

definition fpage_unmap :: "ptr_t \<Rightarrow> fpage_t \<Rightarrow> dword_t \<Rightarrow> 'a mdb_mem_scheme \<Rightarrow> 'a mdb_mem_scheme kres" where
  "fpage_unmap sp fpage mapmask s =
     (let num = fp_size fpage;
          vaddr = fp_address fpage num
      in if num < of_nat (hw_pgshifts ! 0) then Ok s
         else
           let pgsize = find_pgsize (HW_NUM_PGSIZES - 1) num;
               size = HW_NUM_PGSIZES - 1
           in um_loop pgsize mapmask
                \<lparr>um_vaddr = vaddr, um_num = shl 1 (num - of_nat (hw_pgshifts ! pgsize)), um_size = size,
                 um_pg = pgent sp (table_index vaddr size), um_rpg = (\<lambda>_. 0), um_rnum = (\<lambda>_. 0)\<rparr> s)"

definition sys_fpage_unmap ::
    "(tptr \<Rightarrow> fpage_t \<Rightarrow> dword_t \<Rightarrow> kstate \<Rightarrow> kstate kres) \<Rightarrow> fpage_t \<Rightarrow> dword_t \<Rightarrow> kstate \<Rightarrow> kstate kres" where
  "sys_fpage_unmap unmap_io_fpage fpage mapmask s =
     (if IOFP_LO_BOUND \<le> fpage \<and> fpage \<le> IOFP_HI_BOUND then unmap_io_fpage (get_current_tcb s) fpage mapmask s
      else fpage_unmap (space (tcbs s (get_current_tcb s))) fpage mapmask s)"

section \<open>Address spaces\<close>

definition SPACE_ALLOC_SIZE :: dword_t where "SPACE_ALLOC_SIZE = PAGE_SIZE"
definition PAGEDIR_BITS :: nat where "PAGEDIR_BITS = 22"

text \<open>Copying \<open>k\<close> entries of the kernel's page directory.\<close>

fun copy_pgents :: "nat \<Rightarrow> ptr_t \<Rightarrow> ptr_t \<Rightarrow> 'a kmem_scheme \<Rightarrow> 'a kmem_scheme" where
  "copy_pgents 0 pg_n pg_k s = s"
| "copy_pgents (Suc k) pg_n pg_k s = copy_pgents k (pg_next pg_n 1) (pg_next pg_k 1) (pg_copy pg_n pg_k s)"

text \<open>\<open>kspace\<close> is the space of the kernel's page directory. The code does not check the allocation.\<close>

definition create_space :: "ptr_t \<Rightarrow> 'a kmem_scheme \<Rightarrow> (ptr_t \<times> 'a kmem_scheme) option" where
  "create_space kspace s =
     map_option (\<lambda>(p, s).
       let nspace = virt_to_phys p;
           i = drop_bit PAGEDIR_BITS TCB_AREA
       in (nspace, copy_pgents (1024 - unat i) (pgent nspace i) (pgent kspace i) s))
       (kmem_alloc (SPACE_ALLOC_SIZE * 2) s)"

definition delete_space :: "ptr_t \<Rightarrow> 'a mdb_mem_scheme \<Rightarrow> 'a mdb_mem_scheme kres" where
  "delete_space sp s =
     res_bind (fpage_unmap sp FPAGE_WHOLE_SPACE (FPAGE_OWN_SPACE + FPAGE_FLUSH) s) (\<lambda>s.
       case kmem_free (phys_to_virt sp) SPACE_ALLOC_SIZE s of
         None \<Rightarrow> None
       | Some s \<Rightarrow> map_option Inr (kmem_free (phys_to_virt sp + SPACE_ALLOC_SIZE) PAGE_SIZE s))"

end
