(* ===== verification/Fpage_Ops.thy ===== *)
theory Fpage_Ops
  imports Fpage
begin

text \<open>
  Properties of mapping and unmapping flexpages.
\<close>

section \<open>The window of a transfer\<close>

lemma shr_mask: "unat n \<le> 32 \<Longrightarrow> 0 < unat n \<Longrightarrow> shr (- 1) (32 - n) = mask (unat n)"
proof -
  assume n: "unat n \<le> 32" "0 < unat n"
  have "unat (32 - n) = 32 - unat n" using n by (simp add: unat_sub word_le_nat_alt)
  then have "unat (32 - n) mod 32 = 32 - unat n" using n by simp
  then show ?thesis using n unfolding shr_def by (intro bit_word_eqI) (auto simp: bit_simps)
qed

text \<open>The receiver's address of a transfer: the bits above the receive window from the receive window, the bits between
  the sizes of the two windows from the base, and zero below the size of the send window.\<close>

definition window_bits :: "dword_t \<Rightarrow> fpage_t \<Rightarrow> nat \<Rightarrow> nat \<Rightarrow> nat \<Rightarrow> bool" where
  "window_bits base rcv_fp f r k \<longleftrightarrow> k < 32 \<and> (if r \<le> k then bit rcv_fp k else f \<le> k \<and> bit base k)"

lemma base_mask_bits:
  assumes "unat f \<le> unat (fp_size fp)" "unat (fp_size fp) \<le> 32" "0 < unat f"
  shows "bit (base_mask fp f) k \<longleftrightarrow> unat f \<le> k \<and> k < unat (fp_size fp)"
  unfolding base_mask_def using assms shr_mask [of "fp_size fp"] shr_mask [of f] by (auto simp: bit_simps)

lemma pgsize_valid: "is_pgsize_valid 1" "is_pgsize_valid (Suc 0)" "is_pgsize_valid 0"
  by (simp_all add: is_pgsize_valid_def hw_pgshifts_def HW_VALID_PGSIZES_def)

lemma find_pgsize_1: "find_pgsize 1 n = (if n < 22 then 0 else 1)"
  by (simp add: pgsize_valid hw_pgshifts_def)

lemma pages_of_size:
  assumes "unat k \<le> unat f" "unat f - unat k < 32"
  shows "unat (shl 1 (f - k)) * 2 ^ unat k = 2 ^ unat f"
proof -
  have "unat (f - k) = unat f - unat k" using assms by (simp add: unat_sub word_le_nat_alt)
  then have "shl 1 (f - k) = 2 ^ (unat f - unat k)" using assms by (simp add: shl_def push_bit_eq_mult)
  moreover have "unat (2 ^ (unat f - unat k) :: dword_t) = 2 ^ (unat f - unat k)" 
  proof -
    have "(2 :: nat) ^ (unat f - unat k) < 2 ^ 32" using assms(2) by (intro power_strict_increasing) simp_all
    then have "unat (of_nat (2 ^ (unat f - unat k)) :: dword_t) = 2 ^ (unat f - unat k)" by (intro unat_of_nat_small) simp
    then show ?thesis by simp
  qed
  ultimately show ?thesis using assms by (simp flip: power_add)
qed

section \<open>Page table walks\<close>

definition pde :: "ptr_t \<Rightarrow> dword_t \<Rightarrow> ptr_t" where "pde sp a = pgent sp (table_index a 1)"
definition pte :: "ptr_t \<Rightarrow> dword_t \<Rightarrow> 'a kmem_scheme \<Rightarrow> ptr_t" where
  "pte sp a s = pg_next (subtree (pde sp a) s) (table_index a 0)"

definition has_table :: "ptr_t \<Rightarrow> dword_t \<Rightarrow> 'a kmem_scheme \<Rightarrow> bool" where
  "has_table sp a s \<longleftrightarrow> is_valid (pde sp a) s \<and> is_subtree (pde sp a) 1 s"

lemma page_masks: "page_mask 0 = 0xFFF" "page_mask 1 = 0x3FFFFF" "page_size 0 = 4096" "page_size 1 = 0x400000"
  "table_size 0 = 1024" "table_size 1 = 1024"
  by (simp_all add: page_mask_def page_size_def table_size_def hw_pgshifts_def mask_eq_exp_minus_1)

text \<open>What a transfer of one page does once both entries are known.\<close>

definition page_transfer :: "fpage_t \<Rightarrow> ptr_t \<Rightarrow> dword_t \<Rightarrow> dword_t \<Rightarrow> ptr_t \<Rightarrow> ptr_t \<Rightarrow> 'a mdb_mem_scheme \<Rightarrow> 'a mdb_mem_scheme kres" where
  "page_transfer snd_fp t_space f_addr t_addr fpg tpg s =
     res_bind (mdb_map (mapnode fpg (f_addr AND NOT 0xFFF) s) fpg 0 f_addr tpg 0 t_space s) (\<lambda>(m, s).
       let s = set_mapnode tpg m t_addr (set_entry tpg (pg_address fpg s) (is_writable fpg s \<and> fp_write snd_fp) 0 s)
       in Ok (if f_addr AND 1 \<noteq> 0 then pg_clear fpg s else s))"

lemma mf_enter_page:
  fixes s :: "'a mdb_mem_scheme"
  assumes "mf_fsize v = 0" "mf_tsize v = 0" "\<not> is_valid (mf_tpg v) s"
  shows "mf_enter False sn snd_fp ts v s = page_transfer snd_fp ts (mf_faddr v) (mf_taddr v) (mf_fpg v) (mf_tpg v) s"
proof -
  have off: "(mf_faddr v AND 0xFFF) AND NOT 0xFFF = 0" by (simp add: and.assoc)
  have eq: "mf_enter False sn snd_fp ts v s =
      res_bind (mdb_map (mapnode (mf_fpg v) (mf_faddr v AND NOT 0xFFF) s) (mf_fpg v) 0 (mf_faddr v) (mf_tpg v) 0 ts s) (\<lambda>(m, s).
        let s = set_mapnode (mf_tpg v) m (mf_taddr v)
          (set_entry (mf_tpg v) (pg_address (mf_fpg v) s + 0) (is_writable (mf_fpg v) s \<and> fp_write snd_fp) 0 s)
        in Ok (if mf_faddr v AND 1 \<noteq> 0 then pg_clear (mf_fpg v) s else s))"
    unfolding mf_enter_def Let_def assms(1,2) page_masks off if_not_P [OF assms(3)] if_False by (rule refl)
  show ?thesis unfolding eq page_transfer_def by simp
qed

lemma res_bind_assoc: "res_bind (res_bind r f) g = res_bind r (\<lambda>x. res_bind (f x) g)"
  by (auto simp: res_bind_def split: option.splits sum.splits)

lemma res_bind_Ok: "res_bind r Ok = r"
  by (auto simp: res_bind_def split: option.splits sum.splits)

lemma mf_loop_unfold:
  assumes "0 < mf_fnum v" "mf_faddr v < USER_LIMIT" "mf_taddr v < USER_LIMIT"
  shows "mf_loop False sn pgsize snd_fp ts v s =
    res_bind (mf_step False sn pgsize snd_fp ts v s) (\<lambda>(v, s). mf_loop False sn pgsize snd_fp ts v s)"
  using assms by (subst mf_loop.simps) (auto simp: not_le)

text \<open>One 4 KB page, between spaces that both have a second-level table for their address.\<close>

lemma mf_loop_page:
  fixes s :: "'a mdb_mem_scheme"
  assumes v: "mf_fnum v = 1" "mf_tnum v = 1" "mf_fsize v = 1" "mf_tsize v = 1"
      "mf_fpg v = pde fs (mf_faddr v)" "mf_tpg v = pde ts (mf_taddr v)" "mf_faddr v < USER_LIMIT" "mf_taddr v < USER_LIMIT"
    and f: "has_table fs (mf_faddr v) s" "is_valid (pte fs (mf_faddr v) s) s"
    and t: "has_table ts (mf_taddr v) s" "\<not> is_valid (pte ts (mf_taddr v) s) s"
  shows "mf_loop False sn 0 snd_fp ts v s =
    page_transfer snd_fp ts (mf_faddr v) (mf_taddr v) (pte fs (mf_faddr v) s) (pte ts (mf_taddr v) s) s"
proof -
  define v1 where "v1 = v\<lparr>mf_fsize := 0, mf_fpg := pte fs (mf_faddr v) s\<rparr>"
  have "mf_sender False 0 v s = (Continue, v1)"
    using v f by (simp add: mf_sender_def has_table_def v1_def pte_def)
  then have 1: "mf_step False sn 0 snd_fp ts v s = Ok (v1, s)" by (simp add: mf_step_def)
  define v2 where "v2 = (mf_save_down v1)\<lparr>mf_tpg := pte ts (mf_taddr v) s\<rparr>"
  have g: "mf_fsize v1 = 0" "mf_fpg v1 = pte fs (mf_faddr v) s" "mf_tsize v1 = 1" "mf_tpg v1 = pde ts (mf_taddr v)"
    "mf_faddr v1 = mf_faddr v" "mf_taddr v1 = mf_taddr v" "mf_fnum v1 = 1" using v by (simp_all add: v1_def)
  have "mf_sender False 0 v1 s = (Proceed, v1)" using f g by (simp add: mf_sender_def is_subtree_def)
  moreover have "mf_receiver 0 v1 s = Some (Continue, v2, s)"
    using t g by (simp add: mf_receiver_def mf_descend_def mf_save_down_def Let_def has_table_def v2_def pte_def)
  ultimately have 2: "mf_step False sn 0 snd_fp ts v1 s = Ok (v2, s)" by (simp add: mf_step_def)
  have h: "mf_fsize v2 = 0" "mf_fpg v2 = pte fs (mf_faddr v) s" "mf_tsize v2 = 0" "mf_tpg v2 = pte ts (mf_taddr v) s"
    "mf_faddr v2 = mf_faddr v" "mf_taddr v2 = mf_taddr v" "mf_fnum v2 = 1" "mf_tnum v2 = 1"
    using g v(2) by (simp_all add: v2_def mf_save_down_def Let_def) (simp add: v1_def)
  have "mf_sender False 0 v2 s = (Proceed, v2)" using f h by (simp add: mf_sender_def is_subtree_def)
  moreover have "mf_receiver 0 v2 s = Some (Proceed, v2, s)"
    using t h pgsize_valid by (simp add: mf_receiver_def)
  moreover have "mf_enter False sn snd_fp ts v2 s =
      page_transfer snd_fp ts (mf_faddr v) (mf_taddr v) (pte fs (mf_faddr v) s) (pte ts (mf_taddr v) s) s"
    using mf_enter_page [of v2 s sn snd_fp ts] h t by simp
  ultimately have 3: "mf_step False sn 0 snd_fp ts v2 s =
      res_bind (page_transfer snd_fp ts (mf_faddr v) (mf_taddr v) (pte fs (mf_faddr v) s) (pte ts (mf_taddr v) s) s)
        (\<lambda>s. Ok (mf_finish False 0 Next_receiver_entry v2, s))"
    by (simp add: mf_step_def)
  have "mf_fnum (mf_finish False 0 Next_receiver_entry v2) = 0" "mf_tnum (mf_finish False 0 Next_receiver_entry v2) = 0"
    using h by (simp_all add: mf_next_receiver_def mf_next_sender_def Let_def)
  then have e: "mf_loop False sn 0 snd_fp ts (mf_finish False 0 Next_receiver_entry v2) s' = Ok s'" for s' :: "'a mdb_mem_scheme"
    by (subst mf_loop.simps) simp
  have "mf_loop False sn 0 snd_fp ts v s =
      res_bind (page_transfer snd_fp ts (mf_faddr v) (mf_taddr v) (pte fs (mf_faddr v) s) (pte ts (mf_taddr v) s) s) Ok"
  proof -
    have "mf_loop False sn 0 snd_fp ts v s = mf_loop False sn 0 snd_fp ts v1 s"
      using v by (subst mf_loop_unfold) (simp_all add: 1)
    also have "\<dots> = mf_loop False sn 0 snd_fp ts v2 s" using v g by (subst mf_loop_unfold) (simp_all add: 2)
    also have "\<dots> = res_bind (res_bind (page_transfer snd_fp ts (mf_faddr v) (mf_taddr v) (pte fs (mf_faddr v) s) (pte ts (mf_taddr v) s) s)
        (\<lambda>s. Ok (mf_finish False 0 Next_receiver_entry v2, s))) (\<lambda>(v, s). mf_loop False sn 0 snd_fp ts v s)"
      using v h by (subst mf_loop_unfold) (simp_all only: 3, simp_all)
    finally show ?thesis by (simp only: res_bind_assoc res_bind_simps prod.case e)
  qed
  then show ?thesis by (simp add: res_bind_Ok)
qed

end
