(* ===== verification/Address_Spaces.thy ===== *)
theory Address_Spaces
  imports Fpage_Ops Mapping_Insert
begin

text \<open>
  Flexpage operations together with the mapping database: mapping a page to another space, and unmapping it again from
  everyone who got it.
\<close>

section \<open>Writes outside the database\<close>

lemma mlist_write:
  assumes ok: "mdb_ok s U H" and nd: "nodes_ok s U H pg pr ns" and ml: "mlist (mem s) pg pr ns"
    and a: "a \<notin> H" "a \<noteq> link_cell pr"
  shows "mdb_ok (wr a x s) U H" and "nodes_ok (wr a x s) U H pg pr ns" and "mlist (mem (wr a x s)) pg pr ns"
    and "n \<in> set ns \<Longrightarrow> mem (wr a x s) (n + 4) = mem s (n + 4)"
proof -
  have ne: "n + c \<noteq> a" if "n \<in> set ns" "unat c < 12" for n c
    using node_cell(2) [OF ok nodes_okD(2) [OF nd] _ that(2), of n] nodes_okD(5) [OF nd that(1)] a by auto
  show "mdb_ok (wr a x s) U H" using a by (intro mdb_ok_write ok) auto
  show "nodes_ok (wr a x s) U H pg pr ns" using nd by (simp add: nodes_ok_def)
  show "mlist (mem (wr a x s)) pg pr ns"
    by (rule mlist_frame [OF ml]) (use a ne [of _ 0] ne [of _ 8] in auto)
  show "mem (wr a x s) (n + 4) = mem s (n + 4)" if "n \<in> set ns" using ne [OF that, of 4] by simp
qed

section \<open>Mapping a page\<close>

text \<open>The sender has a page mapped for which the database has the node \<open>f\<close>; the receiver has a second-level table
  but no page at its address.\<close>

definition page_ready ::
    "(nat \<Rightarrow> ptr_t set) \<Rightarrow> ptr_t set \<Rightarrow> (ptr_t \<Rightarrow> ptr_t) \<Rightarrow> npred \<Rightarrow> ptr_t \<Rightarrow> ptr_t list \<Rightarrow>
     ptr_t \<Rightarrow> dword_t \<Rightarrow> ptr_t \<Rightarrow> dword_t \<Rightarrow> 'a mdb_mem_scheme \<Rightarrow> bool" where
  "page_ready U H pg pr f ns fs fa ts ta s \<longleftrightarrow>
     mdb_ok s U H \<and> nodes_ok s U H pg pr (f # ns) \<and> mlist (mem s) pg pr (f # ns) \<and>
     fa < USER_LIMIT \<and> ta < USER_LIMIT \<and> has_table fs fa s \<and> has_table ts ta s \<and>
     pte fs fa s = pg f \<and> is_valid (pg f) s \<and> mapnode (pg f) (fa AND NOT 0xFFF) s = f \<and>
     \<not> is_valid (pte ts ta s) s \<and> word_aligned (pte ts ta s) \<and>
     {pte ts ta s, pte ts ta s + PAGE_SIZE} \<inter> ({pg f, pg f + PAGE_SIZE} \<union> insert (link_cell pr) H) = {}"

lemma page_transfer_step:
  fixes s :: "'a mdb_mem_scheme"
  assumes rd: "page_ready U H pg pr f ns fs fa ts ta s" and map: "fa AND 1 = 0"
    and mem: "list_of_lists (mdb_buflists s ! 0) \<noteq> NULL"
  shows "\<exists>m s'. page_transfer snd_fp t_space fa ta (pg f) (pte ts ta s) s = Ok s' \<and> m \<notin> U 0 \<and>
    mdb_ok s' (U(0 := insert m (U 0))) H \<and> nodes_ok s' (U(0 := insert m (U 0))) H (pg(m := pte ts ta s)) pr (f # m # ns) \<and>
    mlist (mem s') (pg(m := pte ts ta s)) pr (f # m # ns) \<and>
    get_depth m s' = (get_depth f s + 1) AND MDB_DEPTH_MASK \<and> get_space m s' = t_space AND MDB_SPACE_MASK \<and>
    is_valid (pte ts ta s) s' \<and> pg_address (pte ts ta s) s' = pg_address (pg f) s \<and>
    (is_writable (pte ts ta s) s' \<longleftrightarrow> is_writable (pg f) s \<and> fp_write snd_fp) \<and> mapnode (pte ts ta s) ta s' = m \<and>
    (\<forall>x\<in>set (f # ns). mem s' (x + 4) = mem s (x + 4)) \<and>
    (\<forall>a. a \<notin> H \<longrightarrow> a \<notin> {pte ts ta s, pte ts ta s + PAGE_SIZE} \<longrightarrow> mem s' a = mem s a)"
proof -
  define g where "g = pte ts ta s"
  have ok: "mdb_ok s U H" and nd: "nodes_ok s U H pg pr (f # ns)" and ml: "mlist (mem s) pg pr (f # ns)"
    and al: "word_aligned g" and out: "{g, g + PAGE_SIZE} \<inter> ({pg f, pg f + PAGE_SIZE} \<union> insert (link_cell pr) H) = {}"
    and node: "mapnode (pg f) (fa AND NOT 0xFFF) s = f"
    using rd by (simp_all add: page_ready_def g_def)
  have out': "{g, g + PAGE_SIZE} \<inter> insert (link_cell pr) H = {}" "g \<notin> H" "g + PAGE_SIZE \<notin> H" "g \<noteq> link_cell pr" "g + PAGE_SIZE \<noteq> link_cell pr"
    "pg f \<notin> H" using out nodes_okD(6) [OF nd, of f] by auto
  obtain m s1 where m: "mdb_map f (pg f) 0 fa g 0 t_space s = Ok (m, s1)" "m \<notin> U 0"
      "mdb_ok s1 (U(0 := insert m (U 0))) H" "mlist (mem s1) (pg(m := g)) pr (f # m # ns)"
      "nodes_ok s1 (U(0 := insert m (U 0))) H (pg(m := g)) pr (f # m # ns)"
      "get_depth m s1 = (get_depth f s + 1) AND MDB_DEPTH_MASK" "get_space m s1 = t_space AND MDB_SPACE_MASK"
      "\<forall>x\<in>set (f # ns). mem s1 (x + 4) = mem s (x + 4)" "\<forall>a. a \<notin> H \<longrightarrow> mem s1 a = mem s a"
    using mdb_map_step [OF ok nd ml al out'(1), of 0 0 fa t_space] map mem by blast
  define e where "e = (pg_address (pg f) s1 AND PAGE_MASK) OR PAGE_USER_BITS OR
    (if is_writable (pg f) s1 \<and> fp_write snd_fp then PAGE_WRITABLE else 0)"
  define s2 where "s2 = wr g e s1"
  define s' where "s' = wr (g + PAGE_SIZE) (m XOR ta) s2"
  note w1 = mlist_write [OF m(3,5,4) out'(2,4), where x = e, folded s2_def]
  note w2 = mlist_write [OF w1(1-3) out'(3,5), where x = "m XOR ta", folded s'_def]
  have r: "page_transfer snd_fp t_space fa ta (pg f) g s = Ok s'"
    unfolding page_transfer_def node m(1) using map
    by (simp add: set_entry_def set_mapnode_def SET_MAPNODE_def s'_def s2_def e_def Let_def)
  have g4: "mem s' (x + 4) = mem s1 (x + 4)" if "x \<in> set (f # m # ns)" for x
    using w1(4) [OF that] w2(4) [OF that] by simp
  have d: "get_depth m s' = get_depth m s1" "get_space m s' = get_space m s1"
    using g4 [of m] by (simp_all add: get_depth_def get_space_def mn_w2_def)
  have pf: "mem s1 (pg f) = mem s (pg f)" using m(9) out'(6) by blast
  have ne: "g + PAGE_SIZE \<noteq> g" by (simp add: PAGE_SIZE_def)
  have ent: "mem s' g = e" "mem s' (g + PAGE_SIZE) = m XOR ta" using ne by (auto simp: s'_def s2_def)
  have bits: "bit e 0" "bit e 1 \<longleftrightarrow> is_writable (pg f) s \<and> fp_write snd_fp" "e AND PAGE_MASK = pg_address (pg f) s"
    using pf by (auto simp: e_def PAGE_USER_BITS_def bit_simps is_writable_def pg_address_def intro!: bit_word_eqI)
  have ent': "is_valid g s'" "is_writable g s' \<longleftrightarrow> is_writable (pg f) s \<and> fp_write snd_fp" "pg_address g s' = pg_address (pg f) s"
    "mapnode g ta s' = m"
    using ent bits unfolding is_valid_def is_writable_def [of g] pg_address_def [of g] mapnode_def GET_MAPNODE_def
    by (simp_all add: flag_tests)
  have rest: "mem s' a = mem s a" if "a \<notin> H" "a \<notin> {g, g + PAGE_SIZE}" for a
    using m(9) that by (simp add: s'_def s2_def)
  show ?thesis unfolding g_def [symmetric]
    using r m(2) w2(1-3) m(6,7,8) d ent' rest g4 by (intro exI [of _ m] exI [of _ s']) auto
qed


lemma mf_start_page:
  assumes "mf_start base snd_fp rcv_fp fs ts = Some (pgsize, v)" and "fp_size snd_fp = 12"
  shows "pgsize = 0" "mf_fnum v = 1" "mf_tnum v = 1" "mf_fsize v = 1" "mf_tsize v = 1"
    "mf_fpg v = pde fs (mf_faddr v)" "mf_tpg v = pde ts (mf_taddr v)" "\<not> fp_grant snd_fp \<Longrightarrow> mf_faddr v AND 1 = 0"
proof -
  have p: "find_pgsize 1 (fp_size snd_fp) = 0" unfolding find_pgsize_1 using assms(2) by simp
  show "pgsize = 0" "mf_fnum v = 1" "mf_tnum v = 1" "mf_fsize v = 1" "mf_tsize v = 1"
    "mf_fpg v = pde fs (mf_faddr v)" "mf_tpg v = pde ts (mf_taddr v)"
    using assms p by (auto simp: mf_start_def Let_def HW_NUM_PGSIZES_def hw_pgshifts_def shl_def pde_def split: if_splits)
  assume "\<not> fp_grant snd_fp"
  moreover have "shr (- 1) (32 - fp_size snd_fp) = mask 12" using shr_mask [of "fp_size snd_fp"] assms(2) by simp
  ultimately have "mf_faddr v = snd_fp AND NOT (mask 12)"
    using assms by (auto simp: mf_start_def Let_def fp_address_def split: if_splits)
  then show "mf_faddr v AND 1 = 0" using bit0_test [of "mf_faddr v"] by (simp add: bit_simps)
qed

lemma map_fpage_page:
  assumes st: "mf_start base snd_fp rcv_fp (space (tcbs s from)) (space (tcbs s to)) = Some (pgsize, v)"
    and sz: "fp_size snd_fp = 12" and io: "snd_fp < IOFP_LO_BOUND" and sig: "from \<noteq> sigma0 s"
    and rd: "page_ready U H pg pr f ns (space (tcbs s from)) (mf_faddr v) (space (tcbs s to)) (mf_taddr v) s"
  shows "map_fpage mio sn from to base snd_fp rcv_fp s =
    res_bind (page_transfer snd_fp (space (tcbs s to)) (mf_faddr v) (mf_taddr v) (pg f)
      (pte (space (tcbs s to)) (mf_taddr v) s) s) (\<lambda>s. Ok (1, s))"
proof -
  note p = mf_start_page [OF st sz]
  have "mf_loop False sn 0 snd_fp (space (tcbs s to)) v s =
      page_transfer snd_fp (space (tcbs s to)) (mf_faddr v) (mf_taddr v) (pg f) (pte (space (tcbs s to)) (mf_taddr v) s) s"
    using mf_loop_page [OF p(2-7), of s sn snd_fp] rd by (simp add: page_ready_def)
  then show ?thesis using st p(1) io sig by (auto simp: map_fpage_def)
qed

text \<open>\<^bold>\<open>C3.\<close> Mapping one 4 KB page between two spaces gives the receiver a valid entry for the same frame with no
  more rights than the sender has and gives, and a mapping node directly below the sender's; the sender's entry,
  the other nodes and all memory outside the heap and the receiver's entry are unchanged.\<close>

theorem map_page_correct:
  fixes s :: kstate
  assumes st: "mf_start base snd_fp rcv_fp (space (tcbs s from)) (space (tcbs s to)) = Some (pgsize, v)"
    and sz: "fp_size snd_fp = 12" and map: "\<not> fp_grant snd_fp" and io: "snd_fp < IOFP_LO_BOUND" and sig: "from \<noteq> sigma0 s"
    and rd: "page_ready U H pg pr f ns (space (tcbs s from)) (mf_faddr v) (space (tcbs s to)) (mf_taddr v) s"
    and mem: "list_of_lists (mdb_buflists s ! 0) \<noteq> NULL" and g: "g = pte (space (tcbs s to)) (mf_taddr v) s"
  shows "\<exists>m s'. map_fpage mio sn from to base snd_fp rcv_fp s = Ok (1, s') \<and> m \<notin> U 0 \<and>
    mdb_ok s' (U(0 := insert m (U 0))) H \<and> mlist (mem s') (pg(m := g)) pr (f # m # ns) \<and>
    get_depth m s' = (get_depth f s + 1) AND MDB_DEPTH_MASK \<and> get_space m s' = space (tcbs s to) AND MDB_SPACE_MASK \<and>
    is_valid g s' \<and> pg_address g s' = pg_address (pg f) s \<and>
    (is_writable g s' \<longleftrightarrow> is_writable (pg f) s \<and> fp_write snd_fp) \<and> mapnode g (mf_taddr v) s' = m \<and>
    (\<forall>a. a \<notin> H \<longrightarrow> a \<notin> {g, g + PAGE_SIZE} \<longrightarrow> mem s' a = mem s a)"
  using page_transfer_step [OF rd mf_start_page(8) [OF st sz map] mem, of snd_fp "space (tcbs s to)"]
  unfolding g map_fpage_page [OF st sz io sig rd] by fastforce

section \<open>Unmapping a page\<close>

lemma fpage_unmap_page:
  fixes s :: "'a mdb_mem_scheme"
  assumes sz: "fp_size fp = 12" and lim: "fp_address fp 12 < USER_LIMIT"
    and pg: "has_table sp (fp_address fp 12) s" "is_valid (pte sp (fp_address fp 12) s) s"
  shows "fpage_unmap sp fp mode s =
    res_bind (mdb_flush (mapnode (pte sp (fp_address fp 12) s) (fp_address fp 12 AND NOT 0xFFF) s) (pte sp (fp_address fp 12) s)
      0 (fp_address fp 12) 0 mode s) (\<lambda>(r, s). Ok s)"
proof -
  let ?a = "fp_address fp 12" and ?g = "pte sp (fp_address fp 12) s"
  define v where "v = \<lparr>um_vaddr = ?a, um_num = 1, um_size = 1, um_pg = pde sp ?a, um_rpg = (\<lambda>_. 0), um_rnum = (\<lambda>_. 0)\<rparr>"
  have p: "find_pgsize 1 (12 :: dword_t) = 0" unfolding find_pgsize_1 by simp
  have e: "fpage_unmap sp fp mode s = um_loop 0 mode v s"
    using sz p by (simp add: fpage_unmap_def Let_def HW_NUM_PGSIZES_def v_def hw_pgshifts_def shl_def pde_def)
  define v1 where "v1 = v\<lparr>um_size := 0, um_pg := ?g\<rparr>"
  have 1: "um_step 0 mode v s = Ok (Some (v1, s))"
    using pg(1) by (simp add: um_step_def v_def v1_def has_table_def pte_def)
  have nx: "um_next 0 mode v1 s' = Ok (v1\<lparr>um_pg := pg_next ?g 1, um_vaddr := ?a + 4096, um_num := 0\<rparr>, s')" for s' :: "'a mdb_mem_scheme"
    by (simp add: um_next_def v1_def v_def page_masks)
  have 2: "um_step 0 mode v1 s = res_bind (mdb_flush (mapnode ?g (?a AND NOT 0xFFF) s) ?g 0 ?a 0 mode s)
      (\<lambda>(r, s). Ok (Some (v1\<lparr>um_pg := pg_next ?g 1, um_vaddr := ?a + 4096, um_num := 0\<rparr>, s)))"
  proof -
    have "um_step 0 mode v1 s = res_bind (mdb_flush (mapnode ?g (?a AND NOT (page_mask 0)) s) ?g 0 ?a 0 mode s)
      (\<lambda>(r, s). res_bind (um_next 0 mode v1 s) (\<lambda>r. Ok (Some r)))"
      using pg(2) by (simp add: um_step_def v1_def v_def is_subtree_def Let_def)
    then show ?thesis by (simp only: nx res_bind_simps page_masks)
  qed
  have end': "um_loop 0 mode (v1\<lparr>um_pg := pg_next ?g 1, um_vaddr := ?a + 4096, um_num := 0\<rparr>) s' = Ok s'" for s' :: "'a mdb_mem_scheme"
    by (subst um_loop.simps) simp
  have "um_loop 0 mode v s = um_loop 0 mode v1 s"
    using lim by (subst um_loop.simps) (simp add: 1 v_def [symmetric] not_le [symmetric], simp add: v_def)
  also have "\<dots> = res_bind (um_step 0 mode v1 s) (\<lambda>r. case r of None \<Rightarrow> Ok s | Some vs \<Rightarrow> um_loop 0 mode (fst vs) (snd vs))"
    using lim by (subst um_loop.simps) (simp add: v1_def v_def not_le [symmetric])
  also have "\<dots> = res_bind (mdb_flush (mapnode ?g (?a AND NOT 0xFFF) s) ?g 0 ?a 0 mode s) (\<lambda>(r, s). Ok s)"
    unfolding 2 res_bind_assoc by (rule arg_cong [where f = "res_bind _"]) (auto simp: fun_eq_iff end')
  finally show ?thesis unfolding e .
qed


section \<open>Revoking a mapping\<close>

lemma unmap_page_flush:
  fixes s :: "'a mdb_mem_scheme"
  assumes ok: "mdb_ok s U H" and nd: "nodes_ok s U H pg pr (f # ns)" and ml: "mlist (mem s) pg pr (f # ns)"
    and sz: "fp_size fp = 12" and a: "a = fp_address fp 12" "a < USER_LIMIT" and pg: "has_table sp a s" "pte sp a s = pg f"
    and f: "is_valid (pg f) s" "mapnode (pg f) (a AND NOT 0xFFF) s = f" and md: "mode AND MDB_FLUSH \<noteq> 0"
  shows "\<exists>s'. fpage_unmap sp fp mode s = Ok s' \<and> mdb_ok s' (U(0 := U 0 - set (victims mode f ns s))) H \<and>
    mlist (mem s') pg pr (survivors mode f ns s) \<and>
    (\<forall>x\<in>set (victims mode f ns s). mem s' (pg x) = 0 \<and> GET_MAPNODE (pg x) s' = 0) \<and>
    (\<forall>a. a \<notin> H \<longrightarrow> a \<noteq> link_cell pr \<longrightarrow> a \<notin> pg_cells pg (victims mode f ns s) \<longrightarrow> mem s' a = mem s a)"
proof -
  have e: "fpage_unmap sp fp mode s = res_bind (mdb_flush f (pg f) 0 a 0 mode s) (\<lambda>(r, s). Ok s)"
    using fpage_unmap_page [of fp sp s mode] sz a pg f by simp
  from mdb_flush_step [OF ok nd ml order.refl md, of 0 a] show ?thesis unfolding e by auto
qed

text \<open>\<^bold>\<open>C9.\<close> Unmapping a 4 KB page with the flush bit revokes it: every mapping derived from the page, directly
  or over several spaces, and in the mode for the own space the page itself, loses its page table entry and its node, and
  nothing else in the address spaces changes.\<close>

theorem unmap_page_correct:
  fixes s :: kstate
  assumes ok: "mdb_ok s U H" and nd: "nodes_ok s U H pg pr (f # ns)" and ml: "mlist (mem s) pg pr (f # ns)"
    and sz: "fp_size fp = 12" and a: "a = fp_address fp 12" "a < USER_LIMIT" and io: "fp < IOFP_LO_BOUND"
    and pg: "has_table (space (tcbs s (current s))) a s" "pte (space (tcbs s (current s))) a s = pg f"
    and f: "is_valid (pg f) s" "mapnode (pg f) (a AND NOT 0xFFF) s = f" and md: "mode AND MDB_FLUSH \<noteq> 0"
  shows "\<exists>s'. sys_fpage_unmap uio fp mode s = Ok s' \<and>
    mdb_ok s' (U(0 := U 0 - set (victims mode f ns s))) H \<and> mlist (mem s') pg pr (survivors mode f ns s) \<and>
    (\<forall>x\<in>set (victims mode f ns s). \<not> is_valid (pg x) s' \<and> GET_MAPNODE (pg x) s' = 0) \<and>
    (\<forall>a. a \<notin> H \<longrightarrow> a \<noteq> link_cell pr \<longrightarrow> a \<notin> pg_cells pg (victims mode f ns s) \<longrightarrow> mem s' a = mem s a)"
proof -
  have "\<not> (IOFP_LO_BOUND \<le> fp \<and> fp \<le> IOFP_HI_BOUND)" using io by auto
  then have "sys_fpage_unmap uio fp mode s = fpage_unmap (space (tcbs s (current s))) fp mode s"
    by (auto simp: sys_fpage_unmap_def get_current_tcb_def)
  then show ?thesis using unmap_page_flush [OF ok nd ml sz a pg f md] by (fastforce simp: is_valid_def)
qed

lemma new_node_victim:
  assumes "get_depth m s = (get_depth f s + 1) AND MDB_DEPTH_MASK" and "get_depth f s < 255"
  shows "m \<in> set (victims mode f (m # ns) s)"
proof -
  have u: "unat (get_depth f s + 1) = unat (get_depth f s) + 1" 
    using unat_add_noflow [of "get_depth f s" 1] assms(2) by (simp add: word_less_nat_alt)
  then have "get_depth f s + 1 < 256" using assms(2) by (simp add: word_less_nat_alt)
  then have "get_depth m s = get_depth f s + 1" using assms(1) depth_id by simp
  then show ?thesis using u by (simp add: victims_def deeper_def word_less_nat_alt)
qed

text \<open>\<^bold>\<open>C11.\<close> Whoever maps a page to someone else can take it back: unmapping the page from the other spaces
  after the transfer clears the receiver's entry, frees its node and keeps the own page.\<close>

theorem map_unmap_revokes:
  fixes s :: kstate
  assumes st: "mf_start base snd_fp rcv_fp (space (tcbs s from)) (space (tcbs s to)) = Some (pgsize, v)"
    and sz: "fp_size snd_fp = 12" and map: "\<not> fp_grant snd_fp" and io: "snd_fp < IOFP_LO_BOUND" and sig: "from \<noteq> sigma0 s"
    and rd: "page_ready U H pg pr f ns (space (tcbs s from)) (mf_faddr v) (space (tcbs s to)) (mf_taddr v) s"
    and mem: "list_of_lists (mdb_buflists s ! 0) \<noteq> NULL" and g: "g = pte (space (tcbs s to)) (mf_taddr v) s"
    and sep: "pde (space (tcbs s from)) (mf_faddr v) \<notin> H \<union> {g, g + PAGE_SIZE}" "pg f \<notin> pg_cells pg ns"
    and dep: "get_depth f s < 255" and md: "mode AND MDB_FLUSH \<noteq> 0" "mode AND MDB_ALL_SPACES = 0"
  shows "\<exists>s' s''. map_fpage mio sn from to base snd_fp rcv_fp s = Ok (1, s') \<and> is_valid g s' \<and>
    fpage_unmap (space (tcbs s from)) snd_fp mode s' = Ok s'' \<and> \<not> is_valid g s'' \<and> is_valid (pg f) s'' \<and>
    (\<exists>V. mdb_ok s'' V H)"
proof -
  let ?fs = "space (tcbs s from)" and ?a = "mf_faddr v"
  obtain m s' where s': "map_fpage mio sn from to base snd_fp rcv_fp s = Ok (1, s')" "mdb_ok s' (U(0 := insert m (U 0))) H"
      "nodes_ok s' (U(0 := insert m (U 0))) H (pg(m := g)) pr (f # m # ns)" "mlist (mem s') (pg(m := g)) pr (f # m # ns)"
      "get_depth m s' = (get_depth f s + 1) AND MDB_DEPTH_MASK" "is_valid g s'"
      "\<forall>x\<in>set (f # ns). mem s' (x + 4) = mem s (x + 4)"
      "\<forall>a. a \<notin> H \<longrightarrow> a \<notin> {g, g + PAGE_SIZE} \<longrightarrow> mem s' a = mem s a"
    using page_transfer_step [OF rd mf_start_page(8) [OF st sz map] mem, of snd_fp "space (tcbs s to)"]
    unfolding g map_fpage_page [OF st sz io sig rd] by fastforce
  have ne: "m \<noteq> f" using nodes_okD(1) [OF s'(3)] by auto
  have rd': "?a < USER_LIMIT" "has_table ?fs ?a s" "pte ?fs ?a s = pg f" "is_valid (pg f) s" "mapnode (pg f) (?a AND NOT 0xFFF) s = f"
    "{g, g + PAGE_SIZE} \<inter> ({pg f, pg f + PAGE_SIZE} \<union> insert (link_cell pr) H) = {}" "pg f \<notin> H" "pg f + PAGE_SIZE \<notin> H" "pg f \<noteq> link_cell pr"
    using rd nodes_okD(6) [of s U H pg pr "f # ns" f] by (auto simp: page_ready_def g)
  have same: "mem s' (pde ?fs ?a) = mem s (pde ?fs ?a)" "mem s' (pg f) = mem s (pg f)" "mem s' (pg f + PAGE_SIZE) = mem s (pg f + PAGE_SIZE)"
    using s'(8) sep rd'(6-8) by auto
  have a: "?a = fp_address snd_fp 12"
    using st sz map by (auto simp: mf_start_def Let_def split: if_splits)
  have pf: "(pg(m := g)) f = pg f" using ne by simp
  have t': "has_table ?fs ?a s'" "pte ?fs ?a s' = pg f" "is_valid (pg f) s'" "mapnode (pg f) (?a AND NOT 0xFFF) s' = f"
    using rd' same by (simp_all add: has_table_def is_valid_def is_subtree_def pte_def subtree_def mapnode_def GET_MAPNODE_def)
  note un = unmap_page_flush [OF s'(2-4) sz a rd'(1) t'(1), unfolded pf, OF t'(2-4) md(1)]
  obtain s'' where s'': "fpage_unmap ?fs snd_fp mode s' = Ok s''" "\<exists>V. mdb_ok s'' V H"
      "\<forall>x\<in>set (victims mode f (m # ns) s'). mem s'' ((pg(m := g)) x) = 0"
      "\<forall>a. a \<notin> H \<longrightarrow> a \<noteq> link_cell pr \<longrightarrow> a \<notin> pg_cells (pg(m := g)) (victims mode f (m # ns) s') \<longrightarrow> mem s'' a = mem s' a"
    using un by blast
  have df: "get_depth f s' = get_depth f s" using s'(7) by (simp add: get_depth_def mn_w2_def)
  have "m \<in> set (victims mode f (m # ns) s')" using s'(5) df dep by (intro new_node_victim) simp_all
  then have "mem s'' g = 0" using s''(3) by fastforce
  moreover have "pg f \<notin> pg_cells (pg(m := g)) (victims mode f (m # ns) s')"
  proof -
    have "set (victims mode f (m # ns) s') \<subseteq> set (m # ns)"
      using md(2) by (auto simp: victims_def deeper_def dest: set_takeWhileD split: if_splits)
    then have "pg_cells (pg(m := g)) (victims mode f (m # ns) s') \<subseteq> pg_cells (pg(m := g)) (m # ns)"
      unfolding pg_cells_def by (intro Un_mono image_mono)
    also have "\<dots> \<subseteq> {g, g + PAGE_SIZE} \<union> pg_cells pg ns" by (auto simp: pg_cells_def split: if_splits)
    finally have "pg_cells (pg(m := g)) (victims mode f (m # ns) s') \<subseteq> {g, g + PAGE_SIZE} \<union> pg_cells pg ns" .
    then show ?thesis using sep(2) rd'(6) by blast
  qed
  then have "mem s'' (pg f) = mem s (pg f)" using s''(4) rd'(7,9) same(2) by metis
  ultimately show ?thesis using s'(1,6) s''(1,2) rd'(4) by (auto simp: is_valid_def)
qed

section \<open>Examples\<close>

text \<open>The invariant of the allocator only looks at memory, the free list and the buffer lists.\<close>

lemma mdb_ok_fields:
  fixes s :: "'a mdb_mem_scheme" and t :: "'b mdb_mem_scheme"
  assumes "mem t = mem s" "kmem_free_list t = kmem_free_list s" "free_chunks t = free_chunks s" "mdb_buflists t = mdb_buflists s"
  shows "mdb_ok t U H \<longleftrightarrow> mdb_ok s U H"
proof -
  have "small_bl t = small_bl s" by (rule ext) (simp add: small_bl_def assms)
  moreover have "kmem_inv t xs \<longleftrightarrow> kmem_inv s xs" for xs by (simp add: kmem_inv_def assms)
  moreover have "pools_ok t i P F fl \<longleftrightarrow> pools_ok s i P F fl" for i P F fl by (simp add: pools_ok_def Let_def assms)
  ultimately have "mdb_inv t xs P F fl \<longleftrightarrow> mdb_inv s xs P F fl" for xs P F fl
    by (simp add: mdb_inv_def assms)
  moreover have "in_use t P F fl = in_use s P F fl" for P F fl by (rule ext) (simp add: in_use_def assms)
  ultimately show ?thesis by (simp add: mdb_ok_def)
qed

text \<open>Two spaces: the thread at \<open>0xE0010000\<close> has the page of the first node of the example list mapped at address 0, the thread at
  \<open>0xE0020000\<close> has an empty second-level table.\<close>

definition demo_spaces :: kstate where
  "demo_spaces = (boot_state 0xF0000400)\<lparr>
     mem := (mem demo_tree)(0x00301000 := 0xF010001C, 0x00400000 := 0x10300007, 0x00500000 := 0x10600007),
     kmem_free_list := kmem_free_list demo_tree, free_chunks := free_chunks demo_tree, mdb_buflists := mdb_buflists demo_tree,
     tcbs := (\<lambda>_. zero_tcb)(0xE0010000 := zero_tcb\<lparr>space := 0x10400000\<rparr>, 0xE0020000 := zero_tcb\<lparr>space := 0x10500000\<rparr>),
     current := 0xE0010000\<rparr>"

lemma demo_spaces_db:
  "mdb_ok demo_spaces demo_used (block 0xF0100000 4096)"
  "nodes_ok demo_spaces demo_used (block 0xF0100000 4096) demo_pg (PR 0x00200000) [0xF010001C, 0xF0100028, 0xF0100034]"
  "mlist (mem demo_spaces) demo_pg (PR 0x00200000) [0xF010001C, 0xF0100028, 0xF0100034]"
proof -
  define t where "t = wr 0x00500000 0x10600007 (wr 0x00400000 0x10300007 (wr 0x00301000 0xF010001C demo_tree))"
  have "mdb_ok t demo_used (block 0xF0100000 4096)"
    unfolding t_def by (intro mdb_ok_write demo_tree_ok) (simp_all add: block_def)
  moreover have "mem demo_spaces = mem t" "kmem_free_list demo_spaces = kmem_free_list t" "free_chunks demo_spaces = free_chunks t"
    "mdb_buflists demo_spaces = mdb_buflists t"
    by (simp_all add: demo_spaces_def t_def)
  ultimately show "mdb_ok demo_spaces demo_used (block 0xF0100000 4096)" by (simp add: mdb_ok_fields [of demo_spaces t])
  have bl: "mdb_buflists demo_spaces = mdb_buflists demo_tree" by (simp add: demo_spaces_def)
  show "nodes_ok demo_spaces demo_used (block 0xF0100000 4096) demo_pg (PR 0x00200000) [0xF010001C, 0xF0100028, 0xF0100034]"
    using demo_tree_nodes(1) unfolding nodes_ok_def bl .
  show "mlist (mem demo_spaces) demo_pg (PR 0x00200000) [0xF010001C, 0xF0100028, 0xF0100034]"
    by (rule mlist_frame [OF demo_tree_nodes(2)]) (simp_all add: demo_spaces_def)
qed

lemma demo_walk:
  "space (tcbs demo_spaces 0xE0010000) = 0x10400000" "space (tcbs demo_spaces 0xE0020000) = 0x10500000"
  "pde 0x10400000 0 = 0x00400000" "has_table 0x10400000 0 demo_spaces" "has_table 0x10500000 0 demo_spaces"
  "pte 0x10400000 0 demo_spaces = 0x00300000" "pte 0x10500000 0 demo_spaces = 0x00600000"
  by (simp_all add: demo_spaces_def demo_tree_def pde_def pgent_def table_index_def hw_pgshifts_def phys_to_virt_def KERNEL_OFFSET_def
      has_table_def is_valid_def is_subtree_def pte_def pg_next_def subtree_def PAGE_VALID_def PAGE_SUPER_def PAGE_MASK_def PAGE_SIZE_def)

lemma demo_start:
  "\<exists>v. mf_start 0 0x32 0x30 0x10400000 0x10500000 = Some (0, v) \<and> mf_faddr v = 0 \<and> mf_taddr v = 0"
proof -
  have "fp_size 0x32 = 12" "fp_size 0x30 = 12" "\<not> fp_grant 0x32"
    by (simp_all add: fp_size_def fp_grant_def mask_eq_exp_minus_1)
  then show ?thesis
    unfolding mf_start_def Let_def by (simp add: hw_pgshifts_def HW_NUM_PGSIZES_def fp_address_def shr_def base_mask_def mask_eq_exp_minus_1)
qed


lemma demo_ready:
  "page_ready demo_used (block 0xF0100000 4096) demo_pg (PR 0x00200000) 0xF010001C [0xF0100028, 0xF0100034]
     0x10400000 0 0x10500000 0 demo_spaces"
  "demo_pg 0xF010001C = 0x00300000" "is_valid 0x00300000 demo_spaces" "is_writable 0x00300000 demo_spaces"
  "mapnode 0x00300000 0 demo_spaces = 0xF010001C" "get_depth 0xF010001C demo_spaces = 1"
  "list_of_lists (mdb_buflists demo_spaces ! 0) \<noteq> NULL"
proof -
  show p: "demo_pg 0xF010001C = 0x00300000" by (simp add: demo_pg_def)
  show v: "is_valid 0x00300000 demo_spaces" "is_writable 0x00300000 demo_spaces" "mapnode 0x00300000 0 demo_spaces = 0xF010001C"
      "get_depth 0xF010001C demo_spaces = 1" "list_of_lists (mdb_buflists demo_spaces ! 0) \<noteq> NULL"
    by (simp_all add: demo_spaces_def demo_tree_def is_valid_def is_writable_def PAGE_VALID_def PAGE_WRITABLE_def mapnode_def GET_MAPNODE_def
        PAGE_SIZE_def get_depth_def mn_w2_def MDB_DEPTH_MASK_def demo_mdb_ready_def)
  have n: "\<not> is_valid 0x00600000 demo_spaces" by (simp add: demo_spaces_def demo_tree_def is_valid_def)
  show "page_ready demo_used (block 0xF0100000 4096) demo_pg (PR 0x00200000) 0xF010001C [0xF0100028, 0xF0100034]
     0x10400000 0 0x10500000 0 demo_spaces"
    using demo_spaces_db p v n demo_walk
    by (simp add: page_ready_def USER_LIMIT_def TCB_AREA_def word_aligned_def block_def PAGE_SIZE_def)
qed

lemma demo_fpage: "fp_size 0x32 = 12" "\<not> fp_grant 0x32" "fp_write 0x32" "(0x32 :: dword_t) < IOFP_LO_BOUND"
  "sigma0 demo_spaces = 0" "fp_address 0x32 12 = 0"
  by (simp_all add: fp_size_def fp_grant_def fp_write_def IOFP_LO_BOUND_def demo_spaces_def boot_state_def mask_eq_exp_minus_1
      fp_address_def shr_def)

text \<open>The receiver's entry for the page, found with the write right.\<close>

theorem map_page_correct_witness:
  "\<exists>m s'. map_fpage (\<lambda>_ _ _ s. Ok (0, s)) 0 0xE0010000 0xE0020000 0 0x32 0x30 demo_spaces = Ok (1, s') \<and>
     mlist (mem s') (demo_pg(m := 0x00600000)) (PR 0x00200000) [0xF010001C, m, 0xF0100028, 0xF0100034] \<and>
     is_valid 0x00600000 s' \<and> is_writable 0x00600000 s' \<and> mapnode 0x00600000 0 s' = m"
proof -
  obtain v where v: "mf_start 0 0x32 0x30 0x10400000 0x10500000 = Some (0, v)" "mf_faddr v = 0" "mf_taddr v = 0"
    using demo_start by blast
  have "\<exists>m s'. map_fpage (\<lambda>_ _ _ s. Ok (0, s)) 0 0xE0010000 0xE0020000 0 0x32 0x30 demo_spaces = Ok (1, s') \<and>
     mlist (mem s') (demo_pg(m := 0x00600000)) (PR 0x00200000) (0xF010001C # m # [0xF0100028, 0xF0100034]) \<and>
     is_valid 0x00600000 s' \<and> (is_writable 0x00600000 s' \<longleftrightarrow> is_writable (demo_pg 0xF010001C) demo_spaces \<and> fp_write 0x32) \<and>
     mapnode 0x00600000 (mf_taddr v) s' = m"
    using map_page_correct [of 0 "0x32" "0x30" demo_spaces "0xE0010000" "0xE0020000" 0 v demo_used "block 0xF0100000 4096" demo_pg
        "PR 0x00200000" "0xF010001C" "[0xF0100028, 0xF0100034]" "0x00600000" "\<lambda>_ _ _ s. Ok (0, s)" 0]
      v demo_fpage demo_walk demo_ready by fastforce
  then show ?thesis using demo_ready(2,4) demo_fpage(3) v(3) by auto
qed

theorem unmap_page_correct_witness:
  "\<exists>s'. sys_fpage_unmap (\<lambda>_ _ _. Ok) 0x32 2 demo_spaces = Ok s' \<and> \<not> is_valid 0x00300004 s' \<and>
     mlist (mem s') demo_pg (PR 0x00200000) [0xF010001C, 0xF0100034]"
proof -
  have vs: "victims 2 0xF010001C [0xF0100028, 0xF0100034] demo_spaces = [0xF0100028]"
    "survivors 2 0xF010001C [0xF0100028, 0xF0100034] demo_spaces = [0xF010001C, 0xF0100034]"
    by (simp_all add: victims_def survivors_def deeper_def beyond_def demo_spaces_def demo_tree_def get_depth_def mn_w2_def
        MDB_DEPTH_MASK_def MDB_ALL_SPACES_def)
  have c: "current demo_spaces = 0xE0010000" by (simp add: demo_spaces_def)
  have "\<exists>s'. sys_fpage_unmap (\<lambda>_ _ _. Ok) 0x32 2 demo_spaces = Ok s' \<and>
     mlist (mem s') demo_pg (PR 0x00200000) (survivors 2 0xF010001C [0xF0100028, 0xF0100034] demo_spaces) \<and>
     (\<forall>x\<in>set (victims 2 0xF010001C [0xF0100028, 0xF0100034] demo_spaces). \<not> is_valid (demo_pg x) s' \<and> GET_MAPNODE (demo_pg x) s' = 0)"
    using unmap_page_correct [OF demo_spaces_db, of "0x32" 0 2 "\<lambda>_ _ _. Ok"] demo_fpage demo_walk demo_ready c
    by (fastforce simp: USER_LIMIT_def TCB_AREA_def MDB_FLUSH_def)
  then show ?thesis unfolding vs by (auto simp: demo_pg_def)
qed

theorem map_unmap_revokes_witness:
  "\<exists>s' s''. map_fpage (\<lambda>_ _ _ s. Ok (0, s)) 0 0xE0010000 0xE0020000 0 0x32 0x30 demo_spaces = Ok (1, s') \<and> is_valid 0x00600000 s' \<and>
     fpage_unmap 0x10400000 0x32 2 s' = Ok s'' \<and> \<not> is_valid 0x00600000 s'' \<and> is_valid 0x00300000 s''"
proof -
  obtain v where v: "mf_start 0 0x32 0x30 0x10400000 0x10500000 = Some (0, v)" "mf_faddr v = 0" "mf_taddr v = 0"
    using demo_start by blast
  have c: "0x00400000 \<notin> block 0xF0100000 4096 \<union> {0x00600000, 0x00600000 + PAGE_SIZE}"
    "demo_pg 0xF010001C \<notin> pg_cells demo_pg [0xF0100028, 0xF0100034]" "(2 :: dword_t) AND MDB_FLUSH \<noteq> 0" "(2 :: dword_t) AND MDB_ALL_SPACES = 0"
    by (simp_all add: block_def PAGE_SIZE_def pg_cells_def demo_pg_def MDB_FLUSH_def MDB_ALL_SPACES_def)
  have "\<exists>s' s''. map_fpage (\<lambda>_ _ _ s. Ok (0, s)) 0 0xE0010000 0xE0020000 0 0x32 0x30 demo_spaces = Ok (1, s') \<and> is_valid 0x00600000 s' \<and>
     fpage_unmap (space (tcbs demo_spaces 0xE0010000)) 0x32 2 s' = Ok s'' \<and> \<not> is_valid 0x00600000 s'' \<and>
     is_valid (demo_pg 0xF010001C) s''"
    using map_unmap_revokes [of 0 "0x32" "0x30" demo_spaces "0xE0010000" "0xE0020000" 0 v demo_used "block 0xF0100000 4096" demo_pg
        "PR 0x00200000" "0xF010001C" "[0xF0100028, 0xF0100034]" "0x00600000" 2 "\<lambda>_ _ _ s. Ok (0, s)" 0]
      v demo_fpage demo_walk demo_ready c by fastforce
  then show ?thesis unfolding demo_walk(1) demo_ready(2) .
qed

end
