(* ===== verification/Space_Create.thy ===== *)
theory Space_Create
  imports Fpage_Ops
begin

text \<open>
  New address spaces (\<^verbatim>\<open>src/x86/memory.c\<close>) share the kernel's part of the page directory and have an empty user part;
  errors of the flexpage operations.
\<close>

section \<open>Creating a space\<close>

lemma copy_pgents_other [simp]:
  "kmem_free_list (copy_pgents k a b s) = kmem_free_list s" "free_chunks (copy_pgents k a b s) = free_chunks s"
  "kmem.more (copy_pgents k a b s) = kmem.more s"
  by (induction k arbitrary: a b s) (simp_all add: pg_copy_def)

lemma copy_pgents_mem:
  assumes "4 * k < 2 ^ 32" and "\<forall>i<k. \<forall>j<k. a + 4 * of_nat i \<noteq> b + 4 * of_nat j"
  shows "mem (copy_pgents k a b s) x =
    (if \<exists>j<k. x = a + 4 * of_nat j then mem s (x - a + b) else mem s x)"
  using assms
proof (induction k arbitrary: a b s)
  case (Suc k)
  have dis: "\<forall>i<k. \<forall>j<k. (a + 4) + 4 * of_nat i \<noteq> (b + 4) + 4 * of_nat j"
  proof (intro allI impI)
    fix i j assume "i < k" "j < k"
    then show "(a + 4) + 4 * of_nat i \<noteq> (b + 4) + 4 * of_nat j"
      using Suc.prems(2) [rule_format, of "Suc i" "Suc j"] by (simp add: algebra_simps)
  qed
  have IH: "mem (copy_pgents (Suc k) a b s) x =
      (if \<exists>j<k. x = (a + 4) + 4 * of_nat j then mem (pg_copy a b s) (x - a + b) else mem (pg_copy a b s) x)"
  proof -
    have "mem (copy_pgents k (a + 4) (b + 4) (pg_copy a b s)) x =
        (if \<exists>j<k. x = (a + 4) + 4 * of_nat j then mem (pg_copy a b s) (x - (a + 4) + (b + 4)) else mem (pg_copy a b s) x)"
      by (rule Suc.IH) (use Suc.prems(1) dis in auto)
    moreover have "x - (a + 4) + (b + 4) = x - a + b" by simp
    ultimately show ?thesis by (simp only: copy_pgents.simps pg_next_def mult_1_right)
  qed
  have ex: "(\<exists>j<Suc k. x = a + 4 * of_nat j) \<longleftrightarrow> x = a \<or> (\<exists>j<k. x = (a + 4) + 4 * of_nat j)"
  proof -
    have e: "a + 4 * of_nat (Suc j) = (a + 4) + 4 * of_nat j" for j by (simp add: algebra_simps)
    have "(\<exists>j<Suc k. x = a + 4 * of_nat j) \<longleftrightarrow> x = a + 4 * of_nat 0 \<or> (\<exists>j<k. x = a + 4 * of_nat (Suc j))"
      unfolding less_Suc_eq_0_disj by blast
    then show ?thesis unfolding e by simp
  qed
  have na: "a \<noteq> (a + 4) + 4 * of_nat j" if "j < k" for j
  proof
    assume "a = (a + 4) + 4 * of_nat j"
    then have "of_nat (4 * Suc j) = (0 :: dword_t)" by (simp add: algebra_simps)
    moreover have "4 * Suc j < 2 ^ 32" using that Suc.prems(1) by simp
    ultimately show False using unat_of_nat_small [where 'a = 32, of "4 * Suc j"] by simp
  qed
  have src: "x - a + b \<noteq> a" if "j < k" "x = (a + 4) + 4 * of_nat j" for j
    using Suc.prems(2) [rule_format, of 0 "Suc j"] that by (simp add: algebra_simps)
  show ?case
  proof (cases "\<exists>j<k. x = (a + 4) + 4 * of_nat j")
    case True
    define y where "y = x - a + b"
    have "y \<noteq> a" using True src unfolding y_def by blast
    then show ?thesis using True unfolding IH ex y_def [symmetric] by (simp add: pg_copy_def)
  next
    case False
    then show ?thesis unfolding IH ex using na by (auto simp: pg_copy_def)
  qed
qed simp


lemma block_cell:
  fixes c :: dword_t
  assumes "unat c + n \<le> 2 ^ 32" "k < n"
  shows "unat (c + of_nat k) = unat c + k"
proof -
  have "unat c + k < 2 ^ 32" using assms by simp
  moreover have "unat (of_nat k :: dword_t) = k" using assms by (intro unat_of_nat_small) simp
  ultimately show ?thesis using unat_add_noflow [of c "of_nat k"] by simp
qed

lemma wr_shape: "s' = s\<lparr>mem := mem s'\<rparr> \<Longrightarrow> wr p x s' = s\<lparr>mem := mem (wr p x s')\<rparr>"
proof -
  assume a: "s' = s\<lparr>mem := mem s'\<rparr>"
  have "wr p x (s\<lparr>mem := m\<rparr>) = s\<lparr>mem := mem (wr p x (s\<lparr>mem := m\<rparr>))\<rparr>" for m by (simp add: wr_def)
  from this [of "mem s'"] show ?thesis unfolding a [symmetric] .
qed

lemma copy_pgents_shape: "copy_pgents k a b s = s\<lparr>mem := mem (copy_pgents k a b s)\<rparr>"
proof -
  have "s' = s\<lparr>mem := mem s'\<rparr> \<Longrightarrow> copy_pgents k a b s' = s\<lparr>mem := mem (copy_pgents k a b s')\<rparr>" for s'
  proof (induction k arbitrary: a b s')
    case (Suc k)
    from Suc.IH [OF wr_shape [OF Suc.prems]] show ?case by (simp add: pg_copy_def)
  qed simp
  then show ?thesis by simp
qed

text \<open>The last 128 of the 1024 entries at \<open>c\<close> are copied from the directory at \<open>kd\<close>.\<close>

lemma copy_upper_entries:
  fixes s :: "'a kmem_scheme"
  assumes fit: "unat c + 8192 \<le> 2 ^ 32"
    and dir: "\<forall>j<1024. unat (kd + 4 * of_nat j) < unat c \<or> unat c + 8192 \<le> unat (kd + 4 * of_nat j)"
  defines "s' \<equiv> copy_pgents 128 (c + 4 * of_nat 896) (kd + 4 * of_nat 896) s"
  shows "j < 2048 \<Longrightarrow> mem s' (c + 4 * of_nat j) = (if 896 \<le> j \<and> j < 1024 then mem s (kd + 4 * of_nat j) else mem s (c + 4 * of_nat j))"
    and "unat x < unat c \<or> unat c + 8192 \<le> unat x \<Longrightarrow> mem s' x = mem s x"
proof -
  define a b where "a = c + 4 * of_nat 896" and "b = kd + 4 * of_nat 896"
  have cell: "unat (c + 4 * of_nat i) = unat c + 4 * i" if "i < 2048" for i
    using block_cell [OF fit, of "4 * i"] that by simp
  have ac: "a + 4 * of_nat i = c + 4 * of_nat (896 + i)" "b + 4 * of_nat i = kd + 4 * of_nat (896 + i)" for i
    by (simp_all add: a_def b_def)
  have dis: "a + 4 * of_nat i \<noteq> b + 4 * of_nat k" if "i < 128" "k < 128" for i k
  proof
    assume "a + 4 * of_nat i = b + 4 * of_nat k"
    then have e: "c + 4 * of_nat (896 + i) = kd + 4 * of_nat (896 + k)" unfolding ac .
    have u: "unat (kd + 4 * of_nat (896 + k)) = unat c + 4 * (896 + i)" unfolding e [symmetric] using that by (intro cell) simp
    show False using dir [rule_format, of "896 + k", unfolded u] that by simp
  qed
  have m: "mem s' x = (if \<exists>i<128. x = a + 4 * of_nat i then mem s (x - a + b) else mem s x)" for x
    unfolding s'_def a_def [symmetric] b_def [symmetric] by (rule copy_pgents_mem) (use dis in auto)
  have at: "j = 896 + i" if "c + 4 * of_nat j = a + 4 * of_nat i" "j < 2048" "i < 128" for i j
  proof -
    have i: "896 + i < 2048" using that(3) by simp
    have "unat (c + 4 * of_nat j) = unat (c + 4 * of_nat (896 + i))" using that(1) unfolding ac by simp
    then show ?thesis unfolding cell [OF that(2)] cell [OF i] by simp
  qed
  show "mem s' (c + 4 * of_nat j) = (if 896 \<le> j \<and> j < 1024 then mem s (kd + 4 * of_nat j) else mem s (c + 4 * of_nat j))" if j: "j < 2048"
  proof (cases "896 \<le> j \<and> j < 1024")
    case True
    define i where "i = j - 896"
    have i: "j = 896 + i" "i < 128" using True by (auto simp: i_def)
    have "mem s' (a + 4 * of_nat i) = mem s (b + 4 * of_nat i)" using m [of "a + 4 * of_nat i"] i(2) by (auto simp: add.commute)
    then show ?thesis using True unfolding ac i(1) [symmetric] by simp
  next
    case False
    have "c + 4 * of_nat j \<noteq> a + 4 * of_nat i" if "i < 128" for i
    proof
      assume "c + 4 * of_nat j = a + 4 * of_nat i"
      from at [OF this j that] show False using False that by simp
    qed
    then have n: "\<not> (\<exists>i<128. c + 4 * of_nat j = a + 4 * of_nat i)" by blast
    show ?thesis using m [of "c + 4 * of_nat j"] unfolding if_not_P [OF n] if_not_P [OF False] .
  qed
  show "mem s' x = mem s x" if "unat x < unat c \<or> unat c + 8192 \<le> unat x"
  proof -
    have "x \<noteq> a + 4 * of_nat i" if "i < 128" for i using cell [of "896 + i"] \<open>unat x < unat c \<or> unat c + 8192 \<le> unat x\<close> that unfolding ac by auto
    then have n: "\<not> (\<exists>i<128. x = a + 4 * of_nat i)" by blast
    show ?thesis using m [of x] unfolding if_not_P [OF n] .
  qed
qed

text \<open>\<^bold>\<open>C23.\<close> A new address space has exactly the kernel's entries for the area of the thread control
  blocks and above, no entry below, and no mapping node in its shadow page; its two pages leave the free list,
  which stays well-formed, and nothing else changes.\<close>

theorem create_space_correct:
  fixes s :: "'a kmem_scheme"
  assumes inv: "kmem_inv s xs" and split: "alloc_split 8192 8 xs = Some (pre, c, rest)"
    and dir: "\<forall>j<1024. phys_to_virt kspace + 4 * of_nat j \<notin> set pre \<and>
      (unat (phys_to_virt kspace + 4 * of_nat j) < unat c \<or> unat c + 8192 \<le> unat (phys_to_virt kspace + 4 * of_nat j))"
  shows "\<exists>s'. create_space kspace s = Some (virt_to_phys c, s') \<and> kmem_inv s' (pre @ rest) \<and> kmem.more s' = kmem.more s \<and>
    (\<forall>j<1024. mem s' (c + 4 * of_nat j) = (if j < 896 then 0 else mem s (phys_to_virt kspace + 4 * of_nat j))) \<and>
    (\<forall>j<1024. mem s' (c + PAGE_SIZE + 4 * of_nat j) = 0) \<and>
    (\<forall>x. unat x < unat c \<or> unat c + 8192 \<le> unat x \<longrightarrow> x \<notin> set pre \<longrightarrow> mem s' x = mem s x)"
proof -
  let ?kd = "phys_to_virt kspace"
  have sz: "Suc 7 = 8" "1024 * 8 = (8192 :: nat)" "of_nat 8192 = (8192 :: dword_t)" by simp_all
  obtain s1 where s1: "kmem_alloc 8192 s = Some (c, s1)" "kmem_inv s1 (pre @ rest)" "kmem.more s1 = kmem.more s"
      "\<forall>x. unat c \<le> unat x \<and> unat x < unat c + 8192 \<and> 4 dvd unat x \<longrightarrow> mem s1 x = 0"
      "\<forall>x. unat x < unat c \<or> unat c + 8192 \<le> unat x \<longrightarrow> x \<notin> set pre \<longrightarrow> mem s1 x = mem s x"
    using kmem_alloc_hit [OF inv, of 7, unfolded sz, OF split] by blast
  have xs: "xs = pre @ chunks c (Suc 7) @ rest" using alloc_split_Some [OF split] by simp
  note ar = kmem_inv_around [OF inv [unfolded xs], unfolded sz]
  have c4: "4 dvd unat c" using ar(1) unfolding chunk_aligned_def by (rule dvd_trans [rotated]) simp
  have zero: "mem s1 (c + 4 * of_nat j) = 0" if "j < 2048" for j
    using s1(4) block_cell [OF ar(3), of "4 * j"] c4 that by simp
  define s' where "s' = copy_pgents 128 (c + 4 * of_nat 896) (?kd + 4 * of_nat 896) s1"
  have upper: "mem s' (c + 4 * of_nat j) = (if 896 \<le> j \<and> j < 1024 then mem s1 (?kd + 4 * of_nat j) else mem s1 (c + 4 * of_nat j))"
      if "j < 2048" for j
    unfolding s'_def by (rule copy_upper_entries(1) [OF ar(3) _ that]) (use dir in blast)
  have same: "mem s' x = mem s1 x" if "unat x < unat c \<or> unat c + 8192 \<le> unat x" for x
    unfolding s'_def by (rule copy_upper_entries(2) [OF ar(3) _ that]) (use dir in blast)
  have shape: "s' = s1\<lparr>mem := mem s'\<rparr>" unfolding s'_def by (rule copy_pgents_shape)
  have "pgent (virt_to_phys c) 896 = c + 4 * of_nat 896" "pgent kspace 896 = ?kd + 4 * of_nat 896" "phys_to_virt (virt_to_phys c) = c"
    by (simp_all add: phys_to_virt_def virt_to_phys_def pgent_def)
  then have "create_space kspace s = Some (virt_to_phys c, s')"
    using s1(1) by (simp add: create_space_def SPACE_ALLOC_SIZE_def PAGE_SIZE_def PAGEDIR_BITS_def TCB_AREA_def s'_def Let_def)
  moreover have "kmem_inv s' (pre @ rest)"
    using kmem_inv_mem [OF s1(2), of "mem s'"] same ar(4,5) by (subst shape) (auto simp: word_less_nat_alt)
  moreover have "kmem.more s' = kmem.more s" using s1(3) by (subst shape) simp
  moreover have "mem s' (c + 4 * of_nat j) = (if j < 896 then 0 else mem s (?kd + 4 * of_nat j))" if "j < 1024" for j
    using upper [of j] zero [of j] dir s1(5) that by (cases "j < 896") auto
  moreover have "mem s' (c + PAGE_SIZE + 4 * of_nat j) = 0" if "j < 1024" for j
  proof -
    have e: "c + PAGE_SIZE + 4 * of_nat j = c + 4 * of_nat (1024 + j)" by (simp add: PAGE_SIZE_def)
    show ?thesis unfolding e using upper [of "1024 + j"] zero [of "1024 + j"] that by simp
  qed
  ultimately show ?thesis using same s1(5) by (intro exI [of _ s']) auto
qed


lemma demo_kmem9: "\<exists>k :: kmem. kmem_inv k (chunks 0xF0100000 9)"
proof -
  define xs where "xs = (chunks 0xF0100000 9 :: ptr_t list)"
  have xs: "xs = [0xF0100000, 0xF0100400, 0xF0100800, 0xF0100C00, 0xF0101000, 0xF0101400, 0xF0101800, 0xF0101C00, 0xF0102000]"
    unfolding xs_def by code_simp
  define m :: wmem where "m = (\<lambda>_. 0)(0xF0100000 := 0xF0100400, 0xF0100400 := 0xF0100800, 0xF0100800 := 0xF0100C00,
    0xF0100C00 := 0xF0101000, 0xF0101000 := 0xF0101400, 0xF0101400 := 0xF0101800, 0xF0101800 := 0xF0101C00, 0xF0101C00 := 0xF0102000)"
  have "kmem_inv \<lparr>mem = m, kmem_free_list = 0xF0100000, free_chunks = 9\<rparr> xs"
    unfolding kmem_inv_def xs by (simp add: m_def chunk_aligned_def dvd_eq_mod_eq_0)
  then show ?thesis unfolding xs_def by blast
qed

theorem create_space_correct_witness:
  "\<exists>(s :: kmem) s'. create_space 0x00300000 s = Some (0x00100000, s') \<and>
     (\<forall>j<896. mem s' (0xF0100000 + 4 * of_nat j) = 0) \<and> mem s' (0xF0100E00) = mem s (0xF0300E00)"
proof -
  obtain s :: kmem where s: "kmem_inv s (chunks 0xF0100000 9)" using demo_kmem9 by blast
  have sp: "alloc_split 8192 8 (chunks 0xF0100000 9) = Some ([], 0xF0100000, [0xF0102000])" by code_simp
  have kd: "phys_to_virt 0x00300000 = 0xF0300000" by (simp add: phys_to_virt_def KERNEL_OFFSET_def)
  have "unat ((0xF0300000 :: dword_t) + 4 * of_nat j) = 0xF0300000 + 4 * j" if "j < 1024" for j
    using block_cell [of "0xF0300000" 4096 "4 * j"] that by simp
  then have "\<exists>s'. create_space 0x00300000 s = Some (virt_to_phys 0xF0100000, s') \<and>
     (\<forall>j<1024. mem s' (0xF0100000 + 4 * of_nat j) = (if j < 896 then 0 else mem s (0xF0300000 + 4 * of_nat j)))"
    using create_space_correct [OF s sp, of "0x00300000"] unfolding kd by auto
  then obtain s' where s': "create_space 0x00300000 s = Some (virt_to_phys 0xF0100000, s')"
     "\<forall>j<1024. mem s' (0xF0100000 + 4 * of_nat j) = (if j < 896 then 0 else mem s (0xF0300000 + 4 * of_nat j))" by blast
  have "mem s' 0xF0100E00 = mem s 0xF0300E00" using s'(2) [rule_format, of 896] by simp
  then show ?thesis using s' by (intro exI [of _ s] exI [of _ s']) (simp add: virt_to_phys_def KERNEL_OFFSET_def)
qed

section \<open>Rejected transfers\<close>

text \<open>A send window that is larger than the receive window or smaller than a page is rejected with
  result 0; a transfer out of or into the kernel's part of an address space, and the unmapping of pages there,
  return without changing anything, except that sigma0 may send from everywhere.\<close>

theorem fpage_rejects:
  fixes s :: kstate
  assumes io: "snd_fp < IOFP_LO_BOUND"
  shows "(fp_size rcv_fp < fp_size snd_fp \<or> fp_size snd_fp < 12 \<longrightarrow> map_fpage mio sn from to base snd_fp rcv_fp s = Ok (0, s)) \<and>
    (mf_start base snd_fp rcv_fp (space (tcbs s from)) (space (tcbs s to)) = Some (pgsize, v) \<and>
       (mf_taddr v \<ge> USER_LIMIT \<or> (mf_faddr v \<ge> USER_LIMIT \<and> from \<noteq> sigma0 s)) \<longrightarrow>
       map_fpage mio sn from to base snd_fp rcv_fp s = Ok (1, s)) \<and>
    (fp_size snd_fp < 12 \<or> fp_address snd_fp (fp_size snd_fp) \<ge> USER_LIMIT \<longrightarrow> sys_fpage_unmap uio snd_fp mode s = Ok s)"
proof (intro conjI impI)
  have nio: "\<not> (IOFP_LO_BOUND \<le> snd_fp \<and> snd_fp \<le> IOFP_HI_BOUND)" using io by auto
  show "map_fpage mio sn from to base snd_fp rcv_fp s = Ok (0, s)" if "fp_size rcv_fp < fp_size snd_fp \<or> fp_size snd_fp < 12"
    using that nio unfolding map_fpage_def if_not_P [OF nio] by (auto simp: mf_start_def hw_pgshifts_def)
  show "map_fpage mio sn from to base snd_fp rcv_fp s = Ok (1, s)"
    if "mf_start base snd_fp rcv_fp (space (tcbs s from)) (space (tcbs s to)) = Some (pgsize, v) \<and>
       (mf_taddr v \<ge> USER_LIMIT \<or> (mf_faddr v \<ge> USER_LIMIT \<and> from \<noteq> sigma0 s))"
  proof -
    have "mf_loop (from = sigma0 s) sn pgsize snd_fp ts v s = Ok s" for ts using that by (subst mf_loop.simps) auto
    then show ?thesis unfolding map_fpage_def if_not_P [OF nio] using that by simp
  qed
  show "sys_fpage_unmap uio snd_fp mode s = Ok s" if "fp_size snd_fp < 12 \<or> fp_address snd_fp (fp_size snd_fp) \<ge> USER_LIMIT"
  proof -
    have "um_loop p mode v s = Ok s" if "um_vaddr v \<ge> USER_LIMIT" for p v using that by (subst um_loop.simps) simp
    then show ?thesis using that unfolding sys_fpage_unmap_def if_not_P [OF nio] fpage_unmap_def Let_def by (auto simp: hw_pgshifts_def)
  qed
qed

theorem fpage_rejects_witness:
  "map_fpage (\<lambda>_ _ _ s. Ok (0, s)) 0 1 2 0 0x32 0x2C (boot_state 4) = Ok (0, boot_state 4) \<and>
   sys_fpage_unmap (\<lambda>_ _ _. Ok) 0xE0000032 2 (boot_state 4) = Ok (boot_state 4)"
proof -
  have "fp_size 0x2C < fp_size 0x32" "(0x32 :: dword_t) < IOFP_LO_BOUND"  "(0xE0000032 :: dword_t) < IOFP_LO_BOUND"
    "fp_address 0xE0000032 (fp_size 0xE0000032) \<ge> USER_LIMIT"
    by (simp_all add: fp_size_def IOFP_LO_BOUND_def mask_eq_exp_minus_1 fp_address_def shr_def USER_LIMIT_def TCB_AREA_def)
  then show ?thesis
    using fpage_rejects [of "0x32" "0x2C" "\<lambda>_ _ _ s. Ok (0, s)" 0 1 2 0 "boot_state 4" 0 undefined "\<lambda>_ _ _. Ok" 0]
      fpage_rejects [of "0xE0000032" 0 "\<lambda>_ _ _ s. Ok (0, s)" 0 1 2 0 "boot_state 4" 0 undefined "\<lambda>_ _ _. Ok" 2] by simp
qed

section \<open>The window of a transfer\<close>

text \<open>The addresses of a transfer: the send address is the start of the send window, with bit 0 set
  for a grant, and the receive address is the start of a block of the size of the send window that lies inside the receive
  window, at the place the base selects.\<close>

lemma mf_window_correct:
  assumes st: "mf_start base snd_fp rcv_fp fs ts = Some (pgsize, v)" and r: "fp_size rcv_fp \<le> 32"
  shows "bit (mf_taddr v) k = window_bits base rcv_fp (unat (fp_size snd_fp)) (unat (fp_size rcv_fp)) k \<and>
    (bit (mf_faddr v) k \<longleftrightarrow> (k = 0 \<and> fp_grant snd_fp) \<or> (unat (fp_size snd_fp) \<le> k \<and> bit snd_fp k)) \<and>
    12 \<le> unat (fp_size snd_fp) \<and> unat (fp_size snd_fp) \<le> unat (fp_size rcv_fp) \<and>
    unat (mf_fnum v) * 2 ^ (hw_pgshifts ! pgsize) = 2 ^ unat (fp_size snd_fp)"
proof -
  let ?f = "fp_size snd_fp" and ?r = "fp_size rcv_fp"
  have f: "?f \<le> ?r" "12 \<le> ?f" using st by (auto simp: mf_start_def hw_pgshifts_def split: if_splits)
  have u: "unat ?f \<le> unat ?r" "12 \<le> unat ?f" "unat ?r \<le> 32" using f r by (simp_all add: word_le_nat_alt)
  have fm: "shr (- 1) (32 - ?f) = mask (unat ?f)" using u by (intro shr_mask) auto
  have v: "mf_taddr v = (fp_address rcv_fp ?f AND NOT (base_mask rcv_fp ?f)) + (base AND base_mask rcv_fp ?f)"
    "mf_faddr v = (if fp_grant snd_fp then fp_address snd_fp ?f OR 1 else fp_address snd_fp ?f)"
    "pgsize = find_pgsize 1 ?f" "mf_fnum v = shl 1 (?f - of_nat (hw_pgshifts ! pgsize))"
    using st f by (auto simp: mf_start_def Let_def hw_pgshifts_def HW_NUM_PGSIZES_def)
  have bm: "bit (base_mask rcv_fp ?f) k \<longleftrightarrow> unat ?f \<le> k \<and> k < unat ?r" for k
    using u by (intro base_mask_bits) auto
  have "bit (mf_taddr v) k = window_bits base rcv_fp (unat ?f) (unat ?r) k"
  proof -
    have "(fp_address rcv_fp ?f AND NOT (base_mask rcv_fp ?f)) AND (base AND base_mask rcv_fp ?f) = 0"
      by (rule bit_word_eqI) (auto simp: bit_simps)
    then have "mf_taddr v = (fp_address rcv_fp ?f AND NOT (base_mask rcv_fp ?f)) OR (base AND base_mask rcv_fp ?f)"
      unfolding v(1) by (rule disjunctive_add_eq_or)
    then show ?thesis using u by (auto simp: window_bits_def fp_address_def fm bm bit_simps dest: bit_imp_le_length)
  qed
  moreover have "bit (mf_faddr v) k \<longleftrightarrow> (k = 0 \<and> fp_grant snd_fp) \<or> (unat ?f \<le> k \<and> bit snd_fp k)"
    unfolding v(2) fp_address_def using fm u(2) by (auto simp: bit_simps dest: bit_imp_le_length)
  moreover have "unat (mf_fnum v) * 2 ^ (hw_pgshifts ! pgsize) = 2 ^ unat ?f"
  proof (cases "?f < 22")
    case True
    then have "pgsize = 0" using v(3) by (simp only: find_pgsize_1) simp
    then show ?thesis using v(4) True u pages_of_size [of 12 ?f] by (simp add: hw_pgshifts_def word_less_nat_alt)
  next
    case False
    then have "pgsize = 1" using v(3) by (simp only: find_pgsize_1) simp
    then show ?thesis using v(4) False u pages_of_size [of 22 ?f] by (simp add: hw_pgshifts_def word_less_nat_alt)
  qed
  ultimately show ?thesis using u by blast
qed


end
