(* ===== verification/Io_Mapping.thy ===== *)
theory Io_Mapping
  imports Fpage
begin

text \<open>
  The mapping database for I/O ports, \<^verbatim>\<open>src/x86/io_mapping.c\<close>. Who has which ports is kept in nodes of 28 bytes in the
  buffers of the mapping database: every node covers the ports from a lower bound up to, but without, a higher bound.
  The nodes of all tasks form one list in tree order with depths, as the mappings of a frame do; the nodes of one task form
  a ring that starts and ends at a dummy node, to which an otherwise unused word of the task's page directory points.
  What the processor checks is the task's permission bitmap, a zero bit for every port that it may use; a task without
  ports shares the default bitmap with all bits set.

  The shipped configuration has no \<^verbatim>\<open>CONFIG_AUTO_IO_MAP\<close> and no \<^verbatim>\<open>CONFIG_ENABLE_PVI\<close>; the lock macros \<^verbatim>\<open>io_mdb_p\<close> and
  \<^verbatim>\<open>io_mdb_v\<close> and \<^verbatim>\<open>dump_io_mdb\<close> are empty, and the TLB is not modelled. Using the null pointer is the value
  \<open>Null_deref\<close>. Loops that follow pointers are partial functions (\<open>None\<close>: no result).
\<close>

definition pgtab_idx :: "dword_t \<Rightarrow> dword_t" where
  "pgtab_idx addr = drop_bit 12 addr AND NOT (drop_bit 2 PAGE_MASK)"

text \<open>The variables that start-up sets once, and the addresses of the two static nodes.\<close>

record io_vars =
  io_kspace :: ptr_t
  iopbm_virt :: dword_t
  iopbm_phys :: ptr_t
  iopbm_pgt :: ptr_t
  sigma0_io_space :: ptr_t
  io_mdb_end :: ptr_t

definition IOPBM_DEFAULT_VALUE :: dword_t where "IOPBM_DEFAULT_VALUE = NOT 0"
definition X86_IOPERMBITMAP_SIZE :: dword_t where "X86_IOPERMBITMAP_SIZE = 0x10000"
definition IO_SPACE_IDX :: dword_t where "IO_SPACE_IDX = 915"

definition IOFP_PORT :: "fpage_t \<Rightarrow> dword_t" where "IOFP_PORT x = drop_bit 12 x AND 0x0000FFFF"
definition IOFP_LD_SIZE :: "fpage_t \<Rightarrow> dword_t" where "IOFP_LD_SIZE x = drop_bit 2 x AND 0x0000003F"
definition IOFP_SIZE :: "fpage_t \<Rightarrow> dword_t" where "IOFP_SIZE x = shl 1 (IOFP_LD_SIZE x)"

definition IOMDB_LO_MASK :: dword_t where "IOMDB_LO_MASK = 0xFFFF0000"
definition IOMDB_TID_MASK :: dword_t where "IOMDB_TID_MASK = 0x000000FF"
definition IOMDB_HI_MASK :: dword_t where "IOMDB_HI_MASK = 0xFFFF8000"
definition IOMDB_DUMMY_MASK :: dword_t where "IOMDB_DUMMY_MASK = 0x00004000"
definition IOMDB_DEPTH_MASK :: dword_t where "IOMDB_DEPTH_MASK = 0x00003FFF"
definition IOMDB_SUP_DEPTH :: dword_t where "IOMDB_SUP_DEPTH = 0x00004000"
definition FLUSH_OWN_SPACE :: dword_t where "FLUSH_OWN_SPACE = push_bit 31 1"

section \<open>Nodes\<close>

definition io_w1 :: "ptr_t \<Rightarrow> ptr_t" where "io_w1 n = n"
definition io_w2 :: "ptr_t \<Rightarrow> ptr_t" where "io_w2 n = n + 4"
definition io_next :: "ptr_t \<Rightarrow> ptr_t" where "io_next n = n + 8"
definition io_prev :: "ptr_t \<Rightarrow> ptr_t" where "io_prev n = n + 12"
definition io_next_st :: "ptr_t \<Rightarrow> ptr_t" where "io_next_st n = n + 16"
definition io_prev_st :: "ptr_t \<Rightarrow> ptr_t" where "io_prev_st n = n + 20"
definition io_parent :: "ptr_t \<Rightarrow> ptr_t" where "io_parent n = n + 24"
definition sizeof_io_mnode_t :: dword_t where "sizeof_io_mnode_t = 28"

definition io_get_lo :: "ptr_t \<Rightarrow> 'a kmem_scheme \<Rightarrow> dword_t" where
  "io_get_lo n s = drop_bit 16 (mem s (io_w1 n))"

definition io_set_lo :: "ptr_t \<Rightarrow> dword_t \<Rightarrow> 'a kmem_scheme \<Rightarrow> 'a kmem_scheme" where
  "io_set_lo n l s = wr (io_w1 n) ((mem s (io_w1 n) AND IOMDB_TID_MASK) OR push_bit 16 l) s"

definition io_get_tid :: "ptr_t \<Rightarrow> 'a kmem_scheme \<Rightarrow> l4_threadid_t" where
  "io_get_tid n s = push_bit 16 (mem s (io_w1 n) AND IOMDB_TID_MASK)"

definition io_set_tid :: "ptr_t \<Rightarrow> l4_threadid_t \<Rightarrow> 'a kmem_scheme \<Rightarrow> 'a kmem_scheme" where
  "io_set_tid n t s = wr (io_w1 n) ((mem s (io_w1 n) AND IOMDB_LO_MASK) OR (drop_bit 16 t AND IOMDB_TID_MASK)) s"

definition io_get_hi :: "ptr_t \<Rightarrow> 'a kmem_scheme \<Rightarrow> dword_t" where
  "io_get_hi n s = drop_bit 15 (mem s (io_w2 n))"

definition io_set_hi :: "ptr_t \<Rightarrow> dword_t \<Rightarrow> 'a kmem_scheme \<Rightarrow> 'a kmem_scheme" where
  "io_set_hi n h s = wr (io_w2 n) ((mem s (io_w2 n) AND (IOMDB_DEPTH_MASK OR IOMDB_DUMMY_MASK)) OR push_bit 15 h) s"

definition io_get_dummy :: "ptr_t \<Rightarrow> 'a kmem_scheme \<Rightarrow> dword_t" where
  "io_get_dummy n s = mem s (io_w2 n) AND IOMDB_DUMMY_MASK"

definition io_set_dummy :: "ptr_t \<Rightarrow> 'a kmem_scheme \<Rightarrow> 'a kmem_scheme" where
  "io_set_dummy n s = wr (io_w2 n) (mem s (io_w2 n) OR IOMDB_DUMMY_MASK) s"

definition io_get_depth :: "ptr_t \<Rightarrow> 'a kmem_scheme \<Rightarrow> dword_t" where
  "io_get_depth n s = mem s (io_w2 n) AND IOMDB_DEPTH_MASK"

definition io_set_depth :: "ptr_t \<Rightarrow> dword_t \<Rightarrow> 'a kmem_scheme \<Rightarrow> 'a kmem_scheme" where
  "io_set_depth n d s = wr (io_w2 n) ((mem s (io_w2 n) AND (IOMDB_HI_MASK OR IOMDB_DUMMY_MASK)) OR (d AND IOMDB_DEPTH_MASK)) s"

definition io_set_values ::
    "ptr_t \<Rightarrow> dword_t \<Rightarrow> dword_t \<Rightarrow> l4_threadid_t \<Rightarrow> dword_t \<Rightarrow> bool \<Rightarrow> 'a kmem_scheme \<Rightarrow> 'a kmem_scheme" where
  "io_set_values n lo hi tid depth dummy s =
     (let s = wr (io_w1 n) (push_bit 16 lo OR (drop_bit 16 tid AND IOMDB_TID_MASK)) s
      in wr (io_w2 n) ((push_bit 15 hi OR (if dummy then IOMDB_DUMMY_MASK else 0)) OR (depth AND IOMDB_DEPTH_MASK)) s)"

definition io_enq_thread_list :: "ptr_t \<Rightarrow> ptr_t \<Rightarrow> 'a kmem_scheme \<Rightarrow> 'a kmem_scheme" where
  "io_enq_thread_list n before s =
     (let s = wr (io_next_st n) before s;
          s = wr (io_prev_st n) (mem s (io_prev_st before)) s;
          s = wr (io_prev_st before) n s
      in wr (io_next_st (mem s (io_prev_st n))) n s)"

definition io_deq_thread_list :: "ptr_t \<Rightarrow> 'a kmem_scheme \<Rightarrow> 'a kmem_scheme" where
  "io_deq_thread_list n s =
     (let s = wr (io_prev_st (mem s (io_next_st n))) (mem s (io_prev_st n)) s
      in wr (io_next_st (mem s (io_prev_st n))) (mem s (io_next_st n)) s)"

definition io_enq_subtree :: "ptr_t \<Rightarrow> ptr_t \<Rightarrow> 'a kmem_scheme \<Rightarrow> 'a kmem_scheme" where
  "io_enq_subtree n after s =
     (let s = wr (io_next n) (mem s (io_next after)) s;
          s = wr (io_prev n) after s;
          s = wr (io_prev (mem s (io_next n))) n s
      in wr (io_next after) n s)"

definition io_deq_subtree :: "ptr_t \<Rightarrow> 'a kmem_scheme \<Rightarrow> 'a kmem_scheme" where
  "io_deq_subtree n s =
     (let s = wr (io_prev (mem s (io_next n))) (mem s (io_prev n)) s
      in wr (io_next (mem s (io_prev n))) (mem s (io_next n)) s)"

text \<open>A new node. The callers stop, or go on with the null pointer, when there is none.\<close>

definition io_new_node :: "kerror \<Rightarrow> 'a mdb_mem_scheme \<Rightarrow> (ptr_t \<times> 'a mdb_mem_scheme) kres" where
  "io_new_node e s = res_bind (mdb_alloc_buffer sizeof_io_mnode_t s) (\<lambda>(n, s). if n = NULL then Err e else Ok (n, s))"

section \<open>I/O spaces and permission bitmaps\<close>

definition get_iospace :: "tptr \<Rightarrow> kstate \<Rightarrow> ptr_t kres" where
  "get_iospace task s =
     (let n = mem s (pgent (space (tcbs s task)) IO_SPACE_IDX)
      in if n = NULL then Err Null_deref else Ok (mem s (io_next_st n)))"

definition set_iospace :: "tptr \<Rightarrow> ptr_t \<Rightarrow> kstate \<Rightarrow> kstate" where
  "set_iospace task node s = wr (pgent (space (tcbs s task)) IO_SPACE_IDX) node s"

definition get_iopbm :: "dword_t \<Rightarrow> ptr_t \<Rightarrow> 'a kmem_scheme \<Rightarrow> ptr_t" where
  "get_iopbm virt sp s = pg_address (pg_next (subtree (pgent sp (pgdir_idx virt)) s) (pgtab_idx virt)) s"

text \<open>Entering a page of the bitmap into the new page table.\<close>

definition iopbm_entry :: "ptr_t \<Rightarrow> dword_t \<Rightarrow> dword_t \<Rightarrow> 'a kmem_scheme \<Rightarrow> 'a kmem_scheme" where
  "iopbm_entry pgt virt page s =
     (let pg = pg_next pgt (pgtab_idx virt)
      in set_flags pg (PAGE_VALID OR PAGE_WRITABLE) (set_entry pg (virt_to_phys page) False 0 s))"

definition install_iopbm :: "io_vars \<Rightarrow> tptr \<Rightarrow> dword_t \<Rightarrow> kstate \<Rightarrow> (int \<times> kstate) kres" where
  "install_iopbm v task new_iopbm s =
     (case kmem_alloc PAGE_SIZE s of
        None \<Rightarrow> None
      | Some (pgt_new, s) \<Rightarrow>
          if pgt_new = NULL then Err Panic
          else
            let s = copy_pgents 1024 pgt_new (iopbm_pgt v) s;
                s = iopbm_entry pgt_new (iopbm_virt v) new_iopbm s;
                s = iopbm_entry pgt_new (iopbm_virt v + 0x1000) (new_iopbm + 0x1000) s;
                pg = pgent (space (tcbs s task)) (pgdir_idx (iopbm_virt v));
                s = set_entry pg (virt_to_phys pgt_new) True 0 s;
                s = set_flags pg (PAGE_VALID OR PAGE_WRITABLE) s
            in Ok (0, s))"

definition release_iopbm :: "io_vars \<Rightarrow> tptr \<Rightarrow> kstate \<Rightarrow> kstate option" where
  "release_iopbm v task s =
     (let iopbm = get_iopbm (iopbm_virt v) (space (tcbs s task)) s in
      if iopbm = iopbm_phys v then Some s
      else
        let iopbm = phys_to_virt iopbm;
            pg = pgent (space (tcbs s task)) (pgdir_idx (iopbm_virt v));
            pgt = subtree pg s;
            s = set_entry pg (virt_to_phys (iopbm_pgt v)) True 0 s;
            s = set_flags pg (PAGE_VALID OR PAGE_WRITABLE) s
        in Option.bind (kmem_free pgt PAGE_SIZE s) (\<lambda>s. kmem_free iopbm (X86_IOPERMBITMAP_SIZE div 8) s))"

text \<open>The bits of a range of ports in a bitmap: a part of the first word, whole words, and a part of the last word.\<close>

definition first_count :: "dword_t \<Rightarrow> dword_t \<Rightarrow> dword_t" where
  "first_count port sz = (if sz < 32 - (port AND 0x1F) then sz else 32 - (port AND 0x1F))"

definition first_bits :: "dword_t \<Rightarrow> dword_t \<Rightarrow> dword_t" where
  "first_bits port count = shl (shr (NOT 0) (32 - count)) (port AND 0x1F)"

definition last_bits :: "dword_t \<Rightarrow> dword_t" where
  "last_bits sz = shr (NOT 0) (32 - sz)"

fun fill_words :: "nat \<Rightarrow> dword_t \<Rightarrow> ptr_t \<Rightarrow> 'a kmem_scheme \<Rightarrow> 'a kmem_scheme" where
  "fill_words 0 x p s = s"
| "fill_words (Suc k) x p s = fill_words k x (p + 4) (wr p x s)"

function whole_words :: "dword_t \<Rightarrow> dword_t \<Rightarrow> ptr_t \<Rightarrow> 'a kmem_scheme \<Rightarrow> dword_t \<times> ptr_t \<times> 'a kmem_scheme" where
  "whole_words x sz p s = (if sz \<ge> 32 then whole_words x (sz - 32) (p + 4) (wr p x s) else (sz, p, s))"
  by pat_completeness auto
termination
  by (relation "measure (\<lambda>(x, sz, p, s). unat sz)") (auto simp: word_less_nat_alt word_le_nat_alt unat_sub)

declare whole_words.simps [simp del]

partial_function (option) rest_words :: "ptr_t \<Rightarrow> ptr_t \<Rightarrow> kstate \<Rightarrow> kstate option" where
  "rest_words bound p s = (if p < bound then rest_words bound (p + 4) (wr p (NOT 0) s) else Some s)"

text \<open>A new bitmap, all bits set but those of the ports.\<close>

definition fresh_iopbm :: "ptr_t \<Rightarrow> dword_t \<Rightarrow> dword_t \<Rightarrow> kstate \<Rightarrow> kstate option" where
  "fresh_iopbm new_iopbm port sz s =
     (let s = fill_words (unat (drop_bit 5 port)) (NOT 0) new_iopbm s;
          p = new_iopbm + 4 * drop_bit 5 port;
          count = first_count port sz;
          s = wr p (NOT (first_bits port count)) s;
          (sz, p, s) = whole_words 0 (sz - count) (p + 4) s;
          (p, s) = (if sz \<noteq> 0 then (p + 4, wr p (NOT (last_bits sz)) s) else (p, s))
      in rest_words (new_iopbm + 4 * 2048) p s)"

text \<open>Changing the bits of an existing bitmap.\<close>

definition clear_bits :: "ptr_t \<Rightarrow> dword_t \<Rightarrow> dword_t \<Rightarrow> 'a kmem_scheme \<Rightarrow> 'a kmem_scheme" where
  "clear_bits iopbm port sz s =
     (let p = iopbm + 4 * drop_bit 5 port;
          count = first_count port sz;
          s = wr p (mem s p AND NOT (first_bits port count)) s;
          (sz, p, s) = whole_words 0 (sz - count) (p + 4) s
      in if sz \<noteq> 0 then wr p (mem s p AND NOT (last_bits sz)) s else s)"

definition set_bits :: "ptr_t \<Rightarrow> dword_t \<Rightarrow> dword_t \<Rightarrow> 'a kmem_scheme \<Rightarrow> 'a kmem_scheme" where
  "set_bits iopbm port sz s =
     (let p = iopbm + 4 * drop_bit 5 port;
          count = first_count port sz;
          s = wr p (mem s p OR first_bits port count) s;
          (sz, p, s) = whole_words (NOT 0) (sz - count) (p + 4) s
      in if sz \<noteq> 0 then wr p (mem s p OR last_bits sz) s else s)"

definition zero_iopbm :: "io_vars \<Rightarrow> tptr \<Rightarrow> dword_t \<Rightarrow> dword_t \<Rightarrow> kstate \<Rightarrow> (int \<times> kstate) kres" where
  "zero_iopbm v task port sz s =
     (let iopbm = get_iopbm (iopbm_virt v) (space (tcbs s task)) s in
      if iopbm = iopbm_phys v then
        case kmem_alloc (X86_IOPERMBITMAP_SIZE div 8) s of
          None \<Rightarrow> None
        | Some (new_iopbm, s) \<Rightarrow>
            if new_iopbm = NULL then Err Panic
            else
              res_bind (install_iopbm v task new_iopbm s) (\<lambda>(r, s).
                if r \<noteq> 0 then Ok (- 1, s)
                else map_option (\<lambda>s. Inr (0, s)) (fresh_iopbm new_iopbm port sz s))
      else Ok (0, clear_bits (phys_to_virt iopbm) port sz s))"

definition set_iopbm :: "io_vars \<Rightarrow> tptr \<Rightarrow> dword_t \<Rightarrow> dword_t \<Rightarrow> kstate \<Rightarrow> (int \<times> kstate) kres" where
  "set_iopbm v task port sz s =
     (let iopbm = phys_to_virt (get_iopbm (iopbm_virt v) (space (tcbs s task)) s)
      in Ok (0, set_bits iopbm port sz s))"

section \<open>Unmapping a range from a subtree\<close>

text \<open>The variables of the loop: the node, the depth of the topmost node that was split, and the last node of the left
  part of the split tree.\<close>

record us_t =
  us_n :: ptr_t
  us_split :: dword_t
  us_left :: ptr_t

definition end_split :: "us_t \<Rightarrow> kstate \<Rightarrow> us_t" where
  "end_split u s = (if io_get_depth (us_n u) s \<le> us_split u then u\<lparr>us_split := IOMDB_SUP_DEPTH\<rparr> else u)"

text \<open>The range covers the node: it is taken out of both lists and freed.\<close>

definition us_free :: "io_vars \<Rightarrow> us_t \<Rightarrow> kstate \<Rightarrow> (us_t \<times> kstate) kres" where
  "us_free v u s =
     (let n = us_n u;
          flushee = tid_to_tcb (io_get_tid n s);
          s = io_deq_thread_list n s;
          s = io_deq_subtree n s
      in res_bind (set_iopbm v flushee (io_get_lo n s) (io_get_hi n s - io_get_lo n s) s) (\<lambda>(_, s).
           let u = end_split u s;
               tmp = mem s (io_prev n)
           in map_option (\<lambda>s. Inr (u\<lparr>us_n := tmp\<rparr>, s)) (mdb_free_buffer n sizeof_io_mnode_t s)))"

text \<open>The range begins before the node, or with it, and ends in the node or before it.\<close>

definition us_cut_low :: "io_vars \<Rightarrow> dword_t \<Rightarrow> us_t \<Rightarrow> kstate \<Rightarrow> (us_t \<times> kstate) kres" where
  "us_cut_low v hi u s =
     (let n = us_n u in
      res_bind
        (if hi > io_get_lo n s then
           res_bind (set_iopbm v (tid_to_tcb (io_get_tid n s)) (io_get_lo n s) (hi - io_get_lo n s) s) (\<lambda>(_, s).
             Ok (io_set_lo n hi s))
         else Ok s)
        (\<lambda>s. Ok (end_split u s, s)))"

text \<open>The range begins in the node or behind it and ends behind it. In a split subtree the node moves to the left part.\<close>

definition us_cut_high :: "io_vars \<Rightarrow> dword_t \<Rightarrow> us_t \<Rightarrow> kstate \<Rightarrow> (us_t \<times> kstate) kres" where
  "us_cut_high v lo u s =
     (let n = us_n u in
      res_bind
        (if lo < io_get_hi n s then
           res_bind (set_iopbm v (tid_to_tcb (io_get_tid n s)) lo (io_get_hi n s - lo) s) (\<lambda>(_, s). Ok (io_set_hi n lo s))
         else Ok s)
        (\<lambda>s.
          if io_get_depth n s > us_split u then
            let n_tmp = mem s (io_next n);
                s = io_deq_subtree n s;
                s = io_enq_subtree n (us_left u) s;
                nn = mem s (io_next n_tmp)
            in if nn = NULL then Err Null_deref else Ok (u\<lparr>us_left := n, us_n := mem s (io_prev nn)\<rparr>, s)
          else Ok (u\<lparr>us_split := IOMDB_SUP_DEPTH\<rparr>, s)))"

text \<open>The range is inside the node: a new node takes the ports below it, the node keeps those above it.\<close>

definition us_split_node :: "io_vars \<Rightarrow> dword_t \<Rightarrow> dword_t \<Rightarrow> us_t \<Rightarrow> kstate \<Rightarrow> (us_t \<times> kstate) kres" where
  "us_split_node v lo hi u s =
     (let n = us_n u in
      res_bind (set_iopbm v (tid_to_tcb (io_get_tid n s)) lo (hi - lo) s) (\<lambda>(_, s).
      res_bind (io_new_node Null_deref s) (\<lambda>(n_left, s).
        let s = io_set_values n_left (io_get_lo n s) lo (io_get_tid n s) (io_get_depth n s) False s;
            s = io_set_lo n hi s;
            s = io_enq_thread_list n_left n s
        in if io_get_depth n s > us_split u then
             let s = io_enq_subtree n_left (us_left u) s;
                 s = wr (io_parent n_left)
                       (if io_get_depth (us_left u) s < io_get_depth n_left s then us_left u else mem s (io_parent n_left)) s
             in Ok (u\<lparr>us_left := n_left\<rparr>, s)
           else
             let s = io_enq_subtree n_left (mem s (io_prev n)) s;
                 s = wr (io_parent n_left) (mem s (io_parent n)) s
             in Ok (u\<lparr>us_split := io_get_depth n s, us_left := n_left\<rparr>, s))))"

definition us_step :: "io_vars \<Rightarrow> dword_t \<Rightarrow> dword_t \<Rightarrow> us_t \<Rightarrow> kstate \<Rightarrow> (us_t \<times> kstate) kres" where
  "us_step v lo hi u s =
     (let n = us_n u in
      if lo \<le> io_get_lo n s then
        if hi \<ge> io_get_hi n s then us_free v u s else us_cut_low v hi u s
      else if hi > io_get_hi n s then us_cut_high v lo u s
      else us_split_node v lo hi u s)"

text \<open>The root's depth is read in every round, also when the root has been freed. The subtraction of ports and the
  changes of the bitmap never fail here, so that the error returns of the source are not reached.\<close>

partial_function (option) us_loop :: "io_vars \<Rightarrow> ptr_t \<Rightarrow> dword_t \<Rightarrow> dword_t \<Rightarrow> bool \<Rightarrow> us_t \<Rightarrow> kstate \<Rightarrow> kstate kres" where
  "us_loop v root lo hi own u s =
     (if io_get_depth (us_n u) s > io_get_depth root s \<or> own then
        res_bind (us_step v lo hi u s) (\<lambda>(u, s). us_loop v root lo hi False (u\<lparr>us_n := mem s (io_next (us_n u))\<rparr>) s)
      else Ok s)"

definition unmap_subtree :: "io_vars \<Rightarrow> ptr_t \<Rightarrow> dword_t \<Rightarrow> dword_t \<Rightarrow> dword_t \<Rightarrow> kstate \<Rightarrow> (int \<times> kstate) kres" where
  "unmap_subtree v root lo hi mapmask s =
     (let own = mapmask AND FLUSH_OWN_SPACE \<noteq> 0;
          n = (if own then root else mem s (io_next root))
      in res_bind (us_loop v root lo hi own \<lparr>us_n = n, us_split = IOMDB_SUP_DEPTH, us_left = NULL\<rparr> s) (\<lambda>s. Ok (0, s)))"

section \<open>Granting a subtree\<close>

text \<open>The copies of the nodes below the root. \<open>n_cur\<close> is the node behind which the next copy is chained, which after the
  first copy is the original node; \<open>n_new\<close> is the last copy.\<close>

partial_function (option) grant_copies ::
    "ptr_t \<Rightarrow> ptr_t \<Rightarrow> ptr_t \<Rightarrow> ptr_t \<Rightarrow> ptr_t \<Rightarrow> kstate \<Rightarrow> (ptr_t \<times> kstate) kres" where
  "grant_copies root new_root n n_cur n_new s =
     (if io_get_depth n s > io_get_depth root s then
        if io_get_lo n s < io_get_hi new_root s \<and> io_get_hi n s > io_get_lo new_root s then
          res_bind (io_new_node Panic s) (\<lambda>(n_new, s).
            let lo = (if io_get_lo n s < io_get_lo new_root s then io_get_lo new_root s else io_get_lo n s);
                hi = (if io_get_hi n s < io_get_hi new_root s then io_get_hi n s else io_get_hi new_root s);
                s = io_set_values n_new lo hi (io_get_tid n s) (io_get_depth n s) False s;
                s = wr (io_parent n_new) new_root s;
                s = wr (io_prev n_new) n_cur s;
                s = wr (io_next n_cur) n_new s;
                s = io_enq_thread_list n_new (mem s (io_next_st n)) s
            in grant_copies root new_root (mem s (io_next n)) n n_new s)
        else grant_copies root new_root (mem s (io_next n)) n_cur n_new s
      else Ok (n_new, s))"

text \<open>Exchanging two neighbours of a task's list.\<close>

definition grant_swap :: "ptr_t \<Rightarrow> kstate \<Rightarrow> kstate" where
  "grant_swap n s =
     (if io_get_hi (mem s (io_prev_st n)) s > io_get_lo n s then
        let tmp = mem s (io_prev_st n);
            s = wr (io_next_st (mem s (io_prev_st tmp))) n s;
            s = wr (io_prev_st (mem s (io_next_st n))) tmp s;
            s = wr (io_next_st tmp) (mem s (io_next_st n)) s;
            s = wr (io_next_st n) tmp s;
            s = wr (io_prev_st n) (mem s (io_prev_st tmp)) s
        in wr (io_prev_st tmp) n s
      else s)"

partial_function (option) grant_order :: "ptr_t \<Rightarrow> ptr_t \<Rightarrow> kstate \<Rightarrow> kstate option" where
  "grant_order new_root n s =
     (let s = grant_swap n s;
          n = mem s (io_next n)
      in if io_get_depth n s > io_get_depth new_root s then grant_order new_root n s else Some s)"

definition grant_subtree ::
    "io_vars \<Rightarrow> ptr_t \<Rightarrow> ptr_t \<Rightarrow> tptr \<Rightarrow> dword_t \<Rightarrow> dword_t \<Rightarrow> kstate \<Rightarrow> (ptr_t \<times> kstate) kres" where
  "grant_subtree v root dest to lo hi s =
     res_bind (io_new_node Panic s) (\<lambda>(new_root, s).
       let s = io_set_values new_root lo hi (myself (tcbs s to)) (io_get_depth root s) False s;
           s = wr (io_parent new_root) (mem s (io_parent root)) s;
           s = io_enq_thread_list new_root (mem s (io_next_st dest)) s
       in res_bind (grant_copies root new_root (mem s (io_next root)) new_root new_root s) (\<lambda>(n_new, s).
            let root = mem s (io_prev root) in
            if root = NULL then Err Null_deref
            else
              res_bind (unmap_subtree v (mem s (io_next root)) lo hi FLUSH_OWN_SPACE s) (\<lambda>(r, s).
                if r \<noteq> 0 then Ok (NULL, s)
                else
                  let s = wr (io_prev new_root) root s;
                      s = wr (io_next n_new) (mem s (io_next root)) s;
                      s = wr (io_next root) new_root s;
                      s = wr (io_prev (mem s (io_next n_new))) n_new s
                  in map_option (\<lambda>s. Inr (new_root, s)) (grant_order new_root new_root s))))"

section \<open>Start-up and tasks\<close>

definition io_mdb_init :: "dword_t \<Rightarrow> ptr_t \<Rightarrow> ptr_t \<Rightarrow> ptr_t \<Rightarrow> kstate \<Rightarrow> io_vars \<times> kstate" where
  "io_mdb_init io_bitmap kspace sig_space mdb_end s =
     (let virt = io_bitmap;
          phys = get_iopbm virt kspace s;
          pgt = subtree (pgent kspace (pgdir_idx virt)) s;
          s = set_flags (pg_next pgt (pgtab_idx virt)) (PAGE_VALID OR PAGE_WRITABLE) s;
          s = set_flags (pg_next pgt (pgtab_idx (virt + 0x1000))) (PAGE_VALID OR PAGE_WRITABLE) s;
          s = fill_words 2048 IOPBM_DEFAULT_VALUE virt s
      in (\<lparr>io_kspace = kspace, iopbm_virt = virt, iopbm_phys = phys, iopbm_pgt = pgt, sigma0_io_space = sig_space,
           io_mdb_end = mdb_end\<rparr>, s))"

definition io_mdb_init_sigma0 :: "io_vars \<Rightarrow> kstate \<Rightarrow> kstate kres" where
  "io_mdb_init_sigma0 v s =
     res_bind (io_new_node Null_deref s) (\<lambda>(n, s).
       let s = io_set_values n 0 0 L4_SIGMA0_ID 0 True s;
           s = set_iospace (sigma0 s) n s;
           s = wr (io_parent n) NULL s;
           start = sigma0_io_space v;
           ed = io_mdb_end v;
           s = io_set_values start 0 (push_bit 16 1) L4_SIGMA0_ID 0 False s;
           s = wr (io_parent start) start s;
           s = io_set_values ed 0 0 L4_SIGMA0_ID 0 False s;
           s = wr (io_next start) ed s;
           s = wr (io_prev ed) start s;
           s = wr (io_next ed) NULL s;
           s = wr (io_prev start) NULL s;
           s = wr (io_next_st start) n s;
           s = wr (io_prev_st start) n s;
           s = wr (io_prev_st n) start s;
           s = wr (io_next_st n) start s;
           ufl = get_user_flags (sigma0 s) s OR push_bit 12 3
       in Ok (snd (set_user_flags (sigma0 s) ufl s)))"

definition io_mdb_task_new :: "tptr \<Rightarrow> tptr \<Rightarrow> kstate \<Rightarrow> kstate kres" where
  "io_mdb_task_new pgr task s =
     res_bind (io_new_node Null_deref s) (\<lambda>(n, s).
       let s = io_set_values n 0 0 (myself (tcbs s task)) 0 True s;
           s = set_iospace task n s;
           s = wr (io_prev_st n) n s;
           s = wr (io_next_st n) n s
       in Ok (wr (io_parent n) NULL s))"

partial_function (option) delete_nodes :: "ptr_t \<Rightarrow> kstate \<Rightarrow> (ptr_t \<times> kstate) option" where
  "delete_nodes n s =
     (if io_get_dummy n s = 0 then
        let s = io_deq_subtree n s;
            n = mem s (io_next_st n)
        in Option.bind (mdb_free_buffer (mem s (io_prev_st n)) sizeof_io_mnode_t s) (\<lambda>s. delete_nodes n s)
      else Some (n, s))"

definition io_mdb_delete_iospace :: "io_vars \<Rightarrow> tptr \<Rightarrow> kstate \<Rightarrow> kstate kres" where
  "io_mdb_delete_iospace v task s =
     (case release_iopbm v task s of
        None \<Rightarrow> None
      | Some s \<Rightarrow>
          res_bind (get_iospace task s) (\<lambda>n.
            if n = NULL then Ok s
            else
              case delete_nodes n s of
                None \<Rightarrow> None
              | Some (n, s) \<Rightarrow>
                  map_option (\<lambda>s. Inr (set_iospace task NULL s)) (mdb_free_buffer n sizeof_io_mnode_t s)))"

section \<open>I/O flexpages\<close>

text \<open>Unmapping the range from the receiver; the result is the node at which the walk stops.\<close>

partial_function (option) clear_dest :: "io_vars \<Rightarrow> dword_t \<Rightarrow> dword_t \<Rightarrow> ptr_t \<Rightarrow> kstate \<Rightarrow> (ptr_t \<times> kstate) kres" where
  "clear_dest v lo hi dest s =
     (if io_get_dummy dest s = 0 \<and> io_get_lo dest s < hi then
        let tmp = mem s (io_next_st dest) in
        if io_get_hi dest s > lo then
          res_bind (unmap_subtree v dest lo hi FLUSH_OWN_SPACE s) (\<lambda>(_, s). clear_dest v lo hi tmp s)
        else clear_dest v lo hi tmp s
      else Ok (dest, s))"

text \<open>The new node of the receiver.\<close>

definition map_child ::
    "io_vars \<Rightarrow> tptr \<Rightarrow> fpage_t \<Rightarrow> ptr_t \<Rightarrow> ptr_t \<Rightarrow> dword_t \<Rightarrow> dword_t \<Rightarrow> kstate \<Rightarrow> (ptr_t \<times> kstate) kres" where
  "map_child v to io_fp parent dest lo hi s =
     (if fp_grant io_fp then grant_subtree v parent dest to lo hi s
      else
        res_bind (io_new_node Panic s) (\<lambda>(child, s).
          let s = io_set_values child lo hi (myself (tcbs s to)) (io_get_depth parent s + 1) False s;
              s = wr (io_parent child) parent s;
              s = io_enq_subtree child parent s
          in Ok (child, io_enq_thread_list child (mem s (io_next_st dest)) s)))"

text \<open>The walk along the sender's nodes; the receiver's node is carried along. The check for recursive mappings looks at one node at
  most and has no effect.\<close>

partial_function (option) map_io_loop ::
    "io_vars \<Rightarrow> tptr \<Rightarrow> fpage_t \<Rightarrow> ptr_t \<Rightarrow> ptr_t \<Rightarrow> kstate \<Rightarrow> (int \<times> kstate) kres" where
  "map_io_loop v to io_fp parent dest s =
     (if io_get_dummy parent s = 0 then
        let lo = IOFP_PORT io_fp;
            hi = lo + IOFP_SIZE io_fp
        in if io_get_lo parent s < hi then
             if io_get_hi parent s > lo then
               let lo' = (if lo < io_get_lo parent s then io_get_lo parent s else lo);
                   hi' = (if hi < io_get_hi parent s then hi else io_get_hi parent s)
               in res_bind (clear_dest v lo' hi' dest s) (\<lambda>(dest, s).
                    let dest = mem s (io_prev_st dest) in
                    res_bind (map_child v to io_fp parent dest lo' hi' s) (\<lambda>(child, s).
                      if child = NULL then Ok (- 1, s)
                      else
                        res_bind (zero_iopbm v to (io_get_lo child s) (io_get_hi child s - io_get_lo child s) s) (\<lambda>(r, s).
                          if r \<noteq> 0 then Ok (- 1, s)
                          else map_io_loop v to io_fp (mem s (io_next_st parent)) dest s)))
             else map_io_loop v to io_fp (mem s (io_next_st parent)) dest s
           else Ok (0, s)
      else Ok (0, s))"

definition map_io_fpage :: "io_vars \<Rightarrow> tptr \<Rightarrow> tptr \<Rightarrow> fpage_t \<Rightarrow> kstate \<Rightarrow> (int \<times> kstate) kres" where
  "map_io_fpage v from to io_fp s =
     (if IOFP_SIZE io_fp > push_bit 16 1 then Ok (- 1, s)
      else
        res_bind (get_iospace from s) (\<lambda>parent.
        res_bind (get_iospace to s) (\<lambda>dest. map_io_loop v to io_fp parent dest s)))"

partial_function (option) unmap_io_loop :: "io_vars \<Rightarrow> dword_t \<Rightarrow> dword_t \<Rightarrow> dword_t \<Rightarrow> ptr_t \<Rightarrow> kstate \<Rightarrow> kstate kres" where
  "unmap_io_loop v lo hi mapmask parent s =
     (if io_get_dummy parent s = 0 \<and> io_get_lo parent s < hi then
        let tmp = mem s (io_next_st parent) in
        if io_get_hi parent s > lo then
          res_bind (unmap_subtree v parent lo hi mapmask s) (\<lambda>(r, s).
            if r \<noteq> 0 then Ok s else unmap_io_loop v lo hi mapmask tmp s)
        else unmap_io_loop v lo hi mapmask tmp s
      else Ok s)"

definition unmap_io_fpage :: "io_vars \<Rightarrow> tptr \<Rightarrow> fpage_t \<Rightarrow> dword_t \<Rightarrow> kstate \<Rightarrow> kstate kres" where
  "unmap_io_fpage v from io_fp mapmask s =
     (let lo = IOFP_PORT io_fp;
          hi = lo + IOFP_SIZE io_fp
      in if IOFP_SIZE io_fp > push_bit 16 1 then Ok s
         else res_bind (get_iospace from s) (\<lambda>parent. unmap_io_loop v lo hi mapmask parent s))"

section \<open>A sample\<close>

text \<open>The bitmap in the kernel image, and a page table behind it.\<close>

definition demo_io :: io_vars where
  "demo_io = \<lparr>io_kspace = 0x1000, iopbm_virt = 0xF0109000, iopbm_phys = 0x109000, iopbm_pgt = 0xF0003000,
     sigma0_io_space = 0xF0108000, io_mdb_end = 0xF0108020\<rparr>"

end
