(* ===== verification/Threads.thy ===== *)
theory Threads
  imports Schedule Io_Mapping
begin

text \<open>
  Creating, changing and deleting threads and tasks, \<^verbatim>\<open>src/thread.c\<close>, and the procedures run in the context of another
  thread, \<^verbatim>\<open>include/x86/notify.h\<close>. The addresses of trap code and kernel data, and the variables
  of \<^verbatim>\<open>src/x86/io_mapping.c\<close>, are in the record \<open>kenv\<close>. \<open>allocate_tcb\<close> only touches the page of a block
  and has no counterpart. A system call that returns to the user gives the values of the result registers.
\<close>

section \<open>Environment\<close>

record kenv =
  abort_ipc :: ptr_t
  switch_to_user :: ptr_t
  switch_to_sigma0 :: ptr_t
  switch_to_roottask :: ptr_t
  notify_initialize_idle_thread :: ptr_t
  return_from_sys_ipc :: ptr_t
  alternate_sys_ipc_return :: ptr_t
  kernel_ptdir_root :: ptr_t
  kernel_info_page :: ptr_t
  kernel_arg :: ptr_t
  kenv_io :: io_vars

definition IPC_ERR_SEND :: dword_t where "IPC_ERR_SEND = 0x10"
definition IPC_ERR_RECV :: dword_t where "IPC_ERR_RECV = 0x00"
definition IPC_ERR_CANCELED :: dword_t where "IPC_ERR_CANCELED = 0x40"
definition IPC_ERR_ABORTED :: dword_t where "IPC_ERR_ABORTED = 0xC0"
definition DEFAULT_TIMESLICE :: sdword_t where "DEFAULT_TIMESLICE = 10000"

definition set_x0id_thread :: "dword_t \<Rightarrow> l4_threadid_t \<Rightarrow> l4_threadid_t" where
  "set_x0id_thread n tid = (tid AND NOT (push_bit 10 (mask 6))) OR push_bit 10 (n AND mask 6)"

definition set_x0id_task :: "dword_t \<Rightarrow> l4_threadid_t \<Rightarrow> l4_threadid_t" where
  "set_x0id_task n tid = (tid AND NOT (push_bit 16 (mask 8))) OR push_bit 16 (n AND mask 8)"

definition get_kernel_space :: "kenv \<Rightarrow> ptr_t" where
  "get_kernel_space e = virt_to_phys (kernel_ptdir_root e)"

definition set_thread_state :: "dword_t \<Rightarrow> tptr \<Rightarrow> kstate \<Rightarrow> kstate" where
  "set_thread_state x t s = upd_tcb t (\<lambda>c. c\<lparr>thread_state := x\<rparr>) s"

section \<open>Running a procedure in another thread\<close>

definition notify_thread :: "tptr \<Rightarrow> ptr_t \<Rightarrow> kstate \<Rightarrow> kstate" where
  "notify_thread t func s = tcb_stack_push t func (tcb_stack_push t 0 (tcb_stack_push t 0 s))"

definition notify_thread_1 :: "tptr \<Rightarrow> ptr_t \<Rightarrow> dword_t \<Rightarrow> kstate \<Rightarrow> kstate" where
  "notify_thread_1 t func p0 s = notify_thread t func (tcb_stack_push t p0 s)"

definition notify_thread_2 :: "tptr \<Rightarrow> ptr_t \<Rightarrow> dword_t \<Rightarrow> dword_t \<Rightarrow> kstate \<Rightarrow> kstate" where
  "notify_thread_2 t func p0 p1 s = notify_thread t func (tcb_stack_push t p0 (tcb_stack_push t p1 s))"

section \<open>Creating threads\<close>

definition init_tcb :: "l4_threadid_t \<Rightarrow> tcb_t \<Rightarrow> tcb_t" where
  "init_tcb tid c = c\<lparr>myself := tid, magic := TCB_MAGIC, thread_state := TS_ABORTED, queue_state := 0, send_queue := NULL,
     intr_pending := 0, timeslice := DEFAULT_TIMESLICE, current_timeslice := 0, resources := 0,
     copy_area1 := COPYAREA_INVALID, copy_area2 := COPYAREA_INVALID, unwind_ipc_sp := 0\<rparr>"

text \<open>Without a space a new one is created.\<close>

definition create_tcb :: "kenv \<Rightarrow> l4_threadid_t \<Rightarrow> ptr_t \<Rightarrow> kstate \<Rightarrow> (tptr \<times> kstate) kres" where
  "create_tcb e tid sp s =
     (let t = tid_to_tcb tid;
          s = upd_tcb t (init_tcb tid) s;
          s = init_resources t s;
          s = upd_tcb t (\<lambda>c. c\<lparr>excpt := 0\<rparr>) s
      in map_option (\<lambda>(sp, s).
           let s = upd_tcb t (\<lambda>c. c\<lparr>space := sp, pagedir_cache := sp\<rparr>) s
           in Inr (t, thread_enqueue_present t s))
           (if sp = NULL then create_space (get_kernel_space e) s else Some (sp, s)))"

text \<open>The nil thread's space is the virtual address of the kernel's page directory, where all other spaces are
  physical addresses.\<close>

definition create_nil_tcb :: "kenv \<Rightarrow> kstate \<Rightarrow> kstate kres" where
  "create_nil_tcb e s =
     res_bind (create_tcb e L4_NIL_ID (kernel_ptdir_root e) s) (\<lambda>(t, s). Ok (upd_tcb t (\<lambda>c. c\<lparr>myself := L4_INVALID_ID\<rparr>) s))"

text \<open>The stack and instruction pointers come from the kernel info page.\<close>

definition create_sigma0 :: "kenv \<Rightarrow> dword_t \<Rightarrow> dword_t \<Rightarrow> kstate \<Rightarrow> kstate kres" where
  "create_sigma0 e sigma0_sp sigma0_ip s =
     (if sigma0_ip \<noteq> 0xFFFFFFFF then
        res_bind (create_tcb e L4_SIGMA0_ID NULL s) (\<lambda>(t, s).
          let s = s\<lparr>sigma0 := t\<rparr> in
          if t = NULL then Err Panic
          else
            let s = create_user_stack_frame t sigma0_sp sigma0_ip (switch_to_sigma0 e) (kernel_info_page e) s
            in res_bind (io_mdb_init_sigma0 (kenv_io e) s) (\<lambda>s.
                 Ok (thread_enqueue_ready t (upd_tcb t (\<lambda>c. c\<lparr>priority := 50, thread_state := TS_RUNNING\<rparr>) s))))
      else Err Panic)"

definition create_root_task :: "kenv \<Rightarrow> dword_t \<Rightarrow> dword_t \<Rightarrow> kstate \<Rightarrow> kstate kres" where
  "create_root_task e root_sp root_ip s =
     (if root_ip \<noteq> 0xFFFFFFFF then
        res_bind (create_tcb e L4_ROOT_TASK_ID NULL s) (\<lambda>(t, s).
          if t = NULL then Err Panic
          else
            let s = create_user_stack_frame t root_sp root_ip (switch_to_roottask e) (kernel_arg e) s
            in res_bind (io_mdb_task_new (sigma0 s) t s) (\<lambda>s.
                 Ok (thread_enqueue_ready t
                   (upd_tcb t (\<lambda>c. c\<lparr>priority := 50, pager := L4_SIGMA0_ID, thread_state := TS_RUNNING\<rparr>) s))))
      else Ok s)"

definition create_idle_thread :: "kenv \<Rightarrow> kstate \<Rightarrow> (tptr \<times> kstate) kres" where
  "create_idle_thread e s =
     (let idle = get_idle_tcb s in
      if idle \<noteq> NULL then
        let s = upd_tcb idle (\<lambda>c. c\<lparr>magic := TCB_MAGIC, myself := 0x12345678, priority := 0,
                  present_next := idle, present_prev := idle, wakeup_next := idle, wakeup_prev := idle,
                  queue_state := TS_QUEUE_PRESENT OR TS_QUEUE_WAKEUP, absolute_timeout := NOT 0,
                  stack := get_tcb_stack_top idle, timeslice := DEFAULT_TIMESLICE, current_timeslice := 0, space := NULL\<rparr>) s
        in Ok (idle, notify_thread idle (notify_initialize_idle_thread e) s)
      else Err Panic)"

section \<open>Unwinding an IPC\<close>

text \<open>How the thread leaves the kernel: through the code that aborts the IPC, or at the saved stack.\<close>

definition unwind_frame :: "kenv \<Rightarrow> tptr \<Rightarrow> dword_t \<Rightarrow> kstate \<Rightarrow> kstate" where
  "unwind_frame e t ipc_error s =
     (if unwind_ipc_sp (tcbs s t) = 0 then
        let s = create_user_stack_frame t (get_user_sp t s) (get_user_ip t s) (abort_ipc e) ipc_error s
        in if is_ipc_sysenter (return_from_sys_ipc e) t s then snd (set_user_sp t (get_user_sp t s + 16) s) else s
      else upd_tcb t (\<lambda>c. c\<lparr>stack := unwind_ipc_sp c, unwind_ipc_sp := 0\<rparr>) s)"

definition is_locked :: "kstate \<Rightarrow> tptr \<Rightarrow> bool" where
  "is_locked s t \<longleftrightarrow> thread_state (tcbs s t) = TS_LOCKED_WAITING \<or> thread_state (tcbs s t) = TS_LOCKED_RUNNING"

lemma dequeue_wakeup_state: "thread_state (tcbs (thread_dequeue_wakeup t s) x) = thread_state (tcbs s x)"
  by (auto simp: thread_dequeue_wakeup_def Let_def)

text \<open>Every recursive call has one locked thread less.\<close>

function unwind_ipc :: "kenv \<Rightarrow> tptr \<Rightarrow> kstate \<Rightarrow> kstate kres" where
  "unwind_ipc e t s =
     (let s0 = thread_dequeue_wakeup t s;
          st = thread_state (tcbs s0 t);
          p = tid_to_tcb (partner (tcbs s0 t))
      in if st = TS_RUNNING \<or> st = TS_ABORTED then Ok s0
         else if st = TS_WAITING then Ok (unwind_frame e t (IPC_ERR_CANCELED OR IPC_ERR_RECV) s0)
         else if st = TS_POLLING then
           Ok (unwind_frame e t (IPC_ERR_CANCELED OR IPC_ERR_SEND) (snd (thread_dequeue_send p t s0)))
         else if is_locked s0 t then
           let s1 = set_thread_state TS_ABORTED t s0 in
           res_bind
             (if \<not> IS_KERNEL_ID (partner (tcbs s1 t)) then
                res_bind (unwind_ipc e p s1) (\<lambda>s. Ok (thread_enqueue_ready p (set_thread_state TS_RUNNING p s)))
              else Ok s1)
             (\<lambda>s. Ok (unwind_frame e t (IPC_ERR_ABORTED OR (if st = TS_LOCKED_WAITING then IPC_ERR_RECV else IPC_ERR_SEND)) s))
         else Err Panic)"
  by pat_completeness auto

termination
proof (relation "measure (\<lambda>(e, t, s). card {x. is_locked s x})")
  fix e :: kenv and t s s0 st p s1
  assume s0: "s0 = thread_dequeue_wakeup t s" and l: "is_locked s0 t" and s1: "s1 = set_thread_state TS_ABORTED t s0"
  have a: "\<not> is_locked s1 t" "x \<noteq> t \<Longrightarrow> is_locked s1 x = is_locked s0 x" for x
    by (simp_all add: is_locked_def s1 set_thread_state_def TS_ABORTED_def TS_LOCKED_WAITING_def TS_LOCKED_RUNNING_def
        TSB_LOCKED_def TSB_POLLING_def TSB_READY_def)
  have b: "is_locked s0 x = is_locked s x" for x by (simp add: s0 is_locked_def dequeue_wakeup_state)
  have "{x. is_locked s1 x} \<subset> {x. is_locked s x}" using a b l by (metis (mono_tags, lifting) mem_Collect_eq psubsetI subsetI)
  then show "((e, p, s1), (e, t, s)) \<in> measure (\<lambda>(e, t, s). card {x. is_locked s x})"
    by (simp add: psubset_card_mono)
qed simp

declare unwind_ipc.simps [simp del]


section \<open>Deleting threads\<close>

partial_function (option) unwind_senders :: "kenv \<Rightarrow> tptr \<Rightarrow> kstate \<Rightarrow> kstate kres" where
  "unwind_senders e t s =
     (if send_queue (tcbs s t) \<noteq> NULL then
        res_bind (unwind_ipc e (send_queue (tcbs s t)) s) (\<lambda>s. unwind_senders e t s)
      else Ok s)"

definition free_thread :: "kenv \<Rightarrow> tptr \<Rightarrow> kstate \<Rightarrow> kstate kres" where
  "free_thread e t s =
     res_bind (unwind_ipc e t s) (\<lambda>s.
     res_bind (unwind_senders e t s) (\<lambda>s.
       Ok (purge_resources t (thread_dequeue_ready t s))))"

definition free_tcb :: "tptr \<Rightarrow> kstate \<Rightarrow> kstate option" where
  "free_tcb t s =
     (let s = thread_dequeue_present t s;
          s = upd_tcb t (\<lambda>c. c\<lparr>myself := L4_NIL_ID, thread_state := TS_ABORTED\<rparr>) s
      in free_resources t s)"

text \<open>The walk along the present list; the next thread is read before the current one is deleted.\<close>

partial_function (option) delete_loop :: "kenv \<Rightarrow> ptr_t \<Rightarrow> tptr \<Rightarrow> kstate \<Rightarrow> kstate kres" where
  "delete_loop e sp t s =
     (if t \<noteq> get_idle_tcb s then
        let next = pnext s t in
        if space (tcbs s t) = sp then
          res_bind (free_thread e t s) (\<lambda>s.
          res_bind (map_option Inr (free_tcb t s)) (\<lambda>s. delete_loop e sp next s))
        else delete_loop e sp next s
      else Ok s)"

definition delete_all_threads :: "kenv \<Rightarrow> ptr_t \<Rightarrow> kstate \<Rightarrow> kstate kres" where
  "delete_all_threads e sp s = delete_loop e sp (pnext s (get_idle_tcb s)) s"

section \<open>System calls\<close>

definition sys_task_new ::
    "kenv \<Rightarrow> l4_threadid_t \<Rightarrow> dword_t \<Rightarrow> l4_threadid_t \<Rightarrow> dword_t \<Rightarrow> dword_t \<Rightarrow> kstate \<Rightarrow> (l4_threadid_t \<times> kstate) kres" where
  "sys_task_new e task mcp pgr uip usp s =
     (let cur = get_current_tcb s in
      if x0id_task task = 0 then Err Panic
      else
        let task = set_x0id_thread 0 task;
            t = tid_to_tcb task
        in if x0id_task (myself (tcbs s cur)) = x0id_task task then Ok (0, s)
           else
             res_bind
               (if tcb_exist t s then
                  let sp = space (tcbs s t) in
                  res_bind (io_mdb_delete_iospace (kenv_io e) t s) (\<lambda>s.
                  res_bind (delete_all_threads e sp s) (\<lambda>s. delete_space sp s))
                else Ok s)
               (\<lambda>s.
                  if l4_is_nil_id pgr then Ok (task, s)
                  else
                    res_bind (create_tcb e task NULL s) (\<lambda>(t, s).
                      if t = NULL then Err Panic
                      else
                        let s = upd_tcb t (\<lambda>c. c\<lparr>pager := pgr\<rparr>) s;
                            s = create_user_stack_frame t usp uip (switch_to_user e) 0 s
                        in res_bind (io_mdb_task_new (tid_to_tcb pgr) t s) (\<lambda>s.
                             let s = upd_tcb t (\<lambda>c. c\<lparr>priority := priority (tcbs s cur)\<rparr>) s;
                                 s = set_thread_state TS_RUNNING t s;
                                 s = thread_enqueue_ready t s
                             in Ok (myself (tcbs s t), s)))))"

text \<open>The results are the instruction pointer, the stack pointer, the pager and the flags.\<close>

record ex_regs_t =
  ret_uip :: dword_t
  ret_usp :: dword_t
  ret_pager :: l4_threadid_t
  ret_flags :: dword_t

text \<open>Exchanging the registers of an existing thread.\<close>

definition ex_regs_exchange :: "kenv \<Rightarrow> tptr \<Rightarrow> dword_t \<Rightarrow> dword_t \<Rightarrow> l4_threadid_t \<Rightarrow> kstate \<Rightarrow> ex_regs_t \<times> kstate" where
  "ex_regs_exchange e t uip usp pgr s =
     (let s = (if NOT (usp AND uip) \<noteq> 0 \<and> is_ipc_sysenter (return_from_sys_ipc e) t s then
                 let s = set_mem (idx (get_tcb_stack_top t) IPCSTK_RETADDR) (alternate_sys_ipc_return e) s
                 in snd (set_user_sp t (get_user_sp t s + 16) s)
               else s);
          (usp, s) = (if usp = NOT 0 then (get_user_sp t s, s) else set_user_sp t usp s);
          (uip, s) = (if uip = NOT 0 then (get_user_ip t s, s) else set_user_ip t uip s);
          (pgr, s) = (if pgr = L4_INVALID_ID then (pager (tcbs s t), s)
                      else (pager (tcbs s t), upd_tcb t (\<lambda>c. c\<lparr>pager := pgr\<rparr>) s));
          s = (if thread_state (tcbs s t) = TS_RUNNING then thread_enqueue_ready t s else s)
      in (\<lparr>ret_uip = uip, ret_usp = usp, ret_pager = pgr, ret_flags = get_user_flags t s\<rparr>, s))"

definition sys_lthread_ex_regs ::
    "kenv \<Rightarrow> dword_t \<Rightarrow> dword_t \<Rightarrow> dword_t \<Rightarrow> l4_threadid_t \<Rightarrow> kstate \<Rightarrow> (ex_regs_t \<times> kstate) kres" where
  "sys_lthread_ex_regs e threadno uip usp pgr s =
     (let cur = get_current_tcb s;
          tid = set_x0id_thread threadno (myself (tcbs s cur));
          t = tid_to_tcb tid
      in if NOT (uip AND usp) \<noteq> 0 \<and> tid \<noteq> myself (tcbs s cur) then
           if \<not> tcb_exist t s then
             res_bind (create_tcb e tid (space (tcbs s cur)) s) (\<lambda>(t, s).
               if t = NULL then Err Panic
               else
                 let s = create_user_stack_frame t usp uip (switch_to_user e) 0 s;
                     s = upd_tcb t (\<lambda>c. c\<lparr>pager := pgr, priority := priority (tcbs s cur), thread_state := TS_RUNNING\<rparr>) s;
                     s = thread_enqueue_ready t s
                 in Ok (\<lparr>ret_uip = NOT 0, ret_usp = NOT 0, ret_pager = L4_INVALID_ID, ret_flags = 0\<rparr>, s))
           else
             res_bind (unwind_ipc e t s) (\<lambda>s. Ok (ex_regs_exchange e t uip usp pgr (set_thread_state TS_RUNNING t s)))
         else Ok (ex_regs_exchange e t uip usp pgr s))"

text \<open>The identifier and its kind.\<close>

definition sys_id_nearest :: "l4_threadid_t \<Rightarrow> kstate \<Rightarrow> l4_threadid_t \<times> dword_t" where
  "sys_id_nearest tid s =
     (let me = myself (tcbs s (get_current_tcb s)) in
      if l4_is_nil_id tid then (me, 0)
      else
        let chief = set_x0id_task (tid_chief me) L4_NIL_ID
        in (myself (tcbs s (tid_to_tcb chief)), 4))"

end
