(* ===== verification/Unwind.thy ===== *)
theory Unwind
  imports Threads
begin

text \<open>
  What unwinding an IPC does: it ends, it keeps the queues well-formed and takes the thread out of the wakeup queue.
\<close>

section \<open>Frames\<close>

lemma push_frame [simp]:
  "prio_queue (tcb_stack_push t v s) = prio_queue s" "current_max_prio (tcb_stack_push t v s) = current_max_prio s"
  "idle_tcb (tcb_stack_push t v s) = idle_tcb s" "current (tcb_stack_push t v s) = current s"
  "fpu_owner (tcb_stack_push t v s) = fpu_owner s"
  by (simp_all add: tcb_stack_push_def set_mem_def Let_def)

lemma push_tcb: "(\<And>c v. f (c\<lparr>stack := v\<rparr>) = f c) \<Longrightarrow> f (tcbs (tcb_stack_push t v s) x) = f (tcbs s x)"
  by (simp add: tcb_stack_push_def set_mem_def Let_def)

lemma user_frame [simp]:
  "prio_queue (create_user_stack_frame t a b c d s) = prio_queue s"
  "current_max_prio (create_user_stack_frame t a b c d s) = current_max_prio s"
  "idle_tcb (create_user_stack_frame t a b c d s) = idle_tcb s"
  "current (create_user_stack_frame t a b c d s) = current s"
  "fpu_owner (create_user_stack_frame t a b c d s) = fpu_owner s"
  by (simp_all add: create_user_stack_frame_def Let_def)

lemma user_frame_tcb:
  "(\<And>c v. f (c\<lparr>stack := v\<rparr>) = f c) \<Longrightarrow> f (tcbs (create_user_stack_frame t a b e d s) x) = f (tcbs s x)"
  by (simp add: create_user_stack_frame_def Let_def push_tcb [of f])

lemma unwind_frame_sel [simp]:
  "prio_queue (unwind_frame e t r s) = prio_queue s" "current_max_prio (unwind_frame e t r s) = current_max_prio s"
  "idle_tcb (unwind_frame e t r s) = idle_tcb s" "current (unwind_frame e t r s) = current s"
  "fpu_owner (unwind_frame e t r s) = fpu_owner s"
  by (simp_all add: unwind_frame_def Let_def set_user_sp_def set_mem_def)

lemma unwind_frame_tcb:
  assumes "\<And>c v. f (c\<lparr>stack := v\<rparr>) = f c" "\<And>c v. f (c\<lparr>unwind_ipc_sp := v\<rparr>) = f c"
  shows "f (tcbs (unwind_frame e t r s) x) = f (tcbs s x)"
  using assms by (simp add: unwind_frame_def Let_def set_user_sp_def set_mem_def user_frame_tcb [of f])

text \<open>The fields the queues and the life of a thread depend on; neither frame changes them.\<close>

definition but_stack :: "tcb_t \<Rightarrow> tcb_t" where
  "but_stack c = c\<lparr>stack := 0, unwind_ipc_sp := 0\<rparr>"

lemma but_stack_unwind: "but_stack (tcbs (unwind_frame e t r s) x) = but_stack (tcbs s x)"
  by (rule unwind_frame_tcb) (simp_all add: but_stack_def)

lemma but_stack_user: "(but_stack (tcbs (create_user_stack_frame t a b e d s) x)) = but_stack (tcbs s x)"
  by (rule user_frame_tcb) (simp add: but_stack_def)

lemma but_stack_eqD:
  assumes "but_stack c = but_stack d"
  shows "thread_state c = thread_state d" "queue_state c = queue_state d" "priority c = priority d"
    "ready_next c = ready_next d" "ready_prev c = ready_prev d" "wakeup_next c = wakeup_next d" "wakeup_prev c = wakeup_prev d"
    "present_next c = present_next d" "present_prev c = present_prev d" "send_queue c = send_queue d"
    "send_next c = send_next d" "send_prev c = send_prev d" "partner c = partner d" "myself c = myself d" "space c = space d"
    "fpu_ptr c = fpu_ptr d" "pager c = pager d"
  using assms by (cases c; cases d; simp add: but_stack_def)+

lemmas unwind_same = but_stack_eqD [OF but_stack_unwind]
lemmas user_frame_same = but_stack_eqD [OF but_stack_user]

lemma unwind_frame_ready_inv: "ready_inv s Q \<Longrightarrow> ready_inv (unwind_frame e t r s) Q"
  by (erule ready_inv_cong) (simp_all add: unwind_same in_queue_def)

section \<open>The states of a thread\<close>

definition state_known :: "kstate \<Rightarrow> tptr \<Rightarrow> bool" where
  "state_known s t \<longleftrightarrow> thread_state (tcbs s t) \<in>
     {TS_RUNNING, TS_ABORTED, TS_WAITING, TS_POLLING, TS_LOCKED_WAITING, TS_LOCKED_RUNNING}"

lemma states_differ [simp]:
  "TS_ABORTED \<noteq> TS_RUNNING" "TS_WAITING \<noteq> TS_RUNNING" "TS_POLLING \<noteq> TS_RUNNING" "TS_LOCKED_WAITING \<noteq> TS_RUNNING" "TS_LOCKED_RUNNING \<noteq> TS_RUNNING"
  "TS_WAITING \<noteq> TS_ABORTED" "TS_POLLING \<noteq> TS_ABORTED" "TS_LOCKED_WAITING \<noteq> TS_ABORTED" "TS_LOCKED_RUNNING \<noteq> TS_ABORTED"
  "TS_POLLING \<noteq> TS_WAITING" "TS_LOCKED_WAITING \<noteq> TS_WAITING" "TS_LOCKED_RUNNING \<noteq> TS_WAITING"
  "TS_LOCKED_WAITING \<noteq> TS_POLLING" "TS_LOCKED_RUNNING \<noteq> TS_POLLING" "TS_LOCKED_RUNNING \<noteq> TS_LOCKED_WAITING"
  by (simp_all add: TS_RUNNING_def TS_ABORTED_def TS_WAITING_def TS_POLLING_def TS_LOCKED_WAITING_def TS_LOCKED_RUNNING_def
      TSB_LOCKED_def TSB_POLLING_def TSB_READY_def)

lemmas states_differ' [simp] = states_differ [symmetric]

section \<open>Unwinding ends and keeps the queues\<close>

text \<open>What every step of unwinding keeps, as a preorder on states.\<close>

definition tcb_kept :: "kstate \<Rightarrow> kstate \<Rightarrow> tptr \<Rightarrow> bool" where
  "tcb_kept s s' x \<longleftrightarrow>
     (state_known s x \<longrightarrow> state_known s' x) \<and> (in_ready s x \<longrightarrow> in_ready s' x) \<and>
     (in_queue TS_QUEUE_WAKEUP s' x \<longrightarrow> in_queue TS_QUEUE_WAKEUP s x) \<and> (is_locked s' x \<longrightarrow> is_locked s x) \<and>
     (in_queue TS_QUEUE_PRESENT s' x \<longleftrightarrow> in_queue TS_QUEUE_PRESENT s x) \<and> pnext s' x = pnext s x \<and> pprev s' x = pprev s x \<and>
     myself (tcbs s' x) = myself (tcbs s x) \<and> space (tcbs s' x) = space (tcbs s x) \<and> fpu_ptr (tcbs s' x) = fpu_ptr (tcbs s x)"

definition unwinds :: "kstate \<Rightarrow> kstate \<Rightarrow> bool" where
  "unwinds s s' \<longleftrightarrow> (\<forall>x. tcb_kept s s' x) \<and> idle_tcb s' = idle_tcb s \<and> current s' = current s \<and> fpu_owner s' = fpu_owner s \<and>
     ((\<exists>Q. ready_inv s Q) \<longrightarrow> (\<exists>Q'. ready_inv s' Q')) \<and> ((\<exists>ws. wakeup_inv s ws) \<longrightarrow> (\<exists>ws'. wakeup_inv s' ws'))"

lemma unwindsI:
  assumes "\<And>x. tcb_kept s s' x" "idle_tcb s' = idle_tcb s" "current s' = current s" "fpu_owner s' = fpu_owner s"
    and "\<And>Q. ready_inv s Q \<Longrightarrow> \<exists>Q'. ready_inv s' Q'" "\<And>ws. wakeup_inv s ws \<Longrightarrow> \<exists>ws'. wakeup_inv s' ws'"
  shows "unwinds s s'"
  using assms unfolding unwinds_def by blast

lemma tcb_kept_trans: "tcb_kept s s' x \<Longrightarrow> tcb_kept s' s'' x \<Longrightarrow> tcb_kept s s'' x"
  by (simp add: tcb_kept_def)

lemma unwinds_trans: "unwinds s s' \<Longrightarrow> unwinds s' s'' \<Longrightarrow> unwinds s s''"
  unfolding unwinds_def using tcb_kept_trans [of s s' _ s''] by auto

lemma unwindsD:
  assumes "unwinds s s'"
  shows "state_known s x \<Longrightarrow> state_known s' x" and "in_ready s x \<Longrightarrow> in_ready s' x"
    and "in_queue TS_QUEUE_WAKEUP s' x \<Longrightarrow> in_queue TS_QUEUE_WAKEUP s x" and "is_locked s' x \<Longrightarrow> is_locked s x"
    and "in_queue TS_QUEUE_PRESENT s' x \<longleftrightarrow> in_queue TS_QUEUE_PRESENT s x" and "pnext s' x = pnext s x" and "pprev s' x = pprev s x"
    and "myself (tcbs s' x) = myself (tcbs s x)" and "space (tcbs s' x) = space (tcbs s x)" and "fpu_ptr (tcbs s' x) = fpu_ptr (tcbs s x)"
    and "idle_tcb s' = idle_tcb s" and "current s' = current s" and "fpu_owner s' = fpu_owner s"
    and "ready_inv s Q \<Longrightarrow> \<exists>Q'. ready_inv s' Q'" and "wakeup_inv s ws \<Longrightarrow> \<exists>ws'. wakeup_inv s' ws'"
  using assms unfolding unwinds_def tcb_kept_def by blast+

lemma present_inv_cong:
  assumes "present_inv s ps" "\<And>t. pnext s' t = pnext s t" "\<And>t. pprev s' t = pprev s t"
    and "\<And>t. in_queue TS_QUEUE_PRESENT s' t = in_queue TS_QUEUE_PRESENT s t" "idle_tcb s' = idle_tcb s"
  shows "present_inv s' ps"
  using assms by (simp add: present_inv_def sentinel_ring_def)

lemma unwinds_present: "unwinds s s' \<Longrightarrow> present_inv s ps \<Longrightarrow> present_inv s' ps"
  by (erule present_inv_cong) (rule unwindsD, assumption)+

lemma unwinds_dequeue_wakeup:
  assumes "t \<noteq> idle_tcb s"
  shows "unwinds s (thread_dequeue_wakeup t s)"
proof (rule unwindsI)
  have k: "keeps but_wakeup s (thread_dequeue_wakeup t s)" by (rule dequeue_wakeup_keeps)
  note e = but_wakeup_eqD [OF keeps_tcb [OF k]] and b = but_wakeup_bits [OF keeps_tcb [OF k]]
  show "tcb_kept s (thread_dequeue_wakeup t s) x" for x
  proof -
    have "fpu_ptr (tcbs (thread_dequeue_wakeup t s) x) = fpu_ptr (tcbs s x)"
      "space (tcbs (thread_dequeue_wakeup t s) x) = space (tcbs s x)"
      by (simp_all add: thread_dequeue_wakeup_def Let_def)
    moreover have "in_queue TS_QUEUE_WAKEUP (thread_dequeue_wakeup t s) x \<Longrightarrow> in_queue TS_QUEUE_WAKEUP s x"
      by (simp add: wakeup_queue.member_dequeue)
    ultimately show ?thesis
      unfolding tcb_kept_def state_known_def is_locked_def by (simp add: e b in_queue_simps)
  qed
  show "idle_tcb (thread_dequeue_wakeup t s) = idle_tcb s" "current (thread_dequeue_wakeup t s) = current s"
    by (rule keeps_idle [OF k], rule keeps_clock(2) [OF k])
  show "fpu_owner (thread_dequeue_wakeup t s) = fpu_owner s"
    by (simp add: thread_dequeue_wakeup_def Let_def)
qed (rule exI, erule wakeup_op_ready_inv [OF dequeue_wakeup_keeps wakeup_keeps_prio_queue(2,4)],
    rule exI, erule dequeue_wakeup_inv [OF _ assms])

text \<open>Steps that touch none of the queues and put no thread into a lock.\<close>

lemma unwinds_quiet:
  assumes "\<And>x. queue_state (tcbs s' x) = queue_state (tcbs s x)" "\<And>x. priority (tcbs s' x) = priority (tcbs s x)"
    and "\<And>x. rnext s' x = rnext s x" "\<And>x. rprev s' x = rprev s x" "\<And>x. wnext s' x = wnext s x" "\<And>x. wprev s' x = wprev s x"
    and "\<And>x. pnext s' x = pnext s x" "\<And>x. pprev s' x = pprev s x"
    and "\<And>x. myself (tcbs s' x) = myself (tcbs s x)" "\<And>x. space (tcbs s' x) = space (tcbs s x)" "\<And>x. fpu_ptr (tcbs s' x) = fpu_ptr (tcbs s x)"
    and "\<And>x. thread_state (tcbs s' x) \<in> {thread_state (tcbs s x), TS_RUNNING, TS_ABORTED}"
    and "prio_queue s' = prio_queue s" "current_max_prio s' = current_max_prio s"
    and "idle_tcb s' = idle_tcb s" "current s' = current s" "fpu_owner s' = fpu_owner s"
  shows "unwinds s s'"
proof (rule unwindsI)
  show "tcb_kept s s' x" for x
    using assms(12) [of x] unfolding tcb_kept_def state_known_def is_locked_def by (auto simp: assms(1-11) in_queue_def)
  show "\<exists>Q'. ready_inv s' Q'" if "ready_inv s Q" for Q
    using ready_inv_cong [OF that, of s'] assms by (auto simp: in_queue_def)
  show "\<exists>ws'. wakeup_inv s' ws'" if "wakeup_inv s ws" for ws
    using wakeup_inv_cong [OF that, of s'] assms by (auto simp: in_queue_def)
qed (rule assms)+

lemma unwinds_frame: "unwinds s (unwind_frame e t r s)"
  by (rule unwinds_quiet) (simp_all add: unwind_same)

lemma unwinds_state: "x = TS_RUNNING \<or> x = TS_ABORTED \<Longrightarrow> unwinds s (set_thread_state x t s)"
  by (rule unwinds_quiet) (auto simp: set_thread_state_def)

lemma but_send_eqD:
  assumes "but_send c = but_send d"
  shows "thread_state c = thread_state d" "queue_state c = queue_state d" "priority c = priority d"
    "ready_next c = ready_next d" "ready_prev c = ready_prev d" "wakeup_next c = wakeup_next d" "wakeup_prev c = wakeup_prev d"
    "present_next c = present_next d" "present_prev c = present_prev d" "partner c = partner d" "myself c = myself d"
    "space c = space d" "fpu_ptr c = fpu_ptr d" "unwind_ipc_sp c = unwind_ipc_sp d" "pager c = pager d"
  using assms by (cases c; cases d; simp add: but_send_def)+

lemma dequeue_send_sel [simp]:
  "prio_queue (snd (thread_dequeue_send d t s)) = prio_queue s"
  "current_max_prio (snd (thread_dequeue_send d t s)) = current_max_prio s"
  "fpu_owner (snd (thread_dequeue_send d t s)) = fpu_owner s"
  by (simp_all add: thread_dequeue_send_def Let_def)

lemmas dequeue_send_same = but_send_eqD [OF keeps_tcb [OF dequeue_send_keeps]]

lemma unwinds_dequeue_send: "unwinds s (snd (thread_dequeue_send d t s))"
  by (rule unwinds_quiet) (simp_all add: dequeue_send_same keeps_idle [OF dequeue_send_keeps] keeps_clock(2) [OF dequeue_send_keeps])

lemma unwinds_enqueue_ready:
  assumes "t \<noteq> NULL" "t \<noteq> idle_tcb s"
  shows "unwinds s (thread_enqueue_ready t s)"
proof (rule unwindsI)
  have k: "keeps but_ready s (thread_enqueue_ready t s)" by (rule enqueue_ready_keeps)
  note e = but_ready_eqD [OF keeps_tcb [OF k]] and b = but_ready_bits [OF keeps_tcb [OF k]]
  show "tcb_kept s (thread_enqueue_ready t s) x" for x
  proof -
    have "fpu_ptr (tcbs (thread_enqueue_ready t s) x) = fpu_ptr (tcbs s x)"
      by (simp add: thread_enqueue_ready_def Let_def)
    moreover have "in_ready s x \<Longrightarrow> in_ready (thread_enqueue_ready t s) x" by (simp add: enqueue_ready_bit)
    ultimately show ?thesis
      unfolding tcb_kept_def state_known_def is_locked_def by (simp add: e b in_queue_simps)
  qed
  show "idle_tcb (thread_enqueue_ready t s) = idle_tcb s" "current (thread_enqueue_ready t s) = current s"
    by (rule keeps_idle [OF k], rule keeps_clock(2) [OF k])
  show "fpu_owner (thread_enqueue_ready t s) = fpu_owner s"
    by (simp add: thread_enqueue_ready_def Let_def)
  show "\<exists>ws'. wakeup_inv (thread_enqueue_ready t s) ws'" if "wakeup_inv s ws" for ws
    using ready_op_wakeup_inv [OF k that] by blast
qed (use enqueue_ready_inv [OF _ assms] in blast)


section \<open>Unwinding ends\<close>

text \<open>No thread has the idle thread's block.\<close>

definition idle_apart :: "kstate \<Rightarrow> bool" where
  "idle_apart s \<longleftrightarrow> idle_tcb s AND NOT (mask 28) \<noteq> TCB_AREA"

lemma idle_apartD: "idle_apart s \<Longrightarrow> tid_to_tcb tid \<noteq> idle_tcb s"
  unfolding idle_apart_def using tid_to_tcb_area [of tid] by metis

definition unwound :: "tptr \<Rightarrow> kstate \<Rightarrow> kstate \<Rightarrow> bool" where
  "unwound t s s' \<longleftrightarrow> unwinds s s' \<and> \<not> in_queue TS_QUEUE_WAKEUP s' t \<and> \<not> is_locked s' t"

lemma unwound_after:
  assumes "unwound t s s'" "unwinds s' s''"
  shows "unwound t s s''"
  using assms unwinds_trans [of s s' s''] unwindsD(3,4) [OF assms(2)] unfolding unwound_def by blast

lemma unwound_quiet: "t \<noteq> idle_tcb s \<Longrightarrow> \<not> is_locked s t \<Longrightarrow> unwound t s (thread_dequeue_wakeup t s)"
  using unwinds_dequeue_wakeup [of t s] unwindsD(4) [OF unwinds_dequeue_wakeup, of t s t]
  by (auto simp: unwound_def wakeup_queue.member_dequeue)

text \<open>The partner of a thread in a transfer is in one of the known states.\<close>

definition partners_known :: "kstate \<Rightarrow> bool" where
  "partners_known s \<longleftrightarrow> (\<forall>x. is_locked s x \<and> \<not> IS_KERNEL_ID (partner (tcbs s x)) \<longrightarrow> state_known s (tid_to_tcb (partner (tcbs s x))))"

lemma partners_known_unwinds:
  assumes "partners_known s" "unwinds s s'" "\<And>x. partner (tcbs s' x) = partner (tcbs s x)"
  shows "partners_known s'"
  using assms(1,3) unwindsD(1,4) [OF assms(2)] unfolding partners_known_def by simp

lemma unwind_ipc_ok:
  assumes "state_known s t" "partners_known s" "idle_apart s" "t \<noteq> idle_tcb s"
  shows "\<exists>s'. unwind_ipc e t s = Ok s' \<and> unwound t s s'"
  using assms
proof (induction e t s rule: unwind_ipc.induct)
  case (1 e t s)
  define s0 where "s0 = thread_dequeue_wakeup t s"
  define p where "p = tid_to_tcb (partner (tcbs s0 t))"
  define s1 where "s1 = set_thread_state TS_ABORTED t s0"
  have st: "thread_state (tcbs s0 t) = thread_state (tcbs s t)" "is_locked s0 t = is_locked s t"
    by (simp_all add: s0_def dequeue_wakeup_state is_locked_def)
  note simp = unwind_ipc.simps [of e t s] s0_def [symmetric] Let_def p_def [symmetric]
  show ?case
  proof (cases "is_locked s t")
    case False
    then have u: "unwound t s s0" unfolding s0_def by (rule unwound_quiet [OF "1.prems"(4)])
    show ?thesis
      using "1.prems"(1) False unwound_after [OF u unwinds_frame]
        unwound_after [OF u unwinds_trans [OF unwinds_dequeue_send unwinds_frame]] u
      unfolding state_known_def is_locked_def simp by (auto simp: st)
  next
    case True
    have u01: "unwinds s0 s1" unfolding s1_def by (rule unwinds_state) simp
    have u1: "unwinds s s1" unfolding s0_def using unwinds_trans [OF unwinds_dequeue_wakeup [OF "1.prems"(4)]] u01 s0_def by metis
    have w1: "unwound t s s1"
      using u1 unwindsD(3) [OF u01, of t]
      by (auto simp: unwound_def s0_def wakeup_queue.member_dequeue is_locked_def s1_def set_thread_state_def)
    have pr: "partner (tcbs s1 x) = partner (tcbs s x)" for x
      by (simp add: s1_def set_thread_state_def s0_def but_wakeup_eqD(14) [OF keeps_tcb [OF dequeue_wakeup_keeps]])
    have pe: "p = tid_to_tcb (partner (tcbs s t))" using pr [of t] by (simp add: p_def s1_def set_thread_state_def)
    have k1: "partners_known s1" and i1: "idle_apart s1"
      using partners_known_unwinds [OF "1.prems"(2) u1 pr] "1.prems" unwindsD(11) [OF u1] by (simp_all add: idle_apart_def)
    have kp: "state_known s1 p" if "\<not> IS_KERNEL_ID (partner (tcbs s1 t))"
      using "1.prems"(2) True that unwindsD(1) [OF u1] unfolding partners_known_def pe pr by blast
    have p: "p \<noteq> NULL" "p \<noteq> idle_tcb s1" unfolding p_def using tid_to_tcb_not_NULL idle_apartD [OF i1] by simp_all
    have rec: "\<exists>s'. unwind_ipc e p s1 = Ok s' \<and> unwound p s1 s'" if "\<not> IS_KERNEL_ID (partner (tcbs s1 t))"
      by (rule "1.IH" [OF s0_def refl p_def]) (use that True k1 i1 kp p in \<open>auto simp: st is_locked_def s1_def\<close>)
    have part: "\<exists>s2. (if \<not> IS_KERNEL_ID (partner (tcbs s1 t)) then
         res_bind (unwind_ipc e p s1) (\<lambda>s. Ok (thread_enqueue_ready p (set_thread_state TS_RUNNING p s))) else Ok s1) = Ok s2 \<and>
         unwound t s s2"
    proof (cases "IS_KERNEL_ID (partner (tcbs s1 t))")
      case False
      then obtain s2 where s2: "unwind_ipc e p s1 = Ok s2" "unwinds s1 s2" using rec unfolding unwound_def by blast
      define s3 where "s3 = set_thread_state TS_RUNNING p s2"
      have u3: "unwinds s1 s3" unfolding s3_def by (rule unwinds_trans [OF s2(2) unwinds_state]) simp
      have "unwinds s1 (thread_enqueue_ready p s3)"
        by (rule unwinds_trans [OF u3 unwinds_enqueue_ready]) (use p unwindsD(11) [OF u3] in auto)
      from unwound_after [OF w1 this] show ?thesis using False s2(1) by (simp add: s3_def)
    qed (use w1 in simp)
    then show ?thesis
      using True unwound_after [OF _ unwinds_frame, of t s _ e t]
      unfolding simp s1_def [symmetric] is_locked_def by (auto simp: st is_locked_def)
  qed
qed

section \<open>Properties\<close>

text \<open>A transfer between two threads, each the other's partner.\<close>

definition demo_env :: kenv where
  "demo_env = \<lparr>abort_ipc = 0xF0000100, switch_to_user = 0xF0000200, switch_to_sigma0 = 0xF0000300, switch_to_roottask = 0xF0000400,
     notify_initialize_idle_thread = 0xF0000500, return_from_sys_ipc = 0xF0000600, alternate_sys_ipc_return = 0xF0000700,
     kernel_ptdir_root = 0xF0001000, kernel_info_page = 0xF0002000, kernel_arg = 0,
     kenv_io = demo_io\<rparr>"

definition demo_transfer :: kstate where
  "demo_transfer =
     upd_tcb 0xE0020000 (\<lambda>c. c\<lparr>myself := 0x20000, partner := 0x30000, thread_state := TS_LOCKED_RUNNING\<rparr>)
       (upd_tcb 0xE0030000 (\<lambda>c. c\<lparr>myself := 0x30000, partner := 0x20000, thread_state := TS_LOCKED_WAITING\<rparr>)
          (boot_state 0xF0110000))"

text \<open>\<^bold>\<open>C16.\<close> Unwinding the IPC of a thread in any of the six states ends without a panic, also through a chain or cycle of
  partners; the ready and wakeup queues stay well-formed, no thread leaves the ready queues, and the thread is in no
  transfer and in no wakeup queue afterwards.\<close>

theorem unwind_ipc_ends:
  assumes "state_known s t" and "partners_known s" and "idle_apart s" and "t \<noteq> idle_tcb s" and "sched_inv s Q ws"
  shows "\<exists>s' Q' ws'. unwind_ipc e t s = Ok s' \<and> sched_inv s' Q' ws' \<and> t \<notin> set ws' \<and> \<not> is_locked s' t \<and> state_known s' t \<and>
    (\<forall>x. in_ready s x \<longrightarrow> in_ready s' x)"
proof -
  obtain s' where s': "unwind_ipc e t s = Ok s'" "unwound t s s'" using unwind_ipc_ok [OF assms(1-4)] by blast
  have u: "unwinds s s'" using s'(2) by (simp add: unwound_def)
  obtain Q' ws' where q: "ready_inv s' Q'" "wakeup_inv s' ws'"
    using unwindsD(14,15) [OF u] assms(5) unfolding sched_inv_def by blast
  moreover have "t \<notin> set ws'" using s'(2) q(2) assms(4) unwindsD(11) [OF u] sentinel_member(1) unfolding unwound_def wakeup_inv_def by metis
  ultimately show ?thesis
    using s' unwindsD(1,2,12) [OF u] assms(1,5) unfolding sched_inv_def unwound_def by metis
qed

theorem unwind_ipc_ends_witness:
  "\<exists>s' Q' ws'. unwind_ipc demo_env 0xE0020000 demo_transfer = Ok s' \<and> sched_inv s' Q' ws' \<and> 0xE0020000 \<notin> set ws' \<and>
     \<not> is_locked s' 0xE0020000"
proof -
  have st: "state_known demo_transfer 0xE0020000" by (simp add: state_known_def demo_transfer_def)
  have l: "is_locked demo_transfer x \<Longrightarrow> x = 0xE0020000 \<or> x = 0xE0030000" for x
    by (auto simp: is_locked_def demo_transfer_def boot_state_def zero_tcb_def TS_RUNNING_def TS_LOCKED_WAITING_def
        TS_LOCKED_RUNNING_def TSB_LOCKED_def TSB_POLLING_def TSB_READY_def split: if_splits)
  have t: "tid_to_tcb 0x20000 = 0xE0020000" "tid_to_tcb 0x30000 = 0xE0030000"
    by (simp_all add: tid_to_tcb_def id_thread_def L4_NUMBITS_TCBS_def TCB_AREA_def mask_eq_exp_minus_1)
  have p: "partners_known demo_transfer"
    unfolding partners_known_def using l by (auto simp: t demo_transfer_def state_known_def)
  have i: "idle_apart demo_transfer" by (simp add: idle_apart_def demo_transfer_def boot_facts TCB_AREA_def mask_eq_exp_minus_1)
  have "ready_inv demo_transfer (\<lambda>_. [])" unfolding demo_transfer_def
    by (intro ready_inv_upd boot_ready_inv) simp_all
  moreover have "wakeup_inv demo_transfer []" unfolding demo_transfer_def
    by (intro wakeup_inv_upd boot_sentinels) simp_all
  ultimately have "sched_inv demo_transfer (\<lambda>_. []) []" by (simp add: sched_inv_def demo_transfer_def boot_state_def)
  from unwind_ipc_ends [OF st p i _ this, of demo_env] show ?thesis by (simp add: demo_transfer_def boot_facts) blast
qed

end
