(* ===== verification/Delete_Threads.thy ===== *)
theory Delete_Threads
  imports Unwind Fpage_Ops
begin

text \<open>
  Deleting a thread and all threads of an address space: the senders waiting for a deleted thread, and what is left of the
  queues.
\<close>

section \<open>The senders of a deleted thread\<close>

lemma ready_bit_wakeup: "in_ready (thread_dequeue_wakeup x s) y = in_ready s y"
  using but_wakeup_bits [OF keeps_tcb [OF dequeue_wakeup_keeps], of 0 x s y] by (simp add: in_queue_simps)

lemma send_fields_wakeup:
  "snext (thread_dequeue_wakeup x s) y = snext s y" "sprev (thread_dequeue_wakeup x s) y = sprev s y"
  "send_queue (tcbs (thread_dequeue_wakeup x s) y) = send_queue (tcbs s y)"
  "partner (tcbs (thread_dequeue_wakeup x s) y) = partner (tcbs s y)"
  using but_wakeup_eqD [OF keeps_tcb [OF dequeue_wakeup_keeps], of x s y] by simp_all

lemma bits_same:
  "in_queue b (unwind_frame e t r s) y = in_queue b s y" "in_queue b (snd (thread_dequeue_send d t s)) y = in_queue b s y"
  by (simp_all add: in_queue_def unwind_same dequeue_send_same)

text \<open>States that differ in no thread's state and no ready queue, with exactly the threads \<open>X\<close> taken out of the wakeup queue.\<close>

definition cancelled :: "tptr set \<Rightarrow> kstate \<Rightarrow> kstate \<Rightarrow> bool" where
  "cancelled X s s' \<longleftrightarrow> unwinds s s' \<and>
     (\<forall>y. thread_state (tcbs s' y) = thread_state (tcbs s y) \<and> partner (tcbs s' y) = partner (tcbs s y) \<and> in_ready s' y = in_ready s y \<and>
        (in_queue TS_QUEUE_WAKEUP s' y \<longleftrightarrow> y \<notin> X \<and> in_queue TS_QUEUE_WAKEUP s y))"

lemma cancelled_trans: "cancelled X s s' \<Longrightarrow> cancelled Y s' s'' \<Longrightarrow> cancelled (X \<union> Y) s s''"
  unfolding cancelled_def using unwinds_trans [of s s' s''] by auto

text \<open>States with the same send queues, and sets of threads whose links stay in the set.\<close>

definition same_sends :: "kstate \<Rightarrow> kstate \<Rightarrow> bool" where
  "same_sends s s' \<longleftrightarrow> (\<forall>y. snext s' y = snext s y \<and> sprev s' y = sprev s y \<and> send_queue (tcbs s' y) = send_queue (tcbs s y))"

definition links_within :: "tptr set \<Rightarrow> kstate \<Rightarrow> bool" where
  "links_within Y s \<longleftrightarrow> (\<forall>y\<in>Y. snext s y \<in> Y \<and> sprev s y \<in> Y)"

lemma same_sends_list: "same_sends s s' \<Longrightarrow> send_list s' d ys = send_list s d ys" "same_sends s s' \<Longrightarrow> links_within Y s' = links_within Y s"
  by (rule send_list_cong) (simp_all add: same_sends_def links_within_def)

lemma dequeue_send_cong: "same_sends s s' \<Longrightarrow> same_sends (snd (thread_dequeue_send d t s)) (snd (thread_dequeue_send d t s'))"
  by (auto simp: same_sends_def thread_dequeue_send_def Let_def)

lemma dequeue_send_fields:
  "snext (snd (thread_dequeue_send d t s)) y = (if snext s t \<noteq> t \<and> y = sprev s t then snext s t else snext s y)"
  "sprev (snd (thread_dequeue_send d t s)) y = (if snext s t \<noteq> t \<and> y = snext s t then sprev s t else sprev s y)"
  by (simp_all add: thread_dequeue_send_def Let_def)

lemma dequeue_send_links:
  assumes "links_within Y s" "t \<in> Y"
  shows "links_within Y (snd (thread_dequeue_send d t s))"
    and "y \<notin> Y \<Longrightarrow> snext (snd (thread_dequeue_send d t s)) y = snext s y \<and> sprev (snd (thread_dequeue_send d t s)) y = sprev s y"
  using assms unfolding links_within_def dequeue_send_fields by auto

lemma send_list_links: "send_list s d xs \<Longrightarrow> links_within (set xs) s" "send_list s d xs \<Longrightarrow> distinct xs"
  using ring_next_in [of "snext s" "sprev s" xs] ring_prev_in [of "snext s" "sprev s" xs] ring_distinct [of "snext s" "sprev s" xs]
  by (auto simp: send_list_def links_within_def split: if_splits)

section \<open>Unwinding one thread\<close>

text \<open>The send queues after a thread in no transfer was unwound: a polling thread has left the queue of its partner.\<close>

definition left_queue :: "tptr \<Rightarrow> kstate \<Rightarrow> kstate" where
  "left_queue t s =
     (if thread_state (tcbs s t) = TS_POLLING then snd (thread_dequeue_send (tid_to_tcb (partner (tcbs s t))) t s) else s)"

lemma left_queue_same:
  "thread_state (tcbs (left_queue t s) x) = thread_state (tcbs s x)" "partner (tcbs (left_queue t s) x) = partner (tcbs s x)"
  "idle_tcb (left_queue t s) = idle_tcb s"
  by (simp_all add: left_queue_def dequeue_send_same keeps_idle [OF dequeue_send_keeps])

lemma unwind_target:
  assumes st: "thread_state (tcbs s t) \<in> {TS_RUNNING, TS_ABORTED, TS_WAITING, TS_POLLING}" and i: "t \<noteq> idle_tcb s"
  shows "\<exists>s'. unwind_ipc e t s = Ok s' \<and> cancelled {t} s s' \<and> same_sends (left_queue t s) s'"
proof -
  define s0 where "s0 = thread_dequeue_wakeup t s"
  define s1 where "s1 = left_queue t s0"
  have c0: "cancelled {t} s s0"
    by (simp add: cancelled_def s0_def unwinds_dequeue_wakeup [OF i] dequeue_wakeup_state send_fields_wakeup ready_bit_wakeup
        wakeup_queue.member_dequeue)
  have "unwinds s0 s1" by (simp add: s1_def left_queue_def unwinds_dequeue_send) (simp add: unwinds_quiet)
  then have c1: "cancelled {t} s s1"
    using c0 unwinds_trans [of s s0 s1] by (simp add: cancelled_def s1_def left_queue_same) (simp add: left_queue_def bits_same)
  have c2: "cancelled {t} s (unwind_frame e t r s1)" for r
    using c1 unwinds_trans [OF _ unwinds_frame, of s s1] by (simp add: cancelled_def unwind_same bits_same)
  have st0: "thread_state (tcbs s0 t) = thread_state (tcbs s t)" "partner (tcbs s0 t) = partner (tcbs s t)"
    by (simp_all add: s0_def dequeue_wakeup_state send_fields_wakeup)
  have "same_sends s s0" by (simp add: same_sends_def s0_def send_fields_wakeup)
  then have sl: "same_sends (left_queue t s) s1" by (simp add: s1_def left_queue_def st0 dequeue_send_cong)
  then have "same_sends (left_queue t s) (unwind_frame e t r s1)" for r by (simp add: same_sends_def unwind_same)
  moreover have "unwind_ipc e t s = Ok s1 \<or> (\<exists>r. unwind_ipc e t s = Ok (unwind_frame e t r s1))"
    using st st0 unfolding unwind_ipc.simps [of e t s] Let_def s0_def [symmetric] by (auto simp: s1_def left_queue_def)
  ultimately show ?thesis using c1 c2 sl by blast
qed

section \<open>The senders of a thread\<close>

lemma send_list_first: "send_list s t (x # xs) \<Longrightarrow> send_queue (tcbs s t) = x \<and> x \<noteq> NULL"
  by (simp add: send_list_def)

text \<open>The threads \<open>xs\<close> poll for \<open>t\<close>.\<close>

definition pollers :: "kstate \<Rightarrow> tptr \<Rightarrow> tptr list \<Rightarrow> bool" where
  "pollers s t xs \<longleftrightarrow> send_list s t xs \<and> idle_tcb s \<notin> set xs \<and>
     (\<forall>x\<in>set xs. thread_state (tcbs s x) = TS_POLLING \<and> tid_to_tcb (partner (tcbs s x)) = t)"

lemma pollers_disjoint: "pollers s t xs \<Longrightarrow> pollers s d ys \<Longrightarrow> d \<noteq> t \<Longrightarrow> set ys \<inter> set xs = {}"
  unfolding pollers_def by auto

lemma pollers_cancelled: "pollers s d ys \<Longrightarrow> cancelled X s s' \<Longrightarrow> send_list s' d ys' \<Longrightarrow> set ys' \<subseteq> set ys \<Longrightarrow> pollers s' d ys'"
  unfolding pollers_def cancelled_def unwinds_def by auto

lemma unwind_senders_ok:
  assumes "pollers s t xs"
  shows "\<exists>s'. unwind_senders e t s = Ok s' \<and> cancelled (set xs) s s' \<and> send_queue (tcbs s' t) = NULL \<and>
    (\<forall>d ys. d \<noteq> t \<and> pollers s d ys \<longrightarrow> pollers s' d ys) \<and> (\<forall>Y. links_within Y s \<and> set xs \<subseteq> Y \<longrightarrow> links_within Y s')"
  using assms
proof (induction xs arbitrary: s)
  case Nil
  then show ?case
    by (simp add: pollers_def send_list_def unwind_senders.simps [of e t s] cancelled_def unwinds_quiet)
next
  case (Cons x xs)
  have x: "send_queue (tcbs s t) = x" "x \<noteq> NULL" "thread_state (tcbs s x) = TS_POLLING" "tid_to_tcb (partner (tcbs s x)) = t" "x \<noteq> idle_tcb s"
    and q: "send_list s t (x # xs)"
    using Cons.prems send_list_first [of s t x xs] by (auto simp: pollers_def)
  obtain s1 where s1: "unwind_ipc e x s = Ok s1" "cancelled {x} s s1" "same_sends (snd (thread_dequeue_send t x s)) s1"
    using unwind_target [of s x e] x(3-5) by (auto simp: left_queue_def)
  note same = same_sends_list [OF s1(3)]
  have p1: "pollers s1 t xs"
    by (rule pollers_cancelled [OF Cons.prems s1(2)]) (use dequeue_send_list(1) [OF q, of x] same in auto)
  have o1: "pollers s1 d ys" if "d \<noteq> t" "pollers s d ys" for d ys
    by (rule pollers_cancelled [OF that(2) s1(2)])
      (use dequeue_send_list(2) [OF q, of x d ys] pollers_disjoint [OF Cons.prems that(2,1)] that same in \<open>auto simp: pollers_def\<close>)
  have l1: "links_within Y s1" if "links_within Y s" "set (x # xs) \<subseteq> Y" for Y
    using dequeue_send_links(1) [OF that(1), of x t] that(2) same by simp
  obtain s' where s': "unwind_senders e t s1 = Ok s'" "cancelled (set xs) s1 s'" "send_queue (tcbs s' t) = NULL"
    "\<And>d ys. d \<noteq> t \<Longrightarrow> pollers s1 d ys \<Longrightarrow> pollers s' d ys" "\<And>Y. links_within Y s1 \<Longrightarrow> set xs \<subseteq> Y \<Longrightarrow> links_within Y s'"
    using Cons.IH [OF p1] by blast
  have "unwind_senders e t s = Ok s'" by (simp add: unwind_senders.simps [of e t s] x(1,2) s1(1) s'(1))
  moreover have "cancelled (set (x # xs)) s s'" using cancelled_trans [OF s1(2) s'(2)] by simp
  ultimately show ?case using s'(3-5) o1 l1 by auto
qed

section \<open>Deleting one thread\<close>

text \<open>A thread in no transfer, whose senders, after it has left the queue in which it may be, are \<open>xs\<close>.\<close>

definition idle_target :: "kstate \<Rightarrow> tptr \<Rightarrow> tptr list \<Rightarrow> bool" where
  "idle_target s t xs \<longleftrightarrow> t \<noteq> idle_tcb s \<and> thread_state (tcbs s t) \<in> {TS_RUNNING, TS_ABORTED, TS_WAITING, TS_POLLING} \<and>
     pollers (left_queue t s) t xs"

text \<open>What the steps of the deletion do to the send queues.\<close>

definition sends_freed :: "tptr \<Rightarrow> tptr list \<Rightarrow> kstate \<Rightarrow> kstate \<Rightarrow> bool" where
  "sends_freed t xs s s' \<longleftrightarrow> send_queue (tcbs s' t) = NULL \<and> (\<forall>d ys. d \<noteq> t \<and> pollers (left_queue t s) d ys \<longrightarrow> pollers s' d ys) \<and>
     (\<forall>Y. links_within Y (left_queue t s) \<and> set xs \<subseteq> Y \<longrightarrow> links_within Y s')"

lemma unwind_all:
  assumes "idle_target s t xs"
  shows "\<exists>s'. res_bind (unwind_ipc e t s) (\<lambda>s. unwind_senders e t s) = Ok s' \<and> cancelled (insert t (set xs)) s s' \<and> sends_freed t xs s s'"
proof -
  obtain s1 where s1: "unwind_ipc e t s = Ok s1" "cancelled {t} s s1" "same_sends (left_queue t s) s1"
    using unwind_target [of s t e] assms unfolding idle_target_def by blast
  have p: "pollers s1 d ys" if "pollers (left_queue t s) d ys" for d ys
    using that same_sends_list(1) [OF s1(3)] s1(2) unfolding pollers_def cancelled_def unwinds_def by (simp add: left_queue_same)
  obtain s' where s': "unwind_senders e t s1 = Ok s'" "cancelled (set xs) s1 s'" "send_queue (tcbs s' t) = NULL"
    "\<And>d ys. d \<noteq> t \<Longrightarrow> pollers s1 d ys \<Longrightarrow> pollers s' d ys" "\<And>Y. links_within Y s1 \<Longrightarrow> set xs \<subseteq> Y \<Longrightarrow> links_within Y s'"
    using unwind_senders_ok [of s1 t xs e] p assms unfolding idle_target_def by blast
  have "sends_freed t xs s s'" using s'(3-5) p same_sends_list(2) [OF s1(3)] unfolding sends_freed_def by auto
  then show ?thesis using s1(1) s'(1) cancelled_trans [OF s1(2) s'(2)] by auto
qed

text \<open>The threads \<open>V\<close> are gone from the ready queues and the wakeup queue, the others are as before; the threads \<open>X\<close>, which
  polled for a deleted one, and no others, left the wakeup queue too.\<close>

definition deletes :: "tptr set \<Rightarrow> tptr set \<Rightarrow> kstate \<Rightarrow> kstate \<Rightarrow> bool" where
  "deletes V X s s' \<longleftrightarrow>
     (\<forall>x. x \<notin> V \<longrightarrow> thread_state (tcbs s' x) = thread_state (tcbs s x) \<and> partner (tcbs s' x) = partner (tcbs s x) \<and>
        myself (tcbs s' x) = myself (tcbs s x) \<and> space (tcbs s' x) = space (tcbs s x) \<and> fpu_ptr (tcbs s' x) = fpu_ptr (tcbs s x) \<and>
        in_ready s' x = in_ready s x) \<and>
     (\<forall>x. in_queue TS_QUEUE_WAKEUP s' x \<longleftrightarrow> x \<notin> V \<union> X \<and> in_queue TS_QUEUE_WAKEUP s x) \<and>
     (\<forall>x\<in>V. \<not> tcb_exist x s' \<and> thread_state (tcbs s' x) = TS_ABORTED \<and> \<not> in_ready s' x) \<and>
     idle_tcb s' = idle_tcb s \<and> current s' = current s \<and>
     ((\<exists>Q. ready_inv s Q) \<longrightarrow> (\<exists>Q. ready_inv s' Q)) \<and> ((\<exists>ws. wakeup_inv s ws) \<longrightarrow> (\<exists>ws. wakeup_inv s' ws))"

lemma deletes_trans:
  assumes "deletes V X s s'" "deletes W Y s' s''" "V \<union> W \<union> X \<union> Y = V \<union> W \<union> Z"
  shows "deletes (V \<union> W) Z s s''"
proof -
  have "x \<notin> V \<union> W \<union> Z \<longleftrightarrow> x \<notin> V \<union> X \<and> x \<notin> W \<union> Y" for x unfolding assms(3) [symmetric] by blast
  then show ?thesis using assms(1,2) unfolding deletes_def tcb_exist_def by auto
qed

text \<open>Taking a thread out of the ready queues.\<close>

lemma dequeue_ready_same:
  "thread_state (tcbs (thread_dequeue_ready t s) x) = thread_state (tcbs s x)" "myself (tcbs (thread_dequeue_ready t s) x) = myself (tcbs s x)"
  "space (tcbs (thread_dequeue_ready t s) x) = space (tcbs s x)" "fpu_ptr (tcbs (thread_dequeue_ready t s) x) = fpu_ptr (tcbs s x)"
  "partner (tcbs (thread_dequeue_ready t s) x) = partner (tcbs s x)" "send_queue (tcbs (thread_dequeue_ready t s) x) = send_queue (tcbs s x)"
  "snext (thread_dequeue_ready t s) x = snext s x" "sprev (thread_dequeue_ready t s) x = sprev s x"
  "pnext (thread_dequeue_ready t s) x = pnext s x" "pprev (thread_dequeue_ready t s) x = pprev s x"
  "in_queue TS_QUEUE_PRESENT (thread_dequeue_ready t s) x = in_queue TS_QUEUE_PRESENT s x"
  "in_queue TS_QUEUE_WAKEUP (thread_dequeue_ready t s) x = in_queue TS_QUEUE_WAKEUP s x"
  "idle_tcb (thread_dequeue_ready t s) = idle_tcb s" "current (thread_dequeue_ready t s) = current s"
proof -
  show "fpu_ptr (tcbs (thread_dequeue_ready t s) x) = fpu_ptr (tcbs s x)" by (simp add: thread_dequeue_ready_def Let_def)
qed (simp_all add: but_ready_eqD [OF keeps_tcb [OF dequeue_ready_keeps]] but_ready_bits [OF keeps_tcb [OF dequeue_ready_keeps]] in_queue_simps
    keeps_idle [OF dequeue_ready_keeps] keeps_clock(2) [OF dequeue_ready_keeps])

text \<open>The state after \<^verbatim>\<open>free_thread\<close>: the thread is in no queue but the present list and its senders were cancelled.\<close>

definition freed :: "tptr \<Rightarrow> tptr list \<Rightarrow> kstate \<Rightarrow> kstate \<Rightarrow> bool" where
  "freed t xs s s' \<longleftrightarrow> sends_freed t xs s s' \<and> \<not> in_ready s' t \<and>
     (\<forall>x. (x \<noteq> t \<longrightarrow> in_ready s' x = in_ready s x) \<and> thread_state (tcbs s' x) = thread_state (tcbs s x) \<and> partner (tcbs s' x) = partner (tcbs s x) \<and>
       myself (tcbs s' x) = myself (tcbs s x) \<and> space (tcbs s' x) = space (tcbs s x) \<and> fpu_ptr (tcbs s' x) = fpu_ptr (tcbs s x) \<and>
       (in_queue TS_QUEUE_WAKEUP s' x \<longleftrightarrow> x \<notin> insert t (set xs) \<and> in_queue TS_QUEUE_WAKEUP s x)) \<and>
     idle_tcb s' = idle_tcb s \<and> current s' = current s \<and>
     ((\<exists>Q. ready_inv s Q) \<longrightarrow> (\<exists>Q. ready_inv s' Q)) \<and> ((\<exists>ws. wakeup_inv s ws) \<longrightarrow> (\<exists>ws. wakeup_inv s' ws))"

lemma purge_same:
  "tcbs (purge_resources t s) = tcbs s" "idle_tcb (purge_resources t s) = idle_tcb s" "current (purge_resources t s) = current s"
  "prio_queue (purge_resources t s) = prio_queue s" "current_max_prio (purge_resources t s) = current_max_prio s"
  by (simp_all add: purge_resources_def)

lemma purge_inv:
  "ready_inv (purge_resources t s) Q = ready_inv s Q" "wakeup_inv (purge_resources t s) ws = wakeup_inv s ws"
  "present_inv (purge_resources t s) ps = present_inv s ps" "in_queue b (purge_resources t s) x = in_queue b s x"
  by (simp_all add: ready_inv_def wakeup_inv_def present_inv_def ready_queue_def prio_of_def in_queue_def sentinel_ring_def purge_same)

lemma free_thread_ok:
  assumes t: "idle_target s t xs"
  shows "\<exists>s'. free_thread e t s = Ok s' \<and> freed t xs s s' \<and> (\<forall>ps. present_inv s ps \<longrightarrow> present_inv s' ps)"
proof -
  obtain s1 where s1: "res_bind (unwind_ipc e t s) (\<lambda>s. unwind_senders e t s) = Ok s1" "cancelled (insert t (set xs)) s s1" "sends_freed t xs s s1"
    using unwind_all [OF t, of e] by blast
  define s' where "s' = purge_resources t (thread_dequeue_ready t s1)"
  have run: "free_thread e t s = Ok s'"
    unfolding free_thread_def res_bind_assoc [symmetric] s1(1) s'_def by simp
  have u: "unwinds s s1" using s1(2) by (simp add: cancelled_def)
  note [simp] = purge_same purge_inv dequeue_ready_same dequeue_ready_bit
  have "same_sends s1 s'" by (simp add: same_sends_def s'_def)
  note sm = this same_sends_list [OF this]
  have "pollers s' d ys = pollers s1 d ys" for d ys unfolding pollers_def sm(2) by (simp add: s'_def)
  then have sf: "sends_freed t xs s s'" using s1(3) sm(1,3) unfolding sends_freed_def same_sends_def by simp
  have "freed t xs s s'"
    unfolding freed_def
  proof (intro conjI ballI allI impI sf)
    show "\<exists>Q. ready_inv s' Q" if "\<exists>Q. ready_inv s Q"
      using that unwindsD(14) [OF u] dequeue_ready_inv [of s1 _ t] by (auto simp: s'_def)
    show "\<exists>ws. wakeup_inv s' ws" if "\<exists>ws. wakeup_inv s ws"
      using that unwindsD(15) [OF u] wakeup_inv_ready_ops(2) [of s1 _ t] by (auto simp: s'_def)
  qed (use s1(2) unwindsD(8-12) [OF u] in \<open>auto simp: s'_def cancelled_def\<close>)
  moreover have "present_inv s' ps" if "present_inv s ps" for ps
    using present_inv_cong [OF unwinds_present [OF u that], of s'] by (simp add: s'_def)
  ultimately show ?thesis using run by blast
qed

text \<open>Taking a thread out of the present list.\<close>

lemma but_present_eqD:
  assumes "but_present c = but_present d"
  shows "thread_state c = thread_state d" "myself c = myself d" "space c = space d" "fpu_ptr c = fpu_ptr d" "priority c = priority d"
    "ready_next c = ready_next d" "ready_prev c = ready_prev d" "wakeup_next c = wakeup_next d" "wakeup_prev c = wakeup_prev d"
    "send_next c = send_next d" "send_prev c = send_prev d" "send_queue c = send_queue d" "partner c = partner d"
    "unwind_ipc_sp c = unwind_ipc_sp d" "pager c = pager d"
  using assms by (cases c; cases d; simp add: but_present_def)+

lemma but_present_bits:
  assumes "but_present c = but_present d" "n \<noteq> 1"
  shows "bit (queue_state c) n = bit (queue_state d) n"
proof -
  have "queue_state c AND NOT TS_QUEUE_PRESENT = queue_state d AND NOT TS_QUEUE_PRESENT"
    using assms(1) by (cases c; cases d; simp add: but_present_def)
  from arg_cong [OF this, of "\<lambda>w. bit w n"] assms(2) show ?thesis
    by (cases "n < 32") (auto simp: bit_and_iff bit_not_iff queue_bits dest: bit_imp_le_length)
qed

lemmas dequeue_present_same =
  but_present_eqD [OF keeps_tcb [OF dequeue_present_keeps]] but_present_bits [OF keeps_tcb [OF dequeue_present_keeps]]
  keeps_idle [OF dequeue_present_keeps] keeps_clock(2) [OF dequeue_present_keeps]

lemma dequeue_present_sel:
  "prio_queue (thread_dequeue_present t s) = prio_queue s" "current_max_prio (thread_dequeue_present t s) = current_max_prio s"
  by (simp_all add: thread_dequeue_present_def Let_def)

lemma dequeue_present_inv: "present_inv s ps \<Longrightarrow> t \<noteq> idle_tcb s \<Longrightarrow> present_inv (thread_dequeue_present t s) (remove1 t ps)"
  unfolding present_inv_def by (rule present_queue.dequeue_list)

definition dead_tcb :: "tcb_t \<Rightarrow> tcb_t" where
  "dead_tcb = (\<lambda>c. c\<lparr>myself := L4_NIL_ID, thread_state := TS_ABORTED\<rparr>)"

lemma free_tcb_ok:
  assumes f: "freed t xs s s1" and fpu: "fpu_ptr (tcbs s t) = NULL" and t: "t \<noteq> idle_tcb s"
  shows "\<exists>s'. free_tcb t s1 = Some s' \<and> deletes {t} (set xs) s s' \<and> send_queue (tcbs s' t) = NULL \<and>
    (\<forall>d ys. t \<notin> set ys \<and> pollers s1 d ys \<longrightarrow> pollers s' d ys) \<and> (\<forall>Y. links_within Y s1 \<longrightarrow> links_within Y s') \<and>
    (\<forall>ps. present_inv s1 ps \<longrightarrow> present_inv s' (remove1 t ps))"
proof -
  define s2 where "s2 = upd_tcb t dead_tcb (thread_dequeue_present t s1)"
  define s' where "s' = purge_resources t s2"
  have r: "free_tcb t s1 = Some s'"
    using f fpu by (simp add: free_tcb_def Let_def free_resources_def dequeue_present_same freed_def s'_def s2_def dead_tcb_def
        purge_resources_def [symmetric])
  have q: "in_queue b s2 x = in_queue b (thread_dequeue_present t s1) x" for b x by (simp add: s2_def in_queue_def dead_tcb_def)
  have b: "in_ready s2 x = in_ready s1 x" "in_queue TS_QUEUE_WAKEUP s2 x = in_queue TS_QUEUE_WAKEUP s1 x" for x
    unfolding q by (simp_all add: in_queue_simps dequeue_present_same)
  have e: "rnext s2 x = rnext s1 x" "rprev s2 x = rprev s1 x" "wnext s2 x = wnext s1 x" "wprev s2 x = wprev s1 x"
    "priority (tcbs s2 x) = priority (tcbs s1 x)" "snext s2 x = snext s1 x" "sprev s2 x = sprev s1 x"
    "send_queue (tcbs s2 x) = send_queue (tcbs s1 x)" "partner (tcbs s2 x) = partner (tcbs s1 x)"
    "space (tcbs s2 x) = space (tcbs s1 x)" "fpu_ptr (tcbs s2 x) = fpu_ptr (tcbs s1 x)"
    "idle_tcb s2 = idle_tcb s1" "current s2 = current s1" "prio_queue s2 = prio_queue s1" "current_max_prio s2 = current_max_prio s1" for x
    by (simp_all add: s2_def dead_tcb_def dequeue_present_same dequeue_present_sel)
  have st: "thread_state (tcbs s2 x) = (if x = t then TS_ABORTED else thread_state (tcbs s1 x))"
    "myself (tcbs s2 x) = (if x = t then L4_NIL_ID else myself (tcbs s1 x))" for x
    by (simp_all add: s2_def dead_tcb_def dequeue_present_same)
  note fr = f [unfolded freed_def]
  have sm: "same_sends s1 s'" by (simp add: same_sends_def s'_def purge_same e)
  have "deletes {t} (set xs) s s'"
    unfolding deletes_def s'_def purge_same purge_inv
  proof (intro conjI ballI allI impI)
    show "\<exists>Q. ready_inv s2 Q" if "\<exists>Q. ready_inv s Q"
      using that fr ready_inv_cong [of s1 _ s2] by (auto simp: e b)
    show "\<exists>ws. wakeup_inv s2 ws" if "\<exists>ws. wakeup_inv s ws"
      using that fr wakeup_inv_cong [of s1 _ s2] by (auto simp: e b)
  qed (use fr in \<open>auto simp: e b st tcb_exist_def purge_same L4_NIL_ID_def\<close>)
  moreover have "send_queue (tcbs s' t) = NULL" using fr sm by (simp add: sends_freed_def same_sends_def)
  moreover have "pollers s' d ys" if "t \<notin> set ys" "pollers s1 d ys" for d ys
    using that same_sends_list(1) [OF sm] unfolding pollers_def s'_def purge_same by (auto simp: e st)
  moreover have "links_within Y s'" if "links_within Y s1" for Y using that same_sends_list(2) [OF sm] by simp
  moreover have "present_inv s' (remove1 t ps)" if "present_inv s1 ps" for ps
    unfolding s'_def purge_inv
    by (rule present_inv_cong [OF dequeue_present_inv [OF that, of t]])
      (use t fr in simp, simp_all add: s2_def dead_tcb_def, simp_all add: in_queue_def)
  ultimately show ?thesis using r by blast
qed

section \<open>Deleting all threads of a space\<close>

text \<open>\<open>S\<close> gives the send queue of every thread. \<open>Z\<close> are the threads that polled for a thread that has been deleted: they still are in
  the state of a polling thread but in no queue, and their links lead to each other.\<close>

definition send_queues :: "(tptr \<Rightarrow> tptr list) \<Rightarrow> tptr set \<Rightarrow> kstate \<Rightarrow> bool" where
  "send_queues S Z s \<longleftrightarrow> (\<forall>d. pollers s d (S d) \<and> set (S d) \<inter> Z = {}) \<and> links_within Z s"

text \<open>A thread that can be deleted: it is in no transfer, has no area for the registers of the floating point unit, and if it polls, it
  is in the send queue of its partner, or was in the queue of a deleted thread.\<close>

definition deletable :: "(tptr \<Rightarrow> tptr list) \<Rightarrow> tptr set \<Rightarrow> kstate \<Rightarrow> tptr \<Rightarrow> bool" where
  "deletable S Z s t \<longleftrightarrow> t \<noteq> idle_tcb s \<and> fpu_ptr (tcbs s t) = NULL \<and>
     thread_state (tcbs s t) \<in> {TS_RUNNING, TS_ABORTED, TS_WAITING, TS_POLLING} \<and>
     (thread_state (tcbs s t) = TS_POLLING \<longrightarrow>
        t \<in> set (S (tid_to_tcb (partner (tcbs s t)))) \<or> t \<in> Z \<and> t \<noteq> NULL \<and> S (tid_to_tcb (partner (tcbs s t))) = [])"

lemma send_queuesD:
  assumes "send_queues S Z s"
  shows "send_list s d (S d)" "x \<in> set (S d) \<Longrightarrow> thread_state (tcbs s x) = TS_POLLING \<and> tid_to_tcb (partner (tcbs s x)) = d \<and> x \<noteq> idle_tcb s"
    "x \<in> set (S d) \<Longrightarrow> x \<notin> Z" "links_within Z s"
  using assms unfolding send_queues_def pollers_def by blast+

lemma left_queue_lists:
  assumes q: "send_queues S Z s" and d: "deletable S Z s t"
  shows "send_list (left_queue t s) d (filter (\<lambda>x. x \<noteq> t) (S d)) \<and> links_within (Z \<union> set (S t)) (left_queue t s)"
proof -
  note Q = send_queuesD [OF q]
  let ?p = "tid_to_tcb (partner (tcbs s t))"
  have once: "filter (\<lambda>x. x \<noteq> t) (S d) = S d" if "t \<notin> set (S d)" for d using that by (intro filter_True) auto
  have Y: "links_within (Z \<union> set (S d)) s" for d using Q(4) send_list_links(1) [OF Q(1), of d] by (auto simp: links_within_def)
  consider (no) "thread_state (tcbs s t) \<noteq> TS_POLLING" | (queued) "thread_state (tcbs s t) = TS_POLLING" "t \<in> set (S ?p)"
    | (stale) "thread_state (tcbs s t) = TS_POLLING" "t \<in> Z" "t \<noteq> NULL" "S ?p = []"
    using d unfolding deletable_def by blast
  then show ?thesis
  proof cases
    case no
    then have "t \<notin> set (S d)" using Q(2) [of t d] by auto
    then show ?thesis using Q(1) [of d] once Y no by (simp add: left_queue_def)
  next
    case queued
    have l: "left_queue t s = snd (thread_dequeue_send ?p t s)" using queued(1) by (simp add: left_queue_def)
    have r: "remove1 t (S ?p) = filter (\<lambda>x. x \<noteq> t) (S ?p)"
      using distinct_remove1_removeAll [OF send_list_links(2) [OF Q(1)]] by (simp add: removeAll_filter_not_eq eq_commute)
    have dis: "set (S d) \<inter> set (S ?p) = {}" if "d \<noteq> ?p" for d using that Q(2) by blast
    have "send_list (left_queue t s) d (filter (\<lambda>x. x \<noteq> t) (S d))"
    proof (cases "d = ?p")
      case True
      then show ?thesis unfolding l using dequeue_send_list(1) [OF Q(1) queued(2)] r by simp
    next
      case False
      then have "t \<notin> set (S d)" using Q(2) [of t d] by auto
      then show ?thesis unfolding l using dequeue_send_list(2) [OF Q(1) queued(2) False Q(1) dis [OF False]] once by simp
    qed
    moreover have "links_within (Z \<union> set (S t)) (left_queue t s)"
    proof (cases "t \<in> set (S t)")
      case True
      then show ?thesis unfolding l using dequeue_send_links(1) [OF Y] by simp
    next
      case False
      then have "t \<noteq> ?p" using queued(2) by metis
      then have "y \<notin> set (S ?p)" if "y \<in> Z \<union> set (S t)" for y using that dis [of t] Q(3) [of y ?p] by blast
      then show ?thesis unfolding l using dequeue_send_links(2) [OF send_list_links(1) [OF Q(1)] queued(2)] Y [of t] by (simp add: links_within_def)
    qed
    ultimately show ?thesis by blast
  next
    case stale
    have l: "left_queue t s = snd (thread_dequeue_send ?p t s)" using stale(1) by (simp add: left_queue_def)
    have e: "send_queue (tcbs (left_queue t s) x) = send_queue (tcbs s x)" for x
      unfolding l using Q(1) [of ?p] stale(3,4) by (auto simp: send_list_def thread_dequeue_send_def Let_def)
    have "send_list (left_queue t s) d (S d) = send_list s d (S d)"
      by (rule send_list_cong [OF e]) (unfold l, use dequeue_send_links(2) [OF Q(4) stale(2)] Q(3) in blast)
    moreover have "t \<notin> set (S d)" using Q(3) stale(2) by blast
    ultimately show ?thesis using Q(1) [of d] once dequeue_send_links(1) [OF Y, of t] stale(2) unfolding l by simp
  qed
qed

lemma left_queue_pollers:
  assumes "send_queues S Z s" and "deletable S Z s t"
  shows "pollers (left_queue t s) d (filter (\<lambda>x. x \<noteq> t) (S d))"
  using left_queue_lists [OF assms] send_queuesD(2) [OF assms(1)] by (auto simp: pollers_def left_queue_same)

text \<open>The send queues without a thread.\<close>

definition drop_thread :: "tptr \<Rightarrow> (tptr \<Rightarrow> tptr list) \<Rightarrow> tptr \<Rightarrow> tptr list" where
  "drop_thread t S d = (if d = t then [] else filter (\<lambda>x. x \<noteq> t) (S d))"

lemma deletable_drop:
  assumes q: "send_queues S Z s" and x: "x \<noteq> t" "deletable S Z s x" and d: "deletes {t} X s s'"
  shows "deletable (drop_thread t S) (Z \<union> set (S t)) s' x"
proof -
  have same: "thread_state (tcbs s' x) = thread_state (tcbs s x)" "partner (tcbs s' x) = partner (tcbs s x)"
    "fpu_ptr (tcbs s' x) = fpu_ptr (tcbs s x)" "idle_tcb s' = idle_tcb s"
    using d x(1) by (simp_all add: deletes_def)
  have "x \<noteq> NULL" if "x \<in> set (S t)" using that send_queuesD(1) [OF q, of t] by (auto simp: send_list_def split: if_splits)
  then show ?thesis using x unfolding deletable_def same drop_thread_def by auto
qed

lemma delete_one:
  assumes q: "send_queues S Z s" and d: "deletable S Z s t"
  shows "\<exists>s'. res_bind (free_thread e t s) (\<lambda>s. map_option Inr (free_tcb t s)) = Ok s' \<and> deletes {t} (set (S t)) s s' \<and>
    send_queues (drop_thread t S) (Z \<union> set (S t)) s' \<and>
    (\<forall>x. x \<noteq> t \<and> deletable S Z s x \<longrightarrow> deletable (drop_thread t S) (Z \<union> set (S t)) s' x) \<and>
    (\<forall>ps. present_inv s ps \<longrightarrow> present_inv s' (remove1 t ps))"
proof -
  let ?xs = "filter (\<lambda>x. x \<noteq> t) (S t)"
  note p = left_queue_pollers [OF q d]
  have i: "t \<noteq> idle_tcb s" "fpu_ptr (tcbs s t) = NULL" using d by (simp_all add: deletable_def)
  have "idle_target s t ?xs" using d p by (simp add: idle_target_def deletable_def)
  then obtain s1 where s1: "free_thread e t s = Ok s1" "freed t ?xs s s1" "\<And>ps. present_inv s ps \<Longrightarrow> present_inv s1 ps"
    using free_thread_ok [of s t ?xs e] by blast
  obtain s' where s': "free_tcb t s1 = Some s'" "deletes {t} (set ?xs) s s'" "send_queue (tcbs s' t) = NULL"
    "\<And>d ys. t \<notin> set ys \<Longrightarrow> pollers s1 d ys \<Longrightarrow> pollers s' d ys" "\<And>Y. links_within Y s1 \<Longrightarrow> links_within Y s'"
    "\<And>ps. present_inv s1 ps \<Longrightarrow> present_inv s' (remove1 t ps)"
    using free_tcb_ok [OF s1(2) i(2,1)] by blast
  have del: "deletes {t} (set (S t)) s s'"
  proof -
    have "{t} \<union> set ?xs = {t} \<union> set (S t)" by auto
    then show ?thesis using s'(2) by (simp add: deletes_def)
  qed
  have "pollers s' d (drop_thread t S d)" for d
  proof (cases "d = t")
    case True
    then show ?thesis using s'(3) by (simp add: drop_thread_def pollers_def send_list_def)
  next
    case False
    then have "pollers s1 d (filter (\<lambda>x. x \<noteq> t) (S d))" using s1(2) p [of d] by (simp add: freed_def sends_freed_def)
    then show ?thesis using s'(4) False by (simp add: drop_thread_def)
  qed
  moreover have "set (drop_thread t S d) \<inter> (Z \<union> set (S t)) = {}" for d
  proof -
    have "x \<notin> Z \<union> set (S t)" if "d \<noteq> t" "x \<in> set (S d)" for x
      using that send_queuesD(2) [OF q that(2)] send_queuesD(2) [OF q, of x t] send_queuesD(3) [OF q that(2)] by blast
    then show ?thesis by (auto simp: drop_thread_def)
  qed
  moreover have "links_within (Z \<union> set (S t)) s'"
  proof -
    have "sends_freed t ?xs s s1" "set ?xs \<subseteq> Z \<union> set (S t)" using s1(2) by (auto simp: freed_def)
    then show ?thesis using s'(5) left_queue_lists [OF q d] unfolding sends_freed_def by blast
  qed
  ultimately have "send_queues (drop_thread t S) (Z \<union> set (S t)) s'" by (simp add: send_queues_def)
  then show ?thesis using s1(1,3) s'(1,6) del deletable_drop [OF q _ _ del] by auto
qed

lemma delete_loop_ok:
  assumes "present_inv s (ys @ zs)" "send_queues S Z s" "\<forall>x\<in>set zs. space (tcbs s x) = sp \<longrightarrow> deletable S Z s x"
  shows "\<exists>s' Z'. delete_loop e sp (if zs = [] then idle_tcb s else hd zs) s = Ok s' \<and>
    deletes {x \<in> set zs. space (tcbs s x) = sp} (\<Union>t\<in>{x \<in> set zs. space (tcbs s x) = sp}. set (S t)) s s' \<and>
    present_inv s' (ys @ filter (\<lambda>x. space (tcbs s x) \<noteq> sp) zs) \<and>
    send_queues (\<lambda>d. if d \<in> {x \<in> set zs. space (tcbs s x) = sp} then [] else filter (\<lambda>x. x \<notin> {x \<in> set zs. space (tcbs s x) = sp}) (S d)) Z' s'"
  using assms
proof (induction zs arbitrary: s ys S Z)
  case Nil
  have "deletes {} {} s s" by (auto simp: deletes_def)
  then show ?case using Nil by (auto simp: delete_loop.simps [of e sp "idle_tcb s"] get_idle_tcb_def)
next
  case (Cons t zs)
  let ?V = "{x \<in> set zs. space (tcbs s x) = sp}"
  have d: "distinct (idle_tcb s # ys @ t # zs)"
    using Cons.prems(1) ring_distinct unfolding present_inv_def sentinel_ring_def by blast
  have nx: "pnext s t = (if zs = [] then idle_tcb s else hd zs)"
    using Cons.prems(1) present_queue.after unfolding present_inv_def by blast
  have ti: "t \<noteq> idle_tcb s" using d by auto
  note unfold = delete_loop.simps [of e sp t s] get_idle_tcb_def Let_def nx
  show ?case
  proof (cases "space (tcbs s t) = sp")
    case False
    have "present_inv s ((ys @ [t]) @ zs)" using Cons.prems(1) by simp
    moreover have "{x \<in> set (t # zs). space (tcbs s x) = sp} = ?V" using False by auto
    moreover have "delete_loop e sp t s = delete_loop e sp (if zs = [] then idle_tcb s else hd zs) s"
      using False ti by (simp add: unfold)
    ultimately show ?thesis using Cons.IH [of s "ys @ [t]" S Z] Cons.prems(2,3) False by (simp only: list.sel(1)) auto
  next
    case True
    then obtain s1 where s1: "res_bind (free_thread e t s) (\<lambda>s. map_option Inr (free_tcb t s)) = Ok s1" "deletes {t} (set (S t)) s s1"
      "send_queues (drop_thread t S) (Z \<union> set (S t)) s1"
      "\<And>x. x \<noteq> t \<Longrightarrow> deletable S Z s x \<Longrightarrow> deletable (drop_thread t S) (Z \<union> set (S t)) s1 x"
      "present_inv s1 (remove1 t (ys @ t # zs))"
      using delete_one [OF Cons.prems(2), of t e] Cons.prems(1,3) by force
    have sp: "space (tcbs s1 x) = space (tcbs s x)" if "x \<in> set zs" for x using that d s1(2) by (auto simp: deletes_def)
    have i: "idle_tcb s1 = idle_tcb s" using s1(2) by (simp add: deletes_def)
    have p1: "present_inv s1 (ys @ zs)" using s1(5) d by (simp add: remove1_append)
    have d1: "\<forall>x\<in>set zs. space (tcbs s1 x) = sp \<longrightarrow> deletable (drop_thread t S) (Z \<union> set (S t)) s1 x"
    proof (intro ballI impI s1(4))
      fix x assume x: "x \<in> set zs" "space (tcbs s1 x) = sp"
      show "x \<noteq> t" using x(1) d by auto
      show "deletable S Z s x" using x sp [OF x(1)] Cons.prems(3) by simp
    qed
    have eq: "{x \<in> set zs. space (tcbs s1 x) = sp} = ?V" "filter (\<lambda>x. space (tcbs s1 x) \<noteq> sp) zs = filter (\<lambda>x. space (tcbs s x) \<noteq> sp) zs"
      using sp by (auto intro: filter_cong)
    obtain s' Z' where s': "delete_loop e sp (if zs = [] then idle_tcb s else hd zs) s1 = Ok s'"
      "deletes ?V (\<Union>u\<in>?V. set (drop_thread t S u)) s1 s'" "present_inv s' (ys @ filter (\<lambda>x. space (tcbs s x) \<noteq> sp) zs)"
      "send_queues (\<lambda>d. if d \<in> ?V then [] else filter (\<lambda>x. x \<notin> ?V) (drop_thread t S d)) Z' s'"
      using Cons.IH [OF p1 s1(3) d1] unfolding eq i by blast
    have run: "delete_loop e sp t s = Ok s'"
      using s'(1) ti True unfolding unfold res_bind_assoc [symmetric] s1(1) by simp
    have V: "{x \<in> set (t # zs). space (tcbs s x) = sp} = {t} \<union> ?V" using True by auto
    have "deletes ({t} \<union> ?V) (\<Union>u\<in>{t} \<union> ?V. set (S u)) s s'"
      by (rule deletes_trans [OF s1(2) s'(2)]) (auto simp: drop_thread_def split: if_splits)
    moreover have "(\<lambda>d. if d \<in> ?V then [] else filter (\<lambda>x. x \<notin> ?V) (drop_thread t S d)) =
        (\<lambda>d. if d \<in> {t} \<union> ?V then [] else filter (\<lambda>x. x \<notin> {t} \<union> ?V) (S d))"
      by (auto simp: drop_thread_def fun_eq_iff intro: filter_cong)
    ultimately show ?thesis unfolding V using run s'(3,4) True by auto
  qed
qed

lemma wakeup_member: "wakeup_inv s ws \<Longrightarrow> x \<in> set ws \<longleftrightarrow> x \<noteq> idle_tcb s \<and> in_queue TS_QUEUE_WAKEUP s x"
  unfolding wakeup_inv_def by (metis sentinel_member(1,2))

section \<open>Properties\<close>

text \<open>A running thread of one space that a thread of another space polls for.\<close>

definition demo_present :: kstate where
  "demo_present = thread_enqueue_present 0xE0030000 (thread_enqueue_present 0xE0020000 (boot_state 0xF0110000))"

definition demo_threads :: kstate where
  "demo_threads =
     upd_tcb 0xE0030000 (\<lambda>c. c\<lparr>myself := 0x30000, space := 0x2000, partner := 0x20000, thread_state := TS_POLLING\<rparr>)
       (upd_tcb 0xE0020000 (\<lambda>c. c\<lparr>myself := 0x20000, space := 0x1000, thread_state := TS_RUNNING\<rparr>) demo_present)"

definition demo_poll :: kstate where
  "demo_poll = thread_enqueue_send 0xE0020000 0xE0030000 demo_threads"

lemmas enqueue_same =
  but_send_eqD [OF keeps_tcb [OF enqueue_send_keeps]] keeps_idle [OF enqueue_send_keeps] keeps_clock(2) [OF enqueue_send_keeps]
  but_present_eqD [OF keeps_tcb [OF enqueue_present_keeps]] but_present_bits [OF keeps_tcb [OF enqueue_present_keeps]]
  keeps_idle [OF enqueue_present_keeps] keeps_clock(2) [OF enqueue_present_keeps]

lemma enqueue_sel:
  "prio_queue (thread_enqueue_present t s) = prio_queue s" "current_max_prio (thread_enqueue_present t s) = current_max_prio s"
  "prio_queue (thread_enqueue_send t u s) = prio_queue s" "current_max_prio (thread_enqueue_send t u s) = current_max_prio s"
  by (simp_all add: thread_enqueue_present_def thread_enqueue_send_def Let_def)

lemma demo_poll_facts:
  "thread_state (tcbs demo_poll 0xE0020000) = TS_RUNNING" "thread_state (tcbs demo_poll 0xE0030000) = TS_POLLING"
  "partner (tcbs demo_poll 0xE0030000) = 0x20000" "space (tcbs demo_poll 0xE0020000) = 0x1000"
  "space (tcbs demo_poll 0xE0030000) = 0x2000" "fpu_ptr (tcbs demo_poll 0xE0020000) = NULL"
  "myself (tcbs demo_poll 0xE0030000) = 0x30000" "current demo_poll = 0xF0110000" "idle_tcb demo_poll = 0xF0110000"
  by (simp_all add: demo_poll_def demo_threads_def demo_present_def enqueue_same boot_state_def zero_tcb_def)

lemma demo_poll_send: "send_list demo_poll 0xE0020000 [0xE0030000]"
proof -
  have "send_queue (tcbs demo_threads 0xE0020000) = NULL"
    by (simp add: demo_threads_def demo_present_def enqueue_same boot_state_def zero_tcb_def)
  then show ?thesis using enqueue_send_list(1) [of demo_threads "0xE0020000" "[]" "0xE0030000"]
    by (simp add: demo_poll_def send_list_def)
qed

lemma demo_poll_queues:
  "ready_inv demo_poll (\<lambda>_. [])" "wakeup_inv demo_poll []" "present_inv demo_poll [0xE0030000, 0xE0020000]"
proof -
  have "ready_inv demo_present (\<lambda>_. [])" unfolding demo_present_def
    by (rule ready_inv_cong [OF boot_ready_inv [of "0xF0110000"]]) (simp_all add: enqueue_same enqueue_sel in_queue_simps)
  then have "ready_inv demo_threads (\<lambda>_. [])" unfolding demo_threads_def by (intro ready_inv_upd) simp_all
  then show "ready_inv demo_poll (\<lambda>_. [])" unfolding demo_poll_def
    by (rule ready_inv_cong) (simp_all add: enqueue_same enqueue_sel in_queue_def)
  have "wakeup_inv demo_present []" unfolding demo_present_def
    by (rule wakeup_inv_cong [OF boot_sentinels(1) [of "0xF0110000"]]) (simp_all add: enqueue_same in_queue_simps)
  then have "wakeup_inv demo_threads []" unfolding demo_threads_def by (intro wakeup_inv_upd) simp_all
  then show "wakeup_inv demo_poll []" unfolding demo_poll_def
    by (rule wakeup_inv_cong) (simp_all add: enqueue_same in_queue_def)
  have e: "present_inv (thread_enqueue_present t s) (if t \<in> set ps then ps else t # ps)" if "present_inv s ps" "t \<noteq> idle_tcb s" for t s ps
    using that unfolding present_inv_def by (rule present_queue.enqueue_list)
  have "present_inv demo_present [0xE0030000, 0xE0020000]"
  proof -
    have "present_inv (thread_enqueue_present 0xE0020000 (boot_state 0xF0110000)) [0xE0020000]"
      using e [OF boot_sentinels(2), of "0xE0020000" "0xF0110000"] by (simp add: boot_facts)
    from e [OF this, of "0xE0030000"] show ?thesis by (simp add: demo_present_def enqueue_same boot_facts)
  qed
  then have "present_inv demo_threads [0xE0030000, 0xE0020000]"
    by (rule present_inv_cong) (simp_all add: demo_threads_def in_queue_def)
  then show "present_inv demo_poll [0xE0030000, 0xE0020000]" unfolding demo_poll_def
    by (rule present_inv_cong) (simp_all add: enqueue_same in_queue_def)
qed

lemma demo_tids: "tid_to_tcb 0x20000 = 0xE0020000" "tid_to_tcb 0x30000 = 0xE0030000"
  by (simp_all add: tid_to_tcb_def id_thread_def L4_NUMBITS_TCBS_def TCB_AREA_def mask_eq_exp_minus_1)

text \<open>\<^bold>\<open>C31.\<close> Deleting a thread empties its send queue and ends, but its senders are left behind: each of them still is in the
  state of a polling thread, is in no wakeup queue, and was not made ready, so that neither a timeout nor the scheduler
  resumes it.\<close>

theorem free_thread_abandons_senders:
  assumes "thread_state (tcbs s t) \<in> {TS_RUNNING, TS_ABORTED, TS_WAITING}" and "send_list s t xs" and "idle_tcb s \<notin> insert t (set xs)"
    and "\<forall>x\<in>set xs. thread_state (tcbs s x) = TS_POLLING \<and> tid_to_tcb (partner (tcbs s x)) = t"
  shows "\<exists>s'. free_thread e t s = Ok s' \<and> send_queue (tcbs s' t) = NULL \<and> \<not> in_ready s' t \<and>
    (\<forall>x\<in>set xs. thread_state (tcbs s' x) = TS_POLLING \<and> \<not> in_queue TS_QUEUE_WAKEUP s' x \<and> in_ready s' x = in_ready s x)"
proof -
  have "left_queue t s = s" using assms(1) by (auto simp: left_queue_def)
  then have t: "idle_target s t xs" using assms by (auto simp: idle_target_def pollers_def)
  have "t \<notin> set xs" using assms(1,4) by auto
  with free_thread_ok [OF t, of e] assms(4) show ?thesis unfolding freed_def sends_freed_def by (metis insert_iff)
qed

theorem free_thread_abandons_senders_witness:
  "\<exists>s'. free_thread demo_env 0xE0020000 demo_poll = Ok s' \<and> thread_state (tcbs s' 0xE0030000) = TS_POLLING \<and>
     \<not> in_queue TS_QUEUE_WAKEUP s' 0xE0030000 \<and> in_ready s' 0xE0030000 = in_ready demo_poll 0xE0030000"
  using free_thread_abandons_senders [of demo_poll "0xE0020000" "[0xE0030000]" demo_env]
  by (auto simp: demo_poll_facts demo_poll_send demo_tids)



end
