(* ===== verification/Ex_Regs.thy ===== *)
theory Ex_Regs
  imports Delete_Threads
begin

text \<open>
  What the system call \<^verbatim>\<open>lthread_ex_regs\<close> does to a thread that does not exist yet and to a thread that waits in an IPC.
\<close>

section \<open>User registers on the kernel stack\<close>

lemma user_frame_reads:
  fixes t usp uip entry param :: dword_t and s :: kstate
  defines "s' \<equiv> create_user_stack_frame t usp uip entry param s"
  shows "get_user_sp t s' = usp" "get_user_ip t s' = uip" "get_user_flags t s' = X86_USER_FLAGS"
    "stack (tcbs s' t) = get_tcb_stack_top t - 28" "mem s' (get_tcb_stack_top t - 28) = entry"
    "mem s' (get_tcb_stack_top t - 24) = param"
  by (simp_all add: s'_def create_user_stack_frame_def Let_def push_sel get_user_sp_def get_user_ip_def get_user_flags_def idx_def)

lemma keeps_mem: "keeps f s s' \<Longrightarrow> mem s' = mem s"
  by (auto simp: keeps_def but_sched_def dest: arg_cong [of _ _ mem])

lemma user_reads_mem:
  "mem s' = mem s \<Longrightarrow> get_user_sp t s' = get_user_sp t s" "mem s' = mem s \<Longrightarrow> get_user_ip t s' = get_user_ip t s"
  "mem s' = mem s \<Longrightarrow> get_user_flags t s' = get_user_flags t s"
  by (simp_all add: get_user_sp_def get_user_ip_def get_user_flags_def)

lemma mem_same [simp]:
  "mem (thread_dequeue_wakeup t s) = mem s" "mem (thread_enqueue_ready t s) = mem s" "mem (snd (thread_dequeue_send d t s)) = mem s"
  "mem (set_thread_state x t s) = mem s" "mem (thread_enqueue_present t s) = mem s"
  by (rule keeps_mem [OF dequeue_wakeup_keeps] keeps_mem [OF enqueue_ready_keeps] keeps_mem [OF dequeue_send_keeps]
      keeps_mem [OF enqueue_present_keeps])+ (simp_all add: set_thread_state_def keeps_mem [OF enqueue_present_keeps])

lemma set_user_reads:
  "get_user_sp t (set_mem (idx (get_tcb_stack_top t) (-2)) v s) = v"
  "get_user_ip t (set_mem (idx (get_tcb_stack_top t) (-2)) v s) = get_user_ip t s"
  "get_user_flags t (set_mem (idx (get_tcb_stack_top t) (-2)) v s) = get_user_flags t s"
  "get_user_ip t (set_mem (idx (get_tcb_stack_top t) (-5)) v s) = v"
  "get_user_sp t (set_mem (idx (get_tcb_stack_top t) (-5)) v s) = get_user_sp t s"
  "get_user_flags t (set_mem (idx (get_tcb_stack_top t) (-5)) v s) = get_user_flags t s"
  by (simp_all add: get_user_sp_def get_user_ip_def get_user_flags_def set_mem_def idx_def)

section \<open>The test for a fast system call\<close>

lemma tcb_top: "36 \<le> get_tcb_stack_top (tid_to_tcb tid)"
proof -
  let ?t = "tid_to_tcb tid"
  have "?t = (?t AND NOT (mask 28)) OR (?t AND mask 28)" by (rule bit_word_eqI) (auto simp: bit_simps)
  also have "\<dots> = (?t AND NOT (mask 28)) + (?t AND mask 28)"
    by (rule disjunctive_add_eq_or [symmetric]) (rule bit_word_eqI, simp add: bit_simps)
  finally have t: "?t = 0xE0000000 + (?t AND mask 28)" by (simp add: tid_to_tcb_area TCB_AREA_def)
  have m: "unat (?t AND mask 28) < 2 ^ 28" unfolding unat_and_mask by simp
  have "unat ?t = 0xE0000000 + unat (?t AND mask 28)"
    by (subst t, subst unat_plus_simple [THEN iffD1]) (use m in \<open>simp_all add: word_le_nat_alt no_olen_add_nat unat_word_ariths\<close>)
  then have "unat (?t + 1020) = unat ?t + 1020" using m by (simp add: unat_word_ariths)
  then have "36 \<le> ?t + 1020" unfolding word_le_nat_alt by simp
  moreover have "get_tcb_stack_top ?t = ?t + 1020"
    by (simp add: get_tcb_stack_top_def L4_TOTAL_TCB_SIZE_def L4_NUMBITS_TCBS_def)
  ultimately show ?thesis by simp
qed

lemma sysenter_after_frame:
  assumes "t = tid_to_tcb tid" "stack (tcbs s t) = get_tcb_stack_top t - 28"
  shows "\<not> is_ipc_sysenter r t s"
proof -
  let ?p = "get_tcb_stack_top t"
  have "unat (?p - 36) = unat ?p - 36" "unat (?p - 28) = unat ?p - 28" "36 \<le> unat ?p"
    using tcb_top [of tid] by (simp_all add: assms(1) word_le_nat_alt unat_sub)
  then have "\<not> ?p - 28 < ?p - 36" by (simp add: word_less_nat_alt)
  then show ?thesis by (simp add: is_ipc_sysenter_def Let_def assms(2) idx_def IPCSTK_RETADDR_def)
qed

section \<open>A waiting thread\<close>

text \<open>Unwinding a blocked thread without a saved stack: it will leave the kernel through the code that aborts the IPC.\<close>

lemma unwind_blocked:
  assumes t: "t = tid_to_tcb tid" and st: "thread_state (tcbs s t) \<in> {TS_WAITING, TS_POLLING}" and sp: "unwind_ipc_sp (tcbs s t) = 0"
  defines "r \<equiv> IPC_ERR_CANCELED OR (if thread_state (tcbs s t) = TS_WAITING then IPC_ERR_RECV else IPC_ERR_SEND)"
  shows "\<exists>s'. unwind_ipc e t s = Ok s' \<and> get_user_sp t s' = get_user_sp t s \<and> get_user_ip t s' = get_user_ip t s \<and>
    get_user_flags t s' = X86_USER_FLAGS \<and> stack (tcbs s' t) = get_tcb_stack_top t - 28 \<and>
    mem s' (get_tcb_stack_top t - 28) = abort_ipc e \<and> mem s' (get_tcb_stack_top t - 24) = r \<and> pager (tcbs s' t) = pager (tcbs s t)"
proof -
  define s0 where "s0 = thread_dequeue_wakeup t s"
  define s1 where "s1 = (if thread_state (tcbs s t) = TS_WAITING then s0 else snd (thread_dequeue_send (tid_to_tcb (partner (tcbs s0 t))) t s0))"
  have k0: "unwind_ipc_sp (tcbs s0 t) = unwind_ipc_sp (tcbs s t)" "pager (tcbs s0 t) = pager (tcbs s t)"
    by (simp_all add: s0_def thread_dequeue_wakeup_def Let_def)
  have k1: "unwind_ipc_sp (tcbs s1 t) = unwind_ipc_sp (tcbs s0 t)" "pager (tcbs s1 t) = pager (tcbs s0 t)"
    by (simp_all add: s1_def thread_dequeue_send_def Let_def)
  have m: "mem s1 = mem s" by (simp add: s1_def s0_def)
  let ?f = "create_user_stack_frame t (get_user_sp t s1) (get_user_ip t s1) (abort_ipc e) r s1"
  have "unwind_ipc e t s = Ok (unwind_frame e t r s1)"
    unfolding unwind_ipc.simps [of e t s] Let_def s0_def [symmetric] using st by (auto simp: s1_def r_def s0_def dequeue_wakeup_state)
  also have "unwind_frame e t r s1 = ?f"
    using sysenter_after_frame [OF t user_frame_reads(4)] by (simp add: unwind_frame_def k1 k0 sp Let_def)
  finally show ?thesis
    using user_frame_reads [of t "get_user_sp t s1" "get_user_ip t s1" "abort_ipc e" r s1] user_reads_mem [OF m] k0(2) k1(2)
    by (simp add: user_frame_same)
qed

text \<open>The state with the new registers and pager.\<close>

definition exchanged :: "tptr \<Rightarrow> dword_t \<Rightarrow> dword_t \<Rightarrow> l4_threadid_t \<Rightarrow> kstate \<Rightarrow> kstate" where
  "exchanged t uip usp pgr s =
     (let s = (if usp = NOT 0 then s else set_mem (idx (get_tcb_stack_top t) (-2)) usp s);
          s = (if uip = NOT 0 then s else set_mem (idx (get_tcb_stack_top t) (-5)) uip s)
      in if pgr = L4_INVALID_ID then s else upd_tcb t (\<lambda>c. c\<lparr>pager := pgr\<rparr>) s)"

lemma exchanged_tcb: "(\<And>c v. f (c\<lparr>pager := v\<rparr>) = f c) \<Longrightarrow> f (tcbs (exchanged t uip usp pgr s) x) = f (tcbs s x)"
  by (simp add: exchanged_def Let_def set_mem_def)

lemma exchanged_unwinds: "unwinds s (exchanged t uip usp pgr s)"
  by (rule unwinds_quiet) (simp_all add: exchanged_def Let_def set_mem_def)

lemma upd_tcb_reads [simp]:
  "get_user_sp t (upd_tcb x f s) = get_user_sp t s" "get_user_ip t (upd_tcb x f s) = get_user_ip t s"
  "get_user_flags t (upd_tcb x f s) = get_user_flags t s"
  by (simp_all add: get_user_sp_def get_user_ip_def get_user_flags_def)

lemma exchanged_reads:
  "get_user_ip t (exchanged t uip usp pgr s) = (if uip = NOT 0 then get_user_ip t s else uip)"
  "get_user_sp t (exchanged t uip usp pgr s) = (if usp = NOT 0 then get_user_sp t s else usp)"
  "get_user_flags t (exchanged t uip usp pgr s) = get_user_flags t s"
  "pager (tcbs (exchanged t uip usp pgr s) t) = (if pgr = L4_INVALID_ID then pager (tcbs s t) else pgr)"
  "mem (exchanged t uip usp pgr s) (get_tcb_stack_top t - 28) = mem s (get_tcb_stack_top t - 28)"
  "mem (exchanged t uip usp pgr s) (get_tcb_stack_top t - 24) = mem s (get_tcb_stack_top t - 24)"
       apply (simp_all add: exchanged_def Let_def set_user_reads)
       apply (simp_all add: set_mem_def idx_def)
  done

lemma exchange_regs:
  assumes s: "\<not> is_ipc_sysenter (return_from_sys_ipc e) t s" "thread_state (tcbs s t) = TS_RUNNING"
  shows "ex_regs_exchange e t uip usp pgr s =
      (\<lparr>ret_uip = get_user_ip t s, ret_usp = get_user_sp t s, ret_pager = pager (tcbs s t), ret_flags = get_user_flags t s\<rparr>,
       thread_enqueue_ready t (exchanged t uip usp pgr s))"
proof -
  have r: "thread_state (tcbs (exchanged t uip usp pgr s) t) = TS_RUNNING" using s(2) by (simp add: exchanged_tcb)
  have fl: "get_user_flags t (thread_enqueue_ready t (exchanged t uip usp pgr s)) = get_user_flags t s"
    using exchanged_reads(3) [of t uip usp pgr s] by (simp add: get_user_flags_def)
  show ?thesis
    using s(1) r fl unfolding ex_regs_exchange_def exchanged_def set_user_sp_def set_user_ip_def Let_def
    by (cases "usp = NOT 0"; cases "uip = NOT 0"; cases "pgr = L4_INVALID_ID") (simp_all add: set_user_reads, simp_all add: set_mem_def)
qed

lemma unwind_blocked_cancelled:
  assumes "thread_state (tcbs s t) \<in> {TS_WAITING, TS_POLLING}" "t \<noteq> idle_tcb s" "unwind_ipc e t s = Ok s'"
  shows "cancelled {t} s s'"
  using assms unwind_target [of s t e] by auto

text \<open>The thread after its registers were exchanged: it is ready and leaves the kernel through the abort code.\<close>

definition resumed :: "kenv \<Rightarrow> tptr \<Rightarrow> dword_t \<Rightarrow> dword_t \<Rightarrow> dword_t \<Rightarrow> l4_threadid_t \<Rightarrow> kstate \<Rightarrow> kstate \<Rightarrow> bool" where
  "resumed e t err uip usp pgr s s' \<longleftrightarrow>
     thread_state (tcbs s' t) = TS_RUNNING \<and> in_ready s' t \<and> \<not> in_queue TS_QUEUE_WAKEUP s' t \<and>
     get_user_ip t s' = (if uip = NOT 0 then get_user_ip t s else uip) \<and> get_user_sp t s' = (if usp = NOT 0 then get_user_sp t s else usp) \<and>
     pager (tcbs s' t) = (if pgr = L4_INVALID_ID then pager (tcbs s t) else pgr) \<and>
     mem s' (stack (tcbs s' t)) = abort_ipc e \<and> mem s' (stack (tcbs s' t) + 4) = err"

lemma exchange_blocked:
  assumes t: "t = tid_to_tcb tid" "t \<noteq> idle_tcb s" and st: "thread_state (tcbs s t) \<in> {TS_WAITING, TS_POLLING}"
    and sp: "unwind_ipc_sp (tcbs s t) = 0"
  defines "err \<equiv> IPC_ERR_CANCELED OR (if thread_state (tcbs s t) = TS_WAITING then IPC_ERR_RECV else IPC_ERR_SEND)"
  shows "\<exists>s'. res_bind (unwind_ipc e t s) (\<lambda>s. Ok (ex_regs_exchange e t uip usp pgr (set_thread_state TS_RUNNING t s))) =
      Ok (\<lparr>ret_uip = get_user_ip t s, ret_usp = get_user_sp t s, ret_pager = pager (tcbs s t), ret_flags = X86_USER_FLAGS\<rparr>, s') \<and>
    unwinds s s' \<and> resumed e t err uip usp pgr s s'"
proof -
  obtain s1 where s1: "unwind_ipc e t s = Ok s1" "get_user_sp t s1 = get_user_sp t s" "get_user_ip t s1 = get_user_ip t s"
    "get_user_flags t s1 = X86_USER_FLAGS" "stack (tcbs s1 t) = get_tcb_stack_top t - 28"
    "mem s1 (get_tcb_stack_top t - 28) = abort_ipc e" "mem s1 (get_tcb_stack_top t - 24) = err" "pager (tcbs s1 t) = pager (tcbs s t)"
    using unwind_blocked [OF t(1) st sp, of e] unfolding err_def by blast
  have c: "cancelled {t} s s1" by (rule unwind_blocked_cancelled [OF st t(2) s1(1)])
  define s2 where "s2 = set_thread_state TS_RUNNING t s1"
  define s3 where "s3 = exchanged t uip usp pgr s2"
  define s' where "s' = thread_enqueue_ready t s3"
  have same2: "get_user_sp t s2 = get_user_sp t s" "get_user_ip t s2 = get_user_ip t s" "get_user_flags t s2 = X86_USER_FLAGS"
    "stack (tcbs s2 t) = get_tcb_stack_top t - 28" "mem s2 = mem s1" "pager (tcbs s2 t) = pager (tcbs s t)" "thread_state (tcbs s2 t) = TS_RUNNING"
    using s1 by (simp_all add: s2_def set_thread_state_def)
  have x: "ex_regs_exchange e t uip usp pgr s2 =
    (\<lparr>ret_uip = get_user_ip t s, ret_usp = get_user_sp t s, ret_pager = pager (tcbs s t), ret_flags = X86_USER_FLAGS\<rparr>, s')"
    unfolding exchange_regs [OF sysenter_after_frame [OF t(1) same2(4)] same2(7)] s'_def s3_def same2(1-3,6) ..
  have "unwinds s s1" using c by (simp add: cancelled_def)
  then have u3: "unwinds s s3" unfolding s3_def s2_def
    using unwinds_trans [OF _ unwinds_trans [OF unwinds_state exchanged_unwinds]] by blast
  have u: "unwinds s s'" unfolding s'_def
    by (rule unwinds_trans [OF u3 unwinds_enqueue_ready]) (use t tid_to_tcb_not_NULL unwindsD(11) [OF u3] in auto)
  have w: "\<not> in_queue TS_QUEUE_WAKEUP s' t"
  proof -
    have k: "unwinds s1 s'"
      unfolding s'_def s3_def s2_def using t tid_to_tcb_not_NULL unwindsD(11) [OF u3]
      by (intro unwinds_trans [OF unwinds_state unwinds_trans [OF exchanged_unwinds unwinds_enqueue_ready]])
        (auto simp: s3_def s2_def)
    then show ?thesis using c unwindsD(3) [OF k] by (auto simp: cancelled_def)
  qed
  have st3: "stack (tcbs s3 t) = get_tcb_stack_top t - 28" "thread_state (tcbs s3 t) = TS_RUNNING"
    using same2 by (simp_all add: s3_def exchanged_tcb)
  have e': "stack (tcbs s' t) = stack (tcbs s3 t)" "thread_state (tcbs s' t) = thread_state (tcbs s3 t)" "pager (tcbs s' t) = pager (tcbs s3 t)"
    "mem s' = mem s3"
    using but_ready_eqD [OF keeps_tcb [OF enqueue_ready_keeps], of t s3 t] by (simp_all add: s'_def)
  have "resumed e t err uip usp pgr s s'"
    unfolding resumed_def
    using exchanged_reads [of t uip usp pgr s2] s1(6,7) w user_reads_mem [OF e'(4), of t]
    by (simp add: e' st3 same2 s3_def [symmetric]) (simp add: s'_def enqueue_ready_bit)
  then show ?thesis using x u by (simp add: s1(1) s2_def [symmetric])
qed

section \<open>A new thread\<close>

text \<open>A block in none of the queues.\<close>

definition unqueued :: "kstate \<Rightarrow> tptr \<Rightarrow> bool" where
  "unqueued s t \<longleftrightarrow> \<not> in_ready s t \<and> \<not> in_queue TS_QUEUE_WAKEUP s t \<and> \<not> in_queue TS_QUEUE_PRESENT s t"

text \<open>The initialised block, before the thread enters the present list.\<close>

definition fresh_tcb :: "l4_threadid_t \<Rightarrow> ptr_t \<Rightarrow> tcb_t \<Rightarrow> tcb_t" where
  "fresh_tcb tid sp c = (init_tcb tid c)\<lparr>fpu_ptr := NULL, excpt := 0, space := sp, pagedir_cache := sp\<rparr>"

lemma upd_tcb_twice: "upd_tcb t f (upd_tcb t g s) = upd_tcb t (\<lambda>c. f (g c)) s"
  by (simp add: upd_tcb_def)

lemma create_tcb_in_space:
  assumes "sp \<noteq> NULL"
  shows "create_tcb e tid sp s = Ok (tid_to_tcb tid, thread_enqueue_present (tid_to_tcb tid) (upd_tcb (tid_to_tcb tid) (fresh_tcb tid sp) s))"
proof -
  have f: "fresh_tcb tid sp = (\<lambda>c. (init_tcb tid c)\<lparr>fpu_ptr := NULL, excpt := 0, space := sp, pagedir_cache := sp\<rparr>)"
    by (simp add: fun_eq_iff fresh_tcb_def)
  show ?thesis using assms by (simp add: create_tcb_def Let_def init_resources_def upd_tcb_twice f)
qed

lemma fresh_queues:
  fixes tid sp :: dword_t
  assumes q: "unqueued s t" "ready_inv s Q" "wakeup_inv s ws" "present_inv s ps" and t: "t \<noteq> idle_tcb s"
  defines "s' \<equiv> thread_enqueue_present t (upd_tcb t (fresh_tcb tid sp) s)"
  shows "ready_inv s' Q" "wakeup_inv s' ws" "present_inv s' (t # ps)" "\<not> in_ready s' t" "current s' = current s" "idle_tcb s' = idle_tcb s"
proof -
  let ?s = "upd_tcb t (fresh_tcb tid sp) s"
  have b: "in_queue c ?s x = in_queue c s x" if "c \<in> {TS_QUEUE_READY, TS_QUEUE_WAKEUP, TS_QUEUE_PRESENT}" for x c
    using q(1) that by (auto simp: unqueued_def in_queue_def fresh_tcb_def init_tcb_def)
  have r: "ready_inv ?s Q" by (rule ready_inv_cong [OF q(2)]) (auto simp: fresh_tcb_def init_tcb_def b)
  have w: "wakeup_inv ?s ws" by (rule wakeup_inv_cong [OF q(3)]) (auto simp: fresh_tcb_def init_tcb_def b)
  have p: "present_inv ?s ps" by (rule present_inv_cong [OF q(4)]) (auto simp: fresh_tcb_def init_tcb_def b)
  have n: "t \<notin> set ps" using q(1,4) t sentinel_member(1) unfolding unqueued_def present_inv_def by metis
  show "ready_inv s' Q" unfolding s'_def by (rule ready_inv_cong [OF r]) (simp_all add: enqueue_same enqueue_sel in_queue_simps)
  show "wakeup_inv s' ws" unfolding s'_def by (rule wakeup_inv_cong [OF w]) (simp_all add: enqueue_same in_queue_simps)
  show "present_inv s' (t # ps)"
    using present_queue.enqueue_list [of ?s ps t] p n t unfolding present_inv_def s'_def by simp
  have "in_ready s' t = in_ready ?s t" unfolding s'_def by (simp add: in_queue_simps enqueue_same)
  then show "\<not> in_ready s' t" using b q(1) by (simp add: unqueued_def)
qed (simp_all add: s'_def enqueue_same)

text \<open>Starting a thread: its user frame, its registers, and the ready queue.\<close>

definition start_thread :: "tptr \<Rightarrow> dword_t \<Rightarrow> dword_t \<Rightarrow> ptr_t \<Rightarrow> dword_t \<Rightarrow> l4_threadid_t \<Rightarrow> dword_t \<Rightarrow> kstate \<Rightarrow> kstate" where
  "start_thread t usp uip entry param pgr v s =
     thread_enqueue_ready t (upd_tcb t (\<lambda>c. c\<lparr>pager := pgr, priority := v, thread_state := TS_RUNNING\<rparr>)
       (create_user_stack_frame t usp uip entry param s))"

lemma start_thread_inv:
  fixes pgr v usp uip entry param :: dword_t
  assumes t: "t \<noteq> NULL" "t \<noteq> idle_tcb s" "\<not> in_ready s t" and v: "uint v \<le> MAX_PRIO"
    and inv: "ready_inv s Q" "wakeup_inv s ws" "present_inv s ps"
  defines "s' \<equiv> start_thread t usp uip entry param pgr v s"
  shows "\<exists>Q'. ready_inv s' Q'" "wakeup_inv s' ws" "present_inv s' ps" "current s' = current s"
proof -
  let ?p = "\<lambda>s. upd_tcb t (\<lambda>c. c\<lparr>pager := pgr\<rparr>) s"
  define s2 where "s2 = create_user_stack_frame t usp uip entry param s"
  define s3 where "s3 = upd_tcb t (\<lambda>c. c\<lparr>pager := pgr, priority := v, thread_state := TS_RUNNING\<rparr>) s2"
  have s': "s' = thread_enqueue_ready t s3" by (simp add: s'_def start_thread_def s3_def s2_def)
  have s3: "s3 = set_thread_state TS_RUNNING t (upd_tcb t (\<lambda>c. c\<lparr>priority := v\<rparr>) (?p s2))"
    by (simp add: s3_def set_thread_state_def upd_tcb_twice)
  have r2: "ready_inv s2 Q" unfolding s2_def by (rule ready_inv_cong [OF inv(1)]) (simp_all add: user_frame_same in_queue_def)
  have nr: "\<not> in_ready (?p s2) t" using t(3) by (simp add: s2_def in_queue_def user_frame_same)
  have r3: "ready_inv s3 Q" unfolding s3 set_thread_state_def
    by (intro ready_inv_upd [where f = "\<lambda>c. c\<lparr>thread_state := TS_RUNNING\<rparr>"] ready_inv_set_prio [OF ready_inv_upd [OF r2] nr v]) simp_all
  have w3: "wakeup_inv s3 ws"
    by (rule wakeup_inv_cong [OF inv(2)]) (simp_all add: s3_def s2_def user_frame_same in_queue_def)
  have p3: "present_inv s3 ps"
    by (rule present_inv_cong [OF inv(3)]) (simp_all add: s3_def s2_def user_frame_same in_queue_def)
  have "idle_tcb s3 = idle_tcb s" by (simp add: s3_def s2_def)
  then show "\<exists>Q'. ready_inv s' Q'" unfolding s' using enqueue_ready_inv [OF r3 t(1)] t(2) by metis
  show "wakeup_inv s' ws" unfolding s' by (rule wakeup_inv_ready_ops(1) [OF w3])
  show "present_inv s' ps" unfolding s'
    by (rule present_inv_cong [OF p3]) (simp_all add: but_ready_eqD [OF keeps_tcb [OF enqueue_ready_keeps]] in_queue_simps
        but_ready_bits [OF keeps_tcb [OF enqueue_ready_keeps]] keeps_idle [OF enqueue_ready_keeps])
  show "current s' = current s" by (simp add: s' keeps_clock(2) [OF enqueue_ready_keeps] s3_def s2_def)
qed

lemma start_thread_fields:
  fixes t pgr v usp uip entry param :: dword_t and s :: kstate
  defines "s' \<equiv> start_thread t usp uip entry param pgr v s"
  shows "in_ready s' t" "thread_state (tcbs s' t) = TS_RUNNING" "priority (tcbs s' t) = v" "pager (tcbs s' t) = pgr"
    "myself (tcbs s' t) = myself (tcbs s t)" "space (tcbs s' t) = space (tcbs s t)"
    "get_user_ip t s' = uip" "get_user_sp t s' = usp" "mem s' (stack (tcbs s' t)) = entry" "mem s' (stack (tcbs s' t) + 4) = param"
proof -
  define s2 where "s2 = create_user_stack_frame t usp uip entry param s"
  define s3 where "s3 = upd_tcb t (\<lambda>c. c\<lparr>pager := pgr, priority := v, thread_state := TS_RUNNING\<rparr>) s2"
  have s': "s' = thread_enqueue_ready t s3" by (simp add: s'_def start_thread_def s3_def s2_def)
  note k = but_ready_eqD [OF keeps_tcb [OF enqueue_ready_keeps], of t s3 t, folded s']
  show "in_ready s' t" by (simp add: s' enqueue_ready_bit)
  show "thread_state (tcbs s' t) = TS_RUNNING" "priority (tcbs s' t) = v" "pager (tcbs s' t) = pgr"
    "myself (tcbs s' t) = myself (tcbs s t)" "space (tcbs s' t) = space (tcbs s t)"
    by (simp_all add: k s3_def) (simp_all add: s2_def user_frame_same)
  have m: "mem s' = mem s2" by (simp add: s' s3_def)
  note u = user_frame_reads [of t usp uip entry param s, folded s2_def]
  show "get_user_ip t s' = uip" "get_user_sp t s' = usp" using u user_reads_mem [OF m, of t] by simp_all
  have "stack (tcbs s' t) = get_tcb_stack_top t - 28" using u(4) by (simp add: k s3_def)
  then show "mem s' (stack (tcbs s' t)) = entry" "mem s' (stack (tcbs s' t) + 4) = param" using u(5,6) by (simp_all add: m)
qed

section \<open>Properties\<close>

text \<open>\<^bold>\<open>C18.\<close> Exchanging the registers of a thread that does not exist creates it in the caller's address space with
  the caller's priority: it is running, in the ready queue and the present list, and starts in user mode at the given
  instruction pointer with the given stack and pager; the call returns the invalid values.\<close>

theorem ex_regs_creates:
  assumes "myself (tcbs s (current s)) = me" and "tid = set_x0id_thread n me" and "tid \<noteq> me" and "t = tid_to_tcb tid"
    and "NOT (uip AND usp) \<noteq> 0" and "\<not> tcb_exist t s" and "me \<noteq> 0" and "tid \<noteq> 0" and "space (tcbs s (current s)) \<noteq> NULL"
    and "unqueued s t" and "idle_apart s" and "sched_inv s Q ws" and "present_inv s ps"
  shows "\<exists>s' Q'. sys_lthread_ex_regs e n uip usp pgr s =
       Ok (\<lparr>ret_uip = NOT 0, ret_usp = NOT 0, ret_pager = L4_INVALID_ID, ret_flags = 0\<rparr>, s') \<and>
     sched_inv s' Q' ws \<and> present_inv s' (t # ps) \<and> tcb_exist t s' \<and> in_ready s' t \<and> thread_state (tcbs s' t) = TS_RUNNING \<and>
     space (tcbs s' t) = space (tcbs s (current s)) \<and> priority (tcbs s' t) = priority (tcbs s (current s)) \<and>
     get_user_ip t s' = uip \<and> get_user_sp t s' = usp \<and> pager (tcbs s' t) = pgr \<and> mem s' (stack (tcbs s' t)) = switch_to_user e"
proof -
  let ?c = "current s" and ?sp = "space (tcbs s (current s))" and ?v = "priority (tcbs s (current s))"
  define s1 where "s1 = thread_enqueue_present t (upd_tcb t (fresh_tcb tid ?sp) s)"
  define s' where "s' = start_thread t usp uip (switch_to_user e) 0 pgr ?v s1"
  have ne: "t \<noteq> ?c" "t \<noteq> NULL" "t \<noteq> idle_tcb s"
    using assms(1,4,6,7) tid_to_tcb_not_NULL idle_apartD [OF assms(11)] by (auto simp: tcb_exist_def)
  have inv: "ready_inv s Q" "wakeup_inv s ws" "?c \<noteq> NULL" using assms(12) by (simp_all add: sched_inv_def)
  note f = fresh_queues [OF assms(10) inv(1,2) assms(13) ne(3), of tid ?sp, folded s1_def]
  have v: "uint ?v \<le> MAX_PRIO" using ready_invD(4) [OF inv(1), of ?c] by (simp add: prio_of_def)
  have pc: "priority (tcbs (create_user_stack_frame t usp uip (switch_to_user e) 0 s1) ?c) = ?v"
    using ne(1) by (simp add: user_frame_same s1_def enqueue_same)
  have run: "sys_lthread_ex_regs e n uip usp pgr s =
      Ok (\<lparr>ret_uip = NOT 0, ret_usp = NOT 0, ret_pager = L4_INVALID_ID, ret_flags = 0\<rparr>, s')"
    using assms(1-6) ne(2) pc unfolding sys_lthread_ex_regs_def Let_def get_current_tcb_def create_tcb_in_space [OF assms(9)] s'_def start_thread_def s1_def
    by simp
  have i: "t \<noteq> idle_tcb s1" using ne(3) f(6) by simp
  note sinv = start_thread_inv [OF ne(2) i f(4) v f(1-3), of usp uip "switch_to_user e" 0 pgr, folded s'_def]
  note sf = start_thread_fields [of t usp uip "switch_to_user e" 0 pgr ?v s1, folded s'_def]
  have "myself (tcbs s1 t) = tid" "space (tcbs s1 t) = ?sp" by (simp_all add: s1_def enqueue_same fresh_tcb_def init_tcb_def)
  then have "tcb_exist t s'" "space (tcbs s' t) = ?sp" using sf(5,6) assms(8) by (simp_all add: tcb_exist_def)
  then show ?thesis using run sinv sf f(5) inv(3) by (auto simp: sched_inv_def)
qed

text \<open>A thread of task 2 runs, and its second thread does not exist yet or waits for a message.\<close>

definition demo_caller :: kstate where
  "demo_caller = demo_poll\<lparr>current := 0xE0020000\<rparr>"

definition demo_waiter :: kstate where
  "demo_waiter = upd_tcb 0xE0020400 (\<lambda>c. c\<lparr>myself := 0x20400, thread_state := TS_WAITING\<rparr>) demo_caller"

lemma demo_caller_inv: "sched_inv demo_caller (\<lambda>_. []) []" "present_inv demo_caller [0xE0030000, 0xE0020000]" "idle_apart demo_caller"
proof -
  have "ready_inv demo_caller (\<lambda>_. [])" by (rule ready_inv_cong [OF demo_poll_queues(1)]) (simp_all add: demo_caller_def in_queue_def)
  moreover have "wakeup_inv demo_caller []" by (rule wakeup_inv_cong [OF demo_poll_queues(2)]) (simp_all add: demo_caller_def in_queue_def)
  ultimately show "sched_inv demo_caller (\<lambda>_. []) []" by (simp add: sched_inv_def demo_caller_def)
  show "present_inv demo_caller [0xE0030000, 0xE0020000]"
    by (rule present_inv_cong [OF demo_poll_queues(3)]) (simp_all add: demo_caller_def in_queue_def)
  show "idle_apart demo_caller"
    by (simp add: idle_apart_def demo_caller_def demo_poll_def demo_threads_def demo_present_def enqueue_same boot_facts TCB_AREA_def
        mask_eq_exp_minus_1)
qed

lemma demo_second: "set_x0id_thread 1 0x20000 = 0x20400" "tid_to_tcb 0x20400 = 0xE0020400"
  by (simp_all add: set_x0id_thread_def tid_to_tcb_def id_thread_def L4_NUMBITS_TCBS_def TCB_AREA_def mask_eq_exp_minus_1)

lemma demo_caller_facts:
  "myself (tcbs demo_caller 0xE0020000) = 0x20000" "current demo_caller = 0xE0020000" "space (tcbs demo_caller 0xE0020000) = 0x1000"
  "myself (tcbs demo_caller 0xE0020400) = 0" "unwind_ipc_sp (tcbs demo_caller 0xE0020400) = 0"
  by (simp_all add: demo_caller_def demo_poll_def demo_threads_def demo_present_def enqueue_same boot_state_def zero_tcb_def)

lemma demo_unqueued: "unqueued demo_caller 0xE0020400"
proof -
  have r: "ready_inv demo_caller (\<lambda>_. [])" and w: "wakeup_inv demo_caller []"
    using demo_caller_inv(1) by (simp_all add: sched_inv_def)
  have "\<not> in_ready demo_caller 0xE0020400" unfolding ready_invD(3) [OF r] by simp
  moreover have "\<not> in_queue TS_QUEUE_WAKEUP demo_caller 0xE0020400"
    using w by (simp add: wakeup_inv_def sentinel_ring_def demo_caller_def demo_poll_facts)
  moreover have "\<not> in_queue TS_QUEUE_PRESENT demo_caller 0xE0020400"
    using demo_caller_inv(2) by (simp add: present_inv_def sentinel_ring_def demo_caller_def demo_poll_facts)
  ultimately show ?thesis by (simp add: unqueued_def)
qed

theorem ex_regs_creates_witness:
  "\<exists>r s'. sys_lthread_ex_regs demo_env 1 0x8000 0x9000 0x20000 demo_caller = Ok (r, s') \<and> in_ready s' 0xE0020400 \<and>
     get_user_ip 0xE0020400 s' = 0x8000 \<and> get_user_sp 0xE0020400 s' = 0x9000 \<and> present_inv s' [0xE0020400, 0xE0030000, 0xE0020000]"
  using ex_regs_creates [OF _ refl _ refl, of demo_caller "0x20000" 1 "0x8000" "0x9000" "\<lambda>_. []" "[]" "[0xE0030000, 0xE0020000]" demo_env "0x20000"]
  by (auto simp: demo_caller_facts demo_caller_inv demo_unqueued demo_second tcb_exist_def)

text \<open>\<^bold>\<open>C15.\<close> Exchanging the registers of another thread of the task that waits in an IPC, or for its receiver, cancels the
  IPC: the call returns the old registers and pager, installs the new ones, and the thread is ready and will leave
  the kernel through the code that reports the cancellation; the queues stay well-formed. The returned stack pointer
  is the stored one, also for a thread that entered by the fast system call.\<close>

theorem ex_regs_cancels:
  assumes "tid = set_x0id_thread n (myself (tcbs s (current s)))" and "tid \<noteq> myself (tcbs s (current s))" and "t = tid_to_tcb tid"
    and "NOT (uip AND usp) \<noteq> 0" and "tcb_exist t s" and "thread_state (tcbs s t) \<in> {TS_WAITING, TS_POLLING}"
    and "unwind_ipc_sp (tcbs s t) = 0" and "idle_apart s" and "sched_inv s Q ws"
  shows "\<exists>s' Q' ws'. sys_lthread_ex_regs e n uip usp pgr s =
       Ok (\<lparr>ret_uip = get_user_ip t s, ret_usp = get_user_sp t s, ret_pager = pager (tcbs s t), ret_flags = X86_USER_FLAGS\<rparr>, s') \<and>
     sched_inv s' Q' ws' \<and>
     resumed e t (IPC_ERR_CANCELED OR (if thread_state (tcbs s t) = TS_WAITING then IPC_ERR_RECV else IPC_ERR_SEND)) uip usp pgr s s'"
proof -
  have t: "t \<noteq> idle_tcb s" using idle_apartD [OF assms(8)] assms(3) by simp
  obtain s' where s': "res_bind (unwind_ipc e t s) (\<lambda>s. Ok (ex_regs_exchange e t uip usp pgr (set_thread_state TS_RUNNING t s))) =
      Ok (\<lparr>ret_uip = get_user_ip t s, ret_usp = get_user_sp t s, ret_pager = pager (tcbs s t), ret_flags = X86_USER_FLAGS\<rparr>, s')"
    "unwinds s s'" "resumed e t (IPC_ERR_CANCELED OR (if thread_state (tcbs s t) = TS_WAITING then IPC_ERR_RECV else IPC_ERR_SEND)) uip usp pgr s s'"
    using exchange_blocked [OF assms(3) t assms(6,7), of e uip usp pgr] by blast
  obtain Q' ws' where "ready_inv s' Q'" "wakeup_inv s' ws'" using unwindsD(14,15) [OF s'(2)] assms(9) unfolding sched_inv_def by blast
  then have "sched_inv s' Q' ws'" using assms(9) unwindsD(12) [OF s'(2)] by (simp add: sched_inv_def)
  moreover have "sys_lthread_ex_regs e n uip usp pgr s =
       Ok (\<lparr>ret_uip = get_user_ip t s, ret_usp = get_user_sp t s, ret_pager = pager (tcbs s t), ret_flags = X86_USER_FLAGS\<rparr>, s')"
    using assms(1-5) s'(1) by (simp add: sys_lthread_ex_regs_def Let_def get_current_tcb_def)
  ultimately show ?thesis using s'(3) by blast
qed

theorem ex_regs_cancels_witness:
  "\<exists>r s'. sys_lthread_ex_regs demo_env 1 0x8000 0x9000 0xFFFFFFFF demo_waiter = Ok (r, s') \<and>
     resumed demo_env 0xE0020400 IPC_ERR_CANCELED 0x8000 0x9000 0xFFFFFFFF demo_waiter s'"
proof -
  have i: "idle_apart demo_waiter" using demo_caller_inv(3) by (simp add: idle_apart_def demo_waiter_def)
  have "sched_inv demo_waiter (\<lambda>_. []) []"
    using demo_caller_inv(1) ready_inv_upd [of demo_caller "\<lambda>_. []" "\<lambda>c. c\<lparr>myself := 0x20400, thread_state := TS_WAITING\<rparr>" "0xE0020400"]
      wakeup_inv_upd [of demo_caller "[]" "\<lambda>c. c\<lparr>myself := 0x20400, thread_state := TS_WAITING\<rparr>" "0xE0020400"]
    by (simp add: sched_inv_def demo_waiter_def)
  moreover have "current demo_waiter = 0xE0020000" "myself (tcbs demo_waiter 0xE0020000) = 0x20000" "tcb_exist 0xE0020400 demo_waiter"
    "thread_state (tcbs demo_waiter 0xE0020400) = TS_WAITING" "unwind_ipc_sp (tcbs demo_waiter 0xE0020400) = 0"
    by (simp_all add: demo_waiter_def demo_caller_facts tcb_exist_def)
  ultimately show ?thesis
    using ex_regs_cancels [OF refl _ refl, of 1 demo_waiter "0x8000" "0x9000" "\<lambda>_. []" "[]" demo_env "0xFFFFFFFF"] i
    by (auto simp: demo_second IPC_ERR_RECV_def)
qed

end
