(* ===== verification/Ipc.thy ===== *)
theory Ipc
  imports Threads
begin

text \<open>
  Interprocess communication, \<^verbatim>\<open>src/ipc.c\<close> and \<^verbatim>\<open>include/ipc.h\<close>, with the copy areas of \<^verbatim>\<open>src/x86/memory.c\<close> and the
  interrupt masks of \<^verbatim>\<open>src/x86/interrupt.c\<close>.

  A thread that waits inside \<^verbatim>\<open>sys_ipc\<close> is suspended at a thread switch with its local variables on its kernel stack. Here
  \<open>sys_ipc\<close> runs up to that switch and gives the point of the suspension with the variables that are live there, a value of
  type \<open>ipc_point\<close>; \<open>ipc_resume\<close> continues from it when the thread is current again.

  The kernel copies long messages between user memory of the running thread and a window onto the receiver's memory. An access
  goes through the page tables as the processor does it; where they have no mapping, or none for writing, the result is
  \<open>Page_fault\<close>: the copy is then interrupted by the page fault handler, which is not modelled.
\<close>

section \<open>Message descriptors and timeouts\<close>

definition IPC_ERR_EXIST :: dword_t where "IPC_ERR_EXIST = 0x10"
definition IPC_ERR__TIMEOUT :: dword_t where "IPC_ERR__TIMEOUT = 0x20"
definition IPC_ERR_CUTMSG :: dword_t where "IPC_ERR_CUTMSG = 0xe0"
definition IPC_ERR_SENDTIMEOUT :: dword_t where "IPC_ERR_SENDTIMEOUT = IPC_ERR__TIMEOUT + IPC_ERR_SEND"
definition IPC_ERR_RECVTIMEOUT :: dword_t where "IPC_ERR_RECVTIMEOUT = IPC_ERR__TIMEOUT + IPC_ERR_RECV"
definition IPC_MAP_MESSAGE :: dword_t where "IPC_MAP_MESSAGE = 0x02"
definition IPC_DWORD_GAP :: dword_t where "IPC_DWORD_GAP = 3"
definition IRQ_IN_SERVICE :: dword_t where "IRQ_IN_SERVICE = push_bit 31 1"

definition IS_SEND :: "dword_t \<Rightarrow> bool" where "IS_SEND snd_desc \<longleftrightarrow> snd_desc \<noteq> NOT 0"
definition IS_RECEIVE :: "dword_t \<Rightarrow> bool" where "IS_RECEIVE rcv_desc \<longleftrightarrow> rcv_desc \<noteq> NOT 0"
definition IS_OPEN_WAIT :: "dword_t \<Rightarrow> bool" where "IS_OPEN_WAIT rcv_desc \<longleftrightarrow> rcv_desc AND 1 = 1"
definition IS_SHORT_IPC :: "dword_t \<Rightarrow> bool" where "IS_SHORT_IPC x \<longleftrightarrow> x AND NOT 0x3 = 0"
definition IS_MAP :: "dword_t \<Rightarrow> bool" where "IS_MAP x \<longleftrightarrow> x AND 0x2 \<noteq> 0"

text \<open>The number of strings and of words of a message dope.\<close>

definition dope_strings :: "dword_t \<Rightarrow> dword_t" where "dope_strings d = drop_bit 8 d AND mask 5"
definition dope_dwords :: "dword_t \<Rightarrow> dword_t" where "dope_dwords d = drop_bit 13 d AND mask 19"
definition set_dope_strings :: "dword_t \<Rightarrow> dword_t \<Rightarrow> dword_t" where
  "set_dope_strings n d = (d AND NOT (push_bit 8 (mask 5))) OR push_bit 8 (n AND mask 5)"
definition set_dope_dwords :: "dword_t \<Rightarrow> dword_t \<Rightarrow> dword_t" where
  "set_dope_dwords n d = (d AND NOT (push_bit 13 (mask 19))) OR push_bit 13 (n AND mask 19)"

text \<open>The offsets of the fields of \<^verbatim>\<open>memmsg_t\<close> and of \<^verbatim>\<open>stringdope_t\<close>, and the two parts of the words with the sizes.\<close>

definition msg_rcv_fpage :: dword_t where "msg_rcv_fpage = 0"
definition msg_size_dope :: dword_t where "msg_size_dope = 4"
definition msg_send_dope :: dword_t where "msg_send_dope = 8"
definition msg_dword :: "dword_t \<Rightarrow> dword_t" where "msg_dword i = 12 + 4 * i"
definition sizeof_stringdope_t :: dword_t where "sizeof_stringdope_t = 16"
definition str_size :: "dword_t \<Rightarrow> dword_t" where "str_size w = w AND mask 31"
definition str_continue :: "dword_t \<Rightarrow> bool" where "str_continue w \<longleftrightarrow> bit w 31"
definition set_str_size :: "dword_t \<Rightarrow> dword_t \<Rightarrow> dword_t" where
  "set_str_size n w = (w AND NOT (mask 31)) OR (n AND mask 31)"
definition clear_str_continue :: "dword_t \<Rightarrow> dword_t" where "clear_str_continue w = w AND mask 31"

definition rcv_exp :: "dword_t \<Rightarrow> dword_t" where "rcv_exp to = to AND mask 4"
definition snd_exp :: "dword_t \<Rightarrow> dword_t" where "snd_exp to = drop_bit 4 to AND mask 4"
definition rcv_pfault :: "dword_t \<Rightarrow> dword_t" where "rcv_pfault to = drop_bit 8 to AND mask 4"
definition snd_pfault :: "dword_t \<Rightarrow> dword_t" where "snd_pfault to = drop_bit 12 to AND mask 4"
definition snd_man :: "dword_t \<Rightarrow> dword_t" where "snd_man to = drop_bit 16 to AND mask 8"
definition rcv_man :: "dword_t \<Rightarrow> dword_t" where "rcv_man to = drop_bit 24 to AND mask 8"

definition TIMEOUT_NEVER :: dword_t where "TIMEOUT_NEVER = 0"
definition IS_INFINITE_SEND_TIMEOUT :: "dword_t \<Rightarrow> bool" where "IS_INFINITE_SEND_TIMEOUT to \<longleftrightarrow> snd_exp to = 0"
definition IS_INFINITE_RECV_TIMEOUT :: "dword_t \<Rightarrow> bool" where "IS_INFINITE_RECV_TIMEOUT to \<longleftrightarrow> rcv_exp to = 0"

text \<open>The product is of type \<^verbatim>\<open>int\<close> and wraps at 32 bits; it is then extended to a \<^verbatim>\<open>qword_t\<close> with its sign.\<close>

definition TIMEOUT :: "dword_t \<Rightarrow> dword_t \<Rightarrow> qword_t" where
  "TIMEOUT ex man = scast (push_bit (2 * (15 - unat ex)) 1 * man :: sdword_t)"

text \<open>The macros use the complement of the field as a truth value.\<close>

definition IS_INFINITE_RECV_PFAULT :: "dword_t \<Rightarrow> bool" where "IS_INFINITE_RECV_PFAULT to \<longleftrightarrow> NOT (rcv_pfault to) \<noteq> 0"
definition IS_INFINITE_SEND_PFAULT :: "dword_t \<Rightarrow> bool" where "IS_INFINITE_SEND_PFAULT to \<longleftrightarrow> NOT (snd_pfault to) \<noteq> 0"

text \<open>The other fields of the result are those of an uninitialised variable, an argument here.\<close>

definition set_exps :: "dword_t \<Rightarrow> dword_t \<Rightarrow> dword_t" where
  "set_exps v to = (to AND NOT (mask 8)) OR (v AND mask 4) OR push_bit 4 (v AND mask 4)"
definition set_mans :: "dword_t \<Rightarrow> dword_t \<Rightarrow> dword_t" where
  "set_mans v to = (to AND mask 16) OR push_bit 16 (v AND mask 8) OR push_bit 24 (v AND mask 8)"

definition GET_RECV_PF_TIMEOUT :: "dword_t \<Rightarrow> dword_t \<Rightarrow> dword_t" where
  "GET_RECV_PF_TIMEOUT junk to =
     (if \<not> IS_INFINITE_RECV_PFAULT to then set_exps (rcv_pfault to) (set_mans 1 junk) else set_exps 0 junk)"
definition GET_SEND_PF_TIMEOUT :: "dword_t \<Rightarrow> dword_t \<Rightarrow> dword_t" where
  "GET_SEND_PF_TIMEOUT junk to =
     (if \<not> IS_INFINITE_SEND_PFAULT to then set_exps (rcv_pfault to) (set_mans 1 junk) else set_exps 0 junk)"

definition get_current_time :: "kstate \<Rightarrow> qword_t" where
  "get_current_time s = clock s"

section \<open>Interrupts\<close>

definition MAX_INTERRUPTS :: nat where "MAX_INTERRUPTS = 32"

text \<open>A shift of the processor uses the low five bits of its count.\<close>

definition irq_bit :: "dword_t \<Rightarrow> byte_t" where
  "irq_bit irq = ucast (push_bit (unat (irq AND mask 5)) (1 :: dword_t))"

definition disable_8259A_irq :: "dword_t \<Rightarrow> kstate \<Rightarrow> kstate" where
  "disable_8259A_irq irq s =
     (if irq AND 8 \<noteq> 0 then s\<lparr>pic2_mask := pic2_mask s OR irq_bit (irq - 8)\<rparr>
      else s\<lparr>pic1_mask := pic1_mask s OR irq_bit irq\<rparr>)"

definition enable_8259A_irq :: "dword_t \<Rightarrow> kstate \<Rightarrow> kstate" where
  "enable_8259A_irq irq s =
     (if irq AND 8 \<noteq> 0 then s\<lparr>pic2_mask := pic2_mask s AND NOT (irq_bit (irq - 8))\<rparr>
      else s\<lparr>pic1_mask := pic1_mask s AND NOT (irq_bit irq)\<rparr>)"

definition mask_interrupt :: "dword_t \<Rightarrow> kstate \<Rightarrow> kstate" where
  "mask_interrupt number s = disable_8259A_irq number s"

definition unmask_interrupt :: "dword_t \<Rightarrow> kstate \<Rightarrow> kstate" where
  "unmask_interrupt number s = enable_8259A_irq number s"

text \<open>The commands that acknowledge an interrupt have no effect here.\<close>

definition mask_and_ack_8259A :: "dword_t \<Rightarrow> kstate \<Rightarrow> kstate" where
  "mask_and_ack_8259A irq s =
     (if irq AND 8 \<noteq> 0 then s\<lparr>pic2_mask := pic2_mask s OR irq_bit (irq - 8)\<rparr>
      else s\<lparr>pic1_mask := pic1_mask s OR irq_bit irq\<rparr>)"

definition mask_8259A :: "dword_t \<Rightarrow> kstate \<Rightarrow> kstate" where
  "mask_8259A irq s =
     (if irq AND 8 \<noteq> 0 then s\<lparr>pic2_mask := pic2_mask s OR irq_bit (irq - 8)\<rparr>
      else s\<lparr>pic1_mask := pic1_mask s OR irq_bit irq\<rparr>)"

text \<open>At the end of the set-up only the clock and the cascade are enabled.\<close>

definition init_irqs :: "kstate \<Rightarrow> kstate" where
  "init_irqs s =
     (let s = s\<lparr>pic1_mask := 0xff\<rparr>; s = s\<lparr>pic2_mask := 0xff\<rparr>; s = s\<lparr>pic1_mask := 0xfb\<rparr> in s\<lparr>pic2_mask := 0xfe\<rparr>)"

definition interrupts_init :: "kstate \<Rightarrow> kstate" where
  "interrupts_init s = s\<lparr>interrupt_owner := (\<lambda>i. if i < MAX_INTERRUPTS then NULL else interrupt_owner s i)\<rparr>"

definition handle_interrupt :: "dword_t \<Rightarrow> kstate \<Rightarrow> kstate kres" where
  "handle_interrupt number s =
     (if unat number \<ge> MAX_INTERRUPTS then Err Out_of_bounds
      else
        let t = interrupt_owner s (unat number);
            cur = get_current_tcb s
        in if t \<noteq> NULL then
             if IS_WAITING (tcbs s t) \<and> (partner (tcbs s t) = number + 1 \<or> l4_is_nil_id (partner (tcbs s t))) then
               let s = upd_tcb t (\<lambda>c. c\<lparr>intr_pending := (number + 1) OR IRQ_IN_SERVICE\<rparr>) s in
               if priority (tcbs s cur) \<ge> priority (tcbs s t) then
                 Ok (thread_enqueue_ready t (set_thread_state TS_LOCKED_RUNNING t s))
               else
                 let s = (if cur \<noteq> get_idle_tcb s then thread_enqueue_ready cur s else s)
                 in Ok (switch_to_thread t cur s)
             else Ok (upd_tcb t (\<lambda>c. c\<lparr>intr_pending := number + 1\<rparr>) s)
           else Ok s)"

definition irq_handler :: "dword_t \<Rightarrow> kstate \<Rightarrow> kstate kres" where
  "irq_handler fault_code s = handle_interrupt fault_code (mask_and_ack_8259A fault_code s)"

section \<open>User memory\<close>

text \<open>The page table walk of the processor with write protection in kernel mode, and accesses through it; \<open>cr3\<close> is the page
  directory in use.\<close>

definition mmu :: "ptr_t \<Rightarrow> bool \<Rightarrow> dword_t \<Rightarrow> 'a kmem_scheme \<Rightarrow> dword_t option" where
  "mmu pdir write va s =
     (let pde = mem s (phys_to_virt pdir + 4 * drop_bit 22 va);
          bad = (\<lambda>x. x AND PAGE_VALID = 0 \<or> write \<and> x AND PAGE_WRITABLE = 0)
      in if bad pde then None
         else if pde AND PAGE_SUPER \<noteq> 0 then Some ((pde AND NOT (mask 22)) OR (va AND mask 22))
         else
           let pte = mem s (phys_to_virt (pde AND NOT (mask 12)) + 4 * (drop_bit 12 va AND mask 10))
           in if bad pte then None else Some ((pte AND NOT (mask 12)) OR (va AND mask 12)))"

definition vread8 :: "dword_t \<Rightarrow> kstate \<Rightarrow> byte_t kres" where
  "vread8 va s = (case mmu (cr3 s) False va s of None \<Rightarrow> Err Page_fault | Some p \<Rightarrow> Ok (umem s p))"

definition vwrite8 :: "dword_t \<Rightarrow> byte_t \<Rightarrow> kstate \<Rightarrow> kstate kres" where
  "vwrite8 va b s = (case mmu (cr3 s) True va s of None \<Rightarrow> Err Page_fault | Some p \<Rightarrow> Ok (s\<lparr>umem := (umem s)(p := b)\<rparr>))"

definition vread16 :: "dword_t \<Rightarrow> kstate \<Rightarrow> word_t kres" where
  "vread16 va s = res_bind (vread8 va s) (\<lambda>b0. res_bind (vread8 (va + 1) s) (\<lambda>b1. Ok (ucast b0 OR push_bit 8 (ucast b1))))"

definition vwrite16 :: "dword_t \<Rightarrow> word_t \<Rightarrow> kstate \<Rightarrow> kstate kres" where
  "vwrite16 va v s = res_bind (vwrite8 va (ucast v) s) (vwrite8 (va + 1) (ucast (drop_bit 8 v)))"

definition vread :: "dword_t \<Rightarrow> kstate \<Rightarrow> dword_t kres" where
  "vread va s = res_bind (vread16 va s) (\<lambda>w0. res_bind (vread16 (va + 2) s) (\<lambda>w1. Ok (ucast w0 OR push_bit 16 (ucast w1))))"

definition vwrite :: "dword_t \<Rightarrow> dword_t \<Rightarrow> kstate \<Rightarrow> kstate kres" where
  "vwrite va v s = res_bind (vwrite16 va (ucast v) s) (vwrite16 (va + 2) (ucast (drop_bit 16 v)))"

fun ipc_copy_dwords :: "nat \<Rightarrow> dword_t \<Rightarrow> dword_t \<Rightarrow> kstate \<Rightarrow> kstate kres" where
  "ipc_copy_dwords 0 to from s = Ok s"
| "ipc_copy_dwords (Suc i) to from s =
     res_bind (vread from s) (\<lambda>v. res_bind (vwrite to v s) (\<lambda>s. ipc_copy_dwords i (to + 4) (from + 4) s))"

definition ipc_copy :: "dword_t \<Rightarrow> dword_t \<Rightarrow> dword_t \<Rightarrow> kstate \<Rightarrow> kstate kres" where
  "ipc_copy to from len s =
     (let i = len div 4 in
      res_bind (ipc_copy_dwords (unat i) to from s) (\<lambda>s.
        let to = to + 4 * i; from = from + 4 * i in
        res_bind (if len AND 2 \<noteq> 0
                  then res_bind (vread16 from s) (\<lambda>v. res_bind (vwrite16 to v s) (\<lambda>s. Ok (to + 2, from + 2, s)))
                  else Ok (to, from, s)) (\<lambda>(to, from, s).
          if len AND 1 \<noteq> 0 then res_bind (vread8 from s) (\<lambda>b. vwrite8 to b s) else Ok s)))"

section \<open>Copy areas\<close>

definition PAGEDIR_MASK :: dword_t where "PAGEDIR_MASK = NOT (mask PAGEDIR_BITS)"

text \<open>Copies the page directory entries for \<open>addr\<close> of the partner into those of a copy area.\<close>

definition map_copy_area :: "tptr \<Rightarrow> ptr_t \<Rightarrow> dword_t \<Rightarrow> kstate \<Rightarrow> kstate" where
  "map_copy_area from area addr s =
     (let pgdir_from = pagedir (space (tcbs s from));
          pgdir_to = pagedir (space (tcbs s (tid_to_tcb (partner (tcbs s from)))));
          s = set_mem (pgdir_from + 4 * pgdir_idx area) (mem s (pgdir_to + 4 * pgdir_idx addr)) s
      in set_mem (pgdir_from + 4 * (pgdir_idx area + 1)) (mem s (pgdir_to + 4 * (pgdir_idx addr + 1))) s)"

definition get_copy_area :: "tptr \<Rightarrow> tptr \<Rightarrow> dword_t \<Rightarrow> kstate \<Rightarrow> dword_t \<times> kstate" where
  "get_copy_area from to addr s =
     (let dir = addr AND PAGEDIR_MASK;
          in1 = (addr AND NOT PAGEDIR_MASK) + MEM_COPYAREA1;
          in2 = (addr AND NOT PAGEDIR_MASK) + MEM_COPYAREA2
      in if copy_area1 (tcbs s from) = COPYAREA_INVALID then
           let s = upd_tcb from (\<lambda>c. c\<lparr>copy_area1 := dir\<rparr>) s;
               s = map_copy_area from MEM_COPYAREA1 addr s
           in (in1, upd_tcb from (\<lambda>c. c\<lparr>resources := resources c OR TR_IPC_MEM1\<rparr>) s)
         else if copy_area1 (tcbs s from) = dir then (in1, s)
         else if copy_area2 (tcbs s from) = dir then (in2, s)
         else
           let s = map_copy_area from MEM_COPYAREA2 addr s;
               s = (if resources (tcbs s from) AND TR_IPC_MEM2 \<noteq> 0 then s
                    else upd_tcb from (\<lambda>c. c\<lparr>resources := resources c OR TR_IPC_MEM2\<rparr>) s)
           in (in2, upd_tcb from (\<lambda>c. c\<lparr>copy_area2 := dir\<rparr>) s))"

definition free_copy_area :: "tptr \<Rightarrow> kstate \<Rightarrow> kstate" where
  "free_copy_area t s = upd_tcb t (\<lambda>c. c\<lparr>copy_area1 := COPYAREA_INVALID, copy_area2 := COPYAREA_INVALID\<rparr>) s"

section \<open>Indirect strings\<close>

text \<open>The variables of the string loop. The dopes of the receiver are reached through the copy area.\<close>

record sx_t =
  dope_src :: dword_t
  dope_dest :: dword_t
  p_src :: dword_t
  p_dest :: dword_t
  size_src :: dword_t
  size_dest :: dword_t
  size_total :: dword_t
  num_src :: dword_t
  num_dest :: dword_t
  sx_dope :: dword_t

definition send_size_word :: "dword_t \<Rightarrow> kstate \<Rightarrow> dword_t kres" where "send_size_word d s = vread d s"
definition send_address :: "dword_t \<Rightarrow> kstate \<Rightarrow> dword_t kres" where "send_address d s = vread (d + 4) s"
definition rcv_size_word :: "dword_t \<Rightarrow> kstate \<Rightarrow> dword_t kres" where "rcv_size_word d s = vread (d + 8) s"
definition rcv_address :: "dword_t \<Rightarrow> kstate \<Rightarrow> dword_t kres" where "rcv_address d s = vread (d + 12) s"

definition put_send_size :: "dword_t \<Rightarrow> dword_t \<Rightarrow> kstate \<Rightarrow> kstate kres" where
  "put_send_size d n s = res_bind (send_size_word d s) (\<lambda>w. vwrite d (set_str_size n w) s)"

definition clear_send_continue :: "dword_t \<Rightarrow> kstate \<Rightarrow> kstate kres" where
  "clear_send_continue d s = res_bind (send_size_word d s) (\<lambda>w. vwrite d (clear_str_continue w) s)"

definition copy_rcv_address :: "dword_t \<Rightarrow> kstate \<Rightarrow> kstate kres" where
  "copy_rcv_address d s = res_bind (rcv_address d s) (\<lambda>a. vwrite (d + 4) a s)"

definition inc_strings :: "dword_t \<Rightarrow> dword_t" where
  "inc_strings d = set_dope_strings (dope_strings d + 1) d"

text \<open>Skipping the rest of a scattered receive string; the boolean is false when there is no further receive string.\<close>

partial_function (option) skip_dest :: "sx_t \<Rightarrow> kstate \<Rightarrow> (bool \<times> sx_t \<times> kstate) kres" where
  "skip_dest v s =
     res_bind (put_send_size (dope_dest v) (size_total v) s) (\<lambda>s.
     res_bind (clear_send_continue (dope_dest v) s) (\<lambda>s.
       let v = v\<lparr>dope_dest := dope_dest v + sizeof_stringdope_t, num_dest := num_dest v - 1, sx_dope := inc_strings (sx_dope v)\<rparr>
       in if num_dest v = 0 then Ok (False, v\<lparr>sx_dope := sx_dope v OR IPC_ERR_CUTMSG\<rparr>, s)
          else
            let v = v\<lparr>size_total := 0\<rparr> in
            res_bind (rcv_size_word (dope_dest v) s) (\<lambda>w.
              if str_continue w then skip_dest v s else Ok (True, v, s))))"

text \<open>One iteration after the copy, for an exhausted send string and for a full receive string. The boolean says whether the
  loop goes on.\<close>

definition src_done :: "dword_t \<Rightarrow> sx_t \<Rightarrow> kstate \<Rightarrow> (bool \<times> sx_t \<times> kstate) kres" where
  "src_done copy_size v s =
     (let v = v\<lparr>num_src := num_src v - 1\<rparr> in
      if num_src v = 0 then
        res_bind (put_send_size (dope_dest v) (size_total v) s) (\<lambda>s.
        res_bind (clear_send_continue (dope_dest v) s) (\<lambda>s.
        res_bind (copy_rcv_address (dope_dest v) s) (\<lambda>s.
          Ok (False, v\<lparr>sx_dope := inc_strings (sx_dope v)\<rparr>, s))))
      else
        let v = v\<lparr>dope_src := dope_src v + sizeof_stringdope_t\<rparr> in
        res_bind (send_size_word (dope_src v) s) (\<lambda>w.
          if str_continue w then
            res_bind (send_address (dope_src v) s) (\<lambda>a.
              Ok (True, v\<lparr>p_src := a, size_src := str_size w, p_dest := p_dest v + copy_size\<rparr>, s))
          else
            res_bind (copy_rcv_address (dope_dest v) s) (\<lambda>s.
            res_bind (skip_dest v s) (\<lambda>(go, v, s).
              if go then
                res_bind (rcv_size_word (dope_dest v) s) (\<lambda>rw.
                res_bind (rcv_address (dope_dest v) s) (\<lambda>ra.
                res_bind (send_size_word (dope_src v) s) (\<lambda>sw.
                res_bind (send_address (dope_src v) s) (\<lambda>sa.
                  Ok (True, v\<lparr>size_dest := str_size rw, p_dest := ra, size_src := str_size sw, p_src := sa\<rparr>, s)))))
              else Ok (False, v, s)))))"

definition dest_done :: "dword_t \<Rightarrow> sx_t \<Rightarrow> kstate \<Rightarrow> (bool \<times> sx_t \<times> kstate) kres" where
  "dest_done copy_size v s =
     res_bind (put_send_size (dope_dest v) (size_total v) s) (\<lambda>s.
     res_bind (copy_rcv_address (dope_dest v) s) (\<lambda>s.
       let v = v\<lparr>num_dest := num_dest v - 1, sx_dope := inc_strings (sx_dope v)\<rparr>
       in if num_dest v = 0 then Ok (False, v\<lparr>sx_dope := sx_dope v OR IPC_ERR_CUTMSG\<rparr>, s)
          else
            let v = v\<lparr>dope_dest := dope_dest v + sizeof_stringdope_t\<rparr> in
            res_bind (rcv_size_word (dope_dest v) s) (\<lambda>w.
              if str_continue w then
                res_bind (rcv_address (dope_dest v) s) (\<lambda>a.
                  Ok (True, v\<lparr>p_dest := a, size_dest := str_size w, p_src := p_src v + copy_size, size_total := 0\<rparr>, s))
              else Ok (False, v\<lparr>sx_dope := sx_dope v OR IPC_ERR_CUTMSG\<rparr>, s))))"

partial_function (option) string_loop :: "tptr \<Rightarrow> tptr \<Rightarrow> sx_t \<Rightarrow> kstate \<Rightarrow> (dword_t \<times> kstate) kres" where
  "string_loop from to v s =
     (if num_dest v = 0 then Ok (sx_dope v OR IPC_ERR_CUTMSG, s)
      else if num_src v = 0 then Ok (sx_dope v, s)
      else
        let copy_size = (if size_src v < size_dest v then size_src v else size_dest v);
            (a, s) = get_copy_area from to (p_dest v) s
        in res_bind (ipc_copy a (p_src v) copy_size s) (\<lambda>s.
             let v = v\<lparr>size_src := size_src v - copy_size, size_dest := size_dest v - copy_size, size_total := size_total v + copy_size\<rparr>
             in res_bind (if size_src v = 0 then src_done copy_size v s else dest_done copy_size v s) (\<lambda>(go, v, s).
                  if go then string_loop from to v s else Ok (sx_dope v, s))))"

definition copy_strings :: "tptr \<Rightarrow> tptr \<Rightarrow> dword_t \<Rightarrow> dword_t \<Rightarrow> dword_t \<Rightarrow> dword_t \<Rightarrow> kstate \<Rightarrow> (dword_t \<times> kstate) kres" where
  "copy_strings from to snd_msg rcv_msg n dope s =
     res_bind (vread (rcv_msg + msg_size_dope) s) (\<lambda>rd.
     res_bind (vread (snd_msg + msg_size_dope) s) (\<lambda>sd.
       let ds = snd_msg + msg_dword (dope_dwords sd);
           dd = rcv_msg + msg_dword (dope_dwords rd)
       in res_bind (send_address ds s) (\<lambda>sa.
          res_bind (rcv_address dd s) (\<lambda>ra.
          res_bind (send_size_word ds s) (\<lambda>sw.
          res_bind (rcv_size_word dd s) (\<lambda>rw.
            string_loop from to
              \<lparr>dope_src = ds, dope_dest = dd, p_src = sa, p_dest = ra, size_src = str_size sw, size_dest = str_size rw,
               size_total = 0, num_src = n, num_dest = dope_strings rd, sx_dope = dope\<rparr> s))))))"

section \<open>Message transfer\<close>

text \<open>The variables of the database for I/O ports, and sigma0's mapping node.\<close>

record ienv =
  ienv_io :: io_vars
  sigma0_mapnode :: ptr_t

text \<open>The flexpage of a message: the dope so far and the window onto the receiver's buffer, or \<open>NULL\<close>.\<close>

definition transfer_fpage :: "ienv \<Rightarrow> tptr \<Rightarrow> tptr \<Rightarrow> dword_t \<Rightarrow> kstate \<Rightarrow> (dword_t \<times> dword_t \<times> kstate) kres" where
  "transfer_fpage e from to snd_desc s =
     (if IS_MAP snd_desc \<and> \<not> same_address_space from to s then
        if \<not> IS_SHORT_IPC (msg_desc (tcbs s to)) then
          res_bind
            (if IS_MAP (msg_desc (tcbs s to)) then Ok (msg_desc (tcbs s to) AND NOT 0x3, NULL, s)
             else
               let (a, s) = get_copy_area from to (msg_desc (tcbs s to) AND NOT 0x3) s
               in res_bind (vread (a + msg_rcv_fpage) s) (\<lambda>fp. Ok (fp, a, s)))
            (\<lambda>(rcv_fpage, rcv_msg, s).
               res_bind (map_fpage (map_io_fpage (ienv_io e)) (sigma0_mapnode e) from to (ipc_buffer (tcbs s from) 0) (ipc_buffer (tcbs s from) 1) rcv_fpage s)
                 (\<lambda>(r, s). Ok (if r \<noteq> 0 then IPC_MAP_MESSAGE else IPC_ERR_CUTMSG, rcv_msg, s)))
        else Ok (IPC_ERR_CUTMSG, NULL, s)
      else Ok (0, NULL, s))"

definition set_msg_desc :: "dword_t \<Rightarrow> tptr \<Rightarrow> kstate \<Rightarrow> kstate" where
  "set_msg_desc x t s = upd_tcb t (\<lambda>c. c\<lparr>msg_desc := x\<rparr>) s"

definition end_short :: "tptr \<Rightarrow> tptr \<Rightarrow> dword_t \<Rightarrow> dword_t \<Rightarrow> kstate \<Rightarrow> kstate" where
  "end_short from to dope rcv_msg s =
     (let s = set_msg_desc dope to s in if rcv_msg \<noteq> NULL then free_copy_area from s else s)"

text \<open>The words and strings of a long message. The check for further flexpages only reads the buffer.\<close>

definition transfer_long :: "tptr \<Rightarrow> tptr \<Rightarrow> dword_t \<Rightarrow> dword_t \<Rightarrow> dword_t \<Rightarrow> dword_t \<Rightarrow> dword_t \<Rightarrow> kstate \<Rightarrow> kstate kres" where
  "transfer_long from to snd_desc rcv_msg dope num_dwords num_strings s =
     (let snd_msg = snd_desc AND NOT 0x3;
          (rcv_msg, s) = (if rcv_msg = NULL then get_copy_area from to (msg_desc (tcbs s to) AND NOT 0x3) s else (rcv_msg, s))
      in res_bind
           (if num_dwords > IPC_DWORD_GAP then
              res_bind (vread (rcv_msg + msg_size_dope) s) (\<lambda>sd.
                let (n, dope) = (if num_dwords > dope_dwords sd then (dope_dwords sd, dope OR IPC_ERR_CUTMSG) else (num_dwords, dope))
                in res_bind (ipc_copy (rcv_msg + msg_dword IPC_DWORD_GAP) (snd_msg + msg_dword IPC_DWORD_GAP) ((n - IPC_DWORD_GAP) * 4) s)
                     (\<lambda>s. Ok (n, dope, s)))
            else Ok (num_dwords, dope, s))
           (\<lambda>(n, dope, s).
              let dope = set_dope_dwords n dope in
              res_bind (if IS_MAP snd_desc then vread (snd_msg + msg_dword (IPC_DWORD_GAP + 1)) s else Ok 0) (\<lambda>_.
              res_bind (if num_strings \<noteq> 0 then copy_strings from to snd_msg rcv_msg num_strings dope s else Ok (dope, s))
                (\<lambda>(dope, s). Ok (set_msg_desc dope to (free_copy_area from s))))))"

definition extended_transfer :: "ienv \<Rightarrow> tptr \<Rightarrow> tptr \<Rightarrow> dword_t \<Rightarrow> kstate \<Rightarrow> kstate kres" where
  "extended_transfer e from to snd_desc s =
     res_bind (transfer_fpage e from to snd_desc (thread_dequeue_wakeup to s)) (\<lambda>(dope, rcv_msg, s).
       if IS_SHORT_IPC snd_desc then Ok (end_short from to dope rcv_msg s)
       else
         res_bind (vread ((snd_desc AND NOT 0x3) + msg_send_dope) s) (\<lambda>sd.
           let num_dwords = dope_dwords sd; num_strings = dope_strings sd in
           if num_dwords \<le> IPC_DWORD_GAP \<and> num_strings = 0 then Ok (end_short from to dope rcv_msg s)
           else if IS_SHORT_IPC (msg_desc (tcbs s to)) then Ok (set_msg_desc (dope OR IPC_ERR_CUTMSG) to s)
           else transfer_long from to snd_desc rcv_msg dope num_dwords num_strings s))"

definition transfer_message :: "ienv \<Rightarrow> tptr \<Rightarrow> tptr \<Rightarrow> dword_t \<Rightarrow> kstate \<Rightarrow> kstate kres" where
  "transfer_message e from to snd_desc s =
     (let b = ipc_buffer (tcbs s from);
          s = upd_tcb to (\<lambda>c. c\<lparr>ipc_buffer := (ipc_buffer c)(0 := b 0, 1 := b 1, 2 := b 2)\<rparr>) s
      in if snd_desc AND NOT 0x1 \<noteq> 0 then
           let s = upd_tcb from (\<lambda>c. c\<lparr>thread_state := TS_LOCKED_RUNNING, flags := flags c OR TF_SENDING_IPC\<rparr>) s
           in res_bind (extended_transfer e from to snd_desc s) (\<lambda>s.
                Ok (upd_tcb from (\<lambda>c. c\<lparr>thread_state := TS_RUNNING, flags := flags c AND NOT TF_SENDING_IPC\<rparr>) s))
         else Ok (set_msg_desc 0 to s))"

section \<open>The system call\<close>

text \<open>Where a thread is suspended: as a sender that waits for the receiver, after a send without a receive, after a send
  with an interrupt to receive, waiting for a message, waiting for the sender's transfer, and waiting for an interrupt or
  sleeping.\<close>

datatype ipc_point =
    P_polling l4_threadid_t dword_t dword_t
  | P_sent
  | P_irq dword_t
  | P_waiting
  | P_locked
  | P_kernel l4_threadid_t

text \<open>The result registers: only the error, or the sender, the dope and three words; or the thread is suspended.\<close>

datatype ipc_out =
    Ret_error dword_t
  | Ret_args l4_threadid_t dword_t dword_t dword_t dword_t
  | Suspended ipc_point

definition return_ipc_args :: "l4_threadid_t \<Rightarrow> dword_t \<Rightarrow> tptr \<Rightarrow> kstate \<Rightarrow> ipc_out \<times> kstate" where
  "return_ipc_args from err t s =
     (let c = tcbs s t in (Ret_args from (msg_desc c OR err) (ipc_buffer c 0) (ipc_buffer c 1) (ipc_buffer c 2), s))"

definition set_partner :: "l4_threadid_t \<Rightarrow> tptr \<Rightarrow> kstate \<Rightarrow> kstate" where
  "set_partner x t s = upd_tcb t (\<lambda>c. c\<lparr>partner := x\<rparr>) s"

definition set_absolute_timeout :: "qword_t \<Rightarrow> tptr \<Rightarrow> kstate \<Rightarrow> kstate" where
  "set_absolute_timeout x t s = upd_tcb t (\<lambda>c. c\<lparr>absolute_timeout := x\<rparr>) s"

definition set_intr_pending :: "dword_t \<Rightarrow> tptr \<Rightarrow> kstate \<Rightarrow> kstate" where
  "set_intr_pending x t s = upd_tcb t (\<lambda>c. c\<lparr>intr_pending := x\<rparr>) s"

text \<open>Receiving from an interrupt, associating with one, and sleeping. An interrupt number beyond the table is not caught.\<close>

definition irq_associate :: "tptr \<Rightarrow> l4_threadid_t \<Rightarrow> kstate \<Rightarrow> (dword_t \<times> kstate) kres" where
  "irq_associate cur dest s =
     (let s = s\<lparr>interrupt_owner := (\<lambda>i. if i < MAX_INTERRUPTS \<and> interrupt_owner s i = cur then NULL else interrupt_owner s i)\<rparr>
      in if IS_INTERRUPT_ID dest then
           if unat (INTERRUPT_ID dest) \<ge> MAX_INTERRUPTS then Err Out_of_bounds
           else if interrupt_owner s (unat (INTERRUPT_ID dest)) = NULL then
             let s = s\<lparr>interrupt_owner := (interrupt_owner s)(unat (INTERRUPT_ID dest) := cur)\<rparr>
             in Ok (IPC_ERR_RECVTIMEOUT, mask_interrupt (INTERRUPT_ID dest) s)
           else Ok (IPC_ERR_EXIST, s)
         else Ok (IPC_ERR_RECVTIMEOUT, s))"

text \<open>Up to the switch: the returned value, or \<open>None\<close> when the thread waits.\<close>

definition ipc_handle_kernel_id :: "tptr \<Rightarrow> l4_threadid_t \<Rightarrow> kstate \<Rightarrow> (dword_t option \<times> kstate) kres" where
  "ipc_handle_kernel_id cur dest s =
     (if IS_INTERRUPT_ID dest \<and> intr_pending (tcbs s cur) = INTERRUPT_ID dest + 1 then
        Ok (Some 0, set_intr_pending (IRQ_IN_SERVICE OR (INTERRUPT_ID dest + 1)) cur s)
      else
        let to = ipc_timeout (tcbs s cur);
            tm = TIMEOUT (rcv_exp to) (rcv_man to)
        in if \<not> IS_INFINITE_RECV_TIMEOUT to \<and> tm = 0 then
             res_bind (irq_associate cur dest s) (\<lambda>(r, s). Ok (Some r, s))
           else
             let s = (if \<not> IS_INFINITE_RECV_TIMEOUT to
                      then thread_enqueue_wakeup cur (set_absolute_timeout (tm + get_current_time s) cur s) else s);
                 s = (if IS_INTERRUPT_ID dest then unmask_interrupt (INTERRUPT_ID dest) s else s);
                 dest = (if l4_is_nil_id dest then L4_INVALID_ID else dest);
                 s = set_thread_state TS_WAITING cur (set_partner dest cur s)
             in Ok (None, switch_to_idle cur s))"

text \<open>After the switch.\<close>

definition kernel_id_resumed :: "tptr \<Rightarrow> kstate \<Rightarrow> dword_t \<times> kstate" where
  "kernel_id_resumed cur s =
     (if thread_state (tcbs s cur) = TS_RUNNING then (IPC_ERR_RECVTIMEOUT, s)
      else (0, set_thread_state TS_RUNNING cur (thread_dequeue_wakeup cur s)))"

text \<open>Waiting for a message that no partner has ready.\<close>

definition ipc_wait :: "tptr \<Rightarrow> tptr \<Rightarrow> tptr \<Rightarrow> dword_t \<Rightarrow> kstate \<Rightarrow> ipc_out \<times> kstate" where
  "ipc_wait cur to_tcb from_tcb rcv_desc s =
     (let to = ipc_timeout (tcbs s cur);
          tm = TIMEOUT (rcv_exp to) (rcv_man to)
      in if \<not> IS_INFINITE_RECV_TIMEOUT to \<and> tm = 0 then (Ret_error IPC_ERR_RECVTIMEOUT, s)
         else
           let s = (if \<not> IS_INFINITE_RECV_TIMEOUT to
                    then thread_enqueue_wakeup cur (set_absolute_timeout (tm + get_current_time s) cur s) else s);
               s = set_partner (if IS_OPEN_WAIT rcv_desc then L4_NIL_ID else myself (tcbs s from_tcb)) cur s;
               s = set_thread_state TS_WAITING cur s
           in (Suspended P_waiting, if to_tcb \<noteq> NULL then switch_to_thread to_tcb cur s else switch_to_idle cur s))"

text \<open>Taking over from a partner that is ready to send.\<close>

definition ipc_take :: "tptr \<Rightarrow> tptr \<Rightarrow> tptr \<Rightarrow> kstate \<Rightarrow> ipc_out \<times> kstate" where
  "ipc_take cur to_tcb from_tcb s =
     (let s = thread_enqueue_ready from_tcb (set_thread_state TS_LOCKED_RUNNING from_tcb s);
          s = snd (thread_dequeue_send cur from_tcb s);
          s = set_thread_state TS_LOCKED_WAITING cur s;
          s = thread_dequeue_wakeup from_tcb s
      in (Suspended P_locked, if to_tcb \<noteq> NULL then switch_to_thread to_tcb cur s else switch_to_thread from_tcb cur s))"

definition ipc_receive_from :: "tptr \<Rightarrow> tptr \<Rightarrow> tptr \<Rightarrow> dword_t \<Rightarrow> kstate \<Rightarrow> ipc_out \<times> kstate" where
  "ipc_receive_from cur to_tcb from_tcb rcv_desc s =
     (let s = set_msg_desc rcv_desc cur s in
      if from_tcb = NULL \<or> \<not> IS_POLLING (tcbs s from_tcb) \<or> partner (tcbs s from_tcb) \<noteq> myself (tcbs s cur)
      then ipc_wait cur to_tcb from_tcb rcv_desc s
      else ipc_take cur to_tcb from_tcb s)"

definition ipc_receive :: "tptr \<Rightarrow> tptr \<Rightarrow> l4_threadid_t \<Rightarrow> dword_t \<Rightarrow> kstate \<Rightarrow> (ipc_out \<times> kstate) kres" where
  "ipc_receive cur to_tcb dest rcv_desc s =
     (let s = (if intr_pending (tcbs s cur) AND IRQ_IN_SERVICE \<noteq> 0
               then set_intr_pending 0 cur (unmask_interrupt ((intr_pending (tcbs s cur) AND NOT IRQ_IN_SERVICE) - 1) s) else s)
      in if \<not> IS_OPEN_WAIT rcv_desc then
           if IS_KERNEL_ID dest then
             res_bind (ipc_handle_kernel_id cur dest (set_msg_desc 0 cur s)) (\<lambda>(r, s).
               case r of Some err \<Rightarrow> Ok (return_ipc_args dest err cur s) | None \<Rightarrow> Ok (Suspended (P_kernel dest), s))
           else if myself (tcbs s (tid_to_tcb dest)) \<noteq> dest then Ok (Ret_error IPC_ERR_EXIST, s)
           else Ok (ipc_receive_from cur to_tcb (tid_to_tcb dest) rcv_desc s)
         else if intr_pending (tcbs s cur) \<noteq> 0 then
           let irq = intr_pending (tcbs s cur);
               s = set_intr_pending (IRQ_IN_SERVICE OR irq) cur s
           in if to_tcb \<noteq> NULL then
                Ok (Suspended (P_irq irq), switch_to_thread to_tcb cur (thread_enqueue_ready cur (set_thread_state TS_RUNNING cur s)))
              else Ok (return_ipc_args irq 0 cur (set_msg_desc 0 cur s))
         else Ok (ipc_receive_from cur to_tcb (send_queue (tcbs s cur)) rcv_desc s))"

definition ipc_deliver :: "ienv \<Rightarrow> tptr \<Rightarrow> l4_threadid_t \<Rightarrow> dword_t \<Rightarrow> dword_t \<Rightarrow> kstate \<Rightarrow> (ipc_out \<times> kstate) kres" where
  "ipc_deliver e cur dest snd_desc rcv_desc s =
     (let to_tcb = tid_to_tcb dest in
      res_bind (transfer_message e cur to_tcb snd_desc s) (\<lambda>s.
        let s = set_partner (myself (tcbs s cur)) to_tcb s in
        if \<not> IS_RECEIVE rcv_desc then
          Ok (Suspended P_sent, switch_to_thread to_tcb cur (thread_enqueue_ready cur (set_thread_state TS_RUNNING cur s)))
        else ipc_receive cur to_tcb dest rcv_desc s))"

text \<open>Waiting for a receiver that is not ready.\<close>

definition ipc_poll :: "tptr \<Rightarrow> l4_threadid_t \<Rightarrow> dword_t \<Rightarrow> dword_t \<Rightarrow> kstate \<Rightarrow> ipc_out \<times> kstate" where
  "ipc_poll cur dest snd_desc rcv_desc s =
     (let to = ipc_timeout (tcbs s cur);
          tm = TIMEOUT (snd_exp to) (snd_man to)
      in if tid_to_tcb dest = cur then (Ret_error IPC_ERR_EXIST, s)
         else if \<not> IS_INFINITE_SEND_TIMEOUT to \<and> tm = 0 then (Ret_error IPC_ERR_SENDTIMEOUT, s)
         else
           let s = (if \<not> IS_INFINITE_SEND_TIMEOUT to
                    then thread_enqueue_wakeup cur (set_absolute_timeout (tm + get_current_time s) cur s) else s);
               s = thread_enqueue_send (tid_to_tcb dest) cur s;
               s = set_thread_state TS_POLLING cur s
           in (Suspended (P_polling dest snd_desc rcv_desc), switch_to_idle cur s))"

definition sys_ipc :: "ienv \<Rightarrow> l4_threadid_t \<Rightarrow> dword_t \<Rightarrow> dword_t \<Rightarrow> kstate \<Rightarrow> (ipc_out \<times> kstate) kres" where
  "sys_ipc e dest snd_desc rcv_desc s =
     (let cur = get_current_tcb s in
      if IS_SEND snd_desc then
        let to_tcb = tid_to_tcb dest in
        if myself (tcbs s to_tcb) = dest then
          let s = set_partner dest cur s in
          if \<not> IS_WAITING (tcbs s to_tcb) \<or>
             partner (tcbs s to_tcb) \<noteq> myself (tcbs s cur) \<and> \<not> l4_is_nil_id (partner (tcbs s to_tcb))
          then Ok (ipc_poll cur dest snd_desc rcv_desc s)
          else ipc_deliver e cur dest snd_desc rcv_desc s
        else Ok (Ret_error IPC_ERR_EXIST, s)
      else ipc_receive cur NULL dest rcv_desc s)"

text \<open>Continuing after the switch; the thread is current again.\<close>

definition ipc_resume :: "ienv \<Rightarrow> ipc_point \<Rightarrow> kstate \<Rightarrow> (ipc_out \<times> kstate) kres" where
  "ipc_resume e k s =
     (let cur = get_current_tcb s;
          s = switch_resume cur s;
          running = (thread_state (tcbs s cur) = TS_RUNNING);
          finish = (\<lambda>s. let s = set_thread_state TS_RUNNING cur s in Ok (return_ipc_args (partner (tcbs s cur)) 0 cur s))
      in case k of
           P_polling dest snd_desc rcv_desc \<Rightarrow>
             if running then Ok (Ret_error IPC_ERR_SENDTIMEOUT, s)
             else ipc_deliver e cur dest snd_desc rcv_desc (thread_dequeue_wakeup cur s)
         | P_sent \<Rightarrow> Ok (Ret_error 0, s)
         | P_irq irq \<Rightarrow> Ok (return_ipc_args irq 0 cur (set_msg_desc 0 cur s))
         | P_waiting \<Rightarrow>
             if running then Ok (Ret_error IPC_ERR_RECVTIMEOUT, s) else finish (thread_dequeue_wakeup cur s)
         | P_locked \<Rightarrow> finish s
         | P_kernel dest \<Rightarrow>
             let (err, s) = kernel_id_resumed cur s in Ok (return_ipc_args dest err cur s))"

end
