(* ===== verification/Ipc_Ops.thy ===== *)
theory Ipc_Ops
  imports Ipc Ex_Regs
begin

text \<open>
  What the steps of an IPC keep: fields of blocks, the scheduling queues and the send queues.
\<close>

section \<open>Fields\<close>

lemma keeps_proj: "keeps b s s' \<Longrightarrow> (\<And>c. f (b c) = f c) \<Longrightarrow> f (tcbs s' x) = f (tcbs s x)"
  unfolding keeps_def by metis

lemmas but_defs = but_ready_def but_wakeup_def but_send_def but_present_def

text \<open>The fields of a block that hold a message and the state of an IPC.\<close>

definition message :: "tcb_t \<Rightarrow> (nat \<Rightarrow> dword_t) \<times> dword_t \<times> dword_t \<times> l4_threadid_t \<times> l4_threadid_t \<times> dword_t \<times> dword_t" where
  "message c = (ipc_buffer c, ipc_timeout c, msg_desc c, myself c, partner c, intr_pending c, thread_state c)"

lemma message_eqD:
  assumes "message c = message d"
  shows "ipc_buffer c = ipc_buffer d" "ipc_timeout c = ipc_timeout d" "msg_desc c = msg_desc d" "myself c = myself d"
    "partner c = partner d" "intr_pending c = intr_pending d" "thread_state c = thread_state d"
  using assms by (simp_all add: message_def)

lemma queue_op_message:
  "message (tcbs (thread_enqueue_ready t s) x) = message (tcbs s x)"
  "message (tcbs (thread_enqueue_wakeup t s) x) = message (tcbs s x)"
  "message (tcbs (thread_dequeue_wakeup t s) x) = message (tcbs s x)"
  "message (tcbs (thread_enqueue_send d t s) x) = message (tcbs s x)"
  "message (tcbs (snd (thread_dequeue_send d t s)) x) = message (tcbs s x)"
  by (rule keeps_proj [OF enqueue_ready_keeps] keeps_proj [OF enqueue_wakeup_keeps] keeps_proj [OF dequeue_wakeup_keeps]
      keeps_proj [OF enqueue_send_keeps] keeps_proj [OF dequeue_send_keeps], simp add: message_def but_defs)+

lemma switch_message:
  "message (tcbs (switch_to_thread t c s) x) = message (tcbs s x)" "message (tcbs (switch_to_idle c s) x) = message (tcbs s x)"
  by (rule switch_to_thread_tcb switch_to_idle_tcb; simp add: message_def)+

lemma resume_tcbs [simp]: "tcbs (switch_resume t s) = tcbs s" "current (switch_resume t s) = current s" "idle_tcb (switch_resume t s) = idle_tcb s"
    "prio_queue (switch_resume t s) = prio_queue s" "current_max_prio (switch_resume t s) = current_max_prio s" "mem (switch_resume t s) = mem s"
    "clock (switch_resume t s) = clock s"
  by (simp_all add: switch_resume_def load_resources_def load_debug_regs_def Let_def)

lemmas ipc_same = queue_op_message [THEN message_eqD(1)] queue_op_message [THEN message_eqD(2)] queue_op_message [THEN message_eqD(3)]
  queue_op_message [THEN message_eqD(4)] queue_op_message [THEN message_eqD(5)] queue_op_message [THEN message_eqD(6)]
  queue_op_message [THEN message_eqD(7)] switch_message [THEN message_eqD(1)] switch_message [THEN message_eqD(2)]
  switch_message [THEN message_eqD(3)] switch_message [THEN message_eqD(4)] switch_message [THEN message_eqD(5)]
  switch_message [THEN message_eqD(6)] switch_message [THEN message_eqD(7)]

lemmas set_defs = set_thread_state_def set_partner_def set_msg_desc_def set_intr_pending_def set_absolute_timeout_def

section \<open>Queues\<close>

text \<open>The scheduling invariant without the lists, with the idle thread's block apart from those of the threads.\<close>

definition sched_ok :: "kstate \<Rightarrow> bool" where
  "sched_ok s \<longleftrightarrow> (\<exists>Q. ready_inv s Q) \<and> (\<exists>ws. wakeup_inv s ws) \<and> idle_apart s"

lemma sched_ok_cong:
  assumes "sched_ok s" "\<And>x. queue_state (tcbs s' x) = queue_state (tcbs s x)" "\<And>x. priority (tcbs s' x) = priority (tcbs s x)"
    and "\<And>x. rnext s' x = rnext s x" "\<And>x. rprev s' x = rprev s x" "\<And>x. wnext s' x = wnext s x" "\<And>x. wprev s' x = wprev s x"
    and "prio_queue s' = prio_queue s" "current_max_prio s' = current_max_prio s" "idle_tcb s' = idle_tcb s"
  shows "sched_ok s'"
proof -
  obtain Q ws where q: "ready_inv s Q" "wakeup_inv s ws" using assms(1) by (auto simp: sched_ok_def)
  have "ready_inv s' Q" by (rule ready_inv_cong [OF q(1)]) (simp_all add: assms in_queue_def)
  moreover have "wakeup_inv s' ws" by (rule wakeup_inv_cong [OF q(2)]) (simp_all add: assms in_queue_def)
  ultimately show ?thesis using assms(1,10) by (auto simp: sched_ok_def idle_apart_def)
qed

lemma sched_ok_upd:
  assumes "sched_ok s" "\<And>c. queue_state (f c) = queue_state c" "\<And>c. priority (f c) = priority c" "\<And>c. ready_next (f c) = ready_next c"
    "\<And>c. ready_prev (f c) = ready_prev c" "\<And>c. wakeup_next (f c) = wakeup_next c" "\<And>c. wakeup_prev (f c) = wakeup_prev c"
  shows "sched_ok (upd_tcb t f s)"
  by (rule sched_ok_cong [OF assms(1)]) (simp_all add: assms)

lemma sched_ok_set:
  "sched_ok s \<Longrightarrow> sched_ok (set_thread_state x t s)" "sched_ok s \<Longrightarrow> sched_ok (set_partner x t s)" "sched_ok s \<Longrightarrow> sched_ok (set_msg_desc x t s)"
  "sched_ok s \<Longrightarrow> sched_ok (set_intr_pending x t s)" "sched_ok s \<Longrightarrow> sched_ok (set_absolute_timeout q t s)"
  unfolding set_defs by (erule sched_ok_upd; simp)+

lemma sched_ok_queue_ops:
  assumes "sched_ok s" "t \<noteq> NULL" "t \<noteq> idle_tcb s"
  shows "sched_ok (thread_enqueue_ready t s)" "sched_ok (thread_dequeue_wakeup t s)" "sched_ok (thread_enqueue_wakeup t s)"
proof -
  obtain Q ws where q: "ready_inv s Q" "wakeup_inv s ws" and i: "idle_apart s" using assms(1) by (auto simp: sched_ok_def)
  show "sched_ok (thread_enqueue_ready t s)"
    using enqueue_ready_inv [OF q(1) assms(2,3)] wakeup_inv_ready_ops(1) [OF q(2)] i keeps_idle [OF enqueue_ready_keeps]
    unfolding sched_ok_def idle_apart_def by metis
  show "sched_ok (thread_dequeue_wakeup t s)"
    using wakeup_op_ready_inv [OF dequeue_wakeup_keeps wakeup_keeps_prio_queue(2,4) q(1)] dequeue_wakeup_inv [OF q(2) assms(3)] i
      keeps_idle [OF dequeue_wakeup_keeps]
    unfolding sched_ok_def idle_apart_def by metis
  show "sched_ok (thread_enqueue_wakeup t s)"
    using wakeup_op_ready_inv [OF enqueue_wakeup_keeps wakeup_keeps_prio_queue(1,3) q(1)] enqueue_wakeup_inv [OF q(2) assms(3,2)] i
      keeps_idle [OF enqueue_wakeup_keeps]
    unfolding sched_ok_def idle_apart_def by metis
qed

lemma sched_ok_send_ops:
  "sched_ok s \<Longrightarrow> sched_ok (thread_enqueue_send d t s)" "sched_ok s \<Longrightarrow> sched_ok (snd (thread_dequeue_send d t s))"
  by (erule sched_ok_cong; simp add: enqueue_same enqueue_sel dequeue_send_same keeps_idle [OF dequeue_send_keeps])+

lemma sched_ok_switch:
  "sched_ok s \<Longrightarrow> sched_ok (switch_to_thread t c s)" "sched_ok s \<Longrightarrow> sched_ok (switch_to_idle c s)" "sched_ok s \<Longrightarrow> sched_ok (switch_resume t s)"
  by (erule sched_ok_cong; simp add: switch_to_thread_tcb [of queue_state] switch_to_thread_tcb [of priority] switch_to_thread_tcb [of ready_next]
      switch_to_thread_tcb [of ready_prev] switch_to_thread_tcb [of wakeup_next] switch_to_thread_tcb [of wakeup_prev]
      switch_to_idle_tcb [of queue_state] switch_to_idle_tcb [of priority] switch_to_idle_tcb [of ready_next]
      switch_to_idle_tcb [of ready_prev] switch_to_idle_tcb [of wakeup_next] switch_to_idle_tcb [of wakeup_prev])+

end
