(* ===== verification/Ipc_Rendezvous.thy ===== *)
theory Ipc_Rendezvous
  imports Ipc_Ops
begin

text \<open>
  The rendezvous of a sender and a receiver, whichever comes first: each thread runs its part of \<^verbatim>\<open>sys_ipc\<close> up to the
  switch to the other one, and the message arrives.
\<close>

section \<open>Parts of the call\<close>

text \<open>The receiver's block after a short message.\<close>

definition deliver_short :: "tptr \<Rightarrow> tptr \<Rightarrow> kstate \<Rightarrow> kstate" where
  "deliver_short cur to s =
     (let b = ipc_buffer (tcbs s cur) in
      set_partner (myself (tcbs s cur)) to
        (set_msg_desc 0 to (upd_tcb to (\<lambda>c. c\<lparr>ipc_buffer := (ipc_buffer c)(0 := b 0, 1 := b 1, 2 := b 2)\<rparr>) s)))"

definition handed_over :: "tptr \<Rightarrow> tptr \<Rightarrow> kstate \<Rightarrow> kstate" where
  "handed_over cur to s = switch_to_thread to cur (thread_enqueue_ready cur (set_thread_state TS_RUNNING cur (deliver_short cur to s)))"

lemma deliver_short_send:
  assumes "snd_desc AND NOT 0x1 = 0" "cur \<noteq> tid_to_tcb dest"
  shows "ipc_deliver e cur dest snd_desc (NOT 0) s = Ok (Suspended P_sent, handed_over cur (tid_to_tcb dest) s)"
  using assms by (simp add: ipc_deliver_def transfer_message_def Let_def IS_RECEIVE_def handed_over_def deliver_short_def set_msg_desc_def)

lemma resume_waiting:
  assumes "thread_state (tcbs s (current s)) \<noteq> TS_RUNNING"
  shows "ipc_resume e P_waiting s =
    (let t = current s; c = tcbs s t in
     Ok (Ret_args (partner c) (msg_desc c) (ipc_buffer c 0) (ipc_buffer c 1) (ipc_buffer c 2),
       set_thread_state TS_RUNNING t (thread_dequeue_wakeup t (switch_resume t s))))"
  using assms by (simp add: ipc_resume_def Let_def get_current_tcb_def return_ipc_args_def set_thread_state_def ipc_same)

lemma resume_locked:
  "ipc_resume e P_locked s =
    (let t = current s; c = tcbs s t in
     Ok (Ret_args (partner c) (msg_desc c) (ipc_buffer c 0) (ipc_buffer c 1) (ipc_buffer c 2), set_thread_state TS_RUNNING t (switch_resume t s)))"
  by (simp add: ipc_resume_def Let_def get_current_tcb_def return_ipc_args_def set_thread_state_def)

lemma resume_polling:
  assumes "thread_state (tcbs s (current s)) \<noteq> TS_RUNNING"
  shows "ipc_resume e (P_polling dest snd_desc rcv_desc) s =
    ipc_deliver e (current s) dest snd_desc rcv_desc (thread_dequeue_wakeup (current s) (switch_resume (current s) s))"
  using assms by (simp add: ipc_resume_def Let_def get_current_tcb_def)

lemma queue_bits_same [simp]:
  "in_queue b (set_thread_state v t s) x = in_queue b s x" "in_queue b (set_partner v t s) x = in_queue b s x"
  "in_queue b (set_msg_desc v t s) x = in_queue b s x" "in_queue b (set_intr_pending v t s) x = in_queue b s x"
  "in_queue b (switch_resume t s) x = in_queue b s x" "in_queue b (switch_to_thread t c s) x = in_queue b s x"
  "in_queue b (switch_to_idle c s) x = in_queue b s x" "in_queue b (deliver_short c t s) x = in_queue b s x"
  by (simp_all add: in_queue_def set_defs deliver_short_def Let_def switch_to_thread_tcb [of queue_state] switch_to_idle_tcb [of queue_state])

lemma ready_other_bits [simp]: "in_queue TS_QUEUE_WAKEUP (thread_enqueue_ready t s) x = in_queue TS_QUEUE_WAKEUP s x"
  using but_ready_bits [OF keeps_tcb [OF enqueue_ready_keeps], of 2 t s x] by (simp add: in_queue_simps)

text \<open>The state after the hand-over.\<close>

lemma handed_over_spec:
  assumes ne: "cur \<noteq> to" and s: "sched_ok s" "cur \<noteq> NULL" "cur \<noteq> idle_tcb s"
  defines "s' \<equiv> handed_over cur to s"
  shows "sched_ok s'" "current s' = to" "idle_tcb s' = idle_tcb s"
    "in_ready s' x \<longleftrightarrow> x = cur \<or> in_ready s x" "in_queue TS_QUEUE_WAKEUP s' x = in_queue TS_QUEUE_WAKEUP s x"
    "thread_state (tcbs s' x) = (if x = cur then TS_RUNNING else thread_state (tcbs s x))"
    "partner (tcbs s' to) = myself (tcbs s cur)" "msg_desc (tcbs s' to) = 0"
    "i < 3 \<Longrightarrow> ipc_buffer (tcbs s' to) i = ipc_buffer (tcbs s cur) i" "myself (tcbs s' x) = myself (tcbs s x)"
    "x \<noteq> to \<Longrightarrow> ipc_buffer (tcbs s' x) = ipc_buffer (tcbs s x)"
proof -
  define s1 where "s1 = set_thread_state TS_RUNNING cur (deliver_short cur to s)"
  have s': "s' = switch_to_thread to cur (thread_enqueue_ready cur s1)" by (simp add: s'_def handed_over_def s1_def)
  have i: "idle_tcb s1 = idle_tcb s" by (simp add: s1_def set_defs deliver_short_def Let_def)
  have "sched_ok s1" unfolding s1_def deliver_short_def Let_def by (intro sched_ok_set sched_ok_upd s) simp_all
  then show "sched_ok s'" unfolding s' using s i by (intro sched_ok_switch sched_ok_queue_ops) auto
  show "current s' = to" by (simp add: s')
  show "idle_tcb s' = idle_tcb s" by (simp add: s' i keeps_idle [OF enqueue_ready_keeps])
  show "in_ready s' x \<longleftrightarrow> x = cur \<or> in_ready s x" by (simp add: s' enqueue_ready_bit s1_def)
  show "in_queue TS_QUEUE_WAKEUP s' x = in_queue TS_QUEUE_WAKEUP s x" by (simp add: s' s1_def)
  show "thread_state (tcbs s' x) = (if x = cur then TS_RUNNING else thread_state (tcbs s x))" "partner (tcbs s' to) = myself (tcbs s cur)"
    "msg_desc (tcbs s' to) = 0" "i < 3 \<Longrightarrow> ipc_buffer (tcbs s' to) i = ipc_buffer (tcbs s cur) i" "myself (tcbs s' x) = myself (tcbs s x)"
    "x \<noteq> to \<Longrightarrow> ipc_buffer (tcbs s' x) = ipc_buffer (tcbs s x)"
    using ne by (auto simp: s' ipc_same s1_def set_defs deliver_short_def Let_def numeral_3_eq_3 less_Suc_eq)
qed

lemma resumed_ok:
  assumes "sched_ok s" "t \<noteq> NULL" "t \<noteq> idle_tcb s"
  shows "sched_ok (set_thread_state v t (thread_dequeue_wakeup t (switch_resume t s)))"
    and "sched_ok (set_thread_state v t (switch_resume t s))"
  using assms by (auto intro!: sched_ok_set sched_ok_queue_ops sched_ok_switch)

lemma dequeue_wakeup_bits [simp]:
  "in_ready (thread_dequeue_wakeup t s) x = in_ready s x"
  "in_queue TS_QUEUE_WAKEUP (thread_dequeue_wakeup t s) x \<longleftrightarrow> x \<noteq> t \<and> in_queue TS_QUEUE_WAKEUP s x"
  by (simp_all add: ready_bit_wakeup wakeup_queue.member_dequeue)

section \<open>Receiving a message that is ready\<close>

text \<open>The state in which the polling sender runs.\<close>

definition taken :: "tptr \<Rightarrow> tptr \<Rightarrow> dword_t \<Rightarrow> kstate \<Rightarrow> kstate" where
  "taken cur x rcv_desc s =
     switch_to_thread x cur (thread_dequeue_wakeup x (set_thread_state TS_LOCKED_WAITING cur
       (snd (thread_dequeue_send cur x (thread_enqueue_ready x (set_thread_state TS_LOCKED_RUNNING x (set_msg_desc rcv_desc cur s)))))))"

lemma receive_takes:
  assumes "x \<noteq> NULL" "cur \<noteq> x" "thread_state (tcbs s x) = TS_POLLING" "partner (tcbs s x) = myself (tcbs s cur)"
  shows "ipc_receive_from cur NULL x rcv_desc s = (Suspended P_locked, taken cur x rcv_desc s)"
  using assms by (simp add: ipc_receive_from_def ipc_take_def Let_def taken_def IS_POLLING_def set_msg_desc_def)

lemma taken_spec:
  fixes rcv_desc :: dword_t
  assumes ne: "cur \<noteq> x" and s: "sched_ok s" "x \<noteq> NULL" "x \<noteq> idle_tcb s" and q: "send_list s cur xs" "x \<in> set xs"
  defines "s' \<equiv> taken cur x rcv_desc s"
  shows "sched_ok s'" "current s' = x" "idle_tcb s' = idle_tcb s" "in_ready s' y \<longleftrightarrow> y = x \<or> in_ready s y"
    "in_queue TS_QUEUE_WAKEUP s' y \<longleftrightarrow> y \<noteq> x \<and> in_queue TS_QUEUE_WAKEUP s y"
    "thread_state (tcbs s' y) = (if y = cur then TS_LOCKED_WAITING else if y = x then TS_LOCKED_RUNNING else thread_state (tcbs s y))"
    "myself (tcbs s' y) = myself (tcbs s y)" "ipc_buffer (tcbs s' y) = ipc_buffer (tcbs s y)" "send_list s' cur (remove1 x xs)"
proof -
  define s1 where "s1 = thread_enqueue_ready x (set_thread_state TS_LOCKED_RUNNING x (set_msg_desc rcv_desc cur s))"
  define s2 where "s2 = set_thread_state TS_LOCKED_WAITING cur (snd (thread_dequeue_send cur x s1))"
  have s': "s' = switch_to_thread x cur (thread_dequeue_wakeup x s2)" by (simp add: s'_def taken_def s1_def s2_def)
  have i: "idle_tcb s1 = idle_tcb s" "idle_tcb s2 = idle_tcb s"
    by (simp_all add: s1_def s2_def set_defs keeps_idle [OF enqueue_ready_keeps] keeps_idle [OF dequeue_send_keeps])
  have "sched_ok s1" unfolding s1_def using s by (intro sched_ok_queue_ops sched_ok_set) (auto simp: set_defs)
  then have "sched_ok s2" unfolding s2_def by (intro sched_ok_set sched_ok_send_ops)
  then show "sched_ok s'" unfolding s' using s i by (intro sched_ok_switch sched_ok_queue_ops) auto
  show "current s' = x" by (simp add: s')
  show "idle_tcb s' = idle_tcb s" by (simp add: s' i keeps_idle [OF dequeue_wakeup_keeps])
  show "in_ready s' y \<longleftrightarrow> y = x \<or> in_ready s y" "in_queue TS_QUEUE_WAKEUP s' y \<longleftrightarrow> y \<noteq> x \<and> in_queue TS_QUEUE_WAKEUP s y"
    by (simp_all add: s' s2_def s1_def bits_same enqueue_ready_bit)
  show "thread_state (tcbs s' y) = (if y = cur then TS_LOCKED_WAITING else if y = x then TS_LOCKED_RUNNING else thread_state (tcbs s y))"
    "myself (tcbs s' y) = myself (tcbs s y)" "ipc_buffer (tcbs s' y) = ipc_buffer (tcbs s y)"
    using ne by (simp_all add: s' ipc_same s2_def s1_def set_defs)
  have "send_list s1 cur xs"
    by (rule send_list_cong [THEN iffD2, OF _ _ q(1)])
      (simp_all add: s1_def set_defs but_ready_eqD [OF keeps_tcb [OF enqueue_ready_keeps]])
  from dequeue_send_list(1) [OF this q(2)]
  have "send_list (snd (thread_dequeue_send cur x s1)) cur (remove1 x xs)" .
  then show "send_list s' cur (remove1 x xs)"
    by (rule send_list_cong [THEN iffD2, rotated 2])
      (simp_all add: s' switch_to_thread_tcb [of send_queue] switch_to_thread_tcb [of send_next] switch_to_thread_tcb [of send_prev]
        send_fields_wakeup s2_def set_thread_state_def)
qed

lemma handed_over_send_list:
  assumes "send_list s d xs"
  shows "send_list (handed_over cur to s) d xs"
  by (rule send_list_cong [THEN iffD2, OF _ _ assms])
    (simp_all add: handed_over_def switch_to_thread_tcb [of send_queue] switch_to_thread_tcb [of send_next] switch_to_thread_tcb [of send_prev]
      but_ready_eqD [OF keeps_tcb [OF enqueue_ready_keeps]] set_defs deliver_short_def Let_def)

section \<open>Properties\<close>

text \<open>\<^bold>\<open>C1.\<close> A short send to a thread that waits for it, or for anyone, is delivered at once: the call hands the processor
  to the receiver, whose own call then returns the sender's identifier, no error and the three words; both threads
  run, the sender is in the ready queue, the receiver has left the wakeup queue, and no other thread is affected.\<close>

theorem ipc_send_to_waiting:
  assumes "cur = current s" and "to = tid_to_tcb dest" and "cur \<noteq> to" and "myself (tcbs s to) = dest"
    and "IS_WAITING (tcbs s to)" and "partner (tcbs s to) \<in> {myself (tcbs s cur), L4_NIL_ID}" and "snd_desc AND NOT 0x1 = 0"
    and "sched_ok s" and "cur \<noteq> NULL" and "cur \<noteq> idle_tcb s"
  shows "\<exists>s1 s2. sys_ipc e dest snd_desc (NOT 0) s = Ok (Suspended P_sent, s1) \<and> current s1 = to \<and>
    ipc_resume e P_waiting s1 =
      Ok (Ret_args (myself (tcbs s cur)) 0 (ipc_buffer (tcbs s cur) 0) (ipc_buffer (tcbs s cur) 1) (ipc_buffer (tcbs s cur) 2), s2) \<and>
    sched_ok s2 \<and> in_ready s2 cur \<and> \<not> in_queue TS_QUEUE_WAKEUP s2 to \<and>
    (\<forall>x. thread_state (tcbs s2 x) = (if x \<in> {cur, to} then TS_RUNNING else thread_state (tcbs s x))) \<and>
    (\<forall>x. x \<noteq> cur \<longrightarrow> in_ready s2 x = in_ready s x)"
proof -
  define s0 where "s0 = set_partner dest cur s"
  have f0: "IS_WAITING (tcbs s0 to)" "partner (tcbs s0 to) = partner (tcbs s to)" "tcbs s0 cur = (tcbs s cur)\<lparr>partner := dest\<rparr>"
    "x \<noteq> cur \<Longrightarrow> tcbs s0 x = tcbs s x" "in_queue b s0 y = in_queue b s y" "idle_tcb s0 = idle_tcb s" for x y b
    using assms(3,5) by (simp_all add: s0_def set_defs in_queue_def)
  have ok0: "sched_ok s0" unfolding s0_def by (rule sched_ok_set(2) [OF assms(8)])
  define s1 where "s1 = handed_over cur to s0"
  have "IS_SEND snd_desc" using assms(7) by (auto simp: IS_SEND_def)
  moreover have "\<not> (\<not> IS_WAITING (tcbs s0 to) \<or> partner (tcbs s0 to) \<noteq> myself (tcbs s0 cur) \<and> \<not> l4_is_nil_id (partner (tcbs s0 to)))"
    using f0(1-3) assms(6) by (auto simp: l4_is_nil_id_def)
  ultimately have "sys_ipc e dest snd_desc (NOT 0) s = ipc_deliver e cur dest snd_desc (NOT 0) s0"
    unfolding sys_ipc_def Let_def get_current_tcb_def assms(1) [symmetric] assms(2) [symmetric] s0_def [symmetric] assms(4)
    by (simp only: if_True if_False simp_thms)
  then have run: "sys_ipc e dest snd_desc (NOT 0) s = Ok (Suspended P_sent, s1)"
    using deliver_short_send [OF assms(7), of cur dest e s0] assms(2,3) by (simp add: s1_def)
  note h = handed_over_spec [OF assms(3) ok0 assms(9), folded s1_def, unfolded f0(6), OF assms(10)]
  define s2 where "s2 = set_thread_state TS_RUNNING to (thread_dequeue_wakeup to (switch_resume to s1))"
  have st: "thread_state (tcbs s1 to) = TS_WAITING"
    using f0(1) assms(3) unfolding IS_WAITING_def h(6) by (simp add: TS_WAITING_def) (metis bit.double_compl bit.compl_zero)
  have res: "ipc_resume e P_waiting s1 =
      Ok (Ret_args (myself (tcbs s cur)) 0 (ipc_buffer (tcbs s cur) 0) (ipc_buffer (tcbs s cur) 1) (ipc_buffer (tcbs s cur) 2), s2)"
    using resume_waiting [of s1 e] st h(2,7-9) by (simp add: Let_def s2_def f0(3))
  have to: "to \<noteq> NULL" "to \<noteq> idle_tcb s1" using assms(2,8) tid_to_tcb_not_NULL idle_apartD h(3) by (auto simp: sched_ok_def)
  have ok2: "sched_ok s2" unfolding s2_def by (rule resumed_ok(1) [OF h(1) to])
  have bits: "in_ready s2 x \<longleftrightarrow> x = cur \<or> in_ready s x" "\<not> in_queue TS_QUEUE_WAKEUP s2 to" for x
    by (simp_all add: s2_def h(4) f0(5))
  have "thread_state (tcbs s2 x) = (if x \<in> {cur, to} then TS_RUNNING else thread_state (tcbs s x))" for x
    by (simp add: s2_def set_thread_state_def ipc_same h(6) f0(4))
  then show ?thesis using run res ok2 bits h(2) by blast
qed

text \<open>A running thread and one that waits for a message from anyone.\<close>

definition demo_ienv :: ienv where
  "demo_ienv = \<lparr>ienv_io = demo_io, sigma0_mapnode = NULL\<rparr>"

definition demo_pair :: kstate where
  "demo_pair = upd_tcb 0xE0020000 (\<lambda>c. c\<lparr>myself := 0x20000, thread_state := TS_RUNNING, ipc_buffer := (\<lambda>i. of_nat i + 7)\<rparr>)
     (upd_tcb 0xE0030000 (\<lambda>c. c\<lparr>myself := 0x30000, thread_state := TS_WAITING\<rparr>) ((boot_state 0xF0110000)\<lparr>current := 0xE0020000\<rparr>))"

lemma boot_sched_ok: "sched_ok ((boot_state 0xF0110000)\<lparr>current := c\<rparr>)"
proof -
  have "sched_ok (boot_state 0xF0110000)"
    using boot_ready_inv [of "0xF0110000"] boot_sentinels(1) [of "0xF0110000"]
    by (auto simp: sched_ok_def idle_apart_def boot_facts TCB_AREA_def mask_eq_exp_minus_1)
  then show ?thesis by (rule sched_ok_cong) simp_all
qed

theorem ipc_send_to_waiting_witness:
  "\<exists>s1 s2. sys_ipc demo_ienv 0x30000 0 (NOT 0) demo_pair = Ok (Suspended P_sent, s1) \<and>
     ipc_resume demo_ienv P_waiting s1 = Ok (Ret_args 0x20000 0 7 8 9, s2) \<and> in_ready s2 0xE0020000"
proof -
  have ok: "sched_ok demo_pair" unfolding demo_pair_def by (intro sched_ok_upd boot_sched_ok) simp_all
  have f: "current demo_pair = 0xE0020000" "idle_tcb demo_pair = 0xF0110000" "myself (tcbs demo_pair 0xE0020000) = 0x20000"
    "myself (tcbs demo_pair 0xE0030000) = 0x30000" "IS_WAITING (tcbs demo_pair 0xE0030000)" "partner (tcbs demo_pair 0xE0030000) = L4_NIL_ID"
    "ipc_buffer (tcbs demo_pair 0xE0020000) = (\<lambda>i. of_nat i + 7)"
    by (simp_all add: demo_pair_def boot_state_def zero_tcb_def IS_WAITING_def TS_WAITING_def L4_NIL_ID_def)
  from ipc_send_to_waiting [OF refl refl, of demo_pair "0x30000" 0 demo_ienv] show ?thesis
    by (simp add: f demo_tids ok) blast
qed

text \<open>\<^bold>\<open>C2.\<close> A receiver that calls, for this sender or for anyone, when a sender polls for it with a short message and no receive
  phase takes the sender from its send queue: its call hands the processor to the sender, whose suspended call delivers the
  message and hands back, and the receiver's call returns the sender's identifier, no error and the three words. Then both
  threads run and no other thread's state has changed; of all threads exactly the sender was taken out of the wakeup
  queue and exactly the sender was added to the ready queues, so that a receiver that was in no wakeup queue when it
  called is in none when it returns.\<close>

theorem ipc_receive_from_polling:
  assumes "cur = current s" and "tid_to_tcb (myself (tcbs s cur)) = cur" and "cur \<noteq> x" and "send_list s cur xs" and "x \<in> set xs"
    and "thread_state (tcbs s x) = TS_POLLING" and "partner (tcbs s x) = myself (tcbs s cur)" and "intr_pending (tcbs s cur) = 0"
    and "if IS_OPEN_WAIT rcv_desc then x = hd xs
         else dest = myself (tcbs s x) \<and> x = tid_to_tcb dest \<and> \<not> IS_KERNEL_ID dest"
    and "snd_desc AND NOT 0x1 = 0" and "sched_ok s" and "x \<noteq> idle_tcb s" and "cur \<noteq> idle_tcb s"
  shows "\<exists>s1 s2 s3. sys_ipc e dest (NOT 0) rcv_desc s = Ok (Suspended P_locked, s1) \<and> current s1 = x \<and>
    ipc_resume e (P_polling (myself (tcbs s cur)) snd_desc (NOT 0)) s1 = Ok (Suspended P_sent, s2) \<and> current s2 = cur \<and>
    ipc_resume e P_locked s2 =
      Ok (Ret_args (myself (tcbs s x)) 0 (ipc_buffer (tcbs s x) 0) (ipc_buffer (tcbs s x) 1) (ipc_buffer (tcbs s x) 2), s3) \<and>
    current s3 = cur \<and> sched_ok s3 \<and> send_list s3 cur (remove1 x xs) \<and>
    (\<forall>y. in_ready s3 y \<longleftrightarrow> y = x \<or> in_ready s y) \<and>
    (\<forall>y. in_queue TS_QUEUE_WAKEUP s3 y \<longleftrightarrow> y \<noteq> x \<and> in_queue TS_QUEUE_WAKEUP s y) \<and>
    (\<forall>y. thread_state (tcbs s3 y) = (if y \<in> {cur, x} then TS_RUNNING else thread_state (tcbs s y)))"
proof -
  have x: "x \<noteq> NULL" "send_queue (tcbs s cur) = hd xs"
    using assms(4,5) by (auto simp: send_list_def split: if_splits)
  define s1 where "s1 = taken cur x rcv_desc s"
  have "sys_ipc e dest (NOT 0) rcv_desc s = ipc_receive cur NULL dest rcv_desc s"
    by (simp add: sys_ipc_def IS_SEND_def get_current_tcb_def assms(1))
  also have "\<dots> = Ok (ipc_receive_from cur NULL x rcv_desc s)"
  proof (cases "IS_OPEN_WAIT rcv_desc")
    case True
    then have "x = hd xs" using assms(9) by simp
    then show ?thesis using assms(8) x(2) True by (simp add: ipc_receive_def)
  next
    case False
    note d = assms(9) [unfolded if_not_P [OF False]]
    have "myself (tcbs s x) = dest" "tid_to_tcb dest = x" "\<not> IS_KERNEL_ID dest"
      using d by (blast intro: sym)+
    then show ?thesis using assms(8) False by (simp add: ipc_receive_def)
  qed
  finally have run: "sys_ipc e dest (NOT 0) rcv_desc s = Ok (Suspended P_locked, s1)"
    using receive_takes [OF x(1) assms(3,6,7), of rcv_desc] by (simp add: s1_def)
  note t = taken_spec [OF assms(3,11) x(1) assms(12,4,5), of rcv_desc, folded s1_def]
  define s1' where "s1' = thread_dequeue_wakeup x (switch_resume x s1)"
  have ok1: "sched_ok s1'" unfolding s1'_def using t(1,3) x(1) assms(12) by (intro sched_ok_queue_ops sched_ok_switch) auto
  have i1: "idle_tcb s1' = idle_tcb s" by (simp add: s1'_def keeps_idle [OF dequeue_wakeup_keeps] t(3))
  define s2 where "s2 = handed_over x cur s1'"
  have run2: "ipc_resume e (P_polling (myself (tcbs s cur)) snd_desc (NOT 0)) s1 = Ok (Suspended P_sent, s2)"
    using deliver_short_send [OF assms(10), of x "myself (tcbs s cur)" e s1'] assms(2,3) t(2,6)
    by (simp add: resume_polling s2_def s1'_def)
  note h = handed_over_spec [OF assms(3) [symmetric] ok1 x(1), unfolded i1, OF assms(12), folded s2_def]
  define s3 where "s3 = set_thread_state TS_RUNNING cur (switch_resume cur s2)"
  have same: "myself (tcbs s1' x) = myself (tcbs s x)" "ipc_buffer (tcbs s1' x) = ipc_buffer (tcbs s x)"
    by (simp_all add: s1'_def ipc_same t(7,8))
  have run3: "ipc_resume e P_locked s2 =
      Ok (Ret_args (myself (tcbs s x)) 0 (ipc_buffer (tcbs s x) 0) (ipc_buffer (tcbs s x) 1) (ipc_buffer (tcbs s x) 2), s3)"
    using h(2,7-9) by (simp add: resume_locked Let_def s3_def same)
  have c: "cur \<noteq> NULL" using assms(2) tid_to_tcb_not_NULL by metis
  have ok3: "sched_ok s3" unfolding s3_def by (rule resumed_ok(2) [OF h(1) c]) (use assms(13) h(3) in simp)
  have "send_list s1' cur (remove1 x xs)"
    by (rule send_list_cong [THEN iffD2, OF _ _ t(9)]) (simp_all add: s1'_def send_fields_wakeup)
  then have "send_list s2 cur (remove1 x xs)" unfolding s2_def by (rule handed_over_send_list)
  then have sl: "send_list s3 cur (remove1 x xs)"
    by (rule send_list_cong [THEN iffD2, rotated 2]) (simp_all add: s3_def set_thread_state_def)
  have bits: "in_ready s3 y \<longleftrightarrow> y = x \<or> in_ready s y" "in_queue TS_QUEUE_WAKEUP s3 y \<longleftrightarrow> y \<noteq> x \<and> in_queue TS_QUEUE_WAKEUP s y" for y
    by (auto simp: s3_def h(4,5) s1'_def t(4,5))
  have "thread_state (tcbs s3 y) = (if y \<in> {cur, x} then TS_RUNNING else thread_state (tcbs s y))" for y
    by (simp add: s3_def set_thread_state_def h(6) s1'_def dequeue_wakeup_state t(6))
  moreover have "current s3 = cur" using h(2) by (simp add: s3_def set_thread_state_def)
  ultimately show ?thesis using run t(2) run2 h(2) run3 ok3 sl bits by blast
qed

theorem ipc_receive_from_polling_witness:
  "\<exists>s1 s2 s3 w0 w1 w2. sys_ipc demo_ienv 0 (NOT 0) 1 demo_caller = Ok (Suspended P_locked, s1) \<and>
     ipc_resume demo_ienv (P_polling 0x20000 0 (NOT 0)) s1 = Ok (Suspended P_sent, s2) \<and>
     ipc_resume demo_ienv P_locked s2 = Ok (Ret_args 0x30000 0 w0 w1 w2, s3) \<and> send_list s3 0xE0020000 [] \<and> in_ready s3 0xE0030000 \<and>
     thread_state (tcbs s3 0xE0030000) = TS_RUNNING"
proof -
  have ok: "sched_ok demo_caller" using demo_caller_inv by (auto simp: sched_ok_def sched_inv_def)
  have sl: "send_list demo_caller 0xE0020000 [0xE0030000]"
    by (rule send_list_cong [THEN iffD2, OF _ _ demo_poll_send]) (simp_all add: demo_caller_def)
  have f: "thread_state (tcbs demo_caller 0xE0030000) = TS_POLLING" "partner (tcbs demo_caller 0xE0030000) = 0x20000"
    "myself (tcbs demo_caller 0xE0030000) = 0x30000" "idle_tcb demo_caller = 0xF0110000"
    by (simp_all add: demo_caller_def demo_poll_facts)
  have "intr_pending (tcbs (thread_enqueue_present t s) x) = intr_pending (tcbs s x)" for t s x
    by (rule keeps_proj [OF enqueue_present_keeps]) (simp add: but_defs)
  then have "intr_pending (tcbs demo_caller 0xE0020000) = 0"
    by (simp add: demo_caller_def demo_poll_def ipc_same demo_threads_def demo_present_def boot_state_def zero_tcb_def)
  then have h: "0xE0020000 = current demo_caller" "tid_to_tcb (myself (tcbs demo_caller 0xE0020000)) = 0xE0020000"
    "(0xE0020000 :: tptr) \<noteq> 0xE0030000" "send_list demo_caller 0xE0020000 [0xE0030000]" "0xE0030000 \<in> set [0xE0030000 :: tptr]"
    "thread_state (tcbs demo_caller 0xE0030000) = TS_POLLING" "partner (tcbs demo_caller 0xE0030000) = myself (tcbs demo_caller 0xE0020000)"
    "intr_pending (tcbs demo_caller 0xE0020000) = 0"
    "if IS_OPEN_WAIT 1 then 0xE0030000 = hd [0xE0030000 :: tptr]
       else 0 = myself (tcbs demo_caller 0xE0030000) \<and> 0xE0030000 = tid_to_tcb 0 \<and> \<not> IS_KERNEL_ID 0"
    "(0 :: dword_t) AND NOT 0x1 = 0" "sched_ok demo_caller" "0xE0030000 \<noteq> idle_tcb demo_caller" "0xE0020000 \<noteq> idle_tcb demo_caller"
    using ok sl by (simp_all add: demo_caller_facts demo_tids f IS_OPEN_WAIT_def)
  from ipc_receive_from_polling [OF h, of demo_ienv] obtain s1 s2 s3 where
    r: "sys_ipc demo_ienv 0 (NOT 0) 1 demo_caller = Ok (Suspended P_locked, s1)"
      "ipc_resume demo_ienv (P_polling (myself (tcbs demo_caller 0xE0020000)) 0 (NOT 0)) s1 = Ok (Suspended P_sent, s2)"
      "ipc_resume demo_ienv P_locked s2 = Ok (Ret_args (myself (tcbs demo_caller 0xE0030000)) 0 (ipc_buffer (tcbs demo_caller 0xE0030000) 0)
         (ipc_buffer (tcbs demo_caller 0xE0030000) 1) (ipc_buffer (tcbs demo_caller 0xE0030000) 2), s3)"
    and q: "send_list s3 0xE0020000 (remove1 0xE0030000 [0xE0030000])" "\<forall>y. in_ready s3 y \<longleftrightarrow> y = 0xE0030000 \<or> in_ready demo_caller y"
      "\<forall>y. thread_state (tcbs s3 y) = (if y \<in> {0xE0020000, 0xE0030000} then TS_RUNNING else thread_state (tcbs demo_caller y))"
    by (elim exE conjE) (rule that; assumption)
  have "in_ready s3 0xE0030000" "thread_state (tcbs s3 0xE0030000) = TS_RUNNING" using q(2,3) by simp_all
  then show ?thesis using r [unfolded demo_caller_facts f] q(1) [simplified] by blast
qed

end
