(* ===== verification/Ipc_Copy.thy ===== *)
theory Ipc_Copy
  imports Ipc
begin

text \<open>
  Long messages: the copy of \<^verbatim>\<open>ipc_copy\<close> moves the bytes, and the loops over the scattered strings of the sender and the
  receiver end whatever the two threads wrote into their dopes.
\<close>

section \<open>Copying bytes\<close>

lemma mmu_umem [simp]: "mmu pdir w va (s\<lparr>umem := u\<rparr>) = mmu pdir w va s"
  by (simp add: mmu_def Let_def)

definition join8 :: "byte_t \<Rightarrow> byte_t \<Rightarrow> word_t" where "join8 b0 b1 = ucast b0 OR push_bit 8 (ucast b1)"
definition join16 :: "word_t \<Rightarrow> word_t \<Rightarrow> dword_t" where "join16 w0 w1 = ucast w0 OR push_bit 16 (ucast w1)"

lemma join_parts [simp]:
  "ucast (join8 b0 b1) = b0" "ucast (drop_bit 8 (join8 b0 b1)) = b1" "ucast (join16 w0 w1) = w0" "ucast (drop_bit 16 (join16 w0 w1)) = w1"
  by (auto intro!: bit_word_eqI simp: join8_def join16_def bit_simps) (auto dest: bit_imp_le_length)

lemmas join_folds = join8_def [symmetric] join16_def [symmetric]

text \<open>The first \<open>k\<close> bytes of a copy from the frames \<open>ps\<close> to the frames \<open>pd\<close> are done.\<close>

definition copied :: "(nat \<Rightarrow> dword_t) \<Rightarrow> (nat \<Rightarrow> dword_t) \<Rightarrow> kstate \<Rightarrow> nat \<Rightarrow> kstate \<Rightarrow> bool" where
  "copied pd ps s k s' \<longleftrightarrow> s' = s\<lparr>umem := umem s'\<rparr> \<and> (\<forall>i<k. umem s' (pd i) = umem s (ps i)) \<and>
     (\<forall>p. p \<notin> pd ` {..<k} \<longrightarrow> umem s' p = umem s p)"

text \<open>A window of \<open>n\<close> bytes that is readable at the source, writable at the target, and does not overlap.\<close>

definition copy_window :: "(nat \<Rightarrow> dword_t) \<Rightarrow> (nat \<Rightarrow> dword_t) \<Rightarrow> dword_t \<Rightarrow> dword_t \<Rightarrow> nat \<Rightarrow> kstate \<Rightarrow> bool" where
  "copy_window pd ps to from n s \<longleftrightarrow>
     (\<forall>i<n. mmu (cr3 s) False (from + of_nat i) s = Some (ps i) \<and> mmu (cr3 s) True (to + of_nat i) s = Some (pd i)) \<and>
     inj_on pd {..<n} \<and> pd ` {..<n} \<inter> ps ` {..<n} = {}"

lemma copied_start: "copied pd ps s 0 s"
  by (simp add: copied_def)

lemma copied_same:
  assumes "copied pd ps s k s'"
  shows "mmu (cr3 s') w va s' = mmu (cr3 s) w va s"
proof -
  obtain u where "s' = s\<lparr>umem := u\<rparr>" using assms unfolding copied_def by blast
  then show ?thesis by simp
qed

lemma copied_read:
  assumes "copied pd ps s k s'" "copy_window pd ps to from n s" "k \<le> i" "i < n"
  shows "vread8 (from + of_nat i) s' = Ok (umem s (ps i))"
proof -
  have "pd ` {..<k} \<subseteq> pd ` {..<n}" using assms(3,4) by auto
  then have "ps i \<notin> pd ` {..<k}" using assms(2,4) unfolding copy_window_def by blast
  then have "umem s' (ps i) = umem s (ps i)" using assms(1) by (simp add: copied_def)
  then show ?thesis using assms by (simp add: vread8_def copied_same [OF assms(1)] copy_window_def)
qed

lemma copied_write:
  assumes "copied pd ps s k s'" "copy_window pd ps to from n s" "k < n"
  shows "\<exists>s''. vwrite8 (to + of_nat k) (umem s (ps k)) s' = Ok s'' \<and> copied pd ps s (Suc k) s''"
proof -
  let ?s = "s'\<lparr>umem := (umem s')(pd k := umem s (ps k))\<rparr>"
  have w: "vwrite8 (to + of_nat k) (umem s (ps k)) s' = Ok ?s"
    using assms(2,3) by (simp add: vwrite8_def copied_same [OF assms(1)] copy_window_def)
  have "\<forall>i<k. pd i \<noteq> pd k" using assms(2,3) unfolding copy_window_def inj_on_def
    by (metis lessThan_iff less_trans less_irrefl)
  moreover obtain u where u: "s' = s\<lparr>umem := u\<rparr>" using assms(1) unfolding copied_def by blast
  ultimately have "copied pd ps s (Suc k) ?s" using assms(1) by (auto simp: copied_def less_Suc_eq lessThan_Suc)
  then show ?thesis using w by blast
qed

lemma copied_write2:
  assumes "copied pd ps s k s'" "copy_window pd ps to from n s" "Suc k < n"
  shows "\<exists>s''. vwrite16 (to + of_nat k) (join8 (umem s (ps k)) (umem s (ps (Suc k)))) s' = Ok s'' \<and> copied pd ps s (k + 2) s''"
proof -
  obtain s1 where s1: "vwrite8 (to + of_nat k) (umem s (ps k)) s' = Ok s1" "copied pd ps s (Suc k) s1"
    using copied_write [OF assms(1,2)] assms(3) by auto
  obtain s2 where "vwrite8 (to + of_nat (Suc k)) (umem s (ps (Suc k))) s1 = Ok s2" "copied pd ps s (Suc (Suc k)) s2"
    using copied_write [OF s1(2) assms(2,3)] by auto
  then show ?thesis using s1 by (simp add: vwrite16_def algebra_simps)
qed

lemma copied_read2:
  assumes "copied pd ps s k s'" "copy_window pd ps to from n s" "k \<le> i" "Suc i < n"
  shows "vread16 (from + of_nat i) s' = Ok (join8 (umem s (ps i)) (umem s (ps (Suc i))))"
  using copied_read [OF assms(1,2), of i] copied_read [OF assms(1,2), of "Suc i"] assms(3,4)
  by (simp add: vread16_def join_folds algebra_simps)

lemma copied_byte:
  assumes "copied pd ps s k s'" "copy_window pd ps to from n s" "k < n"
  shows "\<exists>s''. res_bind (vread8 (from + of_nat k) s') (\<lambda>v. vwrite8 (to + of_nat k) v s') = Ok s'' \<and> copied pd ps s (Suc k) s''"
  using copied_read [OF assms(1,2), of k] copied_write [OF assms] assms(3) by simp

lemma copied_word:
  assumes "copied pd ps s k s'" "copy_window pd ps to from n s" "k + 2 \<le> n"
  shows "\<exists>v s''. vread16 (from + of_nat k) s' = Ok v \<and> vwrite16 (to + of_nat k) v s' = Ok s'' \<and> copied pd ps s (k + 2) s''"
  using copied_read2 [OF assms(1,2), of k] copied_write2 [OF assms(1,2)] assms(3) by simp

lemma copied_dword:
  assumes "copied pd ps s k s'" "copy_window pd ps to from n s" "k + 4 \<le> n"
  shows "\<exists>v s''. vread (from + of_nat k) s' = Ok v \<and> vwrite (to + of_nat k) v s' = Ok s'' \<and> copied pd ps s (k + 4) s''"
proof -
  let ?w = "\<lambda>k. join8 (umem s (ps k)) (umem s (ps (Suc k)))"
  obtain s1 where s1: "vwrite16 (to + of_nat k) (?w k) s' = Ok s1" "copied pd ps s (k + 2) s1"
    using copied_write2 [OF assms(1,2)] assms(3) by auto
  obtain s2 where s2: "vwrite16 (to + of_nat (k + 2)) (?w (k + 2)) s1 = Ok s2" "copied pd ps s (k + 2 + 2) s2"
    using copied_write2 [OF s1(2) assms(2)] assms(3) by auto
  have "vread (from + of_nat k) s' = Ok (join16 (?w k) (?w (k + 2)))"
    using copied_read2 [OF assms(1,2), of k] copied_read2 [OF assms(1,2), of "k + 2"] assms(3) by (simp add: vread_def join_folds algebra_simps)
  moreover have "vwrite (to + of_nat k) (join16 (?w k) (?w (k + 2))) s' = Ok s2"
    using s1(1) s2(1) by (simp add: vwrite_def algebra_simps)
  ultimately show ?thesis using s2(2) by (simp add: eval_nat_numeral)
qed

lemma copied_dwords:
  "copied pd ps s k s' \<Longrightarrow> copy_window pd ps to from n s \<Longrightarrow> k + 4 * m \<le> n \<Longrightarrow>
   \<exists>s''. ipc_copy_dwords m (to + of_nat k) (from + of_nat k) s' = Ok s'' \<and> copied pd ps s (k + 4 * m) s''"
proof (induction m arbitrary: k s')
  case (Suc m)
  obtain v s1 where r: "vread (from + of_nat k) s' = Ok v" "vwrite (to + of_nat k) v s' = Ok s1" "copied pd ps s (k + 4) s1"
    using copied_dword [OF Suc.prems(1,2)] Suc.prems(3) by auto
  show ?case using Suc.IH [OF r(3) Suc.prems(2)] Suc.prems(3) r(1,2) by (simp add: algebra_simps)
qed simp

lemma low_bits:
  fixes len :: dword_t
  shows "unat len = 4 * (unat len div 4) + (if len AND 2 \<noteq> 0 then 2 else 0) + (if len AND 1 \<noteq> 0 then 1 else 0)"
proof -
  have b: "(len AND 2 \<noteq> 0) = odd (unat len div 2)" "(len AND 1 \<noteq> 0) = odd (unat len)"
  proof -
    have "len AND 2 = (if bit len 1 then 2 else 0)" "len AND 1 = (if bit len 0 then 1 else 0)"
      by (auto intro!: bit_word_eqI simp: bit_simps)
    moreover have "bit len 1 = odd (unat len div 2)" "bit len 0 = odd (unat len)"
      using bit_iff_odd [of "unat len" 1] bit_iff_odd [of "unat len" 0] by (simp_all add: bit_unsigned_iff)
    ultimately show "(len AND 2 \<noteq> 0) = odd (unat len div 2)" "(len AND 1 \<noteq> 0) = odd (unat len)" by simp_all
  qed
  show ?thesis unfolding b by presburger
qed

text \<open>\<^bold>\<open>C21.\<close> When the source can be read and the target written through the page tables, and the two do not overlap in
  memory, \<^verbatim>\<open>ipc_copy\<close> copies exactly the \<open>len\<close> bytes, in words and the odd bytes at the end, and changes no other byte and
  nothing else of the state.\<close>

theorem ipc_copy_correct:
  assumes "copy_window pd ps to from (unat len) s"
  shows "\<exists>s'. ipc_copy to from len s = Ok s' \<and> s' = s\<lparr>umem := umem s'\<rparr> \<and>
    (\<forall>i<unat len. umem s' (pd i) = umem s (ps i)) \<and> (\<forall>p. p \<notin> pd ` {..<unat len} \<longrightarrow> umem s' p = umem s p)"
proof -
  let ?m = "unat len div 4"
  obtain s1 where s1: "ipc_copy_dwords ?m to from s = Ok s1" "copied pd ps s (4 * ?m) s1"
    using copied_dwords [OF copied_start assms, of ?m] by auto
  have u: "unat (len div 4) = ?m" by (simp add: unat_div)
  then have "len div 4 = of_nat ?m" by (simp flip: u)
  then have m: "unat (len div 4) = ?m" "4 * (len div 4) = of_nat (4 * ?m)" using u by simp_all
  let ?k = "4 * ?m" and ?h = "len AND 2 \<noteq> 0"
  let ?j = "?k + (if ?h then 2 else 0)"
  obtain s2 where s2: "(if ?h then res_bind (vread16 (from + of_nat ?k) s1) (\<lambda>v. res_bind (vwrite16 (to + of_nat ?k) v s1)
      (\<lambda>s. Ok (to + of_nat ?k + 2, from + of_nat ?k + 2, s))) else Ok (to + of_nat ?k, from + of_nat ?k, s1)) =
      Ok (to + of_nat ?j, from + of_nat ?j, s2)" "copied pd ps s ?j s2"
    using copied_word [OF s1(2) assms] s1(2) low_bits [of len] by (cases ?h) (auto simp: algebra_simps)
  obtain s3 where s3: "(if len AND 1 \<noteq> 0 then res_bind (vread8 (from + of_nat ?j) s2) (\<lambda>b. vwrite8 (to + of_nat ?j) b s2) else Ok s2) = Ok s3"
      "copied pd ps s (unat len) s3"
  proof (cases "len AND 1 = 0")
    case True
    then show ?thesis using that [of s2] s2(2) low_bits [of len] by simp
  next
    case False
    then have "Suc ?j = unat len" using low_bits [of len] by simp
    then show ?thesis using that copied_byte [OF s2(2) assms] False by (auto simp del: of_nat_add)
  qed
  have "ipc_copy to from len s = Ok s3"
    unfolding ipc_copy_def Let_def m s1(1) res_bind_simps s2(1) prod.case by (rule s3(1))
  then show ?thesis using s3(2) unfolding copied_def by blast
qed

text \<open>A state whose page tables map every address to the first 4 MB.\<close>

definition demo_flat :: kstate where
  "demo_flat = (boot_state 0xF0110000)\<lparr>mem := (\<lambda>_. PAGE_VALID OR PAGE_WRITABLE OR PAGE_SUPER), umem := (\<lambda>p. ucast p)\<rparr>"

lemma demo_mmu: "mmu (cr3 demo_flat) w va demo_flat = Some (va AND mask 22)"
  by (simp add: mmu_def demo_flat_def Let_def PAGE_VALID_def PAGE_WRITABLE_def PAGE_SUPER_def mask_eq_exp_minus_1)

lemma less_seven: "(i :: nat) < 7 \<longleftrightarrow> i = 0 \<or> i = 1 \<or> i = 2 \<or> i = 3 \<or> i = 4 \<or> i = 5 \<or> i = 6"
  by arith

theorem ipc_copy_correct_witness:
  "\<exists>s'. ipc_copy 0x2000 0x1000 7 demo_flat = Ok s' \<and> umem s' 0x2006 = 6 \<and> umem s' 0x2007 = 7"
proof -
  let ?pd = "\<lambda>i. 0x2000 + of_nat i :: dword_t" and ?ps = "\<lambda>i. 0x1000 + of_nat i :: dword_t"
  have u: "unat (?pd i) = 0x2000 + i" "unat (?ps i) = 0x1000 + i" if "i < 7" for i
    using that by (simp_all add: unat_word_ariths unat_of_nat)
  have "?pd i AND mask 22 = ?pd i" "?ps i AND mask 22 = ?ps i" if "i < 7" for i
    using that unfolding less_seven by (elim disjE; simp add: mask_eq_exp_minus_1)+
  moreover have "inj_on ?pd {..<7}" by (rule inj_onI) (metis u(1) add_left_cancel lessThan_iff)
  moreover have "?pd i \<noteq> ?ps j" if "i < 7" "j < 7" for i j
  proof
    assume "?pd i = ?ps j"
    then have "unat (?pd i) = unat (?ps j)" by (rule arg_cong)
    then show False using u that by simp
  qed
  ultimately have "copy_window ?pd ?ps 0x2000 0x1000 (unat (7 :: dword_t)) demo_flat" by (auto simp: copy_window_def demo_mmu)
  then obtain s' where s': "ipc_copy 0x2000 0x1000 7 demo_flat = Ok s'" "\<forall>i<7. umem s' (?pd i) = umem demo_flat (?ps i)"
      "\<forall>p. p \<notin> ?pd ` {..<7} \<longrightarrow> umem s' p = umem demo_flat p"
    using ipc_copy_correct [of ?pd ?ps "0x2000" "0x1000" 7 demo_flat] by (simp only: unat_numeral) auto
  have "0x2007 \<notin> ?pd ` {..<7}" by (auto simp: less_seven)
  then show ?thesis using s'(1) s'(2) [rule_format, of 6] s'(3) by (simp add: demo_flat_def)
qed

section \<open>The loops over the strings end\<close>

definition returns :: "'a kres \<Rightarrow> bool" where "returns r \<longleftrightarrow> r \<noteq> None"

lemma res_bind_returns [intro]: "returns r \<Longrightarrow> (\<And>x. r = Ok x \<Longrightarrow> returns (f x)) \<Longrightarrow> returns (res_bind r f)"
  by (auto simp: returns_def res_bind_def split: sum.splits)

lemma returns_simps [simp]: "returns (Ok x)" "returns (Err e)" "returns (if b then r else r') = (if b then returns r else returns r')"
  by (simp_all add: returns_def)

lemma res_bindE:
  assumes "res_bind r f = Ok y"
  obtains x where "r = Ok x" "f x = Ok y"
  using assms by (auto simp: res_bind_def split: option.splits sum.splits)

lemma byte_returns [simp]: "returns (vread8 a s)" "returns (vwrite8 a b s)"
  by (simp_all add: vread8_def vwrite8_def split: option.splits)

lemma access_returns [simp]: "returns (vread16 a s)" "returns (vwrite16 a w s)" "returns (vread a s)" "returns (vwrite a d s)"
  unfolding vread_def vwrite_def vread16_def vwrite16_def by (intro res_bind_returns byte_returns returns_simps)+

lemma copy_dwords_returns [simp]: "returns (ipc_copy_dwords n to from s)"
  by (induction n arbitrary: to "from" s) (auto intro!: res_bind_returns)

lemma ipc_copy_returns [simp]: "returns (ipc_copy to from len s)"
  unfolding ipc_copy_def Let_def by (auto intro!: res_bind_returns)

lemma dope_returns [simp]:
  "returns (send_size_word d s)" "returns (send_address d s)" "returns (rcv_size_word d s)" "returns (rcv_address d s)"
  "returns (put_send_size d n s)" "returns (clear_send_continue d s)" "returns (copy_rcv_address d s)"
  by (auto simp: send_size_word_def send_address_def rcv_size_word_def rcv_address_def put_send_size_def clear_send_continue_def
      copy_rcv_address_def intro!: res_bind_returns)

text \<open>A step of the loops returns, keeps or lowers the number of strings on either side, and lowers one of them.\<close>

definition fewer :: "sx_t \<Rightarrow> sx_t \<Rightarrow> bool" where
  "fewer v' v \<longleftrightarrow> unat (num_src v') \<le> unat (num_src v) \<and> unat (num_dest v') \<le> unat (num_dest v) \<and>
     unat (num_src v') + unat (num_dest v') < unat (num_src v) + unat (num_dest v)"

definition shrinks :: "sx_t \<Rightarrow> (bool \<times> sx_t \<times> kstate) kres \<Rightarrow> bool" where
  "shrinks v r \<longleftrightarrow> returns r \<and> (\<forall>go v' s'. r = Ok (go, v', s') \<longrightarrow> fewer v' v)"

lemma shrinks_Ok [simp]: "shrinks v (Ok (go, v', s')) = fewer v' v"
  by (simp add: shrinks_def)

lemma shrinks_bind: "returns r \<Longrightarrow> (\<And>x. shrinks v (f x)) \<Longrightarrow> shrinks v (res_bind r f)"
  unfolding shrinks_def by (auto elim!: res_bindE)

lemma shrinks_step: "shrinks w r \<Longrightarrow> (\<And>go v' s'. fewer v' w \<Longrightarrow> shrinks v (f (go, v', s'))) \<Longrightarrow> shrinks v (res_bind r f)"
  unfolding shrinks_def by (auto elim!: res_bindE simp: split_paired_all) blast+

lemma returns_step: "shrinks w r \<Longrightarrow> (\<And>go v' s'. fewer v' w \<Longrightarrow> returns (f (go, v', s'))) \<Longrightarrow> returns (res_bind r f)"
  unfolding shrinks_def by (auto intro!: res_bind_returns simp: split_paired_all)

lemma shrinks_if: "(b \<Longrightarrow> shrinks v r) \<Longrightarrow> (\<not> b \<Longrightarrow> shrinks v r') \<Longrightarrow> shrinks v (if b then r else r')"
  by simp

lemma fewer_le: "fewer v'' v' \<Longrightarrow> unat (num_src v') \<le> unat (num_src v) \<Longrightarrow> unat (num_dest v') \<le> unat (num_dest v) \<Longrightarrow> fewer v'' v"
  by (auto simp: fewer_def)

lemma shrinks_le: "shrinks v' r \<Longrightarrow> unat (num_src v') \<le> unat (num_src v) \<Longrightarrow> unat (num_dest v') \<le> unat (num_dest v) \<Longrightarrow> shrinks v r"
  unfolding shrinks_def using fewer_le by blast

lemma pred_less: "x \<noteq> 0 \<Longrightarrow> unat (x - 1) < unat (x :: dword_t)"
  by (simp add: unat_minus_one unat_gt_0)

lemma skip_dest_step: "num_dest v \<noteq> 0 \<Longrightarrow> shrinks v (skip_dest v s)"
proof (induction "unat (num_dest v)" arbitrary: v s rule: less_induct)
  case less
  define v1 where "v1 = v\<lparr>dope_dest := dope_dest v + sizeof_stringdope_t, num_dest := num_dest v - 1, sx_dope := inc_strings (sx_dope v)\<rparr>"
  define v2 where "v2 = v1\<lparr>size_total := 0\<rparr>"
  note l = pred_less [OF less.prems]
  have f: "fewer v2 v" "fewer (v1\<lparr>sx_dope := d\<rparr>) v" for d using l by (simp_all add: fewer_def v1_def v2_def)
  have IH: "shrinks v (skip_dest v2 s)" if "num_dest v1 \<noteq> 0" for s
    using less.hyps [of v2 s] l that shrinks_le [of v2 "skip_dest v2 s" v] by (simp add: v2_def v1_def)
  have eq: "skip_dest v s =
     res_bind (put_send_size (dope_dest v) (size_total v) s) (\<lambda>s.
     res_bind (clear_send_continue (dope_dest v) s) (\<lambda>s.
       if num_dest v1 = 0 then Ok (False, v1\<lparr>sx_dope := sx_dope v1 OR IPC_ERR_CUTMSG\<rparr>, s)
       else res_bind (rcv_size_word (dope_dest v2) s) (\<lambda>w. if str_continue w then skip_dest v2 s else Ok (True, v2, s))))"
    by (subst skip_dest.simps) (simp only: Let_def v1_def v2_def)
  show ?case unfolding eq by (intro shrinks_bind shrinks_if IH dope_returns) (simp_all add: f)
qed

lemma src_done_step:
  assumes "num_src v \<noteq> 0" "num_dest v \<noteq> 0"
  shows "shrinks v (src_done c v s)"
proof -
  define v1 where "v1 = v\<lparr>num_src := num_src v - 1\<rparr>"
  define v2 where "v2 = v1\<lparr>dope_src := dope_src v1 + sizeof_stringdope_t\<rparr>"
  note l = pred_less [OF assms(1)]
  have f: "fewer (v1\<lparr>sx_dope := d\<rparr>) v" "fewer (v2\<lparr>p_src := a, size_src := b, p_dest := e\<rparr>) v" for d a b e
    using l by (simp_all add: fewer_def v1_def v2_def)
  have k: "shrinks v2 (skip_dest v2 s)" for s using skip_dest_step [of v2 s] assms(2) by (simp add: v2_def v1_def)
  have g: "fewer (v'\<lparr>size_dest := a, p_dest := b, size_src := c, p_src := d\<rparr>) v" "fewer v' v" if "fewer v' v2" for v' a b c d
    using that l by (auto simp: fewer_def v1_def v2_def)
  have m: "shrinks v (if go then
                res_bind (rcv_size_word (dope_dest v') s) (\<lambda>rw.
                res_bind (rcv_address (dope_dest v') s) (\<lambda>ra.
                res_bind (send_size_word (dope_src v') s) (\<lambda>sw.
                res_bind (send_address (dope_src v') s) (\<lambda>sa.
                  Ok (True, v'\<lparr>size_dest := str_size rw, p_dest := ra, size_src := str_size sw, p_src := sa\<rparr>, s)))))
              else Ok (False, v', s))" if "fewer v' v2" for go v' s
    by (intro shrinks_if shrinks_bind dope_returns) (simp_all add: g that)
  show ?thesis unfolding src_done_def Let_def v1_def [symmetric] v2_def [symmetric]
    by (intro shrinks_if shrinks_bind dope_returns shrinks_step [OF k]) (simp_all only: prod.case shrinks_Ok f m)
qed

lemma dest_done_step: "num_dest v \<noteq> 0 \<Longrightarrow> shrinks v (dest_done c v s)"
  unfolding dest_done_def Let_def
  by (intro shrinks_if shrinks_bind dope_returns) (simp_all add: fewer_def pred_less less_imp_le)

lemma string_loop_returns: "returns (string_loop from to v s)"
proof (induction "unat (num_src v) + unat (num_dest v)" arbitrary: v s rule: less_induct)
  case less
  show ?case
  proof (cases "num_dest v = 0 \<or> num_src v = 0")
    case True
    then show ?thesis by (subst string_loop.simps) auto
  next
    case False
    define c where "c = (if size_src v < size_dest v then size_src v else size_dest v)"
    define v1 where "v1 = v\<lparr>size_src := size_src v - c, size_dest := size_dest v - c, size_total := size_total v + c\<rparr>"
    obtain a s1 where a: "get_copy_area from to (p_dest v) s = (a, s1)" by (cases "get_copy_area from to (p_dest v) s")
    have eq: "string_loop from to v s = res_bind (ipc_copy a (p_src v) c s1) (\<lambda>s.
        res_bind (if size_src v1 = 0 then src_done c v1 s else dest_done c v1 s) (\<lambda>(go, v, s).
          if go then string_loop from to v s else Ok (sx_dope v, s)))"
      using False by (subst string_loop.simps) (simp add: a Let_def c_def v1_def cong: if_cong)
    have IH: "returns (string_loop from to v' s')" if "fewer v' v1" for v' s'
      using less [of v' s'] that by (simp add: fewer_def v1_def)
    have "num_src v1 \<noteq> 0" "num_dest v1 \<noteq> 0" using False by (simp_all add: v1_def)
    then have sh: "shrinks v1 (if size_src v1 = 0 then src_done c v1 s else dest_done c v1 s)" for s
      by (intro shrinks_if src_done_step dest_done_step)
    show ?thesis unfolding eq using IH by (intro res_bind_returns ipc_copy_returns returns_step [OF sh]) simp
  qed
qed

text \<open>\<^bold>\<open>C22.\<close> The transfer of a long message ends, with a result or with a page fault, for every content of the message buffers
  of the two threads: each round of the loops over the strings uses up a string of the sender or of the receiver.\<close>

theorem transfer_long_ends:
  "\<exists>r. transfer_long from to snd_desc rcv_msg dope num_dwords num_strings s = Some r"
proof -
  have "returns (copy_strings from to sm rm n d s)" for sm rm n d s
    unfolding copy_strings_def Let_def by (intro res_bind_returns access_returns dope_returns string_loop_returns)
  then have "returns (transfer_long from to snd_desc rcv_msg dope num_dwords num_strings s)"
    unfolding transfer_long_def Let_def by (auto intro!: res_bind_returns split: prod.splits)
  then show ?thesis by (simp add: returns_def)
qed

end
