(* ===== verification/Pagefault.thy ===== *)
theory Pagefault
  imports Ipc
begin

text \<open>
  Page faults, \<^verbatim>\<open>src/x86/memory.c\<close>, with the fault messages of \<^verbatim>\<open>include/x86/syscalls.h\<close> and the fault that a sender tunnels to
  the receiver of a long message, \<^verbatim>\<open>copy_pagefault\<close> in \<^verbatim>\<open>src/ipc.c\<close>.

  As in \<^verbatim>\<open>sys_ipc\<close>, a handler that switches threads is split there: \<open>pf_out\<close> says where it is suspended and holds its
  live variables, and \<open>pf_resume\<close> goes on when the thread is current again.
\<close>

section \<open>Environment\<close>

text \<open>The zero page, the stack pointer saved by the debugger, the address of the tunnelled procedure, and the content of
  the uninitialised part of a timeout.\<close>

record penv =
  p_kenv :: kenv
  p_ienv :: ienv
  zero_page :: ptr_t
  kdebug_saved_esp :: dword_t
  notify_copy_pagefault :: ptr_t
  timeout_junk :: dword_t

definition PF_USERMODE :: "dword_t \<Rightarrow> bool" where "PF_USERMODE x \<longleftrightarrow> x AND PAGE_USER \<noteq> 0"
definition PF_WRITE :: "dword_t \<Rightarrow> bool" where "PF_WRITE x \<longleftrightarrow> x AND PAGE_WRITABLE \<noteq> 0"

definition PAGE_GLOBAL :: dword_t where "PAGE_GLOBAL = push_bit 8 1"
definition PAGE_SIGMA0_BITS :: dword_t where "PAGE_SIGMA0_BITS = PAGE_VALID OR PAGE_USER OR PAGE_WRITABLE"
definition PAGE_TCB_BITS :: dword_t where "PAGE_TCB_BITS = PAGE_VALID OR PAGE_WRITABLE OR PAGE_GLOBAL"
definition PAGE_ZERO_BITS :: dword_t where "PAGE_ZERO_BITS = PAGE_VALID"
definition TCB_AREA_SIZE :: dword_t where "TCB_AREA_SIZE = 0x01000000"
definition MEM_COPYAREA_END :: dword_t where "MEM_COPYAREA_END = MEM_COPYAREA2 + push_bit 22 1 * 2"
definition IPC_DESC_REGMAP :: dword_t where "IPC_DESC_REGMAP = 0x02"
definition IPC_PAGEFAULT_FPAGE :: dword_t where "IPC_PAGEFAULT_FPAGE = 0x80"
definition IPC_PAGEFAULT_DOPE :: dword_t where "IPC_PAGEFAULT_DOPE = IPC_PAGEFAULT_FPAGE OR IPC_DESC_REGMAP"

definition get_current_space :: "kstate \<Rightarrow> ptr_t" where
  "get_current_space s = cr3 s AND PAGE_MASK"

section \<open>Fault messages\<close>

text \<open>What is done when the message exchange of a fault is over: nothing for a user fault; restoring partner, state and
  timeout for a fault of the kernel in the user area; restoring the receiver and switching back to the sender for a
  tunnelled fault.\<close>

datatype pf_cont =
    Pf_user
  | Pf_kernel l4_threadid_t dword_t dword_t
  | Pf_copy tptr dword_t dword_t dword_t dword_t

text \<open>The handler is done; is suspended in a message exchange, with the saved \<^verbatim>\<open>unwind_ipc_sp\<close>; is suspended while the
  receiver handles a fault in the first or second copy area, with the receiver, the two page directories and the
  receiver's saved stack; has given the processor back to the sender; or has stopped the thread for good.\<close>

datatype pf_out =
    Pf_done
  | Pf_ipc ipc_point dword_t pf_cont
  | Pf_tunnel bool tptr ptr_t ptr_t dword_t
  | Pf_switched
  | Pf_aborted

definition pf_continue :: "pf_cont \<Rightarrow> tptr \<Rightarrow> kstate \<Rightarrow> pf_out \<times> kstate" where
  "pf_continue k cur s =
     (case k of
        Pf_user \<Rightarrow> (Pf_done, s)
      | Pf_kernel saved_partner saved_state to \<Rightarrow>
          (Pf_done, upd_tcb cur (\<lambda>c. c\<lparr>partner := saved_partner, ipc_timeout := to, thread_state := saved_state\<rparr>) s)
      | Pf_copy q b0 b1 b2 save_timeout \<Rightarrow>
          let s = set_partner (myself (tcbs s q)) cur s;
              s = upd_tcb cur (\<lambda>c. c\<lparr>ipc_buffer := (ipc_buffer c)(0 := b0, 1 := b1, 2 := b2), ipc_timeout := save_timeout\<rparr>) s;
              s = set_thread_state TS_LOCKED_WAITING cur s;
              s = set_thread_state TS_LOCKED_RUNNING q s;
              s = thread_enqueue_ready q s
          in (Pf_switched, switch_to_thread q cur s))"

definition pf_returned :: "dword_t \<Rightarrow> pf_cont \<Rightarrow> tptr \<Rightarrow> ipc_out \<times> kstate \<Rightarrow> pf_out \<times> kstate" where
  "pf_returned tmp k cur r =
     (case r of
        (Suspended p, s) \<Rightarrow> (Pf_ipc p tmp k, s)
      | (_, s) \<Rightarrow> pf_continue k cur (upd_tcb cur (\<lambda>c. c\<lparr>unwind_ipc_sp := tmp\<rparr>) s))"

text \<open>\<open>sp\<close> is the stack pointer at the call of \<^verbatim>\<open>sys_ipc\<close>.\<close>

definition do_pagefault_ipc :: "penv \<Rightarrow> dword_t \<Rightarrow> pf_cont \<Rightarrow> tptr \<Rightarrow> dword_t \<Rightarrow> dword_t \<Rightarrow> kstate \<Rightarrow> (pf_out \<times> kstate) kres" where
  "do_pagefault_ipc e sp k cur fault ip s =
     (let s = upd_tcb cur (\<lambda>c. c\<lparr>ipc_buffer := (ipc_buffer c)(0 := fault, 1 := ip, 2 := 0)\<rparr>) s;
          tmp = unwind_ipc_sp (tcbs s cur);
          s = upd_tcb cur (\<lambda>c. c\<lparr>unwind_ipc_sp := sp\<rparr>) s
      in res_bind (sys_ipc (p_ienv e) (pager (tcbs s cur)) 0 IPC_PAGEFAULT_DOPE s) (\<lambda>r. Ok (pf_returned tmp k cur r)))"

text \<open>Run by the receiver for the sender \<open>q\<close>.\<close>

definition copy_pagefault :: "penv \<Rightarrow> dword_t \<Rightarrow> dword_t \<Rightarrow> tptr \<Rightarrow> kstate \<Rightarrow> (pf_out \<times> kstate) kres" where
  "copy_pagefault e sp fault q s =
     (let cur = get_current_tcb s;
          b = ipc_buffer (tcbs s cur);
          save_timeout = ipc_timeout (tcbs s cur);
          s = upd_tcb cur (\<lambda>c. c\<lparr>ipc_timeout := GET_RECV_PF_TIMEOUT (timeout_junk e) (ipc_timeout (tcbs s q))\<rparr>) s
      in do_pagefault_ipc e sp (Pf_copy q (b 0) (b 1) (b 2) save_timeout) cur fault 0xffffffff s)"

section \<open>The handler\<close>

definition pf_user_fault :: "penv \<Rightarrow> dword_t \<Rightarrow> tptr \<Rightarrow> dword_t \<Rightarrow> dword_t \<Rightarrow> kstate \<Rightarrow> (pf_out \<times> kstate) kres" where
  "pf_user_fault e sp cur fault ip s =
     (if fault \<ge> TCB_AREA then
        res_bind (unwind_ipc (p_kenv e) cur s) (\<lambda>s.
          let s = thread_dequeue_ready cur s;
              s = thread_dequeue_wakeup cur s;
              s = set_thread_state TS_ABORTED cur s
          in Ok (Pf_aborted, switch_to_idle cur s))
      else if same_address_space cur (sigma0 s) s then
        let pg = pgent (space (tcbs s cur)) (pgdir_idx fault);
            s = set_address pg 1 (fault AND PAGEDIR_MASK) s;
            s = set_flags pg PAGE_SIGMA0_BITS s
        in Ok (Pf_done, s)
      else do_pagefault_ipc e sp Pf_user cur fault ip (upd_tcb cur (\<lambda>c. c\<lparr>ipc_timeout := TIMEOUT_NEVER\<rparr>) s))"

text \<open>The kernel touches user memory for the running thread.\<close>

definition pf_user_area :: "penv \<Rightarrow> dword_t \<Rightarrow> tptr \<Rightarrow> dword_t \<Rightarrow> kstate \<Rightarrow> (pf_out \<times> kstate) kres" where
  "pf_user_area e sp cur fault s =
     (let saved_partner = partner (tcbs s cur);
          saved_state = thread_state (tcbs s cur);
          to = ipc_timeout (tcbs s cur);
          s = upd_tcb cur (\<lambda>c. c\<lparr>ipc_timeout := GET_SEND_PF_TIMEOUT (timeout_junk e) (ipc_timeout (tcbs s (tid_to_tcb (partner (tcbs s cur)))))\<rparr>) s
      in do_pagefault_ipc e sp (Pf_kernel saved_partner saved_state to) cur fault 0xffffffff s)"

text \<open>The kernel touches a thread control block: the page directory is brought up to date, or a page is mapped, the zero
  page for a read access. The allocations are not checked.\<close>

definition pf_tcb_area :: "penv \<Rightarrow> dword_t \<Rightarrow> dword_t \<Rightarrow> kstate \<Rightarrow> kstate option" where
  "pf_tcb_area e fault errcode s =
     (let pg_f = pgent (get_current_space s) (pgdir_idx fault);
          pg_k = pgent (get_kernel_space (p_kenv e)) (pgdir_idx fault)
      in if pg_f \<noteq> pg_k \<and> \<not> is_valid pg_f s \<and> is_valid pg_k s then Some (pg_copy pg_f pg_k s)
         else
           case (if \<not> is_valid pg_f s \<or> \<not> is_subtree pg_f 1 s
                 then map_option (pg_copy pg_k pg_f) (make_subtree pg_f s) else Some s) of
             None \<Rightarrow> None
           | Some s \<Rightarrow>
               let pg = pg_next (subtree pg_f s) (pgtab_idx fault) in
               if PF_WRITE errcode then
                 map_option (\<lambda>(p, s). set_flags pg PAGE_TCB_BITS (set_address pg 0 (virt_to_phys p) s)) (kmem_alloc PAGE_SIZE s)
               else Some (set_flags pg PAGE_ZERO_BITS (set_address pg 0 (virt_to_phys (zero_page e)) s)))"

definition area_base :: "bool \<Rightarrow> dword_t" where "area_base second = (if second then MEM_COPYAREA2 else MEM_COPYAREA1)"
definition area_bit :: "bool \<Rightarrow> dword_t" where "area_bit second = (if second then TR_IPC_MEM2 else TR_IPC_MEM1)"
definition area_addr :: "bool \<Rightarrow> tcb_t \<Rightarrow> dword_t" where "area_addr second c = (if second then copy_area2 c else copy_area1 c)"

text \<open>Enters the page directory entries of a copy area again, without the user bit.\<close>

definition pf_map_area :: "bool \<Rightarrow> tptr \<Rightarrow> ptr_t \<Rightarrow> ptr_t \<Rightarrow> kstate \<Rightarrow> kstate" where
  "pf_map_area second cur pdir_from pdir_to s =
     (let i = pgdir_idx (area_base second);
          s = set_mem (pdir_from + 4 * i) (mem s (pdir_to + 4 * pgdir_idx (area_addr second (tcbs s cur))) AND NOT PAGE_USER) s;
          s = set_mem (pdir_from + 4 * (i + 1)) (mem s (pdir_to + 4 * (pgdir_idx (area_addr second (tcbs s cur)) + 1)) AND NOT PAGE_USER) s
      in upd_tcb cur (\<lambda>c. c\<lparr>resources := resources c OR area_bit second\<rparr>) s)"

definition pf_copy_area :: "penv \<Rightarrow> tptr \<Rightarrow> dword_t \<Rightarrow> kstate \<Rightarrow> pf_out \<times> kstate" where
  "pf_copy_area e cur fault s =
     (let p = tid_to_tcb (partner (tcbs s cur));
          pdir_to = pagedir (space (tcbs s p));
          pdir_from = pagedir (space (tcbs s cur));
          second = (fault \<ge> MEM_COPYAREA2)
      in if resources (tcbs s cur) AND area_bit second \<noteq> 0 then
           let saved_stack = stack (tcbs s p);
               s = notify_thread_2 p (notify_copy_pagefault e) (area_addr second (tcbs s cur) + (fault - area_base second)) cur s;
               s = set_thread_state TS_LOCKED_RUNNING p s;
               s = set_thread_state TS_LOCKED_WAITING cur s
           in (Pf_tunnel second p pdir_to pdir_from saved_stack, dispatch_thread p s)
         else (Pf_done, pf_map_area second cur pdir_from pdir_to s))"

definition pagefault :: "penv \<Rightarrow> dword_t \<Rightarrow> dword_t \<Rightarrow> dword_t \<Rightarrow> dword_t \<Rightarrow> kstate \<Rightarrow> (pf_out \<times> kstate) kres" where
  "pagefault e sp cr2 errcode ip s =
     (let fault = (cr2 AND NOT PAGE_WRITABLE) OR (errcode AND PAGE_WRITABLE);
          cur = get_current_tcb s;
          cur = (if cur > TCB_AREA + TCB_AREA_SIZE then ptr_to_tcb (kdebug_saved_esp e) else cur)
      in if PF_USERMODE errcode then pf_user_fault e sp cur fault ip s
         else if fault < TCB_AREA then pf_user_area e sp cur fault s
         else if fault < TCB_AREA + TCB_AREA_SIZE then
           (case pf_tcb_area e fault errcode s of None \<Rightarrow> None | Some s \<Rightarrow> Ok (Pf_done, s))
         else if fault \<ge> MEM_COPYAREA1 \<and> fault < MEM_COPYAREA_END then Ok (pf_copy_area e cur fault s)
         else Err Panic)"

text \<open>Going on after a switch.\<close>

definition pf_resume :: "penv \<Rightarrow> pf_out \<Rightarrow> kstate \<Rightarrow> (pf_out \<times> kstate) kres" where
  "pf_resume e k s =
     (let cur = get_current_tcb s in
      case k of
        Pf_ipc p tmp c \<Rightarrow> res_bind (ipc_resume (p_ienv e) p s) (\<lambda>r. Ok (pf_returned tmp c cur r))
      | Pf_tunnel second p pdir_to pdir_from saved_stack \<Rightarrow>
          let s = switch_resume cur s;
              s = upd_tcb p (\<lambda>c. c\<lparr>stack := saved_stack\<rparr>) s
          in Ok (Pf_done, pf_map_area second cur pdir_from pdir_to s)
      | _ \<Rightarrow> Ok (k, s))"

end
