(* ===== verification/Ipc_Errors.thy ===== *)
theory Ipc_Errors
  imports Ipc_Rendezvous
begin

text \<open>
  Timeouts, cancelled sends, interrupts, and the bounds the message transfer does not keep.
\<close>

section \<open>Timeouts\<close>

lemma timeout_field_bounds: "unat (rcv_exp to) < 16" "unat (snd_exp to) < 16" "unat (rcv_man to) < 256" "unat (snd_man to) < 256"
  by (simp_all add: rcv_exp_def snd_exp_def rcv_man_def snd_man_def unat_and_mask)

lemma timeout_exact:
  assumes e: "unat ex \<le> 15" and m: "4 ^ (15 - unat ex) * unat man < 2 ^ 31"
  shows "unat (TIMEOUT ex man) = 4 ^ (15 - unat ex) * unat man"
proof -
  let ?w = "push_bit (2 * (15 - unat ex)) 1 * man :: dword_t"
  define n where "n = 4 ^ (15 - unat ex) * unat man"
  have p: "push_bit (2 * (15 - unat ex)) (1 :: dword_t) = of_nat (4 ^ (15 - unat ex))"
    by (simp add: push_bit_eq_mult power_mult)
  have w: "?w = of_nat n" unfolding p n_def by simp
  have m': "n < 2 ^ 31" using m by (simp add: n_def)
  have "unat ?w = n" unfolding w by (rule unat_of_nat_small) (use m' in simp)
  then have ui: "uint ?w = int n" by (metis uint_nat)
  have "int n < 2 ^ 31" using m' by simp
  then have "sint ?w = int n" unfolding sint_uint ui by (intro signed_take_bit_int_eq_self) simp_all
  then have "TIMEOUT ex man = of_nat n" unfolding TIMEOUT_def scast_eq by simp
  then show ?thesis using unat_of_nat_small [where 'a = 64, of n] m' by (simp add: n_def)
qed

text \<open>\<^bold>\<open>C32.\<close> A timeout with exponent \<open>e\<close> and mantissa \<open>m\<close> is \<open>m * 4 ^ (15 - e)\<close> microseconds as long as that is below
  \<open>2 ^ 31\<close>. Longer ones overflow: exponent 1 with mantissa 16, about 71 minutes, gives zero, so that a
  send to a thread that is not ready and a receive that must wait fail at once; with mantissa 8 the
  time is \<open>- 2 ^ 31\<close>.\<close>

theorem timeout_bounds:
  "(unat ex \<le> 15 \<and> 4 ^ (15 - unat ex) * unat man < 2 ^ 31 \<longrightarrow> unat (TIMEOUT ex man) = 4 ^ (15 - unat ex) * unat man) \<and>
   TIMEOUT 1 16 = 0 \<and> TIMEOUT 1 8 = - (2 ^ 31) \<and>
   (rcv_exp (ipc_timeout (tcbs s cur)) = 1 \<and> rcv_man (ipc_timeout (tcbs s cur)) = 16 \<longrightarrow>
      ipc_wait cur to_tcb from_tcb rcv_desc s = (Ret_error IPC_ERR_RECVTIMEOUT, s))"
proof -
  have z: "TIMEOUT 1 16 = 0" "TIMEOUT 1 8 = - (2 ^ 31)" by (simp_all add: TIMEOUT_def)
  then show ?thesis using timeout_exact [of ex man] by (auto simp: ipc_wait_def Let_def IS_INFINITE_RECV_TIMEOUT_def)
qed

theorem timeout_bounds_witness:
  "unat (TIMEOUT 10 3) = 3072 \<and>
   (let s = upd_tcb 0xE0020000 (\<lambda>c. c\<lparr>ipc_timeout := 0x10000001\<rparr>) (boot_state 0xF0110000) in
    ipc_wait 0xE0020000 NULL NULL 1 s = (Ret_error IPC_ERR_RECVTIMEOUT, s))"
  using timeout_bounds [of 10 3]
    timeout_bounds [of 1 1 "upd_tcb 0xE0020000 (\<lambda>c. c\<lparr>ipc_timeout := 0x10000001\<rparr>) (boot_state 0xF0110000)" "0xE0020000" NULL NULL 1]
  by (simp add: rcv_exp_def rcv_man_def mask_eq_exp_minus_1)

section \<open>Senders whose timeout passed\<close>

lemma send_list_switch: "send_list s d xs \<Longrightarrow> send_list (switch_to_idle c s) d xs" "send_list s d xs \<Longrightarrow> send_list (switch_resume c s) d xs"
  by (rule send_list_cong [THEN iffD2, rotated 2], assumption; simp add: switch_to_idle_tcb [of send_queue] switch_to_idle_tcb [of send_next]
      switch_to_idle_tcb [of send_prev])+

lemma send_list_set:
  "send_list (set_thread_state v t s) d xs = send_list s d xs" "send_list (set_partner v t s) d xs = send_list s d xs"
  "send_list (set_msg_desc v t s) d xs = send_list s d xs"
  by (rule send_list_cong; simp add: set_defs)+

lemma wait_behind:
  assumes "current s = d" "send_list s d (x # xs)" "thread_state (tcbs s x) = TS_RUNNING" "intr_pending (tcbs s d) = 0"
    and "IS_INFINITE_RECV_TIMEOUT (ipc_timeout (tcbs s d))" "IS_OPEN_WAIT rcv_desc" "x \<noteq> d"
  shows "\<exists>s'. sys_ipc e dest (NOT 0) rcv_desc s = Ok (Suspended P_waiting, s') \<and> send_list s' d (x # xs)"
proof -
  have x: "send_queue (tcbs s d) = x" "\<not> IS_POLLING (tcbs s x)"
    using assms(2,3) by (simp_all add: send_list_def IS_POLLING_def TS_RUNNING_def TS_POLLING_def TSB_LOCKED_def TSB_POLLING_def TSB_READY_def)
  define s1 where "s1 = set_thread_state TS_WAITING d (set_partner L4_NIL_ID d (set_msg_desc rcv_desc d s))"
  have "sys_ipc e dest (NOT 0) rcv_desc s = Ok (ipc_receive_from d NULL x rcv_desc s)"
    using assms(1,4,6) x(1) by (simp add: sys_ipc_def IS_SEND_def ipc_receive_def get_current_tcb_def)
  also have "ipc_receive_from d NULL x rcv_desc s = (Suspended P_waiting, switch_to_idle d s1)"
    using assms(5-7) x(2) by (simp add: ipc_receive_from_def ipc_wait_def Let_def s1_def set_msg_desc_def)
  finally show ?thesis using send_list_switch(1) [of s1 d "x # xs" d] assms(2) by (simp add: s1_def send_list_set)
qed

text \<open>\<^bold>\<open>C33.\<close> When the timeout of a polling sender passes, the timer makes it running and its call returns the timeout error, but
  nothing takes it out of the send queue. As long as it is at the head of the queue of a receiver, an open wait of
  that receiver suspends without a timeout, whatever other senders poll behind it.\<close>

theorem send_timeout_stays_queued:
  assumes "x = current s" and "thread_state (tcbs s x) = TS_RUNNING" and "send_list s d (x # xs)" and "x \<noteq> d"
  shows "(\<exists>s'. ipc_resume e (P_polling dest snd_desc rcv_desc) s = Ok (Ret_error IPC_ERR_SENDTIMEOUT, s') \<and> send_list s' d (x # xs)) \<and>
    (\<forall>s2. current s2 = d \<and> send_list s2 d (x # xs) \<and> thread_state (tcbs s2 x) = TS_RUNNING \<and> intr_pending (tcbs s2 d) = 0 \<and>
       IS_INFINITE_RECV_TIMEOUT (ipc_timeout (tcbs s2 d)) \<longrightarrow>
       (\<exists>s3. sys_ipc e any (NOT 0) 1 s2 = Ok (Suspended P_waiting, s3) \<and> send_list s3 d (x # xs)))"
proof -
  have "ipc_resume e (P_polling dest snd_desc rcv_desc) s = Ok (Ret_error IPC_ERR_SENDTIMEOUT, switch_resume x s)"
    using assms(1,2) by (simp add: ipc_resume_def Let_def get_current_tcb_def)
  moreover have "IS_OPEN_WAIT 1" by (simp add: IS_OPEN_WAIT_def)
  ultimately show ?thesis using wait_behind [of _ d x xs 1 e any] send_list_switch(2) [OF assms(3)] assms(4) by blast
qed

theorem send_timeout_stays_queued_witness:
  "let s = set_thread_state TS_RUNNING 0xE0030000 (demo_poll\<lparr>current := 0xE0030000\<rparr>) in
   \<exists>s'. ipc_resume demo_ienv (P_polling 0x20000 0 (NOT 0)) s = Ok (Ret_error IPC_ERR_SENDTIMEOUT, s') \<and> send_list s' 0xE0020000 [0xE0030000]"
proof -
  let ?s = "set_thread_state TS_RUNNING 0xE0030000 (demo_poll\<lparr>current := 0xE0030000\<rparr>)"
  have "send_list (demo_poll\<lparr>current := 0xE0030000\<rparr>) 0xE0020000 [0xE0030000]"
    by (rule send_list_cong [THEN iffD2, OF _ _ demo_poll_send]) simp_all
  then have "send_list ?s 0xE0020000 [0xE0030000]" by (simp add: send_list_set)
  then show ?thesis
    using send_timeout_stays_queued [of "0xE0030000" ?s "0xE0020000" "[]" demo_ienv "0x20000" 0 "NOT 0"]
    by (simp add: set_thread_state_def Let_def)
qed

section \<open>Interrupts\<close>

lemma kernel_id_zero_timeout:
  assumes "\<not> IS_OPEN_WAIT rcv_desc" "IS_KERNEL_ID dest" "dest \<noteq> 0" "intr_pending (tcbs s (current s)) = 0"
    and "\<not> IS_INFINITE_RECV_TIMEOUT (ipc_timeout (tcbs s (current s)))" "rcv_man (ipc_timeout (tcbs s (current s))) = 0"
  shows "sys_ipc e dest (NOT 0) rcv_desc s =
    res_bind (irq_associate (current s) dest (set_msg_desc 0 (current s) s)) (\<lambda>(r, s'). Ok (return_ipc_args dest r (current s) s'))"
proof -
  let ?c = "current s" and ?s = "set_msg_desc 0 (current s) s"
  have k: "ipc_handle_kernel_id ?c dest ?s = res_bind (irq_associate ?c dest ?s) (\<lambda>(r, s). Ok (Some r, s))"
    using assms(3-6) by (simp add: ipc_handle_kernel_id_def Let_def set_msg_desc_def INTERRUPT_ID_def TIMEOUT_def)
  have "sys_ipc e dest (NOT 0) rcv_desc s = ipc_receive ?c NULL dest rcv_desc s"
    by (simp add: sys_ipc_def IS_SEND_def get_current_tcb_def)
  also have "\<dots> = res_bind (ipc_handle_kernel_id ?c dest ?s)
      (\<lambda>(r, s). case r of Some err \<Rightarrow> Ok (return_ipc_args dest err ?c s) | None \<Rightarrow> Ok (Suspended (P_kernel dest), s))"
    using assms(1,2,4) by (simp add: ipc_receive_def)
  finally show ?thesis unfolding k res_bind_assoc by (simp add: split_def)
qed

lemma mask_owner [simp]: "interrupt_owner (mask_interrupt n s) = interrupt_owner s" "interrupt_owner (unmask_interrupt n s) = interrupt_owner s"
  by (simp_all add: mask_interrupt_def unmask_interrupt_def disable_8259A_irq_def enable_8259A_irq_def)

text \<open>\<^bold>\<open>C34.\<close> Associating with an interrupt, a receive from a kernel identifier with a zero timeout, takes the number from
  the identifier without a bound: for every kernel identifier above 32 the table of owners is indexed beyond its
  end, while the identifiers 1 to 32 are served.\<close>

theorem irq_association_unchecked:
  assumes "\<not> IS_OPEN_WAIT rcv_desc" and "IS_KERNEL_ID dest" and "dest \<noteq> 0" and "cur = current s" and "intr_pending (tcbs s cur) = 0"
    and "\<not> IS_INFINITE_RECV_TIMEOUT (ipc_timeout (tcbs s cur))" and "rcv_man (ipc_timeout (tcbs s cur)) = 0"
  shows "if unat dest > 32 then sys_ipc e dest (NOT 0) rcv_desc s = Err Out_of_bounds
     else \<exists>r s'. sys_ipc e dest (NOT 0) rcv_desc s = Ok (r, s') \<and>
       (interrupt_owner s (unat (dest - 1)) \<in> {NULL, cur} \<longrightarrow> interrupt_owner s' (unat (dest - 1)) = cur)"
proof -
  have u: "unat (INTERRUPT_ID dest) = unat dest - 1" using assms(3) by (simp add: INTERRUPT_ID_def unat_minus_one)
  note z = kernel_id_zero_timeout [OF assms(1-3) assms(5-7) [unfolded assms(4)], of e]
  show ?thesis
  proof (cases "unat dest > 32")
    case True
    then have "irq_associate (current s) dest (set_msg_desc 0 (current s) s) = Err Out_of_bounds"
      using u assms(3) by (simp add: irq_associate_def Let_def IS_INTERRUPT_ID_def MAX_INTERRUPTS_def)
    then show ?thesis using True z by simp
  next
    case False
    let ?o = "interrupt_owner s"
    have "unat dest \<noteq> 0" using assms(3) by (simp add: unat_eq_0)
    then have n: "unat (INTERRUPT_ID dest) < MAX_INTERRUPTS" using False u by (simp add: MAX_INTERRUPTS_def)
    have "\<exists>r s'. irq_associate (current s) dest (set_msg_desc 0 (current s) s) = Ok (r, s') \<and>
        (?o (unat (INTERRUPT_ID dest)) \<in> {NULL, current s} \<longrightarrow> interrupt_owner s' (unat (INTERRUPT_ID dest)) = current s)"
      using n assms(3) by (auto simp: irq_associate_def Let_def IS_INTERRUPT_ID_def set_msg_desc_def)
    then obtain r s' where r: "irq_associate (current s) dest (set_msg_desc 0 (current s) s) = Ok (r, s')"
      "?o (unat (INTERRUPT_ID dest)) \<in> {NULL, current s} \<longrightarrow> interrupt_owner s' (unat (INTERRUPT_ID dest)) = current s" by blast
    then show ?thesis using False z assms(4) by (auto simp: return_ipc_args_def Let_def INTERRUPT_ID_def)
  qed
qed

theorem irq_association_unchecked_witness:
  "sys_ipc demo_ienv 0x401 (NOT 0) 0 (upd_tcb 0xF0110000 (\<lambda>c. c\<lparr>ipc_timeout := 1\<rparr>) (boot_state 0xF0110000)) = Err Out_of_bounds"
  using irq_association_unchecked [of 0 "0x401" "0xF0110000" "upd_tcb 0xF0110000 (\<lambda>c. c\<lparr>ipc_timeout := 1\<rparr>) (boot_state 0xF0110000)" demo_ienv]
  by (simp add: IS_OPEN_WAIT_def IS_KERNEL_ID_def x0id_task_def boot_state_def zero_tcb_def IS_INFINITE_RECV_TIMEOUT_def rcv_exp_def rcv_man_def
      mask_eq_exp_minus_1)

lemma resume_kernel:
  assumes "thread_state (tcbs s (current s)) \<noteq> TS_RUNNING"
  shows "\<exists>s'. ipc_resume e (P_kernel dest) s =
    (let c = tcbs s (current s) in Ok (Ret_args dest (msg_desc c) (ipc_buffer c 0) (ipc_buffer c 1) (ipc_buffer c 2), s'))"
  using assms by (simp add: ipc_resume_def kernel_id_resumed_def Let_def get_current_tcb_def return_ipc_args_def set_thread_state_def ipc_same)

text \<open>What the arrival of an interrupt does for an owner that waits for it.\<close>

lemma handle_interrupt_waiting:
  assumes "unat number < 32" "t = interrupt_owner s (unat number)" "t \<noteq> NULL" "thread_state (tcbs s t) = TS_WAITING"
    and "partner (tcbs s t) \<in> {number + 1, L4_NIL_ID}"
  shows "\<exists>s1. handle_interrupt number s = Ok s1 \<and> (in_ready s1 t \<or> current s1 = t) \<and> thread_state (tcbs s1 t) \<noteq> TS_RUNNING \<and>
    intr_pending (tcbs s1 t) = (number + 1) OR IRQ_IN_SERVICE \<and> partner (tcbs s1 t) = partner (tcbs s t) \<and>
    msg_desc (tcbs s1 t) = msg_desc (tcbs s t) \<and> ipc_buffer (tcbs s1 t) = ipc_buffer (tcbs s t)"
proof -
  define s0 where "s0 = upd_tcb t (\<lambda>c. c\<lparr>intr_pending := (number + 1) OR IRQ_IN_SERVICE\<rparr>) s"
  define s1 where "s1 = (if priority (tcbs s0 t) \<le> priority (tcbs s0 (current s)) then thread_enqueue_ready t (set_thread_state TS_LOCKED_RUNNING t s0)
    else switch_to_thread t (current s) (if current s \<noteq> idle_tcb s0 then thread_enqueue_ready (current s) s0 else s0))"
  have "IS_WAITING (tcbs s t)" "partner (tcbs s t) = number + 1 \<or> l4_is_nil_id (partner (tcbs s t))"
    using assms(4,5) by (auto simp: IS_WAITING_def TS_WAITING_def TSB_LOCKED_def l4_is_nil_id_def)
  then have "handle_interrupt number s = Ok s1"
    using assms(1,3) unfolding handle_interrupt_def Let_def assms(2) [symmetric] s1_def
    by (simp add: MAX_INTERRUPTS_def get_current_tcb_def get_idle_tcb_def s0_def)
  moreover have "in_ready s1 t \<or> current s1 = t" by (simp add: s1_def enqueue_ready_bit)
  moreover have "TS_WAITING \<noteq> TS_RUNNING" "TS_LOCKED_RUNNING \<noteq> TS_RUNNING"
    by (simp_all add: TS_WAITING_def TS_RUNNING_def TS_LOCKED_RUNNING_def TSB_LOCKED_def TSB_POLLING_def)
  ultimately show ?thesis using assms(4)
    by (simp add: s1_def s0_def set_thread_state_def ipc_same)
qed

text \<open>An interrupt whose owner waits for it, or for anyone, makes the owner ready or current. A receive from the
  interrupt then returns its identifier and the descriptor 0 that the call stored. An open wait, however, returns the nil
  identifier in place of the interrupt's, and the thread's own receive descriptor in place of the message dope.\<close>

theorem irq_open_wait:
  assumes "unat number < 32" and "t = interrupt_owner s (unat number)" and "t \<noteq> NULL" and "thread_state (tcbs s t) = TS_WAITING"
    and "partner (tcbs s t) \<in> {number + 1, L4_NIL_ID}"
  shows "\<exists>s1. handle_interrupt number s = Ok s1 \<and> (in_ready s1 t \<or> current s1 = t) \<and>
    (\<exists>b0 b1 b2 s2. ipc_resume e (P_kernel (number + 1)) (s1\<lparr>current := t\<rparr>) = Ok (Ret_args (number + 1) (msg_desc (tcbs s t)) b0 b1 b2, s2)) \<and>
    (partner (tcbs s t) = L4_NIL_ID \<longrightarrow>
      (\<exists>b0 b1 b2 s2. ipc_resume e P_waiting (s1\<lparr>current := t\<rparr>) = Ok (Ret_args L4_NIL_ID (msg_desc (tcbs s t)) b0 b1 b2, s2)))"
proof -
  obtain s1 where s1: "handle_interrupt number s = Ok s1" "in_ready s1 t \<or> current s1 = t" "thread_state (tcbs s1 t) \<noteq> TS_RUNNING"
    "partner (tcbs s1 t) = partner (tcbs s t)" "msg_desc (tcbs s1 t) = msg_desc (tcbs s t)"
    using handle_interrupt_waiting [OF assms] by blast
  show ?thesis using s1 resume_kernel [of "s1\<lparr>current := t\<rparr>" e "number + 1"] resume_waiting [of "s1\<lparr>current := t\<rparr>" e]
    by (simp add: Let_def) blast
qed

theorem irq_open_wait_witness:
  "let s = (upd_tcb 0xE0030000 (\<lambda>c. c\<lparr>thread_state := TS_WAITING, partner := L4_NIL_ID, msg_desc := 1\<rparr>) (boot_state 0xF0110000))
       \<lparr>interrupt_owner := (\<lambda>i. if i = 5 then 0xE0030000 else NULL)\<rparr>
   in \<exists>s1 b0 b1 b2 s2. handle_interrupt 5 s = Ok s1 \<and>
        ipc_resume demo_ienv P_waiting (s1\<lparr>current := 0xE0030000\<rparr>) = Ok (Ret_args L4_NIL_ID 1 b0 b1 b2, s2)"
proof -
  let ?s = "(upd_tcb 0xE0030000 (\<lambda>c. c\<lparr>thread_state := TS_WAITING, partner := L4_NIL_ID, msg_desc := 1\<rparr>) (boot_state 0xF0110000))
       \<lparr>interrupt_owner := (\<lambda>i. if i = 5 then 0xE0030000 else NULL)\<rparr>"
  show ?thesis using irq_open_wait [of 5 "0xE0030000" ?s demo_ienv] by (simp add: Let_def) blast
qed

end
