(* ===== verification/Fault_Handling.thy ===== *)
theory Fault_Handling
  imports Pagefault Ipc_Errors
begin

text \<open>
  What a page fault achieves: the fault message of a user thread reaches its pager and the thread goes on after the reply,
  sigma0 gets its own memory, a block of a thread gets a page, and the copy areas show the memory of the receiver.
\<close>

section \<open>The walk through the page tables\<close>

text \<open>The part of the walk below the page directory.\<close>

definition walk :: "bool \<Rightarrow> dword_t \<Rightarrow> dword_t \<Rightarrow> 'a kmem_scheme \<Rightarrow> dword_t option" where
  "walk write d0 low s =
     (let bad = (\<lambda>x. x AND PAGE_VALID = 0 \<or> write \<and> x AND PAGE_WRITABLE = 0)
      in if bad d0 then None
         else if d0 AND PAGE_SUPER \<noteq> 0 then Some ((d0 AND NOT (mask 22)) OR low)
         else
           let d1 = mem s (phys_to_virt (d0 AND NOT (mask 12)) + 4 * drop_bit 12 low)
           in if bad d1 then None else Some ((d1 AND NOT (mask 12)) OR (low AND mask 12)))"

lemma low_parts:
  "drop_bit 12 va AND mask 10 = drop_bit 12 (va AND mask 22)" "(va AND mask 22) AND mask 12 = va AND mask 12" for va :: dword_t
  by (auto intro!: bit_word_eqI simp: bit_simps)

lemma mmu_walk: "mmu pdir w va s = walk w (mem s (phys_to_virt pdir + 4 * drop_bit 22 va)) (va AND mask 22) s"
  unfolding mmu_def walk_def Let_def low_parts ..

lemma walk_cong:
  assumes "d0 AND PAGE_SUPER = 0 \<longrightarrow>
    mem s' (phys_to_virt (d0 AND NOT (mask 12)) + 4 * drop_bit 12 low) = mem s (phys_to_virt (d0 AND NOT (mask 12)) + 4 * drop_bit 12 low)"
  shows "walk w d0 low s' = walk w d0 low s"
  using assms by (simp add: walk_def Let_def)

lemma dir_offset:
  fixes B :: dword_t
  assumes "B AND mask 22 = 0" "unat B + 2 ^ 23 \<le> 2 ^ 32" "k < 2 ^ 23"
  shows "drop_bit 22 (B + of_nat k) = drop_bit 22 B + of_nat (k div 2 ^ 22)" "(B + of_nat k) AND mask 22 = of_nat (k mod 2 ^ 22)"
proof -
  have k: "unat (of_nat k :: dword_t) = k" using assms(3) by (simp add: unat_of_nat)
  have u: "unat (B + of_nat k) = unat B + k" using assms(2,3) k by (simp add: unat_word_ariths)
  have "take_bit 22 (unat B) = 0" using assms(1) by (metis take_bit_eq_mask unsigned_0 unsigned_take_bit_eq)
  then have "unat B mod 2 ^ 22 = 0" by (simp add: take_bit_eq_mod)
  then obtain b where b: "unat B = 2 ^ 22 * b" by (metis dvd_eq_mod_eq_0 dvd_def)
  show "drop_bit 22 (B + of_nat k) = drop_bit 22 B + of_nat (k div 2 ^ 22)"
  proof -
    have q: "k div 2 ^ 22 < 2" using assms(3) by (simp add: less_mult_imp_div_less)
    have "b + k div 2 ^ 22 < 2 ^ 10" using assms(2,3) b q by (simp add: algebra_simps)
    then show ?thesis by (simp add: word_unat_eq_iff unat_drop_bit_eq drop_bit_eq_div u b unat_word_ariths unat_of_nat)
  qed
  show "(B + of_nat k) AND mask 22 = of_nat (k mod 2 ^ 22)"
  proof -
    have "unat ((B + of_nat k) AND mask 22) = (unat B + k) mod 2 ^ 22"
      unfolding take_bit_eq_mask [symmetric] unsigned_take_bit_eq u unfolding take_bit_eq_mod ..
    then show ?thesis by (simp add: word_unat_eq_iff b unat_of_nat)
  qed
qed

section \<open>Copy areas\<close>

text \<open>The cells that the walk for an address reads.\<close>

definition walk_cells :: "ptr_t \<Rightarrow> dword_t \<Rightarrow> 'a kmem_scheme \<Rightarrow> ptr_t set" where
  "walk_cells pdir va s =
     (let c = phys_to_virt pdir + 4 * drop_bit 22 va in {c, phys_to_virt (mem s c AND NOT (mask 12)) + 4 * drop_bit 12 (va AND mask 22)})"

text \<open>The two entries of a page directory for the first copy area.\<close>

definition area_cells :: "ptr_t \<Rightarrow> ptr_t set" where
  "area_cells pdir = {pagedir pdir + 4 * pgdir_idx MEM_COPYAREA1, pagedir pdir + 4 * (pgdir_idx MEM_COPYAREA1 + 1)}"

lemma split_addr: "(addr AND NOT (mask 22)) + (addr AND mask 22) = addr" for addr :: dword_t
proof -
  have "(addr AND NOT (mask 22)) + (addr AND mask 22) = (addr AND NOT (mask 22)) OR (addr AND mask 22)"
    by (rule disjunctive_add) (auto simp: bit_simps)
  also have "\<dots> = addr" by (auto intro!: bit_word_eqI simp: bit_simps)
  finally show ?thesis .
qed

lemma base_addr:
  assumes "addr < TCB_AREA"
  shows "(addr AND NOT (mask 22)) AND mask 22 = 0" "unat (addr AND NOT (mask 22)) + 2 ^ 23 \<le> 2 ^ 32"
    "drop_bit 22 (addr AND NOT (mask 22)) = pgdir_idx addr"
proof -
  have "unat (addr AND NOT (mask 22)) \<le> unat addr" by (metis word_and_le1 word_le_nat_alt and.commute)
  then show "unat (addr AND NOT (mask 22)) + 2 ^ 23 \<le> 2 ^ 32" using assms by (simp add: TCB_AREA_def word_less_nat_alt)
  have "n < 10" if "bit addr (22 + n)" for n using bit_imp_le_length [OF that] by simp
  then show "drop_bit 22 (addr AND NOT (mask 22)) = pgdir_idx addr" by (auto intro!: bit_word_eqI simp: bit_simps pgdir_idx_def)
qed (auto intro!: bit_word_eqI simp: bit_simps)

lemma dir_cell_apart:
  assumes "\<forall>va. walk_cells sp va s \<inter> A = {}" "addr < TCB_AREA" "q < 2"
  shows "pagedir sp + 4 * (pgdir_idx addr + of_nat q) \<notin> A"
proof -
  let ?va = "(addr AND NOT (mask 22)) + of_nat (q * 2 ^ 22)"
  have "drop_bit 22 ?va = pgdir_idx addr + of_nat q"
    using dir_offset(1) [OF base_addr(1,2) [OF assms(2)], of "q * 2 ^ 22"] base_addr(3) [OF assms(2)] assms(3) by simp
  then have "pagedir sp + 4 * (pgdir_idx addr + of_nat q) \<in> walk_cells sp ?va s" by (simp add: walk_cells_def Let_def pagedir_def)
  then show ?thesis using assms(1) by blast
qed

lemma map_copy_area_mem:
  assumes "fs = space (tcbs s from)" "ts = space (tcbs s (tid_to_tcb (partner (tcbs s from))))"
    and "\<forall>va. walk_cells ts va s \<inter> area_cells fs = {}" and "addr < TCB_AREA"
  defines "s' \<equiv> map_copy_area from MEM_COPYAREA1 addr s"
  shows "q < 2 \<Longrightarrow> mem s' (pagedir fs + 4 * (pgdir_idx MEM_COPYAREA1 + of_nat q)) = mem s (pagedir ts + 4 * (pgdir_idx addr + of_nat q))"
    and "x \<notin> area_cells fs \<Longrightarrow> mem s' x = mem s x"
proof -
  let ?f = "pagedir fs + 4 * pgdir_idx MEM_COPYAREA1"
  have e: "mem s' = (mem s)(?f := mem s (pagedir ts + 4 * pgdir_idx addr), ?f + 4 := ((mem s)(?f := mem s (pagedir ts + 4 * pgdir_idx addr)))
      (pagedir ts + 4 * (pgdir_idx addr + 1)))"
    by (simp add: s'_def map_copy_area_def Let_def assms(1,2) set_mem_def algebra_simps)
  have "pagedir ts + 4 * (pgdir_idx addr + of_nat 1) \<notin> area_cells fs" by (rule dir_cell_apart [OF assms(3,4)]) simp
  then have ne: "pagedir ts + 4 * (pgdir_idx addr + 1) \<noteq> ?f" by (auto simp: area_cells_def)
  show "mem s' (pagedir fs + 4 * (pgdir_idx MEM_COPYAREA1 + of_nat q)) = mem s (pagedir ts + 4 * (pgdir_idx addr + of_nat q))" if "q < 2"
    using that e ne by (auto simp: less_2_cases_iff algebra_simps)
  show "mem s' x = mem s x" if "x \<notin> area_cells fs" using that e by (auto simp: area_cells_def algebra_simps)
qed

text \<open>\<^bold>\<open>C36.\<close> Accesses through the first copy area are accesses to the memory of the receiver: the walk for an address in the
  window, with the sender's page tables after the window was set up, gives the same frame or fault as the walk for the
  receiver's address with the receiver's page tables, up to the end of the second 4 MB of the window. The page
  tables of the receiver must not contain the sender's entries for the window.\<close>

theorem copy_area_window:
  assumes "fs = space (tcbs s from)" and "ts = space (tcbs s (tid_to_tcb (partner (tcbs s from))))"
    and "\<forall>va. walk_cells ts va s \<inter> area_cells fs = {}" and "addr < TCB_AREA" and "copy_area1 (tcbs s from) = COPYAREA_INVALID"
    and "get_copy_area from to addr s = (a, s')" and "unat (addr AND mask 22) + k < 2 ^ 23"
  shows "mmu fs w (a + of_nat k) s' = mmu ts w (addr + of_nat k) s"
proof -
  let ?o = "unat (addr AND mask 22) + k" and ?B = "addr AND NOT (mask 22)"
  define s1 where "s1 = map_copy_area from MEM_COPYAREA1 addr (upd_tcb from (\<lambda>c. c\<lparr>copy_area1 := addr AND PAGEDIR_MASK\<rparr>) s)"
  have a: "a = MEM_COPYAREA1 + (addr AND mask 22)" "mem s' = mem s1"
    using assms(5,6) by (auto simp: get_copy_area_def Let_def PAGEDIR_MASK_def PAGEDIR_BITS_def s1_def algebra_simps)
  have ak: "a + of_nat k = MEM_COPYAREA1 + of_nat ?o" "addr + of_nat k = ?B + of_nat ?o"
    using split_addr [of addr] by (simp_all add: a algebra_simps)
  have M: "MEM_COPYAREA1 AND mask 22 = 0" "unat MEM_COPYAREA1 + 2 ^ 23 \<le> 2 ^ 32" by (simp_all add: MEM_COPYAREA1_def mask_eq_exp_minus_1)
  have d: "drop_bit 22 (a + of_nat k) = pgdir_idx MEM_COPYAREA1 + of_nat (?o div 2 ^ 22)"
    "drop_bit 22 (addr + of_nat k) = pgdir_idx addr + of_nat (?o div 2 ^ 22)" "(a + of_nat k) AND mask 22 = (addr + of_nat k) AND mask 22"
    unfolding ak dir_offset [OF M assms(7)] dir_offset [OF base_addr(1,2) [OF assms(4)] assms(7)] base_addr(3) [OF assms(4)]
    by (simp_all only: pgdir_idx_def)
  have q: "?o div 2 ^ 22 < 2" using assms(7) by (simp add: less_mult_imp_div_less)
  define s0 where "s0 = upd_tcb from (\<lambda>c. c\<lparr>copy_area1 := addr AND PAGEDIR_MASK\<rparr>) s"
  have s0: "mem s0 = mem s" "fs = space (tcbs s0 from)" "ts = space (tcbs s0 (tid_to_tcb (partner (tcbs s0 from))))" 
    "\<forall>va. walk_cells ts va s0 \<inter> area_cells fs = {}"
    using assms(1-3) by (simp_all add: s0_def walk_cells_def upd_tcb_def)
  note m = map_copy_area_mem [OF s0(2-4) assms(4), folded s0_def s1_def]
  define d0 where "d0 = mem s (pagedir ts + 4 * drop_bit 22 (addr + of_nat k))"
  have "mem s' (phys_to_virt fs + 4 * drop_bit 22 (a + of_nat k)) = d0"
    using m(1) [OF q] by (simp add: a(2) d(1,2) d0_def pagedir_def s0(1) s1_def s0_def)
  then have "mmu fs w (a + of_nat k) s' = walk w d0 ((addr + of_nat k) AND mask 22) s'" by (simp only: mmu_walk d(3))
  also have "\<dots> = walk w d0 ((addr + of_nat k) AND mask 22) s"
  proof (rule walk_cong, rule impI)
    have "phys_to_virt (d0 AND NOT (mask 12)) + 4 * drop_bit 12 ((addr + of_nat k) AND mask 22) \<in> walk_cells ts (addr + of_nat k) s"
      by (simp add: walk_cells_def Let_def d0_def pagedir_def)
    then show "mem s' (phys_to_virt (d0 AND NOT (mask 12)) + 4 * drop_bit 12 ((addr + of_nat k) AND mask 22)) =
        mem s (phys_to_virt (d0 AND NOT (mask 12)) + 4 * drop_bit 12 ((addr + of_nat k) AND mask 22))"
      using m(2) assms(3) by (auto simp: a(2) s0(1) s1_def s0_def)
  qed
  finally show ?thesis by (simp add: mmu_walk d0_def pagedir_def)
qed

text \<open>A sender and a receiver that has one 4 MB page.\<close>

definition demo_window :: kstate where
  "demo_window = (upd_tcb 0xE0020000 (\<lambda>c. c\<lparr>space := 0x00400000, partner := 0x30000, copy_area1 := COPYAREA_INVALID\<rparr>)
     (upd_tcb 0xE0030000 (\<lambda>c. c\<lparr>space := 0x00500000\<rparr>) (boot_state 0xF0110000)))\<lparr>mem := (\<lambda>_. 0)(0xF0500008 := 0x01000083)\<rparr>"

lemma small_offsets: "unat (4 * drop_bit 22 va) \<le> 4092" "unat (4 * drop_bit 12 (va AND mask 22)) \<le> 4092" for va :: dword_t
proof -
  have "unat va < 2 ^ LENGTH(32)" by (rule unsigned_less)
  then have "unat (drop_bit 22 va) < 1024"
    unfolding unat_drop_bit_eq unfolding drop_bit_eq_div by (simp add: less_mult_imp_div_less)
  then show "unat (4 * drop_bit 22 va) \<le> 4092" by (simp add: unat_word_ariths)
  have "unat (va AND mask 22) < 2 ^ 22" by (metis take_bit_eq_mask take_bit_nat_less_exp unsigned_take_bit_eq)
  then have "unat (drop_bit 12 (va AND mask 22)) < 1024" 
    unfolding unat_drop_bit_eq unfolding drop_bit_eq_div by (simp add: less_mult_imp_div_less)
  then show "unat (4 * drop_bit 12 (va AND mask 22)) \<le> 4092" by (simp add: unat_word_ariths)
qed

lemma off_const: "unat x \<le> 4092 \<Longrightarrow> 4092 < unat (c - b) \<Longrightarrow> b + x \<noteq> c" for x :: dword_t
  by auto

lemma demo_area: "area_cells 0x00400000 = {0xF0400E20, 0xF0400E24}"
  by (simp add: area_cells_def phys_to_virt_def KERNEL_OFFSET_def pagedir_def pgdir_idx_def MEM_COPYAREA1_def)

lemma demo_off: "unat x \<le> 4092 \<Longrightarrow> b = 0xF0000000 \<or> b = 0xF1000000 \<or> b = 0xF0500000 \<Longrightarrow> b + x \<notin> area_cells 0x00400000"
  unfolding demo_area using off_const [of x "0xF0400E20" b] off_const [of x "0xF0400E24" b] by auto

lemma demo_window_apart: "walk_cells 0x00500000 va demo_window \<inter> area_cells 0x00400000 = {}"
proof -
  have z: "phys_to_virt 0 = 0xF0000000" "phys_to_virt (0x01000083 AND NOT (mask 12)) = 0xF1000000" "phys_to_virt 0x00500000 = 0xF0500000"
    by (simp_all add: phys_to_virt_def KERNEL_OFFSET_def mask_eq_exp_minus_1)
  have "mem demo_window x = 0 \<or> mem demo_window x = 0x01000083" for x by (simp add: demo_window_def)
  then have p: "phys_to_virt (mem demo_window x AND NOT (mask 12)) = 0xF0000000 \<or> phys_to_virt (mem demo_window x AND NOT (mask 12)) = 0xF1000000" for x
    using z by (metis and_zero_eq and.commute)
  show ?thesis using demo_off [OF small_offsets(1)] demo_off [OF small_offsets(2)] p unfolding walk_cells_def Let_def z by blast
qed

lemma demo_window_facts:
  "space (tcbs demo_window 0xE0020000) = 0x00400000" "space (tcbs demo_window 0xE0030000) = 0x00500000"
  "partner (tcbs demo_window 0xE0020000) = 0x30000" "copy_area1 (tcbs demo_window 0xE0020000) = COPYAREA_INVALID"
  by (simp_all add: demo_window_def)

theorem copy_area_window_witness:
  "case get_copy_area 0xE0020000 0xE0030000 0x00800000 demo_window of (a, s') \<Rightarrow> mmu 0x00400000 True (a + of_nat 5) s' = Some 0x01000005"
proof -
  obtain a s' where g: "get_copy_area 0xE0020000 0xE0030000 0x00800000 demo_window = (a, s')" by (cases "get_copy_area 0xE0020000 0xE0030000 0x00800000 demo_window")
  have t: "tid_to_tcb 0x30000 = 0xE0030000" by (simp add: demo_tids)
  have r: "mmu 0x00500000 True (0x00800000 + of_nat 5) demo_window = Some 0x01000005"
    by (simp add: mmu_def Let_def demo_window_def phys_to_virt_def KERNEL_OFFSET_def PAGE_VALID_def PAGE_WRITABLE_def PAGE_SUPER_def mask_eq_exp_minus_1)
  have "mmu 0x00400000 True (a + of_nat 5) s' = mmu 0x00500000 True (0x00800000 + of_nat 5) demo_window"
    by (rule copy_area_window [of "0x00400000" demo_window "0xE0020000" "0x00500000" "0x00800000" "0xE0030000" a s' 5 True])
      (simp_all add: demo_window_facts t g demo_window_apart TCB_AREA_def mask_eq_exp_minus_1)
  then show ?thesis using g r by simp
qed

section \<open>The memory of sigma0\<close>

lemma pgent_dir: "pgent sp n = phys_to_virt sp + 4 * n"
  by (simp add: pgent_def phys_to_virt_def)

lemma flag_tests:
  "x AND PAGE_VALID = 0 \<longleftrightarrow> \<not> bit x 0" "x AND PAGE_WRITABLE = 0 \<longleftrightarrow> \<not> bit x 1" "x AND PAGE_USER = 0 \<longleftrightarrow> \<not> bit x 2"
  "x AND PAGE_SUPER = 0 \<longleftrightarrow> \<not> bit x 7"
  using and_exp_eq_0_iff_not_bit [of x 0] and_exp_eq_0_iff_not_bit [of x 1] and_exp_eq_0_iff_not_bit [of x 2] and_exp_eq_0_iff_not_bit [of x 7]
  by (simp_all add: PAGE_VALID_def PAGE_WRITABLE_def PAGE_USER_def PAGE_SUPER_def)

lemma flag_bits:
  "bit PAGE_SIGMA0_BITS n \<longleftrightarrow> n < 3" "bit PAGE_SUPER n \<longleftrightarrow> n = 7" "bit PAGE_FLAGS_MASK n \<longleftrightarrow> n < 7 \<or> n = 8"
  "bit PAGE_TCB_BITS n \<longleftrightarrow> n < 2 \<or> n = 8" "bit PAGEDIR_MASK n \<longleftrightarrow> 22 \<le> n \<and> n < 32"
proof -
  have e: "PAGE_SIGMA0_BITS = mask 3" "PAGE_SUPER = push_bit 7 1" "PAGE_FLAGS_MASK = mask 7 OR push_bit 8 1" "PAGE_TCB_BITS = mask 2 OR push_bit 8 1"
    "PAGEDIR_MASK = NOT (mask 22)"
    by (simp_all add: PAGE_SIGMA0_BITS_def PAGE_SUPER_def PAGE_FLAGS_MASK_def PAGE_TCB_BITS_def PAGEDIR_MASK_def PAGEDIR_BITS_def PAGE_VALID_def
        PAGE_USER_def PAGE_WRITABLE_def PAGE_GLOBAL_def mask_eq_exp_minus_1)
  show "bit PAGE_SIGMA0_BITS n \<longleftrightarrow> n < 3" "bit PAGE_FLAGS_MASK n \<longleftrightarrow> n < 7 \<or> n = 8"
    "bit PAGE_TCB_BITS n \<longleftrightarrow> n < 2 \<or> n = 8" "bit PAGEDIR_MASK n \<longleftrightarrow> 22 \<le> n \<and> n < 32" "bit PAGE_SUPER n \<longleftrightarrow> n = 7"
    unfolding e by (simp_all only: bit_or_iff bit_and_iff bit_not_iff bit_mask_iff bit_push_bit_iff bit_1_iff possible_bit_word) auto
qed

lemma same_dir: "pgdir_idx va = pgdir_idx b \<Longrightarrow> 22 \<le> n \<Longrightarrow> bit va n = bit b n"
proof -
  assume "pgdir_idx va = pgdir_idx b" "22 \<le> n"
  then have "bit (drop_bit 22 va) (n - 22) = bit (drop_bit 22 b) (n - 22)" by (simp add: pgdir_idx_def)
  then show "bit va n = bit b n" using \<open>22 \<le> n\<close> by (simp add: bit_drop_bit_eq)
qed

text \<open>A page fault of sigma0 below the kernel area maps the 4 MB around the faulting address to themselves, writable and
  accessible to the user, and no other address of its space is affected.\<close>

theorem sigma0_fault_identity:
  assumes "PF_USERMODE errcode" and "cur = current s" and "cur \<le> TCB_AREA + TCB_AREA_SIZE" and "same_address_space cur (sigma0 s) s"
    and "fault = (cr2 AND NOT PAGE_WRITABLE) OR (errcode AND PAGE_WRITABLE)" and "fault < TCB_AREA" and "sp = space (tcbs s cur)"
  shows "\<exists>s'. pagefault e stk cr2 errcode ip s = Ok (Pf_done, s') \<and> s' = s\<lparr>mem := mem s'\<rparr> \<and>
    (\<forall>va w. pgdir_idx va = pgdir_idx fault \<longrightarrow> mmu sp w va s' = Some va) \<and>
    mem s' (pgent sp (pgdir_idx fault)) AND PAGE_USER \<noteq> 0 \<and> (\<forall>x. x \<noteq> pgent sp (pgdir_idx fault) \<longrightarrow> mem s' x = mem s x)"
proof -
  let ?pg = "pgent sp (pgdir_idx fault)"
  define s' where "s' = set_flags ?pg PAGE_SIGMA0_BITS (set_address ?pg 1 (fault AND PAGEDIR_MASK) s)"
  have c: "\<not> current s > TCB_AREA + TCB_AREA_SIZE" "\<not> fault \<ge> TCB_AREA" using assms(2,3,6) by auto
  then have "pagefault e stk cr2 errcode ip s = Ok (Pf_done, s')"
    using assms(1,4) unfolding pagefault_def Let_def get_current_tcb_def assms(2) [symmetric] assms(5) [symmetric] s'_def assms(7)
    by (simp add: pf_user_fault_def Let_def del: not_le not_less)
  moreover have m: "mem s' = (mem s)(?pg := ((((mem s ?pg AND NOT PAGE_MASK) OR ((fault AND PAGEDIR_MASK) AND PAGE_MASK) OR PAGE_SUPER) AND NOT PAGE_FLAGS_MASK)
      OR PAGE_SIGMA0_BITS))" by (simp add: s'_def set_flags_def set_address_def)
  moreover have "s' = s\<lparr>mem := mem s'\<rparr>" by (simp add: s'_def set_flags_def set_address_def wr_def)
  moreover have d: "bit (mem s' ?pg) n \<longleftrightarrow> bit fault n" if "22 \<le> n" for n
    using that bit_imp_le_length [of fault n] unfolding m by (auto simp: bit_simps flag_bits mask_bits)
  moreover have f: "bit (mem s' ?pg) 0" "bit (mem s' ?pg) 1" "bit (mem s' ?pg) 2" "bit (mem s' ?pg) 7"
    unfolding m by (simp_all add: bit_simps flag_bits)
  moreover have "mmu sp w va s' = Some va" if "pgdir_idx va = pgdir_idx fault" for va w
  proof -
    have "(mem s' ?pg AND NOT (mask 22)) OR (va AND mask 22) = va"
      by (rule bit_word_eqI) (auto simp: bit_simps d same_dir [OF that])
    then show ?thesis using f that by (simp add: mmu_walk walk_def pgent_dir pgdir_idx_def flag_tests)
  qed
  ultimately show ?thesis by (auto simp: flag_tests)
qed

definition demo_penv :: penv where
  "demo_penv = \<lparr>p_kenv = demo_env, p_ienv = demo_ienv, zero_page = 0xF0110000, kdebug_saved_esp = 0, notify_copy_pagefault = 0xF0120000, timeout_junk = 0\<rparr>"

definition demo_sigma0 :: kstate where
  "demo_sigma0 = (upd_tcb 0xE0020000 (\<lambda>c. c\<lparr>space := 0x00400000\<rparr>) (boot_state 0xF0110000))\<lparr>current := 0xE0020000, sigma0 := 0xE0020000\<rparr>"

theorem sigma0_fault_identity_witness:
  "\<exists>s'. pagefault demo_penv 0 0x00801234 6 0 demo_sigma0 = Ok (Pf_done, s') \<and> mmu 0x00400000 True 0x00900000 s' = Some 0x00900000"
proof -
  have f: "(0x00801234 AND NOT PAGE_WRITABLE) OR (6 AND PAGE_WRITABLE) = (0x00801236 :: dword_t)" by (simp add: PAGE_WRITABLE_def)
  have "PF_USERMODE 6" "0xE0020000 \<le> TCB_AREA + TCB_AREA_SIZE" "(0x00801236 :: dword_t) < TCB_AREA" "pgdir_idx 0x00900000 = pgdir_idx 0x00801236"
    "current demo_sigma0 = 0xE0020000" "sigma0 demo_sigma0 = 0xE0020000" "space (tcbs demo_sigma0 0xE0020000) = 0x00400000"
    "same_address_space 0xE0020000 0xE0020000 demo_sigma0"
    by (simp_all add: PF_USERMODE_def PAGE_USER_def TCB_AREA_def TCB_AREA_SIZE_def pgdir_idx_def demo_sigma0_def same_address_space_def)
  then show ?thesis
    using sigma0_fault_identity [of 6 "0xE0020000" demo_sigma0 "0x00801236" "0x00801234" "0x00400000" demo_penv 0 0] unfolding f by auto
qed

section \<open>Pages for thread control blocks\<close>

lemma page_parts:
  fixes va b :: dword_t
  assumes "va AND NOT (mask 12) = b AND NOT (mask 12)"
  shows "drop_bit 22 va = drop_bit 22 b" "drop_bit 12 va AND mask 10 = pgtab_idx b"
proof -
  have e: "bit va n = bit b n" if "12 \<le> n" for n
    using arg_cong [OF assms, of "\<lambda>x. bit x n"] that bit_imp_le_length [of va n] bit_imp_le_length [of b n] by (auto simp: bit_simps)
  show "drop_bit 22 va = drop_bit 22 b" by (rule bit_word_eqI) (simp add: bit_drop_bit_eq e)
  have "bit (drop_bit 2 PAGE_MASK) n \<longleftrightarrow> 10 \<le> n \<and> n < 30" for n by (auto simp: bit_simps mask_bits)
  moreover have l: "n < 30" if "bit b (12 + n)" for n using bit_imp_le_length [OF that] by simp
  ultimately show "drop_bit 12 va AND mask 10 = pgtab_idx b"
    by (intro bit_word_eqI) (auto simp: pgtab_idx_def bit_simps e dest: l)
qed

lemma tcb_pte:
  assumes "frame AND mask 12 = 0"
  shows "bit (((x AND NOT PAGE_MASK) OR (frame AND PAGE_MASK)) AND NOT PAGE_FLAGS_MASK OR PAGE_TCB_BITS) 0"
    "bit (((x AND NOT PAGE_MASK) OR (frame AND PAGE_MASK)) AND NOT PAGE_FLAGS_MASK OR PAGE_TCB_BITS) 1"
    "(((x AND NOT PAGE_MASK) OR (frame AND PAGE_MASK)) AND NOT PAGE_FLAGS_MASK OR PAGE_TCB_BITS) AND NOT (mask 12) = frame"
proof -
  have f: "12 \<le> n" if "bit frame n" for n using arg_cong [OF assms, of "\<lambda>x. bit x n"] that by (cases "12 \<le> n") (simp_all add: bit_simps)
  show "(((x AND NOT PAGE_MASK) OR (frame AND PAGE_MASK)) AND NOT PAGE_FLAGS_MASK OR PAGE_TCB_BITS) AND NOT (mask 12) = frame"
    by (rule bit_word_eqI) (auto simp: bit_simps flag_bits mask_bits dest: f)
qed (simp_all add: bit_simps flag_bits)

lemma or_page_offset: "frame AND mask 12 = 0 \<Longrightarrow> frame OR (va AND mask 12) = frame + (va AND mask 12)" for frame va :: dword_t
  by (rule disjunctive_add [symmetric]) (metis bit_and_iff bit_0_eq bot_apply bot_bool_def)

text \<open>The walk to a page that was just entered into a second-level table.\<close>

lemma mmu_new_page:
  assumes "cr3 s AND mask 12 = 0" "pg_f = pgent (get_current_space s) (pgdir_idx fault)" "is_valid pg_f s'" "is_writable pg_f s'" "is_subtree pg_f 1 s'"
    and "pg = pg_next (subtree pg_f s') (pgtab_idx fault)" "pg \<noteq> pg_f" "frame AND mask 12 = 0" "va AND NOT (mask 12) = fault AND NOT (mask 12)"
  shows "mmu (cr3 s) True va (set_flags pg PAGE_TCB_BITS (set_address pg 0 frame s')) = Some (frame + (va AND mask 12))"
proof -
  let ?e = "((mem s' pg AND NOT PAGE_MASK) OR (frame AND PAGE_MASK)) AND NOT PAGE_FLAGS_MASK OR PAGE_TCB_BITS"
  let ?s = "set_flags pg PAGE_TCB_BITS (set_address pg 0 frame s')"
  have sp: "get_current_space s = cr3 s"
    using assms(1) masked_id(2) [of "cr3 s"] by (simp add: get_current_space_def mask_eq_exp_minus_1)
  have m: "mem ?s = (mem s')(pg := ?e)" by (simp add: set_flags_def set_address_def)
  have f: "phys_to_virt (cr3 s) + 4 * drop_bit 22 va = pg_f" using page_parts(1) [OF assms(9)] by (simp add: assms(2) sp pgent_dir pgdir_idx_def)
  have pm: "PAGE_MASK = NOT (mask 12)" by (rule bit_word_eqI) (auto simp: mask_bits bit_simps)
  have g: "phys_to_virt (mem s' pg_f AND NOT (mask 12)) + 4 * (drop_bit 12 va AND mask 10) = pg"
    unfolding assms(6) page_parts(2) [OF assms(9)] by (simp add: pg_next_def subtree_def pm)
  have "mem ?s pg_f = mem s' pg_f" "mem ?s pg = ?e" using assms(7) by (simp_all add: m)
  then show ?thesis
    unfolding mmu_def Let_def f using g assms(3-5) tcb_pte [OF assms(8), of "mem s' pg"]
    by (simp add: flag_tests is_valid_def is_writable_def is_subtree_def or_page_offset [OF assms(8)])
qed

text \<open>The page for a block: the first aligned run of free chunks, or the null pointer.\<close>

definition tcb_page :: "ptr_t list \<Rightarrow> ptr_t" where
  "tcb_page xs = (case alloc_split 4096 4 xs of Some (pre, c, rest) \<Rightarrow> c | None \<Rightarrow> NULL)"

lemma alloc_page:
  fixes s :: "'a kmem_scheme"
  assumes "kmem_inv s xs"
  shows "\<exists>s'. kmem_alloc PAGE_SIZE s = Some (tcb_page xs, s') \<and> kmem.more s' = kmem.more s \<and> tcb_page xs AND mask 12 = 0 \<and>
    (\<forall>x. outside xs x \<longrightarrow> mem s' x = mem s x) \<and>
    (tcb_page xs \<noteq> NULL \<longrightarrow> (\<forall>x. unat (tcb_page xs) \<le> unat x \<and> unat x < unat (tcb_page xs) + 4096 \<and> 4 dvd unat x \<longrightarrow> mem s' x = 0))"
proof -
  have sz: "PAGE_SIZE = 4096" "Suc 3 = 4" "1024 * 4 = (4096 :: nat)" "of_nat 4096 = (4096 :: dword_t)" by (simp_all add: PAGE_SIZE_def)
  show ?thesis
  proof (cases "alloc_split 4096 4 xs")
    case None
    then show ?thesis using kmem_alloc_miss [OF assms, of 3, unfolded sz] by (simp add: tcb_page_def sz(1))
  next
    case (Some r)
    then obtain pre c rest where r: "alloc_split 4096 4 xs = Some (pre, c, rest)" by (cases r) auto
    have x: "xs = pre @ chunks c (Suc 3) @ rest" "c AND (4096 - 1) = 0" using alloc_split_Some [OF r] by simp_all
    have fit: "unat c + 1024 * Suc 3 \<le> 2 ^ 32" using kmem_inv_around(3) [of s pre c 3 rest] assms x(1) by simp
    obtain s' where s': "kmem_alloc PAGE_SIZE s = Some (c, s')" "kmem.more s' = kmem.more s"
      "\<forall>x. unat c \<le> unat x \<and> unat x < unat c + 4096 \<and> 4 dvd unat x \<longrightarrow> mem s' x = 0"
      "\<forall>x. unat x < unat c \<or> unat c + 4096 \<le> unat x \<longrightarrow> x \<notin> set pre \<longrightarrow> mem s' x = mem s x"
      unfolding sz(1) using kmem_alloc_hit [OF assms, of 3, unfolded sz, OF r] by blast
    have "mem s' y = mem s y" if "outside xs y" for y using s'(4) outside_run [OF that x(1) fit, unfolded sz] by blast
    moreover have "tcb_page xs = c" by (simp add: tcb_page_def r)
    ultimately show ?thesis using s'(1-3) x(2) by (simp add: mask_eq_exp_minus_1)
  qed
qed

text \<open>\<^bold>\<open>C35.\<close> A write access of the kernel to a block without a page, with a second-level table present: the handler takes a page
  from the kernel's memory, and the access and all others to the page then go to it; the page is zero. The result of
  the allocation is not checked: when memory is exhausted, the block is placed at the physical address 0x10000000.\<close>

theorem tcb_fault_maps:
  assumes "\<not> PF_USERMODE errcode" and "PF_WRITE errcode" and "fault = (cr2 AND NOT PAGE_WRITABLE) OR (errcode AND PAGE_WRITABLE)"
    and "TCB_AREA \<le> fault" and "fault < TCB_AREA + TCB_AREA_SIZE" and "cr3 s AND mask 12 = 0"
    and "pg_f = pgent (get_current_space s) (pgdir_idx fault)" and "is_valid pg_f s" and "is_writable pg_f s" and "is_subtree pg_f 1 s"
    and "pg = pg_next (subtree pg_f s) (pgtab_idx fault)" and "pg \<noteq> pg_f" and "kmem_inv s xs" and "outside xs pg_f" and "outside xs pg"
  shows "\<exists>s'. pagefault e stk cr2 errcode ip s = Ok (Pf_done, s') \<and>
    (\<forall>va. va AND NOT (mask 12) = fault AND NOT (mask 12) \<longrightarrow> mmu (cr3 s) True va s' = Some (virt_to_phys (tcb_page xs) + (va AND mask 12))) \<and>
    (if tcb_page xs = NULL then virt_to_phys (tcb_page xs) = 0x10000000
     else \<forall>x. unat (tcb_page xs) \<le> unat x \<and> unat x < unat (tcb_page xs) + 4096 \<and> 4 dvd unat x \<and> x \<noteq> pg \<longrightarrow> mem s' x = 0)"
proof -
  obtain s1 where s1: "kmem_alloc PAGE_SIZE s = Some (tcb_page xs, s1)" "tcb_page xs AND mask 12 = 0" "mem s1 pg_f = mem s pg_f" "mem s1 pg = mem s pg"
    "tcb_page xs \<noteq> NULL \<longrightarrow> (\<forall>x. unat (tcb_page xs) \<le> unat x \<and> unat x < unat (tcb_page xs) + 4096 \<and> 4 dvd unat x \<longrightarrow> mem s1 x = 0)"
    using alloc_page [OF assms(13)] assms(14,15) by blast
  define s' where "s' = set_flags pg PAGE_TCB_BITS (set_address pg 0 (virt_to_phys (tcb_page xs)) s1)"
  have "pf_tcb_area e fault errcode s = Some s'"
    using assms(2,8,10) s1(1) unfolding pf_tcb_area_def Let_def assms(7) [symmetric] s'_def by (simp add: assms(11))
  moreover have "\<not> fault < TCB_AREA" using assms(4) by auto
  ultimately have run: "pagefault e stk cr2 errcode ip s = Ok (Pf_done, s')"
    using assms(1,5) unfolding pagefault_def Let_def assms(3) [symmetric] by (simp del: not_less)
  have fr: "virt_to_phys (tcb_page xs) AND mask 12 = 0" using s1(2) by (rule phys_page)
  have "mmu (cr3 s) True va s' = Some (virt_to_phys (tcb_page xs) + (va AND mask 12))" if "va AND NOT (mask 12) = fault AND NOT (mask 12)" for va
    unfolding s'_def
    by (rule mmu_new_page [OF assms(6,7) _ _ _ _ assms(12) fr that])
      (use assms(8-11) s1(3) in \<open>simp_all add: is_valid_def is_writable_def is_subtree_def subtree_def\<close>)
  moreover have "mem s' x = mem s1 x" if "x \<noteq> pg" for x using that by (simp add: s'_def set_flags_def set_address_def)
  ultimately show ?thesis using run s1(5) by (auto simp: virt_to_phys_def KERNEL_OFFSET_def)
qed

definition demo_fault :: kstate where
  "demo_fault = (boot_state 0xF0110000)\<lparr>mem := (\<lambda>p. if p = 0xF0101000 then 0 else p + 1024)(0xF0200E00 := 0x00300007),
     kmem_free_list := 0xF0100000, free_chunks := 5, cr3 := 0x00200000\<rparr>"

lemma demo_fault_inv: "kmem_inv demo_fault (chunks 0xF0100000 5)" "tcb_page (chunks 0xF0100000 5) = 0xF0100000"
  by (simp_all add: demo_fault_def kmem_inv_def chunks_def chunk_aligned_def upt_rec dvd_def tcb_page_def)

theorem tcb_fault_maps_witness:
  "\<exists>s'. pagefault demo_penv 0 0xE0001000 2 0 demo_fault = Ok (Pf_done, s') \<and> mmu 0x00200000 True 0xE0001234 s' = Some 0x00100234"
proof -
  have f: "(0xE0001000 AND NOT PAGE_WRITABLE) OR (2 AND PAGE_WRITABLE) = (0xE0001002 :: dword_t)" by (simp add: PAGE_WRITABLE_def)
  have d: "pgent (get_current_space demo_fault) (pgdir_idx 0xE0001002) = 0xF0200E00" "cr3 demo_fault = 0x00200000"
    "is_valid 0xF0200E00 demo_fault" "is_writable 0xF0200E00 demo_fault" "is_subtree 0xF0200E00 1 demo_fault"
    "pg_next (subtree 0xF0200E00 demo_fault) (pgtab_idx 0xE0001002) = 0xF0300004"
    by (simp_all add: pgent_def get_current_space_def demo_fault_def PAGE_MASK_def PAGE_SIZE_def phys_to_virt_def KERNEL_OFFSET_def pgdir_idx_def
        is_valid_def is_writable_def is_subtree_def PAGE_VALID_def PAGE_WRITABLE_def PAGE_SUPER_def pg_next_def subtree_def pgtab_idx_def)
  have o: "outside (chunks 0xF0100000 5) 0xF0200E00" "outside (chunks 0xF0100000 5) 0xF0300004"
    by (simp_all add: outside_def chunks_def upt_rec)
  have "\<exists>s'. pagefault demo_penv 0 0xE0001000 2 0 demo_fault = Ok (Pf_done, s') \<and>
    (\<forall>va. va AND NOT (mask 12) = 0xE0001002 AND NOT (mask 12) \<longrightarrow> mmu (cr3 demo_fault) True va s' = Some (virt_to_phys 0xF0100000 + (va AND mask 12)))"
    using tcb_fault_maps [of 2 "0xE0001002" "0xE0001000" demo_fault "0xF0200E00" "0xF0300004" "chunks 0xF0100000 5" demo_penv 0 0] d o demo_fault_inv f
    by (simp add: PF_USERMODE_def PF_WRITE_def PAGE_USER_def PAGE_WRITABLE_def TCB_AREA_def TCB_AREA_SIZE_def mask_eq_exp_minus_1) blast
  then show ?thesis unfolding d(2) by (force simp: virt_to_phys_def KERNEL_OFFSET_def mask_eq_exp_minus_1)
qed

section \<open>The fault message\<close>

text \<open>The state after the message of a call was delivered to a waiting partner and the caller waits for its reply.\<close>

definition called :: "tptr \<Rightarrow> tptr \<Rightarrow> dword_t \<Rightarrow> kstate \<Rightarrow> kstate" where
  "called cur p rcv_desc s =
     (let s = set_msg_desc rcv_desc cur (deliver_short cur p s) in
      switch_to_thread p cur (set_thread_state TS_WAITING cur (set_partner (myself (tcbs s p)) cur s)))"

lemma call_waiting:
  assumes "p = tid_to_tcb dest" "cur \<noteq> p" "cur = current s" "myself (tcbs s p) = dest" "\<not> IS_KERNEL_ID dest" "IS_WAITING (tcbs s p)"
    and "partner (tcbs s p) \<in> {myself (tcbs s cur), L4_NIL_ID}" "\<not> IS_OPEN_WAIT rcv_desc" "IS_RECEIVE rcv_desc"
    and "intr_pending (tcbs s cur) AND IRQ_IN_SERVICE = 0" "IS_INFINITE_RECV_TIMEOUT (ipc_timeout (tcbs s cur))"
  shows "sys_ipc e dest 0 rcv_desc s = Ok (Suspended P_waiting, called cur p rcv_desc (set_partner dest cur s))"
proof -
  define s0 where "s0 = set_partner dest cur s"
  define s1 where "s1 = deliver_short cur p s0"
  have pn: "p \<noteq> NULL" using assms(1) tid_to_tcb_not_NULL by simp
  have f: "IS_WAITING (tcbs s0 p)" "partner (tcbs s0 p) = partner (tcbs s p)" "myself (tcbs s0 x) = myself (tcbs s x)" for x
    using assms(2,6) by (auto simp: s0_def set_defs)
  have "IS_SEND 0" by (simp add: IS_SEND_def)
  moreover have "\<not> (\<not> IS_WAITING (tcbs s0 p) \<or> partner (tcbs s0 p) \<noteq> myself (tcbs s0 cur) \<and> \<not> l4_is_nil_id (partner (tcbs s0 p)))"
    using f assms(7) by (auto simp: l4_is_nil_id_def)
  ultimately have "sys_ipc e dest 0 rcv_desc s = ipc_deliver e cur dest 0 rcv_desc s0"
    unfolding sys_ipc_def Let_def get_current_tcb_def assms(3) [symmetric] assms(1) [symmetric] s0_def [symmetric] assms(4)
    by (simp only: if_True if_False simp_thms)
  also have "\<dots> = ipc_receive cur p dest rcv_desc s1"
    using assms(9) unfolding ipc_deliver_def transfer_message_def Let_def assms(1) [symmetric] s1_def deliver_short_def
    by (simp add: set_msg_desc_def assms(2))
  also have "\<dots> = Ok (ipc_receive_from cur p p rcv_desc s1)"
  proof -
    have "intr_pending (tcbs s1 cur) = intr_pending (tcbs s cur)" "myself (tcbs s1 p) = dest"
      using assms(2,4) by (simp_all add: s1_def s0_def deliver_short_def Let_def set_defs)
    then show ?thesis using assms(5,8,10) by (simp add: ipc_receive_def assms(1) [symmetric])
  qed
  also have "ipc_receive_from cur p p rcv_desc s1 = (Suspended P_waiting, called cur p rcv_desc s0)"
  proof -
    have "thread_state (tcbs s p) = TS_WAITING"
      using assms(6) by (simp add: IS_WAITING_def TS_WAITING_def) (metis bit.double_compl bit.compl_zero)
    then have "\<not> IS_POLLING (tcbs (set_msg_desc rcv_desc cur s1) p)" "IS_INFINITE_RECV_TIMEOUT (ipc_timeout (tcbs (set_msg_desc rcv_desc cur s1) cur))"
      using assms(2,11) by (simp_all add: s1_def s0_def deliver_short_def Let_def set_defs IS_POLLING_def TS_WAITING_def TS_POLLING_def TSB_POLLING_def
          TSB_LOCKED_def TSB_READY_def)
    then show ?thesis using pn assms(8) by (simp add: ipc_receive_from_def ipc_wait_def Let_def called_def s1_def)
  qed
  finally show ?thesis by (simp add: s0_def)
qed

lemma called_spec:
  fixes rcv_desc :: dword_t
  assumes "cur \<noteq> p" "sched_ok s"
  defines "s' \<equiv> called cur p rcv_desc s"
  shows "sched_ok s'" "current s' = p" "idle_tcb s' = idle_tcb s" "thread_state (tcbs s' x) = (if x = cur then TS_WAITING else thread_state (tcbs s x))"
    "partner (tcbs s' p) = myself (tcbs s cur)" "partner (tcbs s' cur) = myself (tcbs s p)" "msg_desc (tcbs s' p) = 0"
    "i < 3 \<Longrightarrow> ipc_buffer (tcbs s' p) i = ipc_buffer (tcbs s cur) i"
proof -
  define s1 where "s1 = set_msg_desc rcv_desc cur (deliver_short cur p s)"
  define s2 where "s2 = set_thread_state TS_WAITING cur (set_partner (myself (tcbs s1 p)) cur s1)"
  have s': "s' = switch_to_thread p cur s2" by (simp add: s'_def called_def Let_def s1_def s2_def)
  have "sched_ok s2" unfolding s2_def s1_def deliver_short_def Let_def by (intro sched_ok_set sched_ok_upd assms(2)) simp_all
  then show "sched_ok s'" unfolding s' by (rule sched_ok_switch)
  show "current s' = p" "idle_tcb s' = idle_tcb s" by (simp_all add: s' s2_def s1_def set_defs deliver_short_def Let_def)
  show "thread_state (tcbs s' x) = (if x = cur then TS_WAITING else thread_state (tcbs s x))"
    "partner (tcbs s' p) = myself (tcbs s cur)" "partner (tcbs s' cur) = myself (tcbs s p)" "msg_desc (tcbs s' p) = 0"
    "i < 3 \<Longrightarrow> ipc_buffer (tcbs s' p) i = ipc_buffer (tcbs s cur) i"
    using assms(1) by (auto simp: s' ipc_same s2_def s1_def set_defs deliver_short_def Let_def numeral_3_eq_3 less_Suc_eq)
qed

text \<open>The message of a fault of the thread \<open>cur\<close> to its pager \<open>p\<close>, when the pager waits for the thread or for anyone and the
  thread waits without a timeout.\<close>

definition pager_ready :: "tptr \<Rightarrow> tptr \<Rightarrow> kstate \<Rightarrow> bool" where
  "pager_ready cur p s \<longleftrightarrow> cur = current s \<and> p = tid_to_tcb (pager (tcbs s cur)) \<and> cur \<noteq> p \<and> myself (tcbs s p) = pager (tcbs s cur) \<and>
     \<not> IS_KERNEL_ID (pager (tcbs s cur)) \<and> IS_WAITING (tcbs s p) \<and> partner (tcbs s p) \<in> {myself (tcbs s cur), L4_NIL_ID} \<and>
     intr_pending (tcbs s cur) AND IRQ_IN_SERVICE = 0 \<and> sched_ok s"

lemma fault_message:
  assumes rdy: "pager_ready cur p s" and inf: "IS_INFINITE_RECV_TIMEOUT (ipc_timeout (tcbs s cur))"
  shows "\<exists>s1 s2. do_pagefault_ipc e stk k cur fault ip s = Ok (Pf_ipc P_waiting (unwind_ipc_sp (tcbs s cur)) k, s1) \<and> current s1 = p \<and>
    ipc_resume (p_ienv e) P_waiting s1 = Ok (Ret_args (myself (tcbs s cur)) 0 fault ip 0, s2) \<and> sched_ok s2 \<and>
    thread_state (tcbs s2 p) = TS_RUNNING \<and> thread_state (tcbs s2 cur) = TS_WAITING \<and> partner (tcbs s2 cur) = pager (tcbs s cur)"
proof -
  define dest where "dest = pager (tcbs s cur)"
  have r: "cur = current s" "p = tid_to_tcb dest" "cur \<noteq> p" "myself (tcbs s p) = dest" "\<not> IS_KERNEL_ID dest" "IS_WAITING (tcbs s p)"
    "partner (tcbs s p) \<in> {myself (tcbs s cur), L4_NIL_ID}" "intr_pending (tcbs s cur) AND IRQ_IN_SERVICE = 0" "sched_ok s"
    using rdy unfolding pager_ready_def dest_def by blast+
  define sa where "sa = upd_tcb cur (\<lambda>c. c\<lparr>unwind_ipc_sp := stk\<rparr>) (upd_tcb cur (\<lambda>c. c\<lparr>ipc_buffer := (ipc_buffer c)(0 := fault, 1 := ip, 2 := 0)\<rparr>) s)"
  define sb where "sb = set_partner dest cur sa"
  define s1 where "s1 = called cur p IPC_PAGEFAULT_DOPE sb"
  have fa: "current sa = current s" "tcbs sa p = tcbs s p" "myself (tcbs sa cur) = myself (tcbs s cur)" "pager (tcbs sa cur) = dest"
    "intr_pending (tcbs sa cur) = intr_pending (tcbs s cur)" "IS_INFINITE_RECV_TIMEOUT (ipc_timeout (tcbs sa cur))"
    using r(3) inf by (simp_all add: sa_def dest_def)
  have d: "\<not> IS_OPEN_WAIT IPC_PAGEFAULT_DOPE" "IS_RECEIVE IPC_PAGEFAULT_DOPE"
    by (simp_all add: IS_OPEN_WAIT_def IS_RECEIVE_def IPC_PAGEFAULT_DOPE_def IPC_PAGEFAULT_FPAGE_def IPC_DESC_REGMAP_def)
  have ipc: "sys_ipc (p_ienv e) dest 0 IPC_PAGEFAULT_DOPE sa = Ok (Suspended P_waiting, s1)"
    unfolding s1_def sb_def by (rule call_waiting [OF r(2,3)]) (use r(1,4-8) d fa in simp_all)
  have run: "do_pagefault_ipc e stk k cur fault ip s = Ok (Pf_ipc P_waiting (unwind_ipc_sp (tcbs s cur)) k, s1)"
    using ipc fa(4) unfolding do_pagefault_ipc_def Let_def sa_def [symmetric] by (simp add: pf_returned_def)
  have ok: "sched_ok sb" unfolding sb_def sa_def by (intro sched_ok_set sched_ok_upd r(9)) simp_all
  note h = called_spec [OF r(3) ok, where rcv_desc = IPC_PAGEFAULT_DOPE, folded s1_def]
  have fb: "ipc_buffer (tcbs sb cur) 0 = fault" "ipc_buffer (tcbs sb cur) 1 = ip" "ipc_buffer (tcbs sb cur) 2 = 0" "myself (tcbs sb cur) = myself (tcbs s cur)"
    "myself (tcbs sb p) = dest" "thread_state (tcbs sb p) = thread_state (tcbs s p)" "idle_tcb sb = idle_tcb s"
    using r(3,4) by (simp_all add: sb_def sa_def set_defs)
  have st: "thread_state (tcbs s1 p) = TS_WAITING"
    using r(3,6) unfolding IS_WAITING_def h(4) by (simp add: fb TS_WAITING_def) (metis bit.double_compl bit.compl_zero)
  define s2 where "s2 = set_thread_state TS_RUNNING p (thread_dequeue_wakeup p (switch_resume p s1))"
  have res: "ipc_resume (p_ienv e) P_waiting s1 = Ok (Ret_args (myself (tcbs s cur)) 0 fault ip 0, s2)"
    using resume_waiting [of s1 "p_ienv e"] st h(2,5,7,8) by (simp add: Let_def s2_def fb fb(2) [unfolded One_nat_def])
  have "p \<noteq> NULL" "p \<noteq> idle_tcb s1" using r(2,9) tid_to_tcb_not_NULL idle_apartD h(3) fb(7) by (auto simp: sched_ok_def)
  then have ok2: "sched_ok s2" unfolding s2_def by (intro resumed_ok(1) h(1))
  have "thread_state (tcbs s2 p) = TS_RUNNING" "thread_state (tcbs s2 cur) = TS_WAITING" "partner (tcbs s2 cur) = dest"
    using r(3) by (simp_all add: s2_def set_thread_state_def ipc_same h(4,6) fb)
  then show ?thesis using run res ok2 h(2) unfolding dest_def by blast
qed

text \<open>\<^bold>\<open>C10.\<close> A page fault of a user thread below the kernel area becomes a message to its pager: when the pager waits for the thread
  or for anyone, it gets the processor, and its call returns the identifier of the thread, the fault address with the
  access type in bit 1, and the instruction pointer; the thread waits for the reply of the pager, without a timeout,
  and when it is resumed after the reply, the fault is done and the saved stack pointer is restored.\<close>

theorem pagefault_reaches_pager:
  assumes "PF_USERMODE errcode" and "cur = current s" and "cur \<le> TCB_AREA + TCB_AREA_SIZE" and "\<not> same_address_space cur (sigma0 s) s"
    and "fault = (cr2 AND NOT PAGE_WRITABLE) OR (errcode AND PAGE_WRITABLE)" and "fault < TCB_AREA"
    and "dest = pager (tcbs s cur)" and "p = tid_to_tcb dest" and "cur \<noteq> p" and "myself (tcbs s p) = dest" and "\<not> IS_KERNEL_ID dest"
    and "IS_WAITING (tcbs s p)" and "partner (tcbs s p) \<in> {myself (tcbs s cur), L4_NIL_ID}"
    and "intr_pending (tcbs s cur) AND IRQ_IN_SERVICE = 0" and "sched_ok s"
  shows "\<exists>s1 s2. pagefault e stk cr2 errcode ip s = Ok (Pf_ipc P_waiting (unwind_ipc_sp (tcbs s cur)) Pf_user, s1) \<and> current s1 = p \<and>
    ipc_resume (p_ienv e) P_waiting s1 = Ok (Ret_args (myself (tcbs s cur)) 0 fault ip 0, s2) \<and> sched_ok s2 \<and>
    thread_state (tcbs s2 p) = TS_RUNNING \<and> thread_state (tcbs s2 cur) = TS_WAITING \<and> partner (tcbs s2 cur) = dest \<and>
    (\<forall>s3. current s3 = cur \<and> thread_state (tcbs s3 cur) \<noteq> TS_RUNNING \<longrightarrow>
       (\<exists>s4. pf_resume e (Pf_ipc P_waiting (unwind_ipc_sp (tcbs s cur)) Pf_user) s3 = Ok (Pf_done, s4) \<and>
          unwind_ipc_sp (tcbs s4 cur) = unwind_ipc_sp (tcbs s cur) \<and> thread_state (tcbs s4 cur) = TS_RUNNING))"
proof -
  define sa where "sa = upd_tcb cur (\<lambda>c. c\<lparr>ipc_timeout := TIMEOUT_NEVER\<rparr>) s"
  have same: "unwind_ipc_sp (tcbs sa cur) = unwind_ipc_sp (tcbs s cur)" "myself (tcbs sa cur) = myself (tcbs s cur)" "pager (tcbs sa cur) = dest"
    using assms(7) by (simp_all add: sa_def)
  have ok: "sched_ok sa" unfolding sa_def by (intro sched_ok_upd assms(15)) simp_all
  have "pager_ready cur p sa"
    unfolding pager_ready_def same(3) using assms(2,8-14) ok by (simp add: sa_def assms(7) [symmetric])
  moreover have "IS_INFINITE_RECV_TIMEOUT (ipc_timeout (tcbs sa cur))"
    by (simp add: sa_def TIMEOUT_NEVER_def IS_INFINITE_RECV_TIMEOUT_def rcv_exp_def)
  ultimately obtain s1 s2 where m: "do_pagefault_ipc e stk Pf_user cur fault ip sa = Ok (Pf_ipc P_waiting (unwind_ipc_sp (tcbs s cur)) Pf_user, s1)"
    "current s1 = p" "ipc_resume (p_ienv e) P_waiting s1 = Ok (Ret_args (myself (tcbs s cur)) 0 fault ip 0, s2)" "sched_ok s2"
    "thread_state (tcbs s2 p) = TS_RUNNING" "thread_state (tcbs s2 cur) = TS_WAITING" "partner (tcbs s2 cur) = dest"
    using fault_message [of cur p sa e stk Pf_user fault ip] unfolding same by blast
  have c: "\<not> cur > TCB_AREA + TCB_AREA_SIZE" "\<not> fault \<ge> TCB_AREA" using assms(3,6) by auto
  have run: "pagefault e stk cr2 errcode ip s = Ok (Pf_ipc P_waiting (unwind_ipc_sp (tcbs s cur)) Pf_user, s1)"
    using c assms(1,4) m(1) unfolding pagefault_def Let_def get_current_tcb_def assms(2) [symmetric] assms(5) [symmetric] sa_def
    by (simp add: pf_user_fault_def del: not_le not_less)
  have "\<exists>s4. pf_resume e (Pf_ipc P_waiting u Pf_user) s3 = Ok (Pf_done, s4) \<and> unwind_ipc_sp (tcbs s4 cur) = u \<and> thread_state (tcbs s4 cur) = TS_RUNNING"
    if "current s3 = cur" "thread_state (tcbs s3 cur) \<noteq> TS_RUNNING" for s3 u
    using resume_waiting [of s3 "p_ienv e"] that
    by (simp add: pf_resume_def Let_def get_current_tcb_def pf_returned_def pf_continue_def set_thread_state_def)
  then show ?thesis using run m(2-7) by blast
qed

definition demo_pager :: kstate where
  "demo_pager = upd_tcb 0xE0020000 (\<lambda>c. c\<lparr>myself := 0x20000, thread_state := TS_RUNNING, pager := 0x30000, space := 0x00400000\<rparr>)
     (upd_tcb 0xE0030000 (\<lambda>c. c\<lparr>myself := 0x30000, thread_state := TS_WAITING, partner := L4_NIL_ID\<rparr>)
       ((boot_state 0xF0110000)\<lparr>current := 0xE0020000, sigma0 := 0xE0030000\<rparr>))"

theorem pagefault_reaches_pager_witness:
  "\<exists>s1 s2 u. pagefault demo_penv 0xE0020800 0x00801234 6 0x1000 demo_pager = Ok (Pf_ipc P_waiting u Pf_user, s1) \<and>
     ipc_resume demo_ienv P_waiting s1 = Ok (Ret_args 0x20000 0 0x00801236 0x1000 0, s2)"
proof -
  have f: "(0x00801234 AND NOT PAGE_WRITABLE) OR (6 AND PAGE_WRITABLE) = (0x00801236 :: dword_t)" by (simp add: PAGE_WRITABLE_def)
  have ok: "sched_ok demo_pager" unfolding demo_pager_def by (intro sched_ok_upd sched_ok_cong [OF boot_sched_ok]) simp_all
  have d: "current demo_pager = 0xE0020000" "sigma0 demo_pager = 0xE0030000" "myself (tcbs demo_pager 0xE0020000) = 0x20000" "pager (tcbs demo_pager 0xE0020000) = 0x30000"
    "myself (tcbs demo_pager 0xE0030000) = 0x30000" "IS_WAITING (tcbs demo_pager 0xE0030000)" "partner (tcbs demo_pager 0xE0030000) = L4_NIL_ID"
    "intr_pending (tcbs demo_pager 0xE0020000) = 0" "\<not> same_address_space 0xE0020000 0xE0030000 demo_pager"
    by (simp_all add: demo_pager_def boot_state_def zero_tcb_def IS_WAITING_def TS_WAITING_def same_address_space_def)
  have h: "PF_USERMODE 6" "0xE0020000 \<le> TCB_AREA + TCB_AREA_SIZE" "(0x00801236 :: dword_t) < TCB_AREA" "\<not> IS_KERNEL_ID 0x30000"
    by (simp_all add: PF_USERMODE_def PAGE_USER_def TCB_AREA_def TCB_AREA_SIZE_def IS_KERNEL_ID_def x0id_task_def mask_eq_exp_minus_1)
  have n: "\<not> same_address_space 0xE0020000 (sigma0 demo_pager) demo_pager" "(0xE0020000 :: dword_t) \<noteq> 0xE0030000"
    "partner (tcbs demo_pager 0xE0030000) \<in> {myself (tcbs demo_pager 0xE0020000), L4_NIL_ID}"
    "intr_pending (tcbs demo_pager 0xE0020000) AND IRQ_IN_SERVICE = 0"
    using d by simp_all
  note pagefault_reaches_pager [OF h(1) d(1) [symmetric] h(2) n(1) f [symmetric] h(3) d(4) [symmetric] demo_tids(2) [symmetric] n(2) d(5) h(4) d(6) n(3,4) ok,
      of demo_penv "0xE0020800" "0x1000", unfolded d(3)]
  then show ?thesis by (auto simp: demo_penv_def)
qed

end
