(* ===== verification/Exceptions.thy ===== *)
theory Exceptions
  imports Pagefault
begin

text \<open>
  Processor exceptions, \<^verbatim>\<open>src/x86/interrupt.c\<close>: the emulation of privileged instructions, the fault messages for I/O ports, the
  floating point unit and the entry of the timer interrupt.

  The registers that the processor and the entry code save are in \<open>xframe\<close>. The registers of the floating point unit are
  a value of their own next to the kernel's state, the 128 words that \<^verbatim>\<open>fxsave\<close> stores. Model-specific registers and the
  initial content of the floating point unit belong to the processor: they are in the record \<open>xenv\<close>. The bytes of
  an instruction are read through the page tables in use.
\<close>

section \<open>Frames\<close>

text \<open>\<open>x_reg\<close> are the general registers in the order of their numbers: \<^verbatim>\<open>eax\<close>, \<^verbatim>\<open>ecx\<close>, \<^verbatim>\<open>edx\<close>, \<^verbatim>\<open>ebx\<close>, \<^verbatim>\<open>esp\<close>, \<^verbatim>\<open>ebp\<close>, \<^verbatim>\<open>esi\<close>, \<^verbatim>\<open>edi\<close>.\<close>

record xframe =
  x_fault_code :: dword_t
  x_es :: dword_t
  x_ds :: dword_t
  x_reg :: "nat \<Rightarrow> dword_t"
  x_error_code :: dword_t
  x_fault_address :: dword_t
  x_cs :: dword_t
  x_eflags :: dword_t
  x_user_stack :: dword_t

type_synonym fregs = "nat \<Rightarrow> dword_t"

record xenv =
  x_penv :: penv
  wrmsr :: "dword_t \<Rightarrow> dword_t \<Rightarrow> dword_t \<Rightarrow> kstate \<Rightarrow> kstate"
  rdmsr :: "dword_t \<Rightarrow> kstate \<Rightarrow> dword_t \<times> dword_t"
  fpu_initial :: "fregs \<Rightarrow> fregs"

definition USER_AREA_MAX :: dword_t where "USER_AREA_MAX = 0xC0000000"
definition KERNEL_VIRT :: dword_t where "KERNEL_VIRT = 0x00100000 + KERNEL_OFFSET"
definition KERNEL_VERSION_API :: dword_t where "KERNEL_VERSION_API = 0xB1"
definition KERNEL_VERSION_KID :: dword_t where "KERNEL_VERSION_KID = 0x4"
definition KERNEL_VERSION_VER :: dword_t where "KERNEL_VERSION_VER = 0"
definition KERNEL_VERSION_SUB :: dword_t where "KERNEL_VERSION_SUB = 0x1"
definition X86_KDS :: dword_t where "X86_KDS = 0x10"
definition IA32_PERFCTR0 :: dword_t where "IA32_PERFCTR0 = 0x0c1"
definition IA32_PERFCTR1 :: dword_t where "IA32_PERFCTR1 = 0x0c2"
definition IA32_EVENTSEL0 :: dword_t where "IA32_EVENTSEL0 = 0x186"
definition IA32_EVENTSEL1 :: dword_t where "IA32_EVENTSEL1 = 0x187"

definition skip_instr :: "dword_t \<Rightarrow> xframe \<Rightarrow> xframe" where
  "skip_instr n f = f\<lparr>x_fault_address := x_fault_address f + n\<rparr>"

definition set_reg :: "nat \<Rightarrow> dword_t \<Rightarrow> xframe \<Rightarrow> xframe" where
  "set_reg i v f = f\<lparr>x_reg := (x_reg f)(i := v)\<rparr>"

text \<open>The result of looking at a faulting instruction: not handled; handled, with the new frame; or a message to the pager
  is under way or done, after which the instruction is tried again.\<close>

datatype xout =
    X_unhandled
  | X_handled xframe
  | X_pf pf_out

section \<open>Emulated instructions\<close>

definition emulate_lidt :: "tptr \<Rightarrow> xframe \<Rightarrow> kstate \<Rightarrow> (xout \<times> kstate) kres" where
  "emulate_lidt cur f s =
     (let f' = skip_instr 3 f in
      if x_reg f 0 < USER_AREA_MAX - 6 then
        res_bind (vread (x_reg f 0 + 2) s) (\<lambda>idt.
          let idt = (if idt \<ge> USER_AREA_MAX - 32 * 8 then 0 else idt)
          in Ok (X_handled f', upd_tcb cur (\<lambda>c. c\<lparr>excpt := idt\<rparr>) s))
      else Ok (X_handled f', s))"

text \<open>\<^verbatim>\<open>mov\<close> from and to a debug register, by the second and third byte of the instruction.\<close>

definition emulate_movdr :: "tptr \<Rightarrow> byte_t \<Rightarrow> byte_t \<Rightarrow> xframe \<Rightarrow> kstate \<Rightarrow> xout \<times> kstate" where
  "emulate_movdr cur i1 i2 f s =
     (let r = unat (i2 AND 7);
          dreg = unat (drop_bit 3 i2 AND 7);
          v = x_reg f r
      in if dreg = 4 \<or> dreg = 5 then (X_unhandled, s)
         else if i1 = 0x21 then (X_handled (skip_instr 3 (set_reg r (dbg (tcbs s cur) dreg) f)), s)
         else
           let v = (if dreg = 7 then v AND NOT 0xaa else v);
               s = (if resources (tcbs s cur) AND TR_DEBUG_REGS \<noteq> 0 then s\<lparr>dr := (dr s)(dreg := v)\<rparr> else s);
               s = upd_tcb cur (\<lambda>c. c\<lparr>dbg := (dbg c)(dreg := v)\<rparr>) s;
               s = (if dreg = 7 then
                      if v AND 0x33 \<noteq> 0 then
                        let s = (if resources (tcbs s cur) AND TR_DEBUG_REGS = 0 then load_debug_regs cur s else s)
                        in upd_tcb cur (\<lambda>c. c\<lparr>resources := resources c OR TR_DEBUG_REGS\<rparr>) s
                      else upd_tcb cur (\<lambda>c. c\<lparr>resources := resources c AND NOT TR_DEBUG_REGS\<rparr>) s
                    else s)
           in (X_handled (skip_instr 3 f), s))"

definition emulate_msr :: "xenv \<Rightarrow> byte_t \<Rightarrow> xframe \<Rightarrow> kstate \<Rightarrow> xout \<times> kstate" where
  "emulate_msr e i1 f s =
     (if x_reg f 1 AND 0xffff \<in> {IA32_PERFCTR0, IA32_PERFCTR1, IA32_EVENTSEL0, IA32_EVENTSEL1} then
        if i1 = 0x30 then (X_handled (skip_instr 2 f), wrmsr e (x_reg f 0) (x_reg f 2) (x_reg f 1) s)
        else
          let (a, d) = rdmsr e (x_reg f 1) s
          in (X_handled (skip_instr 2 (set_reg 2 d (set_reg 0 a f))), s)
      else (X_unhandled, s))"

text \<open>A segment register was loaded with an invalid value.\<close>

definition emulate_pop_seg :: "byte_t \<Rightarrow> xframe \<Rightarrow> xout" where
  "emulate_pop_seg i0 f =
     (if x_fault_address f \<ge> KERNEL_VIRT then X_unhandled
      else
        let f = skip_instr 1 (f\<lparr>x_ds := X86_UDS, x_es := X86_UDS\<rparr>)
        in X_handled (if i0 = 0x8e \<or> i0 = 0x0f then skip_instr 1 f else f))"

definition emulate_hlt :: "xframe \<Rightarrow> xframe" where
  "emulate_hlt f =
     skip_instr 1 (set_reg 0 (push_bit 24 KERNEL_VERSION_API OR push_bit 20 KERNEL_VERSION_KID OR
                              push_bit 16 KERNEL_VERSION_VER OR push_bit 1 KERNEL_VERSION_SUB OR 1) f)"

section \<open>I/O ports\<close>

definition io_fpage :: "word_t \<Rightarrow> dword_t \<Rightarrow> dword_t \<Rightarrow> fpage_t" where
  "io_fpage port ld_size grant =
     (grant AND 1) OR push_bit 2 (ld_size AND mask 6) OR push_bit 12 (ucast port) OR push_bit 28 0xf"

definition io_imm :: "byte_t \<Rightarrow> word_t" where "io_imm b = ucast b"
definition io_dx :: "xframe \<Rightarrow> word_t" where "io_dx f = ucast (x_reg f 2 AND 0xFFFF)"

definition io_fault :: "xenv \<Rightarrow> dword_t \<Rightarrow> tptr \<Rightarrow> word_t \<Rightarrow> dword_t \<Rightarrow> xframe \<Rightarrow> kstate \<Rightarrow> (xout \<times> kstate) kres" where
  "io_fault e sp cur port ld_size f s =
     res_bind (do_pagefault_ipc (x_penv e) sp Pf_user cur (io_fpage port ld_size 0) (x_fault_address f) s) (\<lambda>(r, s). Ok (X_pf r, s))"

text \<open>The instructions behind an operand size prefix, and behind a repeat prefix; the first byte of an instruction decides
  whether its port is in \<^verbatim>\<open>dx\<close>.\<close>

definition io_word_ops :: "xenv \<Rightarrow> dword_t \<Rightarrow> tptr \<Rightarrow> byte_t \<Rightarrow> byte_t \<Rightarrow> xframe \<Rightarrow> kstate \<Rightarrow> (xout \<times> kstate) kres option" where
  "io_word_ops e sp cur op imm f s =
     (if op \<in> {0xe5, 0xe7} then Some (io_fault e sp cur (io_imm imm) 1 f s)
      else if op \<in> {0xed, 0xef, 0x6d, 0x6f} then Some (io_fault e sp cur (io_dx f) 1 f s)
      else None)"

definition io_rep_ops :: "xenv \<Rightarrow> dword_t \<Rightarrow> tptr \<Rightarrow> byte_t \<Rightarrow> xframe \<Rightarrow> kstate \<Rightarrow> (xout \<times> kstate) kres" where
  "io_rep_ops e sp cur i1 f s =
     (if i1 \<in> {0xe4, 0xe6} then io_fault e sp cur (io_imm i1) 0 f s
      else if i1 \<in> {0xe5, 0xe7} then io_fault e sp cur (io_imm i1) 2 f s
      else if i1 \<in> {0xec, 0xee, 0x6c, 0x6e} then io_fault e sp cur (io_dx f) 0 f s
      else if i1 \<in> {0xed, 0xef, 0x6d, 0x6f} then io_fault e sp cur (io_dx f) 2 f s
      else if i1 = 0x66 then
        res_bind (vread8 (x_fault_address f + 2) s) (\<lambda>i2.
          case io_word_ops e sp cur i2 i1 f s of Some r \<Rightarrow> r | None \<Rightarrow> Ok (X_unhandled, s))
      else Ok (X_unhandled, s))"

section \<open>The faulting instruction\<close>

text \<open>Instructions that begin with \<^verbatim>\<open>0x0f\<close>.\<close>

definition handle_0f :: "xenv \<Rightarrow> tptr \<Rightarrow> byte_t \<Rightarrow> xframe \<Rightarrow> kstate \<Rightarrow> (xout \<times> kstate) kres" where
  "handle_0f e cur i1 f s =
     (if i1 = 0x01 then
        res_bind (vread8 (x_fault_address f + 2) s) (\<lambda>i2. if i2 \<noteq> 0x18 then Ok (X_unhandled, s) else emulate_lidt cur f s)
      else if i1 = 0x09 then Ok (X_handled (skip_instr 2 f), s)
      else if i1 = 0x21 \<or> i1 = 0x23 then
        res_bind (vread8 (x_fault_address f + 2) s) (\<lambda>i2. Ok (emulate_movdr cur i1 i2 f s))
      else if i1 = 0x30 \<or> i1 = 0x32 then Ok (emulate_msr e i1 f s)
      else if i1 = 0xa1 \<or> i1 = 0xa9 then Ok (emulate_pop_seg 0x0f f, s)
      else Ok (X_unhandled, s))"

definition handle_faulting_instruction :: "xenv \<Rightarrow> dword_t \<Rightarrow> tptr \<Rightarrow> xframe \<Rightarrow> kstate \<Rightarrow> (xout \<times> kstate) kres" where
  "handle_faulting_instruction e sp cur f s =
     (let ip = x_fault_address f; byte1 = (\<lambda>k. res_bind (vread8 (ip + 1) s) k) in
      res_bind (vread8 ip s) (\<lambda>i0.
        if i0 = 0x0f then byte1 (\<lambda>i1. handle_0f e cur i1 f s)
        else if i0 \<in> {0x8e, 0x07, 0x17, 0x1f} then Ok (emulate_pop_seg i0 f, s)
        else if i0 = 0xf4 then Ok (X_handled (emulate_hlt f), s)
        else if i0 \<in> {0xe4, 0xe6} then byte1 (\<lambda>i1. io_fault e sp cur (io_imm i1) 0 f s)
        else if i0 \<in> {0xe5, 0xe7} then byte1 (\<lambda>i1. io_fault e sp cur (io_imm i1) 2 f s)
        else if i0 \<in> {0xec, 0xee, 0x6c, 0x6e} then io_fault e sp cur (io_dx f) 0 f s
        else if i0 \<in> {0xed, 0xef, 0x6d, 0x6f} then io_fault e sp cur (io_dx f) 2 f s
        else if i0 = 0x66 then
          byte1 (\<lambda>i1. case io_word_ops e sp cur i1 i1 f s of Some r \<Rightarrow> r | None \<Rightarrow> io_rep_ops e sp cur i1 f s)
        else if i0 = 0xf3 then byte1 (\<lambda>i1. io_rep_ops e sp cur i1 f s)
        else Ok (X_unhandled, s)))"

section \<open>The floating point unit\<close>

definition enable_fpu :: "kstate \<Rightarrow> kstate" where "enable_fpu s = s\<lparr>fpu_on := True\<rparr>"

text \<open>\<^verbatim>\<open>fxsave\<close> and \<^verbatim>\<open>fxrstor\<close> with their area of 512 bytes.\<close>

fun write_words :: "nat \<Rightarrow> ptr_t \<Rightarrow> (nat \<Rightarrow> dword_t) \<Rightarrow> kstate \<Rightarrow> kstate" where
  "write_words 0 p v s = s"
| "write_words (Suc n) p v s = set_mem (p + 4 * of_nat n) (v n) (write_words n p v s)"

definition save_fpu_state :: "ptr_t \<Rightarrow> fregs \<Rightarrow> kstate \<Rightarrow> kstate" where
  "save_fpu_state p r s = write_words 128 p r s"

definition load_fpu_state :: "ptr_t \<Rightarrow> kstate \<Rightarrow> fregs" where
  "load_fpu_state p s = (\<lambda>i. if i < 128 then mem s (p + 4 * of_nat i) else 0)"

definition handle_nm_exception :: "xenv \<Rightarrow> tptr \<Rightarrow> fregs \<Rightarrow> kstate \<Rightarrow> (fregs \<times> kstate) kres" where
  "handle_nm_exception e cur r s =
     (let s = enable_fpu s;
          s = upd_tcb cur (\<lambda>c. c\<lparr>resources := resources c OR TR_FPU\<rparr>) s
      in if fpu_owner s = cur then Ok (r, s)
         else
           let s = (if fpu_owner s \<noteq> NULL then save_fpu_state (fpu_ptr (tcbs s (fpu_owner s))) r s else s)
           in if fpu_ptr (tcbs s cur) \<noteq> NULL then Ok (load_fpu_state (fpu_ptr (tcbs s cur)) s, s\<lparr>fpu_owner := cur\<rparr>)
              else
                case kmem_alloc X86_FLOATING_POINT_ALLOC_SIZE s of
                  None \<Rightarrow> None
                | Some (p, s) \<Rightarrow>
                    let s = upd_tcb cur (\<lambda>c. c\<lparr>fpu_ptr := p\<rparr>) s
                    in if p = NULL then Err Panic else Ok (fpu_initial e r, s\<lparr>fpu_owner := cur\<rparr>))"

section \<open>The handler\<close>

text \<open>Traps into the fault handler of the thread, for an exception that its own descriptor table covers.\<close>

definition idt_emulation :: "tptr \<Rightarrow> xframe \<Rightarrow> kstate \<Rightarrow> (xframe \<times> kstate) kres" where
  "idt_emulation cur f s =
     (let ex = excpt (tcbs s cur) + 13 * 8; usp = x_user_stack f in
      res_bind (vread ex s) (\<lambda>ex0.
      res_bind (vread (ex + 4) s) (\<lambda>ex1.
        let fault_handler = (ex0 AND 0xffff) OR (ex1 AND 0xffff0000) in
        res_bind (vwrite (usp - 4) (x_eflags f) s) (\<lambda>s.
        res_bind (vwrite (usp - 8) (x_cs f) s) (\<lambda>s.
        res_bind (vwrite (usp - 12) (x_fault_address f) s) (\<lambda>s.
        res_bind (vwrite (usp - 16) (x_error_code f) s) (\<lambda>s.
          Ok (f\<lparr>x_fault_address := fault_handler, x_user_stack := usp - 16\<rparr>, s))))))))"

text \<open>\<open>fs\<close> and \<open>gs\<close> are the segment registers at the exception. The result is the frame with which the thread goes on, or a
  fault message that is under way, with the registers of the floating point unit. An exception that is not
  handled is reported by the debugger.\<close>

definition exception_handler ::
    "xenv \<Rightarrow> dword_t \<Rightarrow> word_t \<Rightarrow> word_t \<Rightarrow> xframe \<Rightarrow> fregs \<Rightarrow> kstate \<Rightarrow> (xout \<times> fregs \<times> kstate) kres" where
  "exception_handler e sp fs gs f r s =
     (let cur = get_current_tcb s in
      if x_fault_code f = 13 then
        if x_error_code f = 0 \<and> (x_ds f AND 0xffff = 0 \<or> x_es f AND 0xffff = 0 \<or> fs = 0 \<or> gs = 0) then
          let d = (if x_cs f AND 0xffff = X86_UCS then X86_UDS else X86_KDS)
          in Ok (X_handled (f\<lparr>x_ds := d, x_es := X86_UDS\<rparr>), r, s)
        else
          res_bind (handle_faulting_instruction e sp cur f s) (\<lambda>(x, s).
            if x \<noteq> X_unhandled then Ok (x, r, s)
            else if x_error_code f AND 2 \<noteq> 0 \<and> excpt (tcbs s cur) \<noteq> 0 then
              if x_user_stack f > USER_AREA_MAX \<or> x_user_stack f \<le> 16 then Ok (X_unhandled, r, s)
              else res_bind (idt_emulation cur f s) (\<lambda>(f, s). Ok (X_handled f, r, s))
            else Ok (X_unhandled, r, s))
      else if x_fault_code f = 7 then
        res_bind (handle_nm_exception e cur r s) (\<lambda>(r, s). Ok (X_handled f, r, s))
      else Ok (X_unhandled, r, s))"

text \<open>The clock interrupt: reading the clock's register only acknowledges it.\<close>

definition timer_irq_handler :: "kstate \<Rightarrow> kstate option" where
  "timer_irq_handler s = handle_timer_interrupt (enable_8259A_irq 8 (mask_and_ack_8259A 8 s))"

end
