(* ===== verification/Fpu.thy ===== *)
theory Fpu
  imports Exceptions Fault_Handling
begin

text \<open>
  The floating point unit is switched lazily: its registers stay with the last user until another thread touches the
  unit. Then they are saved, and a thread gets back the registers it had.
\<close>

section \<open>Save areas\<close>

text \<open>The words of the save area at \<open>p\<close>.\<close>

definition fpu_area :: "ptr_t \<Rightarrow> ptr_t set" where
  "fpu_area p = (\<lambda>i. p + 4 * of_nat i) ` {..<128}"


lemma word_slots: "i < 128 \<Longrightarrow> j < 128 \<Longrightarrow> 4 * of_nat i = (4 * of_nat j :: dword_t) \<longleftrightarrow> i = j"
proof -
  assume a: "i < 128" "j < 128"
  have "unat (4 * of_nat k :: dword_t) = 4 * k" if "k < 128" for k using that by (simp add: unat_word_ariths unat_of_nat)
  then show ?thesis using a by (metis nat_mult_eq_cancel1 zero_less_numeral)
qed

lemma write_words_in: "n \<le> 128 \<Longrightarrow> i < n \<Longrightarrow> mem (write_words n p v s) (p + 4 * of_nat i) = v i"
  by (induction n) (auto simp: set_mem_def less_Suc_eq word_slots)

lemma write_words_out: "(\<And>i. i < n \<Longrightarrow> x \<noteq> p + 4 * of_nat i) \<Longrightarrow> mem (write_words n p v s) x = mem s x"
  by (induction n) (auto simp: set_mem_def)

lemma write_words_same: "\<exists>m. write_words n p v s = s\<lparr>mem := m\<rparr>"
proof (induction n)
  case 0
  show ?case by (rule exI [of _ "mem s"]) simp
next
  case (Suc n)
  then show ?case by (auto simp: set_mem_def)
qed

lemma save_fpu:
  "i < 128 \<Longrightarrow> mem (save_fpu_state p r s) (p + 4 * of_nat i) = r i" "x \<notin> fpu_area p \<Longrightarrow> mem (save_fpu_state p r s) x = mem s x"
  "\<exists>m. save_fpu_state p r s = s\<lparr>mem := m\<rparr>"
  unfolding save_fpu_state_def fpu_area_def by (auto intro!: write_words_in write_words_out write_words_same)

section \<open>Switching\<close>

text \<open>The thread \<open>t\<close> has an area of its own, or there is free memory for one; in either case it does not touch the words of \<open>A\<close>.\<close>

definition area_for :: "kstate \<Rightarrow> tptr \<Rightarrow> ptr_t set \<Rightarrow> bool" where
  "area_for s t A \<longleftrightarrow>
     (if fpu_ptr (tcbs s t) \<noteq> NULL then fpu_area (fpu_ptr (tcbs s t)) \<inter> A = {}
      else \<exists>xs. kmem_inv s xs \<and> alloc_split 1024 1 xs \<noteq> None \<and> (\<forall>x\<in>A. outside xs x))"

lemma alloc_chunk:
  fixes s :: kstate
  assumes "kmem_inv s xs" "alloc_split 1024 1 xs \<noteq> None"
  shows "\<exists>c s'. kmem_alloc 1024 s = Some (c, s') \<and> c \<noteq> NULL \<and> kmem.more s' = kmem.more s \<and> (\<forall>x. outside xs x \<longrightarrow> mem s' x = mem s x)"
proof -
  obtain pre c rest where r: "alloc_split 1024 1 xs = Some (pre, c, rest)" using assms(2) by auto
  have sz: "Suc 0 = 1" "1024 * 1 = (1024 :: nat)" "of_nat 1024 = (1024 :: dword_t)" by simp_all
  have x: "xs = pre @ chunks c (Suc 0) @ rest" using alloc_split_Some [OF r] by simp
  have k: "c \<noteq> NULL" "unat c + 1024 * Suc 0 \<le> 2 ^ 32" using kmem_inv_around(2,3) [of s pre c 0 rest] assms(1) x by simp_all
  obtain s' where s': "kmem_alloc 1024 s = Some (c, s')" "kmem.more s' = kmem.more s"
    "\<forall>x. unat x < unat c \<or> unat c + 1024 \<le> unat x \<longrightarrow> x \<notin> set pre \<longrightarrow> mem s' x = mem s x"
    using kmem_alloc_hit [OF assms(1), of 0, unfolded sz, OF r] by blast
  have "mem s' y = mem s y" if "outside xs y" for y using s'(3) outside_run [OF that x k(2), unfolded sz] by blast
  then show ?thesis using s'(1,2) k(1) by blast
qed

lemma more_fields:
  fixes s s' :: kstate
  assumes "kmem.more s' = kmem.more s"
  shows "tcbs s' = tcbs s" "fpu_owner s' = fpu_owner s" "fpu_on s' = fpu_on s"
  using assms by (cases s; cases s'; simp)+

lemma nm_takes:
  assumes "w \<noteq> NULL" "w = fpu_owner s" "t \<noteq> w" "area_for s t (fpu_area (fpu_ptr (tcbs s w)))"
  shows "\<exists>r1 s1. handle_nm_exception e t r s = Ok (r1, s1) \<and> fpu_owner s1 = t \<and> fpu_on s1 \<and>
    (\<forall>i<128. mem s1 (fpu_ptr (tcbs s w) + 4 * of_nat i) = r i) \<and> fpu_ptr (tcbs s1 w) = fpu_ptr (tcbs s w) \<and>
    (fpu_ptr (tcbs s t) \<noteq> NULL \<longrightarrow> (\<forall>i<128. r1 i = mem s (fpu_ptr (tcbs s t) + 4 * of_nat i)))"
proof -
  let ?p = "fpu_ptr (tcbs s w)" and ?q = "fpu_ptr (tcbs s t)"
  define s0 where "s0 = upd_tcb t (\<lambda>c. c\<lparr>resources := resources c OR TR_FPU\<rparr>) (enable_fpu s)"
  have f0: "fpu_owner s0 = w" "mem s0 = mem s" "fpu_ptr (tcbs s0 x) = fpu_ptr (tcbs s x)" "fpu_on s0" for x
    using assms(2) by (simp_all add: s0_def enable_fpu_def upd_tcb_def)
  obtain m where m: "save_fpu_state ?p r s0 = s0\<lparr>mem := m\<rparr>" using save_fpu(3) by blast
  have mm: "i < 128 \<Longrightarrow> m (?p + 4 * of_nat i) = r i" "x \<notin> fpu_area ?p \<Longrightarrow> m x = mem s x" for i x
    using save_fpu(1,2) [of _ ?p r s0] m f0(2) by auto
  show ?thesis
  proof (cases "?q = NULL")
    case False
    have "handle_nm_exception e t r s = Ok (load_fpu_state ?q (s0\<lparr>mem := m\<rparr>), s0\<lparr>mem := m, fpu_owner := t\<rparr>)"
      using assms(1,3) False f0 m unfolding handle_nm_exception_def Let_def s0_def [symmetric] by simp
    moreover have "m (?q + 4 * of_nat i) = mem s (?q + 4 * of_nat i)" if "i < 128" for i
    proof -
      have "?q + 4 * of_nat i \<in> fpu_area ?q" using that by (auto simp: fpu_area_def)
      then show ?thesis using assms(4) False mm(2) by (auto simp: area_for_def)
    qed
    ultimately show ?thesis using mm(1) f0 False by (simp add: load_fpu_state_def)
  next
    case True
    then obtain xs where xs: "kmem_inv s xs" "alloc_split 1024 1 xs \<noteq> None" "\<forall>x\<in>fpu_area ?p. outside xs x"
      using assms(4) by (auto simp: area_for_def)
    have "kmem_inv s0 xs" using xs(1) by (simp add: s0_def enable_fpu_def kmem_inv_def upd_tcb_def)
    moreover have "m x = mem s0 x" if "x \<in> set xs" for x using that xs(3) outside_not_free mm(2) f0(2) by metis
    ultimately have "kmem_inv (s0\<lparr>mem := m\<rparr>) xs" using kmem_inv_mem [of s0 xs m] by blast
    then obtain c s2 where c: "kmem_alloc 1024 (s0\<lparr>mem := m\<rparr>) = Some (c, s2)" "c \<noteq> NULL" "kmem.more s2 = kmem.more (s0\<lparr>mem := m\<rparr>)"
      "\<forall>x. outside xs x \<longrightarrow> mem s2 x = m x" using alloc_chunk [OF _ xs(2)] by fastforce
    have "handle_nm_exception e t r s = Ok (fpu_initial e r, (upd_tcb t (\<lambda>d. d\<lparr>fpu_ptr := c\<rparr>) s2)\<lparr>fpu_owner := t\<rparr>)"
      using assms(1,3) True f0 m c(1,2) unfolding handle_nm_exception_def Let_def s0_def [symmetric]
      by (simp add: X86_FLOATING_POINT_ALLOC_SIZE_def)
    moreover have "mem s2 (?p + 4 * of_nat i) = r i" if "i < 128" for i
      using that c(4) xs(3) mm(1) by (auto simp: fpu_area_def)
    ultimately show ?thesis using True f0 more_fields [OF c(3)] assms(3) by (simp add: upd_tcb_def)
  qed
qed

text \<open>\<^bold>\<open>C37.\<close> A thread that uses the floating point unit takes it from its owner: the owner's registers are saved, the thread gets
  its own saved ones, or a new area if it has none. When the former owner uses the unit again, with its save area
  untouched, it has exactly the registers that it had before, whatever the other thread did with the unit.\<close>

theorem fpu_switch_restores:
  assumes "w \<noteq> NULL" and "w = fpu_owner s" and "t \<noteq> w" and "t \<noteq> NULL" and "p = fpu_ptr (tcbs s w)" and "p \<noteq> NULL" and "area_for s t (fpu_area p)"
  shows "\<exists>r1 s1. handle_nm_exception e t r s = Ok (r1, s1) \<and> fpu_owner s1 = t \<and> fpu_on s1 \<and>
    (fpu_ptr (tcbs s t) \<noteq> NULL \<longrightarrow> (\<forall>i<128. r1 i = mem s (fpu_ptr (tcbs s t) + 4 * of_nat i))) \<and>
    (\<forall>r2 s2. fpu_owner s2 = t \<and> fpu_ptr (tcbs s2 w) = p \<and> (\<forall>x\<in>fpu_area p. mem s2 x = mem s1 x) \<and>
       area_for s2 w (fpu_area (fpu_ptr (tcbs s2 t))) \<longrightarrow>
       (\<exists>r3 s3. handle_nm_exception e w r2 s2 = Ok (r3, s3) \<and> fpu_owner s3 = w \<and> (\<forall>i<128. r3 i = r i)))"
proof -
  obtain r1 s1 where h: "handle_nm_exception e t r s = Ok (r1, s1)" "fpu_owner s1 = t" "fpu_on s1"
    "\<forall>i<128. mem s1 (p + 4 * of_nat i) = r i" "fpu_ptr (tcbs s t) \<noteq> NULL \<longrightarrow> (\<forall>i<128. r1 i = mem s (fpu_ptr (tcbs s t) + 4 * of_nat i))"
    using nm_takes [OF assms(1-3), of e r] assms(5,7) by auto
  have "\<exists>r3 s3. handle_nm_exception e w r2 s2 = Ok (r3, s3) \<and> fpu_owner s3 = w \<and> (\<forall>i<128. r3 i = r i)"
    if a: "fpu_owner s2 = t" "fpu_ptr (tcbs s2 w) = p" "\<forall>x\<in>fpu_area p. mem s2 x = mem s1 x" "area_for s2 w (fpu_area (fpu_ptr (tcbs s2 t)))" for r2 s2
  proof -
    obtain r3 s3 where k: "handle_nm_exception e w r2 s2 = Ok (r3, s3)" "fpu_owner s3 = w" "\<forall>i<128. r3 i = mem s2 (p + 4 * of_nat i)"
      using nm_takes [OF assms(4) a(1) [symmetric], of w e r2] assms(3,6) a(2,4) by auto
    have "\<forall>i<128. p + 4 * of_nat i \<in> fpu_area p" by (auto simp: fpu_area_def)
    then show ?thesis using k a(3) h(4) by metis
  qed
  then show ?thesis using h by blast
qed

text \<open>A thread with the unit and one that takes it.\<close>

definition demo_fpu :: kstate where
  "demo_fpu = (upd_tcb 0xE0020000 (\<lambda>c. c\<lparr>fpu_ptr := 0xF0200000\<rparr>)
     (upd_tcb 0xE0030000 (\<lambda>c. c\<lparr>fpu_ptr := 0xF0300000\<rparr>) (boot_state 0xF0110000)))\<lparr>fpu_owner := 0xE0020000\<rparr>"

definition demo_xenv :: xenv where
  "demo_xenv = \<lparr>x_penv = demo_penv, wrmsr = (\<lambda>a d c s. s), rdmsr = (\<lambda>c s. (0, 0)), fpu_initial = (\<lambda>r. r)\<rparr>"

theorem fpu_switch_restores_witness:
  "\<exists>r1 s1. handle_nm_exception demo_xenv 0xE0030000 (\<lambda>i. of_nat i) demo_fpu = Ok (r1, s1) \<and> fpu_owner s1 = 0xE0030000 \<and> r1 5 = 0"
proof -
  have d: "fpu_owner demo_fpu = 0xE0020000" "fpu_ptr (tcbs demo_fpu 0xE0020000) = 0xF0200000" "fpu_ptr (tcbs demo_fpu 0xE0030000) = 0xF0300000"
    "mem demo_fpu x = 0" for x by (simp_all add: demo_fpu_def boot_state_def)
  have "0xF0300000 + 4 * of_nat i \<noteq> (0xF0200000 + 4 * of_nat j :: dword_t)" if "i < 128" "j < 128" for i j
  proof
    assume a: "0xF0300000 + 4 * of_nat i = (0xF0200000 + 4 * of_nat j :: dword_t)"
    have u: "unat (4 * of_nat k :: dword_t) = 4 * k" if "k < 128" for k using that by (simp add: unat_word_ariths unat_of_nat)
    have "unat (0xF0300000 + 4 * of_nat i :: dword_t) = 0xF0300000 + 4 * i" "unat (0xF0200000 + 4 * of_nat j :: dword_t) = 0xF0200000 + 4 * j"
      using that u by (simp_all add: unat_word_ariths)
    with arg_cong [OF a, of unat] show False using that by simp
  qed
  then have ar: "area_for demo_fpu 0xE0030000 (fpu_area 0xF0200000)" by (auto simp: area_for_def fpu_area_def d)
  have n: "(0xE0020000 :: dword_t) \<noteq> NULL" "(0xE0030000 :: dword_t) \<noteq> 0xE0020000" "(0xE0030000 :: dword_t) \<noteq> NULL" "(0xF0200000 :: dword_t) \<noteq> NULL" by simp_all
  obtain r1 s1 where "handle_nm_exception demo_xenv 0xE0030000 (\<lambda>i. of_nat i) demo_fpu = Ok (r1, s1)" "fpu_owner s1 = 0xE0030000"
    "fpu_ptr (tcbs demo_fpu 0xE0030000) \<noteq> NULL \<longrightarrow> (\<forall>i<128. r1 i = mem demo_fpu (fpu_ptr (tcbs demo_fpu 0xE0030000) + 4 * of_nat i))"
    using fpu_switch_restores [OF n(1) d(1) [symmetric] n(2,3) d(2) [symmetric] n(4) ar, of demo_xenv "\<lambda>i. of_nat i"] by blast
  then show ?thesis using d(3,4) by auto
qed

end
