(* ===== verification/Emulation.thy ===== *)
theory Emulation
  imports Fpu Ipc_Copy
begin

text \<open>
  Decoding of I/O instructions: which port and which width the pager is asked for, compared with the instruction set; and
  the debug registers as threads see them.
\<close>

section \<open>I/O instructions\<close>

text \<open>The opcodes: the lowest bit tells bytes from words, and the immediate forms have their port in the next byte.\<close>

definition io_imm_op :: "byte_t \<Rightarrow> bool" where "io_imm_op b \<longleftrightarrow> b \<in> {0xe4, 0xe5, 0xe6, 0xe7}"
definition io_dx_op :: "byte_t \<Rightarrow> bool" where "io_dx_op b \<longleftrightarrow> b \<in> {0xec, 0xed, 0xee, 0xef, 0x6c, 0x6d, 0x6e, 0x6f}"
definition io_wide :: "byte_t \<Rightarrow> bool" where "io_wide b \<longleftrightarrow> b AND 1 = 1"

lemmas io_op_defs = io_imm_op_def io_dx_op_def io_wide_def

text \<open>The pager \<open>p\<close> of the thread is asked for \<open>2 ^ ld\<close> ports from \<open>port\<close> on: it gets the processor, and its call
  returns the identifier of the thread, the flexpage of these ports, and the address of the instruction.\<close>

definition pager_asked :: "xenv \<Rightarrow> dword_t \<Rightarrow> tptr \<Rightarrow> tptr \<Rightarrow> xframe \<Rightarrow> kstate \<Rightarrow> dword_t \<Rightarrow> dword_t \<Rightarrow> bool" where
  "pager_asked e sp cur p f s port ld \<longleftrightarrow> (\<exists>fp s1 s2.
     handle_faulting_instruction e sp cur f s = Ok (X_pf (Pf_ipc P_waiting (unwind_ipc_sp (tcbs s cur)) Pf_user), s1) \<and> current s1 = p \<and>
     ipc_resume (p_ienv (x_penv e)) P_waiting s1 = Ok (Ret_args (myself (tcbs s cur)) 0 fp (x_fault_address f) 0, s2) \<and>
     IOFP_LO_BOUND \<le> fp \<and> fp \<le> IOFP_HI_BOUND \<and> IOFP_PORT fp = port \<and> IOFP_LD_SIZE fp = ld \<and> \<not> fp_grant fp)"

lemma io_fpage_fields:
  fixes port :: word_t and ld :: dword_t
  assumes "ld \<le> 2"
  shows "IOFP_LO_BOUND \<le> io_fpage port ld 0" "io_fpage port ld 0 \<le> IOFP_HI_BOUND" "IOFP_PORT (io_fpage port ld 0) = ucast port"
    "IOFP_LD_SIZE (io_fpage port ld 0) = ld" "\<not> fp_grant (io_fpage port ld 0)"
proof -
  have "unat ld \<le> 2" using assms by (simp add: word_le_nat_alt)
  then have "unat ld = 0 \<or> unat ld = 1 \<or> unat ld = 2" by arith
  then have l: "ld = 0 \<or> ld = 1 \<or> ld = 2" by (auto simp: word_unat_eq_iff)
  show "IOFP_LO_BOUND \<le> io_fpage port ld 0"
    unfolding io_fpage_def IOFP_LO_BOUND_def by (intro order_trans [OF _ le_word_or1]) simp
  have f: "(0xf :: dword_t) = mask 4" and masks: "(0x0000FFFF :: dword_t) = mask 16" "(0x0000003F :: dword_t) = mask 6"
    by (simp_all add: mask_eq_exp_minus_1)
  have p: "n < 16" if "bit port n" for n using bit_imp_le_length [OF that] by simp
  have "io_fpage port ld 0 = io_fpage port ld 0 AND (push_bit 12 (mask 20) OR push_bit 2 (mask 2))"
    using l unfolding io_fpage_def f by (intro bit_word_eqI) (auto simp: bit_simps)
  also have "\<dots> \<le> push_bit 12 (mask 20) OR push_bit 2 (mask 2)" by (rule word_and_le1)
  finally show "io_fpage port ld 0 \<le> IOFP_HI_BOUND" by (rule order_trans) (simp add: IOFP_HI_BOUND_def mask_eq_exp_minus_1)
  show "IOFP_PORT (io_fpage port ld 0) = ucast port" "IOFP_LD_SIZE (io_fpage port ld 0) = ld" "\<not> fp_grant (io_fpage port ld 0)"
    unfolding IOFP_PORT_def IOFP_LD_SIZE_def fp_grant_def io_fpage_def f masks using l by (auto simp: bit_simps intro!: bit_word_eqI) (use p in force)+
qed

lemma io_fault_asks:
  assumes "handle_faulting_instruction e sp cur f s = io_fault e sp cur port ld f s" and "ld \<le> 2"
    and "pager_ready cur p s" and "IS_INFINITE_RECV_TIMEOUT (ipc_timeout (tcbs s cur))"
  shows "pager_asked e sp cur p f s (ucast port) ld"
  using fault_message [OF assms(3,4), of "x_penv e" sp Pf_user "io_fpage port ld 0" "x_fault_address f"] io_fpage_fields [OF assms(2), of port]
  unfolding pager_asked_def assms(1) io_fault_def by auto

lemma io_port_words: "ucast (io_imm b) = (ucast b :: dword_t)" "ucast (io_dx f) = x_reg f 2 AND 0xFFFF"
proof -
  have m: "(0xFFFF :: dword_t) = mask 16" by (simp add: mask_eq_exp_minus_1)
  have "n < 16" if "bit b n" for n using bit_imp_le_length [OF that] by simp
  then show "ucast (io_imm b) = (ucast b :: dword_t)" "ucast (io_dx f) = x_reg f 2 AND 0xFFFF"
    unfolding io_imm_def io_dx_def m by (auto intro!: bit_word_eqI simp: bit_simps)
qed

text \<open>The instruction as the handler decodes it.\<close>

lemma io_instruction:
  assumes "vread8 (x_fault_address f) s = Ok b0" and "vread8 (x_fault_address f + 1) s = Ok b1"
  shows "io_imm_op b0 \<Longrightarrow> handle_faulting_instruction e sp cur f s = io_fault e sp cur (io_imm b1) (if io_wide b0 then 2 else 0) f s"
    "io_dx_op b0 \<Longrightarrow> handle_faulting_instruction e sp cur f s = io_fault e sp cur (io_dx f) (if io_wide b0 then 2 else 0) f s"
    "b0 = 0xf3 \<Longrightarrow> io_dx_op b1 \<Longrightarrow> handle_faulting_instruction e sp cur f s = io_fault e sp cur (io_dx f) (if io_wide b1 then 2 else 0) f s"
    "b0 = 0x66 \<Longrightarrow> io_dx_op b1 \<Longrightarrow> handle_faulting_instruction e sp cur f s = io_fault e sp cur (io_dx f) (if io_wide b1 then 1 else 0) f s"
    "b0 = 0x66 \<Longrightarrow> io_imm_op b1 \<Longrightarrow> handle_faulting_instruction e sp cur f s = io_fault e sp cur (io_imm b1) (if io_wide b1 then 1 else 0) f s"
proof -
  note code = handle_faulting_instruction_def Let_def assms res_bind_Ok
  show "io_imm_op b0 \<Longrightarrow> handle_faulting_instruction e sp cur f s = io_fault e sp cur (io_imm b1) (if io_wide b0 then 2 else 0) f s"
    unfolding code io_imm_op_def by (elim insertE emptyE; hypsubst; simp add: io_wide_def)
  show "io_dx_op b0 \<Longrightarrow> handle_faulting_instruction e sp cur f s = io_fault e sp cur (io_dx f) (if io_wide b0 then 2 else 0) f s"
    unfolding code io_dx_op_def by (elim insertE emptyE; hypsubst; simp add: io_wide_def)
  show "b0 = 0xf3 \<Longrightarrow> io_dx_op b1 \<Longrightarrow> handle_faulting_instruction e sp cur f s = io_fault e sp cur (io_dx f) (if io_wide b1 then 2 else 0) f s"
    "b0 = 0x66 \<Longrightarrow> io_dx_op b1 \<Longrightarrow> handle_faulting_instruction e sp cur f s = io_fault e sp cur (io_dx f) (if io_wide b1 then 1 else 0) f s"
    unfolding code io_dx_op_def by (elim insertE emptyE; hypsubst; simp add: io_wide_def io_word_ops_def io_rep_ops_def)+
  show "b0 = 0x66 \<Longrightarrow> io_imm_op b1 \<Longrightarrow> handle_faulting_instruction e sp cur f s = io_fault e sp cur (io_imm b1) (if io_wide b1 then 1 else 0) f s"
    unfolding code io_imm_op_def by (elim insertE emptyE; hypsubst; simp add: io_wide_def io_word_ops_def io_rep_ops_def)
qed


text \<open>A thread whose pager waits, at an instruction that reads port \<open>0x60\<close> with a 16-bit operand.\<close>

definition demo_prefix :: kstate where
  "demo_prefix = (upd_tcb 0xE0020000 (\<lambda>c. c\<lparr>myself := 0x20000, thread_state := TS_RUNNING, pager := 0x30000, ipc_timeout := TIMEOUT_NEVER\<rparr>)
     (upd_tcb 0xE0030000 (\<lambda>c. c\<lparr>myself := 0x30000, thread_state := TS_WAITING, partner := L4_NIL_ID\<rparr>) demo_flat))\<lparr>
       current := 0xE0020000, umem := (\<lambda>_. 0)(0x1000 := 0x66, 0x1001 := 0xe5, 0x1002 := 0x60)\<rparr>"

definition demo_frame :: xframe where
  "demo_frame = \<lparr>x_fault_code = 13, x_es = X86_UDS, x_ds = X86_UDS, x_reg = (\<lambda>_. 0), x_error_code = 0, x_fault_address = 0x1000, x_cs = X86_UCS,
     x_eflags = 0, x_user_stack = 0x8000\<rparr>"


section \<open>Debug registers\<close>

text \<open>No instruction of a thread enables a breakpoint for all threads: the bits for those stay clear in the copies of the control
  register and in the register itself.\<close>

lemma movdr_no_global:
  assumes "\<forall>t. dbg (tcbs s t) 7 AND 0xaa = 0" "dr s 7 AND 0xaa = 0" "emulate_movdr cur b1 b2 f s = (x, s')"
  shows "(\<forall>t. dbg (tcbs s' t) 7 AND 0xaa = 0) \<and> dr s' 7 AND 0xaa = 0"
proof -
  have "(v AND NOT 0xaa) AND 0xaa = 0" for v :: dword_t by (rule bit_word_eqI) (auto simp: bit_simps)
  then show ?thesis using assms unfolding emulate_movdr_def Let_def
    by (auto simp: load_debug_regs_def Let_def upd_tcb_def split: if_splits)
qed

text \<open>A register that was written reads back, without the global bits of the control register.\<close>

lemma movdr_roundtrip:
  assumes "n = unat (drop_bit 3 b2 AND 7)" "n \<noteq> 4" "n \<noteq> 5" "emulate_movdr cur 0x23 b2 f s = (x, s')" "drop_bit 3 c2 AND 7 = drop_bit 3 b2 AND 7"
  shows "\<exists>f'. emulate_movdr cur 0x21 c2 f2 s' = (X_handled f', s') \<and>
    x_reg f' (unat (c2 AND 7)) = (if n = 7 then x_reg f (unat (b2 AND 7)) AND NOT 0xaa else x_reg f (unat (b2 AND 7)))"
  using assms unfolding emulate_movdr_def Let_def
  by (auto simp: load_debug_regs_def Let_def upd_tcb_def skip_instr_def set_reg_def split: if_splits)

end
