(* ===== verification/Io_Bitmap.thy ===== *)
theory Io_Bitmap
  imports Io_Mapping Space_Create
begin

text \<open>
  The permission bitmaps of the processor: \<open>set_iopbm\<close> and \<open>zero_iopbm\<close> change exactly the bits of a range of ports.
  The bitmap at \<open>B\<close> has 2048 words; the bit of port \<open>q\<close> is bit \<open>q mod 32\<close> of word \<open>q div 32\<close>.
\<close>

definition iopbm_bit :: "ptr_t \<Rightarrow> nat \<Rightarrow> 'a kmem_scheme \<Rightarrow> bool" where
  "iopbm_bit B q s \<longleftrightarrow> bit (mem s (B + 4 * of_nat (q div 32))) (q mod 32)"

section \<open>Words\<close>

lemma cell_eq:
  assumes "i < 2 ^ 30" "j < 2 ^ 30"
  shows "(B :: dword_t) + 4 * of_nat i = B + 4 * of_nat j \<longleftrightarrow> i = j"
proof -
  have "unat (4 * of_nat k :: dword_t) = 4 * k" if "k < 2 ^ 30" for k
    using that by (simp add: unat_word_ariths unat_of_nat take_bit_nat_eq_self)
  then show ?thesis using assms by (metis add_left_cancel mult_cancel1 zero_neq_numeral)
qed

lemma fill_words_mem:
  "fill_words k x p s = s\<lparr>mem := \<lambda>a. if \<exists>i<k. a = p + 4 * of_nat i then x else mem s a\<rparr>"
proof (induction k arbitrary: p s)
  case (Suc k)
  have e: "(\<exists>i<k. a = p + 4 + 4 * of_nat i) \<or> a = p \<longleftrightarrow> (\<exists>i<Suc k. a = p + 4 * of_nat i)" for a
    unfolding less_Suc_eq_0_disj by (auto simp: algebra_simps)
  have "fill_words (Suc k) x p s = s\<lparr>mem := \<lambda>a. if (\<exists>i<k. a = p + 4 + 4 * of_nat i) \<or> a = p then x else mem s a\<rparr>"
    by (simp add: Suc.IH wr_def) (auto intro!: ext arg_cong [of _ _ "\<lambda>m. s\<lparr>mem := m\<rparr>"])
  then show ?case unfolding e .
qed simp

lemma mem_fill_words:
  "mem (fill_words k x p s) z = (if \<exists>i<k. z = p + 4 * of_nat i then x else mem s z)"
  by (simp add: fill_words_mem)

lemma whole_words_fill:
  "whole_words x n p s = (n mod 32, p + 4 * (n div 32), fill_words (unat (n div 32)) x p s)"
proof (induction x n p s rule: whole_words.induct)
  case (1 x n p s)
  show ?case
  proof (cases "n \<ge> 32")
    case True
    then have u: "unat n = 32 + unat (n - 32)" by (simp add: unat_sub word_le_nat_alt)
    have "n div 32 = 1 + (n - 32) div 32" "n mod 32 = (n - 32) mod 32" "unat (n div 32) = Suc (unat ((n - 32) div 32))"
      by (simp_all add: word_unat_eq_iff unat_div unat_mod u unat_word_ariths)
        (use unat_dword_less [of n] u in \<open>simp_all add: unat_div\<close>)
    with 1 [OF True] True show ?thesis by (subst whole_words.simps) (simp add: algebra_simps)
  next
    case False
    then have "n div 32 = 0" "n mod 32 = n" by (simp_all add: word_unat_eq_iff unat_div unat_mod word_le_nat_alt)
    with False show ?thesis by (subst whole_words.simps) simp
  qed
qed

lemma rest_words_fill:
  "unat p + 4 * k = unat bound \<Longrightarrow> rest_words bound p s = Some (fill_words k (NOT 0) p s)"
proof (induction k arbitrary: p s)
  case 0
  then show ?case by (subst rest_words.simps) (simp add: word_less_nat_alt)
next
  case (Suc k)
  then have "unat (p + 4) = unat p + 4" using unat_dword_less [of bound] by (simp add: unat_word_ariths)
  with Suc.IH [of "p + 4" "wr p (NOT 0) s"] Suc.prems show ?case
    by (subst rest_words.simps) (simp add: word_less_nat_alt)
qed

section \<open>The bits of a range\<close>

text \<open>The bits of the range in word \<open>i\<close> of the bitmap.\<close>

definition range_mask :: "dword_t \<Rightarrow> dword_t \<Rightarrow> nat \<Rightarrow> dword_t" where
  "range_mask port sz i =
     (let a = unat port div 32; c = first_count port sz; w = unat ((sz - c) div 32); e = (sz - c) mod 32
      in if i = a then first_bits port c
         else if a < i \<and> i \<le> a + w then NOT 0
         else if i = a + 1 + w \<and> e \<noteq> 0 then last_bits e
         else 0)"

lemma port_bits: "unat (port AND 0x1F) = unat port mod 32" "unat (drop_bit 5 port) = unat port div 32" for port :: dword_t
proof -
  have "(0x1F :: dword_t) = mask 5" by (simp add: mask_eq_exp_minus_1)
  then show "unat (port AND 0x1F) = unat port mod 32" by (simp only: unat_and_mask) simp
  show "unat (drop_bit 5 port) = unat port div 32" unfolding unat_drop_bit_eq unfolding drop_bit_eq_div by simp
qed

lemma first_count_unat:
  assumes "sz \<noteq> 0"
  shows "unat (first_count port sz) = min (unat sz) (32 - unat port mod 32)" "0 < unat (first_count port sz)"
    "unat (first_count port sz) \<le> 32" "unat (sz - first_count port sz) = unat sz - unat (first_count port sz)"
proof -
  have r: "unat (32 - (port AND 0x1F)) = 32 - unat port mod 32"
    using mod_less_divisor [of 32 "unat port"] by (subst unat_sub) (simp_all add: word_le_nat_alt port_bits less_imp_le)
  have z: "0 < unat sz" using assms by (simp add: word_unat_eq_iff)
  show c: "unat (first_count port sz) = min (unat sz) (32 - unat port mod 32)"
    by (auto simp: first_count_def r word_less_nat_alt)
  show "0 < unat (first_count port sz)" unfolding c using z by simp
  show "unat (first_count port sz) \<le> 32" unfolding c by simp
  show "unat (sz - first_count port sz) = unat sz - unat (first_count port sz)"
    by (rule unat_sub) (simp add: word_le_nat_alt c)
qed

lemma ones_below: "0 < unat n \<Longrightarrow> unat n \<le> 32 \<Longrightarrow> bit (shr (NOT 0) (32 - n)) b \<longleftrightarrow> b < unat n"
  by (subst shr_def) (auto simp: bit_simps unat_sub word_le_nat_alt)

lemma bit_range_mask:
  assumes "sz \<noteq> 0" and "b < 32" and "unat port + unat sz \<le> 65536"
  shows "bit (range_mask port sz i) b \<longleftrightarrow> unat port \<le> 32 * i + b \<and> 32 * i + b < unat port + unat sz"
proof -
  define c where "c = unat (first_count port sz)"
  define a r where "a = unat port div 32" and "r = unat port mod 32"
  define w e where "w = (unat sz - c) div 32" and "e = (unat sz - c) mod 32"
  note fc = first_count_unat [OF assms(1), of port]
  have p: "unat port = 32 * a + r" "r < 32" and m: "unat sz - c = 32 * w + e" "e < 32" by (simp_all add: a_def r_def w_def e_def)
  have c: "c = min (unat sz) (32 - r)" "0 < c" using fc by (simp_all add: c_def r_def)
  have u: "unat ((sz - first_count port sz) div 32) = w" "unat ((sz - first_count port sz) mod 32) = e"
    by (simp_all add: unat_div unat_mod fc(4) w_def e_def c_def)
  have f: "bit (first_bits port (first_count port sz)) b \<longleftrightarrow> r \<le> b \<and> b < r + c"
  proof -
    have "bit (first_bits port (first_count port sz)) b \<longleftrightarrow> r \<le> b \<and> bit (shr (NOT 0) (32 - first_count port sz)) (b - r)"
      using assms(2) by (simp add: first_bits_def shl_def bit_push_bit_iff port_bits r_def)
    then show ?thesis using ones_below [OF fc(2,3), of "b - r"] by (auto simp: c_def)
  qed
  have l: "bit (last_bits ((sz - first_count port sz) mod 32)) b \<longleftrightarrow> b < e" if "e \<noteq> 0"
    using ones_below [of "(sz - first_count port sz) mod 32" b] that u(2) m(2) by (simp add: last_bits_def)
  have z: "(sz - first_count port sz) mod 32 = 0 \<longleftrightarrow> e = 0" using u(2) by (metis unat_eq_zero)
  have n: "bit (NOT 0 :: dword_t) b" using assms(2) by (simp add: bit_simps)
  consider "c = unat sz" "c < 32 - r" | "c = 32 - r" "c \<le> unat sz" using c(1) by linarith
  then show ?thesis
  proof cases
    case 1
    then have we: "w = 0" "e = 0" by (simp_all add: w_def e_def)
    show ?thesis using 1 assms(2) unfolding range_mask_def Let_def u z a_def [symmetric] we p(1) by (auto simp: f we)
  next
    case 2
    then have s: "r + unat sz = 32 + 32 * w + e" using m p by simp
    have rc: "r + c = 32" using 2 p(2) by simp
    consider "i < a" | "i = a" | "a < i" "i \<le> a + w" | "i = a + 1 + w" | "a + 1 + w < i" by linarith
    then show ?thesis
      by cases (use p assms(2) m(2) rc in \<open>auto simp: range_mask_def Let_def u z a_def [symmetric] p(1) add.assoc s f l n\<close>)
  qed
qed

text \<open>Changing a word, a run of words behind it, and possibly the word behind the run.\<close>

definition three_parts ::
    "ptr_t \<Rightarrow> nat \<Rightarrow> nat \<Rightarrow> bool \<Rightarrow> dword_t \<Rightarrow> dword_t \<Rightarrow> (dword_t \<Rightarrow> dword_t) \<Rightarrow> 'a kmem_scheme \<Rightarrow> 'a kmem_scheme" where
  "three_parts B a w e v1 x v2 s =
     (let s = fill_words w x (B + 4 * of_nat (a + 1)) (wr (B + 4 * of_nat a) v1 s);
          p = B + 4 * of_nat (a + 1 + w)
      in if e then wr p (v2 (mem s p)) s else s)"

lemma three_parts_mem:
  assumes "a + 1 + w + (if e then 1 else 0) \<le> 2048"
  shows "i < 2048 \<Longrightarrow> mem (three_parts B a w e v1 x v2 s) (B + 4 * of_nat i) =
      (if i = a then v1 else if a < i \<and> i \<le> a + w then x
       else if i = a + 1 + w \<and> e then v2 (mem s (B + 4 * of_nat i)) else mem s (B + 4 * of_nat i))"
    and "\<forall>i<2048. z \<noteq> B + 4 * of_nat i \<Longrightarrow> mem (three_parts B a w e v1 x v2 s) z = mem s z"
    and "three_parts B a w e v1 x v2 s = s\<lparr>mem := mem (three_parts B a w e v1 x v2 s)\<rparr>"
proof -
  have fill: "(\<exists>k<w. z = B + 4 * of_nat (a + 1) + 4 * of_nat k) \<longleftrightarrow> (\<exists>j. a < j \<and> j \<le> a + w \<and> z = B + 4 * of_nat j)" for z
  proof
    assume "\<exists>k<w. z = B + 4 * of_nat (a + 1) + 4 * of_nat k"
    then obtain k where "k < w" "z = B + 4 * of_nat (a + 1 + k)" by (auto simp: algebra_simps)
    then show "\<exists>j. a < j \<and> j \<le> a + w \<and> z = B + 4 * of_nat j" by (intro exI [of _ "a + 1 + k"]) simp
  next
    assume "\<exists>j. a < j \<and> j \<le> a + w \<and> z = B + 4 * of_nat j"
    then obtain j where j: "a < j" "j \<le> a + w" "z = B + 4 * of_nat j" by blast
    then have "of_nat j = (of_nat (a + 1) + of_nat (j - (a + 1)) :: dword_t)" by (simp flip: of_nat_add)
    then have "z = B + 4 * of_nat (a + 1) + 4 * of_nat (j - (a + 1))" unfolding j(3) by (simp only: distrib_left add.assoc)
    then show "\<exists>k<w. z = B + 4 * of_nat (a + 1) + 4 * of_nat k" using j by (intro exI [of _ "j - (a + 1)"]) auto
  qed
  have f: "mem (fill_words w x (B + 4 * of_nat (a + 1)) t) z =
      (if \<exists>j. a < j \<and> j \<le> a + w \<and> z = B + 4 * of_nat j then x else mem t z)" for t :: "'a kmem_scheme" and z
    unfolding mem_fill_words fill ..
  have m: "mem (three_parts B a w e v1 x v2 s) z =
      (if e \<and> z = B + 4 * of_nat (a + 1 + w) then
         v2 (if \<exists>j. a < j \<and> j \<le> a + w \<and> z = B + 4 * of_nat j then x else if z = B + 4 * of_nat a then v1 else mem s z)
       else if \<exists>j. a < j \<and> j \<le> a + w \<and> z = B + 4 * of_nat j then x
       else if z = B + 4 * of_nat a then v1 else mem s z)" for z
    unfolding three_parts_def Let_def by (cases e) (simp_all only: f mem_wr fun_upd_def if_True if_False simp_thms, auto)
  show "mem (three_parts B a w e v1 x v2 s) (B + 4 * of_nat i) =
      (if i = a then v1 else if a < i \<and> i \<le> a + w then x
       else if i = a + 1 + w \<and> e then v2 (mem s (B + 4 * of_nat i)) else mem s (B + 4 * of_nat i))" if i: "i < 2048"
  proof -
    have b: "a < 2048" "a + 1 + w \<le> 2048" using assms by (auto split: if_splits)
    have c: "B + 4 * of_nat i = B + 4 * of_nat j \<longleftrightarrow> i = j" if "j \<le> 2048" for j using cell_eq [of i j B] i that by simp
    have j: "j \<le> 2048" if "j \<le> a + w" for j using that b by simp
    have eq: "(\<exists>j. a < j \<and> j \<le> a + w \<and> B + 4 * of_nat i = B + 4 * of_nat j) \<longleftrightarrow> a < i \<and> i \<le> a + w"
      using c j by blast
    note c [of a] c [of "a + 1 + w"]
    then have eqs: "B + 4 * of_nat i = B + 4 * of_nat a \<longleftrightarrow> i = a" "B + 4 * of_nat i = B + 4 * of_nat (a + 1 + w) \<longleftrightarrow> i = a + 1 + w"
      using b by simp_all
    show ?thesis unfolding m eq eqs by auto
  qed
  show "mem (three_parts B a w e v1 x v2 s) z = mem s z" if z: "\<forall>i<2048. z \<noteq> B + 4 * of_nat i"
  proof -
    have "\<not> (\<exists>j. a < j \<and> j \<le> a + w \<and> z = B + 4 * of_nat j)" "z \<noteq> B + 4 * of_nat a" "e \<Longrightarrow> z \<noteq> B + 4 * of_nat (a + 1 + w)"
      using z z [rule_format, of "a + 1 + w"] assms by (auto split: if_splits simp del: of_nat_add of_nat_Suc)
    then show ?thesis unfolding m by auto
  qed
  show "three_parts B a w e v1 x v2 s = s\<lparr>mem := mem (three_parts B a w e v1 x v2 s)\<rparr>"
    by (simp add: three_parts_def Let_def fill_words_mem wr_def)
qed

lemma range_parts:
  fixes s :: "'a kmem_scheme"
  defines "a port \<equiv> unat port div 32" and "c \<equiv> first_count" and "w port sz \<equiv> unat ((sz - first_count port sz) div 32)"
    and "e port sz \<equiv> (sz - first_count port sz) mod 32 \<noteq> 0"
  shows "set_bits B port sz s = three_parts B (a port) (w port sz) (e port sz)
      (mem s (B + 4 * of_nat (a port)) OR first_bits port (c port sz)) (NOT 0) (\<lambda>x. x OR last_bits ((sz - c port sz) mod 32)) s"
    and "clear_bits B port sz s = three_parts B (a port) (w port sz) (e port sz)
      (mem s (B + 4 * of_nat (a port)) AND NOT (first_bits port (c port sz))) 0 (\<lambda>x. x AND NOT (last_bits ((sz - c port sz) mod 32))) s"
    and "fresh_iopbm B port sz k =
      rest_words (B + 4 * 2048) (B + 4 * of_nat (a port + 1 + w port sz + (if e port sz then 1 else 0)))
       (three_parts B (a port) (w port sz) (e port sz) (NOT (first_bits port (c port sz))) 0
          (\<lambda>x. NOT (last_bits ((sz - c port sz) mod 32))) (fill_words (a port) (NOT 0) B k))"
proof -
  have d: "drop_bit 5 port = of_nat (a port)" by (simp add: a_def flip: port_bits(2))
  have w: "(sz - first_count port sz) div 32 = of_nat (w port sz)" by (simp add: w_def)
  have p: "B + 4 * of_nat (a port) + 4 = B + 4 * of_nat (a port + 1)"
    "B + 4 * of_nat (a port + 1) + 4 * of_nat (w port sz) = B + 4 * of_nat (a port + 1 + w port sz)"
    "B + 4 * of_nat (a port + 1 + w port sz) + 4 = B + 4 * of_nat (a port + 1 + w port sz + 1)" by (simp_all add: algebra_simps)
  have ua: "unat (of_nat (a port) :: dword_t) = a port" "unat (of_nat (w port sz) :: dword_t) = w port sz"
    using port_bits(2) [of port] by (simp_all only: d [symmetric] w [symmetric] a_def [of port, symmetric]) (simp add: w_def)
  show "set_bits B port sz s = three_parts B (a port) (w port sz) (e port sz)
      (mem s (B + 4 * of_nat (a port)) OR first_bits port (c port sz)) (NOT 0) (\<lambda>x. x OR last_bits ((sz - c port sz) mod 32)) s"
    unfolding set_bits_def three_parts_def Let_def whole_words_fill d w p ua prod.case e_def c_def by (simp only: p ua)
  show "clear_bits B port sz s = three_parts B (a port) (w port sz) (e port sz)
      (mem s (B + 4 * of_nat (a port)) AND NOT (first_bits port (c port sz))) 0 (\<lambda>x. x AND NOT (last_bits ((sz - c port sz) mod 32))) s"
    unfolding clear_bits_def three_parts_def Let_def whole_words_fill d w p ua prod.case e_def c_def by (simp only: p ua)
  show "fresh_iopbm B port sz k =
      rest_words (B + 4 * 2048) (B + 4 * of_nat (a port + 1 + w port sz + (if e port sz then 1 else 0)))
       (three_parts B (a port) (w port sz) (e port sz) (NOT (first_bits port (c port sz))) 0
          (\<lambda>x. NOT (last_bits ((sz - c port sz) mod 32))) (fill_words (a port) (NOT 0) B k))"
    unfolding fresh_iopbm_def three_parts_def Let_def whole_words_fill d w p ua prod.case e_def c_def
    by (cases "(sz - first_count port sz) mod 32 \<noteq> 0") (simp_all only: p ua if_True if_False prod.case add_0_right simp_thms)
qed


lemma range_size:
  assumes "sz \<noteq> 0" and "unat port + unat sz \<le> 65536"
  shows "unat port div 32 + 1 + unat ((sz - first_count port sz) div 32) +
    (if (sz - first_count port sz) mod 32 \<noteq> 0 then 1 else 0) \<le> 2048"
proof -
  define m where "m = unat (sz - first_count port sz)"
  have m: "unat ((sz - first_count port sz) div 32) = m div 32" "(sz - first_count port sz) mod 32 \<noteq> 0 \<longleftrightarrow> m mod 32 \<noteq> 0"
    by (simp_all only: m_def unat_div unat_numeral word_unat_eq_iff unat_mod unat_0) simp_all
  have "m = 0 \<or> unat port mod 32 + unat sz = 32 + m"
    unfolding m_def first_count_unat(4) [OF assms(1)] first_count_unat(1) [OF assms(1)]
    using mod_less_divisor [of 32 "unat port"] by linarith
  then have "32 * (unat port div 32 + 1) + m \<le> 65536"
  proof
    assume "m = 0"
    moreover have "unat port < 65536" using assms by (simp add: word_unat_eq_iff)
    ultimately show ?thesis by simp
  next
    assume "unat port mod 32 + unat sz = 32 + m"
    moreover have "unat port = 32 * (unat port div 32) + unat port mod 32" by simp
    moreover have "p = 32 * d + r \<Longrightarrow> r + z = 32 + m \<Longrightarrow> p + z \<le> 65536 \<Longrightarrow> 32 * (d + 1) + m \<le> 65536" for p d r z :: nat by simp
    ultimately show ?thesis using assms(2) by blast
  qed
  moreover have "m = 32 * (m div 32) + m mod 32" by simp
  moreover have "32 * (d + 1) + m \<le> 65536 \<Longrightarrow> m = 32 * x + y \<Longrightarrow> d + 1 + x + (if y \<noteq> 0 then 1 else 0) \<le> 2048" for d x y :: nat
    by (cases y) simp_all
  ultimately show ?thesis unfolding m by blast
qed

lemma set_bits_words:
  assumes "sz \<noteq> 0" and "unat port + unat sz \<le> 65536"
  shows "i < 2048 \<Longrightarrow> mem (set_bits B port sz s) (B + 4 * of_nat i) = mem s (B + 4 * of_nat i) OR range_mask port sz i"
    and "\<forall>i<2048. z \<noteq> B + 4 * of_nat i \<Longrightarrow> mem (set_bits B port sz s) z = mem s z"
    and "set_bits B port sz s = s\<lparr>mem := mem (set_bits B port sz s)\<rparr>"
proof -
  note tm = three_parts_mem [OF range_size [OF assms], where B = B and s = s]
  show "mem (set_bits B port sz s) (B + 4 * of_nat i) = mem s (B + 4 * of_nat i) OR range_mask port sz i" if i: "i < 2048"
    unfolding range_parts tm(1) [OF i] range_mask_def Let_def by simp
  show "mem (set_bits B port sz s) z = mem s z" if "\<forall>i<2048. z \<noteq> B + 4 * of_nat i" unfolding range_parts by (rule tm(2) [OF that])
  show "set_bits B port sz s = s\<lparr>mem := mem (set_bits B port sz s)\<rparr>" unfolding range_parts by (rule tm(3))
qed

lemma clear_bits_words:
  assumes "sz \<noteq> 0" and "unat port + unat sz \<le> 65536"
  shows "i < 2048 \<Longrightarrow> mem (clear_bits B port sz s) (B + 4 * of_nat i) = mem s (B + 4 * of_nat i) AND NOT (range_mask port sz i)"
    and "\<forall>i<2048. z \<noteq> B + 4 * of_nat i \<Longrightarrow> mem (clear_bits B port sz s) z = mem s z"
    and "clear_bits B port sz s = s\<lparr>mem := mem (clear_bits B port sz s)\<rparr>"
proof -
  note tm = three_parts_mem [OF range_size [OF assms], where B = B and s = s]
  show "mem (clear_bits B port sz s) (B + 4 * of_nat i) = mem s (B + 4 * of_nat i) AND NOT (range_mask port sz i)" if i: "i < 2048"
    unfolding range_parts tm(1) [OF i] range_mask_def Let_def by simp
  show "mem (clear_bits B port sz s) z = mem s z" if "\<forall>i<2048. z \<noteq> B + 4 * of_nat i" unfolding range_parts by (rule tm(2) [OF that])
  show "clear_bits B port sz s = s\<lparr>mem := mem (clear_bits B port sz s)\<rparr>" unfolding range_parts by (rule tm(3))
qed

lemma fresh_iopbm_words:
  assumes "sz \<noteq> 0" and "unat port + unat sz \<le> 65536" and "unat B + 8192 < 2 ^ 32"
  shows "\<exists>s'. fresh_iopbm B port sz s = Some s' \<and> (\<forall>i<2048. mem s' (B + 4 * of_nat i) = NOT (range_mask port sz i)) \<and>
    (\<forall>z. (\<forall>i<2048. z \<noteq> B + 4 * of_nat i) \<longrightarrow> mem s' z = mem s z) \<and> s' = s\<lparr>mem := mem s'\<rparr>"
proof -
  define a w e where "a = unat port div 32" and "w = unat ((sz - first_count port sz) div 32)"
    and "e = ((sz - first_count port sz) mod 32 \<noteq> 0)"
  define j where "j = a + 1 + w + (if e then 1 else 0)"
  define t where "t = three_parts B a w e (NOT (first_bits port (first_count port sz))) 0
    (\<lambda>x. NOT (last_bits ((sz - first_count port sz) mod 32))) (fill_words a (NOT 0) B s)"
  have j: "j \<le> 2048" using range_size [OF assms(1,2)] by (simp add: j_def a_def w_def e_def)
  note tm = three_parts_mem [of a w e, folded j_def, OF j]
  have "unat (B + 4 * of_nat j) + 4 * (2048 - j) = unat (B + 4 * 2048)"
    using assms(3) j block_cell [of B "8192 + 1" "4 * j"] block_cell [of B "8192 + 1" "8192"] by simp
  then have run: "fresh_iopbm B port sz s = Some (fill_words (2048 - j) (NOT 0) (B + 4 * of_nat j) t)"
    unfolding range_parts a_def [symmetric] w_def [symmetric] e_def [symmetric] j_def [symmetric] t_def [symmetric]
    by (rule rest_words_fill)
  define s' where "s' = fill_words (2048 - j) (NOT 0) (B + 4 * of_nat j) t"
  have f: "mem s' z = (if \<exists>i. j \<le> i \<and> i < 2048 \<and> z = B + 4 * of_nat i then NOT 0 else mem t z)" for z
  proof -
    have "(\<exists>i<2048 - j. z = B + 4 * of_nat j + 4 * of_nat i) \<longleftrightarrow> (\<exists>i. j \<le> i \<and> i < 2048 \<and> z = B + 4 * of_nat i)"
    proof
      assume "\<exists>i<2048 - j. z = B + 4 * of_nat j + 4 * of_nat i"
      then obtain i where "i < 2048 - j" "z = B + 4 * of_nat (j + i)" by (auto simp: algebra_simps)
      then show "\<exists>i. j \<le> i \<and> i < 2048 \<and> z = B + 4 * of_nat i" by (intro exI [of _ "j + i"]) simp
    next
      assume "\<exists>i. j \<le> i \<and> i < 2048 \<and> z = B + 4 * of_nat i"
      then obtain i where i: "j \<le> i" "i < 2048" "z = B + 4 * of_nat i" by blast
      then have "of_nat i = (of_nat j + of_nat (i - j) :: dword_t)" by (simp flip: of_nat_add)
      then have "z = B + 4 * of_nat j + 4 * of_nat (i - j)" unfolding i(3) by (simp only: distrib_left add.assoc)
      then show "\<exists>i<2048 - j. z = B + 4 * of_nat j + 4 * of_nat i" using i by (intro exI [of _ "i - j"]) auto
    qed
    then show ?thesis unfolding s'_def mem_fill_words by (simp only:)
  qed
  have a2: "a < 2048" using j by (simp add: j_def)
  have eqB: "B + 4 * of_nat i = B + 4 * of_nat k \<longleftrightarrow> i = k" if "i < 2048" "k < 2048" for i k using cell_eq [of i k B] that by simp
  have g: "mem (fill_words a (NOT 0) B s) (B + 4 * of_nat i) = (if i < a then NOT 0 else mem s (B + 4 * of_nat i))" if "i < 2048" for i
  proof -
    have "k < 2048" if "k < a" for k using that a2 by simp
    then have "(\<exists>k<a. B + 4 * of_nat i = B + 4 * of_nat k) \<longleftrightarrow> i < a" using eqB [OF that] by blast
    then show ?thesis unfolding mem_fill_words by (simp only:)
  qed
  have "mem s' (B + 4 * of_nat i) = NOT (range_mask port sz i)" if i: "i < 2048" for i
  proof -
    have "(\<exists>k. j \<le> k \<and> k < 2048 \<and> B + 4 * of_nat i = B + 4 * of_nat k) \<longleftrightarrow> j \<le> i" using i eqB [OF i] by blast
    then show ?thesis unfolding f t_def tm(1) [OF i] g [OF i] using i
      by (auto simp: range_mask_def Let_def a_def [symmetric] w_def [symmetric] e_def [symmetric] j_def)
  qed
  moreover have "mem s' z = mem s z" if z: "\<forall>i<2048. z \<noteq> B + 4 * of_nat i" for z
  proof -
    have "\<not> (\<exists>i<a. z = B + 4 * of_nat i)" using z a2 less_trans by blast
    then have "mem (fill_words a (NOT 0) B s) z = mem s z" unfolding mem_fill_words by (simp only: if_False)
    then show ?thesis unfolding f t_def tm(2) [OF z] using z by auto
  qed
  moreover have "s' = s\<lparr>mem := mem s'\<rparr>"
    unfolding s'_def t_def by (subst tm(3)) (simp add: fill_words_mem cong: if_cong)
  ultimately show ?thesis using run unfolding s'_def [symmetric] by blast
qed


section \<open>The bitmap as an array of bits\<close>

text \<open>What the database for I/O ports relies on: the bits of a range are set or cleared, all others stay.\<close>

locale port_bitmap =
  fixes test :: "'s \<Rightarrow> nat \<Rightarrow> bool"
    and set_range :: "nat \<Rightarrow> nat \<Rightarrow> 's \<Rightarrow> 's"
    and clear_range :: "nat \<Rightarrow> nat \<Rightarrow> 's \<Rightarrow> 's"
    and bound :: nat
  assumes test_set: "0 < n \<Longrightarrow> p + n \<le> bound \<Longrightarrow> q < bound \<Longrightarrow> test (set_range p n s) q \<longleftrightarrow> p \<le> q \<and> q < p + n \<or> test s q"
    and test_clear: "0 < n \<Longrightarrow> p + n \<le> bound \<Longrightarrow> q < bound \<Longrightarrow> test (clear_range p n s) q \<longleftrightarrow> \<not> (p \<le> q \<and> q < p + n) \<and> test s q"
begin

text \<open>A range that was denied is denied again after it has been mapped and unmapped; every other port keeps its bit.\<close>

lemma clear_then_set:
  assumes "0 < n" and "p + n \<le> bound" and "\<forall>q. p \<le> q \<and> q < p + n \<longrightarrow> test s q" and "q < bound"
  shows "test (set_range p n (clear_range p n s)) q = test s q"
  using assms by (auto simp: test_set test_clear)

lemma disjoint_ranges:
  assumes "0 < n" and "p + n \<le> bound" and "0 < m" and "r + m \<le> bound" and "p + n \<le> r \<or> r + m \<le> p" and "q < bound"
  shows "test (set_range r m (clear_range p n s)) q = test (clear_range p n (set_range r m s)) q"
  using assms by (auto simp: test_set test_clear)

end

lemma bits_index:
  fixes q :: nat
  assumes "q < 65536"
  shows "q div 32 < 2048" "q mod 32 < 32" "32 * (q div 32) + q mod 32 = q"
  using assms by (simp_all add: div_less_iff_less_mult)

lemma set_bits_test:
  assumes "sz \<noteq> 0" "unat port + unat sz \<le> 65536" "q < 65536"
  shows "iopbm_bit B q (set_bits B port sz s) \<longleftrightarrow> unat port \<le> q \<and> q < unat port + unat sz \<or> iopbm_bit B q s"
  unfolding iopbm_bit_def set_bits_words(1) [OF assms(1,2) bits_index(1) [OF assms(3)]] bit_or_iff
    bit_range_mask [OF assms(1) bits_index(2) [OF assms(3)] assms(2)] bits_index(3) [OF assms(3)] by blast

lemma clear_bits_test:
  assumes "sz \<noteq> 0" "unat port + unat sz \<le> 65536" "q < 65536"
  shows "iopbm_bit B q (clear_bits B port sz s) \<longleftrightarrow> \<not> (unat port \<le> q \<and> q < unat port + unat sz) \<and> iopbm_bit B q s"
  unfolding iopbm_bit_def clear_bits_words(1) [OF assms(1,2) bits_index(1) [OF assms(3)]] bit_and_iff bit_not_iff_eq
    bit_range_mask [OF assms(1) bits_index(2) [OF assms(3)] assms(2)] bits_index(3) [OF assms(3)]
  using bits_index(2) [OF assms(3)] by (auto simp: not_le possible_bit_def)

lemma unat_port: "p \<le> 65536 \<Longrightarrow> unat (of_nat p :: dword_t) = p"
  by (simp add: unat_of_nat_small)

interpretation iopbm: port_bitmap "\<lambda>s q. iopbm_bit B q s" "\<lambda>p n. set_bits B (of_nat p) (of_nat n)"
  "\<lambda>p n. clear_bits B (of_nat p) (of_nat n)" 65536
proof
  fix n p q :: nat and s :: "'a kmem_scheme"
  assume a: "0 < n" "p + n \<le> 65536" "q < 65536"
  then have u: "(of_nat n :: dword_t) \<noteq> 0" "unat (of_nat p :: dword_t) = p" "unat (of_nat n :: dword_t) = n"
    using of_nat_dword_0 [of n] by (simp_all add: unat_port)
  show "iopbm_bit B q (set_bits B (of_nat p) (of_nat n) s) \<longleftrightarrow> p \<le> q \<and> q < p + n \<or> iopbm_bit B q s"
    using set_bits_test [OF u(1), of "of_nat p" q B s] a unfolding u(2,3) by blast
  show "iopbm_bit B q (clear_bits B (of_nat p) (of_nat n) s) \<longleftrightarrow> \<not> (p \<le> q \<and> q < p + n) \<and> iopbm_bit B q s"
    using clear_bits_test [OF u(1), of "of_nat p" q B s] a unfolding u(2,3) by blast
qed


section \<open>A new bitmap\<close>

lemma entry_word:
  assumes "w AND mask 12 = 0" and "x AND NOT (mask 12) = 0" and "y AND NOT (mask 12) = 0"
  shows "((((w AND PAGE_MASK) OR x) AND NOT PAGE_FLAGS_MASK) OR y) AND PAGE_MASK = w"
proof -
  have pm: "PAGE_MASK = NOT (mask 12)" by (simp add: PAGE_MASK_def PAGE_SIZE_def mask_eq_exp_minus_1)
  have low: "\<not> bit z n" if "z AND NOT (mask 12) = 0" "12 \<le> n" for z :: dword_t and n
    using that bit_and_iff [of z "NOT (mask 12)" n] by (auto simp: bit_simps dest: bit_imp_le_length)
  have fm: "\<not> bit PAGE_FLAGS_MASK n" if "12 \<le> n" for n
    by (rule low [OF _ that]) (simp add: PAGE_FLAGS_MASK_def mask_eq_exp_minus_1)
  have w: "\<not> bit w n" if "n < 12" for n
    using that assms(1) bit_and_iff [of w "mask 12" n] by (auto simp: bit_simps)
  show ?thesis unfolding pm
  proof (rule bit_word_eqI)
    fix n assume n: "n < LENGTH(32)"
    show "bit (((((w AND NOT (mask 12)) OR x) AND NOT PAGE_FLAGS_MASK) OR y) AND NOT (mask 12)) n \<longleftrightarrow> bit w n"
    proof (cases "n < 12")
      case True
      with w show ?thesis by (simp add: bit_simps)
    next
      case False
      then show ?thesis using n low [OF assms(2), of n] low [OF assms(3), of n] fm [of n] by (simp add: bit_simps)
    qed
  qed
qed

lemma set_entry_flags:
  assumes "w AND mask 12 = 0"
  shows "set_flags pg (PAGE_VALID OR PAGE_WRITABLE) (set_entry pg w b 0 s) =
    wr pg (((w AND PAGE_MASK) OR (PAGE_USER_BITS OR (if b then PAGE_WRITABLE else 0))) AND NOT PAGE_FLAGS_MASK OR (PAGE_VALID OR PAGE_WRITABLE)) s"
    and "pg_address pg (set_flags pg (PAGE_VALID OR PAGE_WRITABLE) (set_entry pg w b 0 s)) = w"
proof -
  show e: "set_flags pg (PAGE_VALID OR PAGE_WRITABLE) (set_entry pg w b 0 s) =
    wr pg (((w AND PAGE_MASK) OR (PAGE_USER_BITS OR (if b then PAGE_WRITABLE else 0))) AND NOT PAGE_FLAGS_MASK OR (PAGE_VALID OR PAGE_WRITABLE)) s"
    by (simp add: set_flags_def set_entry_def wr_def or.assoc)
  show "pg_address pg (set_flags pg (PAGE_VALID OR PAGE_WRITABLE) (set_entry pg w b 0 s)) = w"
    unfolding e pg_address_def mem_wr fun_upd_same
    by (rule entry_word [OF assms]) (simp_all add: PAGE_USER_BITS_def PAGE_VALID_def PAGE_WRITABLE_def PAGE_USER_def mask_eq_exp_minus_1)
qed

lemma more_tcbs: "kmem.more s' = kmem.more s \<Longrightarrow> tcbs s' = tcbs s" for s s' :: kstate
  by (cases s; cases s') simp

lemma outside_taken: "outside (pre @ ys @ rest) x \<Longrightarrow> outside (pre @ rest) x"
  by (auto simp: outside_def)

lemma taken_outside:
  assumes inv: "kmem_inv s (pre @ chunks c (Suc n) @ rest)" and x: "unat c \<le> unat x" "unat x < unat c + 1024 * Suc n"
  shows "outside (pre @ rest) x"
proof -
  note ar = kmem_inv_around [OF inv]
  have "unat y + 1024 \<le> unat c" if "y \<in> set pre" for y
  proof -
    have "1024 dvd unat y" "1024 dvd unat c" "unat y < unat c"
      using inv that ar(1,4) by (auto simp: kmem_inv_def chunk_aligned_def word_less_nat_alt)
    then obtain i j where "unat y = 1024 * i" "unat c = 1024 * j" by (metis dvdE)
    with \<open>unat y < unat c\<close> show ?thesis by simp
  qed
  then show ?thesis using ar(5) x by (fastforce simp: outside_def)
qed

lemma pgtab_next: "pgtab_idx (x + 0x1000) \<noteq> pgtab_idx x" and pgtab_less: "unat (pgtab_idx x) < 1024"
proof -
  have i: "unat (pgtab_idx z) = unat z div 4096 mod 1024" for z
  proof -
    have "NOT (drop_bit 2 PAGE_MASK) = (0xC00003FF :: dword_t)" by (simp add: PAGE_MASK_def PAGE_SIZE_def)
    then have "pgtab_idx z = drop_bit 12 z AND 0xC00003FF" by (simp add: pgtab_idx_def)
    also have "\<dots> = drop_bit 12 z AND mask 10"
    proof (rule bit_word_eqI)
      fix n assume "n < LENGTH(32)"
      have "(0xC00003FF :: dword_t) = mask 10 OR push_bit 30 (mask 2)" by (simp add: mask_eq_exp_minus_1)
      moreover have "bit (push_bit 30 (mask 2) :: dword_t) n \<longleftrightarrow> 30 \<le> n" if "n < 32"
        using that by (simp only: bit_push_bit_iff bit_mask_iff possible_bit_word) auto
      ultimately have "bit (0xC00003FF :: dword_t) n \<longleftrightarrow> n < 10 \<or> 30 \<le> n" if "n < 32"
        using that bit_or_iff [of "mask 10 :: dword_t" "push_bit 30 (mask 2)" n] by (simp only: bit_mask_iff possible_bit_word) auto
      then show "bit (drop_bit 12 z AND 0xC00003FF) n \<longleftrightarrow> bit (drop_bit 12 z AND mask 10) n"
        using \<open>n < LENGTH(32)\<close> by (auto simp: bit_simps dest: bit_imp_le_length)
    qed
    finally have "unat (pgtab_idx z) = unat (drop_bit 12 z) mod 2 ^ 10" by (simp only: unat_and_mask)
    then show ?thesis unfolding unat_drop_bit_eq unfolding drop_bit_eq_div by simp
  qed
  show "unat (pgtab_idx x) < 1024" by (simp add: i)
  have "unat (x + 0x1000) div 4096 mod 1024 = (unat x div 4096 + 1) mod 1024"
  proof -
    have "unat (x + 0x1000) = (unat x + 4096) mod (4096 * 1048576)" by (simp add: unat_word_ariths)
    then have "unat (x + 0x1000) div 4096 = (unat x + 4096) div 4096 mod 1048576" by (simp only: mod_mult2_eq)
    moreover have "(unat x + 4096) div 4096 = unat x div 4096 + 1" by simp
    ultimately show ?thesis by (simp add: mod_mod_cancel)
  qed
  moreover have "(n + 1) mod 1024 \<noteq> n mod 1024" for n :: nat by (simp add: mod_Suc)
  ultimately have "unat (pgtab_idx (x + 0x1000)) \<noteq> unat (pgtab_idx x)" unfolding i by metis
  then show "pgtab_idx (x + 0x1000) \<noteq> pgtab_idx x" by metis
qed


text \<open>Installing the bitmap at \<open>B\<close>: the page directory gets a copy of the kernel's page table, with the two entries of the
  bitmap changed.\<close>

lemma install_iopbm_step:
  fixes s :: kstate
  defines "E \<equiv> \<lambda>v t s. pgent (space (tcbs (s :: kstate) t)) (pgdir_idx (iopbm_virt v))"
  assumes inv: "kmem_inv s ys" and split: "alloc_split 4096 4 ys = Some (pre, P, rest)"
    and E: "outside ys (E v t s)" and K: "\<forall>j<1024. outside ys (iopbm_pgt v + 4 * of_nat j)" and B: "B AND mask 12 = 0"
  shows "\<exists>s'. install_iopbm v t B s = Ok (0, s') \<and> kmem_inv s' (pre @ rest) \<and> kmem.more s' = kmem.more s \<and>
    mem s' (E v t s) AND PAGE_MASK = virt_to_phys P \<and>
    mem s' (P + 4 * pgtab_idx (iopbm_virt v)) AND PAGE_MASK = virt_to_phys B \<and>
    (\<forall>j<1024. of_nat j \<notin> {pgtab_idx (iopbm_virt v), pgtab_idx (iopbm_virt v + 0x1000)} \<longrightarrow>
       mem s' (P + 4 * of_nat j) = mem s (iopbm_pgt v + 4 * of_nat j)) \<and>
    (\<forall>x. x \<noteq> E v t s \<and> (unat x < unat P \<or> unat P + 4096 \<le> unat x) \<and> x \<notin> set pre \<longrightarrow> mem s' x = mem s x)"
proof -
  have sz: "Suc 3 = 4" "1024 * 4 = (4096 :: nat)" "of_nat 4096 = (4096 :: dword_t)" by simp_all
  obtain s2 where s2: "kmem_alloc 4096 s = Some (P, s2)" "kmem_inv s2 (pre @ rest)" "kmem.more s2 = kmem.more s"
      "\<forall>x. unat x < unat P \<or> unat P + 4096 \<le> unat x \<longrightarrow> x \<notin> set pre \<longrightarrow> mem s2 x = mem s x"
    using kmem_alloc_hit [OF inv, of 3, unfolded sz, OF split] by blast
  have ys: "ys = pre @ chunks P (Suc 3) @ rest" and Pa: "P AND 4095 = 0" using alloc_split_Some [OF split] by auto
  note ar = kmem_inv_around [OF inv [unfolded ys], unfolded sz]
  note run = outside_run [OF _ ys ar(3) [folded sz], unfolded sz]
  define e where "e = E v t s"
  have cell: "unat (P + 4 * of_nat j) = unat P + 4 * j" if "j < 1024" for j
    using block_cell [OF ar(3), of "4 * j"] that by simp
  have P12: "virt_to_phys P AND mask 12 = 0" using Pa by (intro phys_page) (simp add: mask_eq_exp_minus_1)
  have B12: "virt_to_phys B AND mask 12 = 0" "virt_to_phys (B + 0x1000) AND mask 12 = 0"
  proof -
    show "virt_to_phys B AND mask 12 = 0" using B by (rule phys_page)
    have "unat (B + 0x1000) mod 4096 = (unat B + 4096) mod 4096" by (simp add: unat_word_ariths mod_mod_cancel)
    then have "(B + 0x1000) AND mask 12 = 0" using B by (simp add: page_aligned_unat)
    then show "virt_to_phys (B + 0x1000) AND mask 12 = 0" by (rule phys_page)
  qed
  define i1 i2 where "i1 = unat (pgtab_idx (iopbm_virt v))" and "i2 = unat (pgtab_idx (iopbm_virt v + 0x1000))"
  have i: "i1 < 1024" "i2 < 1024" "i1 \<noteq> i2" "pgtab_idx (iopbm_virt v) = of_nat i1" "pgtab_idx (iopbm_virt v + 0x1000) = of_nat i2"
    using pgtab_less pgtab_next [of "iopbm_virt v"] by (auto simp: i1_def i2_def dest: arg_cong [of _ _ "of_nat :: nat \<Rightarrow> dword_t"])
  define w where "w p b = ((virt_to_phys p AND PAGE_MASK) OR (PAGE_USER_BITS OR (if b then PAGE_WRITABLE else 0))) AND NOT PAGE_FLAGS_MASK OR
    (PAGE_VALID OR PAGE_WRITABLE)" for p b
  have w: "w p b AND PAGE_MASK = virt_to_phys p" if "virt_to_phys p AND mask 12 = 0" for p b
    unfolding w_def by (rule entry_word [OF that])
      (simp_all add: PAGE_USER_BITS_def PAGE_VALID_def PAGE_WRITABLE_def PAGE_USER_def mask_eq_exp_minus_1)
  define s3 where "s3 = copy_pgents 1024 P (iopbm_pgt v) s2"
  have t3: "tcbs (copy_pgents k a b q) = tcbs q" "kmem.more (copy_pgents k a b q) = kmem.more q" for k a b and q :: kstate
    by (induction k arbitrary: a b q) (simp_all add: pg_copy_def wr_def)
  define s' where "s' = wr e (w P True) (wr (P + 4 * of_nat i2) (w (B + 0x1000) False) (wr (P + 4 * of_nat i1) (w B False) s3))"
  have tw: "tcbs (wr p x q) = tcbs q" for p x and q :: kstate by (simp add: wr_def)
  have tc: "tcbs s2 = tcbs s" using more_tcbs [OF s2(3)] .
  have "install_iopbm v t B s = Ok (0, s')"
    using s2(1) ar(2) unfolding install_iopbm_def iopbm_entry_def Let_def PAGE_SIZE_def pg_next_def
    by (simp add: set_entry_flags(1) [OF P12] set_entry_flags(1) [OF B12(1)] set_entry_flags(1) [OF B12(2)] i(4,5) s'_def s3_def w_def e_def E_def
        t3(1) tw tc or.assoc)
  moreover have dis: "\<forall>i<1024. \<forall>j<1024. P + 4 * of_nat i \<noteq> iopbm_pgt v + 4 * of_nat j"
  proof (intro allI impI notI)
    fix i j :: nat assume a: "i < 1024" "j < 1024" "P + 4 * of_nat i = iopbm_pgt v + 4 * of_nat j"
    show False using run(1) [OF K [rule_format, OF a(2)]] cell [OF a(1)] a(1) unfolding a(3) [symmetric] by auto
  qed
  have m3: "mem s3 x = (if \<exists>j<1024. x = P + 4 * of_nat j then mem s2 (x - P + iopbm_pgt v) else mem s2 x)" for x
    unfolding s3_def by (rule copy_pgents_mem) (use dis in auto)
  have eP: "e \<noteq> P + 4 * of_nat j" if "j < 1024" for j
    using run(1) [OF E [folded e_def]] cell [OF that] that by auto
  have inj: "P + 4 * of_nat j = P + 4 * of_nat k \<longleftrightarrow> j = k" if "j < 1024" "k < 1024" for j k
    using cell_eq [of j k P] that by simp
  have "mem s' e AND PAGE_MASK = virt_to_phys P" by (simp add: s'_def w [OF P12])
  moreover have "mem s' (P + 4 * pgtab_idx (iopbm_virt v)) AND PAGE_MASK = virt_to_phys B"
    unfolding i(4) s'_def mem_wr using eP [OF i(1)] inj [OF i(1,2)] i(3) w [OF B12(1)] by (auto simp: fun_upd_def)
  moreover have "mem s' (P + 4 * of_nat j) = mem s (iopbm_pgt v + 4 * of_nat j)"
    if j: "j < 1024" "of_nat j \<notin> {pgtab_idx (iopbm_virt v), pgtab_idx (iopbm_virt v + 0x1000)}" for j
  proof -
    have "j \<noteq> i1" "j \<noteq> i2" using j(2) i(4,5) by auto
    then have "mem s' (P + 4 * of_nat j) = mem s3 (P + 4 * of_nat j)"
      unfolding s'_def mem_wr using eP [OF j(1)] inj [OF j(1) i(1)] inj [OF j(1) i(2)] by (auto simp: fun_upd_def)
    also have "\<dots> = mem s2 (P + 4 * of_nat j - P + iopbm_pgt v)" using m3 [of "P + 4 * of_nat j"] j(1) by (simp only: if_True) auto
    also have "\<dots> = mem s (iopbm_pgt v + 4 * of_nat j)"
    proof -
      have "P + 4 * of_nat j - P + iopbm_pgt v = iopbm_pgt v + 4 * of_nat j" by simp
      then show ?thesis using s2(4) run [OF K [rule_format, OF j(1)]] by metis
    qed
    finally show ?thesis .
  qed
  moreover have same: "mem s' x = mem s2 x" if "x \<noteq> e" "unat x < unat P \<or> unat P + 4096 \<le> unat x" for x
  proof -
    have "x \<noteq> P + 4 * of_nat j" if "j < 1024" for j using cell [OF that] that \<open>unat x < unat P \<or> unat P + 4096 \<le> unat x\<close> by auto
    then show ?thesis unfolding s'_def mem_wr fun_upd_def using m3 [of x] i(1,2) that(1) by auto
  qed
  moreover have "kmem_inv s' (pre @ rest)"
  proof -
    have "s' = s2\<lparr>mem := mem s'\<rparr>"
    proof -
      have "s3 = s2\<lparr>mem := mem s3\<rparr>" unfolding s3_def by (rule copy_pgents_shape)
      then show ?thesis unfolding s'_def by (intro wr_shape)
    qed
    moreover have "\<forall>x\<in>set (pre @ rest). mem s' x = mem s2 x"
    proof (intro ballI same)
      fix x assume x: "x \<in> set (pre @ rest)"
      then show "x \<noteq> e" using outside_not_free [OF outside_taken [OF E [folded e_def, unfolded ys]]] by auto
      show "unat x < unat P \<or> unat P + 4096 \<le> unat x" using x ar(4,5) by (auto simp: word_less_nat_alt)
    qed
    ultimately show ?thesis using kmem_inv_mem [OF s2(2), of "mem s'"] by simp
  qed
  moreover have "kmem.more s' = kmem.more s" by (simp add: s'_def s3_def t3(2) s2(3))
  moreover have "\<forall>x. x \<noteq> e \<and> (unat x < unat P \<or> unat P + 4096 \<le> unat x) \<and> x \<notin> set pre \<longrightarrow> mem s' x = mem s x"
    using same s2(4) by metis
  ultimately show ?thesis unfolding e_def [symmetric] by (intro exI [of _ s'] conjI) (assumption | blast)+
qed


text \<open>Two runs that are taken from the free list one after the other.\<close>

lemma runs_apart:
  assumes inv: "kmem_inv s (pre @ chunks B (Suc m) @ rest)" and ys: "pre @ rest = pre' @ chunks P (Suc n) @ rest'"
    and fit: "unat P + 1024 * Suc n \<le> 2 ^ 32" and k: "k < 1024 * Suc n"
  shows "unat (P + of_nat k) < unat B \<or> unat B + 1024 * Suc m \<le> unat (P + of_nat k)"
proof (rule ccontr)
  assume "\<not> (unat (P + of_nat k) < unat B \<or> unat B + 1024 * Suc m \<le> unat (P + of_nat k))"
  then have "outside (pre @ rest) (P + of_nat k)" using taken_outside [OF inv, of "P + of_nat k"] by simp
  from outside_run(1) [OF this ys fit] show False using block_cell [OF fit k] k by simp
qed

lemma double_page:
  fixes B :: dword_t
  assumes "B AND 8191 = 0" shows "B AND mask 12 = 0"
proof -
  have "B AND mask 13 = 0" using assms by (simp add: mask_eq_exp_minus_1)
  then have "unat B mod 2 ^ 13 = 0" using unat_and_mask [of B 13] by simp
  then have "4096 dvd unat B" using dvd_trans [of 4096 8192 "unat B"] by (simp add: dvd_eq_mod_eq_0)
  then have "unat B mod 4096 = 0" by simp
  then show ?thesis by (simp add: page_aligned_unat)
qed

section \<open>Properties\<close>

text \<open>A task with a bitmap of its own at \<open>0xF0400000\<close>, all bits set; and a task that still has the default bitmap, with thirteen free
  chunks.\<close>

definition demo_ports :: kstate where
  "demo_ports =
     (upd_tcb 0xE0020000 (\<lambda>c. c\<lparr>space := 0x200000\<rparr>) (boot_state 0xF0110000))\<lparr>mem :=
       \<lambda>p. if p = 0xF0200F00 then 0x300003 else if p = 0xF0300424 then 0x400003 else - 1\<rparr>"

definition demo_noports :: kstate where
  "demo_noports =
     (upd_tcb 0xE0020000 (\<lambda>c. c\<lparr>space := 0x200000\<rparr>) (boot_state 0xF0110000))\<lparr>kmem_free_list := 0xF0500000, free_chunks := 13, mem :=
       \<lambda>p. if p = 0xF0200F00 then 0x300003 else if p = 0xF0300424 then 0x109003 else if p = 0xF0503000 then 0 else p + 1024\<rparr>"

lemma sample_walk:
  "get_iopbm (iopbm_virt demo_io) 0x200000 s = mem s (phys_to_virt (mem s 0xF0200F00 AND PAGE_MASK) + 0x424) AND PAGE_MASK"
  by (simp add: get_iopbm_def demo_io_def pgent_def pgdir_idx_def pgtab_idx_def subtree_def pg_next_def pg_address_def phys_to_virt_def
      KERNEL_OFFSET_def PAGE_MASK_def PAGE_SIZE_def)

lemma demo_ports_walk:
  "get_iopbm (iopbm_virt demo_io) (space (tcbs demo_ports 0xE0020000)) demo_ports = 0x400000" "iopbm_phys demo_io = 0x109000"
  "get_iopbm (iopbm_virt demo_io) (space (tcbs demo_noports 0xE0020000)) demo_noports = 0x109000"
  "pgent (space (tcbs demo_noports 0xE0020000)) (pgdir_idx (iopbm_virt demo_io)) = 0xF0200F00"
proof -
  have sp: "space (tcbs demo_ports 0xE0020000) = 0x200000" "space (tcbs demo_noports 0xE0020000) = 0x200000"
    by (simp_all add: demo_ports_def demo_noports_def)
  show "get_iopbm (iopbm_virt demo_io) (space (tcbs demo_ports 0xE0020000)) demo_ports = 0x400000"
    "get_iopbm (iopbm_virt demo_io) (space (tcbs demo_noports 0xE0020000)) demo_noports = 0x109000"
    unfolding sp sample_walk by (simp_all add: demo_ports_def demo_noports_def phys_to_virt_def KERNEL_OFFSET_def PAGE_MASK_def PAGE_SIZE_def)
  show "pgent (space (tcbs demo_noports 0xE0020000)) (pgdir_idx (iopbm_virt demo_io)) = 0xF0200F00"
    unfolding sp by (simp add: demo_io_def pgent_def pgdir_idx_def phys_to_virt_def KERNEL_OFFSET_def)
qed (simp add: demo_io_def)

text \<open>The two words of a node, read back field by field.\<close>

lemma io_word_fields:
  fixes lo hi d tid :: dword_t and b :: bool
  assumes "unat lo < 2 ^ 16" and "unat hi < 2 ^ 17" and "unat d < 2 ^ 14"
  defines "w1 \<equiv> push_bit 16 lo OR (drop_bit 16 tid AND IOMDB_TID_MASK)"
    and "w2 \<equiv> (push_bit 15 hi OR (if b then IOMDB_DUMMY_MASK else 0)) OR (d AND IOMDB_DEPTH_MASK)"
  shows "drop_bit 16 w1 = lo" "x0id_task (push_bit 16 (w1 AND IOMDB_TID_MASK)) = x0id_task tid" "drop_bit 15 w2 = hi"
    "w2 AND IOMDB_DEPTH_MASK = d" "w2 AND IOMDB_DUMMY_MASK \<noteq> 0 \<longleftrightarrow> b"
    "(w1 AND IOMDB_TID_MASK) OR push_bit 16 x = push_bit 16 x OR (drop_bit 16 tid AND IOMDB_TID_MASK)"
    "(w2 AND (IOMDB_DEPTH_MASK OR IOMDB_DUMMY_MASK)) OR push_bit 15 x = (push_bit 15 x OR (if b then IOMDB_DUMMY_MASK else 0)) OR (d AND IOMDB_DEPTH_MASK)"
proof -
  have small: "i < k" if "unat x < 2 ^ k" "bit x i" for x :: dword_t and k i
  proof -
    have "take_bit k x = x" using that(1) by (simp add: word_unat_eq_iff unsigned_take_bit_eq take_bit_nat_eq_self)
    then show ?thesis using that(2) by (metis bit_take_bit_iff)
  qed
  note b = small [OF assms(1)] small [OF assms(2)] small [OF assms(3)]
  define D :: dword_t where "D = push_bit 14 1"
  have D: "bit D i \<longleftrightarrow> i = 14" for i unfolding D_def by (simp only: bit_push_bit_iff bit_1_iff possible_bit_word) auto
  have "D \<noteq> 0" using D [of 14] by auto
  have m: "IOMDB_TID_MASK = mask 8" "IOMDB_DEPTH_MASK = mask 14" "IOMDB_DUMMY_MASK = D"
    by (simp_all add: IOMDB_TID_MASK_def IOMDB_DEPTH_MASK_def IOMDB_DUMMY_MASK_def mask_eq_exp_minus_1 D_def)
  note w = w1_def w2_def m
  show "drop_bit 16 w1 = lo" "drop_bit 15 w2 = hi" "w2 AND IOMDB_DEPTH_MASK = d"
    unfolding w by (rule bit_word_eqI, use b in \<open>auto simp: bit_simps D\<close>)+
  show "x0id_task (push_bit 16 (w1 AND IOMDB_TID_MASK)) = x0id_task tid" unfolding w x0id_task_def
    by (rule bit_word_eqI) (auto simp: bit_simps)
  have "w2 AND IOMDB_DUMMY_MASK = (if b then D else 0)" unfolding w by (rule bit_word_eqI) (auto simp: bit_simps D)
  then show "w2 AND IOMDB_DUMMY_MASK \<noteq> 0 \<longleftrightarrow> b" using \<open>D \<noteq> 0\<close> by simp
  show "(w1 AND IOMDB_TID_MASK) OR push_bit 16 x = push_bit 16 x OR (drop_bit 16 tid AND IOMDB_TID_MASK)"
    "(w2 AND (IOMDB_DEPTH_MASK OR IOMDB_DUMMY_MASK)) OR push_bit 15 x = (push_bit 15 x OR (if b then IOMDB_DUMMY_MASK else 0)) OR (d AND IOMDB_DEPTH_MASK)"
    unfolding w by (rule bit_word_eqI, auto simp: bit_simps D)+
qed

text \<open>\<^bold>\<open>C39.\<close> The bounds, task, depth and mark of a node are packed into two words and read back unchanged: 16 bits for the lower
  bound, 17 for the higher bound, 14 for the depth. Writing one bound keeps the other fields. The lower bound \<open>0x10000\<close>,
  which a node gets when its ports up to the last are unmapped, does not fit and is read back as 0.\<close>

theorem io_node_fields:
  fixes s :: "'a kmem_scheme"
  assumes "unat lo < 2 ^ 16" and "unat hi < 2 ^ 17" and "unat d < 2 ^ 14" and "unat lo' < 2 ^ 16" and "unat hi' < 2 ^ 17"
    and "s' = io_set_values n lo hi tid d b s"
  shows "io_get_lo n s' = lo \<and> io_get_hi n s' = hi \<and> x0id_task (io_get_tid n s') = x0id_task tid \<and> io_get_depth n s' = d \<and>
    (io_get_dummy n s' \<noteq> 0 \<longleftrightarrow> b) \<and>
    io_set_lo n lo' s' = io_set_values n lo' hi tid d b s \<and> io_set_hi n hi' s' = io_set_values n lo hi' tid d b s \<and>
    io_get_lo n (io_set_lo n 0x10000 s') = 0"
proof -
  note f = io_word_fields [OF assms(1-3)]
  have m1: "mem s' n = push_bit 16 lo OR (drop_bit 16 tid AND IOMDB_TID_MASK)"
    and m2: "mem s' (n + 4) = (push_bit 15 hi OR (if b then IOMDB_DUMMY_MASK else 0)) OR (d AND IOMDB_DEPTH_MASK)"
    by (simp_all add: assms(6) io_set_values_def io_w1_def io_w2_def)
  have s1: "io_set_lo n x s' = io_set_values n x hi tid d b s" for x
    unfolding io_set_lo_def io_w1_def m1 f(6) unfolding assms(6)
    by (simp add: io_set_values_def io_w1_def io_w2_def wr_def fun_upd_twist [of n "n + 4"])
  have s2: "io_set_hi n hi' s' = io_set_values n lo hi' tid d b s"
    unfolding io_set_hi_def io_w2_def m2 f(7) unfolding assms(6) by (simp add: io_set_values_def io_w1_def io_w2_def wr_def)
  have "io_get_lo n (io_set_values n 0x10000 hi tid d b s) = 0"
    using io_word_fields(1) [of 0 hi d, where tid = tid] assms(2,3) by (simp add: io_get_lo_def io_set_values_def io_w1_def io_w2_def)
  then show ?thesis unfolding s1 s2 io_get_lo_def io_get_hi_def io_get_tid_def io_get_depth_def io_get_dummy_def io_w1_def io_w2_def m1 m2
    using f(1-5) by simp
qed

theorem io_node_fields_witness:
  "io_get_hi 0x100 (io_set_values 0x100 0x3F8 0x10000 0x50000 2 False demo_ports) = 0x10000 \<and>
   io_get_lo 0x100 (io_set_lo 0x100 0x10000 (io_set_values 0x100 0x3F8 0x10000 0x50000 2 False demo_ports)) = 0"
  using io_node_fields [of "0x3F8" "0x10000" 2 0 0 _ "0x100" "0x50000" False demo_ports] by simp

text \<open>For a task with a bitmap of its own, granting a range of ports clears exactly the bits of the range and
  withdrawing it sets exactly these bits, wherever the range starts and ends in the words of the bitmap; every other port
  keeps its bit and no cell outside the bitmap changes.\<close>

theorem iopbm_exact:
  fixes s :: kstate
  assumes own: "get_iopbm (iopbm_virt v) (space (tcbs s t)) s \<noteq> iopbm_phys v"
    and range: "sz \<noteq> 0" "unat port + unat sz \<le> 65536"
    and B: "B = phys_to_virt (get_iopbm (iopbm_virt v) (space (tcbs s t)) s)"
  shows "\<exists>s0 s1. zero_iopbm v t port sz s = Ok (0, s0) \<and> set_iopbm v t port sz s = Ok (0, s1) \<and>
    (\<forall>q<65536. (iopbm_bit B q s0 \<longleftrightarrow> \<not> (unat port \<le> q \<and> q < unat port + unat sz) \<and> iopbm_bit B q s) \<and>
       (iopbm_bit B q s1 \<longleftrightarrow> unat port \<le> q \<and> q < unat port + unat sz \<or> iopbm_bit B q s)) \<and>
    (\<forall>a. (\<forall>i<2048. a \<noteq> B + 4 * of_nat i) \<longrightarrow> mem s0 a = mem s a \<and> mem s1 a = mem s a)"
proof (intro exI conjI)
  show "zero_iopbm v t port sz s = Ok (0, clear_bits B port sz s)" "set_iopbm v t port sz s = Ok (0, set_bits B port sz s)"
    using own by (simp_all add: zero_iopbm_def set_iopbm_def B)
  show "\<forall>q<65536. (iopbm_bit B q (clear_bits B port sz s) \<longleftrightarrow> \<not> (unat port \<le> q \<and> q < unat port + unat sz) \<and> iopbm_bit B q s) \<and>
       (iopbm_bit B q (set_bits B port sz s) \<longleftrightarrow> unat port \<le> q \<and> q < unat port + unat sz \<or> iopbm_bit B q s)"
    using clear_bits_test [OF range] set_bits_test [OF range] by blast
  show "\<forall>a. (\<forall>i<2048. a \<noteq> B + 4 * of_nat i) \<longrightarrow> mem (clear_bits B port sz s) a = mem s a \<and> mem (set_bits B port sz s) a = mem s a"
    using clear_bits_words(2) [OF range] set_bits_words(2) [OF range] by blast
qed

theorem iopbm_exact_witness:
  "\<exists>s0 s1. zero_iopbm demo_io 0xE0020000 0x3F8 8 demo_ports = Ok (0, s0) \<and> set_iopbm demo_io 0xE0020000 0x3F8 8 demo_ports = Ok (0, s1) \<and>
    \<not> iopbm_bit 0xF0400000 0x3F8 s0 \<and> \<not> iopbm_bit 0xF0400000 0x3FF s0 \<and> iopbm_bit 0xF0400000 0x400 s0 \<and>
    iopbm_bit 0xF0400000 0x3F8 s1"
proof -
  have g: "get_iopbm (iopbm_virt demo_io) (space (tcbs demo_ports 0xE0020000)) demo_ports = 0x400000" "iopbm_phys demo_io = 0x109000"
    using demo_ports_walk by simp_all
  have "iopbm_bit 0xF0400000 0x400 demo_ports" by (simp add: iopbm_bit_def demo_ports_def wr_def bit_minus_1_iff)
  then show ?thesis
    using iopbm_exact [of demo_io demo_ports "0xE0020000" 8 "0x3F8" "0xF0400000"] g
    by (auto simp: phys_to_virt_def KERNEL_OFFSET_def)
qed

text \<open>The first ports a task gets: it leaves the default bitmap for one of its own in which exactly the bits of
  these ports are clear, so that it may use these ports and no others; its page directory leads to the new bitmap through a copy
  of the kernel's page table, and the two blocks are taken off the well-formed free list.\<close>

theorem zero_iopbm_fresh:
  fixes s :: kstate
  assumes inv: "kmem_inv s xs" and split1: "alloc_split 8192 8 xs = Some (pre, B, rest)"
    and split2: "alloc_split 4096 4 (pre @ rest) = Some (pre', P, rest')"
    and E: "outside xs (pgent (space (tcbs s t)) (pgdir_idx (iopbm_virt v)))"
    and K: "\<forall>j<1024. outside xs (iopbm_pgt v + 4 * of_nat j)"
    and default: "get_iopbm (iopbm_virt v) (space (tcbs s t)) s = iopbm_phys v"
    and range: "sz \<noteq> 0" "unat port + unat sz \<le> 65536"
  shows "\<exists>s'. zero_iopbm v t port sz s = Ok (0, s') \<and> get_iopbm (iopbm_virt v) (space (tcbs s' t)) s' = virt_to_phys B \<and>
    (\<forall>q<65536. iopbm_bit B q s' \<longleftrightarrow> \<not> (unat port \<le> q \<and> q < unat port + unat sz)) \<and> kmem_inv s' (pre' @ rest') \<and>
    (\<forall>j<1024. of_nat j \<notin> {pgtab_idx (iopbm_virt v), pgtab_idx (iopbm_virt v + 0x1000)} \<longrightarrow>
       mem s' (P + 4 * of_nat j) = mem s (iopbm_pgt v + 4 * of_nat j))"
proof -
  have sz: "Suc 7 = 8" "1024 * 8 = (8192 :: nat)" "of_nat 8192 = (8192 :: dword_t)"
    "Suc 3 = 4" "1024 * 4 = (4096 :: nat)" "of_nat 4096 = (4096 :: dword_t)" by simp_all
  obtain s1 where s1: "kmem_alloc 8192 s = Some (B, s1)" "kmem_inv s1 (pre @ rest)" "kmem.more s1 = kmem.more s"
      "\<forall>x. unat x < unat B \<or> unat B + 8192 \<le> unat x \<longrightarrow> x \<notin> set pre \<longrightarrow> mem s1 x = mem s x"
    using kmem_alloc_hit [OF inv, of 7, unfolded sz, OF split1] by blast
  have xs: "xs = pre @ chunks B (Suc 7) @ rest" and Ba: "B AND 8191 = 0" "rest \<noteq> []" using alloc_split_Some [OF split1] by auto
  have ys: "pre @ rest = pre' @ chunks P (Suc 3) @ rest'" using alloc_split_Some [OF split2] by auto
  note ar = kmem_inv_around [OF inv [unfolded xs], unfolded sz] and arP = kmem_inv_around [OF s1(2) [unfolded ys], unfolded sz]
  have B12: "B AND mask 12 = 0" using Ba(1) by (rule double_page)
  define e where "e = pgent (space (tcbs s t)) (pgdir_idx (iopbm_virt v))"
  have tc1: "tcbs s1 = tcbs s" using more_tcbs [OF s1(3)] .
  have out: "outside (pre @ rest) x" if "outside xs x" for x using outside_taken [OF that [unfolded xs]] .
  obtain s6 where s6: "install_iopbm v t B s1 = Ok (0, s6)" "kmem_inv s6 (pre' @ rest')" "kmem.more s6 = kmem.more s1"
      "mem s6 e AND PAGE_MASK = virt_to_phys P" "mem s6 (P + 4 * pgtab_idx (iopbm_virt v)) AND PAGE_MASK = virt_to_phys B"
      "\<forall>j<1024. of_nat j \<notin> {pgtab_idx (iopbm_virt v), pgtab_idx (iopbm_virt v + 0x1000)} \<longrightarrow>
         mem s6 (P + 4 * of_nat j) = mem s1 (iopbm_pgt v + 4 * of_nat j)"
    using install_iopbm_step [OF s1(2) split2, where v = v and t = t and B = B] out [OF E] out K B12 unfolding tc1 e_def by blast
  have Bb: "unat B + 8192 < 2 ^ 32"
    using Ba(2) ar(5) unat_dword_less by (metis list.set_intros(1) neq_Nil_conv order_le_less_trans)
  obtain s' where s': "fresh_iopbm B port sz s6 = Some s'" "\<forall>i<2048. mem s' (B + 4 * of_nat i) = NOT (range_mask port sz i)"
      "\<forall>z. (\<forall>i<2048. z \<noteq> B + 4 * of_nat i) \<longrightarrow> mem s' z = mem s6 z" "s' = s6\<lparr>mem := mem s'\<rparr>"
    using fresh_iopbm_words [OF range Bb] by blast
  have cellB: "unat B \<le> unat (B + 4 * of_nat i) \<and> unat (B + 4 * of_nat i) < unat B + 8192" if "i < 2048" for i
    using block_cell [of B 8192 "4 * i"] ar(3) that by simp
  have same: "mem s' x = mem s6 x" if "unat x < unat B \<or> unat B + 8192 \<le> unat x" for x
    using s'(3) cellB that by (metis not_le)
  have P6: "mem s' (P + 4 * of_nat j) = mem s6 (P + 4 * of_nat j)" if "j < 1024" for j
    using runs_apart [OF inv [unfolded xs] ys arP(3) [folded sz], unfolded sz, of "4 * j"] that by (intro same) simp
  have "zero_iopbm v t port sz s = Ok (0, s')"
    using s1(1) ar(2) s6(1) s'(1) default by (simp add: zero_iopbm_def X86_IOPERMBITMAP_SIZE_def)
  moreover have "get_iopbm (iopbm_virt v) (space (tcbs s' t)) s' = virt_to_phys B"
  proof -
    have tc: "tcbs s' = tcbs s" using more_tcbs [OF s6(3)] tc1 arg_cong [OF s'(4), of tcbs] by simp
    have "mem s' e = mem s6 e" using outside_run(1) [OF E xs, unfolded sz, OF ar(3)] by (intro same) (simp add: e_def)
    then have sub: "subtree e s' = P" by (simp add: subtree_def s6(4) phys_to_virt_def virt_to_phys_def)
    have "mem s' (P + 4 * pgtab_idx (iopbm_virt v)) = mem s6 (P + 4 * pgtab_idx (iopbm_virt v))"
      using P6 [OF pgtab_less [of "iopbm_virt v"]] by simp
    then show ?thesis
      unfolding get_iopbm_def tc e_def [symmetric] sub pg_next_def pg_address_def using s6(5) by simp
  qed
  moreover have "iopbm_bit B q s' \<longleftrightarrow> \<not> (unat port \<le> q \<and> q < unat port + unat sz)" if q: "q < 65536" for q
    unfolding iopbm_bit_def s'(2) [rule_format, OF bits_index(1) [OF q]] bit_not_iff_eq
      bit_range_mask [OF range(1) bits_index(2) [OF q] range(2)] bits_index(3) [OF q]
    using bits_index(2) [OF q] by (auto simp: possible_bit_def not_le)
  moreover have "kmem_inv s' (pre' @ rest')"
  proof -
    have "\<forall>x\<in>set (pre' @ rest'). mem s' x = mem s6 x"
    proof (intro ballI same)
      fix x assume "x \<in> set (pre' @ rest')"
      then have "x \<in> set (pre @ rest)" unfolding ys by auto
      then show "unat x < unat B \<or> unat B + 8192 \<le> unat x" using ar(4,5) by (auto simp: word_less_nat_alt)
    qed
    then show ?thesis using kmem_inv_mem [OF s6(2), of "mem s'"] s'(4) by simp
  qed
  moreover have "mem s' (P + 4 * of_nat j) = mem s (iopbm_pgt v + 4 * of_nat j)"
    if j: "j < 1024" "of_nat j \<notin> {pgtab_idx (iopbm_virt v), pgtab_idx (iopbm_virt v + 0x1000)}" for j
  proof -
    have o: "outside xs (iopbm_pgt v + 4 * of_nat j)" using K j(1) by blast
    have "mem s1 (iopbm_pgt v + 4 * of_nat j) = mem s (iopbm_pgt v + 4 * of_nat j)"
      using s1(4) outside_run [OF o xs, unfolded sz, OF ar(3)] by blast
    then show ?thesis using s6(6) j P6 [OF j(1)] by metis
  qed
  ultimately show ?thesis by blast
qed


lemma demo_noports_inv: "kmem_inv demo_noports (chunks 0xF0500000 13)"
  by (simp add: demo_noports_def kmem_inv_def chunks_def chunk_aligned_def upt_rec dvd_def)

lemma demo_outside: "unat x < 0xF0500000 \<Longrightarrow> outside (chunks 0xF0500000 13) x"
  by (simp add: outside_def chunks_def upt_rec)

theorem zero_iopbm_fresh_witness:
  "\<exists>s'. zero_iopbm demo_io 0xE0020000 0x3F8 8 demo_noports = Ok (0, s') \<and> \<not> iopbm_bit 0xF0500000 0x3F8 s' \<and> iopbm_bit 0xF0500000 0x80 s' \<and>
    get_iopbm (iopbm_virt demo_io) (space (tcbs s' 0xE0020000)) s' = 0x500000"
proof -
  have c13: "chunks 0xF0500000 13 = [0xF0500000, 0xF0500400, 0xF0500800, 0xF0500C00, 0xF0501000, 0xF0501400, 0xF0501800, 0xF0501C00, 0xF0502000, 
      0xF0502400, 0xF0502800, 0xF0502C00, 0xF0503000]"
    by (simp add: chunks_def upt_rec)
  have sp1: "alloc_split 8192 8 (chunks 0xF0500000 13) =
      Some ([], 0xF0500000, [0xF0502000, 0xF0502400, 0xF0502800, 0xF0502C00, 0xF0503000])"
    unfolding c13 by code_simp
  have sp2: "alloc_split 4096 4 ([] @ [0xF0502000, 0xF0502400, 0xF0502800, 0xF0502C00, 0xF0503000]) = Some ([], 0xF0502000, [0xF0503000])"
    by code_simp
  have K: "\<forall>j<1024. outside (chunks 0xF0500000 13) (iopbm_pgt demo_io + 4 * of_nat j)"
  proof (intro allI impI demo_outside)
    fix j :: nat assume "j < 1024"
    then have "unat ((0xF0003000 :: dword_t) + of_nat (4 * j)) = 0xF0003000 + 4 * j" using block_cell [of "0xF0003000" 4096 "4 * j"] by simp
    with \<open>j < 1024\<close> show "unat (iopbm_pgt demo_io + 4 * of_nat j) < 0xF0500000" by (simp add: demo_io_def)
  qed
  have E: "outside (chunks 0xF0500000 13) 0xF0200F00" by (rule demo_outside) simp
  have d: "get_iopbm (iopbm_virt demo_io) (space (tcbs demo_noports 0xE0020000)) demo_noports = iopbm_phys demo_io"
    by (simp add: demo_ports_walk)
  have r: "(8 :: dword_t) \<noteq> 0" "unat (0x3F8 :: dword_t) + unat (8 :: dword_t) \<le> 65536" by simp_all
  obtain s' where s': "zero_iopbm demo_io 0xE0020000 0x3F8 8 demo_noports = Ok (0, s')"
      "get_iopbm (iopbm_virt demo_io) (space (tcbs s' 0xE0020000)) s' = virt_to_phys 0xF0500000"
      "\<forall>q<65536. iopbm_bit 0xF0500000 q s' \<longleftrightarrow> \<not> (unat (0x3F8 :: dword_t) \<le> q \<and> q < unat (0x3F8 :: dword_t) + unat (8 :: dword_t))"
    using zero_iopbm_fresh [OF demo_noports_inv sp1 sp2 E [folded demo_ports_walk(4)] K d r] by blast
  show ?thesis
    using s'(1,2) s'(3) [rule_format, of "0x3F8"] s'(3) [rule_format, of "0x80"]
    by (intro exI [of _ s']) (simp add: virt_to_phys_def KERNEL_OFFSET_def)
qed

end
