(* ===== verification/Io_Map.thy ===== *)
theory Io_Map
  imports Io_Bitmap Address_Spaces Mapping_Insert
begin

text \<open>
  Mapping I/O ports: the database, the lists of nodes and the permission bitmap of the receiver together. The
  receiver gets exactly the ports of the flexpage that the sender has.
\<close>

section \<open>The cells of nodes\<close>

definition io_cell :: "nat \<Rightarrow> ptr_t \<Rightarrow> ptr_t" where "io_cell k n = n + 4 * of_nat k"

lemma io_fields:
  "io_w1 n = io_cell 0 n" "io_w2 n = io_cell 1 n" "io_next n = io_cell 2 n" "io_prev n = io_cell 3 n" "io_next_st n = io_cell 4 n"
  "io_prev_st n = io_cell 5 n" "io_parent n = io_cell 6 n"
  by (simp_all add: io_cell_def io_w1_def io_w2_def io_next_def io_prev_def io_next_st_def io_prev_st_def io_parent_def)

lemma io_cell_same: "i < 7 \<Longrightarrow> j < 7 \<Longrightarrow> io_cell i n = io_cell j n \<longleftrightarrow> i = j"
  using cell_eq [of i j n] by (simp add: io_cell_def)

definition apart :: "ptr_t \<Rightarrow> ptr_t \<Rightarrow> bool" where
  "apart x y \<longleftrightarrow> (\<forall>i<7. \<forall>j<7. io_cell i x \<noteq> io_cell j y)"

lemma apart_cells:
  assumes "apart x y"
  shows "i < 7 \<Longrightarrow> j < 7 \<Longrightarrow> (io_cell i x = io_cell j y) = False" "i < 7 \<Longrightarrow> j < 7 \<Longrightarrow> (io_cell j y = io_cell i x) = False"
  using assms unfolding apart_def by metis+

text \<open>Cells that the allocator leaves alone: outside its heap, or in a buffer that is in use.\<close>

definition kept :: "'a mdb_mem_scheme \<Rightarrow> (nat \<Rightarrow> ptr_t set) \<Rightarrow> ptr_t set \<Rightarrow> ptr_t \<Rightarrow> bool" where
  "kept s U H n \<longleftrightarrow> (\<forall>i<7. io_cell i n \<notin> H \<or> io_cell i n \<in> used_area s U)"

lemma used_list_unique:
  fixes s :: "'a mdb_mem_scheme"
  assumes "mdb_ok s U H" and "b \<in> U i" and "b \<in> U j"
  shows "i = j"
proof -
  obtain xs P F fl where inv: "mdb_inv s xs P F fl" and U: "U = in_use s P F fl" using assms(1) by (auto simp: mdb_ok_def)
  have page: "\<exists>f. f \<in> set (P i @ F i) \<and> page_aligned f \<and> in_page f b" if "b \<in> U i" for i
  proof -
    obtain f where f: "f \<in> set (P i @ F i)" "small_bl s i" "b \<in> set (slots f (bl_size (mdb_buflists s ! i)) (max_free (mdb_buflists s ! i)))"
      using in_use_page [OF inv] \<open>b \<in> U i\<close> U by blast
    note fo = pools_okD(7,1) [OF mdb_invD(2) [OF inv f(2)]]
    show ?thesis using f slot_in_page [OF fo(1) [OF f(1)] fo(2)] fo(1) [OF f(1)] by blast
  qed
  obtain f g where fg: "f \<in> set (P i @ F i)" "page_aligned f" "in_page f b" "g \<in> set (P j @ F j)" "page_aligned g" "in_page g b"
    using page assms(2,3) by meson
  then have "f = g" using in_page_unique by blast
  then show ?thesis using mdb_invD(5) [OF inv fg(1), of j] fg(4) by simp
qed

lemma fresh_apart:
  fixes s :: "'a mdb_mem_scheme"
  assumes ok1: "mdb_ok s1 (U(k := insert c (U k))) H" and sl: "same_lists s s1" and c: "c \<notin> U k"
    and size28: "bl_size (mdb_buflists s ! k) = 28" and len: "k < length (mdb_buflists s)"
  shows "i < 7 \<Longrightarrow> io_cell i c \<in> H" "i < 7 \<Longrightarrow> io_cell i c \<notin> used_area s U" "kept s U H n \<Longrightarrow> apart c n"
    "i < 7 \<Longrightarrow> io_cell i c \<in> used_area s1 (U(k := insert c (U k)))"
proof -
  have bl: "length (mdb_buflists s1) = length (mdb_buflists s)" "\<And>j. j < length (mdb_buflists s) \<Longrightarrow> bl_size (mdb_buflists s1 ! j) = bl_size (mdb_buflists s ! j)"
    using sl by (auto simp: same_lists_def)
  have cU: "c \<in> (U(k := insert c (U k))) k" by simp
  have off: "unat (4 * of_nat i :: dword_t) < 28" if "i < 7" for i
  proof -
    have "unat (of_nat (4 * i) :: dword_t) = 4 * i" using that by (intro unat_of_nat_small) simp
    then show ?thesis using that by simp
  qed
  have cell: "io_cell i c \<in> block c 28" "io_cell i c \<in> H" "io_cell i c \<in> used_area s1 (U(k := insert c (U k)))" if "i < 7" for i
    using used_cell [OF ok1 cU, of "4 * of_nat i"] off [OF that] size28 bl(2) [OF len] by (simp_all add: io_cell_def del: fun_upd_apply)
  show H: "io_cell i c \<in> H" "io_cell i c \<in> used_area s1 (U(k := insert c (U k)))" if "i < 7" for i using cell(2,3) [OF that] .
  show nu: "io_cell i c \<notin> used_area s U" if i: "i < 7" for i
  proof
    assume "io_cell i c \<in> used_area s U"
    then obtain j b where j: "j < length (mdb_buflists s)" "b \<in> U j" "io_cell i c \<in> block b (unat (bl_size (mdb_buflists s ! j)))"
      by (auto simp: used_area_def)
    have b: "b \<in> (U(k := insert c (U k))) j" using j(2) by auto
    have "b \<noteq> c" using used_list_unique [OF ok1 cU, of j] b c j(2) by auto
    from used_disjoint [OF ok1 b cU this] show False
      using cell(1) [OF i] j(1,3) size28 bl(2) [OF len] bl(2) [OF j(1)] by (auto simp: block_def)
  qed
  show "apart c n" if "kept s U H n"
    using that H(1) nu unfolding apart_def kept_def by metis
qed

section \<open>Inserting the new node\<close>

text \<open>The memory after a child \<open>c\<close> of \<open>p\<close>, in front of \<open>q\<close> in the tree, has become the only node in the list of the dummy \<open>d\<close>.\<close>

definition new_child :: "ptr_t \<Rightarrow> ptr_t \<Rightarrow> ptr_t \<Rightarrow> ptr_t \<Rightarrow> dword_t \<Rightarrow> dword_t \<Rightarrow> wmem \<Rightarrow> wmem" where
  "new_child c p q d w1 w2 m =
     m(io_cell 0 c := w1, io_cell 1 c := w2, io_cell 6 c := p, io_cell 2 c := q, io_cell 3 c := p, io_cell 3 q := c, io_cell 2 p := c,
       io_cell 4 c := d, io_cell 5 c := d, io_cell 5 d := c, io_cell 4 d := c)"

lemma map_child_mem:
  fixes s s1 :: kstate
  assumes alloc: "mdb_alloc_buffer 28 s = Ok (c, s1)" and c: "c \<noteq> NULL"
    and ap: "apart c p" "apart c q" "apart c d" "apart p q" "apart p d" "apart q d"
    and q: "mem s1 (io_cell 2 p) = q" and ring: "mem s1 (io_cell 4 d) = d" "mem s1 (io_cell 5 d) = d"
    and ng: "\<not> fp_grant io_fp"
  shows "map_child v to io_fp p d lo hi s = Ok (c, s1\<lparr>mem := new_child c p q d (push_bit 16 lo OR (drop_bit 16 (myself (tcbs s1 to)) AND IOMDB_TID_MASK))
      (push_bit 15 hi OR (io_get_depth p s1 + 1 AND IOMDB_DEPTH_MASK)) (mem s1)\<rparr>)"
proof -
  note ne = io_cell_same apart_cells [OF ap(1)] apart_cells [OF ap(2)] apart_cells [OF ap(3)] apart_cells [OF ap(4)]
    apart_cells [OF ap(5)] apart_cells [OF ap(6)]
  have n: "io_new_node Panic s = Ok (c, s1)" using alloc c by (simp add: io_new_node_def sizeof_io_mnode_t_def)
  show ?thesis
    unfolding map_child_def n
    by (simp add: ng io_set_values_def io_enq_subtree_def io_enq_thread_list_def io_fields wr_def ne q ring new_child_def Let_def)
qed

section \<open>The walk along one node\<close>

text \<open>The sender has one node \<open>p\<close> behind its dummy \<open>e\<close>, the receiver only its dummy \<open>d\<close>; \<open>lo\<close> and \<open>hi\<close> bound the ports that \<open>p\<close> and
  the flexpage have in common.\<close>

definition common_ports :: "fpage_t \<Rightarrow> ptr_t \<Rightarrow> kstate \<Rightarrow> dword_t \<times> dword_t" where
  "common_ports io_fp p s =
     (max (IOFP_PORT io_fp) (io_get_lo p s), min (IOFP_PORT io_fp + IOFP_SIZE io_fp) (io_get_hi p s))"

lemma common_range:
  assumes "common_ports io_fp p s = (lo, hi)" and "lo < hi" and "unat (io_get_hi p s) \<le> 65536"
  shows "unat hi \<le> 65536" "unat lo < unat hi" "hi - lo \<noteq> 0" "unat lo + unat (hi - lo) = unat hi" "unat lo + unat (hi - lo) \<le> 65536"
proof -
  have "hi \<le> io_get_hi p s" using assms(1) by (auto simp: common_ports_def)
  then show h: "unat hi \<le> 65536" using assms(3) by (simp add: word_le_nat_alt)
  show "unat lo < unat hi" "hi - lo \<noteq> 0" using assms(2) by (auto simp: word_less_nat_alt)
  show "unat lo + unat (hi - lo) = unat hi" using assms(2) by (simp add: unat_sub less_imp_le word_less_nat_alt)
  then show "unat lo + unat (hi - lo) \<le> 65536" using h by simp
qed

lemma map_io_cleared:
  fixes s s1 :: kstate
  assumes fr: "get_iospace from s = Ok p" and to: "get_iospace to s = Ok n" and p: "io_get_dummy p s = 0"
    and clear: "clear_dest v lo hi n s = Ok (d, s1)" and d: "mem s1 (io_prev_st d) = d" and fp: "IOFP_SIZE io_fp \<le> push_bit 16 1"
    and lh: "common_ports io_fp p s = (lo, hi)" "lo < hi"
  shows "map_io_fpage v from to io_fp s = res_bind (map_child v to io_fp p d lo hi s1) (\<lambda>(child, s).
     if child = NULL then Ok (- 1, s)
     else res_bind (zero_iopbm v to (io_get_lo child s) (io_get_hi child s - io_get_lo child s) s) (\<lambda>(r, s).
       if r \<noteq> 0 then Ok (- 1, s) else map_io_loop v to io_fp (mem s (io_next_st p)) d s))"
proof -
  have lo: "lo = (if IOFP_PORT io_fp < io_get_lo p s then io_get_lo p s else IOFP_PORT io_fp)"
    and hi: "hi = (if IOFP_PORT io_fp + IOFP_SIZE io_fp < io_get_hi p s then IOFP_PORT io_fp + IOFP_SIZE io_fp else io_get_hi p s)"
    using lh(1) by (auto simp: common_ports_def max_def min_def)
  have c: "io_get_lo p s < IOFP_PORT io_fp + IOFP_SIZE io_fp" "io_get_hi p s > IOFP_PORT io_fp"
    using lh(2) unfolding lo hi by (auto split: if_splits)
  have "map_io_loop v to io_fp p n s = res_bind (map_child v to io_fp p d lo hi s1) (\<lambda>(child, s).
     if child = NULL then Ok (- 1, s)
     else res_bind (zero_iopbm v to (io_get_lo child s) (io_get_hi child s - io_get_lo child s) s) (\<lambda>(r, s).
       if r \<noteq> 0 then Ok (- 1, s) else map_io_loop v to io_fp (mem s (io_next_st p)) d s))"
    using p c d clear by (subst map_io_loop.simps) (simp add: Let_def lo [symmetric] hi [symmetric] cong: if_cong)
  then show ?thesis using fr to fp by (simp add: map_io_fpage_def leD)
qed

lemma clear_dest_dummy: "io_get_dummy d s \<noteq> 0 \<Longrightarrow> clear_dest v lo hi d s = Ok (d, s)"
  by (subst clear_dest.simps) simp

lemmas map_io_single = map_io_cleared [OF _ _ _ clear_dest_dummy]

lemma more_kstate: "mdb_mem.more s' = mdb_mem.more s \<Longrightarrow> tcbs s' = tcbs s" for s s' :: kstate
  by (cases s; cases s') simp

text \<open>The cells that the walk to the bitmap reads, and the bitmap.\<close>

definition iopbm_cells :: "dword_t \<Rightarrow> ptr_t \<Rightarrow> 'a kmem_scheme \<Rightarrow> ptr_t set" where
  "iopbm_cells virt sp s =
     {pgent sp (pgdir_idx virt), pg_next (subtree (pgent sp (pgdir_idx virt)) s) (pgtab_idx virt)} \<union>
     (\<lambda>i. phys_to_virt (get_iopbm virt sp s) + 4 * of_nat i) ` {..<2048}"

lemma get_iopbm_same:
  assumes "\<forall>a\<in>iopbm_cells virt sp s. mem s' a = mem s a"
  shows "get_iopbm virt sp s' = get_iopbm virt sp s"
  using assms by (simp add: iopbm_cells_def get_iopbm_def subtree_def pg_address_def)

text \<open>The new node in its place: what the cells hold, and what is unchanged.\<close>

lemma new_child_cells:
  assumes ap: "apart c p" "apart c q" "apart c d" "apart p q" "apart p d" "apart q d"
  shows "new_child c p q d w1 w2 m (io_cell 0 c) = w1" "new_child c p q d w1 w2 m (io_cell 1 c) = w2"
    "new_child c p q d w1 w2 m (io_cell 2 p) = c" "new_child c p q d w1 w2 m (io_cell 2 c) = q"
    "new_child c p q d w1 w2 m (io_cell 4 d) = c" "new_child c p q d w1 w2 m (io_cell 4 c) = d"
    "new_child c p q d w1 w2 m (io_cell 4 p) = m (io_cell 4 p)"
    "new_child c p q d w1 w2 m (io_cell 3 c) = p" "new_child c p q d w1 w2 m (io_cell 5 c) = d"
    "new_child c p q d w1 w2 m (io_cell 3 q) = c" "new_child c p q d w1 w2 m (io_cell 5 d) = c"
    "a \<notin> {io_cell 2 p, io_cell 3 q, io_cell 4 d, io_cell 5 d} \<Longrightarrow> \<forall>i<7. a \<noteq> io_cell i c \<Longrightarrow> new_child c p q d w1 w2 m a = m a"
    "\<forall>n\<in>{c, p, q, d}. \<forall>i<7. a \<noteq> io_cell i n \<Longrightarrow> new_child c p q d w1 w2 m a = m a"
proof -
  note ne = io_cell_same apart_cells [OF ap(1)] apart_cells [OF ap(2)] apart_cells [OF ap(3)] apart_cells [OF ap(4)]
    apart_cells [OF ap(5)] apart_cells [OF ap(6)]
  show "new_child c p q d w1 w2 m (io_cell 0 c) = w1" "new_child c p q d w1 w2 m (io_cell 1 c) = w2"
    "new_child c p q d w1 w2 m (io_cell 2 p) = c" "new_child c p q d w1 w2 m (io_cell 2 c) = q"
    "new_child c p q d w1 w2 m (io_cell 4 d) = c" "new_child c p q d w1 w2 m (io_cell 4 c) = d"
    "new_child c p q d w1 w2 m (io_cell 4 p) = m (io_cell 4 p)"
    "new_child c p q d w1 w2 m (io_cell 3 c) = p" "new_child c p q d w1 w2 m (io_cell 5 c) = d"
    "new_child c p q d w1 w2 m (io_cell 3 q) = c" "new_child c p q d w1 w2 m (io_cell 5 d) = c"
    by (simp_all add: new_child_def ne)
  show "new_child c p q d w1 w2 m a = m a"
    if "a \<notin> {io_cell 2 p, io_cell 3 q, io_cell 4 d, io_cell 5 d}" "\<forall>i<7. a \<noteq> io_cell i c"
    using that by (auto simp: new_child_def)
  show "new_child c p q d w1 w2 m a = m a" if "\<forall>n\<in>{c, p, q, d}. \<forall>i<7. a \<noteq> io_cell i n"
    using that by (auto simp: new_child_def)
qed

text \<open>The setting: the sender has one node \<open>p\<close>, followed by \<open>q\<close> in the tree, behind its dummy \<open>e\<close>; the receiver has only its dummy \<open>d\<close> and a
  bitmap of its own; the nodes and the bitmap do not overlap, and the allocator leaves them alone.\<close>

definition io_single ::
    "io_vars \<Rightarrow> (nat \<Rightarrow> ptr_t set) \<Rightarrow> ptr_t set \<Rightarrow> tptr \<Rightarrow> tptr \<Rightarrow> ptr_t \<Rightarrow> ptr_t \<Rightarrow> ptr_t \<Rightarrow> ptr_t \<Rightarrow> kstate \<Rightarrow> bool" where
  "io_single v U H from to p q d e s \<longleftrightarrow>
     get_iospace from s = Ok p \<and> get_iospace to s = Ok d \<and>
     io_get_dummy p s = 0 \<and> mem s (io_next_st p) = e \<and> mem s (io_next p) = q \<and> io_get_dummy e s \<noteq> 0 \<and>
     io_get_dummy d s \<noteq> 0 \<and> mem s (io_next_st d) = d \<and> mem s (io_prev_st d) = d \<and>
     kept s U H p \<and> kept s U H q \<and> kept s U H d \<and> kept s U H e \<and>
     apart p q \<and> apart p d \<and> apart q d \<and> apart p e \<and> apart q e \<and> apart d e \<and>
     unat (io_get_hi p s) \<le> 65536 \<and> unat (io_get_depth p s) + 1 < 2 ^ 14 \<and>
     get_iopbm (iopbm_virt v) (space (tcbs s to)) s \<noteq> iopbm_phys v \<and>
     (\<forall>a\<in>iopbm_cells (iopbm_virt v) (space (tcbs s to)) s. a \<notin> H \<and> (\<forall>n\<in>{p, q, d, e}. \<forall>i<7. a \<noteq> io_cell i n))"

lemma io_singleD:
  assumes "io_single v U H from to p q d e s"
  shows "get_iospace from s = Ok p" "get_iospace to s = Ok d" "io_get_dummy p s = 0" "mem s (io_cell 4 p) = e" "mem s (io_cell 2 p) = q"
    "io_get_dummy e s \<noteq> 0" "io_get_dummy d s \<noteq> 0" "mem s (io_cell 4 d) = d" "mem s (io_cell 5 d) = d"
    "kept s U H p" "kept s U H q" "kept s U H d" "kept s U H e"
    "apart p q" "apart p d" "apart q d" "apart p e" "apart q e" "apart d e"
    "unat (io_get_hi p s) \<le> 65536" "unat (io_get_depth p s) + 1 < 2 ^ 14"
    "get_iopbm (iopbm_virt v) (space (tcbs s to)) s \<noteq> iopbm_phys v"
    "a \<in> iopbm_cells (iopbm_virt v) (space (tcbs s to)) s \<Longrightarrow> a \<notin> H"
    "a \<in> iopbm_cells (iopbm_virt v) (space (tcbs s to)) s \<Longrightarrow> n \<in> {p, q, d, e} \<Longrightarrow> i < 7 \<Longrightarrow> a \<noteq> io_cell i n"
  using assms unfolding io_single_def io_fields by blast+

text \<open>The state after the new node has been chained in, as the bitmap operations see it.\<close>

lemma child_state:
  fixes s s1 :: kstate and w1 w2 :: dword_t
  assumes S: "io_single v U H from to p q d e s" and fr: "mdb_frame s s1 U H"
    and c: "\<And>i. i < 7 \<Longrightarrow> io_cell i c \<in> H" "apart c p" "apart c q" "apart c d" "apart c e"
  defines "s2 \<equiv> s1\<lparr>mem := new_child c p q d w1 w2 (mem s1)\<rparr>"
  shows "\<forall>a\<in>iopbm_cells (iopbm_virt v) (space (tcbs s to)) s. mem s2 a = mem s a"
    and "\<forall>a\<in>iopbm_cells (iopbm_virt v) (space (tcbs s to)) s. \<forall>n\<in>{c, p, q, d, e}. \<forall>i<7. io_cell i n \<noteq> a"
    and "mem s2 (io_cell 1 e) = mem s (io_cell 1 e)" and "mem s2 (io_cell 4 p) = e"
proof -
  note D = io_singleD [OF S]
  note cells = new_child_cells [OF c(2-4) D(14-16)]
  have keep: "mem s1 (io_cell i n) = mem s (io_cell i n)" if "i < 7" "kept s U H n" for i n
    using fr that by (auto simp: mdb_frame_def kept_def)
  show away: "\<forall>a\<in>iopbm_cells (iopbm_virt v) (space (tcbs s to)) s. \<forall>n\<in>{c, p, q, d, e}. \<forall>i<7. io_cell i n \<noteq> a"
    using D(23,24) c(1) by (metis insert_iff)
  show "\<forall>a\<in>iopbm_cells (iopbm_virt v) (space (tcbs s to)) s. mem s2 a = mem s a"
  proof
    fix a assume a: "a \<in> iopbm_cells (iopbm_virt v) (space (tcbs s to)) s"
    have "mem s2 a = mem s1 a" unfolding s2_def using away a by (auto intro!: cells(13))
    also have "\<dots> = mem s a" using fr D(23) [OF a] by (auto simp: mdb_frame_def)
    finally show "mem s2 a = mem s a" .
  qed
  have "mem s2 (io_cell 1 e) = mem s1 (io_cell 1 e)" unfolding s2_def
    by (auto intro!: cells(13) simp: apart_cells [OF c(5)] apart_cells [OF D(17)] apart_cells [OF D(18)] apart_cells [OF D(19)])
  then show "mem s2 (io_cell 1 e) = mem s (io_cell 1 e)" using keep [OF _ D(13), of 1] by simp
  show "mem s2 (io_cell 4 p) = e" using cells(7) keep [OF _ D(10), of 4] D(4) by (simp add: s2_def)
qed

text \<open>The result of a mapping.\<close>

definition ports_mapped ::
    "(nat \<Rightarrow> ptr_t set) \<Rightarrow> ptr_t set \<Rightarrow> nat \<Rightarrow> tptr \<Rightarrow> ptr_t \<Rightarrow> ptr_t \<Rightarrow> ptr_t \<Rightarrow> dword_t \<Rightarrow> dword_t \<Rightarrow> ptr_t \<Rightarrow> ptr_t \<Rightarrow> kstate \<Rightarrow> kstate \<Rightarrow> bool" where
  "ports_mapped U H k to p q d lo hi B c s s' \<longleftrightarrow>
     c \<notin> U k \<and> mdb_ok s' (U(k := insert c (U k))) H \<and> io_get_lo c s' = lo \<and> io_get_hi c s' = hi \<and>
     x0id_task (io_get_tid c s') = x0id_task (myself (tcbs s to)) \<and> io_get_depth c s' = io_get_depth p s + 1 \<and> io_get_dummy c s' = 0 \<and>
     mem s' (io_next p) = c \<and> mem s' (io_next c) = q \<and> mem s' (io_prev c) = p \<and> mem s' (io_prev q) = c \<and>
     mem s' (io_next_st d) = c \<and> mem s' (io_next_st c) = d \<and> mem s' (io_prev_st c) = d \<and> mem s' (io_prev_st d) = c \<and>
     (\<forall>x<65536. iopbm_bit B x s' \<longleftrightarrow> \<not> (unat lo \<le> x \<and> x < unat hi) \<and> iopbm_bit B x s) \<and>
     same_lists s s' \<and> mdb_mem.more s' = mdb_mem.more s \<and>
     (\<forall>a. (a \<notin> H \<or> a \<in> used_area s U) \<and> a \<notin> {io_next p, io_prev q, io_next_st d, io_prev_st d} \<and> (\<forall>i<2048. a \<noteq> B + 4 * of_nat i) \<longrightarrow>
        mem s' a = mem s a)"

lemma nodes_mdb_ok:
  fixes s s1 :: "'a mdb_mem_scheme"
  assumes ok1: "mdb_ok s1 (U(k := insert c (U k))) H" and sl: "same_lists s s1" and kept: "kept s U H p" "kept s U H q" "kept s U H d"
    and c: "\<And>i. i < 7 \<Longrightarrow> io_cell i c \<in> used_area s1 (U(k := insert c (U k)))"
    and m: "\<And>a. m a \<noteq> mem s1 a \<Longrightarrow> a \<notin> H \<or> (\<exists>n\<in>{c, p, q, d}. \<exists>i<7. a = io_cell i n)"
  shows "mdb_ok (s1\<lparr>mem := m\<rparr>) (U(k := insert c (U k))) H"
proof (rule mdb_ok_writes [OF ok1])
  fix a assume "m a \<noteq> mem s1 a"
  have "used_area s U \<subseteq> used_area s1 (U(k := insert c (U k)))"
    unfolding used_area_same [OF sl] by (rule used_area_mono) auto
  then show "a \<notin> H \<or> a \<in> used_area s1 (U(k := insert c (U k)))" using m [OF \<open>m a \<noteq> mem s1 a\<close>] c kept unfolding kept_def by blast
qed

lemma map_io_node:
  fixes s s1 :: kstate
  assumes S: "io_single v U H from to p q d e s" and alloc: "mdb_alloc_buffer 28 s = Ok (c, s1)" "c \<notin> U k"
    and ok1: "mdb_ok s1 (U(k := insert c (U k))) H" and fr: "mdb_frame s s1 U H"
    and bl: "k < length (mdb_buflists s)" "bl_size (mdb_buflists s ! k) = 28"
    and fp: "\<not> fp_grant io_fp" "IOFP_SIZE io_fp \<le> push_bit 16 1" and lh: "common_ports io_fp p s = (lo, hi)" "lo < hi"
    and B: "B = phys_to_virt (get_iopbm (iopbm_virt v) (space (tcbs s to)) s)"
  shows "\<exists>s'. map_io_fpage v from to io_fp s = Ok (0, s') \<and> ports_mapped U H k to p q d lo hi B c s s'"
proof -
  note D = io_singleD [OF S]
  have sl: "same_lists s s1" and tc: "tcbs s1 = tcbs s" using fr by (auto simp: mdb_frame_def intro: more_kstate)
  have c0: "c \<noteq> NULL" using sl bl by (intro used_aligned(2) [OF ok1, of c k]) (auto simp: same_lists_def)
  note fresh = fresh_apart [OF ok1 sl alloc(2) bl(2,1)]
  note ac = fresh(3) [OF D(10)] fresh(3) [OF D(11)] fresh(3) [OF D(12)] fresh(3) [OF D(13)]
  have keep: "mem s1 (io_cell i n) = mem s (io_cell i n)" if "i < 7" "kept s U H n" for i n
    using fr that by (auto simp: mdb_frame_def kept_def)
  have dp: "io_get_depth p s1 = io_get_depth p s" using keep [OF _ D(10), of 1] by (simp add: io_get_depth_def io_fields)
  define w1 w2 s2 where "w1 = push_bit 16 lo OR (drop_bit 16 (myself (tcbs s to)) AND IOMDB_TID_MASK)"
    and "w2 = push_bit 15 hi OR (io_get_depth p s + 1 AND IOMDB_DEPTH_MASK)" and "s2 = s1\<lparr>mem := new_child c p q d w1 w2 (mem s1)\<rparr>"
  have mc: "map_child v to io_fp p d lo hi s = Ok (c, s2)"
    unfolding s2_def w1_def w2_def dp [symmetric] tc [symmetric] using keep [OF _ D(10), of 2] keep [OF _ D(12)] D(5,8,9)
    by (intro map_child_mem [OF alloc(1) c0 ac(1-3) D(14-16) _ _ _ fp(1)]) simp_all
  note cells = new_child_cells [OF ac(1-3) D(14-16)]
  note st = child_state(1,3,4) [OF S fr fresh(1) ac, where ?w1.0 = w1 and ?w2.0 = w2, folded s2_def]
    and away = child_state(2) [OF S fr fresh(1) ac]
  note rng = common_range [OF lh D(20)]
  have dep: "unat (io_get_depth p s + 1) = unat (io_get_depth p s) + 1" using D(21) by (simp add: unat_word_ariths)
  have lo16: "unat lo < 2 ^ 16" and hi17: "unat hi < 2 ^ 17" and d14: "unat (io_get_depth p s + 1) < 2 ^ 14"
    using rng(1,2) dep D(21) by simp_all
  note wf = io_word_fields(1-2) [OF lo16 hi17 d14, where tid = "myself (tcbs s to)", folded w1_def]
    io_word_fields(3-5) [OF lo16 hi17 d14, where b = False, unfolded if_False or.right_neutral, folded w2_def]
  have get2: "io_get_lo c s2 = lo" "io_get_hi c s2 = hi"
    using wf cells(1,2) [of w1 w2 "mem s1"] by (simp_all add: io_get_lo_def io_get_hi_def io_fields s2_def)
  have tc2: "tcbs s2 = tcbs s" by (simp add: s2_def tc)
  define s' where "s' = clear_bits B lo (hi - lo) s2"
  have zero: "zero_iopbm v to lo (hi - lo) s2 = Ok (0, s')"
    using D(22) get_iopbm_same [OF st(1)] by (simp add: zero_iopbm_def tc2 s'_def B)
  have same: "mem s' a = mem s2 a" if "\<forall>i<2048. a \<noteq> B + 4 * of_nat i" for a
    unfolding s'_def by (rule clear_bits_words(2) [OF rng(3,5) that])
  have Bc: "B + 4 * of_nat i \<in> iopbm_cells (iopbm_virt v) (space (tcbs s to)) s" if "i < 2048" for i
    using that by (auto simp: iopbm_cells_def B)
  have nodes: "mem s' (io_cell i n) = mem s2 (io_cell i n)" if "i < 7" "n \<in> {c, p, q, d, e}" for i n
    using away Bc that by (intro same) blast
  have e': "mem s' (io_cell 4 p) = e" "io_get_dummy e s' \<noteq> 0"
    using nodes [of 4 p] nodes [of 1 e] st(2,3) D(6) by (simp_all add: io_get_dummy_def io_fields)
  have "map_io_loop v to io_fp e d s' = Ok (0, s')" using e'(2) by (subst map_io_loop.simps) simp
  then have "map_io_fpage v from to io_fp s = Ok (0, s')"
    using map_io_single [OF D(1-3,7) _ fp(2) lh, of v] D(9) mc c0 get2 zero e'(1) by (simp add: io_fields)
  moreover have shape: "s' = s1\<lparr>mem := mem s'\<rparr>"
  proof -
    have "s' = s2\<lparr>mem := mem s'\<rparr>" unfolding s'_def by (rule clear_bits_words(3) [OF rng(3,5)])
    then show ?thesis unfolding s2_def by (metis kmem.update_convs(1) kmem.surjective kmem.unfold_congs(1))
  qed
  moreover have "mdb_ok s' (U(k := insert c (U k))) H"
  proof -
    have "mdb_ok (s1\<lparr>mem := mem s'\<rparr>) (U(k := insert c (U k))) H"
    proof (rule nodes_mdb_ok [OF ok1 sl D(10-12) fresh(4)])
      fix a assume a: "mem s' a \<noteq> mem s1 a"
      show "a \<notin> H \<or> (\<exists>n\<in>{c, p, q, d}. \<exists>i<7. a = io_cell i n)"
      proof (cases "\<forall>i<2048. a \<noteq> B + 4 * of_nat i")
        case True
        then have "new_child c p q d w1 w2 (mem s1) a \<noteq> mem s1 a" using a same [of a] by (simp add: s2_def)
        then show ?thesis using cells(13) [of a w1 w2 "mem s1"] by blast
      qed (use D(23) Bc in blast)
    qed
    then show ?thesis using shape by metis
  qed
  moreover have "iopbm_bit B x s' \<longleftrightarrow> \<not> (unat lo \<le> x \<and> x < unat hi) \<and> iopbm_bit B x s" if x: "x < 65536" for x
    using clear_bits_test [OF rng(3,5) x, of B s2] st(1) Bc [OF bits_index(1) [OF x]] unfolding rng(4) s'_def iopbm_bit_def by simp
  moreover have "io_get_lo c s' = lo" "io_get_hi c s' = hi" "x0id_task (io_get_tid c s') = x0id_task (myself (tcbs s to))"
      "io_get_depth c s' = io_get_depth p s + 1" "io_get_dummy c s' = 0"
    using wf get2 nodes [of 0 c] nodes [of 1 c] cells(1,2) [of w1 w2 "mem s1"]
    by (simp_all add: io_get_lo_def io_get_hi_def io_get_tid_def io_get_depth_def io_get_dummy_def io_fields s2_def)
  moreover have "mem s' (io_next p) = c" "mem s' (io_next c) = q" "mem s' (io_prev c) = p" "mem s' (io_prev q) = c"
      "mem s' (io_next_st d) = c" "mem s' (io_next_st c) = d" "mem s' (io_prev_st c) = d" "mem s' (io_prev_st d) = c"
    using nodes [of 2] nodes [of 3] nodes [of 4] nodes [of 5] cells(3-11) by (simp_all add: io_fields s2_def)
  moreover have "same_lists s s'" "mdb_mem.more s' = mdb_mem.more s"
    using fr by (subst shape, simp add: mdb_frame_def same_lists_def)+
  moreover have "mem s' a = mem s a" if "a \<notin> H \<or> a \<in> used_area s U" "a \<notin> {io_next p, io_prev q, io_next_st d, io_prev_st d}"
      "\<forall>i<2048. a \<noteq> B + 4 * of_nat i" for a
    using same [OF that(3)] that fresh(1,2) cells(12) [of a w1 w2 "mem s1"] fr by (auto simp: s2_def io_fields mdb_frame_def)
  ultimately show ?thesis using alloc(2) unfolding ports_mapped_def by blast
qed

section \<open>Mapping to a receiver without ports\<close>

text \<open>The new node covers exactly the ports that the flexpage and the sender's node have in common; without a free buffer and without
  memory for a page of buffers the kernel runs into the null pointer that the allocator returns.\<close>

definition no_buffer :: "nat \<Rightarrow> 'a mdb_mem_scheme \<Rightarrow> bool" where
  "no_buffer k s \<longleftrightarrow> list_of_lists (mdb_buflists s ! k) = NULL \<and> (\<exists>s'. kmem_alloc MDB_ALLOC_CHUNKSZ s = Some (NULL, s'))"

lemma map_io_fpage_fresh:
  fixes s :: kstate
  assumes ok: "mdb_ok s U H" and find: "find_buflist 28 (mdb_buflists s) = Some k" and S: "io_single v U H from to p q d e s"
    and fp: "\<not> fp_grant io_fp" "IOFP_SIZE io_fp \<le> push_bit 16 1" and lh: "common_ports io_fp p s = (lo, hi)" "lo < hi"
    and B: "B = phys_to_virt (get_iopbm (iopbm_virt v) (space (tcbs s to)) s)"
  shows "(map_io_fpage v from to io_fp s = Err Null_deref \<and> no_buffer k s) \<or>
    (\<exists>c s'. map_io_fpage v from to io_fp s = Ok (0, s') \<and> ports_mapped U H k to p q d lo hi B c s s')"
proof -
  note D = io_singleD [OF S] and bl = find_buflist_Some [OF find]
  have sz: "(28 :: dword_t) \<noteq> 0" "28 < MDB_ALLOC_CHUNKSZ" by (simp_all add: MDB_ALLOC_CHUNKSZ_def)
  consider (none) "mdb_alloc_buffer 28 s = Err Null_deref" "no_buffer k s"
    | (node) c s1 where "mdb_alloc_buffer 28 s = Ok (c, s1)" "c \<notin> U k" "mdb_ok s1 (U(k := insert c (U k))) H" "mdb_frame s s1 U H"
    using mdb_alloc_step [OF ok find sz] unfolding no_buffer_def by blast
  then show ?thesis
  proof cases
    case none
    then have "map_child v to io_fp p d lo hi s = Err Null_deref"
      by (simp add: map_child_def fp(1) io_new_node_def sizeof_io_mnode_t_def)
    then show ?thesis using map_io_single [OF D(1-3,7) _ fp(2) lh, of v] D(9) none(2) by (simp add: io_fields)
  next
    case node
    from map_io_node [OF S node _ _ fp lh B] show ?thesis using bl by blast
  qed
qed

section \<open>A sample\<close>

text \<open>Memory for buffers as in the sample of the allocator; the thread at \<open>0xE0010000\<close> has all ports, the thread at \<open>0xE0020000\<close> none.\<close>

definition demo_map_io :: kstate where
  "demo_map_io =
     (upd_tcb 0xE0010000 (\<lambda>c. c\<lparr>space := 0x600000\<rparr>) (upd_tcb 0xE0020000 (\<lambda>c. c\<lparr>space := 0x200000, myself := 0x20000\<rparr>) (boot_state 0xF0000400)))\<lparr>
       mem := (mem demo_mdb_ready)(0xF0600E4C := 0xF07000C0, 0xF0200E4C := 0xF0700080, 0xF0200F00 := 0x300003, 0xF0300424 := 0x400003,
         0xF040007C := 0xFFFFFFFF, 0xF0700000 := 0, 0xF0700004 := 0x80000000, 0xF0700008 := 0xF0700040, 0xF0700010 := 0xF07000C0, 0xF0700044 := 0,
         0xF0700084 := 0x4000, 0xF0700090 := 0xF0700080, 0xF0700094 := 0xF0700080, 0xF07000C4 := 0x4000, 0xF07000D0 := 0xF0700000),
       kmem_free_list := kmem_free_list demo_mdb_ready, free_chunks := free_chunks demo_mdb_ready, mdb_buflists := mdb_buflists demo_mdb_ready\<rparr>"

lemma unat_io_cell: "unat n + 28 \<le> 2 ^ 32 \<Longrightarrow> i < 7 \<Longrightarrow> unat (io_cell i n) = unat n + 4 * i"
  using block_cell [of n 28 "4 * i"] by (simp add: io_cell_def)

lemma apart_ranges: "unat n + 28 \<le> unat m \<Longrightarrow> unat m + 28 \<le> 2 ^ 32 \<Longrightarrow> apart n m"
  using unat_io_cell [of n] unat_io_cell [of m] by (fastforce simp: apart_def dest: arg_cong [of _ _ unat])

abbreviation demo_heap :: "ptr_t set" where "demo_heap \<equiv> \<Union>x\<in>set (chunks 0xF0100000 5). block x 1024"

lemma demo_heap_below: "a \<in> demo_heap \<Longrightarrow> unat a < 0xF0101400"
proof -
  assume "a \<in> demo_heap"
  then obtain x where x: "x \<in> set (chunks 0xF0100000 5)" "a \<in> block x 1024" by auto
  have "chunks 0xF0100000 5 = [0xF0100000, 0xF0100400, 0xF0100800, 0xF0100C00, 0xF0101000]" by code_simp
  then show ?thesis using x by (auto simp: block_def)
qed

lemma demo_map_kept: "0xF0101400 \<le> unat n \<Longrightarrow> unat n + 28 \<le> 2 ^ 32 \<Longrightarrow> kept s U demo_heap n"
  using unat_io_cell [of n] demo_heap_below by (fastforce simp: kept_def)

lemma demo_map_ok: "mdb_ok demo_map_io (\<lambda>_. {}) demo_heap" "find_buflist 28 (mdb_buflists demo_map_io) = Some 3"
  "\<not> (\<exists>s'. kmem_alloc MDB_ALLOC_CHUNKSZ demo_map_io = Some (NULL, s'))"
proof -
  have m: "mem demo_map_io a = mem demo_mdb_ready a" if "a \<in> demo_heap" for a
    using demo_heap_below [OF that] by (auto simp: demo_map_io_def)
  have "mdb_ok (demo_mdb_ready\<lparr>mem := mem demo_map_io\<rparr>) (\<lambda>_. {}) demo_heap"
    by (rule mdb_ok_writes [OF demo_mdb_ready_ok(1)]) (use m in blast)
  then show "mdb_ok demo_map_io (\<lambda>_. {}) demo_heap"
    by (subst mdb_ok_fields [of _ "demo_mdb_ready\<lparr>mem := mem demo_map_io\<rparr>"]) (simp_all add: demo_map_io_def)
  show "find_buflist 28 (mdb_buflists demo_map_io) = Some 3" by (simp add: demo_map_io_def demo_mdb_ready_def)
  have "kmem_inv (demo_mdb_ready\<lparr>mem := mem demo_map_io\<rparr>) (chunks 0xF0100000 5)"
  proof (rule kmem_inv_mem)
    show "kmem_inv demo_mdb_ready (chunks 0xF0100000 5)" using demo_mdb_kmem by (simp add: kmem_inv_def demo_mdb_ready_def)
    have "x \<in> block x 1024" for x by (simp add: block_def)
    then show "\<forall>x\<in>set (chunks 0xF0100000 5). mem demo_map_io x = mem demo_mdb_ready x" using m by blast
  qed
  then have k: "kmem_inv demo_map_io (chunks 0xF0100000 5)" by (simp add: kmem_inv_def demo_map_io_def)
  have "alloc_split (of_nat (1024 * Suc 3)) (Suc 3) (chunks 0xF0100000 5) = Some ([], 0xF0100000, [0xF0101000])"
    by code_simp
  from kmem_alloc_hit [OF k this] show "\<not> (\<exists>s'. kmem_alloc MDB_ALLOC_CHUNKSZ demo_map_io = Some (NULL, s'))"
    by (auto simp: MDB_ALLOC_CHUNKSZ_def)
qed

lemma demo_map_bitmap:
  "get_iopbm (iopbm_virt demo_io) (space (tcbs demo_map_io 0xE0020000)) demo_map_io = 0x400000"
  "a \<in> iopbm_cells (iopbm_virt demo_io) (space (tcbs demo_map_io 0xE0020000)) demo_map_io \<Longrightarrow> 0xF0200000 \<le> unat a \<and> unat a < 0xF0700000"
proof -
  have sp: "space (tcbs demo_map_io 0xE0020000) = 0x200000" by (simp add: demo_map_io_def)
  have e: "pgent 0x200000 (pgdir_idx (iopbm_virt demo_io)) = 0xF0200F00" "pgtab_idx (iopbm_virt demo_io) = 0x109"
    by (simp_all add: demo_io_def pgent_def pgdir_idx_def pgtab_idx_def phys_to_virt_def KERNEL_OFFSET_def PAGE_MASK_def PAGE_SIZE_def)
  have st: "subtree 0xF0200F00 demo_map_io = 0xF0300000"
    by (simp add: subtree_def demo_map_io_def phys_to_virt_def KERNEL_OFFSET_def PAGE_MASK_def PAGE_SIZE_def)
  show g: "get_iopbm (iopbm_virt demo_io) (space (tcbs demo_map_io 0xE0020000)) demo_map_io = 0x400000"
    unfolding sp get_iopbm_def e st by (simp add: pg_next_def pg_address_def demo_map_io_def PAGE_MASK_def PAGE_SIZE_def)
  assume "a \<in> iopbm_cells (iopbm_virt demo_io) (space (tcbs demo_map_io 0xE0020000)) demo_map_io"
  then have "a = 0xF0200F00 \<or> a = 0xF0300424 \<or> (\<exists>i<2048. a = 0xF0400000 + 4 * of_nat i)"
    unfolding iopbm_cells_def g unfolding sp e st by (auto simp: pg_next_def phys_to_virt_def KERNEL_OFFSET_def)
  moreover have "unat (0xF0400000 + 4 * of_nat i :: dword_t) = 0xF0400000 + 4 * i" if "i < 2048" for i
    using block_cell [of "0xF0400000" 8192 "4 * i"] that by simp
  ultimately show "0xF0200000 \<le> unat a \<and> unat a < 0xF0700000" by auto
qed

lemma demo_map_single:
  "io_single demo_io (\<lambda>_. {}) demo_heap 0xE0010000 0xE0020000 0xF0700000 0xF0700040 0xF0700080 0xF07000C0 demo_map_io"
proof -
  let ?C = "iopbm_cells (iopbm_virt demo_io) (space (tcbs demo_map_io 0xE0020000)) demo_map_io"
  have far: "a \<notin> demo_heap" if "a \<in> ?C" for a using demo_map_bitmap(2) [OF that] demo_heap_below [of a] by linarith
  have away: "a \<noteq> io_cell i n" if "a \<in> ?C" "n \<in> {0xF0700000, 0xF0700040, 0xF0700080, 0xF07000C0}" "i < 7" for a i n
  proof -
    have "0xF0700000 \<le> unat n \<and> unat n + 28 \<le> 2 ^ 32" using that(2) by auto
    then show ?thesis using demo_map_bitmap(2) [OF that(1)] unat_io_cell [of n i] that(3) by auto
  qed
  have space: "get_iospace 0xE0010000 demo_map_io = Ok 0xF0700000" "get_iospace 0xE0020000 demo_map_io = Ok 0xF0700080"
    by (simp_all add: get_iospace_def demo_map_io_def pgent_def IO_SPACE_IDX_def phys_to_virt_def KERNEL_OFFSET_def io_next_st_def)
  have fields: "io_get_dummy 0xF0700000 demo_map_io = 0" "io_get_dummy 0xF07000C0 demo_map_io \<noteq> 0" "io_get_dummy 0xF0700080 demo_map_io \<noteq> 0"
    "unat (io_get_hi 0xF0700000 demo_map_io) \<le> 65536" "unat (io_get_depth 0xF0700000 demo_map_io) + 1 < 2 ^ 14"
    by (simp_all add: io_get_dummy_def io_get_hi_def io_get_depth_def io_w2_def demo_map_io_def IOMDB_DUMMY_MASK_def IOMDB_DEPTH_MASK_def)
  have links: "mem demo_map_io (io_next_st 0xF0700000) = 0xF07000C0" "mem demo_map_io (io_next 0xF0700000) = 0xF0700040"
    "mem demo_map_io (io_next_st 0xF0700080) = 0xF0700080" "mem demo_map_io (io_prev_st 0xF0700080) = 0xF0700080"
    by (simp_all add: demo_map_io_def io_next_def io_next_st_def io_prev_st_def)
  have "get_iopbm (iopbm_virt demo_io) (space (tcbs demo_map_io 0xE0020000)) demo_map_io \<noteq> iopbm_phys demo_io"
    unfolding demo_map_bitmap(1) by (simp add: demo_io_def)
  then show ?thesis unfolding io_single_def
    by (intro conjI ballI allI impI space fields links demo_map_kept apart_ranges) (use far away in \<open>simp_all del: insert_iff UN_iff\<close>)
qed

lemma demo_map_ports:
  "\<not> fp_grant 0xF03F800C" "IOFP_SIZE 0xF03F800C \<le> push_bit 16 1" "common_ports 0xF03F800C 0xF0700000 demo_map_io = (0x3F8, 0x400)"
  "(0x3F8 :: dword_t) < 0x400" "0xF0400000 = phys_to_virt (get_iopbm (iopbm_virt demo_io) (space (tcbs demo_map_io 0xE0020000)) demo_map_io)"
  unfolding demo_map_bitmap(1)
  by (simp_all add: fp_grant_def IOFP_SIZE_def IOFP_LD_SIZE_def IOFP_PORT_def shl_def common_ports_def io_get_lo_def io_get_hi_def
      io_w1_def io_w2_def demo_map_io_def phys_to_virt_def KERNEL_OFFSET_def)

end
