(* ===== verification/Io_Revoke.thy ===== *)
theory Io_Revoke
  imports Io_Map
begin

text \<open>
  Unmapping I/O ports: whoever has mapped ports to someone else can take them back.
\<close>

section \<open>Taking a node out\<close>

lemma deq_mem:
  assumes ap: "apart c p" "apart c q" "apart c d" "apart p q" "apart p d" "apart q d"
    and m: "mem t (io_cell 2 c) = q" "mem t (io_cell 3 c) = p" "mem t (io_cell 4 c) = d" "mem t (io_cell 5 c) = d"
  shows "io_deq_subtree c (io_deq_thread_list c t) =
    t\<lparr>mem := (mem t)(io_cell 5 d := d, io_cell 4 d := d, io_cell 3 q := p, io_cell 2 p := q)\<rparr>"
proof -
  note ne = io_cell_same apart_cells [OF ap(1)] apart_cells [OF ap(2)] apart_cells [OF ap(3)] apart_cells [OF ap(4)]
    apart_cells [OF ap(5)] apart_cells [OF ap(6)]
  show ?thesis by (simp add: io_deq_thread_list_def io_deq_subtree_def io_fields wr_def Let_def m ne)
qed

text \<open>Every thread of a task has the task's space; the bitmap is found through the first thread of the task.\<close>

definition task_space :: "tptr \<Rightarrow> kstate \<Rightarrow> bool" where
  "task_space t s \<longleftrightarrow> space (tcbs s (tid_to_tcb (push_bit 16 (x0id_task (myself (tcbs s t)))))) = space (tcbs s t)"

lemma io_tid_task: "push_bit 16 (x0id_task (io_get_tid n s)) = io_get_tid n s"
proof -
  have "IOMDB_TID_MASK = mask 8" by (simp add: IOMDB_TID_MASK_def mask_eq_exp_minus_1)
  then show ?thesis unfolding io_get_tid_def x0id_task_def by - (rule bit_word_eqI, auto simp: bit_simps)
qed

text \<open>Freeing the only child \<open>c\<close> of \<open>p\<close>, which is also the only node in the list of the dummy \<open>d\<close>.\<close>

lemma us_free_child:
  fixes t :: kstate
  assumes ok: "mdb_ok t (U(k := insert c (U k))) H" and c: "c \<notin> U k" and bl: "bl_size (mdb_buflists t ! k) = 28"
    and ap: "apart c p" "apart c q" "apart c d" "apart p q" "apart p d" "apart q d"
    and m: "mem t (io_cell 2 c) = q" "mem t (io_cell 3 c) = p" "mem t (io_cell 4 c) = d" "mem t (io_cell 5 c) = d"
    and kept: "kept t U H p" "kept t U H q" "kept t U H d"
    and rng: "hi - lo \<noteq> 0" "unat lo + unat (hi - lo) \<le> 65536" and lh: "io_get_lo c t = lo" "io_get_hi c t = hi"
    and B: "B = phys_to_virt (get_iopbm (iopbm_virt v) (space (tcbs t (tid_to_tcb (io_get_tid c t)))) t)"
    and away: "\<forall>a\<in>iopbm_cells (iopbm_virt v) (space (tcbs t (tid_to_tcb (io_get_tid c t)))) t. a \<notin> H \<and> (\<forall>n\<in>{c, p, q, d}. \<forall>i<7. io_cell i n \<noteq> a)"
    and u: "us_n u = c" "us_split u = IOMDB_SUP_DEPTH"
  shows "\<exists>t'. us_free v u t = Ok (u\<lparr>us_n := p\<rparr>, t') \<and> mdb_ok t' U H \<and> same_lists t t' \<and> mdb_mem.more t' = mdb_mem.more t \<and>
    mem t' (io_cell 2 p) = q \<and> mem t' (io_cell 3 q) = p \<and> mem t' (io_cell 4 d) = d \<and> mem t' (io_cell 5 d) = d \<and>
    (\<forall>i<2048. mem t' (B + 4 * of_nat i) = mem t (B + 4 * of_nat i) OR range_mask lo (hi - lo) i) \<and>
    (\<forall>a. (a \<notin> H \<or> a \<in> used_area t U) \<and> a \<notin> {io_cell 2 p, io_cell 3 q, io_cell 4 d, io_cell 5 d} \<and> (\<forall>i<2048. a \<noteq> B + 4 * of_nat i) \<longrightarrow>
       mem t' a = mem t a)"
proof -
  define m1 where "m1 = (mem t)(io_cell 5 d := d, io_cell 4 d := d, io_cell 3 q := p, io_cell 2 p := q)"
  define t1 where "t1 = t\<lparr>mem := m1\<rparr>"
  have deq: "io_deq_subtree c (io_deq_thread_list c t) = t1" unfolding t1_def m1_def by (rule deq_mem [OF ap m])
  define t2 where "t2 = set_bits B lo (hi - lo) t1"
  note sb = set_bits_words [OF rng, where B = B and s = t1, folded t2_def]
  let ?f = "tid_to_tcb (io_get_tid c t)"
  let ?C = "iopbm_cells (iopbm_virt v) (space (tcbs t ?f)) t"
  note ne = io_cell_same apart_cells [OF ap(1)] apart_cells [OF ap(2)] apart_cells [OF ap(3)] apart_cells [OF ap(4)]
    apart_cells [OF ap(5)] apart_cells [OF ap(6)]
  have Bc: "B + 4 * of_nat i \<in> ?C" if "i < 2048" for i using that by (auto simp: iopbm_cells_def B)
  have same1: "\<forall>a\<in>?C. mem t1 a = mem t a"
  proof
    fix a assume "a \<in> ?C"
    then have "io_cell 5 d \<noteq> a" "io_cell 4 d \<noteq> a" "io_cell 3 q \<noteq> a" "io_cell 2 p \<noteq> a" using away by auto
    then show "mem t1 a = mem t a" by (simp add: t1_def m1_def)
  qed
  have set: "set_iopbm v ?f lo (hi - lo) t1 = Ok (0, t2)"
    using get_iopbm_same [OF same1] by (simp add: set_iopbm_def t2_def B) (simp add: t1_def)
  have cells: "mem t2 (io_cell i n) = m1 (io_cell i n)" if "i < 7" "n \<in> {c, p, q, d}" for i n
    using sb(2) [of "io_cell i n"] away Bc that by (metis (no_types, lifting) t1_def kmem.select_convs(1) kmem.update_convs(1) kmem.surjective)
  have shape: "t2 = t\<lparr>mem := mem t2\<rparr>"
    using sb(3) unfolding t1_def by (metis kmem.update_convs(1) kmem.surjective kmem.unfold_congs(1))
  have out: "mem t2 a = mem t a" if "a \<notin> {io_cell 2 p, io_cell 3 q, io_cell 4 d, io_cell 5 d}" "\<forall>i<2048. a \<noteq> B + 4 * of_nat i" for a
    using sb(2) [OF that(2)] that(1) by (simp add: t1_def m1_def)
  have ok2: "mdb_ok t2 (U(k := insert c (U k))) H"
  proof -
    have sub: "used_area t U \<subseteq> used_area t (U(k := insert c (U k)))" by (rule used_area_mono) auto
    have k: "\<forall>b\<in>{io_cell 2 p, io_cell 3 q, io_cell 4 d, io_cell 5 d}. b \<notin> H \<or> b \<in> used_area t U" using kept by (simp add: kept_def)
    have "a \<notin> H \<or> a \<in> used_area t (U(k := insert c (U k)))" if "mem t2 a \<noteq> mem t a" for a
    proof (cases "\<forall>i<2048. a \<noteq> B + 4 * of_nat i")
      case True
      then have "a \<in> {io_cell 2 p, io_cell 3 q, io_cell 4 d, io_cell 5 d}" using out [OF _ True] that by blast
      then show ?thesis using k sub by blast
    next
      case False
      then show ?thesis using Bc away by blast
    qed
    from mdb_ok_writes [OF ok this] shape show ?thesis by metis
  qed
  have "bl_size (mdb_buflists t2 ! k) = 28" using bl by (subst shape) simp
  moreover have "(U(k := insert c (U k)))(k := (U(k := insert c (U k))) k - {c}) = U" using c by auto
  ultimately obtain t' where t': "mdb_free_buffer c 28 t2 = Some t'" "mdb_ok t' U H" "mdb_frame t2 t' U H"
    using mdb_free_step [OF ok2, of c k] by auto
  have get: "io_get_lo c t1 = lo" "io_get_hi c t1 = hi" "io_get_tid c t1 = io_get_tid c t"
    using lh by (simp_all add: io_get_lo_def io_get_hi_def io_get_tid_def io_fields t1_def m1_def ne)
  have "mem t2 (io_cell 3 c) = p" using cells [of 3 c] m(2) by (simp add: m1_def ne)
  moreover have "end_split u t2 = u" using u(2) by (simp add: end_split_def)
  ultimately have "us_free v u t = Ok (u\<lparr>us_n := p\<rparr>, t')"
    using set t'(1) by (simp add: us_free_def u(1) Let_def deq get io_fields sizeof_io_mnode_t_def)
  moreover have frame: "mem t' a = mem t2 a" if "a \<notin> H \<or> a \<in> used_area t U" for a
    using t'(3) that by (subst (asm) shape) (auto simp: mdb_frame_def used_area_def)
  moreover have "mem t' (io_cell 2 p) = q" "mem t' (io_cell 3 q) = p" "mem t' (io_cell 4 d) = d" "mem t' (io_cell 5 d) = d"
    using frame cells kept by (simp_all add: kept_def m1_def ne)
  moreover have "mem t' (B + 4 * of_nat i) = mem t (B + 4 * of_nat i) OR range_mask lo (hi - lo) i" if "i < 2048" for i
    using frame [of "B + 4 * of_nat i"] sb(1) [OF that] same1 Bc [OF that] away by auto
  moreover have "same_lists t t'" "mdb_mem.more t' = mdb_mem.more t"
    using t'(3) arg_cong [OF shape, of mdb_buflists] arg_cong [OF shape, of mdb_mem.more] by (simp_all add: mdb_frame_def same_lists_def)
  ultimately show ?thesis using t'(2) out by (intro exI [of _ t'] conjI) (assumption | metis)+
qed

section \<open>Unmapping after mapping\<close>

text \<open>In addition to the setting of a mapping: the page directory of the sender leads to its dummy, \<open>q\<close> is not below \<open>p\<close> in the tree,
  and the bitmap does not contain the cells through which it and the dummy are found.\<close>

definition io_anchored :: "io_vars \<Rightarrow> ptr_t set \<Rightarrow> tptr \<Rightarrow> tptr \<Rightarrow> ptr_t \<Rightarrow> ptr_t \<Rightarrow> ptr_t \<Rightarrow> ptr_t \<Rightarrow> kstate \<Rightarrow> bool" where
  "io_anchored v H from to p q d e s \<longleftrightarrow>
     (let a = pgent (space (tcbs s from)) IO_SPACE_IDX;
          sp = space (tcbs s to);
          w = pgent sp (pgdir_idx (iopbm_virt v))
      in mem s a = e \<and> e \<noteq> NULL \<and> mem s (io_next_st e) = p \<and> a \<notin> H \<and> (\<forall>n\<in>{p, q, d, e}. \<forall>i<7. io_cell i n \<noteq> a) \<and> task_space to s \<and>
         io_get_depth q s \<le> io_get_depth p s \<and>
         (\<forall>b\<in>{a, w, pg_next (subtree w s) (pgtab_idx (iopbm_virt v))}. \<forall>i<2048. b \<noteq> phys_to_virt (get_iopbm (iopbm_virt v) sp s) + 4 * of_nat i))"

text \<open>States that differ, outside the heap and in the buffers in use, only in the links around a node below \<open>p\<close> and in the bitmap; what they have in
  common.\<close>

definition io_frame :: "(nat \<Rightarrow> ptr_t set) \<Rightarrow> ptr_t set \<Rightarrow> ptr_t \<Rightarrow> ptr_t \<Rightarrow> ptr_t \<Rightarrow> ptr_t \<Rightarrow> kstate \<Rightarrow> kstate \<Rightarrow> bool" where
  "io_frame U H p q d B s t \<longleftrightarrow> same_lists s t \<and> mdb_mem.more t = mdb_mem.more s \<and>
     (\<forall>a. (a \<notin> H \<or> a \<in> used_area s U) \<and> a \<notin> {io_cell 2 p, io_cell 3 q, io_cell 4 d, io_cell 5 d} \<and> (\<forall>i<2048. a \<noteq> B + 4 * of_nat i) \<longrightarrow>
        mem t a = mem s a)"

lemma mapped_frame: "ports_mapped U H k to p q d lo hi B c s t \<Longrightarrow> io_frame U H p q d B s t"
  by (simp add: ports_mapped_def io_frame_def io_fields)

lemma io_frame_trans: "io_frame U H p q d B s t \<Longrightarrow> io_frame U H p q d B t r \<Longrightarrow> io_frame U H p q d B s r"
  using used_area_same [of s t U] unfolding io_frame_def same_lists_def by auto

lemma frame_same:
  fixes s t :: kstate
  assumes S: "io_single v U H from to p q d e s" and A: "io_anchored v H from to p q d e s" and M: "io_frame U H p q d B s t"
    and B: "B = phys_to_virt (get_iopbm (iopbm_virt v) (space (tcbs s to)) s)"
  shows "tcbs t = tcbs s" "get_iospace from t = Ok p"
    "io_get_lo p t = io_get_lo p s" "io_get_hi p t = io_get_hi p s" "io_get_dummy p t = 0" "io_get_depth p t = io_get_depth p s"
    "io_get_depth q t = io_get_depth q s" "io_get_dummy e t \<noteq> 0" "mem t (io_cell 4 p) = e"
    "get_iopbm (iopbm_virt v) (space (tcbs s to)) t = get_iopbm (iopbm_virt v) (space (tcbs s to)) s"
    "iopbm_cells (iopbm_virt v) (space (tcbs s to)) t = iopbm_cells (iopbm_virt v) (space (tcbs s to)) s"
    "io_get_dummy d t \<noteq> 0"
    "\<And>b. b \<notin> H \<Longrightarrow> \<forall>n\<in>{p, q, d, e}. \<forall>i<7. io_cell i n \<noteq> b \<Longrightarrow> \<forall>i<2048. b \<noteq> B + 4 * of_nat i \<Longrightarrow> mem t b = mem s b"
proof -
  note D = io_singleD [OF S]
  let ?C = "iopbm_cells (iopbm_virt v) (space (tcbs s to)) s" and ?a = "pgent (space (tcbs s from)) IO_SPACE_IDX"
  let ?w = "pgent (space (tcbs s to)) (pgdir_idx (iopbm_virt v))"
  have Bc: "B + 4 * of_nat i \<in> ?C" if "i < 2048" for i using that by (auto simp: iopbm_cells_def B)
  have frame: "mem t a = mem s a" if "a \<notin> H \<or> a \<in> used_area s U" "a \<notin> {io_cell 2 p, io_cell 3 q, io_cell 4 d, io_cell 5 d}" "\<forall>i<2048. a \<noteq> B + 4 * of_nat i" for a
    using M that unfolding io_frame_def by blast
  have node: "mem t (io_cell i n) = mem s (io_cell i n)"
    if "i < 7" "n \<in> {p, q, d, e}" "kept s U H n" "io_cell i n \<notin> {io_cell 2 p, io_cell 3 q, io_cell 4 d, io_cell 5 d}" for i n
  proof (rule frame)
    show "\<forall>j<2048. io_cell i n \<noteq> B + 4 * of_nat j" using D(24) [OF Bc that(2,1)] by metis
  qed (use that in \<open>auto simp: kept_def\<close>)
  note ne = io_cell_same apart_cells [OF D(14)] apart_cells [OF D(15)] apart_cells [OF D(16)] apart_cells [OF D(17)]
    apart_cells [OF D(18)] apart_cells [OF D(19)]
  have cells: "mem t (io_cell 0 p) = mem s (io_cell 0 p)" "mem t (io_cell 1 p) = mem s (io_cell 1 p)" "mem t (io_cell 4 p) = mem s (io_cell 4 p)"
    "mem t (io_cell 1 q) = mem s (io_cell 1 q)" "mem t (io_cell 1 e) = mem s (io_cell 1 e)" "mem t (io_cell 4 e) = mem s (io_cell 4 e)"
    "mem t (io_cell 1 d) = mem s (io_cell 1 d)"
    using node [of 0 p] node [of 1 p] node [of 4 p] node [of 1 q] node [of 1 e] node [of 4 e] node [of 1 d] D(10-13) by (simp_all add: ne)
  show tc: "tcbs t = tcbs s" using M by (intro more_kstate) (simp add: io_frame_def)
  show "io_get_lo p t = io_get_lo p s" "io_get_hi p t = io_get_hi p s" "io_get_dummy p t = 0" "io_get_depth p t = io_get_depth p s"
    "io_get_depth q t = io_get_depth q s" "io_get_dummy e t \<noteq> 0" "mem t (io_cell 4 p) = e" "io_get_dummy d t \<noteq> 0"
    using cells D(3,4,6,7) by (simp_all add: io_get_lo_def io_get_hi_def io_get_dummy_def io_get_depth_def io_fields)
  have anch: "mem s ?a = e" "e \<noteq> NULL" "mem s (io_cell 4 e) = p" "?a \<notin> H" "\<forall>n\<in>{p, q, d, e}. \<forall>i<7. io_cell i n \<noteq> ?a"
      "\<forall>b\<in>{?a, ?w, pg_next (subtree ?w s) (pgtab_idx (iopbm_virt v))}. \<forall>i<2048. b \<noteq> B + 4 * of_nat i"
    using A unfolding io_anchored_def Let_def io_fields B by blast+
  show same: "mem t b = mem s b" if "b \<notin> H" "\<forall>n\<in>{p, q, d, e}. \<forall>i<7. io_cell i n \<noteq> b" "\<forall>i<2048. b \<noteq> B + 4 * of_nat i" for b
  proof (rule frame)
    have "io_cell 2 p \<noteq> b" "io_cell 3 q \<noteq> b" "io_cell 4 d \<noteq> b" "io_cell 5 d \<noteq> b" using that(2) by simp_all
    then show "b \<notin> {io_cell 2 p, io_cell 3 q, io_cell 4 d, io_cell 5 d}" by auto
  qed (use that in auto)
  have a: "mem t ?a = e" using same [OF anch(4,5)] anch(1,6) by simp
  then show "get_iospace from t = Ok p" using cells(6) anch(2,3) by (simp add: get_iospace_def tc io_fields)
  have walk: "mem t b = mem s b" if "b \<in> {?w, pg_next (subtree ?w s) (pgtab_idx (iopbm_virt v))}" for b
  proof (rule same)
    have b: "b \<in> ?C" using that by (auto simp: iopbm_cells_def)
    show "b \<notin> H" "\<forall>n\<in>{p, q, d, e}. \<forall>i<7. io_cell i n \<noteq> b" using D(23) [OF b] D(24) [OF b] by metis+
    show "\<forall>i<2048. b \<noteq> B + 4 * of_nat i" using anch(6) that by blast
  qed
  have sub: "subtree ?w t = subtree ?w s" using walk [of ?w] by (simp add: subtree_def)
  show "get_iopbm (iopbm_virt v) (space (tcbs s to)) t = get_iopbm (iopbm_virt v) (space (tcbs s to)) s"
    unfolding get_iopbm_def pg_address_def sub using walk by simp
  then show "iopbm_cells (iopbm_virt v) (space (tcbs s to)) t = iopbm_cells (iopbm_virt v) (space (tcbs s to)) s"
    unfolding iopbm_cells_def sub by simp
qed

lemma unmap_io_single:
  fixes t t' :: kstate and c :: ptr_t
  defines "u \<equiv> \<lparr>us_n = c, us_split = IOMDB_SUP_DEPTH, us_left = NULL\<rparr>"
  assumes sp: "get_iospace from t = Ok p" and p: "io_get_dummy p t = 0" "mem t (io_cell 4 p) = e" "mem t (io_cell 2 p) = c"
    and fp: "IOFP_SIZE io_fp \<le> push_bit 16 1" "mapmask AND FLUSH_OWN_SPACE = 0"
    and lap: "io_get_lo p t < IOFP_PORT io_fp + IOFP_SIZE io_fp" "IOFP_PORT io_fp < io_get_hi p t"
    and c: "io_get_depth p t < io_get_depth c t" "IOFP_PORT io_fp \<le> io_get_lo c t" "io_get_hi c t \<le> IOFP_PORT io_fp + IOFP_SIZE io_fp"
    and free: "us_free v u t = Ok (u\<lparr>us_n := p\<rparr>, t')"
    and rest: "mem t' (io_cell 2 p) = q" "io_get_depth q t' \<le> io_get_depth p t'" "io_get_dummy e t' \<noteq> 0"
  shows "unmap_io_fpage v from io_fp mapmask t = Ok t'"
proof -
  let ?lo = "IOFP_PORT io_fp" and ?hi = "IOFP_PORT io_fp + IOFP_SIZE io_fp"
  have stop: "us_loop v p ?lo ?hi False (u\<lparr>us_n := q\<rparr>) t' = Ok t'"
    using rest(2) by (subst us_loop.simps) (simp add: u_def leD)
  have "us_step v ?lo ?hi u t = us_free v u t" using c(2,3) by (simp add: us_step_def u_def)
  then have "us_loop v p ?lo ?hi False u t = Ok t'"
    using c(1) free stop rest(1) by (subst us_loop.simps) (simp add: io_fields u_def)
  then have "unmap_subtree v p ?lo ?hi mapmask t = Ok (0, t')"
    using fp(2) p(3) by (simp add: unmap_subtree_def io_fields u_def)
  moreover have "unmap_io_loop v ?lo ?hi mapmask e t' = Ok t'" using rest(3) by (subst unmap_io_loop.simps) simp
  ultimately have "unmap_io_loop v ?lo ?hi mapmask p t = Ok t'"
    using p lap by (subst unmap_io_loop.simps) (simp add: io_fields)
  then show ?thesis using sp fp(1) by (simp add: unmap_io_fpage_def leD)
qed

text \<open>Freeing the node of a mapping: everything but the bits of its ports is as it was before the mapping.\<close>

lemma child_freed:
  fixes s t :: kstate and c :: ptr_t
  defines "u \<equiv> \<lparr>us_n = c, us_split = IOMDB_SUP_DEPTH, us_left = NULL\<rparr>"
  assumes S: "io_single v U H from to p q d e s" and A: "io_anchored v H from to p q d e s"
    and M: "ports_mapped U H k to p q d lo hi B c s t"
    and B: "B = phys_to_virt (get_iopbm (iopbm_virt v) (space (tcbs s to)) s)"
    and bl: "k < length (mdb_buflists s)" "bl_size (mdb_buflists s ! k) = 28" and lh: "common_ports io_fp p s = (lo, hi)" "lo < hi"
  shows "\<exists>t'. us_free v u t = Ok (u\<lparr>us_n := p\<rparr>, t') \<and> mdb_ok t' U H \<and> io_frame U H p q d B s t' \<and>
    mem t' (io_cell 2 p) = q \<and> mem t' (io_cell 3 q) = p \<and> mem t' (io_cell 4 d) = d \<and> mem t' (io_cell 5 d) = d \<and>
    (\<forall>i<2048. mem t' (B + 4 * of_nat i) = mem t (B + 4 * of_nat i) OR range_mask lo (hi - lo) i)"
proof -
  note D = io_singleD [OF S] and fr = mapped_frame [OF M] and same = frame_same [OF S A mapped_frame [OF M] B]
  have MD: "c \<notin> U k" "mdb_ok t (U(k := insert c (U k))) H" "io_get_lo c t = lo" "io_get_hi c t = hi"
    "x0id_task (io_get_tid c t) = x0id_task (myself (tcbs s to))"
    "mem t (io_cell 2 c) = q" "mem t (io_cell 3 c) = p" "mem t (io_cell 4 c) = d" "mem t (io_cell 5 c) = d" "same_lists s t"
    using M unfolding ports_mapped_def io_fields by blast+
  note fresh = fresh_apart [OF MD(2,10,1) bl(2,1)]
  note ac = fresh(3) [OF D(10)] fresh(3) [OF D(11)] fresh(3) [OF D(12)]
  have kept: "kept t U H n" if "kept s U H n" for n using that used_area_same [OF MD(10), of U] by (simp add: kept_def)
  have bl': "bl_size (mdb_buflists t ! k) = 28" using MD(10) bl by (auto simp: same_lists_def)
  have sp: "space (tcbs t (tid_to_tcb (io_get_tid c t))) = space (tcbs s to)"
    using A io_tid_task [of c t] unfolding MD(5) io_anchored_def Let_def task_space_def same(1) by metis
  note rng = common_range [OF lh D(20)]
  have away: "\<forall>a\<in>iopbm_cells (iopbm_virt v) (space (tcbs s to)) s. a \<notin> H \<and> (\<forall>n\<in>{c, p, q, d}. \<forall>i<7. io_cell i n \<noteq> a)"
    using D(23,24) fresh(1) by (metis insert_iff)
  have u: "us_n u = c" "us_split u = IOMDB_SUP_DEPTH" by (simp_all add: u_def)
  obtain t' where t': "us_free v u t = Ok (u\<lparr>us_n := p\<rparr>, t')" "mdb_ok t' U H" "same_lists t t'" "mdb_mem.more t' = mdb_mem.more t"
      "mem t' (io_cell 2 p) = q" "mem t' (io_cell 3 q) = p" "mem t' (io_cell 4 d) = d" "mem t' (io_cell 5 d) = d"
      "\<forall>i<2048. mem t' (B + 4 * of_nat i) = mem t (B + 4 * of_nat i) OR range_mask lo (hi - lo) i"
      "\<forall>a. (a \<notin> H \<or> a \<in> used_area t U) \<and> a \<notin> {io_cell 2 p, io_cell 3 q, io_cell 4 d, io_cell 5 d} \<and> (\<forall>i<2048. a \<noteq> B + 4 * of_nat i) \<longrightarrow>
       mem t' a = mem t a"
    using us_free_child [OF MD(2,1) bl' ac D(14-16) MD(6-9) kept [OF D(10)] kept [OF D(11)] kept [OF D(12)] rng(3,5) MD(3,4), of B v u]
      same(10,11) away u unfolding sp B by auto
  have "io_frame U H p q d B t t'" unfolding io_frame_def using t'(3,4,10) by blast
  from io_frame_trans [OF fr this] show ?thesis using t'(1,2,5-9) by blast
qed

lemma unmap_io_child:
  fixes s t :: kstate
  assumes S: "io_single v U H from to p q d e s" and A: "io_anchored v H from to p q d e s"
    and M: "ports_mapped U H k to p q d lo hi B c s t"
    and B: "B = phys_to_virt (get_iopbm (iopbm_virt v) (space (tcbs s to)) s)"
    and bl: "k < length (mdb_buflists s)" "bl_size (mdb_buflists s ! k) = 28"
    and fp: "IOFP_SIZE io_fp \<le> push_bit 16 1" and lh: "common_ports io_fp p s = (lo, hi)" "lo < hi"
    and mm: "mapmask AND FLUSH_OWN_SPACE = 0"
  shows "\<exists>t'. unmap_io_fpage v from io_fp mapmask t = Ok t' \<and> mdb_ok t' U H \<and>
    mem t' (io_cell 2 p) = q \<and> mem t' (io_cell 3 q) = p \<and> mem t' (io_cell 4 d) = d \<and> mem t' (io_cell 5 d) = d \<and>
    (\<forall>i<2048. mem t' (B + 4 * of_nat i) = mem t (B + 4 * of_nat i) OR range_mask lo (hi - lo) i)"
proof -
  note D = io_singleD [OF S] and same = frame_same [OF S A mapped_frame [OF M] B]
  have MD: "io_get_lo c t = lo" "io_get_hi c t = hi" "io_get_depth c t = io_get_depth p s + 1" "mem t (io_cell 2 p) = c"
    using M unfolding ports_mapped_def io_fields by blast+
  let ?u = "\<lparr>us_n = c, us_split = IOMDB_SUP_DEPTH, us_left = NULL\<rparr>"
  obtain t' where t': "us_free v ?u t = Ok (?u\<lparr>us_n := p\<rparr>, t')" "mdb_ok t' U H" "io_frame U H p q d B s t'"
      "mem t' (io_cell 2 p) = q" "mem t' (io_cell 3 q) = p" "mem t' (io_cell 4 d) = d" "mem t' (io_cell 5 d) = d"
      "\<forall>i<2048. mem t' (B + 4 * of_nat i) = mem t (B + 4 * of_nat i) OR range_mask lo (hi - lo) i"
    using child_freed [OF S A M B bl lh] by blast
  note same' = frame_same [OF S A t'(3) B]
  have depth: "unat (io_get_depth p s + 1) = unat (io_get_depth p s) + 1" using D(21) by (simp add: unat_word_ariths)
  have "unmap_io_fpage v from io_fp mapmask t = Ok t'"
  proof (rule unmap_io_single [OF same(2,5,9) MD(4) fp mm _ _ _ _ _ t'(1,4)])
    show "io_get_lo p t < IOFP_PORT io_fp + IOFP_SIZE io_fp" "IOFP_PORT io_fp < io_get_hi p t"
      "IOFP_PORT io_fp \<le> io_get_lo c t" "io_get_hi c t \<le> IOFP_PORT io_fp + IOFP_SIZE io_fp"
      using lh unfolding same(3,4) MD(1,2) by (auto simp: common_ports_def)
    show "io_get_depth p t < io_get_depth c t" unfolding same(6) MD(3) by (simp add: word_less_nat_alt depth)
    show "io_get_depth q t' \<le> io_get_depth p t'" "io_get_dummy e t' \<noteq> 0"
      using A same'(6-8) by (simp_all add: io_anchored_def Let_def)
  qed
  then show ?thesis using t'(2,4-8) by blast
qed

section \<open>Properties\<close>

text \<open>\<^bold>\<open>C25.\<close> Whoever maps I/O ports to someone else can take them back: unmapping the same flexpage after the mapping denies
  exactly the mapped ports again in the bitmap of the receiver, takes the receiver's node out of the tree and out of its list, and
  gives its buffer back to the allocator.\<close>

theorem map_unmap_io_revokes:
  fixes s :: kstate
  assumes ok: "mdb_ok s U H" and find: "find_buflist 28 (mdb_buflists s) = Some k" and S: "io_single v U H from to p q d e s"
    and A: "io_anchored v H from to p q d e s"
    and fp: "\<not> fp_grant io_fp" "IOFP_SIZE io_fp \<le> push_bit 16 1" and lh: "common_ports io_fp p s = (lo, hi)" "lo < hi"
    and B: "B = phys_to_virt (get_iopbm (iopbm_virt v) (space (tcbs s to)) s)" and mm: "mapmask AND FLUSH_OWN_SPACE = 0"
    and mem: "\<not> (\<exists>s'. kmem_alloc MDB_ALLOC_CHUNKSZ s = Some (NULL, s'))"
  shows "\<exists>s' s''. map_io_fpage v from to io_fp s = Ok (0, s') \<and> unmap_io_fpage v from io_fp mapmask s' = Ok s'' \<and> mdb_ok s'' U H \<and>
    mem s'' (io_next p) = q \<and> mem s'' (io_prev q) = p \<and> mem s'' (io_next_st d) = d \<and> mem s'' (io_prev_st d) = d \<and>
    (\<forall>x<65536. (iopbm_bit B x s' \<longleftrightarrow> \<not> (unat lo \<le> x \<and> x < unat hi) \<and> iopbm_bit B x s) \<and>
       (iopbm_bit B x s'' \<longleftrightarrow> unat lo \<le> x \<and> x < unat hi \<or> iopbm_bit B x s))"
proof -
  note bl = find_buflist_Some [OF find] and D = io_singleD [OF S]
  have sz: "(28 :: dword_t) \<noteq> 0" "28 < MDB_ALLOC_CHUNKSZ" by (simp_all add: MDB_ALLOC_CHUNKSZ_def)
  obtain c s1 where n: "mdb_alloc_buffer 28 s = Ok (c, s1)" "c \<notin> U k" "mdb_ok s1 (U(k := insert c (U k))) H" "mdb_frame s s1 U H"
    using mdb_alloc_step [OF ok find sz] mem by blast
  obtain s' where s': "map_io_fpage v from to io_fp s = Ok (0, s')" "ports_mapped U H k to p q d lo hi B c s s'"
    using map_io_node [OF S n _ _ fp lh B] bl by blast
  obtain s'' where s'': "unmap_io_fpage v from io_fp mapmask s' = Ok s''" "mdb_ok s'' U H"
      "mem s'' (io_cell 2 p) = q" "mem s'' (io_cell 3 q) = p" "mem s'' (io_cell 4 d) = d" "mem s'' (io_cell 5 d) = d"
      "\<forall>i<2048. mem s'' (B + 4 * of_nat i) = mem s' (B + 4 * of_nat i) OR range_mask lo (hi - lo) i"
    using unmap_io_child [OF S A s'(2) B _ _ fp(2) lh mm] bl by blast
  note rng = common_range [OF lh D(20)]
  have "iopbm_bit B x s'' \<longleftrightarrow> unat lo \<le> x \<and> x < unat hi \<or> iopbm_bit B x s'" if x: "x < 65536" for x
    unfolding iopbm_bit_def s''(7) [rule_format, OF bits_index(1) [OF x]] bit_or_iff
      bit_range_mask [OF rng(3) bits_index(2) [OF x] rng(5)] bits_index(3) [OF x] rng(4) by blast
  moreover have "iopbm_bit B x s' \<longleftrightarrow> \<not> (unat lo \<le> x \<and> x < unat hi) \<and> iopbm_bit B x s" if "x < 65536" for x
    using s'(2) that by (simp add: ports_mapped_def)
  ultimately show ?thesis using s' s'' unfolding io_fields by blast
qed

lemma demo_map_anchored:
  "io_anchored demo_io demo_heap 0xE0010000 0xE0020000 0xF0700000 0xF0700040 0xF0700080 0xF07000C0 demo_map_io"
proof -
  have a: "pgent (space (tcbs demo_map_io 0xE0010000)) IO_SPACE_IDX = 0xF0600E4C"
    by (simp add: demo_map_io_def pgent_def IO_SPACE_IDX_def phys_to_virt_def KERNEL_OFFSET_def)
  have w: "pgent (space (tcbs demo_map_io 0xE0020000)) (pgdir_idx (iopbm_virt demo_io)) = 0xF0200F00"
    by (simp add: demo_map_io_def demo_io_def pgent_def pgdir_idx_def phys_to_virt_def KERNEL_OFFSET_def)
  have w2: "pg_next (subtree 0xF0200F00 demo_map_io) (pgtab_idx (iopbm_virt demo_io)) = 0xF0300424"
    by (simp add: subtree_def demo_map_io_def demo_io_def pg_next_def pgtab_idx_def phys_to_virt_def KERNEL_OFFSET_def PAGE_MASK_def PAGE_SIZE_def)
  have "0xF0600E4C \<notin> demo_heap" using demo_heap_below [of "0xF0600E4C"] by auto
  moreover have "io_cell i n \<noteq> 0xF0600E4C" if "i < 7" "n \<in> {0xF0700000, 0xF0700040, 0xF0700080, 0xF07000C0}" for i n
  proof -
    have "0xF0700000 \<le> unat n \<and> unat n + 28 \<le> 2 ^ 32" using that(2) by auto
    then show ?thesis using unat_io_cell [of n i] that(1) by auto
  qed
  moreover have "b \<noteq> phys_to_virt 0x400000 + 4 * of_nat i" if "i < 2048" "b \<in> {0xF0600E4C, 0xF0200F00, 0xF0300424}" for i b
  proof -
    have "unat (0xF0400000 + 4 * of_nat i :: dword_t) = 0xF0400000 + 4 * i" using block_cell [of "0xF0400000" 8192 "4 * i"] that(1) by simp
    then show ?thesis using that by (auto simp: phys_to_virt_def KERNEL_OFFSET_def)
  qed
  moreover have "task_space 0xE0020000 demo_map_io"
    by (simp add: task_space_def demo_map_io_def x0id_task_def tid_to_tcb_def id_thread_def L4_NUMBITS_TCBS_def TCB_AREA_def mask_eq_exp_minus_1)
  moreover have "io_get_depth 0xF0700040 demo_map_io \<le> io_get_depth 0xF0700000 demo_map_io"
    by (simp add: io_get_depth_def io_w2_def demo_map_io_def IOMDB_DEPTH_MASK_def demo_mdb_ready_def demo_mdb_def demo_kmem_def)
  moreover have "mem demo_map_io 0xF0600E4C = 0xF07000C0" "mem demo_map_io (io_next_st 0xF07000C0) = 0xF0700000"
    by (simp_all add: demo_map_io_def io_next_st_def)
  ultimately show ?thesis unfolding io_anchored_def Let_def a w w2 demo_map_bitmap(1)
    by (intro conjI ballI allI impI) simp_all
qed

theorem map_unmap_io_revokes_witness:
  "\<exists>s' s''. map_io_fpage demo_io 0xE0010000 0xE0020000 0xF03F800C demo_map_io = Ok (0, s') \<and>
     unmap_io_fpage demo_io 0xE0010000 0xF03F800C 0 s' = Ok s'' \<and> \<not> iopbm_bit 0xF0400000 0x3F8 s' \<and> iopbm_bit 0xF0400000 0x3F8 s'' \<and>
     mem s'' (io_next_st 0xF0700080) = 0xF0700080"
proof -
  from map_unmap_io_revokes [OF demo_map_ok(1,2) demo_map_single demo_map_anchored demo_map_ports, of 0] demo_map_ok(3)
  show ?thesis by fastforce
qed

end
