(* ===== verification/Io_Remap.thy ===== *)
theory Io_Remap
  imports Io_Revoke
begin

text \<open>
  Mapping I/O ports again: the receiver's old node gives way to the new one.
\<close>

section \<open>The receiver's node is cleared\<close>

text \<open>The page directory of the receiver leads to its dummy, outside the bitmap and the nodes; \<open>q\<close> is at the top of the tree.\<close>

definition io_receiver :: "io_vars \<Rightarrow> ptr_t set \<Rightarrow> tptr \<Rightarrow> ptr_t \<Rightarrow> ptr_t \<Rightarrow> ptr_t \<Rightarrow> ptr_t \<Rightarrow> kstate \<Rightarrow> bool" where
  "io_receiver v H to p q d e s \<longleftrightarrow>
     (let a = pgent (space (tcbs s to)) IO_SPACE_IDX
      in mem s a = d \<and> d \<noteq> NULL \<and> a \<notin> H \<and> (\<forall>n\<in>{p, q, d, e}. \<forall>i<7. io_cell i n \<noteq> a) \<and> io_get_depth q s = 0 \<and>
         (\<forall>i<2048. a \<noteq> phys_to_virt (get_iopbm (iopbm_virt v) (space (tcbs s to)) s) + 4 * of_nat i))"

lemma receiver_space:
  assumes S: "io_single v U H from to p q d e s" and A: "io_anchored v H from to p q d e s" and M: "io_frame U H p q d B s t"
    and B: "B = phys_to_virt (get_iopbm (iopbm_virt v) (space (tcbs s to)) s)" and R: "io_receiver v H to p q d e s"
  shows "get_iospace to t = Ok (mem t (io_cell 4 d))"
proof -
  let ?a = "pgent (space (tcbs s to)) IO_SPACE_IDX"
  have r: "mem s ?a = d" "d \<noteq> NULL" "?a \<notin> H" "\<forall>n\<in>{p, q, d, e}. \<forall>i<7. io_cell i n \<noteq> ?a" "\<forall>i<2048. ?a \<noteq> B + 4 * of_nat i"
    using R unfolding io_receiver_def Let_def B by blast+
  note same = frame_same [OF S A M B]
  show ?thesis using same(13) [OF r(3-5)] r(1,2) by (simp add: get_iospace_def same(1) io_fields)
qed

text \<open>Without its node the receiver is as it was before the mapping.\<close>

lemma single_again:
  assumes S: "io_single v U H from to p q d e s" and A: "io_anchored v H from to p q d e s" and M: "io_frame U H p q d B s t"
    and B: "B = phys_to_virt (get_iopbm (iopbm_virt v) (space (tcbs s to)) s)" and R: "io_receiver v H to p q d e s"
    and m: "mem t (io_cell 2 p) = q" "mem t (io_cell 4 d) = d" "mem t (io_cell 5 d) = d"
  shows "io_single v U H from to p q d e t"
proof -
  note D = io_singleD [OF S] and same = frame_same [OF S A M B] and sp = receiver_space [OF S A M B R]
  have "same_lists s t" using M by (simp add: io_frame_def)
  then have kept: "kept t U H n \<longleftrightarrow> kept s U H n" for n using used_area_same [of s t U] by (simp add: kept_def)
  show ?thesis
    unfolding io_single_def io_fields kept same(1,10,11)
    using S same(2,4-6,8,9,12) sp m unfolding io_single_def io_fields by simp
qed

lemma find_buflist_sizes:
  "length bs = length bs' \<Longrightarrow> \<forall>i<length bs. bl_size (bs ! i) = bl_size (bs' ! i) \<Longrightarrow> find_buflist sz bs = find_buflist sz bs'"
proof (induction bs bs' rule: list_induct2)
  case (Cons b bs b' bs')
  from Cons.prems have "bl_size b = bl_size b'" "\<forall>i<length bs. bl_size (bs ! i) = bl_size (bs' ! i)" by fastforce+
  with Cons.IH show ?case by simp
qed simp

lemma clear_dest_child:
  fixes t t' :: kstate and c :: ptr_t
  defines "u \<equiv> \<lparr>us_n = c, us_split = IOMDB_SUP_DEPTH, us_left = NULL\<rparr>"
  assumes c: "io_get_dummy c t = 0" "lo \<le> io_get_lo c t" "io_get_hi c t \<le> hi" "io_get_lo c t < io_get_hi c t" "mem t (io_cell 4 c) = d"
    and free: "us_free v u t = Ok (u\<lparr>us_n := p\<rparr>, t')"
    and rest: "mem t' (io_cell 2 p) = q" "io_get_depth q t' = 0" "io_get_dummy d t' \<noteq> 0"
  shows "clear_dest v lo hi c t = Ok (d, t')"
proof -
  have stop: "us_loop v c lo hi False (u\<lparr>us_n := q\<rparr>) t' = Ok t'"
    using rest(2) by (subst us_loop.simps) (simp add: u_def)
  have "us_step v lo hi u t = us_free v u t" using c(2,3) by (simp add: us_step_def u_def)
  then have "us_loop v c lo hi True u t = Ok t'"
    using free stop rest(1) by (subst us_loop.simps) (simp add: io_fields u_def)
  then have "unmap_subtree v c lo hi FLUSH_OWN_SPACE t = Ok (0, t')"
    by (simp add: unmap_subtree_def u_def FLUSH_OWN_SPACE_def)
  moreover have "io_get_lo c t < hi" "lo < io_get_hi c t" using c(2-4) by auto
  ultimately show ?thesis using c(1,5) clear_dest_dummy [OF rest(3)] by (subst clear_dest.simps) (simp add: io_fields Let_def)
qed

lemma frame_ports: "io_get_lo p t = io_get_lo p s \<Longrightarrow> io_get_hi p t = io_get_hi p s \<Longrightarrow> common_ports f p t = common_ports f p s"
  by (simp add: common_ports_def)

text \<open>A mapping that covers the receiver's node goes on from the state without the node.\<close>

lemma remap_cleared:
  fixes s t :: kstate
  assumes S: "io_single v U H from to p q d e s" and A: "io_anchored v H from to p q d e s" and R: "io_receiver v H to p q d e s"
    and M: "ports_mapped U H k to p q d lo hi B c s t"
    and B: "B = phys_to_virt (get_iopbm (iopbm_virt v) (space (tcbs s to)) s)"
    and bl: "k < length (mdb_buflists s)" "bl_size (mdb_buflists s ! k) = 28" and lh: "common_ports io_fp p s = (lo, hi)" "lo < hi"
    and fp2: "IOFP_SIZE io_fp2 \<le> push_bit 16 1" and lh2: "common_ports io_fp2 p s = (lo2, hi2)" "lo2 \<le> lo" "hi \<le> hi2"
  shows "\<exists>t'. clear_dest v lo2 hi2 c t = Ok (d, t') \<and> map_io_fpage v from to io_fp2 t = map_io_fpage v from to io_fp2 t' \<and>
    mdb_ok t' U H \<and> io_single v U H from to p q d e t' \<and> io_frame U H p q d B s t' \<and>
    (\<forall>i<2048. mem t' (B + 4 * of_nat i) = mem t (B + 4 * of_nat i) OR range_mask lo (hi - lo) i)"
proof -
  note same = frame_same [OF S A mapped_frame [OF M] B]
  have MD: "io_get_lo c t = lo" "io_get_hi c t = hi" "io_get_dummy c t = 0" "mem t (io_cell 4 c) = d" "mem t (io_cell 4 d) = c"
    using M unfolding ports_mapped_def io_fields by blast+
  let ?u = "\<lparr>us_n = c, us_split = IOMDB_SUP_DEPTH, us_left = NULL\<rparr>"
  obtain t' where t': "us_free v ?u t = Ok (?u\<lparr>us_n := p\<rparr>, t')" "mdb_ok t' U H" "io_frame U H p q d B s t'"
      "mem t' (io_cell 2 p) = q" "mem t' (io_cell 4 d) = d" "mem t' (io_cell 5 d) = d"
      "\<forall>i<2048. mem t' (B + 4 * of_nat i) = mem t (B + 4 * of_nat i) OR range_mask lo (hi - lo) i"
    using child_freed [OF S A M B bl lh] by blast
  note same' = frame_same [OF S A t'(3) B] and S' = single_again [OF S A t'(3) B R t'(4-6)]
  note D' = io_singleD [OF S'] and pts = frame_ports [OF same(3,4)] frame_ports [OF same'(3,4)]
  have clear: "clear_dest v lo2 hi2 c t = Ok (d, t')"
    using clear_dest_child [OF MD(3) _ _ _ MD(4) t'(1,4)] same'(7,12) R lh(2) lh2(2,3) by (simp add: io_receiver_def Let_def MD(1,2))
  have sp: "get_iospace to t = Ok c" using receiver_space [OF S A mapped_frame [OF M] B R] MD(5) by simp
  have prev: "mem t' (io_prev_st d) = d" using t'(6) by (simp add: io_fields)
  have l2: "lo2 < hi2" using lh(2) lh2(2,3) by simp
  have "map_io_fpage v from to io_fp2 t = map_io_fpage v from to io_fp2 t'"
    using map_io_cleared [OF same(2) sp same(5) clear prev fp2 _ l2] map_io_single [OF D'(1-3,7) prev fp2 _ l2] pts lh2(1) by simp
  then show ?thesis using clear t' S' by blast
qed

lemma remapped:
  fixes s t :: kstate
  assumes S: "io_single v U H from to p q d e s" and A: "io_anchored v H from to p q d e s"
    and M: "ports_mapped U H k to p q d lo hi B c s t" and fr: "io_frame U H p q d B s t'"
    and w: "\<forall>i<2048. mem t' (B + 4 * of_nat i) = mem t (B + 4 * of_nat i) OR range_mask lo (hi - lo) i"
    and B: "B = phys_to_virt (get_iopbm (iopbm_virt v) (space (tcbs s to)) s)"
    and lh: "common_ports io_fp p s = (lo, hi)" "lo < hi" "lo2 \<le> lo" "hi \<le> hi2"
    and M': "ports_mapped U H k to p q d lo2 hi2 B c2 t' r"
  shows "ports_mapped U H k to p q d lo2 hi2 B c2 s r"
proof -
  note same' = frame_same [OF S A fr B] and rng = common_range [OF lh(1,2) io_singleD(20) [OF S]]
  have new: "iopbm_bit B x t' \<longleftrightarrow> unat lo \<le> x \<and> x < unat hi \<or> iopbm_bit B x t" if x: "x < 65536" for x
    unfolding iopbm_bit_def w [rule_format, OF bits_index(1) [OF x]] bit_or_iff
      bit_range_mask [OF rng(3) bits_index(2) [OF x] rng(5)] bits_index(3) [OF x] rng(4) by blast
  have old: "iopbm_bit B x t \<longleftrightarrow> \<not> (unat lo \<le> x \<and> x < unat hi) \<and> iopbm_bit B x s" if "x < 65536" for x
    using M that by (simp add: ports_mapped_def)
  have new': "iopbm_bit B x r \<longleftrightarrow> \<not> (unat lo2 \<le> x \<and> x < unat hi2) \<and> iopbm_bit B x t'" if "x < 65536" for x
    using M' that by (simp add: ports_mapped_def)
  have "unat lo2 \<le> unat lo" "unat hi \<le> unat hi2" using lh(3,4) by (simp_all add: word_le_nat_alt)
  then have bits: "iopbm_bit B x r \<longleftrightarrow> \<not> (unat lo2 \<le> x \<and> x < unat hi2) \<and> iopbm_bit B x s" if "x < 65536" for x
    using new' [OF that] new [OF that] old [OF that] by linarith
  have frame: "io_frame U H p q d B s r" by (rule io_frame_trans [OF fr mapped_frame [OF M']])
  then have fr': "same_lists s r" "mdb_mem.more r = mdb_mem.more s"
      "\<forall>a. (a \<notin> H \<or> a \<in> used_area s U) \<and> a \<notin> {io_cell 2 p, io_cell 3 q, io_cell 4 d, io_cell 5 d} \<and> (\<forall>i<2048. a \<noteq> B + 4 * of_nat i) \<longrightarrow>
        mem r a = mem s a" unfolding io_frame_def by blast+
  have bits': "\<forall>x<65536. iopbm_bit B x r \<longleftrightarrow> \<not> (unat lo2 \<le> x \<and> x < unat hi2) \<and> iopbm_bit B x s" using bits by blast
  have MD: "c2 \<notin> U k" "mdb_ok r (U(k := insert c2 (U k))) H" "io_get_lo c2 r = lo2" "io_get_hi c2 r = hi2"
      "x0id_task (io_get_tid c2 r) = x0id_task (myself (tcbs s to))" "io_get_depth c2 r = io_get_depth p s + 1" "io_get_dummy c2 r = 0"
      "mem r (io_cell 2 p) = c2" "mem r (io_cell 2 c2) = q" "mem r (io_cell 3 c2) = p" "mem r (io_cell 3 q) = c2"
      "mem r (io_cell 4 d) = c2" "mem r (io_cell 4 c2) = d" "mem r (io_cell 5 c2) = d" "mem r (io_cell 5 d) = c2"
    using M' unfolding ports_mapped_def io_fields same'(1,6) by blast+
  show ?thesis unfolding ports_mapped_def io_fields by (intro conjI MD bits' fr')
qed

section \<open>Properties\<close>

text \<open>\<^bold>\<open>C12.\<close> Mapping I/O ports gives no more than the sender has, and a later mapping replaces an earlier one. The receiver has a permission
  bitmap of its own and no ports yet; the sender has one node. The receiver's new node covers exactly the ports that the flexpage and the
  sender's node have in common, hangs directly below the sender's node in the tree, and exactly the bits of these ports become clear in the
  receiver's bitmap. When the sender then maps a second flexpage that covers these ports, the receiver's first node is taken out of the tree and
  its list and its buffer is given back, and the receiver has one node with the ports of the second mapping, as if that had been the only one.
  In this setting either mapping fails only when no buffer for the node is free and there is no memory for more, with the null pointer of the allocator.\<close>

theorem map_io_fpage_correct:
  fixes s :: kstate
  assumes ok: "mdb_ok s U H" and find: "find_buflist 28 (mdb_buflists s) = Some k" and S: "io_single v U H from to p q d e s"
    and A: "io_anchored v H from to p q d e s" and R: "io_receiver v H to p q d e s"
    and fp: "\<not> fp_grant io_fp" "IOFP_SIZE io_fp \<le> push_bit 16 1" and lh: "common_ports io_fp p s = (lo, hi)" "lo < hi"
    and B: "B = phys_to_virt (get_iopbm (iopbm_virt v) (space (tcbs s to)) s)"
    and fp2: "\<not> fp_grant io_fp2" "IOFP_SIZE io_fp2 \<le> push_bit 16 1" and lh2: "common_ports io_fp2 p s = (lo2, hi2)" "lo2 \<le> lo" "hi \<le> hi2"
  shows "(map_io_fpage v from to io_fp s = Err Null_deref \<and> no_buffer k s) \<or>
    (\<exists>c s'. map_io_fpage v from to io_fp s = Ok (0, s') \<and> ports_mapped U H k to p q d lo hi B c s s' \<and>
       ((map_io_fpage v from to io_fp2 s' = Err Null_deref \<and>
         (\<exists>t. clear_dest v lo2 hi2 c s' = Ok (d, t) \<and> mdb_ok t U H \<and> no_buffer k t)) \<or>
        (\<exists>c2 s''. map_io_fpage v from to io_fp2 s' = Ok (0, s'') \<and> ports_mapped U H k to p q d lo2 hi2 B c2 s s'')))"
proof -
  note bl = find_buflist_Some [OF find]
  consider (none) "map_io_fpage v from to io_fp s = Err Null_deref" "no_buffer k s"
    | (node) c s' where "map_io_fpage v from to io_fp s = Ok (0, s')" "ports_mapped U H k to p q d lo hi B c s s'"
    using map_io_fpage_fresh [OF ok find S fp lh B] by blast
  then show ?thesis
  proof cases
    case node
    obtain t where t: "clear_dest v lo2 hi2 c s' = Ok (d, t)" "map_io_fpage v from to io_fp2 s' = map_io_fpage v from to io_fp2 t"
        "mdb_ok t U H" "io_single v U H from to p q d e t" "io_frame U H p q d B s t"
        "\<forall>i<2048. mem t (B + 4 * of_nat i) = mem s' (B + 4 * of_nat i) OR range_mask lo (hi - lo) i"
      using remap_cleared [OF S A R node(2) B _ _ lh fp2(2) lh2] bl by blast
    note same = frame_same [OF S A t(5) B]
    have "length (mdb_buflists t) = length (mdb_buflists s)" "\<forall>i<length (mdb_buflists t). bl_size (mdb_buflists t ! i) = bl_size (mdb_buflists s ! i)"
      using t(5) by (simp_all add: io_frame_def same_lists_def)
    then have find': "find_buflist 28 (mdb_buflists t) = Some k" using find_buflist_sizes find by metis
    have lh': "common_ports io_fp2 p t = (lo2, hi2)" "lo2 < hi2" using lh2 lh(2) frame_ports [OF same(3,4)] by auto
    have B': "B = phys_to_virt (get_iopbm (iopbm_virt v) (space (tcbs t to)) t)" using B same(1,10) by simp
    note fresh = map_io_fpage_fresh [OF t(3) find' t(4) fp2 lh' B']
    show ?thesis using fresh t(1-3) node remapped [OF S A node(2) t(5,6) B lh lh2(2,3)] by metis
  qed blast
qed

lemma demo_map_receiver:
  "io_receiver demo_io demo_heap 0xE0020000 0xF0700000 0xF0700040 0xF0700080 0xF07000C0 demo_map_io"
proof -
  have a: "pgent (space (tcbs demo_map_io 0xE0020000)) IO_SPACE_IDX = 0xF0200E4C"
    by (simp add: demo_map_io_def pgent_def IO_SPACE_IDX_def phys_to_virt_def KERNEL_OFFSET_def)
  have "0xF0200E4C \<notin> demo_heap" using demo_heap_below [of "0xF0200E4C"] by auto
  moreover have "io_cell i n \<noteq> 0xF0200E4C" if "i < 7" "n \<in> {0xF0700000, 0xF0700040, 0xF0700080, 0xF07000C0}" for i n
  proof -
    have "0xF0700000 \<le> unat n \<and> unat n + 28 \<le> 2 ^ 32" using that(2) by auto
    then show ?thesis using unat_io_cell [of n i] that(1) by auto
  qed
  moreover have "0xF0200E4C \<noteq> phys_to_virt 0x400000 + 4 * of_nat i" if "i < 2048" for i
  proof -
    have "unat (0xF0400000 + 4 * of_nat i :: dword_t) = 0xF0400000 + 4 * i" using block_cell [of "0xF0400000" 8192 "4 * i"] that(1) by simp
    then have "unat (0xF0200E4C :: dword_t) \<noteq> unat (0xF0400000 + 4 * of_nat i :: dword_t)" by simp
    moreover have "phys_to_virt 0x400000 = 0xF0400000" by (simp add: phys_to_virt_def KERNEL_OFFSET_def)
    ultimately show ?thesis by metis
  qed
  moreover have "mem demo_map_io 0xF0200E4C = 0xF0700080" "io_get_depth 0xF0700040 demo_map_io = 0"
    by (simp_all add: demo_map_io_def io_get_depth_def io_w2_def IOMDB_DEPTH_MASK_def)
  ultimately show ?thesis unfolding io_receiver_def Let_def a demo_map_bitmap(1)
    by (intro conjI ballI allI impI) simp_all
qed

lemma demo_remap_ports:
  "\<not> fp_grant 0xF03F0010" "IOFP_SIZE 0xF03F0010 \<le> push_bit 16 1" "common_ports 0xF03F0010 0xF0700000 demo_map_io = (0x3F0, 0x400)"
  "(0x3F0 :: dword_t) \<le> 0x3F8" "(0x400 :: dword_t) \<le> 0x400"
  by (simp_all add: fp_grant_def IOFP_SIZE_def IOFP_LD_SIZE_def IOFP_PORT_def shl_def common_ports_def io_get_lo_def io_get_hi_def
      io_w1_def io_w2_def demo_map_io_def)

text \<open>Buffers of this size have been allocated before: a page whose only buffer in use is \<open>b\<close> has a free buffer.\<close>

lemma one_buffer_left:
  assumes ok: "mdb_ok s U H" and U: "U k = {b}"
  shows "\<not> no_buffer k s"
proof
  assume no: "no_buffer k s"
  obtain xs P F fl where inv: "mdb_inv s xs P F fl" and Ui: "U = in_use s P F fl" using ok by (auto simp: mdb_ok_def)
  obtain f where f: "f \<in> set (P k @ F k)" "small_bl s k" using in_use_page [OF inv] U Ui by blast
  note po = pools_okD [OF mdb_invD(2) [OF inv f(2)]]
  have "P k = []" using po(2) no by (cases "P k") (auto simp: no_buffer_def)
  then have F: "f \<in> set (F k)" "fl f = []" using f po(5) by auto
  let ?sl = "slots f (bl_size (mdb_buflists s ! k)) (max_free (mdb_buflists s ! k))"
  have "set ?sl \<subseteq> in_use s P F fl k" using F by (auto simp: in_use_def)
  then have "set ?sl \<subseteq> {b}" using U Ui by simp
  then have "card (set ?sl) \<le> 1" using card_mono [of "{b}" "set ?sl"] by simp
  moreover have "card (set ?sl) = unat (max_free (mdb_buflists s ! k))"
    using distinct_card [OF slots_distinct(1) [OF po(7) [OF f(1)] po(1)]] by (simp add: slots_def)
  ultimately show False using po(1) by (simp add: fits_def)
qed

text \<open>The setting is kept by the allocator.\<close>

lemma setting_frame:
  fixes s t :: kstate
  assumes S: "io_single v U H from to p q d e s" and A: "io_anchored v H from to p q d e s" and R: "io_receiver v H to p q d e s"
    and fr: "mdb_frame s t U H" and U: "\<And>i. U i \<subseteq> V i"
    and B: "B = phys_to_virt (get_iopbm (iopbm_virt v) (space (tcbs s to)) s)"
  shows "io_single v V H from to p q d e t" "io_anchored v H from to p q d e t" "io_receiver v H to p q d e t"
    "get_iopbm (iopbm_virt v) (space (tcbs t to)) t = get_iopbm (iopbm_virt v) (space (tcbs s to)) s"
    "common_ports f p t = common_ports f p s"
proof -
  have M: "io_frame U H p q d B s t" using fr by (simp add: io_frame_def mdb_frame_def)
  note D = io_singleD [OF S] and same = frame_same [OF S A M B]
  have cell: "mem t (io_cell i n) = mem s (io_cell i n)" if "i < 7" "kept s U H n" for i n
    using fr that by (auto simp: mdb_frame_def kept_def)
  have "io_single v U H from to p q d e t"
    using cell D(5,8-10,12) by (intro single_again [OF S A M B R]) (simp_all add: io_fields)
  moreover have "kept t V H n" if "kept t U H n" for n
    using that used_area_mono [of U V t] U unfolding kept_def by blast
  ultimately show "io_single v V H from to p q d e t" unfolding io_single_def by simp
  have off: "mem t a = mem s a" if "a \<notin> H" for a using fr that by (simp add: mdb_frame_def)
  let ?w = "pgent (space (tcbs s to)) (pgdir_idx (iopbm_virt v))"
  have "?w \<notin> H" using D(23) [of ?w] by (auto simp: iopbm_cells_def)
  then have sub: "subtree ?w t = subtree ?w s" by (simp add: subtree_def off)
  have dep: "io_get_depth q t = io_get_depth q s" "io_get_depth p t = io_get_depth p s" using same(6,7) by simp_all
  show "io_anchored v H from to p q d e t"
    using A off cell [OF _ D(13), of 4] unfolding io_anchored_def Let_def same(1,10) sub dep task_space_def io_fields by simp
  show "io_receiver v H to p q d e t"
    using R off unfolding io_receiver_def Let_def same(1,10) dep by simp
  show "get_iopbm (iopbm_virt v) (space (tcbs t to)) t = get_iopbm (iopbm_virt v) (space (tcbs s to)) s"
    "common_ports f p t = common_ports f p s" using same(1,10) frame_ports [OF same(3,4)] by simp_all
qed

text \<open>The sample after one buffer has been allocated.\<close>

lemma demo_remap_start:
  obtains b s where "mdb_alloc_buffer 28 demo_map_io = Ok (b, s)" "mdb_ok s ((\<lambda>_. {})(3 := {b})) demo_heap" "mdb_frame demo_map_io s (\<lambda>_. {}) demo_heap"
  using mdb_alloc_step [OF demo_map_ok(1,2)] demo_map_ok(3) by (auto simp: MDB_ALLOC_CHUNKSZ_def)

theorem map_io_fpage_correct_witness:
  "\<exists>b s c s' c2 s''. mdb_alloc_buffer 28 demo_map_io = Ok (b, s) \<and>
     map_io_fpage demo_io 0xE0010000 0xE0020000 0xF03F800C s = Ok (0, s') \<and> io_get_lo c s' = 0x3F8 \<and> io_get_hi c s' = 0x400 \<and>
     \<not> iopbm_bit 0xF0400000 0x3F8 s' \<and> mem s' (io_next_st 0xF0700080) = c \<and> mem s' (io_next_st c) = 0xF0700080 \<and>
     map_io_fpage demo_io 0xE0010000 0xE0020000 0xF03F0010 s' = Ok (0, s'') \<and> io_get_lo c2 s'' = 0x3F0 \<and> io_get_hi c2 s'' = 0x400 \<and>
     \<not> iopbm_bit 0xF0400000 0x3F0 s'' \<and> mem s'' (io_next_st 0xF0700080) = c2 \<and> mem s'' (io_next_st c2) = 0xF0700080"
proof -
  obtain b s where s: "mdb_alloc_buffer 28 demo_map_io = Ok (b, s)" "mdb_ok s ((\<lambda>_. {})(3 := {b})) demo_heap"
    "mdb_frame demo_map_io s (\<lambda>_. {}) demo_heap" by (rule demo_remap_start)
  note set = setting_frame [OF demo_map_single demo_map_anchored demo_map_receiver s(3) _ demo_map_ports(5), where V = "(\<lambda>_. {})(3 := {b})", simplified]
  have f: "find_buflist 28 (mdb_buflists s) = Some 3"
    using s(3) find_buflist_sizes [of "mdb_buflists s" "mdb_buflists demo_map_io"] demo_map_ok(2) by (simp add: mdb_frame_def same_lists_def)
  have ports: "common_ports 0xF03F800C 0xF0700000 s = (0x3F8, 0x400)" "common_ports 0xF03F0010 0xF0700000 s = (0x3F0, 0x400)"
    "0xF0400000 = phys_to_virt (get_iopbm (iopbm_virt demo_io) (space (tcbs s 0xE0020000)) s)"
    using set(4,5) demo_map_ports(3,5) demo_remap_ports(3) by simp_all
  have left: "\<not> no_buffer 3 t" if "mdb_ok t ((\<lambda>_. {})(3 := {b})) demo_heap" for t :: kstate using one_buffer_left [OF that, of 3 b] by simp
  from map_io_fpage_correct [OF s(2) f set(1-3) demo_map_ports(1,2) ports(1) demo_map_ports(4) ports(3) demo_remap_ports(1,2) ports(2) demo_remap_ports(4,5)]
  obtain c s' c2 s'' where r: "map_io_fpage demo_io 0xE0010000 0xE0020000 0xF03F800C s = Ok (0, s')"
    "ports_mapped ((\<lambda>_. {})(3 := {b})) demo_heap 3 0xE0020000 0xF0700000 0xF0700040 0xF0700080 0x3F8 0x400 0xF0400000 c s s'"
    "map_io_fpage demo_io 0xE0010000 0xE0020000 0xF03F0010 s' = Ok (0, s'')"
    "ports_mapped ((\<lambda>_. {})(3 := {b})) demo_heap 3 0xE0020000 0xF0700000 0xF0700040 0xF0700080 0x3F0 0x400 0xF0400000 c2 s s''"
    using left [OF s(2)] left by blast
  have "\<not> iopbm_bit 0xF0400000 0x3F8 s'" "\<not> iopbm_bit 0xF0400000 0x3F0 s''" using r(2,4) by (simp_all add: ports_mapped_def)
  then show ?thesis using s(1) r unfolding ports_mapped_def by blast
qed

end
