(* ===== verification/Sigma0.thy ===== *)
theory Sigma0
  imports Fpage
begin

text \<open>
  The initial pager, \<^verbatim>\<open>src/apps/sigma0/sigma0-new.c\<close>, which owns all memory that the kernel does not use and hands it out to the first
  who asks. Every page frame and every I/O port has an entry with the task that owns it. Clients send requests by IPC;
  \<open>sigma0_request\<close> is the body of the loop for one message, with the message and the sender as arguments and the reply as result. The
  system calls that unmap flexpages are kept in a list. The interface functions for clients are in
  \<^verbatim>\<open>src/apps/include/l4/sigma0.h\<close>. The configuration is the shipped one for x86 with I/O flexpages. An access behind the end of an array
  is the value \<open>Out_of_bounds\<close>. The processor takes shift counts modulo 32.
\<close>

section \<open>State\<close>

type_synonym space_id_t = byte_t

record s0_t =
  page_array :: "nat \<Rightarrow> space_id_t"
  io_space :: "nat \<Rightarrow> space_id_t"
  s0_unmaps :: "(fpage_t \<times> dword_t) list"

record l4_kernel_info_t =
  main_memory :: "dword_t \<times> dword_t"
  dedicated :: "(dword_t \<times> dword_t) list"
  reserved0 :: "dword_t \<times> dword_t"
  reserved1 :: "dword_t \<times> dword_t"
  root_memory :: "dword_t \<times> dword_t"
  sigma0_memory :: "dword_t \<times> dword_t"
  sigma1_memory :: "dword_t \<times> dword_t"
  kdebug_memory :: "dword_t \<times> dword_t"

definition NO_MAP :: dword_t where "NO_MAP = NOT 0"
definition DEFAULT_SIZE :: dword_t where "DEFAULT_SIZE = 12"
definition PAGE_BITS :: nat where "PAGE_BITS = 12"
definition MAX_MEM :: dword_t where "MAX_MEM = 256 * 1024 * 1024"
definition page_shifts :: "dword_t list" where "page_shifts = [12, 22, 32]"
definition page_sizes :: "dword_t list" where "page_sizes = [push_bit 12 1, push_bit 22 1]"
definition S0_IOFP_HI_BOUND :: dword_t where "S0_IOFP_HI_BOUND = 0xFFFFF000"
definition PORT_FREE :: space_id_t where "PORT_FREE = 0"
definition X86_IO_SPACE_SIZE :: dword_t where "X86_IO_SPACE_SIZE = push_bit 16 1"
definition PAGE_RESERVED :: space_id_t where "PAGE_RESERVED = 0xFF"
definition PAGE_FREE :: space_id_t where "PAGE_FREE = 0xFE"
definition PAGE_SHARED :: space_id_t where "PAGE_SHARED = 0xFC"
definition PAGE_ROOT :: space_id_t where "PAGE_ROOT = 0x04"

definition s0_io_port :: "dword_t \<Rightarrow> dword_t" where "s0_io_port x = drop_bit 12 x AND 0x0000FFFF"
definition s0_io_size :: "dword_t \<Rightarrow> dword_t" where "s0_io_size x = shl 1 (drop_bit 2 x AND 0x0000003F)"
definition s0_is_io :: "dword_t \<Rightarrow> bool" where "s0_is_io x \<longleftrightarrow> x \<ge> IOFP_LO_BOUND \<and> x \<le> S0_IOFP_HI_BOUND"

definition iskernelthread :: "l4_threadid_t \<Rightarrow> l4_threadid_t \<Rightarrow> bool" where
  "iskernelthread me x \<longleftrightarrow> x < me"

definition l4_fpage :: "dword_t \<Rightarrow> dword_t \<Rightarrow> bool \<Rightarrow> bool \<Rightarrow> fpage_t" where
  "l4_fpage address sz write grant =
     (address AND PAGE_MASK) OR push_bit 2 (sz AND mask 6) OR (if write then 2 else 0) OR (if grant then 1 else 0)"

definition set_page :: "nat \<Rightarrow> space_id_t \<Rightarrow> s0_t \<Rightarrow> s0_t" where
  "set_page i x s = s\<lparr>page_array := (page_array s)(i := x)\<rparr>"

section \<open>Start-up\<close>

fun setmem_loop :: "nat \<Rightarrow> dword_t \<Rightarrow> dword_t \<Rightarrow> space_id_t \<Rightarrow> s0_t \<Rightarrow> s0_t kres" where
  "setmem_loop 0 i base attrib s = Ok s"
| "setmem_loop (Suc k) i base attrib s =
     (if unat (i - base) < 65536 then setmem_loop k (i + 1) base attrib (set_page (unat (i - base)) attrib s) else Err Out_of_bounds)"

definition setmem :: "l4_kernel_info_t \<Rightarrow> dword_t \<times> dword_t \<Rightarrow> space_id_t \<Rightarrow> s0_t \<Rightarrow> s0_t kres" where
  "setmem kip rng attrib s =
     (let (low, high) = rng; (mlow, mhigh) = main_memory kip in
      if high \<noteq> 0 then
        if low \<ge> mlow \<and> high \<le> mhigh then
          let i = drop_bit PAGE_BITS low
          in setmem_loop (unat (drop_bit PAGE_BITS high) - unat i) i (drop_bit PAGE_BITS mlow) attrib s
        else Ok s
      else Ok s)"

fun setmems :: "l4_kernel_info_t \<Rightarrow> ((dword_t \<times> dword_t) \<times> space_id_t) list \<Rightarrow> s0_t \<Rightarrow> s0_t kres" where
  "setmems kip [] s = Ok s"
| "setmems kip ((rng, attrib) # rs) s = res_bind (setmem kip rng attrib s) (setmems kip rs)"

definition init_regions :: "l4_kernel_info_t \<Rightarrow> ((dword_t \<times> dword_t) \<times> space_id_t) list" where
  "init_regions kip = [(main_memory kip, PAGE_FREE)] @ map (\<lambda>r. (r, PAGE_SHARED)) (take 5 (dedicated kip)) @
     [(reserved0 kip, PAGE_RESERVED), (reserved1 kip, PAGE_RESERVED), (root_memory kip, PAGE_ROOT),
      (sigma0_memory kip, PAGE_RESERVED), (sigma1_memory kip, PAGE_RESERVED), (kdebug_memory kip, PAGE_RESERVED)]"

definition init_space :: "l4_kernel_info_t \<Rightarrow> s0_t \<Rightarrow> s0_t kres" where
  "init_space kip s =
     res_bind (setmems kip (init_regions kip) (s\<lparr>page_array := \<lambda>_. PAGE_RESERVED\<rparr>)) (\<lambda>s. Ok (s\<lparr>io_space := \<lambda>_. PORT_FREE\<rparr>))"

section \<open>I/O ports\<close>

definition allocate_io_space :: "space_id_t \<Rightarrow> dword_t \<Rightarrow> s0_t \<Rightarrow> dword_t \<times> s0_t" where
  "allocate_io_space sp addr s =
     (let sz = s0_io_size addr; port = s0_io_port addr in
      if port + sz > X86_IO_SPACE_SIZE then (NO_MAP, s)
      else if \<exists>i\<in>{unat port..<unat (port + sz)}. io_space s i \<noteq> PORT_FREE \<and> io_space s i \<noteq> sp then (NO_MAP, s)
      else (addr, s\<lparr>io_space := \<lambda>i. if i \<in> {unat port..<unat (port + sz)} then sp else io_space s i\<rparr>))"

definition free_io_space :: "space_id_t \<Rightarrow> dword_t \<Rightarrow> s0_t \<Rightarrow> s0_t" where
  "free_io_space sp addr s =
     (let sz = s0_io_size addr; port = s0_io_port addr in
      if port + sz > X86_IO_SPACE_SIZE then s
      else if \<exists>i\<in>{unat port..<unat (port + sz)}. io_space s i \<noteq> sp \<and> io_space s i \<noteq> PORT_FREE then s
      else s\<lparr>io_space := \<lambda>i. if i \<in> {unat port..<unat (port + sz)} then PORT_FREE else io_space s i,
             s0_unmaps := s0_unmaps s @ [(addr, 0)]\<rparr>)"

section \<open>Page frames\<close>

text \<open>Whether the pages can be given to a task; the address at which the loop stops is part of the result.\<close>

function check_pages :: "space_id_t \<Rightarrow> dword_t \<Rightarrow> dword_t \<Rightarrow> dword_t \<Rightarrow> s0_t \<Rightarrow> (bool \<times> dword_t) kres" where
  "check_pages sp tmp num ix s =
     (if tmp < MAX_MEM \<and> num \<noteq> 0 then
        if ix \<ge> 65536 then Err Out_of_bounds
        else if page_array s (unat ix) \<in> {PAGE_FREE, PAGE_SHARED, sp} then
          check_pages sp (tmp + PAGE_SIZE) (num - 1) (ix + 1) s
        else Ok (False, tmp)
      else Ok (True, tmp))"
  by pat_completeness auto
termination
proof (relation "measure (\<lambda>(sp, tmp, num, ix, s). unat MAX_MEM - unat tmp)")
  fix tmp :: dword_t and sp :: space_id_t and num ix :: dword_t and s :: s0_t
  assume "tmp < MAX_MEM \<and> num \<noteq> 0"
  then have t: "unat tmp < 268435456" by (simp add: MAX_MEM_def word_less_nat_alt)
  then have "unat (tmp + PAGE_SIZE) = unat tmp + 4096" by (simp add: PAGE_SIZE_def unat_word_ariths)
  with t show "((sp, tmp + PAGE_SIZE, num - 1, ix + 1, s), (sp, tmp, num, ix, s)) \<in> measure (\<lambda>(sp, tmp, num, ix, s). unat MAX_MEM - unat tmp)"
    by (simp add: MAX_MEM_def)
qed simp

declare check_pages.simps [simp del]

fun mark_pages :: "nat \<Rightarrow> space_id_t \<Rightarrow> dword_t \<Rightarrow> s0_t \<Rightarrow> s0_t kres" where
  "mark_pages 0 sp ix s = Ok s"
| "mark_pages (Suc k) sp ix s =
     (if ix \<ge> 65536 then Err Out_of_bounds
      else mark_pages k sp (ix + 1) (if page_array s (unat ix) = PAGE_FREE then set_page (unat ix) sp s else s))"

definition allocate_space ::
    "l4_kernel_info_t \<Rightarrow> space_id_t \<Rightarrow> dword_t \<Rightarrow> dword_t \<Rightarrow> s0_t \<Rightarrow> (dword_t \<times> s0_t) kres" where
  "allocate_space kip sp addr sz s =
     (let low = fst (main_memory kip) in
      if addr < low then Ok (NO_MAP, s)
      else if s0_is_io addr then Ok (allocate_io_space sp addr s)
      else if sz < of_nat PAGE_BITS then Ok (NO_MAP, s)
      else
        let addr = addr AND NOT (shl 1 sz - 1);
            tmp = addr - low;
            num = shl 1 (sz - of_nat PAGE_BITS);
            ix = drop_bit PAGE_BITS tmp
        in res_bind (check_pages sp tmp num ix s) (\<lambda>(ok, t).
             if \<not> ok \<or> t \<ge> MAX_MEM then Ok (NO_MAP, s)
             else res_bind (mark_pages (unat num) sp ix s) (\<lambda>s. Ok (addr, s))))"

text \<open>The search for a free run: the remaining number and the address at which the loop stops.\<close>

function run_free :: "dword_t \<Rightarrow> dword_t \<Rightarrow> dword_t \<Rightarrow> s0_t \<Rightarrow> (dword_t \<times> dword_t) kres" where
  "run_free tmp num ix s =
     (if tmp \<le> MAX_MEM then
        if num - 1 = 0 then Ok (0, tmp)
        else if ix \<ge> 65536 then Err Out_of_bounds
        else if page_array s (unat ix) = PAGE_FREE then run_free (tmp + PAGE_SIZE) (num - 1) (ix + 1) s
        else Ok (num - 1, tmp)
      else Ok (num, tmp))"
  by pat_completeness auto
termination
proof (relation "measure (\<lambda>(tmp, num, ix, s). unat MAX_MEM + 1 - unat tmp)")
  fix tmp num ix :: dword_t and s :: s0_t
  assume "tmp \<le> MAX_MEM"
  then have t: "unat tmp \<le> 268435456" by (simp add: MAX_MEM_def word_le_nat_alt)
  then have "unat (tmp + PAGE_SIZE) = unat tmp + 4096" by (simp add: PAGE_SIZE_def unat_word_ariths)
  with t show "((tmp + PAGE_SIZE, num - 1, ix + 1, s), (tmp, num, ix, s)) \<in> measure (\<lambda>(tmp, num, ix, s). unat MAX_MEM + 1 - unat tmp)"
    by (simp add: MAX_MEM_def)
qed simp

declare run_free.simps [simp del]

lemma unat_shl_1: "unat (shl 1 sz) = 2 ^ (unat sz mod 32)"
proof -
  have "(2 :: nat) ^ (unat sz mod 32) < 2 ^ 32" by (intro power_strict_increasing) simp_all
  then have "unat (of_nat (2 ^ (unat sz mod 32)) :: dword_t) = 2 ^ (unat sz mod 32)" by (intro unat_of_nat_small) simp
  then show ?thesis by (simp add: shl_def push_bit_eq_mult)
qed

lemma unat_add_shl: "addr < MAX_MEM \<Longrightarrow> unat (addr + shl 1 sz) = unat addr + 2 ^ (unat sz mod 32)"
proof -
  assume "addr < MAX_MEM"
  then have a: "unat addr < 268435456" by (simp add: MAX_MEM_def word_less_nat_alt)
  have "(2 :: nat) ^ (unat sz mod 32) \<le> 2 ^ 31" by (intro power_increasing) simp_all
  then show ?thesis using a by (simp add: unat_word_ariths unat_shl_1)
qed

lemma step_up: "addr < MAX_MEM \<Longrightarrow> unat MAX_MEM - unat (addr + shl 1 sz) < unat MAX_MEM - unat addr"
  by (simp add: unat_add_shl diff_less_mono2 word_less_nat_alt)

function any_loop :: "l4_kernel_info_t \<Rightarrow> space_id_t \<Rightarrow> dword_t \<Rightarrow> dword_t \<Rightarrow> s0_t \<Rightarrow> (dword_t \<times> s0_t) kres" where
  "any_loop kip sp sz addr s =
     (if addr < MAX_MEM then
        let n = shl 1 (sz - of_nat PAGE_BITS);
            ix = drop_bit PAGE_BITS addr
        in case run_free addr (n + 1) ix s of
             None \<Rightarrow> None
           | Some (Inl e) \<Rightarrow> Err e
           | Some (Inr (num, tmp)) \<Rightarrow>
               if num = 0 then res_bind (mark_pages (unat n) sp ix s) (\<lambda>s. Ok (fst (main_memory kip) + addr, s))
               else if tmp \<ge> MAX_MEM then Ok (NO_MAP, s)
               else any_loop kip sp sz (addr + shl 1 sz) s
      else Ok (NO_MAP, s))"
  by pat_completeness auto
termination
  by (relation "measure (\<lambda>(kip, sp, sz, addr, s). unat MAX_MEM - unat addr)") (simp_all add: step_up)

declare any_loop.simps [simp del]

definition allocate_space_any :: "l4_kernel_info_t \<Rightarrow> space_id_t \<Rightarrow> dword_t \<Rightarrow> s0_t \<Rightarrow> (dword_t \<times> s0_t) kres" where
  "allocate_space_any kip sp sz s =
     (if sz < of_nat PAGE_BITS then Ok (NO_MAP, s) else any_loop kip sp sz 0 s)"

text \<open>Freeing. How many of the pages are missing from a run of pages that the task owns.\<close>

function own_run :: "space_id_t \<Rightarrow> dword_t \<Rightarrow> dword_t \<Rightarrow> s0_t \<Rightarrow> dword_t kres" where
  "own_run sp num ix s =
     (if ix \<ge> 65536 then Err Out_of_bounds
      else if page_array s (unat ix) = sp then
        if num - 1 = 0 then Ok 0 else own_run sp (num - 1) (ix + 1) s
      else Ok num)"
  by pat_completeness auto
termination
proof (relation "measure (\<lambda>(sp, num, ix, s). 65536 - unat ix)")
  fix sp :: space_id_t and num ix :: dword_t and s :: s0_t
  assume "\<not> ix \<ge> 65536"
  then have "ix < 65536" by simp
  then show "((sp, num - 1, ix + 1, s), (sp, num, ix, s)) \<in> measure (\<lambda>(sp, num, ix, s). 65536 - unat ix)"
    using unat_inc_measure [of ix 65536] by simp
qed simp

declare own_run.simps [simp del]

fun free_run :: "nat \<Rightarrow> space_id_t \<Rightarrow> dword_t \<Rightarrow> dword_t \<Rightarrow> dword_t \<Rightarrow> dword_t \<Rightarrow> s0_t \<Rightarrow> s0_t kres" where
  "free_run 0 sp addr endaddr tmp ix s = Ok s"
| "free_run (Suc k) sp addr endaddr tmp ix s =
     (if tmp \<ge> addr \<and> tmp \<le> endaddr then
        if ix \<ge> 65536 then Err Out_of_bounds
        else free_run k sp addr endaddr (tmp + PAGE_SIZE) (ix + 1)
               (if page_array s (unat ix) = sp then set_page (unat ix) PAGE_FREE s else s)
      else free_run k sp addr endaddr (tmp + PAGE_SIZE) (ix + 1) s)"

text \<open>One page of the size \<open>i\<close>: when the task owns all of it, it is unmapped and its pages in the range are freed.\<close>

definition free_region :: "nat \<Rightarrow> space_id_t \<Rightarrow> dword_t \<Rightarrow> dword_t \<Rightarrow> dword_t \<Rightarrow> s0_t \<Rightarrow> s0_t kres" where
  "free_region i sp addr endaddr tmp s =
     (let n = shl 1 (page_shifts ! i - of_nat PAGE_BITS);
          ix = drop_bit PAGE_BITS tmp
      in res_bind (own_run sp n ix s) (\<lambda>num.
           if num = 0 then
             let s = s\<lparr>s0_unmaps := s0_unmaps s @ [(l4_fpage tmp (page_shifts ! i) False False, 0x02)]\<rparr>
             in free_run (unat n) sp addr endaddr tmp ix s
           else Ok s))"

fun free_regions :: "nat \<Rightarrow> nat \<Rightarrow> space_id_t \<Rightarrow> dword_t \<Rightarrow> dword_t \<Rightarrow> dword_t \<Rightarrow> s0_t \<Rightarrow> s0_t kres" where
  "free_regions 0 i sp addr endaddr off s = Ok s"
| "free_regions (Suc k) i sp addr endaddr off s =
     res_bind (free_region i sp addr endaddr ((addr AND NOT (page_sizes ! i - 1)) + off) s)
       (free_regions k i sp addr endaddr (off + page_sizes ! i))"

definition free_size :: "space_id_t \<Rightarrow> dword_t \<Rightarrow> dword_t \<Rightarrow> dword_t \<Rightarrow> nat \<Rightarrow> s0_t \<Rightarrow> s0_t kres" where
  "free_size sp addr endaddr sz i s =
     (let snum = (if sz > page_shifts ! i then shl 1 (sz - page_shifts ! i) else 1)
      in free_regions (unat snum) i sp addr endaddr 0 s)"

definition free_space :: "space_id_t \<Rightarrow> dword_t \<Rightarrow> dword_t \<Rightarrow> s0_t \<Rightarrow> s0_t kres" where
  "free_space sp addr sz s =
     (if s0_is_io addr then Ok (free_io_space sp addr s)
      else if sz < of_nat PAGE_BITS then Ok s
      else
        let addr = addr AND NOT (shl 1 sz - 1);
            endaddr = addr + shl 1 sz - PAGE_SIZE
        in res_bind (free_size sp addr endaddr sz 1 s) (free_size sp addr endaddr sz 0))"

section \<open>Requests\<close>

datatype s0_out = Reply dword_t dword_t fpage_t | No_reply

text \<open>Page fault messages and the requests of older versions are turned into requests of the protocol.\<close>

definition s0_compat :: "dword_t \<Rightarrow> dword_t \<Rightarrow> fpage_t \<Rightarrow> fpage_t" where
  "s0_compat dw0 dw1 fp =
     (if dw0 = 0xfffffffc then l4_fpage 0 12 False True
      else if (fp = 0 \<and> dw0 \<noteq> 0x1) \<or> dw0 AND 0x3 = 0 then
        if dw0 > 1024 * 1024 * 1024 then
          if s0_is_io dw0 then dw0 + 0x3 else l4_fpage (dw0 + 1024 * 1024 * 1024) 22 True True
        else l4_fpage dw0 DEFAULT_SIZE True True
      else if dw0 AND 0x3 = 0x1 \<and> dw1 = push_bit 2 22 then l4_fpage dw0 22 True True
      else fp)"

text \<open>The flexpage of the reply for memory at \<open>dw0\<close>; the two attribute bits of the request are kept.\<close>

definition reply_fpage :: "bool \<Rightarrow> dword_t \<Rightarrow> dword_t \<Rightarrow> fpage_t \<Rightarrow> fpage_t" where
  "reply_fpage kern dw0 sz fp = (let f = l4_fpage dw0 sz True kern in if kern then f else (f AND NOT 0x300) OR (fp AND 0x300))"

definition sigma0_request ::
    "l4_kernel_info_t \<Rightarrow> dword_t \<Rightarrow> l4_threadid_t \<Rightarrow> l4_threadid_t \<Rightarrow> dword_t \<Rightarrow> dword_t \<Rightarrow> fpage_t \<Rightarrow> s0_t \<Rightarrow> (s0_out \<times> s0_t) kres" where
  "sigma0_request kip kip_addr me client dw0 dw1 fp s =
     (let fp = s0_compat dw0 dw1 fp;
          sz = fp_size fp;
          kern = iskernelthread me client;
          task = ucast (x0id_task client) :: space_id_t
      in if dw0 = 0x1 then
           if kern then Ok (Reply 0 (push_bit PAGE_BITS 0x100) fp, s)
           else Ok (Reply 2 kip_addr (l4_fpage kip_addr 12 False False), s)
         else if fp AND 0x1 \<noteq> 0 then
           res_bind (if fp AND 0x2 \<noteq> 0 then allocate_space kip task fp sz s else allocate_space_any kip task sz s) (\<lambda>(a, s).
             if a \<noteq> NO_MAP then
               if s0_is_io fp then Ok (Reply 2 (a AND NOT 0x3) (a AND NOT 0x3), s)
               else Ok (Reply 2 a (reply_fpage kern a sz fp), s)
             else Ok (Reply 0 0 0, s))
         else res_bind (free_space task fp sz s) (\<lambda>s. Ok (No_reply, s)))"

text \<open>The message of the interface function that gives a page back.\<close>

definition l4_sigma0_freepage :: "fpage_t \<Rightarrow> dword_t \<times> dword_t \<times> fpage_t" where
  "l4_sigma0_freepage fp = (0, 0, (fp AND NOT 0x3) OR 0x2)"

definition l4_sigma0_getpage :: "fpage_t \<Rightarrow> dword_t \<times> dword_t \<times> fpage_t" where
  "l4_sigma0_getpage fp = (0x3, 0, fp OR 0x3)"

definition l4_sigma0_getany :: "dword_t \<Rightarrow> dword_t \<times> dword_t \<times> fpage_t" where
  "l4_sigma0_getany sz = (0x3, 0, l4_fpage 0 sz False False OR 0x1)"

end
