(* ===== verification/Sigma0_Pages.thy ===== *)
theory Sigma0_Pages
  imports Sigma0
begin

text \<open>
  What sigma0 guarantees: a page frame belongs to one task at a time. A request changes only pages that are free or belong to
  the client; a flexpage in a reply covers only pages that belong to the client or are shared.
\<close>

section \<open>Taking and freeing pages\<close>

definition takes :: "space_id_t \<Rightarrow> s0_t \<Rightarrow> s0_t \<Rightarrow> bool" where
  "takes sp s s' \<longleftrightarrow> (\<forall>j. page_array s' j = page_array s j \<or> (page_array s j = PAGE_FREE \<and> page_array s' j = sp))"

definition frees :: "space_id_t \<Rightarrow> s0_t \<Rightarrow> s0_t \<Rightarrow> bool" where
  "frees sp s s' \<longleftrightarrow> (\<forall>j. page_array s' j = page_array s j \<or> (page_array s j = sp \<and> page_array s' j = PAGE_FREE))"

lemma frees_refl [simp]: "frees sp s s" and takes_refl [simp]: "takes sp s s"
  by (simp_all add: frees_def takes_def)

lemma frees_trans: "frees sp s1 s2 \<Longrightarrow> frees sp s2 s3 \<Longrightarrow> frees sp s1 s3"
  unfolding frees_def by metis

text \<open>The pages \<open>i\<close> to \<open>i + n - 1\<close> after they have been marked.\<close>

definition marked :: "space_id_t \<Rightarrow> nat \<Rightarrow> nat \<Rightarrow> s0_t \<Rightarrow> s0_t" where
  "marked sp i n s =
     s\<lparr>page_array := \<lambda>j. if i \<le> j \<and> j < i + n \<and> page_array s j = PAGE_FREE then sp else page_array s j\<rparr>"

lemma takes_marked: "takes sp s (marked sp i n s)"
  by (simp add: takes_def marked_def)

lemma mark_pages_marked:
  "unat ix + n \<le> 65536 \<Longrightarrow> mark_pages n sp ix s = Ok (marked sp (unat ix) n s)"
proof (induction n arbitrary: ix s)
  case (Suc n)
  then have ix: "ix < 65536" by (simp add: word_less_nat_alt)
  then have u: "unat (ix + 1) = unat ix + 1" by (rule unat_inc)
  let ?s = "if page_array s (unat ix) = PAGE_FREE then set_page (unat ix) sp s else s"
  have "mark_pages (Suc n) sp ix s = Ok (marked sp (unat ix + 1) n ?s)"
    using Suc.IH [of "ix + 1" ?s] Suc.prems ix by (simp add: u not_le)
  moreover have "marked sp (unat ix + 1) n ?s = marked sp (unat ix) (Suc n) s"
    by (auto simp: marked_def set_page_def not_less_eq_eq intro!: s0_t.equality ext dest: le_antisym)
  ultimately show ?case by simp
qed (auto simp: marked_def intro!: s0_t.equality ext)

lemma page_index: "unat (drop_bit PAGE_BITS a) = unat a div 4096"
  unfolding PAGE_BITS_def unat_drop_bit_eq unfolding drop_bit_eq_div by simp

lemma check_pages_ok:
  "unat ix = unat tmp div 4096 \<Longrightarrow>
   \<exists>b t. check_pages sp tmp num ix s = Ok (b, t) \<and>
     (b \<and> t < MAX_MEM \<longrightarrow> unat ix + unat num \<le> 65536 \<and> (\<forall>i<unat num. page_array s (unat ix + i) \<in> {PAGE_FREE, PAGE_SHARED, sp}))"
proof (induction sp tmp num ix s rule: check_pages.induct)
  case (1 sp tmp num ix s)
  show ?case
  proof (cases "tmp < MAX_MEM \<and> num \<noteq> 0")
    case False
    then have "check_pages sp tmp num ix s = Ok (True, tmp)" by (subst check_pages.simps) (simp only: if_False)
    moreover have "unat ix + unat num \<le> 65536" if "tmp < MAX_MEM"
      using that False 1(2) by (simp add: MAX_MEM_def word_less_nat_alt div_le_mono)
    ultimately show ?thesis using False by auto
  next
    case True
    then have t: "unat tmp < 268435456" by (simp add: MAX_MEM_def word_less_nat_alt)
    then have ix: "unat ix < 65536" using 1(2) by (simp add: div_less_iff_less_mult)
    then have ix': "\<not> ix \<ge> 65536" by (simp add: word_le_nat_alt)
    have u: "unat (tmp + PAGE_SIZE) = unat tmp + 4096" using t by (simp add: PAGE_SIZE_def unat_word_ariths)
    have u1: "unat (ix + 1) = unat ix + 1" using ix by (intro unat_inc [of _ 65536]) (simp add: word_less_nat_alt)
    have un: "unat num = Suc (unat (num - 1))" using True by (simp add: unat_minus_one unat_gt_0)
    show ?thesis
    proof (cases "page_array s (unat ix) \<in> {PAGE_FREE, PAGE_SHARED, sp}")
      case ok: True
      have e: "check_pages sp tmp num ix s = check_pages sp (tmp + PAGE_SIZE) (num - 1) (ix + 1) s"
        by (subst check_pages.simps) (simp only: True ix' ok if_True if_False simp_thms)
      obtain b t' where r: "check_pages sp (tmp + PAGE_SIZE) (num - 1) (ix + 1) s = Ok (b, t')"
        "b \<and> t' < MAX_MEM \<longrightarrow> unat (ix + 1) + unat (num - 1) \<le> 65536 \<and>
           (\<forall>i<unat (num - 1). page_array s (unat (ix + 1) + i) \<in> {PAGE_FREE, PAGE_SHARED, sp})"
      proof -
        have "unat (ix + 1) = unat (tmp + PAGE_SIZE) div 4096" using 1(2) by (simp add: u u1)
        from 1(1) [OF True ix' ok this] that show ?thesis by blast
      qed
      have "page_array s (unat ix + i) \<in> {PAGE_FREE, PAGE_SHARED, sp}"
        if "b \<and> t' < MAX_MEM" "i < unat num" for i
      proof (cases i)
        case (Suc k)
        then show ?thesis using r(2) that u1 un by (metis add.assoc plus_1_eq_Suc Suc_less_eq)
      qed (use ok in simp)
      then show ?thesis using e r u1 un by auto
    next
      case bad: False
      have "check_pages sp tmp num ix s = Ok (False, tmp)"
        by (subst check_pages.simps) (simp only: True ix' bad if_True if_False simp_thms)
      then show ?thesis by auto
    qed
  qed
qed

lemma run_free_ok:
  "run_free tmp num ix s = Ok (0, t) \<Longrightarrow> num \<noteq> 0 \<Longrightarrow>
   (unat num = 1 \<or> unat ix + (unat num - 1) \<le> 65536) \<and> (\<forall>i<unat num - 1. page_array s (unat ix + i) = PAGE_FREE)"
proof (induction tmp num ix s rule: run_free.induct)
  case (1 tmp num ix s)
  have un: "unat num = Suc (unat (num - 1))" using 1(3) by (simp add: unat_minus_one unat_gt_0)
  show ?case
  proof (cases "tmp \<le> MAX_MEM \<and> num - 1 \<noteq> 0")
    case False
    then have "num - 1 = 0" using 1(2,3) by (subst (asm) run_free.simps) (auto split: if_splits)
    then show ?thesis using un by simp
  next
    case True
    then have ix: "\<not> ix \<ge> 65536" and free: "page_array s (unat ix) = PAGE_FREE"
      and r: "run_free (tmp + PAGE_SIZE) (num - 1) (ix + 1) s = Ok (0, t)"
      using 1(2) by (subst (asm) run_free.simps, auto split: if_splits)+
    have u1: "unat (ix + 1) = unat ix + 1" using ix by (intro unat_inc [of _ 65536]) simp
    have n1: "num - 1 \<noteq> 0" "tmp \<le> MAX_MEM" using True by simp_all
    from 1(1) [OF n1(2,1) ix free r n1(1)] have
      h: "unat (num - 1) = 1 \<or> unat ix + 1 + (unat (num - 1) - 1) \<le> 65536"
         "\<forall>i<unat (num - 1) - 1. page_array s (unat ix + 1 + i) = PAGE_FREE" unfolding u1 by blast+
    have p: "0 < unat (num - 1)" using n1(1) by (simp add: unat_gt_0)
    have "page_array s (unat ix + i) = PAGE_FREE" if "i < unat num - 1" for i
    proof (cases i)
      case (Suc k)
      then have "k < unat (num - 1) - 1" using that un by simp
      then show ?thesis using h(2) Suc by simp
    qed (use free in simp)
    moreover have "unat ix + (unat num - 1) \<le> 65536"
      using h(1) p un ix by (auto simp: word_le_nat_alt)
    ultimately show ?thesis by blast
  qed
qed

text \<open>The search for any free run finds a run of free pages at a multiple of its size.\<close>

lemma any_loop_ok:
  assumes "any_loop kip sp sz addr s = Ok (a, s')" and "\<exists>k. unat addr = k * 2 ^ (unat sz mod 32)"
  shows "(a = NO_MAP \<and> s' = s) \<or>
    (\<exists>x k. a = fst (main_memory kip) + x \<and> x < MAX_MEM \<and> unat x = k * 2 ^ (unat sz mod 32) \<and>
       unat x div 4096 + unat (shl 1 (sz - of_nat PAGE_BITS)) \<le> 65536 \<and>
       s' = marked sp (unat x div 4096) (unat (shl 1 (sz - of_nat PAGE_BITS))) s \<and>
       (\<forall>i<unat (shl 1 (sz - of_nat PAGE_BITS)). page_array s (unat x div 4096 + i) = PAGE_FREE))"
  using assms
proof (induction kip sp sz addr s rule: any_loop.induct)
  case (1 kip sp sz addr s)
  let ?n = "shl 1 (sz - of_nat PAGE_BITS)" and ?ix = "drop_bit PAGE_BITS addr"
  have n: "unat (?n + 1) = unat ?n + 1" "0 < unat ?n"
  proof -
    have "unat ?n \<le> 2 ^ 31" unfolding unat_shl_1 by (intro power_increasing) simp_all
    then show "unat (?n + 1) = unat ?n + 1" by (simp add: unat_word_ariths)
    show "0 < unat ?n" unfolding unat_shl_1 by simp
  qed
  then have n0: "?n + 1 \<noteq> 0" by (metis unat_0 add_is_0 zero_neq_one)
  show ?case
  proof (cases "addr < MAX_MEM")
    case False
    then have "any_loop kip sp sz addr s = Ok (NO_MAP, s)" by (subst any_loop.simps) simp
    then show ?thesis using 1(2) by simp
  next
    case True
    obtain num tmp where r: "run_free addr (?n + 1) ?ix s = Ok (num, tmp)"
      using 1(2) True by (subst (asm) any_loop.simps) (auto simp: Let_def split: option.splits sum.splits)
    show ?thesis
    proof (cases "num = 0")
      case num: True
      have f: "unat ?ix + unat ?n \<le> 65536" "\<forall>i<unat ?n. page_array s (unat ?ix + i) = PAGE_FREE"
        using run_free_ok [OF r [unfolded num] n0] n by auto
      have "any_loop kip sp sz addr s = Ok (fst (main_memory kip) + addr, marked sp (unat ?ix) (unat ?n) s)"
        using True r num mark_pages_marked [OF f(1)] by (subst any_loop.simps) (simp add: Let_def)
      then show ?thesis using 1(2,3) True f unfolding page_index by auto
    next
      case num: False
      show ?thesis
      proof (cases "tmp \<ge> MAX_MEM")
        case t: True
        then have "any_loop kip sp sz addr s = Ok (NO_MAP, s)" using True r num by (subst any_loop.simps) (simp add: Let_def)
        then show ?thesis using 1(2) by simp
      next
        case t: False
        then have e: "any_loop kip sp sz (addr + shl 1 sz) s = Ok (a, s')"
          using 1(2) True r num by (subst (asm) any_loop.simps) (simp add: Let_def)
        have "unat (addr + shl 1 sz) = unat addr + 2 ^ (unat sz mod 32)" by (rule unat_add_shl [OF True])
        then have "\<exists>k. unat (addr + shl 1 sz) = k * 2 ^ (unat sz mod 32)" using 1(3) by (metis add.commute mult_Suc)
        from 1(1) [OF True refl refl r refl refl num t e this] show ?thesis .
      qed
    qed
  qed
qed

lemma free_run_frees: "free_run k sp addr e tmp ix s = Ok s' \<Longrightarrow> frees sp s s'"
proof (induction k arbitrary: tmp ix s)
  case (Suc k)
  show ?case
  proof (cases "tmp \<ge> addr \<and> tmp \<le> e")
    case True
    let ?s = "if page_array s (unat ix) = sp then set_page (unat ix) PAGE_FREE s else s"
    have "free_run k sp addr e (tmp + PAGE_SIZE) (ix + 1) ?s = Ok s'"
      using Suc.prems True by (cases "ix \<ge> 65536") (auto split: if_splits)
    then have "frees sp ?s s'" by (rule Suc.IH)
    moreover have "frees sp s ?s" by (simp add: frees_def set_page_def)
    ultimately show ?thesis by (rule frees_trans [rotated])
  next
    case False
    then have "free_run (Suc k) sp addr e tmp ix s = free_run k sp addr e (tmp + PAGE_SIZE) (ix + 1) s" by auto
    then show ?thesis using Suc by metis
  qed
qed simp

lemma res_bind_eq_Ok: "res_bind r f = Ok y \<longleftrightarrow> (\<exists>x. r = Ok x \<and> f x = Ok y)"
  by (auto simp: res_bind_def split: option.splits sum.splits)

lemma free_regions_frees: "free_regions k i sp addr e off s = Ok s' \<Longrightarrow> frees sp s s'"
proof (induction k arbitrary: off s)
  case (Suc k)
  then obtain s1 where s1: "free_region i sp addr e ((addr AND NOT (page_sizes ! i - 1)) + off) s = Ok s1"
    "free_regions k i sp addr e (off + page_sizes ! i) s1 = Ok s'" by (auto simp: res_bind_eq_Ok)
  have "frees sp s s1"
    using s1(1) unfolding free_region_def Let_def res_bind_eq_Ok
    by (auto split: if_splits dest!: free_run_frees simp: frees_def)
  with Suc.IH [OF s1(2)] show ?case by (rule frees_trans [rotated])
qed simp

lemma free_size_frees: "free_size sp addr e sz i s = Ok s' \<Longrightarrow> frees sp s s'"
  unfolding free_size_def Let_def by (rule free_regions_frees)

lemma free_space_frees:
  assumes "free_space sp addr sz s = Ok s'" shows "frees sp s s'"
proof (cases "s0_is_io addr \<or> sz < of_nat PAGE_BITS")
  case True
  then show ?thesis using assms by (auto simp: free_space_def free_io_space_def frees_def Let_def split: if_splits)
next
  case False
  then obtain s1 where "\<exists>a e. free_size sp a e sz 1 s = Ok s1 \<and> free_size sp a e sz 0 s1 = Ok s'"
    using assms by (auto simp: free_space_def Let_def res_bind_eq_Ok simp del: One_nat_def)
  then show ?thesis using free_size_frees frees_trans by metis
qed

section \<open>Taking pages at an address\<close>

lemma allocate_space_ok:
  assumes "allocate_space kip sp addr sz s = Ok (a, s')" and "fst (main_memory kip) = 0"
  defines "n \<equiv> unat (shl 1 (sz - of_nat PAGE_BITS))"
  shows "(a = NO_MAP \<and> s' = s) \<or> (s0_is_io addr \<and> a \<in> {addr, NO_MAP} \<and> page_array s' = page_array s) \<or>
    (\<not> s0_is_io addr \<and> 12 \<le> sz \<and> a = (addr AND NOT (shl 1 sz - 1)) \<and> unat a div 4096 + n \<le> 65536 \<and>
     s' = marked sp (unat a div 4096) n s \<and> (\<forall>i<n. page_array s (unat a div 4096 + i) \<in> {PAGE_FREE, PAGE_SHARED, sp}))"
proof (cases "s0_is_io addr \<or> sz < of_nat PAGE_BITS")
  case True
  then show ?thesis using assms(1,2) unfolding allocate_space_def Let_def
    by (auto simp: allocate_io_space_def Let_def split: if_splits)
next
  case False
  define A where "A = addr AND NOT (shl 1 sz - 1)"
  let ?n = "shl 1 (sz - of_nat PAGE_BITS)"
  obtain b t where c: "check_pages sp A ?n (drop_bit PAGE_BITS A) s = Ok (b, t)"
      "b \<and> t < MAX_MEM \<longrightarrow> unat (drop_bit PAGE_BITS A) + unat ?n \<le> 65536 \<and>
         (\<forall>i<unat ?n. page_array s (unat (drop_bit PAGE_BITS A) + i) \<in> {PAGE_FREE, PAGE_SHARED, sp})"
    using check_pages_ok [OF page_index, of sp A ?n s] by blast
  have e: "allocate_space kip sp addr sz s =
      (if \<not> b \<or> t \<ge> MAX_MEM then Ok (NO_MAP, s)
       else res_bind (mark_pages (unat ?n) sp (drop_bit PAGE_BITS A) s) (\<lambda>s. Ok (A, s)))"
    using False assms(2) c(1) by (simp add: allocate_space_def Let_def A_def)
  show ?thesis
  proof (cases "\<not> b \<or> t \<ge> MAX_MEM")
    case True
    then show ?thesis using e assms(1) by simp
  next
    case ok: False
    then have f: "unat (drop_bit PAGE_BITS A) + unat ?n \<le> 65536"
        "\<forall>i<unat ?n. page_array s (unat (drop_bit PAGE_BITS A) + i) \<in> {PAGE_FREE, PAGE_SHARED, sp}" using c(2) by auto
    then have eq: "a = A" "s' = marked sp (unat A div 4096) n s"
      using e assms(1) ok mark_pages_marked [OF f(1), of sp s] by (auto simp: n_def page_index)
    then show ?thesis using f False unfolding page_index n_def eq A_def [symmetric] by (simp add: PAGE_BITS_def not_less)
  qed
qed


section \<open>Replies\<close>

text \<open>The memory a flexpage covers, as the kernel reads it: the address without the bits below its size.\<close>

definition fpage_base :: "fpage_t \<Rightarrow> dword_t" where
  "fpage_base f = f AND NOT (mask (unat (fp_size f)))"

text \<open>Whether a reply maps the page \<open>p\<close>, writable or not: the kernel takes its flexpage for memory, not for I/O ports, and it
  covers the page.\<close>

definition delivers :: "s0_out \<Rightarrow> nat \<Rightarrow> bool" where
  "delivers out p \<longleftrightarrow> (\<exists>a f. out = Reply 2 a f \<and> \<not> (IOFP_LO_BOUND \<le> f \<and> f \<le> IOFP_HI_BOUND) \<and> unat (fpage_base f) \<le> 4096 * p \<and>
     4096 * p < unat (fpage_base f) + 2 ^ unat (fp_size f))"

lemma attr_bits: "bit (0x300 :: dword_t) n \<longleftrightarrow> n = 8 \<or> n = 9"
proof -
  have "(0x300 :: dword_t) = push_bit 8 (mask 2)" by (simp add: mask_eq_exp_minus_1)
  show ?thesis unfolding \<open>0x300 = push_bit 8 (mask 2)\<close> by (simp only: bit_push_bit_iff bit_mask_iff possible_bit_word) auto
qed

lemma reply_fpage_bits:
  "12 \<le> n \<Longrightarrow> bit (reply_fpage k a sz fp) n = bit a n"
  "fp_write (reply_fpage k a sz fp)" "fp_size (reply_fpage k a sz fp) = sz AND mask 6"
proof -
  have pm: "PAGE_MASK = NOT (mask 12)" by (simp add: PAGE_MASK_def PAGE_SIZE_def mask_eq_exp_minus_1)
  have b: "bit (reply_fpage k a sz fp) n \<longleftrightarrow> (if 12 \<le> n then bit a n else if n = 0 then k else if n = 1 then True
      else if n < 8 then bit sz (n - 2) else if n < 10 then \<not> k \<and> bit fp n else False)" if "n < 32" for n
    unfolding reply_fpage_def l4_fpage_def pm Let_def using that
    by (cases k) (simp_all only: if_True if_False bit_or_iff bit_and_iff bit_not_iff_eq bit_mask_iff possible_bit_word attr_bits
        bit_push_bit_iff bit_two_iff_dword bit_one_iff_dword bit_0_eq bot_apply, auto)
  show "bit (reply_fpage k a sz fp) n = bit a n" if "12 \<le> n"
    using b [of n] that by (cases "n < 32") (auto dest: bit_imp_le_length)
  show "fp_write (reply_fpage k a sz fp)" using b [of 1] by (simp add: fp_write_def)
  show "fp_size (reply_fpage k a sz fp) = sz AND mask 6"
  proof (rule bit_word_eqI)
    fix n assume "n < LENGTH(32)"
    show "bit (fp_size (reply_fpage k a sz fp)) n \<longleftrightarrow> bit (sz AND mask 6) n"
      using b [of "n + 2"] by (cases "n < 6") (simp_all add: fp_size_def bit_simps add.commute)
  qed
qed

lemma reply_fpage_range:
  assumes "unat a mod 2 ^ unat sz = 0" and "12 \<le> unat sz" and "unat sz < 32"
  shows "fpage_base (reply_fpage k a sz fp) = a" "fp_size (reply_fpage k a sz fp) = sz"
proof -
  have "unat (sz AND mask 6) = unat sz" using assms(3) by (simp add: unat_and_mask)
  then have m: "sz AND mask 6 = sz" by (simp add: word_unat_eq_iff)
  then show sz: "fp_size (reply_fpage k a sz fp) = sz" by (simp add: reply_fpage_bits)
  have "a AND mask (unat sz) = 0" using assms(1) unat_and_mask [of a "unat sz"] by (simp add: word_unat_eq_iff)
  then have low: "\<not> bit a n" if "n < unat sz" for n
    using that assms(3) bit_and_iff [of a "mask (unat sz)" n] by (auto simp: bit_simps)
  show "fpage_base (reply_fpage k a sz fp) = a"
    unfolding fpage_base_def sz
  proof (rule bit_word_eqI)
    fix n assume "n < LENGTH(32)"
    then show "bit (reply_fpage k a sz fp AND NOT (mask (unat sz))) n \<longleftrightarrow> bit a n"
      using low [of n] reply_fpage_bits(1) [of n k a sz fp] assms(2) by (cases "n < unat sz") (simp_all add: bit_simps)
  qed
qed


definition s0_task :: "l4_threadid_t \<Rightarrow> space_id_t" where "s0_task client = ucast (x0id_task client)"

text \<open>The replies that are not writable: the kernel info page, ports, and, to a request for any page with a flexpage of ports, the
  address of a page that was free.\<close>

lemma kip_reply:
  assumes "delivers (Reply 2 ka (l4_fpage ka 12 False False)) p"
  shows "p = unat ka div 4096"
proof -
  have pm: "PAGE_MASK = NOT (mask 12)" by (simp add: PAGE_MASK_def PAGE_SIZE_def mask_eq_exp_minus_1)
  let ?f = "l4_fpage ka 12 False False"
  have 12: "(12 :: dword_t) AND mask 6 = 12" by (simp add: mask_eq_exp_minus_1)
  have f: "?f = (ka AND NOT (mask 12)) OR push_bit 2 12" by (simp add: l4_fpage_def pm 12)
  have sz: "fp_size ?f = 12"
  proof -
    have "drop_bit 2 (ka AND NOT (mask 12)) AND mask 6 = (0 :: dword_t)" by (rule bit_word_eqI) (auto simp: bit_simps)
    then show ?thesis unfolding f fp_size_def by (simp add: bit.conj_disj_distrib2 mask_eq_exp_minus_1)
  qed
  have "?f AND NOT (mask 12) = ka AND NOT (mask 12)" unfolding f
    by (simp add: bit.conj_disj_distrib2 mask_eq_exp_minus_1 and.assoc)
  then have "unat (fpage_base ?f) = unat ka - unat ka mod 4096" by (simp add: fpage_base_def sz unat_and_not_mask)
  then show ?thesis using assms sz by (auto simp: delivers_def minus_mod_eq_mult_div)
qed

lemma port_reply:
  assumes "s0_is_io f"
  shows "\<not> delivers (Reply 2 a (f AND NOT 0x3)) p"
proof -
  have "f AND NOT 0x3 \<le> f" by (rule word_and_le2)
  then have "f AND NOT 0x3 \<le> IOFP_HI_BOUND"
    using assms by (auto simp: s0_is_io_def S0_IOFP_HI_BOUND_def IOFP_HI_BOUND_def elim!: order_trans)
  moreover have "IOFP_LO_BOUND \<le> f AND NOT 0x3"
  proof -
    have "(0x3 :: dword_t) = mask 2" by (simp add: mask_eq_exp_minus_1)
    then have "unat (f AND NOT 0x3) = unat f - unat f mod 4" using unat_and_not_mask [of f 2] by simp
    then show ?thesis using assms by (simp add: s0_is_io_def IOFP_LO_BOUND_def word_le_nat_alt) presburger
  qed
  ultimately show ?thesis by (auto simp: delivers_def)
qed

lemma bare_reply:
  assumes "4096 dvd unat a" and "delivers (Reply 2 b (a AND NOT 0x3)) p"
  shows "4096 * p = unat a"
proof -
  have "a AND mask 12 = 0" using assms(1) unat_and_mask [of a 12] by (simp add: word_unat_eq_iff dvd_eq_mod_eq_0)
  then have low: "\<not> bit a n" if "n < 12" for n using that bit_and_iff [of a "mask 12" n] by (auto simp: bit_mask_iff)
  have 3: "(0x3 :: dword_t) = mask 2" by (simp add: mask_eq_exp_minus_1)
  have e: "a AND NOT 0x3 = a" unfolding 3 by (rule bit_word_eqI) (use low in \<open>auto simp: bit_simps\<close>)
  have "fp_size a = 0" unfolding fp_size_def by (rule bit_word_eqI) (use low in \<open>auto simp: bit_simps\<close>)
  then show ?thesis using assms(2) unfolding e by (auto simp: delivers_def fpage_base_def)
qed

lemma marked_page: "page_array (marked sp i n s) j = (if i \<le> j \<and> j < i + n \<and> page_array s j = PAGE_FREE then sp else page_array s j)"
  by (simp add: marked_def)

text \<open>What a successful allocation gives, at an address or anywhere.\<close>

definition granted :: "space_id_t \<Rightarrow> dword_t \<Rightarrow> dword_t \<Rightarrow> s0_t \<Rightarrow> s0_t \<Rightarrow> bool" where
  "granted sp a sz s s' \<longleftrightarrow> (let i = unat a div 4096; n = unat (shl 1 (sz - of_nat PAGE_BITS)) in
     12 \<le> sz \<and> unat a mod 2 ^ (unat sz mod 32) = 0 \<and> s' = marked sp i n s \<and> i + n \<le> 65536 \<and>
     (\<forall>k<n. page_array s (i + k) \<in> {PAGE_FREE, PAGE_SHARED, sp}))"

lemma shl_mask: "shl 1 sz - 1 = mask (unat sz mod 32)"
  by (simp add: shl_def mask_eq_exp_minus_1 push_bit_eq_mult)

lemma allocate_granted:
  assumes "(if fp AND 0x2 \<noteq> 0 then allocate_space kip sp fp sz s else allocate_space_any kip sp sz s) = Ok (a, s')"
    and "fst (main_memory kip) = 0"
  shows "(a = NO_MAP \<and> s' = s) \<or> (s0_is_io fp \<and> a \<in> {fp, NO_MAP} \<and> page_array s' = page_array s) \<or> granted sp a sz s s'"
proof (cases "fp AND 0x2 \<noteq> 0")
  case True
  have "unat (fp AND NOT (shl 1 sz - 1)) mod 2 ^ (unat sz mod 32) = 0"
    unfolding shl_mask unat_and_not_mask by (simp add: minus_mod_eq_mult_div)
  then show ?thesis using allocate_space_ok [OF _ assms(2), of sp fp sz s a s'] assms(1) True by (auto simp: granted_def Let_def)
next
  case False
  show ?thesis
  proof (cases "sz < of_nat PAGE_BITS")
    case True
    then show ?thesis using assms(1) False by (simp add: allocate_space_any_def)
  next
    case sz: False
    then have "any_loop kip sp sz 0 s = Ok (a, s')" using assms(1) False by (simp add: allocate_space_any_def)
    from any_loop_ok [OF this] show ?thesis using assms(2) sz by (auto simp: granted_def Let_def PAGE_BITS_def not_less)
  qed
qed

lemma granted_takes: "granted sp a sz s s' \<Longrightarrow> takes sp s s'"
  unfolding granted_def Let_def using takes_marked by blast

lemma granted_pages:
  assumes g: "granted sp a sz s s'" and sz: "unat sz < 32" and p: "unat a \<le> 4096 * p" "4096 * p < unat a + 2 ^ unat sz"
  shows "page_array s p \<in> {PAGE_FREE, PAGE_SHARED, sp}" "page_array s' p \<in> {PAGE_SHARED, sp}"
proof -
  let ?i = "unat a div 4096" and ?n = "unat (shl 1 (sz - of_nat PAGE_BITS))"
  have 12: "12 \<le> unat sz" using g by (simp add: granted_def Let_def word_le_nat_alt)
  then have "unat (sz - of_nat PAGE_BITS) = unat sz - 12" by (simp add: PAGE_BITS_def unat_sub word_le_nat_alt)
  then have n: "?n = 2 ^ (unat sz - 12)" using sz by (simp add: unat_shl_1)
  have e: "(2 :: nat) ^ unat sz = 4096 * ?n" unfolding n using 12 power_add [of "2 :: nat" 12 "unat sz - 12"] by simp
  have "4096 dvd unat a" using g sz e unfolding granted_def Let_def by (auto intro: dvd_trans [of 4096 "2 ^ unat sz"])
  then have "?i \<le> p" "p < ?i + ?n" using p e by (auto elim!: dvdE)
  then obtain k where k: "k < ?n" "p = ?i + k" by (metis add_less_cancel_left le_Suc_ex)
  then show "page_array s p \<in> {PAGE_FREE, PAGE_SHARED, sp}" using g by (simp add: granted_def Let_def)
  then show "page_array s' p \<in> {PAGE_SHARED, sp}"
    using g k by (auto simp: granted_def Let_def marked_page)
qed


lemma granted_aligned: "granted sp a sz s s' \<Longrightarrow> unat sz < 32 \<Longrightarrow> 4096 dvd unat a"
  unfolding granted_def Let_def using le_imp_power_dvd [of 12 "unat sz" "2 :: nat"] by (auto simp: word_le_nat_alt intro: dvd_trans)

lemma request_cases:
  assumes r: "sigma0_request kip ka me client dw0 dw1 fp s = Ok (out, s')" and low: "fst (main_memory kip) = 0"
  obtains (same) "page_array s' = page_array s" "\<And>p. delivers out p \<Longrightarrow> p = unat ka div 4096"
  | (take) a where "granted (s0_task client) a (fp_size (s0_compat dw0 dw1 fp)) s s'"
      "out = Reply 2 a (reply_fpage (iskernelthread me client) a (fp_size (s0_compat dw0 dw1 fp)) (s0_compat dw0 dw1 fp)) \<or>
       out = Reply 2 (a AND NOT 0x3) (a AND NOT 0x3) \<or> (\<forall>p. \<not> delivers out p)"
  | (free) "frees (s0_task client) s s'" "\<And>p. \<not> delivers out p"
proof -
  let ?f = "s0_compat dw0 dw1 fp" and ?t = "s0_task client"
  consider "dw0 = 1" | "dw0 \<noteq> 1" "?f AND 0x1 \<noteq> 0" | "dw0 \<noteq> 1" "?f AND 0x1 = 0" by blast
  then show thesis
  proof cases
    case 1
    then have "s' = s" "\<And>p. delivers out p \<Longrightarrow> p = unat ka div 4096"
      using r kip_reply [of ka] by (auto simp: sigma0_request_def Let_def split: if_splits) (auto simp: delivers_def)
    then show thesis by (intro same) simp_all
  next
    case 2
    then obtain a s1 where al: "(if ?f AND 0x2 \<noteq> 0 then allocate_space kip ?t ?f (fp_size ?f) s else allocate_space_any kip ?t (fp_size ?f) s) = Ok (a, s1)"
      and o: "(if a \<noteq> NO_MAP then if s0_is_io ?f then Ok (Reply 2 (a AND NOT 0x3) (a AND NOT 0x3), s1)
          else Ok (Reply 2 a (reply_fpage (iskernelthread me client) a (fp_size ?f) ?f), s1) else Ok (Reply 0 0 0, s1)) = Ok (out, s')"
      using r unfolding sigma0_request_def Let_def s0_task_def by (auto simp: res_bind_eq_Ok)
    then have s1: "s1 = s'" and no: "a = NO_MAP \<Longrightarrow> \<not> delivers out p" and io: "a \<noteq> NO_MAP \<Longrightarrow> s0_is_io ?f \<Longrightarrow> out = Reply 2 (a AND NOT 0x3) (a AND NOT 0x3)"
      and map: "a \<noteq> NO_MAP \<Longrightarrow> \<not> s0_is_io ?f \<Longrightarrow> out = Reply 2 a (reply_fpage (iskernelthread me client) a (fp_size ?f) ?f)" for p
      by (auto simp: delivers_def split: if_splits)
    from allocate_granted [OF al low] show thesis
    proof (elim disjE conjE)
      assume "a = NO_MAP" "s1 = s"
      then show thesis using no s1 by (intro same) auto
    next
      assume p: "s0_is_io ?f" "a \<in> {?f, NO_MAP}" "page_array s1 = page_array s"
      then have "\<not> delivers out p" for p using no io port_reply [OF p(1), of "?f AND NOT 0x3" p] by auto
      then show thesis using p(3) s1 by (intro same) auto
    next
      assume "granted ?t a (fp_size ?f) s s1"
      then show thesis using no io map s1 by (intro take [of a]) blast+
    qed
  next
    case 3
    then have "free_space ?t ?f (fp_size ?f) s = Ok s' \<and> out = No_reply"
      using r unfolding sigma0_request_def Let_def s0_task_def by (auto simp: res_bind_eq_Ok)
    then show thesis using free_space_frees by (intro free) (auto simp: delivers_def)
  qed
qed

lemma request_keeps:
  assumes "sigma0_request kip ka me client dw0 dw1 fp s = Ok (out, s')" and "fst (main_memory kip) = 0"
    and "page_array s p \<noteq> PAGE_FREE" and "page_array s p \<noteq> s0_task client"
  shows "page_array s' p = page_array s p"
  using assms(1,2)
proof (cases rule: request_cases)
  case (take a)
  then show ?thesis using granted_takes [OF take(1)] assms(3) by (auto simp: takes_def)
next
  case free
  then show ?thesis using assms(4) by (auto simp: frees_def)
qed simp

lemma request_delivers:
  assumes "sigma0_request kip ka me client dw0 dw1 fp s = Ok (out, s')" and "fst (main_memory kip) = 0"
    and sz: "unat (fp_size (s0_compat dw0 dw1 fp)) < 32" and d: "delivers out p" and kp: "p \<noteq> unat ka div 4096"
  shows "page_array s p \<in> {PAGE_FREE, PAGE_SHARED, s0_task client} \<and> page_array s' p \<in> {PAGE_SHARED, s0_task client}"
  using assms(1,2)
proof (cases rule: request_cases)
  case (take a)
  let ?f = "s0_compat dw0 dw1 fp"
  have "unat a mod 2 ^ unat (fp_size ?f) = 0" "12 \<le> unat (fp_size ?f)"
    using take(1) sz by (simp_all add: granted_def Let_def word_le_nat_alt)
  note f = reply_fpage_range [OF this sz]
  consider "out = Reply 2 a (reply_fpage (iskernelthread me client) a (fp_size ?f) ?f)" | "out = Reply 2 (a AND NOT 0x3) (a AND NOT 0x3)"
    using take(2) d by blast
  then have "unat a \<le> 4096 * p \<and> 4096 * p < unat a + 2 ^ unat (fp_size ?f)"
  proof cases
    case 1
    then show ?thesis using d by (auto simp: delivers_def f)
  next
    case 2
    then show ?thesis using bare_reply [OF granted_aligned [OF take(1) sz]] d by simp
  qed
  with granted_pages [OF take(1) sz] show ?thesis by blast
qed (use d kp in blast)+

end
