(* ===== verification/Sigma0_Protocol.thy ===== *)
theory Sigma0_Protocol
  imports Sigma0_Pages
begin

text \<open>
  The protocol of sigma0 from the client's side: start-up assigns every page by the last region that contains it, a request
  for available memory succeeds, and three requests on which the accounting of sigma0 and what the kernel maps differ.
\<close>

section \<open>Start-up\<close>

lemma setmem_loop_ok:
  assumes "base \<le> i" and "unat i + k < 2 ^ 32" and "unat i - unat base + k \<le> 65536"
  shows "setmem_loop k i base x s =
    Ok (s\<lparr>page_array := \<lambda>j. if unat i - unat base \<le> j \<and> j < unat i - unat base + k then x else page_array s j\<rparr>)"
  using assms
proof (induction k arbitrary: i s)
  case 0
  then show ?case by (auto intro!: s0_t.equality ext)
next
  case (Suc k)
  have u: "unat (i - base) = unat i - unat base" using Suc.prems(1) by (rule unat_sub)
  have i1: "unat (i + 1) = unat i + 1" using Suc.prems(2) by (simp add: unat_word_ariths)
  have le: "unat base \<le> unat i" using Suc.prems(1) by (simp add: word_le_nat_alt)
  have b1: "base \<le> i + 1" using le by (simp add: word_le_nat_alt i1)
  let ?s = "set_page (unat i - unat base) x s"
  have "setmem_loop (Suc k) i base x s = setmem_loop k (i + 1) base x ?s" using Suc.prems(3) by (simp add: u)
  also have "\<dots> = Ok (?s\<lparr>page_array := \<lambda>j. if unat (i + 1) - unat base \<le> j \<and> j < unat (i + 1) - unat base + k then x else page_array ?s j\<rparr>)"
    using Suc.prems le by (intro Suc.IH [OF b1]) (simp_all add: i1)
  also have "?s\<lparr>page_array := \<lambda>j. if unat (i + 1) - unat base \<le> j \<and> j < unat (i + 1) - unat base + k then x else page_array ?s j\<rparr> =
      s\<lparr>page_array := \<lambda>j. if unat i - unat base \<le> j \<and> j < unat i - unat base + Suc k then x else page_array s j\<rparr>"
    using le by (auto simp: set_page_def i1 Suc_diff_le not_less_eq_eq intro!: s0_t.equality ext dest: le_antisym)
  finally show ?case .
qed

text \<open>Whether a region counts, and its pages; main memory starts at address 0.\<close>

definition in_region :: "dword_t \<Rightarrow> dword_t \<times> dword_t \<Rightarrow> nat \<Rightarrow> bool" where
  "in_region tp rng p \<longleftrightarrow> snd rng \<noteq> 0 \<and> snd rng \<le> tp \<and> unat (fst rng) div 4096 \<le> p \<and> p < unat (snd rng) div 4096"

lemma setmem_ok:
  assumes "main_memory kip = (0, tp)" and "unat tp \<le> 2 ^ 28"
  shows "setmem kip rng x s = Ok (s\<lparr>page_array := \<lambda>j. if in_region tp rng j then x else page_array s j\<rparr>)"
proof (cases "snd rng \<noteq> 0 \<and> snd rng \<le> tp")
  case True
  let ?l = "unat (fst rng) div 4096" and ?h = "unat (snd rng) div 4096"
  have h: "?h \<le> 65536" using True assms(2) div_le_mono [of "unat (snd rng)" "2 ^ 28" 4096] by (simp add: word_le_nat_alt)
  show ?thesis
  proof (cases "?l \<le> ?h")
    case le: True
    have "setmem_loop (?h - ?l) (drop_bit PAGE_BITS (fst rng)) 0 x s =
        Ok (s\<lparr>page_array := \<lambda>j. if ?l \<le> j \<and> j < ?l + (?h - ?l) then x else page_array s j\<rparr>)"
      using setmem_loop_ok [of 0 "drop_bit PAGE_BITS (fst rng)" "?h - ?l" x s] h le by (simp add: page_index)
    then show ?thesis using True assms(1) le
      by (auto simp: setmem_def Let_def page_index in_region_def case_prod_beta intro!: s0_t.equality ext)
  next
    case False
    then show ?thesis using True assms(1)
      by (auto simp: setmem_def Let_def page_index in_region_def case_prod_beta intro!: s0_t.equality ext)
  qed
next
  case False
  then show ?thesis using assms(1)
    by (auto simp: setmem_def Let_def in_region_def case_prod_beta intro!: s0_t.equality ext)
qed

fun last_region :: "dword_t \<Rightarrow> ((dword_t \<times> dword_t) \<times> space_id_t) list \<Rightarrow> space_id_t \<Rightarrow> nat \<Rightarrow> space_id_t" where
  "last_region tp [] x p = x"
| "last_region tp ((rng, a) # rs) x p = last_region tp rs (if in_region tp rng p then a else x) p"

lemma setmems_ok:
  assumes "main_memory kip = (0, tp)" and "unat tp \<le> 2 ^ 28"
  shows "setmems kip rs s = Ok (s\<lparr>page_array := \<lambda>p. last_region tp rs (page_array s p) p\<rparr>)"
proof (induction rs arbitrary: s)
  case (Cons r rs)
  obtain rng x where r: "r = (rng, x)" by (cases r)
  let ?s = "s\<lparr>page_array := \<lambda>j. if in_region tp rng j then x else page_array s j\<rparr>"
  have "setmems kip (r # rs) s = setmems kip rs ?s" using setmem_ok [OF assms, of rng x s] by (simp add: r)
  also have "\<dots> = Ok (?s\<lparr>page_array := \<lambda>p. last_region tp rs (page_array ?s p) p\<rparr>)" by (rule Cons.IH)
  also have "?s\<lparr>page_array := \<lambda>p. last_region tp rs (page_array ?s p) p\<rparr> = s\<lparr>page_array := \<lambda>p. last_region tp (r # rs) (page_array s p) p\<rparr>"
    by (auto simp: r intro!: s0_t.equality ext)
  finally show ?case .
qed (auto intro!: s0_t.equality ext)

lemma setmem_loop_overflow:
  "0 < k \<Longrightarrow> unat i + k < 2 ^ 32 \<Longrightarrow> unat i + k > 65536 \<Longrightarrow> setmem_loop k i 0 x s = Err Out_of_bounds"
proof (induction k arbitrary: i s)
  case (Suc k)
  have i1: "unat (i + 1) = unat i + 1" using Suc.prems(2) by (simp add: unat_word_ariths)
  show ?case
  proof (cases "unat i < 65536")
    case True
    then show ?thesis using Suc.IH [of "i + 1" "set_page (unat i) x s"] Suc.prems by (simp add: i1)
  qed simp
qed simp

section \<open>Requests that succeed\<close>

lemma check_pages_all:
  assumes "unat ix = unat tmp div 4096" and "unat tmp + 4096 * unat num < 2 ^ 28"
    and "\<forall>i<unat num. page_array s (unat ix + i) \<in> {PAGE_FREE, PAGE_SHARED, sp}"
  shows "\<exists>t. check_pages sp tmp num ix s = Ok (True, t) \<and> t < MAX_MEM"
  using assms
proof (induction sp tmp num ix s rule: check_pages.induct)
  case (1 sp tmp num ix s)
  have t: "unat tmp < 268435456" using 1(3) by simp
  then have tm: "tmp < MAX_MEM" by (simp add: MAX_MEM_def word_less_nat_alt)
  show ?case
  proof (cases "num = 0")
    case True
    then have "check_pages sp tmp num ix s = Ok (True, tmp)" by (subst check_pages.simps) simp
    then show ?thesis using tm by simp
  next
    case False
    have ix: "unat ix < 65536" using 1(2) t by (simp add: div_less_iff_less_mult)
    then have ix': "\<not> ix \<ge> 65536" by (simp add: word_le_nat_alt)
    have u: "unat (tmp + PAGE_SIZE) = unat tmp + 4096" using t by (simp add: PAGE_SIZE_def unat_word_ariths)
    have u1: "unat (ix + 1) = unat ix + 1" using ix by (intro unat_inc [of _ 65536]) (simp add: word_less_nat_alt)
    have un: "unat num = Suc (unat (num - 1))" using False by (simp add: unat_minus_one unat_gt_0)
    have ok: "page_array s (unat ix) \<in> {PAGE_FREE, PAGE_SHARED, sp}" using 1(4) un by (metis add_0_right zero_less_Suc)
    have e: "check_pages sp tmp num ix s = check_pages sp (tmp + PAGE_SIZE) (num - 1) (ix + 1) s"
      by (subst check_pages.simps) (simp only: tm False ix' ok if_True if_False simp_thms)
    have "unat (ix + 1) = unat (tmp + PAGE_SIZE) div 4096" using 1(2) by (simp add: u u1)
    moreover have "unat (tmp + PAGE_SIZE) + 4096 * unat (num - 1) < 2 ^ 28" using 1(3) un u by simp
    moreover have "\<forall>i<unat (num - 1). page_array s (unat (ix + 1) + i) \<in> {PAGE_FREE, PAGE_SHARED, sp}"
      using 1(4) un u1 by (metis Suc_less_eq add.assoc plus_1_eq_Suc)
    ultimately show ?thesis unfolding e using 1(1) tm False ix' ok by blast
  qed
qed

lemma l4_fpage_bits:
  assumes "n < 32"
  shows "bit (l4_fpage a sz w g OR 0x3) n \<longleftrightarrow> (if 12 \<le> n then bit a n else if n < 2 then True else if n < 8 then bit sz (n - 2) else False)"
proof -
  have pm: "PAGE_MASK = NOT (mask 12)" by (simp add: PAGE_MASK_def PAGE_SIZE_def mask_eq_exp_minus_1)
  have 3: "(0x3 :: dword_t) = mask 2" by (simp add: mask_eq_exp_minus_1)
  show ?thesis unfolding l4_fpage_def pm 3 using assms
    by (cases w; cases g) (simp_all only: if_True if_False bit_or_iff bit_and_iff bit_not_iff_eq bit_mask_iff possible_bit_word
        bit_push_bit_iff bit_two_iff_dword bit_one_iff_dword bit_0_eq bot_apply, auto)
qed

text \<open>The request for a page: its size, its kind and its address.\<close>

lemma getpage_fields:
  fixes w g :: bool
  assumes "unat sz < 64" and "unat a < 2 ^ 28" and "unat a mod 2 ^ k = 0" and "12 \<le> k" and "k < 32"
  defines "f \<equiv> l4_fpage a sz w g OR 0x3"
  shows "fp_size f = sz" "f AND 0x1 \<noteq> 0" "f AND 0x2 \<noteq> 0" "\<not> s0_is_io f" "f AND NOT (mask k) = a" "f \<noteq> 0"
proof -
  note b = l4_fpage_bits [of _ a sz w g, folded f_def]
  have "unat (sz AND mask 6) = unat sz" using assms(1) by (simp add: unat_and_mask)
  then have m: "sz AND mask 6 = sz" by (simp add: word_unat_eq_iff)
  have sz6: "\<not> bit sz n" if "6 \<le> n" for n
    using that bit_and_iff [of sz "mask 6" n] by (simp add: m bit_mask_iff)
  show "fp_size f = sz"
  proof (rule bit_word_eqI)
    fix n assume "n < LENGTH(32)"
    show "bit (fp_size f) n \<longleftrightarrow> bit sz n"
      using b [of "n + 2"] sz6 [of n] by (cases "n < 6") (simp_all add: fp_size_def bit_simps add.commute)
  qed
  show 1: "f AND 0x1 \<noteq> 0" using b [of 0] by (simp add: and_one_bit)
  show "f AND 0x2 \<noteq> 0" using b [of 1] by (simp add: and_two_bit)
  show "f \<noteq> 0" using 1 by auto
  have a28: "n < 28" if "bit a n" for n
  proof -
    have "a = take_bit 28 a" using assms(2) by (simp add: word_unat_eq_iff unsigned_take_bit_eq take_bit_nat_eq_self)
    then show ?thesis using that by (metis bit_take_bit_iff)
  qed
  have "f = take_bit 28 f"
    by (rule bit_word_eqI) (use b a28 in \<open>auto simp: bit_take_bit_iff\<close>)
  then have "unat f < 2 ^ 28" by (metis take_bit_nat_less_exp unsigned_take_bit_eq)
  then show "\<not> s0_is_io f" by (simp add: s0_is_io_def IOFP_LO_BOUND_def word_le_nat_alt)
  have "a AND mask k = 0" using assms(3) unat_and_mask [of a k] by (simp add: word_unat_eq_iff)
  then have low: "\<not> bit a n" if "n < k" for n
    using that assms(5) bit_and_iff [of a "mask k" n] by (auto simp: bit_mask_iff)
  show "f AND NOT (mask k) = a"
  proof (rule bit_word_eqI)
    fix n assume "n < LENGTH(32)"
    then show "bit (f AND NOT (mask k)) n \<longleftrightarrow> bit a n"
      using low [of n] b [of n] assms(4) by (cases "n < k") (simp_all add: bit_simps)
  qed
qed

lemma getpage_request:
  fixes w g :: bool
  assumes low: "fst (main_memory kip) = 0" and sz: "unat sz < 64" "12 \<le> unat sz mod 32" "unat sz mod 32 = k"
    and a: "unat a mod 2 ^ k = 0" "unat a + 2 ^ k < 2 ^ 28"
    and free: "\<forall>i<2 ^ (k - 12). page_array s (unat a div 4096 + i) \<in> {PAGE_FREE, PAGE_SHARED, s0_task c}"
  defines "f \<equiv> l4_fpage a sz w g OR 0x3"
  shows "sigma0_request kip ka me c 0x3 dw1 f s =
    Ok (Reply 2 a (reply_fpage (iskernelthread me c) a sz f), marked (s0_task c) (unat a div 4096) (2 ^ (k - 12)) s)"
proof -
  have k: "12 \<le> k" "k < 32" using sz by auto
  have a28: "unat a < 2 ^ 28" using a(2) by simp
  note f = getpage_fields [OF sz(1) a28 a(1) k, of w g, folded f_def]
  have s12: "of_nat PAGE_BITS \<le> sz" using sz by (simp add: PAGE_BITS_def word_le_nat_alt)
  have n: "unat (shl 1 (sz - of_nat PAGE_BITS)) = 2 ^ (k - 12)"
  proof -
    have "unat (sz - of_nat PAGE_BITS) = unat sz - 12" using s12 by (simp add: unat_sub PAGE_BITS_def)
    moreover have "(unat sz - 12) mod 32 = k - 12"
    proof -
      have "unat sz = k \<or> unat sz = 32 + k" using sz(1,3) by (cases "unat sz < 32") (auto simp: le_mod_geq)
      then have "unat sz - 12 = k - 12 \<or> unat sz - 12 = 32 + (k - 12)" using k by auto
      then show ?thesis using k by (metis less_imp_diff_less mod_add_self1 mod_less)
    qed
    ultimately show ?thesis by (simp add: unat_shl_1)
  qed
  have p: "(2 :: nat) ^ k = 4096 * 2 ^ (k - 12)" using power_add [of "2 :: nat" 12 "k - 12"] k by simp
  have A: "f AND NOT (shl 1 sz - 1) = a" unfolding shl_mask sz(3) by (rule f(5))
  obtain t where c: "check_pages (s0_task c) a (shl 1 (sz - of_nat PAGE_BITS)) (drop_bit PAGE_BITS a) s = Ok (True, t)" "t < MAX_MEM"
    using check_pages_all [OF page_index, of a "shl 1 (sz - of_nat PAGE_BITS)" s "s0_task c"] a(2) free p by (auto simp: n page_index)
  have "unat (drop_bit PAGE_BITS a) + 2 ^ (k - 12) \<le> 65536"
    using a(2) p div_le_mono [of "unat a + 4096 * 2 ^ (k - 12)" "2 ^ 28" 4096] by (simp add: page_index)
  note mark = mark_pages_marked [OF this, of "s0_task c" s]
  have "allocate_space kip (s0_task c) f sz s = Ok (a, marked (s0_task c) (unat a div 4096) (2 ^ (k - 12)) s)"
    using c(1) f(4) leD [OF s12] c(2) [unfolded not_le [symmetric]] low mark unfolding allocate_space_def Let_def A by (simp add: n page_index)
  moreover have "a \<noteq> NO_MAP" using a28 by (auto simp: NO_MAP_def unsigned_minus_1_eq_mask mask_eq_exp_minus_1)
  moreover have "s0_compat 0x3 dw1 f = f" using f(6) by (simp add: s0_compat_def)
  ultimately show ?thesis using f(1-4) by (simp add: sigma0_request_def Let_def s0_task_def)
qed

text \<open>The same region when it ends at the end of the table.\<close>

lemma check_pages_top:
  assumes "unat tmp + 4096 * unat num = 2 ^ 28"
    and "check_pages sp tmp num ix s = Ok (True, t)"
  shows "t \<ge> MAX_MEM"
  using assms
proof (induction sp tmp num ix s rule: check_pages.induct)
  case (1 sp tmp num ix s)
  show ?case
  proof (cases "tmp < MAX_MEM \<and> num \<noteq> 0")
    case False
    then have "t = tmp" using 1(3) by (subst (asm) check_pages.simps) (simp only: if_False, simp)
    then show ?thesis using 1(2) False by (auto simp: MAX_MEM_def word_le_nat_alt not_less)
  next
    case True
    then have t: "unat tmp < 268435456" by (simp add: MAX_MEM_def word_less_nat_alt)
    have u: "unat (tmp + PAGE_SIZE) = unat tmp + 4096" using t by (simp add: PAGE_SIZE_def unat_word_ariths)
    have un: "unat num = Suc (unat (num - 1))" using True by (simp add: unat_minus_one unat_gt_0)
    have c: "\<not> ix \<ge> 65536" "page_array s (unat ix) \<in> {PAGE_FREE, PAGE_SHARED, sp}"
        "check_pages sp (tmp + PAGE_SIZE) (num - 1) (ix + 1) s = Ok (True, t)"
      using 1(3) True by (subst (asm) check_pages.simps, simp split: if_splits)+
    show ?thesis using 1(1) [OF True c(1,2) _ c(3)] 1(2) u un by simp
  qed
qed

text \<open>The same request for a region that ends at the end of the table is refused, even when all its pages are free.\<close>

lemma getpage_top_refused:
  assumes low: "fst (main_memory kip) = 0" and sz: "12 \<le> unat sz" "unat sz < 28"
    and a: "unat a mod 2 ^ unat sz = 0" "unat a + 2 ^ unat sz = 2 ^ 28"
  shows "sigma0_request kip ka me c 0x3 dw1 (l4_fpage a sz w g OR 0x3) s = Ok (Reply 0 0 0, s)"
proof -
  define f where "f = l4_fpage a sz w g OR 0x3"
  have a28: "unat a < 2 ^ 28" using a(2) zero_less_power [of "2 :: nat" "unat sz"] by linarith
  have s: "unat sz < 64" "unat sz < 32" using sz by simp_all
  note f = getpage_fields [OF s(1) a28 a(1) sz(1) s(2), of w g, folded f_def]
  let ?n = "shl 1 (sz - of_nat PAGE_BITS)"
  have s12: "of_nat PAGE_BITS \<le> sz" using sz by (simp add: PAGE_BITS_def word_le_nat_alt)
  have "unat (sz - of_nat PAGE_BITS) = unat sz - 12" using s12 by (simp add: unat_sub PAGE_BITS_def)
  then have n: "unat ?n = 2 ^ (unat sz - 12)" using sz by (simp add: unat_shl_1)
  have p: "(2 :: nat) ^ unat sz = 4096 * 2 ^ (unat sz - 12)" using power_add [of "2 :: nat" 12 "unat sz - 12"] sz by simp
  have A: "f AND NOT (shl 1 sz - 1) = a" unfolding shl_mask using f(5) s(2) by simp
  obtain b t where c: "check_pages (s0_task c) a ?n (drop_bit PAGE_BITS a) s = Ok (b, t)"
    using check_pages_ok [OF page_index, of "s0_task c" a ?n s] by blast
  have "\<not> b \<or> t \<ge> MAX_MEM" using check_pages_top [of a ?n "s0_task c" _ s t] c a(2) by (auto simp: n p)
  then have "allocate_space kip (s0_task c) f sz s = Ok (NO_MAP, s)"
    using c f(4) low unfolding allocate_space_def Let_def A by auto
  moreover have "s0_compat 0x3 dw1 f = f" using f(6) by (simp add: s0_compat_def)
  ultimately show ?thesis using f(1-3) unfolding f_def [symmetric] by (simp add: sigma0_request_def Let_def s0_task_def)
qed

section \<open>A sample\<close>

text \<open>64 MB of memory, of which one page belongs to task 5.\<close>

definition demo_kip :: l4_kernel_info_t where
  "demo_kip = \<lparr>main_memory = (0, 0x4000000), dedicated = [(0xA0000, 0x100000)], reserved0 = (0x100000, 0x200000), reserved1 = (0, 0),
     root_memory = (0x200000, 0x240000), sigma0_memory = (0, 0), sigma1_memory = (0, 0), kdebug_memory = (0, 0)\<rparr>"

definition demo_s0 :: s0_t where
  "demo_s0 = \<lparr>page_array = (\<lambda>_. PAGE_FREE)(7 := 5), io_space = \<lambda>_. PORT_FREE, s0_unmaps = []\<rparr>"

abbreviation demo_client :: l4_threadid_t where "demo_client \<equiv> 0x60000"

lemma demo_task: "s0_task demo_client = 6"
  by (simp add: s0_task_def x0id_task_def mask_eq_exp_minus_1)

lemma demo_page:
  "sigma0_request demo_kip 0x1000 0x20000 demo_client 0x3 0 (l4_fpage 0x8000 12 True True OR 0x3) demo_s0 =
     Ok (Reply 2 0x8000 (reply_fpage False 0x8000 12 (l4_fpage 0x8000 12 True True OR 0x3)), marked 6 8 1 demo_s0)"
proof -
  have "\<not> iskernelthread 0x20000 demo_client" by (simp add: iskernelthread_def)
  then show ?thesis
    using getpage_request [of demo_kip 12 12 "0x8000" demo_s0 demo_client "0x1000" "0x20000" 0 True True]
    by (simp add: demo_task demo_kip_def demo_s0_def)
qed

lemma demo_refused:
  assumes "page_array s 7 = 5"
  shows "sigma0_request demo_kip 0x1000 0x20000 demo_client 0x3 0 (l4_fpage 0x7000 12 True True OR 0x3) s = Ok (Reply 0 0 0, s)"
proof -
  have f: "l4_fpage 0x7000 12 True True OR 0x3 = 0x7033" by (simp add: l4_fpage_def PAGE_MASK_def PAGE_SIZE_def mask_eq_exp_minus_1)
  have "check_pages 6 0x7000 1 7 s = Ok (False, 0x7000)"
    using assms by (simp add: check_pages.simps MAX_MEM_def PAGE_FREE_def PAGE_SHARED_def)
  then have "allocate_space demo_kip 6 0x7033 12 s = Ok (NO_MAP, s)"
    by (simp add: allocate_space_def demo_kip_def s0_is_io_def IOFP_LO_BOUND_def PAGE_BITS_def shl_def)
  then show ?thesis unfolding f
    by (simp add: sigma0_request_def Let_def s0_compat_def fp_size_def mask_eq_exp_minus_1 demo_task [unfolded s0_task_def])
qed

lemma demo_sizes: "unat (fp_size (s0_compat 0x3 0 (l4_fpage 0x8000 12 True True OR 0x3))) < 32"
  "unat (fp_size (s0_compat 0x3 0 (l4_fpage 0x7000 12 True True OR 0x3))) < 32"
  by (simp_all add: l4_fpage_def PAGE_MASK_def PAGE_SIZE_def mask_eq_exp_minus_1 s0_compat_def fp_size_def)

section \<open>Properties\<close>

text \<open>A series of messages with the replies, each a client and the three words of its message.\<close>

inductive s0_run ::
    "l4_kernel_info_t \<Rightarrow> dword_t \<Rightarrow> l4_threadid_t \<Rightarrow> s0_t \<Rightarrow> (l4_threadid_t \<times> dword_t \<times> dword_t \<times> fpage_t \<times> s0_out) list \<Rightarrow> s0_t \<Rightarrow> bool"
  for kip ka me where
  s0_nil: "s0_run kip ka me s [] s"
| s0_step: "sigma0_request kip ka me c dw0 dw1 fp s = Ok (out, s1) \<Longrightarrow> s0_run kip ka me s1 tr s2 \<Longrightarrow>
    s0_run kip ka me s ((c, dw0, dw1, fp, out) # tr) s2"

inductive_cases s0_runE: "s0_run kip ka me s tr s'"

text \<open>\<^bold>\<open>C24.\<close> Memory has one owner. Where main memory starts at address 0, as long as only other tasks send requests, in whatever
  number and order and of whatever kind, but with flexpages of a size below \<open>2 ^ 32\<close>, a page of a task stays with this task and no
  reply maps it to anyone, writable or not, unless it is the kernel info page. The bound on the size is needed: see the
  request of size \<open>32 + k\<close> below.\<close>

theorem sigma0_exclusive:
  assumes "s0_run kip ka me s tr s'" and "fst (main_memory kip) = 0"
    and "page_array s p = t" and "t \<notin> {PAGE_FREE, PAGE_SHARED}" and "p \<noteq> unat ka div 4096"
    and "\<forall>(c, dw0, dw1, fp, out)\<in>set tr. s0_task c \<noteq> t \<and> unat (fp_size (s0_compat dw0 dw1 fp)) < 32"
  shows "page_array s' p = t \<and> (\<forall>(c, dw0, dw1, fp, out)\<in>set tr. \<not> delivers out p)"
  using assms(1,3,6)
proof (induction rule: s0_run.induct)
  case (s0_step c dw0 dw1 fp s out s1 tr s2)
  then have c: "s0_task c \<noteq> t" "unat (fp_size (s0_compat dw0 dw1 fp)) < 32" by auto
  have "page_array s1 p = t" using request_keeps [OF s0_step(1) assms(2), of p] s0_step(4) c assms(4) by auto
  moreover have "\<not> delivers out p" using request_delivers [OF s0_step(1) assms(2) c(2) _ assms(5)] s0_step(4) c assms(4) by auto
  ultimately show ?case using s0_step(3,5) by auto
qed simp

theorem sigma0_exclusive_witness:
  "page_array (marked 6 8 1 demo_s0) 7 = 5 \<and>
   \<not> delivers (Reply 2 0x8000 (reply_fpage False 0x8000 12 (l4_fpage 0x8000 12 True True OR 0x3))) 7 \<and> \<not> delivers (Reply 0 0 0) 7"
proof -
  have "s0_run demo_kip 0x1000 0x20000 demo_s0
      [(demo_client, 0x3, 0, l4_fpage 0x8000 12 True True OR 0x3, Reply 2 0x8000 (reply_fpage False 0x8000 12 (l4_fpage 0x8000 12 True True OR 0x3))),
       (demo_client, 0x3, 0, l4_fpage 0x7000 12 True True OR 0x3, Reply 0 0 0)] (marked 6 8 1 demo_s0)"
    by (rule s0_step [OF demo_page s0_step [OF demo_refused s0_nil]]) (simp add: marked_page demo_s0_def)
  from sigma0_exclusive [OF this, of 7 5] show ?thesis
    using demo_sizes by (simp add: demo_kip_def demo_task) (simp add: demo_s0_def PAGE_FREE_def PAGE_SHARED_def)
qed

text \<open>\<^bold>\<open>C27.\<close> At start-up every page gets the attribute of the last region of the kernel info page that contains it and lies
  in main memory, and is reserved when there is none; all ports are free. With main memory of more than 256 MB the loop
  writes behind the end of the table.\<close>

theorem sigma0_init_correct:
  assumes "main_memory kip = (0, tp)"
  shows "(unat tp \<le> 2 ^ 28 \<longrightarrow> (\<exists>s'. init_space kip s = Ok s' \<and> (\<forall>i. io_space s' i = PORT_FREE) \<and>
       (\<forall>p. page_array s' p = last_region tp (init_regions kip) PAGE_RESERVED p))) \<and>
    (2 ^ 28 + 4096 \<le> unat tp \<longrightarrow> init_space kip s = Err Out_of_bounds)"
proof (intro conjI impI)
  assume "unat tp \<le> 2 ^ 28"
  from setmems_ok [OF assms this] show "\<exists>s'. init_space kip s = Ok s' \<and> (\<forall>i. io_space s' i = PORT_FREE) \<and>
       (\<forall>p. page_array s' p = last_region tp (init_regions kip) PAGE_RESERVED p)" by (simp add: init_space_def)
next
  assume b: "2 ^ 28 + 4096 \<le> unat tp"
  let ?k = "unat tp div 4096"
  have "65536 < ?k" using div_le_mono [OF b, of 4096] by simp
  moreover have "?k < 2 ^ 32" using unsigned_less [of tp, where ?'a = nat] div_le_dividend [of "unat tp" 4096] by simp
  ultimately have "setmem_loop ?k 0 0 PAGE_FREE t = Err Out_of_bounds" for t
    using setmem_loop_overflow [of ?k 0 PAGE_FREE t] by simp
  moreover have "tp \<noteq> 0" using b by auto
  ultimately show "init_space kip s = Err Out_of_bounds"
    by (simp add: init_space_def init_regions_def setmem_def assms page_index Let_def)
qed

theorem sigma0_init_correct_witness:
  "\<exists>s'. init_space demo_kip demo_s0 = Ok s' \<and> page_array s' 0x90 = PAGE_FREE \<and> page_array s' 0xA0 = PAGE_SHARED \<and>
     page_array s' 0x100 = PAGE_RESERVED \<and> page_array s' 0x200 = PAGE_ROOT \<and> page_array s' 0x4000 = PAGE_RESERVED"
proof -
  have t: "main_memory demo_kip = (0, 0x4000000)" by (simp add: demo_kip_def)
  obtain s' where s': "init_space demo_kip demo_s0 = Ok s'"
    "\<And>p. page_array s' p = last_region 0x4000000 (init_regions demo_kip) PAGE_RESERVED p"
    using sigma0_init_correct [OF t, of demo_s0] by auto
  then show ?thesis
    by (intro exI [of _ s']) (simp add: s'(2) init_regions_def demo_kip_def in_region_def)
qed

text \<open>\<^bold>\<open>C26.\<close> A client that asks with the interface function for an aligned region of available memory below 256 MB gets it: the
  reply maps exactly this region, writable, and the free pages of the region become the client's while no other page changes.\<close>

theorem sigma0_getpage_correct:
  assumes "fst (main_memory kip) = 0" and "12 \<le> unat sz" and "unat a mod 2 ^ unat sz = 0" and "unat a + 2 ^ unat sz < 2 ^ 28"
    and "\<forall>i<2 ^ (unat sz - 12). page_array s (unat a div 4096 + i) \<in> {PAGE_FREE, PAGE_SHARED, s0_task c}"
    and "l4_sigma0_getpage (l4_fpage a sz w g) = (dw0, dw1, fp)"
  shows "\<exists>f s'. sigma0_request kip ka me c dw0 dw1 fp s = Ok (Reply 2 a f, s') \<and>
    fp_write f \<and> fpage_base f = a \<and> fp_size f = sz \<and>
    (\<forall>p. page_array s' p = (if unat a div 4096 \<le> p \<and> p < unat a div 4096 + 2 ^ (unat sz - 12) \<and> page_array s p = PAGE_FREE
       then s0_task c else page_array s p))"
proof -
  have "(2 :: nat) ^ unat sz < 2 ^ 28" using assms(4) by linarith
  then have sz: "unat sz < 28" by (rule power_less_imp_less_exp [rotated]) simp
  have m: "dw0 = 0x3" "fp = l4_fpage a sz w g OR 0x3" using assms(6) by (auto simp: l4_sigma0_getpage_def)
  have "sigma0_request kip ka me c dw0 dw1 fp s =
      Ok (Reply 2 a (reply_fpage (iskernelthread me c) a sz fp), marked (s0_task c) (unat a div 4096) (2 ^ (unat sz - 12)) s)"
    unfolding m using assms(1-5) sz by (intro getpage_request) simp_all
  then show ?thesis using reply_fpage_range [of a sz "iskernelthread me c" fp] reply_fpage_bits(2) assms(2,3) sz
    by (simp add: marked_page)
qed

theorem sigma0_getpage_correct_witness:
  "\<exists>f s'. sigma0_request demo_kip 0x1000 0x20000 demo_client 0x3 0 (l4_fpage 0x8000 13 True True OR 0x3) demo_s0 = Ok (Reply 2 0x8000 f, s') \<and>
     fp_write f \<and> fpage_base f = 0x8000 \<and> fp_size f = 13 \<and> page_array s' 8 = 6 \<and> page_array s' 9 = 6 \<and> page_array s' 7 = 5"
proof -
  have "\<exists>f s'. sigma0_request demo_kip 0x1000 0x20000 demo_client 0x3 0 (l4_fpage 0x8000 13 True True OR 0x3) demo_s0 = Ok (Reply 2 0x8000 f, s') \<and>
      fp_write f \<and> fpage_base f = 0x8000 \<and> fp_size f = 13 \<and>
      (\<forall>p. page_array s' p = (if unat (0x8000 :: dword_t) div 4096 \<le> p \<and> p < unat (0x8000 :: dword_t) div 4096 + 2 ^ (unat (13 :: dword_t) - 12) \<and>
         page_array demo_s0 p = PAGE_FREE then s0_task demo_client else page_array demo_s0 p))"
    by (rule sigma0_getpage_correct [of demo_kip 13 "0x8000" demo_s0 demo_client True True])
      (simp_all add: demo_kip_def demo_s0_def demo_task l4_sigma0_getpage_def)
  then show ?thesis by (force simp: demo_s0_def demo_task PAGE_FREE_def)
qed

text \<open>\<^bold>\<open>C28.\<close> The size field of a flexpage has six bits and the processor takes shift counts modulo 32: for a request of size
  \<open>32 + k\<close> sigma0 checks and marks the pages of one region of size \<open>k\<close>, but the reply has the size \<open>32 + k\<close>, and the kernel
  starts a transfer of \<open>2 ^ (k + 10)\<close> superpages to a receiver with a large window.\<close>

theorem sigma0_size_hole:
  assumes "fst (main_memory kip) = 0" and "12 \<le> k" and "k < 22" and "unat a mod 2 ^ k = 0" and "unat a + 2 ^ k < 2 ^ 28"
    and "\<forall>i<2 ^ (k - 12). page_array s (unat a div 4096 + i) \<in> {PAGE_FREE, PAGE_SHARED, s0_task c}"
    and "l4_sigma0_getpage (l4_fpage a (of_nat (32 + k)) w g) = (dw0, dw1, fp)" and "unat (fp_size rcv) = 63"
  shows "\<exists>f v. sigma0_request kip ka me c dw0 dw1 fp s = Ok (Reply 2 a f, marked (s0_task c) (unat a div 4096) (2 ^ (k - 12)) s) \<and>
    mf_start b f rcv fs ts = Some (1, v) \<and> unat (mf_fnum v) = 2 ^ (k + 10)"
proof -
  let ?sz = "of_nat (32 + k) :: dword_t"
  have u: "unat ?sz = 32 + k" using assms(3) by (intro unat_of_nat_small) simp
  have m: "dw0 = 0x3" "fp = l4_fpage a ?sz w g OR 0x3" using assms(7) by (auto simp: l4_sigma0_getpage_def)
  define f where "f = reply_fpage (iskernelthread me c) a ?sz fp"
  have r: "sigma0_request kip ka me c dw0 dw1 fp s = Ok (Reply 2 a f, marked (s0_task c) (unat a div 4096) (2 ^ (k - 12)) s)"
    unfolding f_def m using assms(1-6) u by (intro getpage_request) (simp_all del: of_nat_add)
  have "unat (?sz AND mask 6) = 32 + k" using assms(3) u by (simp add: unat_and_mask)
  then have sz: "fp_size f = ?sz" by (simp add: f_def reply_fpage_bits(3) word_unat_eq_iff u del: of_nat_add)
  have pg: "find_pgsize (HW_NUM_PGSIZES - 1) ?sz = 1" using u assms(2) 
    by (simp add: HW_NUM_PGSIZES_def hw_pgshifts_def HW_VALID_PGSIZES_def is_pgsize_valid_def word_less_nat_alt word_le_nat_alt del: of_nat_add)
  have "unat (?sz - 22) = k + 10" using u by (simp add: unat_sub word_le_nat_alt del: of_nat_add)
  then have "unat (shl 1 (?sz - 22)) = 2 ^ (k + 10)" using assms(3) by (simp add: unat_shl_1)
  then show ?thesis using r sz pg u assms(3,8)
    by (simp add: mf_start_def Let_def hw_pgshifts_def word_le_nat_alt del: of_nat_add)
qed

theorem sigma0_size_hole_witness:
  "\<exists>f v. sigma0_request demo_kip 0x1000 0x20000 demo_client 0x3 0 (l4_fpage 0x8000 (of_nat (32 + 12)) True True OR 0x3) demo_s0 =
       Ok (Reply 2 0x8000 f, marked (s0_task demo_client) (unat (0x8000 :: dword_t) div 4096) (2 ^ (12 - 12)) demo_s0) \<and>
     mf_start 0 f 0xFE 0x10400000 0x10500000 = Some (1, v) \<and> unat (mf_fnum v) = 2 ^ (12 + 10)"
  by (rule sigma0_size_hole [of demo_kip 12 "0x8000" demo_s0 demo_client True True])
    (simp_all add: demo_kip_def demo_s0_def demo_task l4_sigma0_getpage_def fp_size_def mask_eq_exp_minus_1)

text \<open>\<^bold>\<open>C29.\<close> The interface function that gives a page back does not: its first word is 0, which sigma0 takes for a request
  for the page at address 0. No page becomes free, nothing is unmapped, no other page than the first changes, and there is a
  reply, for which the client does not wait.\<close>

theorem sigma0_freepage_ignored:
  assumes "fst (main_memory kip) = 0" and "l4_sigma0_freepage x = (dw0, dw1, fp)"
  shows "\<exists>out s'. sigma0_request kip ka me c dw0 dw1 fp s = Ok (out, s') \<and> out \<noteq> No_reply \<and> s0_unmaps s' = s0_unmaps s \<and>
    (\<forall>p. p \<noteq> 0 \<or> page_array s p \<noteq> PAGE_FREE \<longrightarrow> page_array s' p = page_array s p)"
proof -
  have m: "dw0 = 0" using assms(2) by (simp add: l4_sigma0_freepage_def)
  have f: "s0_compat 0 dw1 fp = 0x33"
    by (simp add: s0_compat_def l4_fpage_def DEFAULT_SIZE_def mask_eq_exp_minus_1)
  have z: "fp_size 0x33 = 12" by (simp add: fp_size_def mask_eq_exp_minus_1)
  have al: "allocate_space kip t 0x33 12 s =
      (if page_array s 0 \<in> {PAGE_FREE, PAGE_SHARED, t} then Ok (0, marked t 0 1 s) else Ok (NO_MAP, s))" for t
    using mark_pages_marked [of 0 1 t s] assms(1)
    by (simp add: allocate_space_def s0_is_io_def IOFP_LO_BOUND_def PAGE_BITS_def shl_def check_pages.simps MAX_MEM_def PAGE_SIZE_def)
  show ?thesis unfolding m sigma0_request_def Let_def f z
    by (auto simp: al s0_is_io_def IOFP_LO_BOUND_def marked_page NO_MAP_def) (auto simp: marked_def)
qed

theorem sigma0_freepage_ignored_witness:
  "\<exists>out s'. sigma0_request demo_kip 0x1000 0x20000 0x50000 0 0 0x7032 demo_s0 = Ok (out, s') \<and> out \<noteq> No_reply \<and> s0_unmaps s' = [] \<and>
     page_array s' 7 = 5"
proof -
  have "l4_sigma0_freepage 0x7030 = (0, 0, 0x7032)" by (simp add: l4_sigma0_freepage_def)
  from sigma0_freepage_ignored [OF _ this, of demo_kip "0x1000" "0x20000" "0x50000" demo_s0] obtain out s' where
    "sigma0_request demo_kip 0x1000 0x20000 0x50000 0 0 0x7032 demo_s0 = Ok (out, s')" "out \<noteq> No_reply" "s0_unmaps s' = s0_unmaps demo_s0"
    "\<forall>p. p \<noteq> 0 \<or> page_array demo_s0 p \<noteq> PAGE_FREE \<longrightarrow> page_array s' p = page_array demo_s0 p"
    by (auto simp: demo_kip_def)
  then show ?thesis by (auto simp: demo_s0_def)
qed

end
