(* ===== verification/Spec2Isabelle.thy ===== *)
theory Spec2Isabelle
  imports Schedule Mapping_Insert Mapping_Pieces Address_Spaces Space_Create Ex_Regs Ipc_Rendezvous Ipc_Copy Fault_Handling Emulation
    Io_Remap Sigma0_Protocol
begin

text \<open>
  Verification of the L4Ka Hazelnut microkernel (\<^verbatim>\<open>src/kernel\<close>) and of the initial pager sigma0 (\<^verbatim>\<open>src/apps/sigma0\<close>).

  \<^bold>\<open>The program.\<close> Hazelnut is a kernel for x86 processors with seven system calls. Threads of different address spaces
  exchange messages (IPC); a message can carry words, strings and flexpages, that is, parts of the sender's address space
  that are mapped or granted to the receiver. The mapping database remembers who got which page or I/O port from whom, so
  that everything can be unmapped again. A page fault becomes a message to the thread's pager. The first pager is sigma0,
  which owns all memory at start and hands it out on request. The kernel schedules threads by priorities, and keeps all its
  data in memory that a small allocator manages.

  \<^bold>\<open>Configuration.\<close> The model is of the shipped configuration \<^verbatim>\<open>include/config.h\<close>: one processor of the i686 family,
  \<^verbatim>\<open>IO_FLEXPAGES\<close>, in-kernel interrupt controller, large and global pages, no small address spaces. Output of messages,
  trace points and entering the debugger have no effect; \<^verbatim>\<open>panic\<close> is an error value. File names below are relative to
  \<^verbatim>\<open>src/kernel\<close>.

  \<^bold>\<open>State.\<close> \<open>kstate\<close> (Kstate) extends \<open>mdb_mem\<close> (Mdb\_Alloc), which extends \<open>kmem\<close> (Kmem). \<open>kmem\<close> has the flat
  memory of words \<open>mem\<close> and the variables of the allocator; page tables, mapping nodes, buffers, bitmaps and kernel stacks are
  cells of \<open>mem\<close> at the addresses the code uses. \<open>kstate\<close> adds the thread control blocks as records \<open>tcb_t\<close> by address,
  the ready queues, the interrupt owners, the clock, and the memory of user programs as bytes by physical
  address (\<open>umem\<close>). What start-up determines once is an argument: \<open>kenv\<close> and \<open>ienv\<close> (code and data addresses), \<open>penv\<close> and
  \<open>xenv\<close> (page faults and exceptions), \<open>io_vars\<close> (I/O bitmaps). Machine words are \<open>32 word\<close>, so that arithmetic wraps as in
  the code; shift counts that are not constants are taken modulo 32 as by the processor.

  \<^bold>\<open>Results.\<close> A function that can fail has the type \<open>'a kres\<close>: \<open>Ok\<close>, or \<open>Err\<close> with a panic, a use of the null pointer, an index out
  of bounds, or a page fault. \<open>kres\<close> is an option because loops that follow pointers are partial functions: \<open>None\<close> means that
  the loop does not end. Theorems state \<open>Ok\<close> or \<open>Some\<close> results, so they include termination; no fuel is
  used. Loops that end in every state are total functions with termination proofs. An operation that gives up the processor in the middle
  ends there, with a value that says where it goes on: \<open>sys_ipc\<close> and \<open>ipc_resume\<close> (\<open>ipc_point\<close>), \<open>pagefault\<close> and
  \<open>pf_resume\<close> (\<open>pf_out\<close>, \<open>pf_cont\<close>).

  \<^bold>\<open>Theories.\<close>
  \<^item> Prelude: result types, collections of facts, lemmas on words and lists. Ring\_Lists: doubly linked rings; the locale
    \<open>link_fields\<close> has the laws of two link fields, \<open>sentinel_queue\<close> extends it to rings through a fixed thread. They are
    interpreted in Queues for the ready, wakeup, present and send links of the control blocks.
  \<^item> Kmem: \<^verbatim>\<open>src/kmemory.c\<close>. The invariant \<open>kmem_inv\<close> relates the free list to the set of free chunks. Allocation hands out
    an aligned, zeroed run of free chunks and takes exactly these; freeing inserts exactly the chunks of the block.
  \<^item> Kstate, Queues, Schedule: \<^verbatim>\<open>include/thread.h\<close>, \<^verbatim>\<open>include/tcb.h\<close>, \<^verbatim>\<open>include/schedule.h\<close>,
    \<^verbatim>\<open>src/schedule.c\<close>, \<^verbatim>\<open>src/x86/resources.c\<close>. Identifiers and control blocks; the queues refine lists (\<open>sched_ok\<close> says that all of them are
    well-formed); the search for the next thread is round robin in the highest priority; timer ticks wake exactly the expired threads and choose
    a running thread with a time slice;
    every sequence of scheduling events (\<open>sched_run\<close>) keeps the queues well-formed.
  \<^item> Mdb\_Alloc, Mdb\_Pools, Mdb\_Heap: \<^verbatim>\<open>src/mapping_alloc.c\<close>. The locale \<open>page_source\<close> is what the pools need of kernel
    memory, interpreted for \<open>kmem_alloc\<close> and \<open>kmem_free\<close>. The pools refine an abstract allocator, a set of buffers in use
    (\<open>mdb_ok\<close>).
  \<^item> Mapnodes, Mapping, Mapping\_Tree, Mapping\_Insert, Mapping\_Pieces: \<^verbatim>\<open>include/x86/mapping.h\<close>, \<^verbatim>\<open>src/mapping.c\<close>. The mappings
    of a frame are a list in tree order (\<open>mlist\<close>); mapping inserts one node below its parent, flushing removes exactly a subtree,
    and withdrawing write access misses pieces of a page that is mapped on in pieces.
  \<^item> Fpage, Fpage\_Ops, Address\_Spaces, Space\_Create: \<^verbatim>\<open>src/memory.c\<close>, address spaces of \<^verbatim>\<open>src/x86/memory.c\<close>. Mapping a page
    gives no more rights than the sender has, unmapping revokes it from all who got it, and both together restore the state of the receiver.
  \<^item> Io\_Mapping, Io\_Bitmap, Io\_Map, Io\_Revoke, Io\_Remap: \<^verbatim>\<open>src/x86/io_mapping.c\<close>, the database for I/O ports and the permission bitmaps. The
    locale \<open>port_bitmap\<close> has the laws of setting and clearing a range, interpreted for \<open>set_bits\<close> and \<open>clear_bits\<close>. A mapping gives the
    receiver exactly the ports that the flexpage and the sender's node have in common; unmapping the flexpage denies them again, and
    mapping a flexpage that covers them replaces the receiver's node. The three are stated for a sender with one node and a receiver with a bitmap
    of its own (\<open>io_single\<close>).
  \<^item> Threads, Unwind, Delete\_Threads, Ex\_Regs: \<^verbatim>\<open>src/thread.c\<close>. Creating, deleting and changing threads; deleting the threads of a space
    takes exactly these out of all queues, the send queues included, unless one is in a message transfer; unwinding an IPC ends, also
    through a cycle of partners.
  \<^item> Ipc, Ipc\_Ops, Ipc\_Rendezvous, Ipc\_Copy, Ipc\_Errors: \<^verbatim>\<open>src/ipc.c\<close> and interrupt delivery of \<^verbatim>\<open>src/x86/interrupt.c\<close>. The
    rendezvous delivers the message whichever side comes first; long messages end and copy exactly their bytes; timeouts and interrupts.
  \<^item> Pagefault, Fault\_Handling, Exceptions, Fpu, Emulation: the page fault handler of \<^verbatim>\<open>src/x86/memory.c\<close> and the exception handler of
    \<^verbatim>\<open>src/x86/interrupt.c\<close>. A fault reaches the pager and the thread goes on after the reply; the floating point unit is
    switched without losing registers; which ports the pager is asked for when an I/O instruction faults.
  \<^item> Sigma0, Sigma0\_Pages, Sigma0\_Protocol: \<^verbatim>\<open>src/apps/sigma0/sigma0-new.c\<close> and \<^verbatim>\<open>src/apps/include/l4/sigma0.h\<close>. The request
    loop as a function from message to reply; \<open>s0_run\<close> are sequences of requests. A page has one owner as long as requests have sizes below 32; requests for available
    memory succeed; what the kernel makes of a reply with an oversized flexpage.

  \<^bold>\<open>Hypotheses.\<close> Theorems about one operation assume the invariants of the data it uses (\<open>kmem_inv\<close>, \<open>sched_ok\<close>, \<open>mdb_ok\<close>,
  \<open>mlist\<close>) and that areas of memory with different uses are disjoint; each has a witness that applies it to a concrete state.
  The definitions whose names start with \<open>demo\<close> are these states.

  \<^bold>\<open>Not modelled.\<close> Start-up code of the processor and entry and exit code in assembly; the TLB and caches; the kernel
  debugger; multiprocessor code, small address spaces, the local APIC and the ports to ARM and MIPS, which the configuration leaves
  out; that \<open>sys_ipc\<close> repeats an access after its page fault has been handled (the access ends in the value \<open>Page_fault\<close>, and the handling of
  the fault is a function of its own); the other programs in \<^verbatim>\<open>src/apps\<close>, and the earlier kernels in \<^verbatim>\<open>src/l4-x86\<close>, which are
  written in assembly language.
\<close>

end
